(* ===== verification/Prelude.thy ===== *)
theory Prelude
  imports Main "HOL-Library.Word" "HOL-Library.Monad_Syntax"
begin

unbundle bit_operations_syntax

text \<open>
  Vocabulary shared by every component: the machine types of the i386 target, the flat
  RAM of the single address space, and the lemmas about lists and options that several
  components use.

  The kernel runs in one flat, unprotected address space. RAM is the list of its bytes and
  a pointer is an index into that list; an access past the end of RAM faults, which is the
  value \<open>None\<close>. Pointer values are natural numbers, so pointer arithmetic does not wrap;
  integers that the code computes with are words of their C width.
\<close>

type_synonym u8 = "8 word"
type_synonym u16 = "16 word"
type_synonym u32 = "32 word"
type_synonym u64 = "64 word"
type_synonym addr = nat
type_synonym ram = "u8 list"

text \<open>The \<open>errno\<close> values the modelled code sets.\<close>

datatype errno_t = E_OK | ENOENT | EBADF | ECHILD | ENOMEM | EACCES | EINVAL | ENFILE
  | ESPIPE | ERANGE | EROFS | ENOSYS

named_theorems ram_simps \<open>reading and writing RAM\<close>

section \<open>RAM\<close>

definition load :: "ram \<Rightarrow> addr \<Rightarrow> u8 option" where
  "load m a = (if a < length m then Some (m ! a) else None)"

definition store :: "ram \<Rightarrow> addr \<Rightarrow> u8 \<Rightarrow> ram option" where
  "store m a v = (if a < length m then Some (m[a := v]) else None)"

lemma load_Some [ram_simps]: "load m a = Some v \<longleftrightarrow> a < length m \<and> v = m ! a"
  by (auto simp: load_def)

lemma load_None [ram_simps]: "load m a = None \<longleftrightarrow> length m \<le> a"
  by (simp add: load_def not_less)

lemma store_Some [ram_simps]: "store m a v = Some m' \<longleftrightarrow> a < length m \<and> m' = m[a := v]"
  by (auto simp: store_def)

lemma store_None [ram_simps]: "store m a v = None \<longleftrightarrow> length m \<le> a"
  by (simp add: store_def not_less)

lemma load_bound: "load m a = Some v \<Longrightarrow> a < length m"
  by (simp add: ram_simps)

lemma load_store_same: "store m a v = Some m' \<Longrightarrow> load m' a = Some v"
  by (auto simp: ram_simps)

lemma load_store_other: "store m a v = Some m' \<Longrightarrow> a \<noteq> b \<Longrightarrow> load m' b = load m b"
  by (auto simp: ram_simps load_def)

lemma length_store: "store m a v = Some m' \<Longrightarrow> length m' = length m"
  by (auto simp: ram_simps)

lemma ex_triple [simp]: "\<exists>a b c. t = (a, b, c)"
  by (metis surj_pair)

section \<open>Signed arithmetic\<close>

text \<open>A signed 32-bit result; an overflow is undefined.\<close>

definition i32 :: "int \<Rightarrow> int option" where
  "i32 k = (if - 2147483648 \<le> k \<and> k < 2147483648 then Some k else None)"

lemma i32_Some: "- 2147483648 \<le> k \<Longrightarrow> k < 2147483648 \<Longrightarrow> i32 k = Some k"
  by (simp add: i32_def)

section \<open>Lists\<close>

text \<open>The slice of \<open>n\<close> elements from position \<open>a\<close>, and the list with a slice replaced.\<close>

definition seg :: "nat \<Rightarrow> nat \<Rightarrow> 'a list \<Rightarrow> 'a list" where
  "seg a n xs = take n (drop a xs)"

definition patch :: "nat \<Rightarrow> 'a list \<Rightarrow> 'a list \<Rightarrow> 'a list" where
  "patch a ys xs = take a xs @ ys @ drop (a + length ys) xs"

lemma length_seg [simp]: "length (seg a n xs) = min n (length xs - a)"
  by (simp add: seg_def min.commute)

lemma length_patch: "a + length ys \<le> length xs \<Longrightarrow> length (patch a ys xs) = length xs"
  by (simp add: patch_def)

lemma nth_seg: "i < n \<Longrightarrow> a + n \<le> length xs \<Longrightarrow> seg a n xs ! i = xs ! (a + i)"
  by (simp add: seg_def)

lemma nth_patch:
  assumes "a + length ys \<le> length xs" "i < length xs"
  shows "patch a ys xs ! i = (if a \<le> i \<and> i < a + length ys then ys ! (i - a) else xs ! i)"
  using assms by (auto simp: patch_def nth_append min_def)

lemma seg_patch: "a + length ys \<le> length xs \<Longrightarrow> seg a (length ys) (patch a ys xs) = ys"
  by (simp add: seg_def patch_def)

lemma take_min_drop [simp]: "take (min (length xs - p) n) (drop p xs) = take n (drop p xs)"
  by (auto simp: min_def)

lemma patch_Nil [simp]: "patch a [] xs = xs"
  by (simp add: patch_def)

lemma seg_0 [simp]: "seg a 0 xs = []"
  by (simp add: seg_def)

lemma seg_Suc: "a < length xs \<Longrightarrow> seg a (Suc n) xs = xs ! a # seg (Suc a) n xs"
  by (simp add: seg_def flip: Cons_nth_drop_Suc)

lemma list_eq_iff_nth: "xs = ys \<longleftrightarrow> length xs = length ys \<and> (\<forall>i<length xs. xs ! i = ys ! i)"
  by (auto intro: nth_equalityI)

lemma load_drop: "load m (a + i) = (if i < length (drop a m) then Some (drop a m ! i) else None)"
  by (simp add: load_def less_diff_conv add.commute)

section \<open>Words\<close>

text \<open>The idiom \<open>(unsigned)(x - lo) < hi - lo\<close> is the range check.\<close>

lemma range_check:
  fixes lo hi x :: "'a::len word"
  assumes "lo \<le> hi"
  shows "x - lo < hi - lo \<longleftrightarrow> lo \<le> x \<and> x < hi"
proof -
  have h: "unat hi < 2 ^ LENGTH('a)" by (rule unsigned_less)
  have l: "unat lo \<le> unat hi" using assms by (simp add: word_le_nat_alt)
  show ?thesis
  proof (cases "unat lo \<le> unat x")
    case True
    with l show ?thesis
      by (auto simp: word_less_nat_alt word_le_nat_alt unat_sub_if')
  next
    case False
    have "\<not> unat x + 2 ^ LENGTH('a) - unat lo < unat hi - unat lo"
      using h l by linarith
    with False l show ?thesis
      by (simp add: word_less_nat_alt word_le_nat_alt unat_sub_if')
  qed
qed

lemma word_le_nat: "(n :: nat) < 2 ^ LENGTH('a) \<Longrightarrow> (w :: 'a::len word) \<le> of_nat n \<longleftrightarrow> unat w \<le> n"
  and word_less_nat: "(n :: nat) < 2 ^ LENGTH('a) \<Longrightarrow> (w :: 'a::len word) < of_nat n \<longleftrightarrow> unat w < n"
  by (simp_all add: word_le_nat_alt word_less_nat_alt unat_of_nat)

lemma unat_u32: "unat (w :: u32) < 4294967296"
  by (rule order.strict_trans2 [OF unsigned_less]) simp

lemma unat_u8: "unat (b :: u8) < 256"
  by (rule order.strict_trans2 [OF unsigned_less]) simp

lemma and_255: "unat ((w::'a::len word) AND 0xff) = unat w mod 256"
proof -
  have "w AND 0xff = take_bit 8 w" by (simp add: take_bit_eq_mask mask_eq_exp_minus_1)
  then have "unat (w AND 0xff) = unat (take_bit 8 w)" by (simp only:)
  also have "\<dots> = unat w mod 256" by (simp only: unsigned_take_bit_eq take_bit_eq_mod [where 'a = nat]) simp
  finally show ?thesis .
qed
lemma unat_drop8: "unat (drop_bit 8 (w::'a::len word)) = unat w div 256"
  by (simp only: unsigned_drop_bit_eq drop_bit_eq_div [where 'a = nat])
    (simp add: take_bit_nat_eq_self unsigned_less)
lemma unat_ucast8: "unat (ucast (c :: u8) :: 'a::len word) = unat c mod 2 ^ LENGTH('a)"
  by (simp only: unsigned_ucast_eq take_bit_eq_mod)

lemma unat_u64: "unat (w :: u64) < 18446744073709551616"
  by (rule order.strict_trans2 [OF unsigned_less]) simp
lemma sint_cases: "sint (w :: 'a::len word) = (if uint w < 2 ^ (LENGTH('a) - 1) then uint w else uint w - 2 ^ LENGTH('a))"
proof -
  obtain k where k: "LENGTH('a) = Suc k" by (metis len_gt_0 gr0_conv_Suc)
  define h where "h = (2 :: int) ^ k"
  have s: "sint w = (uint w + h) mod (2 * h) - h"
    by (simp add: sint_uint signed_take_bit_eq_take_bit_shift take_bit_eq_mod h_def k)
  have L: "2 ^ LENGTH('a) = 2 * h" "2 ^ (LENGTH('a) - 1) = h" by (simp_all add: h_def k)
  have b: "0 \<le> uint w" "uint w < 2 * h" unfolding L(1) [symmetric] by (simp_all add: unsigned_less)
  have hp: "0 < h" by (simp add: h_def)
  show ?thesis
  proof (cases "uint w < h")
    case True
    then have "(uint w + h) mod (2 * h) = uint w + h"
      using b hp by (intro mod_pos_pos_trivial) auto
    with s True show ?thesis unfolding L by simp
  next
    case False
    then have "(uint w + h) mod (2 * h) = uint w + h - 2 * h"
      using b hp by (subst mod_pos_geq) auto
    with s False show ?thesis unfolding L by simp
  qed
qed
end
