(* ===== verification/Memfs.thy ===== *)
theory Memfs
  imports Prelude
begin

text \<open>
  The file-descriptor layer of the kernel (\<^verbatim>\<open>lib/c/i386/kludges.c\<close>): the POSIX calls the C
  library makes, implemented on Python file objects. The table \<open>memfs_fd\<close> has 64 entries;
  descriptors 0 to 2 are the console streams that \<open>set_stdin\<close> and its siblings install.

  The Python side is reached by \<open>PyObject_CallMethod\<close> only, so it is a parameter of the
  model: a record \<open>vfs\<close> of the methods the code calls, over a world \<open>'w\<close>. A call either
  raises an exception (\<open>Inl\<close>, the C side sees NULL and the interpreter's error indicator is
  set) or returns an object (\<open>Inr\<close>). The result of every operation is an \<open>option\<close>:
  \<open>None\<close> is undefined behaviour, an access outside \<open>memfs_fd\<close> or through a NULL object.
  Reference counts are not modelled.
\<close>

section \<open>Python values\<close>

type_synonym exc = nat

text \<open>A Python 2.3 \<open>int\<close> holds a C \<open>long\<close>, 32 bits on this target.\<close>

datatype pyval = PyInt u32 | PyStr "u8 list" | PyLong int | PyObj

type_synonym pyattrs = "string \<Rightarrow> pyval option"

datatype uuu_root = NoUuuModule | NoRootVfs exc | RootVfs

record ('f, 'n, 'w) vfs =
  vfs_root :: "'w \<Rightarrow> uuu_root"
  vfs_open :: "'w \<Rightarrow> u8 list \<Rightarrow> bool \<Rightarrow> bool \<Rightarrow> u32 \<Rightarrow> u32 \<Rightarrow> u32 \<Rightarrow> u32 \<Rightarrow> (exc + 'f) \<times> 'w"
  node_open :: "'w \<Rightarrow> 'n \<Rightarrow> bool \<Rightarrow> bool \<Rightarrow> bool \<Rightarrow> bool \<Rightarrow> (exc + 'f) \<times> 'w"
  m_write :: "'w \<Rightarrow> 'f \<Rightarrow> u8 list \<Rightarrow> (exc + pyval) \<times> 'w"
  m_read :: "'w \<Rightarrow> 'f \<Rightarrow> int \<Rightarrow> (exc + pyval) \<times> 'w"
  m_seek :: "'w \<Rightarrow> 'f \<Rightarrow> int \<Rightarrow> int option \<Rightarrow> (exc + pyval) \<times> 'w"
  m_tell :: "'w \<Rightarrow> 'f \<Rightarrow> int option \<Rightarrow> (exc + pyval) \<times> 'w"
  m_close :: "'w \<Rightarrow> 'f \<Rightarrow> (exc + pyval) \<times> 'w"
  m_stat :: "'w \<Rightarrow> 'f \<Rightarrow> (exc + pyattrs) \<times> 'w"
  as_longlong :: "pyval \<Rightarrow> exc + u64"

section \<open>State\<close>

record 'f fdent =
  fd_file :: "'f option"
  in_use :: bool

record ('f, 'w) kst =
  fds :: "'f fdent list"
  world :: 'w
  errno :: errno_t
  pyerr :: "exc option"
  fake_time :: int
  next_pid :: int

definition memfs_limit_fds :: nat where
  "memfs_limit_fds = 64"

definition init_kst :: "'w \<Rightarrow> ('f, 'w) kst" where
  "init_kst w = \<lparr>fds = replicate memfs_limit_fds \<lparr>fd_file = None, in_use = False\<rparr>,
     world = w, errno = E_OK, pyerr = None, fake_time = 1073591226, next_pid = 2\<rparr>"

text \<open>The entry \<open>memfs_fd[fd]\<close>; an index outside the array is undefined behaviour.\<close>

definition fd_entry :: "('f, 'w) kst \<Rightarrow> int \<Rightarrow> 'f fdent option" where
  "fd_entry s fd = (if 0 \<le> fd \<and> fd < int (length (fds s)) then Some (fds s ! nat fd) else None)"

text \<open>A finished call into Python: NULL with the error indicator set, or the result.\<close>

definition py_call :: "(exc + 'r) \<times> 'w \<Rightarrow> ('f, 'w) kst \<Rightarrow> 'r option \<times> ('f, 'w) kst" where
  "py_call r s = (case r of
       (Inl e, w) \<Rightarrow> (None, s\<lparr>world := w, pyerr := Some e\<rparr>)
     | (Inr v, w) \<Rightarrow> (Some v, s\<lparr>world := w\<rparr>))"

definition set_fd :: "int \<Rightarrow> 'f fdent \<Rightarrow> ('f, 'w) kst \<Rightarrow> ('f, 'w) kst" where
  "set_fd fd e s = s\<lparr>fds := (fds s)[nat fd := e]\<rparr>"

section \<open>Operations\<close>

definition uuu_open :: "('f, 'n, 'w) vfs \<Rightarrow> u8 list \<Rightarrow> bool \<Rightarrow> bool \<Rightarrow> u32 \<Rightarrow> u32 \<Rightarrow> u32 \<Rightarrow> u32 \<Rightarrow>
    ('f, 'w) kst \<Rightarrow> 'f option \<times> ('f, 'w) kst" where
  "uuu_open api path r w create trunc app mode s =
     (case vfs_root api (world s) of
        NoUuuModule \<Rightarrow> (None, s)
      | NoRootVfs e \<Rightarrow> (None, s\<lparr>pyerr := Some e\<rparr>)
      | RootVfs \<Rightarrow> py_call (vfs_open api (world s) path r w create trunc app mode) s)"

text \<open>\<open>write(fd, buf, count)\<close>; \<open>buf\<close> is the list of the \<open>count\<close> bytes at the pointer.\<close>

definition memfs_write :: "('f, 'n, 'w) vfs \<Rightarrow> int \<Rightarrow> u8 list \<Rightarrow> ('f, 'w) kst \<Rightarrow>
    (int \<times> ('f, 'w) kst) option" where
  "memfs_write api fd buf s = do {
     e \<leftarrow> fd_entry s fd;
     if \<not> in_use e then Some (-1, s\<lparr>errno := EINVAL\<rparr>) else do {
       f \<leftarrow> fd_file e;
       let saved = pyerr s;
       let s1 = s\<lparr>pyerr := None\<rparr>;
       Some (case py_call (m_write api (world s1) f buf) s1 of
           (None, s2) \<Rightarrow> (-1, s2\<lparr>pyerr := saved, errno := EINVAL\<rparr>)
         | (Some v, s2) \<Rightarrow> (case v of
               PyInt n \<Rightarrow> (sint n, s2\<lparr>pyerr := saved\<rparr>)
             | _ \<Rightarrow> (-1, s2\<lparr>pyerr := saved, errno := EINVAL\<rparr>)))
     }
   }"

text \<open>
  \<open>read(fd, buf, count)\<close> returns its result and the bytes it stored at \<open>buf\<close>. The \<open>size_t\<close>
  \<open>count\<close> reaches the method as the \<open>int\<close> of the same bits, and is compared with the unsigned
  length of the string; the length is returned as an \<open>int\<close>.
\<close>

definition memfs_read :: "('f, 'n, 'w) vfs \<Rightarrow> int \<Rightarrow> u32 \<Rightarrow> ('f, 'w) kst \<Rightarrow>
    (int \<times> u8 list \<times> ('f, 'w) kst) option" where
  "memfs_read api fd count s =
     (if count = 0 then Some (0, [], s) else do {
        e \<leftarrow> fd_entry s fd;
        if \<not> in_use e then Some (-1, [], s\<lparr>errno := EINVAL\<rparr>) else do {
          f \<leftarrow> fd_file e;
          let saved = pyerr s;
          let s1 = s\<lparr>pyerr := None\<rparr>;
          Some (case py_call (m_read api (world s1) f (sint count)) s1 of
              (None, s2) \<Rightarrow> (-1, [], s2\<lparr>pyerr := saved, errno := EINVAL\<rparr>)
            | (Some v, s2) \<Rightarrow> (case v of
                  PyStr bs \<Rightarrow>
                    let size = of_nat (length bs);
                        string_length = (if count < size then count else size)
                    in (sint string_length, take (unat string_length) bs, s2\<lparr>pyerr := saved\<rparr>)
                | _ \<Rightarrow> (-1, [], s2\<lparr>pyerr := saved, errno := EINVAL\<rparr>)))
        }
      })"

text \<open>The successful path of \<open>lseek\<close> has no \<open>PyErr_Restore\<close>, as in the code.\<close>

definition memfs_lseek :: "('f, 'n, 'w) vfs \<Rightarrow> int \<Rightarrow> int \<Rightarrow> int \<Rightarrow> ('f, 'w) kst \<Rightarrow>
    (int \<times> ('f, 'w) kst) option" where
  "memfs_lseek api fd offset whence s =
     (if fd < 3 then Some (-1, s\<lparr>errno := ESPIPE\<rparr>) else do {
        e \<leftarrow> fd_entry s fd;
        if \<not> in_use e then Some (-1, s\<lparr>errno := EBADF\<rparr>) else do {
          f \<leftarrow> fd_file e;
          let saved = pyerr s;
          let s1 = s\<lparr>pyerr := None\<rparr>;
          Some (case py_call (m_seek api (world s1) f offset (Some whence)) s1 of
              (None, s2) \<Rightarrow> (-1, s2\<lparr>pyerr := saved, errno := EINVAL\<rparr>)
            | (Some _, s2) \<Rightarrow>
                (case py_call (m_tell api (world s2) f None) s2 of
                   (None, s3) \<Rightarrow> (-1, s3\<lparr>pyerr := saved, errno := EINVAL\<rparr>)
                 | (Some v, s3) \<Rightarrow> (case v of
                       PyInt n \<Rightarrow> (sint n, s3)
                     | _ \<Rightarrow> (-1, s3\<lparr>pyerr := saved, errno := EINVAL\<rparr>))))
        }
      })"

definition memfs_close :: "('f, 'n, 'w) vfs \<Rightarrow> int \<Rightarrow> ('f, 'w) kst \<Rightarrow> (int \<times> ('f, 'w) kst) option" where
  "memfs_close api fd s =
     (if fd < 3 then Some (0, s) else do {
        e \<leftarrow> fd_entry s fd;
        if \<not> in_use e then Some (-1, s\<lparr>errno := EBADF\<rparr>) else do {
          f \<leftarrow> fd_file e;
          let saved = pyerr s;
          let s1 = s\<lparr>pyerr := None\<rparr>;
          Some (case py_call (m_close api (world s1) f) s1 of
              (None, s2) \<Rightarrow> (-1, s2\<lparr>errno := ENOSYS, pyerr := saved\<rparr>)
            | (Some _, s2) \<Rightarrow>
                (0, set_fd fd \<lparr>fd_file = Some f, in_use = False\<rparr> s2 \<lparr>pyerr := saved\<rparr>))
        }
      })"

text \<open>
  The search loop of \<open>open\<close>: it reads \<open>memfs_fd[fd].in_use\<close> before it compares \<open>fd\<close> with
  the limit, so on a full table it reads one entry past the array (\<open>None\<close>). \<open>Inl ()\<close> is
  the ENFILE exit.
\<close>

function find_fd :: "'f fdent list \<Rightarrow> nat \<Rightarrow> (unit + nat) option" where
  "find_fd t fd =
     (if fd < length t then
        if in_use (t ! fd) then
          if memfs_limit_fds \<le> fd then Some (Inl ()) else find_fd t (Suc fd)
        else Some (Inr fd)
      else None)"
  by pat_completeness auto
termination
  by (relation "measure (\<lambda>(t, fd). length t - fd)") auto

declare find_fd.simps [simp del]

definition O_ACCMODE :: u32 where "O_ACCMODE = 3"
definition O_RDONLY :: u32 where "O_RDONLY = 0"
definition O_WRONLY :: u32 where "O_WRONLY = 1"
definition O_RDWR :: u32 where "O_RDWR = 2"
definition O_CREAT :: u32 where "O_CREAT = 64"
definition O_TRUNC :: u32 where "O_TRUNC = 512"
definition O_APPEND :: u32 where "O_APPEND = 1024"

definition memfs_open :: "('f, 'n, 'w) vfs \<Rightarrow> u8 list \<Rightarrow> u32 \<Rightarrow> u32 \<Rightarrow> ('f, 'w) kst \<Rightarrow>
    (int \<times> ('f, 'w) kst) option" where
  "memfs_open api pathname flags mode s =
     (let saved = pyerr s; s1 = s\<lparr>pyerr := None\<rparr>; acc = flags AND O_ACCMODE in
      case uuu_open api pathname (acc = O_RDONLY \<or> acc = O_RDWR) (acc = O_WRONLY \<or> acc = O_RDWR)
          (flags AND O_CREAT) (flags AND O_TRUNC) (flags AND O_APPEND) mode s1 of
        (None, s2) \<Rightarrow> Some (-1, s2\<lparr>pyerr := saved, errno := ENOENT\<rparr>)
      | (Some file, s2) \<Rightarrow> do {
          r \<leftarrow> find_fd (fds s2) 3;
          Some (case r of
              Inl _ \<Rightarrow> (-1, s2\<lparr>errno := ENFILE\<rparr>)
            | Inr fd \<Rightarrow> (int fd, set_fd (int fd) \<lparr>fd_file = Some file, in_use = True\<rparr> s2
                                  \<lparr>pyerr := saved\<rparr>))
        })"


record cstat =
  st_ino :: u32
  st_mode :: u16
  st_nlink :: u16
  st_uid :: u16
  st_gid :: u16
  st_size :: u32
  st_atime :: u32
  st_mtime :: u32
  st_ctime :: u32

definition zero_stat :: cstat where
  "zero_stat = \<lparr>st_ino = 0, st_mode = 0, st_nlink = 0, st_uid = 0, st_gid = 0, st_size = 0,
     st_atime = 0, st_mtime = 0, st_ctime = 0\<rparr>"

text \<open>\<open>member && PyInt_Check(member)\<close>: a missing or non-integer attribute leaves the field 0.\<close>

definition int_member :: "pyattrs \<Rightarrow> string \<Rightarrow> u32" where
  "int_member st name = (case st name of Some (PyInt n) \<Rightarrow> n | _ \<Rightarrow> 0)"

definition fill_stat :: "pyattrs \<Rightarrow> cstat" where
  "fill_stat st = zero_stat
     \<lparr>st_ino := int_member st ''st_ino'',
      st_mode := ucast (int_member st ''st_mode''),
      st_nlink := ucast (int_member st ''st_nlink''),
      st_uid := ucast (int_member st ''st_uid''),
      st_gid := ucast (int_member st ''st_gid''),
      st_size := int_member st ''st_size'',
      st_atime := int_member st ''st_atime'',
      st_mtime := int_member st ''st_mtime'',
      st_ctime := int_member st ''st_ctime''\<rparr>"

text \<open>\<open>fstat\<close> returns its result and the structure stored at \<open>buf\<close> (if it was written).\<close>

definition memfs_fstat :: "('f, 'n, 'w) vfs \<Rightarrow> int \<Rightarrow> ('f, 'w) kst \<Rightarrow>
    (int \<times> cstat option \<times> ('f, 'w) kst) option" where
  "memfs_fstat api fd s =
     (if int memfs_limit_fds \<le> fd then Some (-1, None, s\<lparr>errno := EBADF\<rparr>) else do {
        e \<leftarrow> fd_entry s fd;
        if \<not> in_use e then Some (-1, None, s\<lparr>errno := EBADF\<rparr>) else do {
          f \<leftarrow> fd_file e;
          let saved = pyerr s;
          let s1 = s\<lparr>pyerr := None\<rparr>;
          Some (case py_call (m_stat api (world s1) f) s1 of
              (None, s2) \<Rightarrow> (-1, Some zero_stat, s2\<lparr>errno := ENOSYS, pyerr := saved\<rparr>)
            | (Some st, s2) \<Rightarrow> (0, Some (fill_stat st), s2\<lparr>pyerr := saved\<rparr>))
        }
      })"

text \<open>
  \<open>llseek\<close> passes one argument to \<open>seek\<close> and passes \<open>whence\<close> to \<open>tell\<close>, as in the code;
  its successful path has no \<open>PyErr_Restore\<close> either. The middle component is the value
  stored at \<open>p_offset\<close>: when \<open>PyLong_AsLongLong\<close> cannot convert what \<open>tell\<close> returned it sets
  an exception and -1 is stored, and the call still returns 0.
\<close>

definition memfs_llseek :: "('f, 'n, 'w) vfs \<Rightarrow> int \<Rightarrow> u32 \<Rightarrow> u32 \<Rightarrow> int \<Rightarrow> ('f, 'w) kst \<Rightarrow>
    (int \<times> u64 option \<times> ('f, 'w) kst) option" where
  "memfs_llseek api fd hi lo whence s =
     (if int memfs_limit_fds \<le> fd then Some (-1, None, s\<lparr>errno := EBADF\<rparr>) else do {
        e \<leftarrow> fd_entry s fd;
        if \<not> in_use e then Some (-1, None, s\<lparr>errno := EBADF\<rparr>) else
        if whence < 0 \<or> 2 < whence then Some (-1, None, s\<lparr>errno := EINVAL\<rparr>) else do {
          f \<leftarrow> fd_file e;
          let saved = pyerr s;
          let s1 = s\<lparr>pyerr := None\<rparr>;
          let off = (push_bit 32 (ucast hi) OR ucast lo :: u64);
          Some (case py_call (m_seek api (world s1) f (sint off) None) s1 of
              (None, s2) \<Rightarrow> (-1, None, s2\<lparr>pyerr := saved, errno := EINVAL\<rparr>)
            | (Some _, s2) \<Rightarrow>
                (case py_call (m_tell api (world s2) f (Some whence)) s2 of
                   (None, s3) \<Rightarrow> (-1, None, s3\<lparr>pyerr := saved, errno := EINVAL\<rparr>)
                 | (Some v, s3) \<Rightarrow> (case as_longlong api v of
                       Inl e \<Rightarrow> (0, Some (- 1), s3\<lparr>pyerr := Some e\<rparr>)
                     | Inr n \<Rightarrow> (0, Some n, s3))))
        }
      })"

text \<open>
  \<open>set_stdin\<close>, \<open>set_stdout\<close> and \<open>set_stderr\<close> after their argument is parsed. The result is
  whether the call returned \<open>None\<close> (true) or NULL.
\<close>

definition set_std :: "('f, 'n, 'w) vfs \<Rightarrow> nat \<Rightarrow> bool \<Rightarrow> bool \<Rightarrow> bool \<Rightarrow> bool \<Rightarrow> 'n \<Rightarrow> ('f, 'w) kst \<Rightarrow>
    bool \<times> ('f, 'w) kst" where
  "set_std api fd r w app trunc node s =
     (case py_call (node_open api (world s) node r w app trunc) s of
        (None, s1) \<Rightarrow> (False, s1)
      | (Some file, s1) \<Rightarrow>
          (True, set_fd (int fd) \<lparr>fd_file = Some file, in_use = True\<rparr> s1))"

definition set_stdin :: "('f, 'n, 'w) vfs \<Rightarrow> 'n \<Rightarrow> ('f, 'w) kst \<Rightarrow> bool \<times> ('f, 'w) kst" where
  "set_stdin api = set_std api 0 True False False False"

definition set_stdout :: "('f, 'n, 'w) vfs \<Rightarrow> 'n \<Rightarrow> ('f, 'w) kst \<Rightarrow> bool \<times> ('f, 'w) kst" where
  "set_stdout api = set_std api 1 False True True False"

definition set_stderr :: "('f, 'n, 'w) vfs \<Rightarrow> 'n \<Rightarrow> ('f, 'w) kst \<Rightarrow> bool \<times> ('f, 'w) kst" where
  "set_stderr api = set_std api 2 False True True False"

section \<open>The calls the kernel does not support\<close>

definition fails_with :: "errno_t \<Rightarrow> ('f, 'w) kst \<Rightarrow> int \<times> ('f, 'w) kst" where
  "fails_with e s = (-1, s\<lparr>errno := e\<rparr>)"

definition k_rename :: "('f, 'w) kst \<Rightarrow> int \<times> ('f, 'w) kst" where
  "k_rename = fails_with EROFS"

definition k_access :: "('f, 'w) kst \<Rightarrow> int \<times> ('f, 'w) kst" where
  "k_access s = (0, s)"

definition k_unlink :: "('f, 'w) kst \<Rightarrow> int \<times> ('f, 'w) kst" where
  "k_unlink = fails_with EROFS"

definition k_ioctl :: "('f, 'w) kst \<Rightarrow> int \<times> ('f, 'w) kst" where
  "k_ioctl = fails_with EINVAL"

definition k_kill :: "('f, 'w) kst \<Rightarrow> int \<times> ('f, 'w) kst" where
  "k_kill s = (0, s)"

definition k_rmdir :: "('f, 'w) kst \<Rightarrow> int \<times> ('f, 'w) kst" where
  "k_rmdir = fails_with EROFS"

definition k_fork :: "('f, 'w) kst \<Rightarrow> int \<times> ('f, 'w) kst" where
  "k_fork = fails_with ENOMEM"

definition k_waitpid :: "('f, 'w) kst \<Rightarrow> int \<times> ('f, 'w) kst" where
  "k_waitpid = fails_with ECHILD"

definition k_execve :: "('f, 'w) kst \<Rightarrow> int \<times> ('f, 'w) kst" where
  "k_execve = fails_with EACCES"

definition k_stat :: "('f, 'w) kst \<Rightarrow> int \<times> ('f, 'w) kst" where
  "k_stat = fails_with ENOSYS"

text \<open>\<open>time_t\<close> and \<open>pid_t\<close> are signed: the counters of \<open>time\<close> and \<open>getpid\<close> overflow after INT_MAX.\<close>

definition k_time :: "('f, 'w) kst \<Rightarrow> (int \<times> ('f, 'w) kst) option" where
  "k_time s = do { t \<leftarrow> i32 (fake_time s + 1); Some (t, s\<lparr>fake_time := t\<rparr>) }"

definition k_getpid :: "('f, 'w) kst \<Rightarrow> (int \<times> ('f, 'w) kst) option" where
  "k_getpid s = do { pid \<leftarrow> i32 (next_pid s + 1); Some (next_pid s, s\<lparr>next_pid := pid\<rparr>) }"


section \<open>One call of the kernel interface\<close>

datatype 'n syscall =
    Write int "u8 list" | Read int u32 | Lseek int int int | Close int
  | Open "u8 list" u32 u32 | Fstat int | Llseek int u32 u32 int
  | SetStdin 'n | SetStdout 'n | SetStderr 'n
  | Time | Getpid | Access | Kill | Rename | Unlink | Ioctl | Rmdir | Fork | Waitpid | Execve | Stat

text \<open>The value returned to the caller and the state after the call.\<close>

fun run_call :: "('f, 'n, 'w) vfs \<Rightarrow> 'n syscall \<Rightarrow> ('f, 'w) kst \<Rightarrow> (int \<times> ('f, 'w) kst) option" where
  "run_call api (Write fd buf) s = memfs_write api fd buf s"
| "run_call api (Read fd n) s = map_option (\<lambda>(r, _, s'). (r, s')) (memfs_read api fd n s)"
| "run_call api (Lseek fd off wh) s = memfs_lseek api fd off wh s"
| "run_call api (Close fd) s = memfs_close api fd s"
| "run_call api (Open path flags mode) s = memfs_open api path flags mode s"
| "run_call api (Fstat fd) s = map_option (\<lambda>(r, _, s'). (r, s')) (memfs_fstat api fd s)"
| "run_call api (Llseek fd hi lo wh) s =
     map_option (\<lambda>(r, _, s'). (r, s')) (memfs_llseek api fd hi lo wh s)"
| "run_call api (SetStdin n) s = Some (case set_stdin api n s of (ok, s') \<Rightarrow> (of_bool ok, s'))"
| "run_call api (SetStdout n) s = Some (case set_stdout api n s of (ok, s') \<Rightarrow> (of_bool ok, s'))"
| "run_call api (SetStderr n) s = Some (case set_stderr api n s of (ok, s') \<Rightarrow> (of_bool ok, s'))"
| "run_call api Time s = k_time s"
| "run_call api Getpid s = k_getpid s"
| "run_call api Access s = Some (k_access s)"
| "run_call api Kill s = Some (k_kill s)"
| "run_call api Rename s = Some (k_rename s)"
| "run_call api Unlink s = Some (k_unlink s)"
| "run_call api Ioctl s = Some (k_ioctl s)"
| "run_call api Rmdir s = Some (k_rmdir s)"
| "run_call api Fork s = Some (k_fork s)"
| "run_call api Waitpid s = Some (k_waitpid s)"
| "run_call api Execve s = Some (k_execve s)"
| "run_call api Stat s = Some (k_stat s)"

inductive kreach :: "('f, 'n, 'w) vfs \<Rightarrow> 'w \<Rightarrow> ('f, 'w) kst \<Rightarrow> bool" for api w where
  boot: "kreach api w (init_kst w)"
| call: "kreach api w s \<Longrightarrow> run_call api c s = Some (r, s') \<Longrightarrow> kreach api w s'"

section \<open>The table invariant\<close>

definition wf_kst :: "('f, 'w) kst \<Rightarrow> bool" where
  "wf_kst s \<longleftrightarrow> length (fds s) = memfs_limit_fds \<and>
     (\<forall>e \<in> set (fds s). in_use e \<longrightarrow> fd_file e \<noteq> None)"

definition in_range :: "int \<Rightarrow> bool" where
  "in_range fd \<longleftrightarrow> 0 \<le> fd \<and> fd < int memfs_limit_fds"

named_theorems memfs_frame \<open>what the helpers of the descriptor layer leave alone\<close>

lemma py_call_frame [memfs_frame]:
  "py_call r s = (v, s') \<Longrightarrow> fds s' = fds s \<and> errno s' = errno s \<and>
     fake_time s' = fake_time s \<and> next_pid s' = next_pid s"
  by (auto simp: py_call_def split: prod.splits sum.splits)

lemma py_call_ok: "py_call r s = (Some v, s') \<Longrightarrow> pyerr s' = pyerr s"
  by (auto simp: py_call_def split: prod.splits sum.splits)

lemma uuu_open_frame [memfs_frame]:
  "uuu_open api path a b c d e mode s = (v, s') \<Longrightarrow> fds s' = fds s \<and> errno s' = errno s \<and>
     fake_time s' = fake_time s \<and> next_pid s' = next_pid s"
  by (auto simp: uuu_open_def dest: py_call_frame split: uuu_root.splits)

lemma fds_set_fd [simp]: "fds (set_fd fd e s) = (fds s)[nat fd := e]"
  and world_set_fd [simp]: "world (set_fd fd e s) = world s"
  and errno_set_fd [simp]: "errno (set_fd fd e s) = errno s"
  and pyerr_set_fd [simp]: "pyerr (set_fd fd e s) = pyerr s"
  by (simp_all add: set_fd_def)

lemma fd_entry_wf: "wf_kst s \<Longrightarrow> fd_entry s fd = (if in_range fd then Some (fds s ! nat fd) else None)"
  by (auto simp: fd_entry_def wf_kst_def in_range_def)

lemma wf_entry_file:
  assumes "wf_kst s" "fd_entry s fd = Some e" "in_use e"
  shows "\<exists>f. fd_file e = Some f"
proof -
  have "e \<in> set (fds s)"
    using assms(2) by (auto simp: fd_entry_def split: if_splits)
  then show ?thesis using assms(1,3) by (auto simp: wf_kst_def)
qed

lemma wf_kst_cong: "fds s' = fds s \<Longrightarrow> wf_kst s' = wf_kst s"
  by (simp add: wf_kst_def)

lemma wf_kst_update:
  "wf_kst s \<Longrightarrow> fds s' = (fds s)[n := e] \<Longrightarrow> (in_use e \<longrightarrow> fd_file e \<noteq> None) \<Longrightarrow> wf_kst s'"
  by (auto simp: wf_kst_def dest!: set_update_subset_insert [THEN subsetD])

lemma wf_init: "wf_kst (init_kst w)"
  by (simp add: wf_kst_def init_kst_def)

text \<open>What each call can do to the table: nothing, or one entry as stated.\<close>

lemma write_fds: "memfs_write api fd buf s = Some (r, s') \<Longrightarrow> fds s' = fds s"
  by (auto simp: memfs_write_def Let_def dest!: py_call_frame
      split: if_splits prod.splits option.splits pyval.splits Option.bind_splits)

lemma read_fds: "memfs_read api fd n s = Some (r, bs, s') \<Longrightarrow> fds s' = fds s"
  by (auto simp: memfs_read_def Let_def dest!: py_call_frame
      split: if_splits prod.splits option.splits pyval.splits Option.bind_splits)

lemma lseek_fds: "memfs_lseek api fd off wh s = Some (r, s') \<Longrightarrow> fds s' = fds s"
  by (auto simp: memfs_lseek_def Let_def dest!: py_call_frame
      split: if_splits prod.splits option.splits pyval.splits Option.bind_splits)

lemma fstat_fds: "memfs_fstat api fd s = Some (r, st, s') \<Longrightarrow> fds s' = fds s"
  by (auto simp: memfs_fstat_def Let_def dest!: py_call_frame
      split: if_splits prod.splits option.splits Option.bind_splits)

lemma llseek_fds: "memfs_llseek api fd hi lo wh s = Some (r, p, s') \<Longrightarrow> fds s' = fds s"
  by (auto simp: memfs_llseek_def Let_def dest!: py_call_frame
      split: if_splits prod.splits option.splits sum.splits pyval.splits Option.bind_splits)

lemma close_fds:
  assumes "memfs_close api fd s = Some (r, s')"
  shows "fds s' = fds s \<or>
    (\<exists>e f. 3 \<le> fd \<and> fd_entry s fd = Some e \<and> in_use e \<and> fd_file e = Some f \<and> r = 0 \<and>
       fds s' = (fds s)[nat fd := \<lparr>fd_file = Some f, in_use = False\<rparr>])"
  using assms
  by (auto simp: memfs_close_def Let_def dest!: py_call_frame
      split: if_splits prod.splits option.splits Option.bind_splits)

lemma find_fd_Inr:
  "find_fd t fd = Some (Inr r) \<Longrightarrow>
     fd \<le> r \<and> r < length t \<and> \<not> in_use (t ! r) \<and> (\<forall>i. fd \<le> i \<and> i < r \<longrightarrow> in_use (t ! i))"
proof (induction t fd rule: find_fd.induct)
  case (1 t fd)
  show ?case
  proof (cases "fd < length t \<and> in_use (t ! fd)")
    case True
    with "1.prems" have "find_fd t (Suc fd) = Some (Inr r)" "\<not> memfs_limit_fds \<le> fd"
      by (auto simp: find_fd.simps [of t fd] split: if_splits)
    with "1.IH" True have ih: "Suc fd \<le> r" "r < length t" "\<not> in_use (t ! r)"
      "\<forall>i. Suc fd \<le> i \<and> i < r \<longrightarrow> in_use (t ! i)" by blast+
    then have "\<forall>i. fd \<le> i \<and> i < r \<longrightarrow> in_use (t ! i)"
      using True by (metis Suc_leI le_neq_implies_less)
    with ih show ?thesis by simp
  next
    case False
    with "1.prems" show ?thesis by (auto simp: find_fd.simps [of t fd] split: if_splits)
  qed
qed

lemma find_fd_free:
  "fd \<le> r \<Longrightarrow> r < length t \<Longrightarrow> length t \<le> memfs_limit_fds \<Longrightarrow> \<not> in_use (t ! r) \<Longrightarrow>
     \<exists>q. find_fd t fd = Some (Inr q)"
proof (induction t fd rule: find_fd.induct)
  case (1 t fd)
  show ?case
  proof (cases "in_use (t ! fd)")
    case True
    with "1.prems" have "fd < length t" "\<not> memfs_limit_fds \<le> fd" "Suc fd \<le> r"
      by (auto simp: Suc_le_eq intro: le_neq_implies_less)
    with "1.IH" "1.prems" True show ?thesis by (auto simp: find_fd.simps [of t fd])
  next
    case False
    with "1.prems" show ?thesis by (auto simp: find_fd.simps [of t fd])
  qed
qed

lemma find_fd_full:
  assumes "length t \<le> memfs_limit_fds" "\<forall>i. fd \<le> i \<and> i < length t \<longrightarrow> in_use (t ! i)"
  shows "find_fd t fd = None"
  using assms
proof (induction t fd rule: find_fd.induct)
  case (1 t fd)
  then show ?case by (auto simp: find_fd.simps [of t fd])
qed


lemma open_fds:
  assumes "memfs_open api path flags mode s = Some (r, s')"
  shows "(fds s' = fds s \<and> r = -1) \<or>
    (\<exists>fd f. find_fd (fds s) 3 = Some (Inr fd) \<and> r = int fd \<and>
       fds s' = (fds s)[fd := \<lparr>fd_file = Some f, in_use = True\<rparr>])"
  using assms
  by (auto simp: memfs_open_def Let_def dest!: uuu_open_frame
      split: if_splits prod.splits option.splits sum.splits Option.bind_splits)

lemma set_std_fds:
  assumes "set_std api fd a b c d n s = (ok, s')"
  shows "fds s' = fds s \<or> (\<exists>f. fds s' = (fds s)[fd := \<lparr>fd_file = Some f, in_use = True\<rparr>])"
  using assms by (auto simp: set_std_def dest!: py_call_frame split: prod.splits option.splits)

lemmas set_std_defs = set_stdin_def set_stdout_def set_stderr_def

lemmas memfs_defs = memfs_write_def memfs_read_def memfs_lseek_def memfs_close_def memfs_open_def
  memfs_fstat_def memfs_llseek_def

lemmas unsupported_defs = k_rename_def k_access_def k_unlink_def k_ioctl_def k_kill_def
  k_rmdir_def k_fork_def k_waitpid_def k_execve_def k_stat_def
  fails_with_def

text \<open>A table that differs in at most one entry, which is consistent.\<close>

definition table_step :: "'f fdent list \<Rightarrow> 'f fdent list \<Rightarrow> bool" where
  "table_step t t' \<longleftrightarrow> t' = t \<or> (\<exists>n e. (in_use e \<longrightarrow> fd_file e \<noteq> None) \<and> t' = t[n := e])"

lemma table_step_refl [intro]: "t' = t \<Longrightarrow> table_step t t'"
  by (simp add: table_step_def)

lemma table_step_upd [intro]: "t' = t[n := \<lparr>fd_file = Some f, in_use = b\<rparr>] \<Longrightarrow> table_step t t'"
  unfolding table_step_def by (intro disjI2 exI conjI) auto

lemma counters_fds: "k_time s = Some (r, s') \<Longrightarrow> fds s' = fds s" "k_getpid s = Some (r, s') \<Longrightarrow> fds s' = fds s"
  by (auto simp: k_time_def k_getpid_def split: Option.bind_splits)

lemma run_call_fds:
  assumes "run_call api c s = Some (r, s')"
  shows "table_step (fds s) (fds s')"
proof (cases c)
  case (Close fd)
  with assms show ?thesis by (auto dest!: close_fds)
next
  case (Open path flags mode)
  with assms show ?thesis by (auto dest!: open_fds)
qed (use assms in \<open>auto simp: unsupported_defs set_std_defs split: prod.splits
       dest!: write_fds read_fds lseek_fds fstat_fds llseek_fds set_std_fds counters_fds\<close>)

lemma run_call_wf: "wf_kst s \<Longrightarrow> run_call api c s = Some (r, s') \<Longrightarrow> wf_kst s'"
  using run_call_fds [of api c s r s'] wf_kst_cong [of s' s] wf_kst_update [of s s']
  unfolding table_step_def by blast

lemma kreach_wf: "kreach api w s \<Longrightarrow> wf_kst s"
  by (induction rule: kreach.induct) (auto intro: wf_init run_call_wf)

text \<open>The descriptors a call dereferences.\<close>

fun call_fd :: "'n syscall \<Rightarrow> int option" where
  "call_fd (Write fd buf) = Some fd"
| "call_fd (Read fd n) = (if n = 0 then None else Some fd)"
| "call_fd (Lseek fd off wh) = (if fd < 3 then None else Some fd)"
| "call_fd (Close fd) = (if fd < 3 then None else Some fd)"
| "call_fd (Fstat fd) = (if int memfs_limit_fds \<le> fd then None else Some fd)"
| "call_fd (Llseek fd hi lo wh) = (if int memfs_limit_fds \<le> fd then None else Some fd)"
| "call_fd _ = None"

definition table_full :: "('f, 'w) kst \<Rightarrow> bool" where
  "table_full s \<longleftrightarrow> (\<forall>i. 3 \<le> i \<and> i < length (fds s) \<longrightarrow> in_use (fds s ! i))"

text \<open>The call \<open>open\<close> found its file, so that it needs a descriptor.\<close>

definition opens :: "('f, 'n, 'w) vfs \<Rightarrow> 'n syscall \<Rightarrow> ('f, 'w) kst \<Rightarrow> bool" where
  "opens api c s = (case c of
      Open path flags mode \<Rightarrow> (let acc = flags AND O_ACCMODE in
        fst (uuu_open api path (acc = O_RDONLY \<or> acc = O_RDWR) (acc = O_WRONLY \<or> acc = O_RDWR)
          (flags AND O_CREAT) (flags AND O_TRUNC) (flags AND O_APPEND) mode (s\<lparr>pyerr := None\<rparr>)) \<noteq> None)
    | _ \<Rightarrow> False)"

lemma find_fd_None_iff:
  assumes "wf_kst s"
  shows "find_fd (fds s) 3 = None \<longleftrightarrow> table_full s"
proof
  assume "find_fd (fds s) 3 = None"
  then show "table_full s"
    using assms find_fd_free [of 3 _ "fds s"] by (force simp: table_full_def wf_kst_def)
next
  assume "table_full s"
  then show "find_fd (fds s) 3 = None"
    using assms by (intro find_fd_full) (auto simp: table_full_def wf_kst_def)
qed

lemma open_None_iff:
  assumes "wf_kst s"
  shows "memfs_open api path flags mode s = None \<longleftrightarrow> opens api (Open path flags mode) s \<and> table_full s"
  using find_fd_None_iff [OF assms]
  by (auto simp: memfs_open_def opens_def Let_def dest!: uuu_open_frame
      split: prod.splits option.splits Option.bind_splits)

lemma fd_call_None_iff:
  assumes "wf_kst s"
  shows "memfs_write api fd buf s = None \<longleftrightarrow> \<not> in_range fd"
    and "memfs_read api fd n s = None \<longleftrightarrow> n \<noteq> 0 \<and> \<not> in_range fd"
    and "memfs_lseek api fd off wh s = None \<longleftrightarrow> 3 \<le> fd \<and> \<not> in_range fd"
    and "memfs_close api fd s = None \<longleftrightarrow> 3 \<le> fd \<and> \<not> in_range fd"
    and "memfs_fstat api fd s = None \<longleftrightarrow> fd < int memfs_limit_fds \<and> \<not> in_range fd"
    and "memfs_llseek api fd hi lo wh s = None \<longleftrightarrow> fd < int memfs_limit_fds \<and> \<not> in_range fd"
proof -
  have file_ok: "in_range fd \<longrightarrow> in_use (fds s ! nat fd) \<longrightarrow> fd_file (fds s ! nat fd) \<noteq> None"
    using wf_entry_file [OF assms, of fd] fd_entry_wf [OF assms, of fd] by auto
  note defs = memfs_write_def memfs_read_def memfs_lseek_def memfs_close_def memfs_fstat_def
      memfs_llseek_def Let_def fd_entry_wf [OF assms]
  show "memfs_write api fd buf s = None \<longleftrightarrow> \<not> in_range fd"
    using file_ok by (cases "fd_file (fds s ! nat fd)") (auto simp: defs)
  show "memfs_read api fd n s = None \<longleftrightarrow> n \<noteq> 0 \<and> \<not> in_range fd"
    using file_ok by (cases "fd_file (fds s ! nat fd)") (simp_all add: defs)
  show "memfs_lseek api fd off wh s = None \<longleftrightarrow> 3 \<le> fd \<and> \<not> in_range fd"
    using file_ok by (cases "fd_file (fds s ! nat fd)") (auto simp: defs)
  show "memfs_close api fd s = None \<longleftrightarrow> 3 \<le> fd \<and> \<not> in_range fd"
    using file_ok by (cases "fd_file (fds s ! nat fd)") (auto simp: defs)
  show "memfs_fstat api fd s = None \<longleftrightarrow> fd < int memfs_limit_fds \<and> \<not> in_range fd"
    using file_ok by (cases "fd_file (fds s ! nat fd)") (auto simp: defs)
  show "memfs_llseek api fd hi lo wh s = None \<longleftrightarrow> fd < int memfs_limit_fds \<and> \<not> in_range fd"
    using file_ok by (cases "fd_file (fds s ! nat fd)") (auto simp: defs)
qed

section \<open>Properties\<close>

lemma not_opens: "(\<And>path flags mode. c \<noteq> Open path flags mode) \<Longrightarrow> \<not> opens api c s"
  by (simp add: opens_def split: syscall.split)

text \<open>The counters of \<open>time\<close> and \<open>getpid\<close>.\<close>

definition counters_ok :: "('f, 'w) kst \<Rightarrow> bool" where
  "counters_ok s \<longleftrightarrow> 0 \<le> fake_time s \<and> fake_time s \<le> 2147483647 \<and> 0 \<le> next_pid s \<and> next_pid s \<le> 2147483647"

definition counter_spent :: "'n syscall \<Rightarrow> ('f, 'w) kst \<Rightarrow> bool" where
  "counter_spent c s \<longleftrightarrow>
     (case c of Time \<Rightarrow> fake_time s = 2147483647 | Getpid \<Rightarrow> next_pid s = 2147483647 | _ \<Rightarrow> False)"

lemma counters_None_iff:
  "counters_ok s \<Longrightarrow> k_time s = None \<longleftrightarrow> fake_time s = 2147483647"
  "counters_ok s \<Longrightarrow> k_getpid s = None \<longleftrightarrow> next_pid s = 2147483647"
  by (auto simp: k_time_def k_getpid_def counters_ok_def i32_def split: Option.bind_splits)

lemma run_call_counters:
  assumes "run_call api c s = Some (r, s')" "counters_ok s"
  shows "counters_ok s'"
proof (cases "c = Time \<or> c = Getpid")
  case True
  then show ?thesis using assms
    by (auto simp: k_time_def k_getpid_def counters_ok_def i32_def split: Option.bind_splits if_splits)
next
  case False
  then have "fake_time s' = fake_time s \<and> next_pid s' = next_pid s"
    using assms(1)
    by (cases c) (auto simp: memfs_defs set_std_defs set_std_def set_fd_def unsupported_defs Let_def
        dest!: py_call_frame uuu_open_frame
        split: if_splits prod.splits option.splits sum.splits pyval.splits Option.bind_splits)
  then show ?thesis using assms(2) by (simp add: counters_ok_def)
qed

lemma kreach_counters: "kreach api w s \<Longrightarrow> counters_ok s"
  by (induction rule: kreach.induct) (simp add: counters_ok_def init_kst_def, rule run_call_counters)

lemma run_call_None_iff:
  assumes "wf_kst s" "counters_ok s"
  shows "run_call api c s = None \<longleftrightarrow>
    (\<exists>fd. call_fd c = Some fd \<and> \<not> in_range fd) \<or> (opens api c s \<and> table_full s) \<or> counter_spent c s"
  by (cases c) (simp_all add: fd_call_None_iff [OF assms(1)] open_None_iff [OF assms(1)] counters_None_iff [OF assms(2)]
      not_opens counter_spent_def not_le not_less)

lemma open_result:
  assumes "wf_kst s" "memfs_open api path flags mode s = Some (r, s')" "0 \<le> r"
  shows "3 \<le> r \<and> r < int memfs_limit_fds \<and> \<not> in_use (fds s ! nat r) \<and>
    (\<forall>i. 3 \<le> i \<and> i < nat r \<longrightarrow> in_use (fds s ! i)) \<and>
    in_use (fds s' ! nat r) \<and> (\<forall>i. i \<noteq> nat r \<longrightarrow> fds s' ! i = fds s ! i)"
proof -
  from open_fds [OF assms(2)] assms(3) obtain fd f where
    fd: "find_fd (fds s) 3 = Some (Inr fd)" "r = int fd"
      "fds s' = (fds s)[fd := \<lparr>fd_file = Some f, in_use = True\<rparr>]" by auto
  from find_fd_Inr [OF fd(1)] fd(2,3) assms(1) show ?thesis
    by (auto simp: wf_kst_def)
qed

lemma write_pyerr: "memfs_write api fd buf s = Some (r, s') \<Longrightarrow> pyerr s' = pyerr s"
  by (auto simp: memfs_write_def Let_def
      split: if_splits prod.splits option.splits pyval.splits Option.bind_splits)

lemma read_pyerr: "memfs_read api fd n s = Some (r, bs, s') \<Longrightarrow> pyerr s' = pyerr s"
  by (auto simp: memfs_read_def Let_def
      split: if_splits prod.splits option.splits pyval.splits Option.bind_splits)

lemma fstat_pyerr: "memfs_fstat api fd s = Some (r, st, s') \<Longrightarrow> pyerr s' = pyerr s"
  by (auto simp: memfs_fstat_def Let_def
      split: if_splits prod.splits option.splits Option.bind_splits)

lemma close_pyerr: "memfs_close api fd s = Some (r, s') \<Longrightarrow> pyerr s' = pyerr s"
  by (auto simp: memfs_close_def Let_def
      split: if_splits prod.splits option.splits Option.bind_splits)

lemma find_fd_not_Inl: "length t \<le> memfs_limit_fds \<Longrightarrow> find_fd t fd \<noteq> Some (Inl u)"
proof (induction t fd rule: find_fd.induct)
  case (1 t fd)
  then show ?case by (auto simp: find_fd.simps [of t fd])
qed

lemma open_pyerr:
  assumes "wf_kst s" "memfs_open api path flags mode s = Some (r, s')"
  shows "pyerr s' = pyerr s"
  using assms(2) find_fd_not_Inl [of "fds s" 3] assms(1)
  by (auto simp: memfs_open_def Let_def wf_kst_def dest!: uuu_open_frame
      split: prod.splits option.splits sum.splits Option.bind_splits)

lemma lseek_pyerr:
  "memfs_lseek api fd off wh s = Some (r, s') \<Longrightarrow> pyerr s' = (if r = -1 then pyerr s' else None)"
  by (auto simp: memfs_lseek_def Let_def dest!: py_call_ok
      split: if_splits prod.splits option.splits pyval.splits Option.bind_splits)

lemma close_after_open:
  assumes wf: "wf_kst s" and op: "memfs_open api path flags mode s = Some (r, s1)" "0 \<le> r"
    and cl: "memfs_close api r s1 = Some (0, s2)"
  shows "map in_use (fds s2) = map in_use (fds s)"
proof -
  from op open_fds [OF op(1)] obtain fd f where
    fd: "find_fd (fds s) 3 = Some (Inr fd)" "r = int fd"
      "fds s1 = (fds s)[fd := \<lparr>fd_file = Some f, in_use = True\<rparr>]" by auto
  note ff = find_fd_Inr [OF fd(1)]
  have "memfs_limit_fds = length (fds s1)" using wf fd(3) by (simp add: wf_kst_def)
  then have "fds s2 = (fds s1)[fd := \<lparr>fd_file = Some f, in_use = False\<rparr>]"
    using cl ff fd by (auto simp: memfs_close_def Let_def fd_entry_def dest!: py_call_frame
        split: if_splits prod.splits option.splits)
  then show ?thesis
    using fd(3) ff by (auto simp: list_eq_iff_nth nth_list_update)
qed

end
