(* ===== verification/Ramfs.thy ===== *)
theory Ramfs
  imports Memfs
begin

text \<open>
  The contract the descriptor layer expects of a Python file object, as the locale
  \<open>file_service\<close>, with what follows for a client of \<open>write\<close>, \<open>lseek\<close> and \<open>read\<close>; and the
  file class of \<^verbatim>\<open>python_modules/ramfs.py\<close>, the root file system the kernel boots with,
  which meets the contract.
\<close>

section \<open>The contract of a seekable file\<close>

text \<open>Writing at a position past the end fills the gap with zero bytes.\<close>

definition overwrite :: "nat \<Rightarrow> u8 list \<Rightarrow> u8 list \<Rightarrow> u8 list" where
  "overwrite p bs c = take p c @ replicate (p - length c) 0 @ bs @ drop (p + length bs) c"

lemma read_back_overwrite: "take (length bs) (drop p (overwrite p bs c)) = bs"
  by (simp add: overwrite_def min_def)

lemma length_overwrite: "length (overwrite p bs c) = max (length c) (p + length bs)"
  by (auto simp: overwrite_def)

text \<open>An open descriptor \<open>fd\<close> on the file \<open>f\<close>.\<close>

definition opened :: "('f, 'w) kst \<Rightarrow> int \<Rightarrow> 'f \<Rightarrow> bool" where
  "opened s fd f \<longleftrightarrow> 3 \<le> fd \<and> nat fd < length (fds s) \<and>
     fds s ! nat fd = \<lparr>fd_file = Some f, in_use = True\<rparr>"

lemma opened_entry:
  "opened s fd f \<Longrightarrow> fd_entry s fd = Some \<lparr>fd_file = Some f, in_use = True\<rparr> \<and> 3 \<le> fd"
  by (auto simp: opened_def fd_entry_def)

lemma memfs_read_result:
  assumes "opened s fd f" "0 < n" "n < 2 ^ 31" "m_read api (world s) f (int n) = (Inr (PyStr bs), w')" "length bs \<le> n"
  shows "memfs_read api fd (of_nat n) s = Some (int (length bs), bs, s\<lparr>world := w', pyerr := pyerr s\<rparr>)"
proof -
  have n: "sint (of_nat k :: u32) = int k" "unat (of_nat k :: u32) = k" if "k < 2 ^ 31" for k
    using that by (simp_all add: signed_of_nat signed_take_bit_int_eq_self_iff unat_of_nat)
  have l: "length bs < 2 ^ 31" using assms(3,5) by simp
  have "(of_nat n :: u32) \<noteq> 0" using n(2) [OF assms(3)] assms(2) by (metis less_not_refl unat_0)
  moreover have "\<not> (of_nat n :: u32) < of_nat (length bs)"
    using n(2) [OF assms(3)] n(2) [OF l] assms(5) by (simp only: word_less_nat_alt not_less)
  ultimately show ?thesis
    using opened_entry [OF assms(1)] assms(4) n [OF assms(3)] n [OF l]
    by (simp add: memfs_read_def Let_def py_call_def)
qed

locale file_service =
  fixes api :: "('f, 'n, 'w) vfs"
    and content :: "'w \<Rightarrow> 'f \<Rightarrow> u8 list"
    and position :: "'w \<Rightarrow> 'f \<Rightarrow> nat"
    and readable :: "'w \<Rightarrow> 'f \<Rightarrow> bool"
    and writable :: "'w \<Rightarrow> 'f \<Rightarrow> bool"
  assumes read_result: "readable w f \<Longrightarrow>
      \<exists>w'. m_read api w f (int n) = (Inr (PyStr (take n (drop (position w f) (content w f)))), w') \<and>
        content w' f = content w f \<and>
        position w' f = position w f + length (take n (drop (position w f) (content w f))) \<and>
        readable w' f \<and> writable w' f = writable w f"
    and write_result: "writable w f \<Longrightarrow>
      \<exists>w'. m_write api w f bs = (Inr (PyInt (of_nat (length bs))), w') \<and>
        content w' f = overwrite (position w f) bs (content w f) \<and>
        position w' f = position w f + length bs \<and>
        writable w' f \<and> readable w' f = readable w f"
    and seek_result: "readable w f \<or> writable w f \<Longrightarrow>
      \<exists>v w'. m_seek api w f (int p) (Some 0) = (Inr v, w') \<and>
        content w' f = content w f \<and> position w' f = p \<and>
        readable w' f = readable w f \<and> writable w' f = writable w f"
    and seek_rel_result: "readable w f \<or> writable w f \<Longrightarrow> 0 \<le> int (position w f) + d \<Longrightarrow>
      \<exists>v w'. m_seek api w f d (Some 1) = (Inr v, w') \<and>
        content w' f = content w f \<and> position w' f = nat (int (position w f) + d) \<and>
        readable w' f = readable w f \<and> writable w' f = writable w f"
    and tell_result: "readable w f \<or> writable w f \<Longrightarrow>
      m_tell api w f None = (Inr (PyInt (of_nat (position w f))), w)"
begin

lemma write_opened:
  assumes "opened s fd f" "writable (world s) f" "length bs < 2 ^ 31"
  shows "\<exists>s'. memfs_write api fd bs s = Some (int (length bs), s') \<and> opened s' fd f \<and>
    content (world s') f = overwrite (position (world s) f) bs (content (world s) f) \<and>
    position (world s') f = position (world s) f + length bs \<and>
    writable (world s') f \<and> readable (world s') f = readable (world s) f"
proof -
  from write_result [OF assms(2), of bs] obtain w' where
    w': "m_write api (world s) f bs = (Inr (PyInt (of_nat (length bs))), w')"
      "content w' f = overwrite (position (world s) f) bs (content (world s) f)"
      "position w' f = position (world s) f + length bs"
      "writable w' f" "readable w' f = readable (world s) f" by blast
  have "sint (of_nat (length bs) :: u32) = int (length bs)"
    using assms(3) by (simp add: signed_of_nat signed_take_bit_int_eq_self_iff)
  then have "memfs_write api fd bs s = Some (int (length bs), s\<lparr>world := w', pyerr := pyerr s\<rparr>)"
    using opened_entry [OF assms(1)] w'(1) by (simp add: memfs_write_def Let_def py_call_def)
  with w'(2-5) assms(1) show ?thesis by (simp add: opened_def)
qed

lemma read_opened:
  assumes "opened s fd f" "readable (world s) f" "n < 2 ^ 31"
  shows "\<exists>s'. memfs_read api fd (of_nat n) s =
      Some (int (length (take n (drop (position (world s) f) (content (world s) f)))),
            take n (drop (position (world s) f) (content (world s) f)), s') \<and> opened s' fd f \<and>
    content (world s') f = content (world s) f \<and>
    position (world s') f = position (world s) f + length (take n (drop (position (world s) f) (content (world s) f))) \<and>
    readable (world s') f \<and> writable (world s') f = writable (world s) f"
proof (cases "n = 0")
  case True
  then show ?thesis using assms by (auto simp: memfs_read_def)
next
  case False
  let ?bs = "take n (drop (position (world s) f) (content (world s) f))"
  from read_result [OF assms(2), of n] obtain w' where
    w': "m_read api (world s) f (int n) = (Inr (PyStr ?bs), w')"
      "content w' f = content (world s) f" "position w' f = position (world s) f + length ?bs"
      "readable w' f" "writable w' f = writable (world s) f" by blast
  have "length ?bs \<le> n" by simp
  with memfs_read_result [OF assms(1) _ assms(3) w'(1)] False
  have "memfs_read api fd (of_nat n) s = Some (int (length ?bs), ?bs, s\<lparr>world := w', pyerr := pyerr s\<rparr>)" by blast
  with w'(2-5) assms(1) show ?thesis by (simp add: opened_def)
qed

lemma lseek_opened:
  assumes "opened s fd f" "readable (world s) f \<or> writable (world s) f" "p < 2 ^ 31"
  shows "\<exists>s'. memfs_lseek api fd (int p) 0 s = Some (int p, s') \<and> opened s' fd f \<and>
    content (world s') f = content (world s) f \<and> position (world s') f = p \<and>
    readable (world s') f = readable (world s) f \<and> writable (world s') f = writable (world s) f"
proof -
  from seek_result [OF assms(2), of p] obtain v w' where
    w': "m_seek api (world s) f (int p) (Some 0) = (Inr v, w')"
      "content w' f = content (world s) f" "position w' f = p"
      "readable w' f = readable (world s) f" "writable w' f = writable (world s) f" by blast
  then have "readable w' f \<or> writable w' f" using assms(2) by simp
  from tell_result [OF this] w'(3)
  have t: "m_tell api w' f None = (Inr (PyInt (of_nat p)), w')" by simp
  have "sint (of_nat p :: u32) = int p"
    using assms(3) by (simp add: signed_of_nat signed_take_bit_int_eq_self_iff)
  then have "memfs_lseek api fd (int p) 0 s = Some (int p, s\<lparr>world := w', pyerr := None\<rparr>)"
    using opened_entry [OF assms(1)] w'(1) t by (simp add: memfs_lseek_def Let_def py_call_def)
  with w'(2-5) assms(1) show ?thesis by (simp add: opened_def)
qed

lemma lseek_cur_opened:
  assumes "opened s fd f" "readable (world s) f \<or> writable (world s) f"
    and "0 \<le> int (position (world s) f) + d" "int (position (world s) f) + d < 2 ^ 31"
  shows "\<exists>s'. memfs_lseek api fd d 1 s = Some (int (position (world s) f) + d, s') \<and> opened s' fd f \<and>
    content (world s') f = content (world s) f \<and> position (world s') f = nat (int (position (world s) f) + d) \<and>
    readable (world s') f = readable (world s) f \<and> writable (world s') f = writable (world s) f"
proof -
  define p where "p = nat (int (position (world s) f) + d)"
  have ip: "int p = int (position (world s) f) + d" "p < 2 ^ 31" using assms(3,4) by (simp_all add: p_def)
  from seek_rel_result [OF assms(2,3)] obtain v w' where
    w': "m_seek api (world s) f d (Some 1) = (Inr v, w')"
      "content w' f = content (world s) f" "position w' f = p"
      "readable w' f = readable (world s) f" "writable w' f = writable (world s) f" unfolding p_def by blast
  then have "readable w' f \<or> writable w' f" using assms(2) by simp
  from tell_result [OF this] w'(3)
  have t: "m_tell api w' f None = (Inr (PyInt (of_nat p)), w')" by simp
  have "sint (of_nat p :: u32) = int p"
    using ip(2) by (simp add: signed_of_nat signed_take_bit_int_eq_self_iff)
  then have "memfs_lseek api fd d 1 s = Some (int p, s\<lparr>world := w', pyerr := None\<rparr>)"
    using opened_entry [OF assms(1)] w'(1) t by (simp add: memfs_lseek_def Let_def py_call_def)
  with w'(2-5) assms(1) show ?thesis unfolding ip(1) [symmetric] by (simp add: opened_def)
qed

text \<open>What was written is read back after seeking to where it was written.\<close>

lemma write_seek_read:
  assumes "opened s fd f" "readable (world s) f" "writable (world s) f"
    and "length bs < 2 ^ 31" "position (world s) f < 2 ^ 31"
  shows "\<exists>s1 s2 s3. memfs_write api fd bs s = Some (int (length bs), s1) \<and>
    memfs_lseek api fd (int (position (world s) f)) 0 s1 = Some (int (position (world s) f), s2) \<and>
    memfs_read api fd (of_nat (length bs)) s2 = Some (int (length bs), bs, s3)"
proof -
  from write_opened [OF assms(1,3,4)] obtain s1 where
    s1: "memfs_write api fd bs s = Some (int (length bs), s1)" "opened s1 fd f"
      "content (world s1) f = overwrite (position (world s) f) bs (content (world s) f)"
      "readable (world s1) f" using assms(2) by blast
  from lseek_opened [OF s1(2) _ assms(5)] s1(4) obtain s2 where
    s2: "memfs_lseek api fd (int (position (world s) f)) 0 s1 = Some (int (position (world s) f), s2)"
      "opened s2 fd f" "content (world s2) f = content (world s1) f"
      "position (world s2) f = position (world s) f" "readable (world s2) f" by blast
  from read_opened [OF s2(2,5) assms(4)] s1(1,3) s2(1,3,4) show ?thesis
    by (simp add: read_back_overwrite) blast
qed

end


section \<open>The ramfs file class\<close>

text \<open>
  Nodes and open files are numbered; a file keeps its node, its position and the
  permissions it was opened with. The root directory maps a path to a node: on the root
  file system \<open>Vfs.open\<close> never creates a node (\<open>locate_nodes\<close> skips the root's own file
  system), so a missing path raises \<open>NoSuchNodeError\<close> whatever \<open>create\<close> says.
\<close>

definition ValueError :: exc where "ValueError = 1"
definition PermissionError :: exc where "PermissionError = 2"
definition IOError :: exc where "IOError = 3"
definition NoSuchNodeError :: exc where "NoSuchNodeError = 4"
definition TypeError :: exc where "TypeError = 5"
definition OverflowError :: exc where "OverflowError = 6"

record ramfile =
  rf_node :: nat
  rf_pos :: int
  rf_read :: bool
  rf_write :: bool
  rf_closed :: bool

record ramworld =
  rw_data :: "nat \<Rightarrow> u8 list"
  rw_files :: "nat \<Rightarrow> ramfile"
  rw_next :: nat
  rw_dir :: "u8 list \<Rightarrow> nat option"

text \<open>Python's \<open>xs[lo:hi]\<close>: a negative bound counts from the end.\<close>

definition py_slice :: "int \<Rightarrow> int \<Rightarrow> 'a list \<Rightarrow> 'a list" where
  "py_slice lo hi xs =
     (let norm = (\<lambda>i. if i < 0 then max 0 (i + int (length xs)) else i) in
      take (nat (norm hi - norm lo)) (drop (nat (norm lo)) xs))"

definition set_pos :: "nat \<Rightarrow> int \<Rightarrow> ramworld \<Rightarrow> ramworld" where
  "set_pos f p w = w\<lparr>rw_files := (rw_files w)(f := (rw_files w f)\<lparr>rf_pos := p\<rparr>)\<rparr>"

definition rf_open_node :: "ramworld \<Rightarrow> nat \<Rightarrow> bool \<Rightarrow> bool \<Rightarrow> bool \<Rightarrow> bool \<Rightarrow> (exc + nat) \<times> ramworld" where
  "rf_open_node w node r wr app trunc =
     (let f = rw_next w in
      (Inr f, w\<lparr>rw_data := (if trunc then (rw_data w)(node := []) else rw_data w),
                rw_files := (rw_files w)(f := \<lparr>rf_node = node, rf_pos = 0, rf_read = r,
                   rf_write = wr, rf_closed = False\<rparr>),
                rw_next := Suc f\<rparr>))"

definition rf_open_path :: "ramworld \<Rightarrow> u8 list \<Rightarrow> bool \<Rightarrow> bool \<Rightarrow> u32 \<Rightarrow> u32 \<Rightarrow> u32 \<Rightarrow> u32 \<Rightarrow>
    (exc + nat) \<times> ramworld" where
  "rf_open_path w path r wr create trunc app mode =
     (case rw_dir w path of
        None \<Rightarrow> (Inl NoSuchNodeError, w)
      | Some node \<Rightarrow> rf_open_node w node r wr (app \<noteq> 0) (trunc \<noteq> 0))"

definition rf_seek :: "ramworld \<Rightarrow> nat \<Rightarrow> int \<Rightarrow> int option \<Rightarrow> (exc + pyval) \<times> ramworld" where
  "rf_seek w f offset wh =
     (let whence = (case wh of None \<Rightarrow> 0 | Some n \<Rightarrow> n); file = rw_files w f in
      if rf_closed file then (Inl ValueError, w)
      else if whence = 0 then
        (if offset < 0 then (Inl IOError, w) else (Inr PyObj, set_pos f offset w))
      else if whence = 1 then
        (if rf_pos file + offset < 0 then (Inl IOError, w)
         else (Inr PyObj, set_pos f (rf_pos file + offset) w))
      else if whence = 2 then
        (let len = int (length (rw_data w (rf_node file))) in
         if len + offset < 0 then (Inl IOError, w) else (Inr PyObj, set_pos f (len + offset) w))
      else (Inl IOError, w))"

text \<open>\<open>tell\<close> takes no argument: calling it with one raises \<open>TypeError\<close>.\<close>

definition rf_tell :: "ramworld \<Rightarrow> nat \<Rightarrow> int option \<Rightarrow> (exc + pyval) \<times> ramworld" where
  "rf_tell w f arg =
     (case arg of
        Some _ \<Rightarrow> (Inl TypeError, w)
      | None \<Rightarrow> if rf_closed (rw_files w f) then (Inl ValueError, w)
               else (Inr (PyInt (of_int (rf_pos (rw_files w f)))), w))"

definition rf_do_read :: "ramworld \<Rightarrow> nat \<Rightarrow> int \<Rightarrow> (exc + pyval) \<times> ramworld" where
  "rf_do_read w f count =
     (let file = rw_files w f in
      if rf_closed file then (Inl ValueError, w)
      else if \<not> rf_read file then (Inl PermissionError, w)
      else
        (let r = py_slice (rf_pos file) (rf_pos file + count) (rw_data w (rf_node file)) in
         (Inr (PyStr r), set_pos f (rf_pos file + int (length r)) w)))"

definition rf_do_write :: "ramworld \<Rightarrow> nat \<Rightarrow> u8 list \<Rightarrow> (exc + pyval) \<times> ramworld" where
  "rf_do_write w f data =
     (let file = rw_files w f; old = rw_data w (rf_node file); n = length data in
      if rf_closed file then (Inl ValueError, w)
      else if \<not> rf_write file then (Inl PermissionError, w)
      else
        (let new = take (nat (rf_pos file)) old
                     @ replicate (nat (rf_pos file - int (length old))) 0
                     @ data @ drop (nat (rf_pos file + int n)) old in
         (Inr (PyInt (of_nat n)),
          set_pos f (rf_pos file + int n) (w\<lparr>rw_data := (rw_data w)(rf_node file := new)\<rparr>))))"

definition rf_close :: "ramworld \<Rightarrow> nat \<Rightarrow> (exc + pyval) \<times> ramworld" where
  "rf_close w f =
     (Inr PyObj, w\<lparr>rw_files := (rw_files w)(f := (rw_files w f)\<lparr>rf_closed := True\<rparr>)\<rparr>)"

definition rf_stat :: "ramworld \<Rightarrow> nat \<Rightarrow> (exc + pyattrs) \<times> ramworld" where
  "rf_stat w f =
     (if rf_closed (rw_files w f) then (Inl ValueError, w)
      else (Inr [''st_uid'' \<mapsto> PyInt 0, ''st_gid'' \<mapsto> PyInt 0,
         ''st_size'' \<mapsto> PyInt (of_nat (length (rw_data w (rf_node (rw_files w f))))),
         ''st_atime'' \<mapsto> PyInt 0, ''st_mtime'' \<mapsto> PyInt 0, ''st_ctime'' \<mapsto> PyInt 0], w))"

definition ramfs_api :: "(nat, nat, ramworld) vfs" where
  "ramfs_api = \<lparr>vfs_root = (\<lambda>_. RootVfs), vfs_open = rf_open_path, node_open = rf_open_node,
     m_write = rf_do_write, m_read = rf_do_read, m_seek = rf_seek, m_tell = rf_tell,
     m_close = rf_close, m_stat = rf_stat,
     as_longlong = (\<lambda>v. case v of PyInt n \<Rightarrow> Inr (scast n)
       | PyLong i \<Rightarrow> if - (2 ^ 63) \<le> i \<and> i < 2 ^ 63 then Inr (of_int i) else Inl OverflowError
       | _ \<Rightarrow> Inl TypeError)\<rparr>"

section \<open>ramfs meets the contract\<close>

definition rf_content :: "ramworld \<Rightarrow> nat \<Rightarrow> u8 list" where
  "rf_content w f = rw_data w (rf_node (rw_files w f))"

definition rf_position :: "ramworld \<Rightarrow> nat \<Rightarrow> nat" where
  "rf_position w f = nat (rf_pos (rw_files w f))"

definition rf_live :: "ramworld \<Rightarrow> nat \<Rightarrow> bool" where
  "rf_live w f \<longleftrightarrow> \<not> rf_closed (rw_files w f) \<and> 0 \<le> rf_pos (rw_files w f)"

definition rf_readable :: "ramworld \<Rightarrow> nat \<Rightarrow> bool" where
  "rf_readable w f \<longleftrightarrow> rf_live w f \<and> rf_read (rw_files w f)"

definition rf_writable :: "ramworld \<Rightarrow> nat \<Rightarrow> bool" where
  "rf_writable w f \<longleftrightarrow> rf_live w f \<and> rf_write (rw_files w f)"

lemmas rf_view = rf_content_def rf_position_def rf_live_def rf_readable_def rf_writable_def

interpretation rfs: file_service ramfs_api rf_content rf_position rf_readable rf_writable
proof (unfold_locales, goal_cases)
  case (1 w f n)
  then show ?case
    by (simp add: ramfs_api_def rf_do_read_def rf_view set_pos_def py_slice_def Let_def nat_add_distrib)
next
  case (2 w f bs)
  then have "nat (rf_pos (rw_files w f) - int n) = nat (rf_pos (rw_files w f)) - n" for n
    by (simp add: rf_view nat_diff_distrib')
  with 2 show ?case
    by (simp add: ramfs_api_def rf_do_write_def rf_view set_pos_def overwrite_def Let_def
        nat_add_distrib)
next
  case (3 w f p)
  then show ?case
    by (auto simp: ramfs_api_def rf_seek_def rf_view set_pos_def)
next
  case (4 w f d)
  then show ?case
    by (auto simp: ramfs_api_def rf_seek_def rf_view set_pos_def Let_def)
next
  case (5 w f)
  then show ?case
    by (auto simp: ramfs_api_def rf_tell_def rf_view)
qed

end
