(* ===== verification/Memfs_Correct.thy ===== *)
theory Memfs_Correct
  imports Ramfs
begin

text \<open>
  The properties of the descriptor layer (\<open>Memfs\<close>), and of the layer on top of the ramfs
  (\<open>Ramfs\<close>), which also serves as the concrete file system of the witnesses.
\<close>

section \<open>A small file system\<close>

text \<open>One file, \<open>a\<close>, holding two bytes; and the kernel right after it opened it.\<close>

definition demo_world :: ramworld where
  "demo_world = \<lparr>rw_data = (\<lambda>n. if n = 0 then [7, 8] else []),
     rw_files = (\<lambda>_. \<lparr>rf_node = 0, rf_pos = 0, rf_read = False, rf_write = False, rf_closed = True\<rparr>),
     rw_next = 0, rw_dir = (\<lambda>p. if p = [97] then Some 0 else None)\<rparr>"

definition demo_file :: ramfile where
  "demo_file = \<lparr>rf_node = 0, rf_pos = 0, rf_read = True, rf_write = True, rf_closed = False\<rparr>"

definition demo_open :: "(nat, ramworld) kst" where
  "demo_open = set_fd 3 \<lparr>fd_file = Some 0, in_use = True\<rparr>
     ((init_kst (demo_world\<lparr>rw_files := (rw_files demo_world)(0 := demo_file), rw_next := 1\<rparr>)))"

lemma find_fd_init: "find_fd (replicate memfs_limit_fds \<lparr>fd_file = None, in_use = False\<rparr>) 3 = Some (Inr 3)"
  by (simp add: find_fd.simps memfs_limit_fds_def)

lemma demo_open_run:
  "run_call ramfs_api (Open [97] 2 0) (init_kst demo_world) = Some (3, demo_open)"
  by (simp add: memfs_open_def uuu_open_def ramfs_api_def rf_open_path_def rf_open_node_def
      init_kst_def demo_open_def demo_world_def demo_file_def py_call_def set_fd_def find_fd_init
      O_ACCMODE_def O_RDONLY_def O_WRONLY_def O_RDWR_def O_TRUNC_def Let_def)

lemma demo_reach: "kreach ramfs_api demo_world demo_open"
  by (rule kreach.call [OF kreach.boot demo_open_run])

lemma demo_fd: "fd_entry demo_open 3 = Some \<lparr>fd_file = Some 0, in_use = True\<rparr>"
  by (simp add: demo_open_def fd_entry_def init_kst_def memfs_limit_fds_def)

lemma demo_opened: "opened demo_open 3 0"
  by (simp add: demo_open_def opened_def init_kst_def memfs_limit_fds_def)

lemma demo_rw:
  "rf_readable (world demo_open) 0" "rf_writable (world demo_open) 0" "rf_position (world demo_open) 0 = 0"
  by (simp_all add: demo_open_def rf_view demo_file_def init_kst_def)

lemma demo_pyerr: "pyerr demo_open = None"
  by (simp add: demo_open_def init_kst_def)

lemma demo_close: "\<exists>s2. memfs_close ramfs_api 3 demo_open = Some (0, s2)"
  by (simp add: memfs_close_def demo_fd ramfs_api_def rf_close_def py_call_def Let_def)

section \<open>Properties\<close>

text \<open>C1: In every state the kernel can reach, the descriptor table is consistent, and a call
  has undefined behaviour in exactly three cases: it indexes the table with a descriptor outside
  0 to 63 that its own guards let through; it is an \<open>open\<close> that found its file while all
  descriptors from 3 to 63 are in use (the search loop reads past the table before it compares
  with the limit); or it is a \<open>time\<close> or \<open>getpid\<close> whose signed counter stands at INT_MAX.\<close>

theorem kernel_call_defined_iff:
  assumes "kreach api w s"
  shows "wf_kst s \<and> (run_call api c s = None \<longleftrightarrow>
    (\<exists>fd. call_fd c = Some fd \<and> \<not> in_range fd) \<or> (opens api c s \<and> table_full s) \<or> counter_spent c s)"
  using kreach_wf [OF assms] run_call_None_iff [OF kreach_wf [OF assms] kreach_counters [OF assms]] by blast

theorem kernel_call_defined_iff_witness:
  "run_call ramfs_api (Write 64 [1]) demo_open = None \<and> run_call ramfs_api (Close 3) demo_open \<noteq> None"
  using kernel_call_defined_iff [OF demo_reach, of "Write 64 [1]"]
    kernel_call_defined_iff [OF demo_reach, of "Close 3"]
  by (simp add: in_range_def memfs_limit_fds_def opens_def counter_spent_def)

text \<open>C2: A successful \<open>open\<close> returns the lowest descriptor from 3 on that was free, marks it in
  use, and changes no other entry of the table.\<close>

theorem open_lowest_free:
  assumes "kreach api w s" "memfs_open api path flags mode s = Some (r, s')" "0 \<le> r"
  shows "3 \<le> r \<and> r < 64 \<and> \<not> in_use (fds s ! nat r) \<and>
    (\<forall>i. 3 \<le> i \<and> i < nat r \<longrightarrow> in_use (fds s ! i)) \<and>
    in_use (fds s' ! nat r) \<and> (\<forall>i. i \<noteq> nat r \<longrightarrow> fds s' ! i = fds s ! i)"
  using open_result [OF kreach_wf [OF assms(1)] assms(2,3)] by (simp add: memfs_limit_fds_def)

theorem open_lowest_free_witness:
  "\<not> in_use (fds (init_kst demo_world :: (nat, ramworld) kst) ! 3) \<and> in_use (fds demo_open ! 3)"
  using open_lowest_free [of ramfs_api demo_world "init_kst demo_world" "[97]" 2 0 3 demo_open]
    demo_open_run kreach.boot [of ramfs_api demo_world] by simp

text \<open>Closing a descriptor that \<open>open\<close> has just returned restores which descriptors are free.\<close>

theorem open_close_restores:
  assumes "kreach api w s" "memfs_open api path flags mode s = Some (r, s1)" "0 \<le> r"
    and "memfs_close api r s1 = Some (0, s2)"
  shows "map in_use (fds s2) = map in_use (fds s)"
  using close_after_open [OF kreach_wf [OF assms(1)] assms(2-4)] .

theorem open_close_restores_witness:
  "map in_use (fds (snd (the (memfs_close ramfs_api 3 demo_open)))) = replicate 64 False"
  using open_close_restores [OF kreach.boot [of ramfs_api demo_world], of "[97]" 2 0 3 demo_open]
    demo_open_run demo_close
  by (auto simp: init_kst_def memfs_limit_fds_def)

text \<open>The calls that seek, and those that install a console stream.\<close>

definition seeks :: "'n syscall \<Rightarrow> bool" where
  "seeks c = (case c of Lseek _ _ _ \<Rightarrow> True | Llseek _ _ _ _ \<Rightarrow> True | _ \<Rightarrow> False)"

definition installs :: "'n syscall \<Rightarrow> bool" where
  "installs c = (case c of SetStdin _ \<Rightarrow> True | SetStdout _ \<Rightarrow> True | SetStderr _ \<Rightarrow> True | _ \<Rightarrow> False)"

lemma lseek_pyerr_cases:
  "memfs_lseek api fd off wh s = Some (r, s') \<Longrightarrow> pyerr s' = pyerr s \<or> pyerr s' = None"
  by (auto simp: memfs_lseek_def Let_def dest!: py_call_ok
      split: if_splits prod.splits option.splits pyval.splits Option.bind_splits)

lemma llseek_pyerr_cases:
  "memfs_llseek api fd hi lo wh s = Some (r, p, s') \<Longrightarrow>
     (r \<noteq> 0 \<and> pyerr s' = pyerr s) \<or> (r = 0 \<and> pyerr s' = None) \<or>
     (\<exists>v e. r = 0 \<and> as_longlong api v = Inl e \<and> pyerr s' = Some e)"
  by (auto simp: memfs_llseek_def Let_def dest!: py_call_ok
      split: if_splits prod.splits option.splits sum.splits Option.bind_splits)

lemma counters_pyerr: "k_time s = Some (r, s') \<Longrightarrow> pyerr s' = pyerr s" "k_getpid s = Some (r, s') \<Longrightarrow> pyerr s' = pyerr s"
  by (auto simp: k_time_def k_getpid_def split: Option.bind_splits)

text \<open>C3: A call leaves the pending exception of the interpreter alone, whatever the file object
  raises, unless it installs a console stream or is a seek (\<open>lseek\<close>, \<open>llseek\<close>); a seek keeps the
  pending exception or drops it, or it is an \<open>llseek\<close> that returns 0 although the position \<open>tell\<close>
  returned cannot be converted, and leaves the exception of the conversion pending.\<close>

theorem pending_exception_kept:
  assumes "kreach api w s" "run_call api c s = Some (r, s')" "\<not> installs c"
  shows "pyerr s' = pyerr s \<or> (seeks c \<and> pyerr s' = None) \<or>
    (\<exists>fd hi lo wh v e. c = Llseek fd hi lo wh \<and> r = 0 \<and> as_longlong api v = Inl e \<and> pyerr s' = Some e)"
proof (cases "\<exists>fd hi lo wh. c = Llseek fd hi lo wh")
  case True
  then obtain fd hi lo wh p where c: "c = Llseek fd hi lo wh" "memfs_llseek api fd hi lo wh s = Some (r, p, s')"
    using assms(2) by auto
  from llseek_pyerr_cases [OF c(2)] show ?thesis by (auto simp: seeks_def c(1))
next
  case False
  then show ?thesis
    using assms(2,3) open_pyerr [OF kreach_wf [OF assms(1)]]
    by (cases c) (auto simp: unsupported_defs seeks_def installs_def
        dest: write_pyerr read_pyerr fstat_pyerr close_pyerr lseek_pyerr_cases counters_pyerr)
qed

theorem pending_exception_kept_witness:
  "pyerr (snd (the (run_call ramfs_api (Close 3) demo_open))) = None"
  using pending_exception_kept [OF demo_reach, of "Close 3"] demo_close
  by (auto simp: seeks_def installs_def demo_pyerr)

text \<open>On the ramfs, what is written through a readable and writable descriptor is read back
  after an \<open>lseek\<close> to the position where it was written.\<close>

theorem ramfs_write_lseek_read:
  assumes "opened s fd f" "rf_readable (world s) f" "rf_writable (world s) f"
    and "length bs < 2 ^ 31" "rf_position (world s) f < 2 ^ 31"
  shows "\<exists>s1 s2 s3. memfs_write ramfs_api fd bs s = Some (int (length bs), s1) \<and>
    memfs_lseek ramfs_api fd (int (rf_position (world s) f)) 0 s1
      = Some (int (rf_position (world s) f), s2) \<and>
    memfs_read ramfs_api fd (of_nat (length bs)) s2 = Some (int (length bs), bs, s3)"
  by (rule rfs.write_seek_read [OF assms])

theorem ramfs_write_lseek_read_witness:
  "\<exists>s1 s2 s3. memfs_write ramfs_api 3 [5, 6, 7] demo_open = Some (3, s1) \<and>
    memfs_lseek ramfs_api 3 0 0 s1 = Some (0, s2) \<and>
    memfs_read ramfs_api 3 3 s2 = Some (3, [5, 6, 7], s3)"
  using ramfs_write_lseek_read [OF demo_opened demo_rw(1,2), of "[5, 6, 7]"]
  by (simp add: demo_rw(3) numeral_3_eq_3)

text \<open>C7: On the ramfs \<open>llseek\<close> never succeeds and never stores an offset: it calls \<open>tell\<close> with
  an argument, which raises.\<close>

theorem ramfs_llseek_fails:
  assumes "memfs_llseek ramfs_api fd hi lo wh s = Some (r, p, s')"
  shows "r = -1 \<and> p = None \<and> pyerr s' = pyerr s"
  using assms
  by (auto simp: memfs_llseek_def ramfs_api_def rf_tell_def py_call_def Let_def
      split: if_splits prod.splits option.splits sum.splits Option.bind_splits)

theorem ramfs_llseek_fails_witness:
  "fst (the (memfs_llseek ramfs_api 3 0 1 0 demo_open)) = -1"
proof -
  have "\<exists>r p s'. memfs_llseek ramfs_api 3 0 1 0 demo_open = Some (r, p, s')"
    using fd_call_None_iff(6) [OF kreach_wf [OF demo_reach], of ramfs_api 3 0 1 0]
    by (auto simp: in_range_def memfs_limit_fds_def)
  then show ?thesis using ramfs_llseek_fails by (metis fst_conv option.sel)
qed

end
