(* ===== verification/Irq.thy ===== *)
theory Irq
  imports Prelude
begin

text \<open>
  The Python module \<open>irq\<close> (\<^verbatim>\<open>hardware/irqmodule.c\<close>) over the interrupt controller of
  \<^verbatim>\<open>sys/interrupts/x86/iridia.asm\<close>. The module counts the interrupts of each of the
  sixteen lines in \<open>irqflags\<close>, incremented by the proxies of \<^verbatim>\<open>hardware/irq.asm\<close>, and keeps
  in \<open>monitoredflag\<close> the set of lines it has hooked.

  The controller is reached by \<open>hook_irq\<close> and \<open>unhook_irq\<close>; the locale \<open>irq_controller\<close>
  states what the module needs of it and the controller of the kernel interprets it. Interrupts
  come at any time, also between the accesses of \<open>sleep_until\<close> to its volatile counter, so that the
  polling call is a sequence of steps, one per access. Python holds its global lock during a
  call: there is one call at a time.
  Undefined behaviour is \<open>None\<close>: an index past the sixteen entries of \<open>irqflags\<close> or
  \<open>hfunarray\<close>, or a shift by 32 or more.
\<close>

section \<open>The interrupt controller\<close>

definition IRQ_MAX :: nat where
  "IRQ_MAX = 15"

text \<open>
  The clients linked to each line, most recent first, and whether the line is enabled in
  the PIC mask. A client is the module's proxy with an index in \<open>hfunarray\<close>, or the timer handler of
  the scheduler; it is linked to at most one line, because it holds one pair of ring links.
\<close>

datatype irq_client = Proxy nat | Pit_handler

record pic =
  clients :: "nat \<Rightarrow> irq_client list"
  enabled :: "nat \<Rightarrow> bool"

definition linked :: "pic \<Rightarrow> irq_client \<Rightarrow> bool" where
  "linked p c \<longleftrightarrow> (\<exists>n \<le> IRQ_MAX. c \<in> set (clients p n))"

definition irq_connect :: "nat \<Rightarrow> irq_client \<Rightarrow> pic \<Rightarrow> bool \<times> pic" where
  "irq_connect irq c p =
     (if IRQ_MAX < irq then (False, p)
      else if linked p c then (False, p)
      else (True, p\<lparr>clients := (clients p)(irq := c # clients p irq),
                    enabled := (enabled p)(irq := True)\<rparr>))"

text \<open>
  Disconnecting unlinks the client from whatever ring holds it and masks the named line
  when that line has no client left.
\<close>

definition irq_disconnect :: "nat \<Rightarrow> irq_client \<Rightarrow> pic \<Rightarrow> bool \<times> pic" where
  "irq_disconnect irq c p =
     (if IRQ_MAX < irq then (False, p)
      else if \<not> linked p c then (False, p)
      else
        (let cl = (\<lambda>n. removeAll c (clients p n)) in
         (True, p\<lparr>clients := cl,
                  enabled := (if cl irq = [] then (enabled p)(irq := False) else enabled p)\<rparr>)))"

text \<open>
  \<open>__interrupt_init\<close> masks every line but the cascade of the second controller (mask 0xFB of the
  first, 0xFF of the second); the scheduler of \<^verbatim>\<open>sys/scheduler/x86/avalon.asm\<close> then connects its
  timer handler to line 0.
\<close>

definition init_pic :: pic where
  "init_pic = \<lparr>clients = (\<lambda>_. []), enabled = (\<lambda>n. n = 2)\<rparr>"

definition booted_pic :: pic where
  "booted_pic = snd (irq_connect 0 Pit_handler init_pic)"

section \<open>The module\<close>

text \<open>
  Where a call of \<open>sleep_until\<close> is: in its loop, between the loop and the decrement, or in the
  decrement with the value it has read.
\<close>

datatype activity = Idle | Polling u8 | Polled u8 | Loaded u8 u32

record irqst =
  monitoredflag :: u32
  irqflags :: "u32 list"
  ctl :: pic
  act :: activity

datatype pyret = RetNone | ValueError string | PyException string

definition init_irqst :: irqst where
  "init_irqst = \<lparr>monitoredflag = 0, irqflags = replicate (Suc IRQ_MAX) 0, ctl = booted_pic, act = Idle\<rparr>"

text \<open>\<open>1 << irq\<close>, and the macro \<open>MONITORED\<close>.\<close>

definition shl1 :: "u8 \<Rightarrow> u32 option" where
  "shl1 irq = (if unat irq < 32 then Some (push_bit (unat irq) 1) else None)"

definition MONITORED :: "u8 \<Rightarrow> irqst \<Rightarrow> bool option" where
  "MONITORED irq s = map_option (\<lambda>b. monitoredflag s AND b \<noteq> 0) (shl1 irq)"

definition hfunarray :: "u8 \<Rightarrow> irq_client option" where
  "hfunarray irq = (if unat irq \<le> IRQ_MAX then Some (Proxy (unat irq)) else None)"

definition irq_module_handler :: "nat \<Rightarrow> irqst \<Rightarrow> irqst option" where
  "irq_module_handler irq s =
     (if irq < length (irqflags s)
      then Some (s\<lparr>irqflags := (irqflags s)[irq := irqflags s ! irq + 1]\<rparr>) else None)"

text \<open>\<open>hook_irq\<close> and \<open>unhook_irq\<close> return 0 for success.\<close>

definition hook_irq :: "u8 \<Rightarrow> irq_client \<Rightarrow> irqst \<Rightarrow> u32 \<times> irqst" where
  "hook_irq irq h s =
     (case irq_connect (unat irq) h (ctl s) of (ok, p) \<Rightarrow> (if ok then 0 else 1, s\<lparr>ctl := p\<rparr>))"

definition unhook_irq :: "u8 \<Rightarrow> irq_client \<Rightarrow> irqst \<Rightarrow> u32 \<times> irqst" where
  "unhook_irq irq h s =
     (case irq_disconnect (unat irq) h (ctl s) of (ok, p) \<Rightarrow> (if ok then 0 else 1, s\<lparr>ctl := p\<rparr>))"

text \<open>
  \<open>sleep_until\<close> up to its loop: it raises, or starts to poll. The loop condition reads the counter
  (\<open>poll_flag\<close>), and \<open>irqflags[irq] -= 1\<close> reads it again (\<open>load_flag\<close>) and writes it (\<open>store_flag\<close>),
  after which the call returns.
\<close>

definition sleep_until :: "u8 \<Rightarrow> irqst \<Rightarrow> (pyret option \<times> irqst) option" where
  "sleep_until irq s = do {
     m \<leftarrow> MONITORED irq s;
     Some (if \<not> m then (Some (ValueError ''Cannot poll an IRQ that is not being monitored.''), s)
       else (None, s\<lparr>act := Polling irq\<rparr>)) }"

definition poll_flag :: "u8 \<Rightarrow> irqst \<Rightarrow> irqst option" where
  "poll_flag irq s =
     (if unat irq < length (irqflags s)
      then Some (if irqflags s ! unat irq = 0 then s else s\<lparr>act := Polled irq\<rparr>) else None)"

definition load_flag :: "u8 \<Rightarrow> irqst \<Rightarrow> irqst option" where
  "load_flag irq s =
     (if unat irq < length (irqflags s) then Some (s\<lparr>act := Loaded irq (irqflags s ! unat irq)\<rparr>) else None)"

definition store_flag :: "u8 \<Rightarrow> u32 \<Rightarrow> irqst \<Rightarrow> irqst option" where
  "store_flag irq v s =
     (if unat irq < length (irqflags s)
      then Some (s\<lparr>irqflags := (irqflags s)[unat irq := v - 1], act := Idle\<rparr>) else None)"

definition monitor :: "u8 \<Rightarrow> irqst \<Rightarrow> (pyret \<times> irqst) option" where
  "monitor irq s = do {
     m \<leftarrow> MONITORED irq s;
     if m then Some (ValueError ''Already monitoring specified IRQ.'', s)
     else do {
       b \<leftarrow> shl1 irq;
       let s1 = s\<lparr>monitoredflag := monitoredflag s OR b\<rparr>;
       h \<leftarrow> hfunarray irq;
       Some (case hook_irq irq h s1 of
         (r, s2) \<Rightarrow> (if r \<noteq> 0 then (PyException ''could not connect to IRQ'', s2) else (RetNone, s2)))
     }
   }"

definition unmonitor :: "u8 \<Rightarrow> irqst \<Rightarrow> (pyret \<times> irqst) option" where
  "unmonitor irq s = do {
     m \<leftarrow> MONITORED irq s;
     if \<not> m then Some (ValueError ''Specified IRQ is not being monitored.'', s)
     else do {
       b \<leftarrow> shl1 irq;
       let s1 = s\<lparr>monitoredflag := monitoredflag s AND NOT b\<rparr>;
       h \<leftarrow> hfunarray irq;
       Some (case unhook_irq irq h s1 of
         (r, s2) \<Rightarrow> (if r \<noteq> 0 then (PyException ''could not disconnect from IRQ'', s2) else (RetNone, s2)))
     }
   }"

definition reset :: "u8 \<Rightarrow> irqst \<Rightarrow> (pyret \<times> irqst) option" where
  "reset irq s =
     (if unat irq < length (irqflags s)
      then Some (RetNone, s\<lparr>irqflags := (irqflags s)[unat irq := 0]\<rparr>) else None)"

section \<open>Runs of the module and the hardware\<close>

text \<open>
  A step is a call of the module that returns, an access of \<open>sleep_until\<close>, or an interrupt on line
  \<open>n\<close>, which the controller delivers to every client linked to the line: a proxy calls
  \<open>irq_module_handler\<close>, the timer handler leaves the module alone. A line of the second controller
  needs the cascade, line 2. \<open>Fire n\<close> is an interrupt on a line the module's proxy is linked to,
  \<open>Stray n\<close> one on another enabled line.
\<close>

datatype irq_event = Fire nat | Stray nat | Sleep u8 | Poll u8 | Load u8 | Store u8 | Monitor u8 | Unmonitor u8 | Reset u8

fun run_client :: "irq_client \<Rightarrow> irqst \<Rightarrow> irqst option" where
  "run_client (Proxy n) s = irq_module_handler n s"
| "run_client Pit_handler s = Some s"

fun deliver :: "irq_client list \<Rightarrow> irqst \<Rightarrow> irqst option" where
  "deliver [] s = Some s"
| "deliver (c # cs) s = Option.bind (run_client c s) (deliver cs)"

definition raised :: "nat \<Rightarrow> irqst \<Rightarrow> bool" where
  "raised n s \<longleftrightarrow> n \<le> IRQ_MAX \<and> enabled (ctl s) n \<and> (8 \<le> n \<longrightarrow> enabled (ctl s) 2)"

inductive irq_step :: "irqst \<Rightarrow> irq_event \<Rightarrow> irqst \<Rightarrow> bool" where
  fire: "raised n s \<Longrightarrow> Proxy n \<in> set (clients (ctl s) n) \<Longrightarrow> deliver (clients (ctl s) n) s = Some s' \<Longrightarrow>
    irq_step s (Fire n) s'"
| stray: "raised n s \<Longrightarrow> Proxy n \<notin> set (clients (ctl s) n) \<Longrightarrow> deliver (clients (ctl s) n) s = Some s' \<Longrightarrow>
    irq_step s (Stray n) s'"
| sleep: "act s = Idle \<Longrightarrow> sleep_until irq s = Some (r, s') \<Longrightarrow> irq_step s (Sleep irq) s'"
| poll: "act s = Polling irq \<Longrightarrow> poll_flag irq s = Some s' \<Longrightarrow> irq_step s (Poll irq) s'"
| load: "act s = Polled irq \<Longrightarrow> load_flag irq s = Some s' \<Longrightarrow> irq_step s (Load irq) s'"
| store: "act s = Loaded irq v \<Longrightarrow> store_flag irq v s = Some s' \<Longrightarrow> irq_step s (Store irq) s'"
| mon: "act s = Idle \<Longrightarrow> monitor irq s = Some (r, s') \<Longrightarrow> irq_step s (Monitor irq) s'"
| unmon: "act s = Idle \<Longrightarrow> unmonitor irq s = Some (r, s') \<Longrightarrow> irq_step s (Unmonitor irq) s'"
| rst: "act s = Idle \<Longrightarrow> reset irq s = Some (r, s') \<Longrightarrow> irq_step s (Reset irq) s'"

inductive irq_run :: "irqst \<Rightarrow> irq_event list \<Rightarrow> irqst \<Rightarrow> bool" where
  nil: "irq_run s [] s"
| snoc: "irq_run s es t \<Longrightarrow> irq_step t e u \<Longrightarrow> irq_run s (es @ [e]) u"

inductive_cases irq_stepE: "irq_step s e s'"


section \<open>The contract of the controller\<close>

locale irq_controller =
  fixes connect :: "nat \<Rightarrow> 'c \<Rightarrow> 'p \<Rightarrow> bool \<times> 'p"
    and disconnect :: "nat \<Rightarrow> 'c \<Rightarrow> 'p \<Rightarrow> bool \<times> 'p"
    and serves :: "'p \<Rightarrow> nat \<Rightarrow> 'c list"
  assumes connect_ok: "n \<le> IRQ_MAX \<Longrightarrow> (\<And>k. k \<le> IRQ_MAX \<Longrightarrow> c \<notin> set (serves p k)) \<Longrightarrow>
      \<exists>p'. connect n c p = (True, p') \<and> serves p' = (serves p)(n := c # serves p n)"
    and disconnect_ok: "n \<le> IRQ_MAX \<Longrightarrow> c \<in> set (serves p n) \<Longrightarrow>
      \<exists>p'. disconnect n c p = (True, p') \<and> serves p' = (\<lambda>k. removeAll c (serves p k))"
begin

lemma connect_disconnect:
  assumes "n \<le> IRQ_MAX" "\<And>k. c \<notin> set (serves p k)"
  shows "\<exists>p1 p2. connect n c p = (True, p1) \<and> disconnect n c p1 = (True, p2) \<and>
    serves p2 = serves p"
proof -
  from connect_ok [of n c p] assms obtain p1 where
    p1: "connect n c p = (True, p1)" "serves p1 = (serves p)(n := c # serves p n)" by blast
  from disconnect_ok [OF assms(1), of c p1] p1(2) obtain p2 where
    p2: "disconnect n c p1 = (True, p2)" "serves p2 = (\<lambda>k. removeAll c (serves p1 k))" by auto
  have "serves p2 = serves p"
    using assms(2) by (auto simp: p2(2) p1(2) fun_eq_iff removeAll_id)
  with p1(1) p2(1) show ?thesis by blast
qed

end

interpretation kpic: irq_controller irq_connect irq_disconnect clients
  by unfold_locales (auto simp: irq_connect_def irq_disconnect_def linked_def Let_def)

section \<open>Invariant\<close>

text \<open>
  A line is monitored exactly when its own proxy is linked to it, and the only other client is the
  timer handler on line 0; but for the cascade, a line is enabled exactly when it has a client (is
  monitored, or is line 0), and the cascade is when it is monitored; no
  bit above 15 is ever set; and only a monitored line is polled.
\<close>

definition line_clients :: "irqst \<Rightarrow> nat \<Rightarrow> irq_client list" where
  "line_clients s n = (if bit (monitoredflag s) n then [Proxy n] else []) @ (if n = 0 then [Pit_handler] else [])"

fun polled_line :: "activity \<Rightarrow> u8 option" where
  "polled_line Idle = None"
| "polled_line (Polling irq) = Some irq"
| "polled_line (Polled irq) = Some irq"
| "polled_line (Loaded irq v) = Some irq"

definition irq_ok :: "irqst \<Rightarrow> bool" where
  "irq_ok s \<longleftrightarrow> length (irqflags s) = Suc IRQ_MAX \<and>
     (\<forall>n. clients (ctl s) n = line_clients s n) \<and>
     (\<forall>n. n \<noteq> 2 \<longrightarrow> (enabled (ctl s) n \<longleftrightarrow> bit (monitoredflag s) n \<or> n = 0)) \<and> (bit (monitoredflag s) 2 \<longrightarrow> enabled (ctl s) 2) \<and>
     (\<forall>n. bit (monitoredflag s) n \<longrightarrow> n \<le> IRQ_MAX) \<and>
     (\<forall>irq. polled_line (act s) = Some irq \<longrightarrow> bit (monitoredflag s) (unat irq))"

lemma and_shl1: "(w :: u32) AND 2 ^ k \<noteq> 0 \<longleftrightarrow> bit w k"
  by (simp add: and_exp_eq_0_iff_not_bit)

lemma MONITORED_eq:
  "MONITORED irq s = (if unat irq < 32 then Some (bit (monitoredflag s) (unat irq)) else None)"
  by (simp add: MONITORED_def shl1_def and_shl1)

lemma bit_set_mon: "k < 32 \<Longrightarrow> bit ((w :: u32) OR 2 ^ k) n \<longleftrightarrow> bit w n \<or> n = k"
  by (auto simp: bit_simps)

lemma bit_clear_mon: "bit ((w :: u32) AND NOT (2 ^ k)) n \<longleftrightarrow> bit w n \<and> n \<noteq> k"
  by (auto simp: bit_simps dest: bit_imp_le_length)

lemma init_irq_ok: "irq_ok init_irqst"
  by (simp add: irq_ok_def init_irqst_def booted_pic_def init_pic_def irq_connect_def linked_def line_clients_def)

lemma monitor_ok:
  assumes "irq_ok s" "act s = Idle" "monitor irq s = Some (r, s')"
  shows "irq_ok s' \<and> irqflags s' = irqflags s \<and> act s' = Idle \<and> (r = RetNone \<or> s' = s)"
proof (cases "bit (monitoredflag s) (unat irq)")
  case True
  then show ?thesis using assms by (auto simp: monitor_def MONITORED_eq split: if_splits)
next
  case False
  let ?k = "unat irq"
  have le: "?k \<le> IRQ_MAX" and lt: "?k < 32"
    using assms(3) False
    by (auto simp: monitor_def MONITORED_eq hfunarray_def shl1_def Let_def split: if_splits)
  have cl: "clients (ctl s) n = line_clients s n" for n using assms(1) by (simp add: irq_ok_def)
  have "\<not> linked (ctl s) (Proxy ?k)" using False by (auto simp: linked_def cl line_clients_def split: if_splits)
  then have r: "r = RetNone" and s': "s' = s\<lparr>monitoredflag := monitoredflag s OR 2 ^ ?k, ctl := (ctl s)\<lparr>
      clients := (clients (ctl s))(?k := Proxy ?k # clients (ctl s) ?k), enabled := (enabled (ctl s))(?k := True)\<rparr>\<rparr>"
    using assms(3) False le lt
    by (simp_all add: monitor_def MONITORED_eq hfunarray_def shl1_def hook_irq_def irq_connect_def Let_def)
  have "clients (ctl s') n = line_clients s' n" for n
    using False lt by (simp add: s' line_clients_def cl bit_set_mon)
  moreover have "n \<noteq> 2 \<Longrightarrow> enabled (ctl s') n \<longleftrightarrow> bit (monitoredflag s') n \<or> n = 0" for n
    using assms(1) lt by (simp add: s' irq_ok_def bit_set_mon)
  moreover have "bit (monitoredflag s') 2 \<longrightarrow> enabled (ctl s') 2" using assms(1) lt by (simp add: s' irq_ok_def bit_set_mon)
  moreover have "bit (monitoredflag s') n \<Longrightarrow> n \<le> IRQ_MAX" for n using assms(1) lt le by (auto simp: s' irq_ok_def bit_set_mon)
  moreover have "irqflags s' = irqflags s" "act s' = Idle" using assms(2) by (simp_all add: s')
  moreover have "length (irqflags s) = Suc IRQ_MAX" using assms(1) by (simp add: irq_ok_def)
  ultimately show ?thesis using r unfolding irq_ok_def by simp
qed

lemma unmonitor_ok:
  assumes "irq_ok s" "act s = Idle" "unmonitor irq s = Some (r, s')"
  shows "irq_ok s' \<and> irqflags s' = irqflags s \<and> act s' = Idle \<and> (r = RetNone \<or> s' = s)"
proof (cases "bit (monitoredflag s) (unat irq)")
  case False
  then show ?thesis using assms by (auto simp: unmonitor_def MONITORED_eq split: if_splits)
next
  case True
  let ?k = "unat irq"
  from True assms(1) have le: "?k \<le> IRQ_MAX" by (simp add: irq_ok_def)
  then have lt: "?k < 32" by (simp add: IRQ_MAX_def)
  have cl: "clients (ctl s) = line_clients s" using assms(1) by (simp add: irq_ok_def fun_eq_iff)
  with True le have l: "linked (ctl s) (Proxy ?k)"
    by (auto simp: linked_def line_clients_def intro!: exI [of _ ?k])
  let ?cl = "\<lambda>n. removeAll (Proxy ?k) (clients (ctl s) n)"
  have c: "?cl n = (if bit (monitoredflag s) n \<and> n \<noteq> ?k then [Proxy n] else []) @ (if n = 0 then [Pit_handler] else [])" for n
    by (simp add: cl line_clients_def)
  have r: "r = RetNone" and s': "s' = s\<lparr>monitoredflag := monitoredflag s AND NOT (2 ^ ?k), ctl := (ctl s)\<lparr>clients := ?cl,
      enabled := (if ?cl ?k = [] then (enabled (ctl s))(?k := False) else enabled (ctl s))\<rparr>\<rparr>"
    using assms(3) True le lt l
    by (auto simp: unmonitor_def MONITORED_eq hfunarray_def shl1_def unhook_irq_def irq_disconnect_def Let_def)
  have e: "?cl ?k = [] \<longleftrightarrow> ?k \<noteq> 0" by (simp add: c)
  have m: "bit (monitoredflag s') n \<longleftrightarrow> bit (monitoredflag s) n \<and> n \<noteq> ?k" for n by (simp add: s' bit_clear_mon)
  have en: "enabled (ctl s') n \<longleftrightarrow> enabled (ctl s) n \<and> (n = ?k \<longrightarrow> ?k = 0)" for n
    using e by (cases "?cl ?k = []") (simp_all add: s')
  have "clients (ctl s') n = line_clients s' n" for n unfolding line_clients_def m by (simp add: s' c)
  moreover have "n \<noteq> 2 \<Longrightarrow> enabled (ctl s') n \<longleftrightarrow> bit (monitoredflag s') n \<or> n = 0" for n
    using assms(1) unfolding en m by (auto simp: irq_ok_def)
  moreover have "bit (monitoredflag s') 2 \<longrightarrow> enabled (ctl s') 2" using assms(1) unfolding en m by (auto simp: irq_ok_def)
  moreover have "bit (monitoredflag s') n \<Longrightarrow> n \<le> IRQ_MAX" for n using assms(1) by (simp add: s' irq_ok_def bit_clear_mon)
  moreover have "irqflags s' = irqflags s" "act s' = Idle" using assms(2) by (simp_all add: s')
  moreover have "length (irqflags s) = Suc IRQ_MAX" using assms(1) by (simp add: irq_ok_def)
  ultimately show ?thesis using r unfolding irq_ok_def by simp
qed

lemma deliver_ok:
  assumes "irq_ok s" "deliver (clients (ctl s) n) s = Some s'"
  shows "irq_ok s' \<and> act s' = act s \<and>
    irqflags s' = (if Proxy n \<in> set (clients (ctl s) n) then (irqflags s)[n := irqflags s ! n + 1] else irqflags s)"
  using assms by (auto simp: irq_ok_def line_clients_def irq_module_handler_def split: if_splits)

lemma sleep_ok:
  assumes "irq_ok s" "act s = Idle" "sleep_until irq s = Some (r, s')"
  shows "irq_ok s' \<and> irqflags s' = irqflags s \<and> (act s' = Idle \<or> act s' = Polling irq)"
  using assms by (auto simp: irq_ok_def line_clients_def sleep_until_def MONITORED_eq split: if_splits)

lemma access_ok:
  assumes "irq_ok s"
  shows "act s = Polling irq \<Longrightarrow> poll_flag irq s = Some s' \<Longrightarrow> irq_ok s' \<and> irqflags s' = irqflags s \<and>
      (s' = s \<or> act s' = Polled irq \<and> irqflags s ! unat irq \<noteq> 0)"
    and "act s = Polled irq \<Longrightarrow> load_flag irq s = Some s' \<Longrightarrow> irq_ok s' \<and> irqflags s' = irqflags s \<and>
      act s' = Loaded irq (irqflags s ! unat irq)"
    and "act s = Loaded irq v \<Longrightarrow> store_flag irq v s = Some s' \<Longrightarrow> irq_ok s' \<and> act s' = Idle \<and>
      irqflags s' = (irqflags s)[unat irq := v - 1]"
  using assms by (auto simp: irq_ok_def line_clients_def poll_flag_def load_flag_def store_flag_def split: if_splits)

lemma reset_ok:
  assumes "irq_ok s" "act s = Idle" "reset irq s = Some (r, s')"
  shows "irq_ok s' \<and> act s' = Idle \<and> irqflags s' = (irqflags s)[unat irq := 0]"
  using assms by (auto simp: irq_ok_def line_clients_def reset_def split: if_splits)

lemma irq_step_ok: "irq_step s e s' \<Longrightarrow> irq_ok s \<Longrightarrow> irq_ok s'"
  by (auto elim!: irq_stepE dest: deliver_ok sleep_ok access_ok monitor_ok unmonitor_ok reset_ok)

lemma irq_run_ok: "irq_run s es s' \<Longrightarrow> irq_ok s \<Longrightarrow> irq_ok s'"
  by (induction rule: irq_run.induct) (auto intro: irq_step_ok)

text \<open>
  Interrupts that come while the decrement of their line is between its read and its write: the
  number since the read, if the decrement has begun, and the number of finished decrements.
\<close>

fun window_step :: "nat \<Rightarrow> nat option \<times> nat \<Rightarrow> irq_event \<Rightarrow> nat option \<times> nat" where
  "window_step n (w, l) (Load irq) = (if unat irq = n then Some 0 else w, l)"
| "window_step n (w, l) (Fire k) = (if k = n then map_option Suc w else w, l)"
| "window_step n (w, l) (Store irq) = (if unat irq = n then (None, l + (case w of None \<Rightarrow> 0 | Some k \<Rightarrow> k)) else (w, l))"
| "window_step n (w, l) e = (w, l)"

definition window :: "nat \<Rightarrow> irq_event list \<Rightarrow> nat option \<times> nat" where
  "window n es = foldl (window_step n) (None, 0) es"

definition lost :: "nat \<Rightarrow> irq_event list \<Rightarrow> nat" where
  "lost n es = snd (window n es)"

text \<open>The account of line \<open>n\<close> after a run.\<close>

definition accounted :: "nat \<Rightarrow> irq_event list \<Rightarrow> irqst \<Rightarrow> bool" where
  "accounted n es s \<longleftrightarrow>
     unat (irqflags s ! n) + count_list es (Store (of_nat n)) + lost n es = count_list es (Fire n) \<and>
     (case fst (window n es) of
        None \<Rightarrow> \<forall>v. act s \<noteq> Loaded (of_nat n) v
      | Some k \<Rightarrow> \<exists>v. act s = Loaded (of_nat n) v \<and> v \<noteq> 0 \<and> unat (irqflags s ! n) = unat v + k) \<and>
     (act s = Polled (of_nat n) \<longrightarrow> irqflags s ! n \<noteq> 0)"

lemma unat_line: "n \<le> IRQ_MAX \<Longrightarrow> unat (of_nat n :: u8) = n"
  by (simp add: IRQ_MAX_def unat_of_nat)

lemma unat_line_eq: "n \<le> IRQ_MAX \<Longrightarrow> unat (irq :: u8) = n \<longleftrightarrow> irq = of_nat n"
  by (auto simp: unat_line)

lemma accounted_step:
  assumes "accounted n es s" "irq_step s e s'" "irq_ok s" "n \<le> IRQ_MAX"
    and "\<And>irq. e = Reset irq \<Longrightarrow> unat irq \<noteq> n" "count_list (es @ [e]) (Fire n) < 2 ^ 32"
  shows "accounted n (es @ [e]) s'"
proof -
  have len: "length (irqflags s) = Suc IRQ_MAX" using assms(3) by (simp add: irq_ok_def)
  obtain w l where w: "window n es = (w, l)" by (cases "window n es")
  have w': "window n (es @ [e]) = window_step n (w, l) e" using w by (simp add: window_def)
  note un = unat_line_eq [OF assms(4)]
  have a: "unat (irqflags s ! n) + count_list es (Store (of_nat n)) + l = count_list es (Fire n)"
    "case w of None \<Rightarrow> \<forall>v. act s \<noteq> Loaded (of_nat n) v
      | Some k \<Rightarrow> \<exists>v. act s = Loaded (of_nat n) v \<and> v \<noteq> 0 \<and> unat (irqflags s ! n) = unat v + k"
    "act s = Polled (of_nat n) \<Longrightarrow> irqflags s ! n \<noteq> 0"
    using assms(1) w by (simp_all add: accounted_def lost_def)
  show ?thesis using assms(2)
  proof cases
    case (fire k)
    have d: "act s' = act s" "irqflags s' = (irqflags s)[k := irqflags s ! k + 1]"
      using deliver_ok [OF assms(3) fire(4)] fire(3) by simp_all
    show ?thesis
    proof (cases "k = n")
      case True
      have "unat (irqflags s ! n) + 1 < 2 ^ 32" using a(1) assms(6) fire(1) True by simp
      then have "unat (irqflags s ! n + 1) = unat (irqflags s ! n) + 1" by (simp add: unat_word_ariths)
      moreover from this have "irqflags s ! n + 1 \<noteq> 0" by (metis Suc_eq_plus1 nat.distinct(1) unat_0)
      ultimately show ?thesis using a w' d len assms(4) True
        by (auto simp: accounted_def lost_def fire(1) split: option.splits)
    qed (use a w' d in \<open>auto simp: accounted_def lost_def fire(1) split: option.splits\<close>)
  next
    case (stray k)
    have "act s' = act s" "irqflags s' = irqflags s" using deliver_ok [OF assms(3) stray(4)] stray(3) by simp_all
    then show ?thesis using a w' by (auto simp: accounted_def lost_def stray(1) split: option.splits)
  next
    case (sleep irq r)
    then show ?thesis using sleep_ok [OF assms(3) sleep(2,3)] a w' by (auto simp: accounted_def lost_def split: option.splits)
  next
    case (poll irq)
    then show ?thesis using access_ok(1) [OF assms(3) poll(2,3)] a w' unat_line [OF assms(4)]
      by (auto simp: accounted_def lost_def split: option.splits)
  next
    case (load irq)
    have d: "irqflags s' = irqflags s" "act s' = Loaded irq (irqflags s ! unat irq)" using access_ok(2) [OF assms(3) load(2,3)] by simp_all
    show ?thesis
    proof (cases "irq = of_nat n")
      case True
      then have u: "unat irq = n" using unat_line [OF assms(4)] by simp
      then have "window n (es @ [e]) = (Some 0, l)" using w' by (simp add: load(1))
      moreover have "irqflags s ! n \<noteq> 0" using a(3) load(2) True by simp
      ultimately show ?thesis using a(1) d u True by (simp add: accounted_def lost_def load(1))
    qed (use a w' d un load(2) in \<open>auto simp: accounted_def lost_def load(1) split: option.splits\<close>)
  next
    case (store irq v)
    have d: "act s' = Idle" "irqflags s' = (irqflags s)[unat irq := v - 1]" using access_ok(3) [OF assms(3) store(2,3)] by simp_all
    show ?thesis
    proof (cases "irq = of_nat n")
      case True
      then obtain k where k: "w = Some k" "v \<noteq> 0" "unat (irqflags s ! n) = unat v + k"
        using a(2) store(2) by (auto split: option.splits)
      have "0 < unat v" using k(2) by (simp add: unat_gt_0)
      then have "unat (v - 1) + 1 = unat v" using unat_minus_one [OF k(2)] by simp
      moreover have "unat irq = n" using True unat_line [OF assms(4)] by simp
      then have "irqflags s' ! n = v - 1" "window n (es @ [e]) = (None, l + k)" using d(2) w' k(1) len assms(4) by (simp_all add: store(1))
      ultimately show ?thesis using a(1) d(1) k(3) True by (simp add: accounted_def lost_def store(1))
    next
      case False
      then have u: "unat irq \<noteq> n" using un by simp
      have "irqflags s' ! n = irqflags s ! n" using d(2) u by simp
      moreover have "act s \<noteq> Loaded (of_nat n) x" for x using store(2) False by simp
      moreover have "window n (es @ [e]) = (w, l)" using w' u by (simp add: store(1))
      ultimately show ?thesis using a d(1) False by (auto simp: accounted_def lost_def store(1) split: option.splits)
    qed
  next
    case (mon irq r)
    then show ?thesis using monitor_ok [OF assms(3) mon(2,3)] a w' by (auto simp: accounted_def lost_def split: option.splits)
  next
    case (unmon irq r)
    then show ?thesis using unmonitor_ok [OF assms(3) unmon(2,3)] a w' by (auto simp: accounted_def lost_def split: option.splits)
  next
    case (rst irq r)
    then show ?thesis using reset_ok [OF assms(3) rst(2,3)] a w' assms(5) by (auto simp: accounted_def lost_def split: option.splits)
  qed
qed

lemma accounted_run:
  assumes "irq_run s es s'" "s = init_irqst" "n \<le> IRQ_MAX"
    and "\<And>irq. Reset irq \<in> set es \<Longrightarrow> unat irq \<noteq> n" "count_list es (Fire n) < 2 ^ 32"
  shows "accounted n es s'"
  using assms
proof (induction rule: irq_run.induct)
  case (nil s)
  then show ?case by (simp add: accounted_def lost_def window_def init_irqst_def del: replicate_Suc)
next
  case (snoc s es t e u)
  show ?case
  proof (rule accounted_step)
    show "accounted n es t" using snoc by (auto split: if_splits)
    show "irq_step t e u" by (rule snoc.hyps(2))
    show "irq_ok t" using irq_run_ok [OF snoc.hyps(1)] snoc.prems(1) init_irq_ok by simp
  qed (use snoc.prems in auto)
qed

section \<open>Properties\<close>

text \<open>C5: Whatever sequence of calls and interrupts follows the start of the kernel, a line is monitored
  exactly when the module's proxy is linked to it, the timer handler stays the only other client, on
  line 0, a line other than the cascade is enabled exactly when it is monitored or line 0, and lines
  above 15 are never monitored.\<close>

theorem irq_invariant:
  assumes "irq_run init_irqst es s"
  shows "irq_ok s"
  using irq_run_ok [OF assms init_irq_ok] .

lemma monitor_run: "irq_run init_irqst [Monitor 1] (snd (the (monitor 1 init_irqst)))"
proof -
  have "monitor 1 init_irqst \<noteq> None"
    by (simp add: monitor_def MONITORED_def shl1_def hfunarray_def IRQ_MAX_def Let_def)
  then obtain r s where "monitor 1 init_irqst = Some (r, s)" by auto
  moreover have "act init_irqst = Idle" by (simp add: init_irqst_def)
  ultimately show ?thesis using irq_run.snoc [OF irq_run.nil irq_step.mon, of init_irqst 1 r s] by simp
qed

theorem irq_invariant_witness: "irq_ok (snd (the (monitor 1 init_irqst)))"
  by (rule irq_invariant [OF monitor_run])

text \<open>C4: Every interrupt on a monitored line is accounted for: while the line is not reset, and up to the
  width of the counter, the interrupts delivered on it are those counted and not yet consumed, the
  returned calls of \<open>sleep_until\<close>, and the lost ones; and an interrupt is lost exactly when it comes
  between the read and the write of the decrement \<open>irqflags[irq] -= 1\<close>.\<close>

theorem interrupts_accounted:
  assumes "irq_run init_irqst es s" "n \<le> IRQ_MAX"
    and "\<And>irq. Reset irq \<in> set es \<Longrightarrow> unat irq \<noteq> n" "count_list es (Fire n) < 2 ^ 32"
  shows "unat (irqflags s ! n) + count_list es (Store (of_nat n)) + lost n es = count_list es (Fire n)"
  using accounted_run [OF assms(1) refl assms(2-4)] by (simp add: accounted_def)

text \<open>A run that loses an interrupt of line 1.\<close>

abbreviation (input) monitored_one :: irqst where
  "monitored_one \<equiv> snd (the (monitor 1 init_irqst))"

lemma monitored_one:
  "monitoredflag monitored_one = 2" "irqflags monitored_one = replicate 16 0" "clients (ctl monitored_one) 1 = [Proxy 1]"
  "enabled (ctl monitored_one) 1" "act monitored_one = Idle"
  by (simp_all add: monitor_def MONITORED_def shl1_def hfunarray_def IRQ_MAX_def Let_def hook_irq_def irq_connect_def linked_def
      init_irqst_def booted_pic_def init_pic_def eval_nat_numeral split: prod.splits)

lemma lossy_run:
  "\<exists>s. irq_run init_irqst ([Monitor 1] @ [Fire 1] @ [Sleep 1] @ [Poll 1] @ [Load 1] @ [Fire 1] @ [Store 1]) s \<and> irqflags s ! 1 = 0"
proof -
  let ?m = monitored_one
  define s1 where "s1 = ?m\<lparr>irqflags := (replicate 16 0)[1 := 1]\<rparr>"
  define s2 where "s2 = s1\<lparr>act := Polling 1\<rparr>"
  define s3 where "s3 = s1\<lparr>act := Polled 1\<rparr>"
  define s4 where "s4 = s1\<lparr>act := Loaded 1 1\<rparr>"
  define s5 where "s5 = s4\<lparr>irqflags := (replicate 16 0)[1 := 2]\<rparr>"
  define s6 where "s6 = s5\<lparr>irqflags := (replicate 16 0)[1 := 0], act := Idle\<rparr>"
  note f = monitored_one
  have r: "raised 1 ?m" "raised 1 s4" using f(4) by (simp_all add: raised_def IRQ_MAX_def s4_def s1_def)
  have "irq_step ?m (Fire 1) s1"
    by (rule irq_step.fire [OF r(1)]) (use f in \<open>simp_all add: irq_module_handler_def s1_def\<close>)
  moreover have "irq_step s1 (Sleep 1) s2"
    by (rule irq_step.sleep [where r = None]) (use f in \<open>simp_all add: s1_def s2_def sleep_until_def MONITORED_def shl1_def\<close>)
  moreover have "irq_step s2 (Poll 1) s3" by (rule irq_step.poll) (simp_all add: s1_def s2_def s3_def poll_flag_def)
  moreover have "irq_step s3 (Load 1) s4" by (rule irq_step.load) (simp_all add: s1_def s3_def s4_def load_flag_def)
  moreover have "irq_step s4 (Fire 1) s5"
    by (rule irq_step.fire [OF r(2)]) (use f in \<open>simp_all add: irq_module_handler_def s1_def s4_def s5_def\<close>)
  moreover have "irq_step s5 (Store 1) s6"
    by (rule irq_step.store [where v = 1]) (simp_all add: s1_def s4_def s5_def s6_def store_flag_def)
  ultimately have "irq_run init_irqst (((((([Monitor 1] @ [Fire 1]) @ [Sleep 1]) @ [Poll 1]) @ [Load 1]) @ [Fire 1]) @ [Store 1]) s6"
    using monitor_run by (blast intro: irq_run.snoc)
  moreover have "irqflags s6 ! 1 = 0" by (simp add: s6_def)
  ultimately show ?thesis by auto
qed

theorem interrupts_accounted_witness:
  "\<exists>s es. irq_run init_irqst es s \<and> count_list es (Fire 1) = 2 \<and> count_list es (Store 1) = 1 \<and> irqflags s ! 1 = 0 \<and> lost 1 es = 1"
proof -
  let ?es = "[Monitor 1, Fire 1, Sleep 1, Poll 1, Load 1, Fire 1, Store 1]"
  obtain s where s: "irq_run init_irqst ?es s" "irqflags s ! 1 = 0" using lossy_run by auto
  have "unat (irqflags s ! 1) + count_list ?es (Store (of_nat 1)) + lost 1 ?es = count_list ?es (Fire 1)"
    by (rule interrupts_accounted [OF s(1)]) (simp_all add: IRQ_MAX_def)
  then have "lost 1 ?es = 1" using s(2) by simp
  then show ?thesis using s by (intro exI [of _ s] exI [of _ ?es]) simp
qed

lemma irq_defined_iffs:
  assumes "irq_ok s"
  shows "monitor irq s = None \<longleftrightarrow> 16 \<le> unat irq"
    and "unmonitor irq s = None \<longleftrightarrow> 32 \<le> unat irq"
    and "sleep_until irq s = None \<longleftrightarrow> 32 \<le> unat irq"
    and "reset irq s = None \<longleftrightarrow> 16 \<le> unat irq"
proof -
  have le: "bit (monitoredflag s) (unat irq) \<Longrightarrow> unat irq \<le> 15"
    using assms by (simp add: irq_ok_def IRQ_MAX_def)
  have len: "length (irqflags s) = 16" using assms by (simp add: irq_ok_def IRQ_MAX_def)
  show "monitor irq s = None \<longleftrightarrow> 16 \<le> unat irq"
    using le by (auto simp: monitor_def MONITORED_eq shl1_def hfunarray_def IRQ_MAX_def Let_def)
  show "unmonitor irq s = None \<longleftrightarrow> 32 \<le> unat irq"
    using le by (auto simp: unmonitor_def MONITORED_eq shl1_def hfunarray_def IRQ_MAX_def Let_def)
  show "sleep_until irq s = None \<longleftrightarrow> 32 \<le> unat irq"
    by (auto simp: sleep_until_def MONITORED_eq)
  show "reset irq s = None \<longleftrightarrow> 16 \<le> unat irq"
    using len by (auto simp: reset_def)
qed

lemma accesses_defined:
  assumes "irq_ok s" "polled_line (act s) = Some irq"
  shows "poll_flag irq s \<noteq> None" "load_flag irq s \<noteq> None" "store_flag irq v s \<noteq> None"
proof -
  have "unat irq < length (irqflags s)" using assms by (auto simp: irq_ok_def less_Suc_eq_le)
  then show "poll_flag irq s \<noteq> None" "load_flag irq s \<noteq> None" "store_flag irq v s \<noteq> None"
    by (simp_all add: poll_flag_def load_flag_def store_flag_def)
qed

lemma deliver_defined:
  assumes "irq_ok s" "raised n s"
  shows "deliver (clients (ctl s) n) s \<noteq> None"
  using assms by (auto simp: irq_ok_def raised_def line_clients_def irq_module_handler_def)

text \<open>C6: In every state the module reaches after the start of the kernel, a call has undefined behaviour
  exactly for the line numbers its Python argument can hold and its code does not check: \<open>monitor\<close> and
  \<open>reset\<close> from 16 on, the shift of the other calls from 32 on. The accesses of a polling call and the
  delivery of an interrupt are always defined.\<close>

theorem irq_module_defined_iff:
  assumes "irq_run init_irqst es s"
  shows "(monitor irq s = None \<longleftrightarrow> 16 \<le> unat irq) \<and> (unmonitor irq s = None \<longleftrightarrow> 32 \<le> unat irq) \<and>
    (sleep_until irq s = None \<longleftrightarrow> 32 \<le> unat irq) \<and> (reset irq s = None \<longleftrightarrow> 16 \<le> unat irq) \<and>
    (polled_line (act s) = Some line \<longrightarrow> poll_flag line s \<noteq> None \<and> load_flag line s \<noteq> None \<and> store_flag line v s \<noteq> None) \<and>
    (raised n s \<longrightarrow> deliver (clients (ctl s) n) s \<noteq> None)"
  using irq_run_ok [OF assms init_irq_ok] irq_defined_iffs accesses_defined deliver_defined by blast

theorem irq_module_defined_iff_witness:
  "monitor 16 monitored_one = None \<and> unmonitor 16 monitored_one \<noteq> None"
  using irq_module_defined_iff [OF monitor_run, of 16] by simp

end
