(* ===== verification/Cstring.thy ===== *)
theory Cstring
  imports Prelude "HOL-Library.Sublist"
begin

text \<open>
  The memory and string functions of the C library (\<^verbatim>\<open>lib/c/lib/mem*.c\<close>, \<^verbatim>\<open>str*.c\<close>) over
  the flat RAM, in the configuration of \<^verbatim>\<open>dietfeatures.h\<close> (\<open>WANT_SMALL_STRING_ROUTINES\<close> on,
  \<open>WANT_FULL_POSIX_COMPAT\<close> off). A function returns \<open>None\<close> when it touches an address past
  the end of RAM. A pointer result that may be NULL is an \<open>addr option\<close>. Plain \<open>char\<close> is
  signed on i386, so where the code subtracts or compares \<open>char\<close> values with an \<open>int\<close> the
  model reads them with \<open>sint\<close>. Counts and pointers are natural numbers and do not wrap.

  \<open>bytes\<close> and \<open>cstr\<close> say which bytes, or which NUL-terminated string, RAM holds at an address;
  the lemmas relate every function to operations on those lists.
\<close>

section \<open>What RAM holds at an address\<close>

primrec bytes :: "ram \<Rightarrow> addr \<Rightarrow> u8 list \<Rightarrow> bool" where
  "bytes m s [] = True"
| "bytes m s (x # xs) = (load m s = Some x \<and> bytes m (Suc s) xs)"

primrec cstr :: "ram \<Rightarrow> addr \<Rightarrow> u8 list \<Rightarrow> bool" where
  "cstr m s [] = (load m s = Some 0)"
| "cstr m s (x # xs) = (x \<noteq> 0 \<and> load m s = Some x \<and> cstr m (Suc s) xs)"

definition sc :: "u8 \<Rightarrow> int" where
  "sc b = sint b"

definition uc :: "u8 \<Rightarrow> int" where
  "uc b = uint b"

section \<open>Block operations\<close>

fun memcpy :: "ram \<Rightarrow> addr \<Rightarrow> addr \<Rightarrow> nat \<Rightarrow> ram option" where
  "memcpy m c1 c2 0 = Some m"
| "memcpy m c1 c2 (Suc n) = do {
     v \<leftarrow> load m c2;
     m' \<leftarrow> store m c1 v;
     memcpy m' (Suc c1) (Suc c2) n
   }"

text \<open>The backward loop of \<open>memmove\<close>: \<open>n\<close> bytes are left, so the pointers are at offset \<open>n - 1\<close>.\<close>

fun memmove_down :: "ram \<Rightarrow> addr \<Rightarrow> addr \<Rightarrow> nat \<Rightarrow> ram option" where
  "memmove_down m a b 0 = Some m"
| "memmove_down m a b (Suc n) = do {
     v \<leftarrow> load m (b + n);
     m' \<leftarrow> store m (a + n) v;
     memmove_down m' a b n
   }"

definition memmove :: "ram \<Rightarrow> addr \<Rightarrow> addr \<Rightarrow> nat \<Rightarrow> ram option" where
  "memmove m dst src count =
     (if src \<noteq> dst then
        if src > dst then memcpy m dst src count else memmove_down m dst src count
      else Some m)"

fun memset :: "ram \<Rightarrow> addr \<Rightarrow> int \<Rightarrow> nat \<Rightarrow> ram option" where
  "memset m a s 0 = Some m"
| "memset m a s (Suc count) = do {
     m' \<leftarrow> store m a (of_int s);
     memset m' (Suc a) s count
   }"

fun memcmp :: "ram \<Rightarrow> addr \<Rightarrow> addr \<Rightarrow> nat \<Rightarrow> int option" where
  "memcmp m d s 0 = Some 0"
| "memcmp m d s (Suc count) = do {
     x \<leftarrow> load m d;
     y \<leftarrow> load m s;
     (let r = uc x - uc y in
      if r \<noteq> 0 then Some r else memcmp m (Suc d) (Suc s) count)
   }"

fun memccpy :: "ram \<Rightarrow> addr \<Rightarrow> addr \<Rightarrow> int \<Rightarrow> nat \<Rightarrow> (addr option \<times> ram) option" where
  "memccpy m a b c 0 = Some (None, m)"
| "memccpy m a b c (Suc count) = do {
     v \<leftarrow> load m b;
     m' \<leftarrow> store m a v;
     v' \<leftarrow> load m' b;
     if sc v' = c then Some (Some (Suc a), m') else memccpy m' (Suc a) (Suc b) c count
   }"

fun memrchr_loop :: "ram \<Rightarrow> addr option \<Rightarrow> addr \<Rightarrow> int \<Rightarrow> nat \<Rightarrow> addr option option" where
  "memrchr_loop m found t c 0 = Some found"
| "memrchr_loop m found t c (Suc i) = do {
     v \<leftarrow> load m t;
     memrchr_loop m (if sc v = c then Some t else found) (Suc t) c i
   }"

definition memrchr :: "ram \<Rightarrow> addr \<Rightarrow> int \<Rightarrow> nat \<Rightarrow> addr option option" where
  "memrchr m s c n = memrchr_loop m None s c n"

fun memmem_loop :: "ram \<Rightarrow> addr \<Rightarrow> addr \<Rightarrow> nat \<Rightarrow> nat \<Rightarrow> addr option option" where
  "memmem_loop m haystack needle nl 0 = Some None"
| "memmem_loop m haystack needle nl (Suc i) = do {
     r \<leftarrow> memcmp m haystack needle nl;
     if r = 0 then Some (Some haystack) else memmem_loop m (Suc haystack) needle nl i
   }"

definition memmem :: "ram \<Rightarrow> addr \<Rightarrow> nat \<Rightarrow> addr \<Rightarrow> nat \<Rightarrow> addr option option" where
  "memmem m haystack hl needle nl =
     (if nl > hl then Some None else memmem_loop m haystack needle nl (hl - nl + 1))"

text \<open>\<open>swab\<close>: pairs of bytes; an odd last byte is not copied.\<close>

fun swab_loop :: "ram \<Rightarrow> addr \<Rightarrow> addr \<Rightarrow> nat \<Rightarrow> ram option" where
  "swab_loop m s d 0 = Some m"
| "swab_loop m s d (Suc k) = do {
     x \<leftarrow> load m (Suc s);
     m1 \<leftarrow> store m d x;
     y \<leftarrow> load m1 s;
     m2 \<leftarrow> store m1 (Suc d) y;
     swab_loop m2 (s + 2) (d + 2) k
   }"

definition swab :: "ram \<Rightarrow> addr \<Rightarrow> addr \<Rightarrow> int \<Rightarrow> ram option" where
  "swab m src dest nbytes = swab_loop m src dest (nat (nbytes div 2))"

section \<open>String length, comparison and search\<close>

function strlen_loop :: "ram \<Rightarrow> addr \<Rightarrow> nat option" where
  "strlen_loop m s =
     (if s < length m then if m ! s = 0 then Some 0 else map_option Suc (strlen_loop m (Suc s))
      else None)"
  by pat_completeness auto
termination
  by (relation "measure (\<lambda>(m, s). length m - s)") auto

definition strlen :: "ram \<Rightarrow> addr \<Rightarrow> nat option" where
  "strlen m s = (if s = 0 then Some 0 else strlen_loop m s)"

function strcmp :: "ram \<Rightarrow> addr \<Rightarrow> addr \<Rightarrow> int option" where
  "strcmp m s1 s2 =
     (if s1 < length m \<and> s2 < length m then
        if m ! s1 \<noteq> 0 \<and> m ! s1 = m ! s2 then strcmp m (Suc s1) (Suc s2)
        else Some (sc (m ! s1) - sc (m ! s2))
      else None)"
  by pat_completeness auto
termination
  by (relation "measure (\<lambda>(m, s1, s2). length m - s1)") auto

fun strncmp :: "ram \<Rightarrow> addr \<Rightarrow> addr \<Rightarrow> nat \<Rightarrow> int option" where
  "strncmp m a b 0 = Some 0"
| "strncmp m a b (Suc n) = do {
     x \<leftarrow> load m a;
     y \<leftarrow> load m b;
     (let res = uc x - uc y in
      if res \<noteq> 0 then Some res
      else if x = 0 then Some 0
      else strncmp m (Suc a) (Suc b) n)
   }"

text \<open>\<open>x = *s - 'A'; if (x < 26u) x += 32\<close> on a 32-bit unsigned.\<close>

definition case_fold :: "u8 \<Rightarrow> u32" where
  "case_fold b = (let x = scast b - 65 in if x < 26 then x + 32 else x)"

function strcasecmp :: "ram \<Rightarrow> addr \<Rightarrow> addr \<Rightarrow> int option" where
  "strcasecmp m s1 s2 =
     (if s2 < length m \<and> s1 < length m then
        (let x2 = case_fold (m ! s2); x1 = case_fold (m ! s1) in
         if x2 \<noteq> x1 \<or> x1 = - 65 then Some (sint (x1 - x2))
         else strcasecmp m (Suc s1) (Suc s2))
      else None)"
  by pat_completeness auto
termination
  by (relation "measure (\<lambda>(m, s1, s2). length m - s1)") auto

fun strncasecmp :: "ram \<Rightarrow> addr \<Rightarrow> addr \<Rightarrow> nat \<Rightarrow> int option" where
  "strncasecmp m s1 s2 0 = Some 0"
| "strncasecmp m s1 s2 (Suc len) = do {
     y \<leftarrow> load m s2;
     x \<leftarrow> load m s1;
     (let x2 = case_fold y; x1 = case_fold x in
      if x2 \<noteq> x1 \<or> x1 = - 65 then Some (sint (x1 - x2))
      else strncasecmp m (Suc s1) (Suc s2) len)
   }"

function strchr_loop :: "ram \<Rightarrow> addr \<Rightarrow> u8 \<Rightarrow> addr option option" where
  "strchr_loop m t ch =
     (if t < length m then
        if m ! t = ch then Some (Some t) else if m ! t = 0 then Some None
        else strchr_loop m (Suc t) ch
      else None)"
  by pat_completeness auto
termination
  by (relation "measure (\<lambda>(m, t, ch). length m - t)") auto

definition strchr :: "ram \<Rightarrow> addr \<Rightarrow> int \<Rightarrow> addr option option" where
  "strchr m t c = strchr_loop m t (of_int c)"

function strrchr_loop :: "ram \<Rightarrow> addr option \<Rightarrow> addr \<Rightarrow> u8 \<Rightarrow> addr option option" where
  "strrchr_loop m l t ch =
     (if t < length m then
        (let l' = (if m ! t = ch then Some t else l) in
         if m ! t = 0 then Some l' else strrchr_loop m l' (Suc t) ch)
      else None)"
  by pat_completeness auto
termination
  by (relation "measure (\<lambda>(m, l, t, ch). length m - t)") auto

definition strrchr :: "ram \<Rightarrow> addr \<Rightarrow> int \<Rightarrow> addr option option" where
  "strrchr m t c = strrchr_loop m None t (of_int c)"

text \<open>The inner loops of \<open>strspn\<close>, \<open>strcspn\<close> and \<open>strpbrk\<close>: is the byte among \<open>al\<close> at \<open>accept\<close>?\<close>

fun among :: "ram \<Rightarrow> u8 \<Rightarrow> addr \<Rightarrow> nat \<Rightarrow> bool option" where
  "among m ch accept 0 = Some False"
| "among m ch accept (Suc al) = do {
     x \<leftarrow> load m accept;
     if ch = x then Some True else among m ch (Suc accept) al
   }"

function span_loop :: "bool \<Rightarrow> ram \<Rightarrow> addr \<Rightarrow> addr \<Rightarrow> nat \<Rightarrow> nat option" where
  "span_loop want m s accept al =
     (if s < length m then
        if m ! s = 0 then Some 0
        else (case among m (m ! s) accept al of
                None \<Rightarrow> None
              | Some a \<Rightarrow> if a = want then map_option Suc (span_loop want m (Suc s) accept al) else Some 0)
      else None)"
  by pat_completeness auto
termination
  by (relation "measure (\<lambda>(want, m, s, accept, al). length m - s)") auto

definition strspn :: "ram \<Rightarrow> addr \<Rightarrow> addr \<Rightarrow> nat option" where
  "strspn m s accept = do { al \<leftarrow> strlen m accept; span_loop True m s accept al }"

definition strcspn :: "ram \<Rightarrow> addr \<Rightarrow> addr \<Rightarrow> nat option" where
  "strcspn m s reject = do { al \<leftarrow> strlen m reject; span_loop False m s reject al }"

function strpbrk_loop :: "ram \<Rightarrow> addr \<Rightarrow> addr \<Rightarrow> nat \<Rightarrow> addr option option" where
  "strpbrk_loop m s accept l =
     (if s < length m then
        if m ! s = 0 then Some None
        else (case among m (m ! s) accept l of
                None \<Rightarrow> None
              | Some a \<Rightarrow> if a then Some (Some s) else strpbrk_loop m (Suc s) accept l)
      else None)"
  by pat_completeness auto
termination
  by (relation "measure (\<lambda>(m, s, accept, l). length m - s)") auto

definition strpbrk :: "ram \<Rightarrow> addr \<Rightarrow> addr \<Rightarrow> addr option option" where
  "strpbrk m s accept = do { l \<leftarrow> strlen m accept; strpbrk_loop m s accept l }"

fun strstr_loop :: "ram \<Rightarrow> addr \<Rightarrow> addr \<Rightarrow> nat \<Rightarrow> nat \<Rightarrow> addr option option" where
  "strstr_loop m haystack needle nl 0 = Some None"
| "strstr_loop m haystack needle nl (Suc i) = do {
     x \<leftarrow> load m haystack;
     y \<leftarrow> load m needle;
     r \<leftarrow> (if x = y then map_option (\<lambda>r. r = 0) (memcmp m haystack needle nl) else Some False);
     if r then Some (Some haystack) else strstr_loop m (Suc haystack) needle nl i
   }"

definition strstr :: "ram \<Rightarrow> addr \<Rightarrow> addr \<Rightarrow> addr option option" where
  "strstr m haystack needle = do {
     nl \<leftarrow> strlen m needle;
     hl \<leftarrow> strlen m haystack;
     if nl = 0 then Some (Some haystack)
     else if nl > hl then Some None
     else strstr_loop m haystack needle nl (hl - nl + 1)
   }"

section \<open>Copying and splitting strings\<close>

text \<open>
  A copy loop can overwrite the terminator of its own source and run on, so it stops at the
  end of RAM: every iteration advances both pointers.
\<close>

function strcpy :: "ram \<Rightarrow> addr \<Rightarrow> addr \<Rightarrow> ram option" where
  "strcpy m s1 s2 =
     (if s1 < length m \<and> s2 < length m then
        (let v = m ! s2; m' = m[s1 := v] in
         if v = 0 then Some m' else strcpy m' (Suc s1) (Suc s2))
      else None)"
  by pat_completeness auto
termination
  by (relation "measure (\<lambda>(m, s1, s2). length m - s1)") (auto simp: Let_def)

definition strncpy :: "ram \<Rightarrow> addr \<Rightarrow> addr \<Rightarrow> nat \<Rightarrow> ram option" where
  "strncpy m dest src n = map_option snd (memccpy m dest src 0 n)"

definition strxfrm :: "ram \<Rightarrow> addr \<Rightarrow> addr \<Rightarrow> nat \<Rightarrow> (nat \<times> ram) option" where
  "strxfrm m dest src n = do {
     (r, m') \<leftarrow> memccpy m dest src 0 n;
     l \<leftarrow> strlen m' dest;
     Some (l, m')
   }"

definition strcat :: "ram \<Rightarrow> addr \<Rightarrow> addr \<Rightarrow> ram option" where
  "strcat m s t = do { l \<leftarrow> strlen m s; strcpy m (s + l) t }"

text \<open>The loop of \<open>strncat\<close> with \<open>k\<close> bytes left before \<open>max\<close>; \<open>k = 0\<close> is the exit at \<open>max\<close>.\<close>

fun strncat_loop :: "ram \<Rightarrow> addr \<Rightarrow> addr \<Rightarrow> nat \<Rightarrow> ram option" where
  "strncat_loop m s t 0 = store m s 0"
| "strncat_loop m s t (Suc k) = do {
     v \<leftarrow> load m t;
     m' \<leftarrow> store m s v;
     if v = 0 then store m' s 0 else strncat_loop m' (Suc s) (Suc t) k
   }"

definition strncat :: "ram \<Rightarrow> addr \<Rightarrow> addr \<Rightarrow> nat \<Rightarrow> ram option" where
  "strncat m s t n = do {
     l \<leftarrow> strlen m s;
     if n = 0 then Some m else strncat_loop m (s + l) t n
   }"

text \<open>
  The copy loop of \<open>strlcpy\<close> with \<open>Suc n\<close> iterations left: it returns the pointers and the
  counter \<open>n\<close> on exit. The do-while body runs first, so the caller enters with \<open>n > 0\<close>.
\<close>

fun strlcpy_loop :: "ram \<Rightarrow> addr \<Rightarrow> addr \<Rightarrow> nat \<Rightarrow> (ram \<times> addr \<times> addr \<times> nat) option" where
  "strlcpy_loop m d s 0 = Some (m, d, s, 0)"
| "strlcpy_loop m d s (Suc n) = do {
     v \<leftarrow> load m s;
     m' \<leftarrow> store m d v;
     if v = 0 then Some (m', Suc d, Suc s, Suc n) else strlcpy_loop m' (Suc d) (Suc s) n
   }"

definition strlcpy :: "ram \<Rightarrow> addr \<Rightarrow> addr \<Rightarrow> nat \<Rightarrow> (nat \<times> ram) option" where
  "strlcpy m dst src siz = do {
     (m1, d, s, n) \<leftarrow> strlcpy_loop m dst src (siz - 1);
     if n = 0 then do {
       m2 \<leftarrow> (if siz \<noteq> 0 then store m1 d 0 else Some m1);
       k \<leftarrow> strlen_loop m2 s;
       Some (s + k + 1 - src - 1, m2)
     } else Some (s - src - 1, m1)
   }"

text \<open>The first loop of \<open>strlcat\<close> returns \<open>dlen\<close>.\<close>

fun strlcat_end :: "ram \<Rightarrow> addr \<Rightarrow> nat \<Rightarrow> nat option" where
  "strlcat_end m d 0 = map_option (\<lambda>_. 0) (load m d)"
| "strlcat_end m d (Suc n) = do {
     v \<leftarrow> load m d;
     if v = 0 then Some 0 else map_option Suc (strlcat_end m (Suc d) n)
   }"

function strlcat_loop :: "ram \<Rightarrow> addr \<Rightarrow> addr \<Rightarrow> nat \<Rightarrow> (ram \<times> addr \<times> addr) option" where
  "strlcat_loop m d s n =
     (if s < length m then
        if m ! s = 0 then Some (m, d, s)
        else if n \<noteq> 1 then
          (if d < length m then strlcat_loop (m[d := m ! s]) (Suc d) (Suc s) (n - 1) else None)
        else strlcat_loop m d (Suc s) n
      else None)"
  by pat_completeness auto
termination
  by (relation "measure (\<lambda>(m, d, s, n). length m - s)") auto

definition strlcat :: "ram \<Rightarrow> addr \<Rightarrow> addr \<Rightarrow> nat \<Rightarrow> (nat \<times> ram) option" where
  "strlcat m dst src siz = do {
     dlen \<leftarrow> strlcat_end m dst siz;
     (let n = siz - dlen in
      if n = 0 then do { l \<leftarrow> strlen m src; Some (dlen + l, m) }
      else do {
        (m1, d, s) \<leftarrow> strlcat_loop m (dst + dlen) src n;
        m2 \<leftarrow> store m1 d 0;
        Some (dlen + (s - src), m2)
      })
   }"

text \<open>
  \<open>strtok_r(s, delim, ptrptr)\<close> with \<open>saved\<close> the value of \<open>*ptrptr\<close>; the result is the token,
  the new \<open>*ptrptr\<close> and RAM.
\<close>

definition strtok_r :: "ram \<Rightarrow> addr option \<Rightarrow> addr \<Rightarrow> addr \<Rightarrow> (addr option \<times> addr \<times> ram) option" where
  "strtok_r m s0 delim saved = do {
     let s = (case s0 of None \<Rightarrow> saved | Some a \<Rightarrow> a);
     k \<leftarrow> strspn m s delim;
     let s1 = s + k;
     v \<leftarrow> load m s1;
     if v \<noteq> 0 then do {
       l \<leftarrow> strcspn m s1 delim;
       let s2 = s1 + l;
       w \<leftarrow> load m s2;
       if w \<noteq> 0 then do { m' \<leftarrow> store m s2 0; Some (Some s1, s2 + 1, m') }
       else Some (Some s1, s2, m)
     } else Some (None, s1, m)
   }"

text \<open>\<open>strsep\<close>: the result is the token, the new \<open>*stringp\<close> and RAM.\<close>

function strsep_inner :: "ram \<Rightarrow> u8 \<Rightarrow> addr \<Rightarrow> bool option" where
  "strsep_inner m ch tmp3 =
     (if tmp3 < length m then
        if m ! tmp3 = 0 then Some False
        else if ch = m ! tmp3 then Some True else strsep_inner m ch (Suc tmp3)
      else None)"
  by pat_completeness auto
termination
  by (relation "measure (\<lambda>(m, ch, tmp3). length m - tmp3)") auto

function strsep_loop :: "ram \<Rightarrow> addr \<Rightarrow> addr \<Rightarrow> (addr option \<times> ram) option" where
  "strsep_loop m tmp2 delim =
     (if tmp2 < length m then
        if m ! tmp2 = 0 then Some (None, m)
        else (case strsep_inner m (m ! tmp2) delim of
                None \<Rightarrow> None
              | Some True \<Rightarrow> Some (Some (Suc tmp2), m[tmp2 := 0])
              | Some False \<Rightarrow> strsep_loop m (Suc tmp2) delim)
      else None)"
  by pat_completeness auto
termination
  by (relation "measure (\<lambda>(m, tmp2, delim). length m - tmp2)") auto

definition strsep :: "ram \<Rightarrow> addr option \<Rightarrow> addr \<Rightarrow> (addr option \<times> addr option \<times> ram) option" where
  "strsep m stringp delim =
     (case stringp of
        None \<Rightarrow> Some (None, None, m)
      | Some tmp \<Rightarrow> map_option (\<lambda>(p, m'). (Some tmp, p, m')) (strsep_loop m tmp delim))"

declare strlen_loop.simps [simp del] strcmp.simps [simp del] strcasecmp.simps [simp del]
  strchr_loop.simps [simp del] strrchr_loop.simps [simp del] span_loop.simps [simp del]
  strpbrk_loop.simps [simp del] strcpy.simps [simp del] strlcat_loop.simps [simp del]
  strsep_inner.simps [simp del] strsep_loop.simps [simp del]

section \<open>Lemmas on RAM contents\<close>

lemma bytes_append [simp]: "bytes m s (xs @ ys) \<longleftrightarrow> bytes m s xs \<and> bytes m (s + length xs) ys"
  by (induction xs arbitrary: s) auto

lemma bytes_bound: "bytes m s xs \<Longrightarrow> xs \<noteq> [] \<Longrightarrow> s + length xs \<le> length m"
proof (induction xs arbitrary: s)
  case (Cons x xs)
  then show ?case by (cases xs) (fastforce simp: ram_simps)+
qed simp

lemma bytes_iff: "bytes m s xs \<longleftrightarrow> xs = [] \<or> (s + length xs \<le> length m \<and> seg s (length xs) m = xs)"
proof (induction xs arbitrary: s)
  case (Cons x xs)
  show ?case
    by (cases "s < length m") (auto simp: Cons.IH seg_Suc load_def)
qed simp

lemma bytes_seg: "s + n \<le> length m \<Longrightarrow> bytes m s (seg s n m)"
  by (simp add: bytes_iff)

lemma bytes_upd: "a < s \<or> s + length xs \<le> a \<Longrightarrow> bytes (m[a := v]) s xs = bytes m s xs"
  by (induction xs arbitrary: s) (auto simp: load_def)

lemma cstr_iff: "cstr m s xs \<longleftrightarrow> 0 \<notin> set xs \<and> bytes m s (xs @ [0])"
  by (induction xs arbitrary: s) auto

lemma cstr_bytes: "cstr m s xs \<Longrightarrow> bytes m s xs"
  by (simp add: cstr_iff)

lemma cstr_bound: "cstr m s xs \<Longrightarrow> s + length xs < length m"
  by (induction xs arbitrary: s) (force simp: ram_simps)+

lemma cstr_upd: "a < s \<or> s + length xs < a \<Longrightarrow> cstr (m[a := v]) s xs = cstr m s xs"
  by (induction xs arbitrary: s) (auto simp: load_def)

lemma cstr_unique: "cstr m s xs \<Longrightarrow> cstr m s ys \<Longrightarrow> xs = ys"
proof (induction xs arbitrary: s ys)
  case Nil
  then show ?case by (cases ys) auto
next
  case (Cons x xs)
  then show ?case by (cases ys) auto
qed

lemma cstr_drop: "cstr m s (xs @ ys) \<longleftrightarrow> 0 \<notin> set xs \<and> bytes m s xs \<and> cstr m (s + length xs) ys"
  by (induction xs arbitrary: s) auto

lemma bytes_patch_self: "a + length ys \<le> length m \<Longrightarrow> bytes (patch a ys m) a ys"
  by (simp add: bytes_iff length_patch seg_patch)

lemma cstr_patch_self: "0 \<notin> set t \<Longrightarrow> buf + length (t @ [0]) \<le> length m \<Longrightarrow> cstr (patch buf (t @ [0]) m) buf t"
  by (simp add: cstr_iff bytes_patch_self del: bytes_append)

lemma patch_Cons: "a < length m \<Longrightarrow> patch (Suc a) ys (m[a := y]) = patch a (y # ys) m"
  by (simp add: patch_def take_Suc_conv_app_nth upd_conv_take_nth_drop add.commute)

lemma seg_upd: "a < s \<or> s + n \<le> a \<Longrightarrow> seg s n (m[a := v]) = seg s n m"
  by (auto simp: seg_def drop_update_swap)

section \<open>Block operations\<close>

text \<open>Copying upwards is right unless the destination starts inside the source.\<close>

lemma memcpy_result:
  assumes "c1 + n \<le> length m" "c2 + n \<le> length m" "c1 \<le> c2 \<or> c2 + n \<le> c1"
  shows "memcpy m c1 c2 n = Some (patch c1 (seg c2 n m) m)"
  using assms
proof (induction n arbitrary: m c1 c2)
  case (Suc n)
  let ?m = "m[c1 := m ! c2]"
  have "memcpy ?m (Suc c1) (Suc c2) n = Some (patch (Suc c1) (seg (Suc c2) n ?m) ?m)"
    using Suc.prems by (intro Suc.IH) auto
  moreover have "seg (Suc c2) n ?m = seg (Suc c2) n m"
    using Suc.prems by (intro seg_upd) auto
  ultimately show ?case
    using Suc.prems by (simp add: load_def store_def patch_Cons seg_Suc)
qed simp

lemma memmove_down_result:
  assumes "a + n \<le> length m" "b + n \<le> length m" "b \<le> a"
  shows "memmove_down m a b n = Some (patch a (seg b n m) m)"
  using assms
proof (induction n arbitrary: m)
  case (Suc n)
  let ?m = "m[a + n := m ! (b + n)]"
  have "memmove_down ?m a b n = Some (patch a (seg b n ?m) ?m)"
    using Suc.prems by (intro Suc.IH) auto
  moreover have "seg b n ?m = seg b n m"
    using Suc.prems by (intro seg_upd) auto
  moreover have "patch a (seg b n m) ?m = patch a (seg b (Suc n) m) m"
    using Suc.prems
    by (intro nth_equalityI) (auto simp: length_patch nth_patch nth_seg nth_list_update)
  ultimately show ?case
    using Suc.prems by (simp add: load_def store_def)
qed simp

lemma patch_self: "s + n \<le> length m \<Longrightarrow> patch s (seg s n m) m = m"
  by (intro nth_equalityI) (auto simp: length_patch nth_patch nth_seg)

lemma memmove_result:
  assumes "dst + n \<le> length m" "src + n \<le> length m"
  shows "memmove m dst src n = Some (patch dst (seg src n m) m)"
  using assms by (auto simp: memmove_def memcpy_result memmove_down_result patch_self)

lemma memset_result:
  assumes "a + n \<le> length m"
  shows "memset m a s n = Some (patch a (replicate n (of_int s)) m)"
  using assms by (induction n arbitrary: m a) (auto simp: store_def patch_Cons)

lemma memcmp_result:
  assumes "bytes m d xs" "bytes m s ys" "length xs = n" "length ys = n"
  shows "\<exists>r. memcmp m d s n = Some r \<and> (r = 0 \<longleftrightarrow> xs = ys) \<and>
    (r < 0 \<longleftrightarrow> (\<exists>i<n. take i xs = take i ys \<and> xs ! i < ys ! i))"
  using assms
proof (induction n arbitrary: d s xs ys)
  case (Suc n)
  then obtain x xs' y ys' where eq: "xs = x # xs'" "ys = y # ys'"
    by (metis length_Suc_conv)
  show ?case
  proof (cases "x = y")
    case True
    with Suc eq have "\<exists>r. memcmp m (Suc d) (Suc s) n = Some r \<and> (r = 0 \<longleftrightarrow> xs' = ys') \<and>
      (r < 0 \<longleftrightarrow> (\<exists>i<n. take i xs' = take i ys' \<and> xs' ! i < ys' ! i))" by auto
    with Suc.prems eq True show ?thesis by (auto simp: Ex_less_Suc2)
  next
    case False
    then have "uc x \<noteq> uc y" by (simp add: uc_def word_uint_eq_iff)
    with Suc.prems eq False show ?thesis
      by (auto simp: Ex_less_Suc2 uc_def word_less_def)
  qed
qed simp

lemma memcmp_eq: "bytes m d xs \<Longrightarrow> bytes m s ys \<Longrightarrow> length xs = n \<Longrightarrow> length ys = n \<Longrightarrow>
    (memcmp m d s n = Some 0 \<longleftrightarrow> xs = ys) \<and> memcmp m d s n \<noteq> None"
  using memcmp_result [of m d xs s ys n] by auto

section \<open>Length, comparison and search on the string held\<close>

lemma cstr_load: "cstr m s xs \<Longrightarrow> s < length m \<and> m ! s = (case xs of [] \<Rightarrow> 0 | x # _ \<Rightarrow> x)"
  by (cases xs) (auto simp: ram_simps)

lemma strlen_loop_result: "cstr m s xs \<Longrightarrow> strlen_loop m s = Some (length xs)"
  by (induction xs arbitrary: s) (auto simp: strlen_loop.simps [of m] ram_simps)

lemma strlen_result: "cstr m s xs \<Longrightarrow> s \<noteq> 0 \<Longrightarrow> strlen m s = Some (length xs)"
  by (simp add: strlen_def strlen_loop_result)

lemma strlen_loop_Some: "strlen_loop m s = Some n \<Longrightarrow> \<exists>xs. cstr m s xs \<and> length xs = n"
proof (induction m s arbitrary: n rule: strlen_loop.induct)
  case (1 m s)
  show ?case
  proof (cases "s < length m \<and> m ! s \<noteq> 0")
    case True
    with "1.prems" obtain k where k: "strlen_loop m (Suc s) = Some k" "n = Suc k"
      by (auto simp: strlen_loop.simps [of m s])
    with "1.IH" True obtain xs where "cstr m (Suc s) xs" "length xs = k" by blast
    with True k(2) show ?thesis by (intro exI [of _ "m ! s # xs"]) (simp add: load_def)
  next
    case False
    with "1.prems" show ?thesis
      by (auto simp: strlen_loop.simps [of m s] load_def intro!: exI [of _ "[]"] split: if_splits)
  qed
qed

text \<open>The difference of the first bytes that differ, each string read with its NUL.\<close>

fun lexdiff :: "(u8 \<Rightarrow> int) \<Rightarrow> u8 list \<Rightarrow> u8 list \<Rightarrow> int" where
  "lexdiff f [] [] = 0"
| "lexdiff f (x # xs) [] = f x - f 0"
| "lexdiff f [] (y # ys) = f 0 - f y"
| "lexdiff f (x # xs) (y # ys) = (if x = y then lexdiff f xs ys else f x - f y)"

lemma sc_inj: "sc x = sc y \<longleftrightarrow> x = y"
  by (simp add: sc_def signed_word_eqI) (metis signed_word_eqI)

lemma uc_inj: "uc x = uc y \<longleftrightarrow> x = y"
  by (simp add: uc_def word_uint_eq_iff)

lemma lexdiff_0_iff:
  "inj f \<Longrightarrow> 0 \<notin> set xs \<Longrightarrow> 0 \<notin> set ys \<Longrightarrow> lexdiff f xs ys = 0 \<longleftrightarrow> xs = ys"
  by (induction f xs ys rule: lexdiff.induct) (auto simp: inj_eq)

lemma lexdiff_sym: "lexdiff f ys xs = - lexdiff f xs ys"
  by (induction f xs ys rule: lexdiff.induct) auto

lemma strcmp_result:
  "cstr m a xs \<Longrightarrow> cstr m b ys \<Longrightarrow> strcmp m a b = Some (lexdiff sc xs ys)"
proof (induction sc xs ys arbitrary: a b rule: lexdiff.induct)
  case (4 x xs y ys)
  then show ?case
    using cstr_load [OF "4.prems"(1)] cstr_load [OF "4.prems"(2)]
    by (auto simp: strcmp.simps [of m a b])
qed (auto simp: strcmp.simps [of m] ram_simps sc_def)

lemma strncmp_result:
  "cstr m a xs \<Longrightarrow> cstr m b ys \<Longrightarrow> strncmp m a b n = Some (lexdiff uc (take n xs) (take n ys))"
proof (induction uc xs ys arbitrary: a b n rule: lexdiff.induct)
  case (4 x xs y ys)
  then show ?case by (cases n) (auto simp: uc_inj)
next
  case 1
  then show ?case by (cases n) auto
next
  case (2 x xs)
  then show ?case by (cases n) (auto simp: uc_inj uc_def uint_0_iff)
next
  case (3 y ys)
  then show ?case by (cases n) (auto simp: uc_inj uc_def uint_0_iff)
qed

lemma strchr_result:
  assumes "cstr m t xs"
  shows "strchr m t c = Some (if of_int c \<in> set (xs @ [0])
    then Some (t + length (takeWhile (\<lambda>x. x \<noteq> of_int c) (xs @ [0]))) else None)"
proof -
  have "strchr_loop m t ch = Some (if ch \<in> set (xs @ [0])
      then Some (t + length (takeWhile (\<lambda>x. x \<noteq> ch) (xs @ [0]))) else None)" for ch
    using assms by (induction xs arbitrary: t) (auto simp: strchr_loop.simps [of m] ram_simps)
  then show ?thesis by (simp add: strchr_def)
qed

lemma strrchr_loop_None: "cstr m t xs \<Longrightarrow> ch \<notin> set (xs @ [0]) \<Longrightarrow> strrchr_loop m l t ch = Some l"
proof (induction xs arbitrary: t)
  case Nil
  then show ?case by (auto simp: strrchr_loop.simps [of m l t] ram_simps)
next
  case (Cons x xs)
  from Cons.prems Cons.IH [of "Suc t"] show ?case
    by (auto simp: strrchr_loop.simps [of m l t] ram_simps)
qed

lemma strrchr_loop_Some:
  "cstr m t xs \<Longrightarrow> xs @ [0] = us @ ch # vs \<Longrightarrow> ch \<notin> set vs \<Longrightarrow>
     strrchr_loop m l t ch = Some (Some (t + length us))"
proof (induction xs arbitrary: t l us)
  case Nil
  then have "us = [] \<and> ch = 0" by (cases us) auto
  with Nil show ?case by (auto simp: strrchr_loop.simps [of m l t] ram_simps)
next
  case (Cons x xs)
  have step: "strrchr_loop m l t ch = strrchr_loop m (if x = ch then Some t else l) (Suc t) ch"
    using Cons.prems by (auto simp: strrchr_loop.simps [of m l t] ram_simps)
  show ?case
  proof (cases us)
    case Nil
    with Cons.prems step show ?thesis by (auto simp: strrchr_loop_None)
  next
    case (Cons u us')
    with Cons.prems step Cons.IH [of "Suc t" us'] show ?thesis by simp
  qed
qed

text \<open>The last occurrence, the NUL included.\<close>

lemma strrchr_result:
  assumes "cstr m t xs"
  shows "of_int c \<notin> set (xs @ [0]) \<Longrightarrow> strrchr m t c = Some None"
    and "xs @ [0] = us @ of_int c # vs \<Longrightarrow> of_int c \<notin> set vs \<Longrightarrow>
      strrchr m t c = Some (Some (t + length us))"
  unfolding strrchr_def using assms by (blast intro: strrchr_loop_None strrchr_loop_Some)+

lemma among_result: "bytes m a xs \<Longrightarrow> length xs = n \<Longrightarrow> among m ch a n = Some (ch \<in> set xs)"
  by (induction n arbitrary: a xs) (auto simp: length_Suc_conv)

lemma span_loop_result:
  assumes "cstr m s xs" "bytes m a acc"
  shows "span_loop w m s a (length acc) = Some (length (takeWhile (\<lambda>x. (x \<in> set acc) = w) xs))"
  using assms
  by (induction xs arbitrary: s) (auto simp: span_loop.simps [of w m] ram_simps among_result)

lemma strspn_result:
  assumes "cstr m s xs" "cstr m a acc" "a \<noteq> 0"
  shows "strspn m s a = Some (length (takeWhile (\<lambda>x. x \<in> set acc) xs))"
    and "strcspn m s a = Some (length (takeWhile (\<lambda>x. x \<notin> set acc) xs))"
  using assms by (simp_all add: strspn_def strcspn_def strlen_result span_loop_result cstr_bytes)

lemma strpbrk_result:
  assumes "cstr m s xs" "cstr m a acc" "a \<noteq> 0"
  shows "strpbrk m s a = Some (if set xs \<inter> set acc = {} then None
    else Some (s + length (takeWhile (\<lambda>x. x \<notin> set acc) xs)))"
proof -
  have "strpbrk_loop m s a (length acc) = Some (if set xs \<inter> set acc = {} then None
    else Some (s + length (takeWhile (\<lambda>x. x \<notin> set acc) xs)))"
    using assms(1) cstr_bytes [OF assms(2)]
    by (induction xs arbitrary: s) (auto simp: strpbrk_loop.simps [of m] ram_simps among_result)
  then show ?thesis using assms by (simp add: strpbrk_def strlen_result)
qed

section \<open>Substring search\<close>

text \<open>The first position at which \<open>ns\<close> occurs in \<open>hs\<close>.\<close>

fun find_sub :: "'a list \<Rightarrow> 'a list \<Rightarrow> nat option" where
  "find_sub ns [] = (if ns = [] then Some 0 else None)"
| "find_sub ns (h # hs) = (if prefix ns (h # hs) then Some 0 else map_option Suc (find_sub ns hs))"

lemma find_sub_Some: "find_sub ns hs = Some i \<Longrightarrow>
    prefix ns (drop i hs) \<and> i \<le> length hs \<and> (\<forall>j<i. \<not> prefix ns (drop j hs))"
proof (induction ns hs arbitrary: i rule: find_sub.induct)
  case (2 ns h hs)
  show ?case
  proof (cases "prefix ns (h # hs)")
    case False
    with "2.prems" obtain k where "find_sub ns hs = Some k" "i = Suc k" by auto
    with "2.IH" False show ?thesis by (auto simp: less_Suc_eq_0_disj)
  qed (use "2.prems" in auto)
qed (auto split: if_splits)

lemma find_sub_None: "find_sub ns hs = None \<longleftrightarrow> \<not> sublist ns hs"
  by (induction ns hs rule: find_sub.induct) (auto simp: sublist_Cons_right)

lemma find_sub_short: "length hs < length ns \<Longrightarrow> find_sub ns hs = None"
  by (auto simp: find_sub_None dest: sublist_length_le)

lemma prefix_take: "prefix ns hs \<longleftrightarrow> take (length ns) hs = ns"
  by (metis append_eq_conv_conj prefix_def)

lemma bytes_take: "bytes m s xs \<Longrightarrow> bytes m s (take n xs)"
  by (metis append_take_drop_id bytes_append)

lemma memcmp_prefix:
  assumes "bytes m h hs" "bytes m n ns" "length ns \<le> length hs"
  shows "(memcmp m h n (length ns) = Some 0 \<longleftrightarrow> prefix ns hs) \<and> memcmp m h n (length ns) \<noteq> None"
  using memcmp_eq [OF bytes_take [OF assms(1), of "length ns"] assms(2) _ refl] assms(3)
  by (simp add: prefix_take)

lemma memmem_loop_result:
  assumes "bytes m h hs" "bytes m n ns" "length ns \<le> length hs"
  shows "memmem_loop m h n (length ns) (Suc (length hs - length ns)) =
    Some (map_option ((+) h) (find_sub ns hs))"
  using assms(1,3)
proof (induction hs arbitrary: h)
  case Nil
  then show ?case by simp
next
  case (Cons x xs)
  from memcmp_prefix [OF Cons.prems(1) assms(2) Cons.prems(2)] obtain r where
    r: "memcmp m h n (length ns) = Some r" "r = 0 \<longleftrightarrow> prefix ns (x # xs)" by auto
  show ?case
  proof (cases "r = 0")
    case False
    show ?thesis
    proof (cases "length ns \<le> length xs")
      case True
      with Cons have "memmem_loop m (Suc h) n (length ns) (Suc (length xs - length ns)) =
        Some (map_option ((+) (Suc h)) (find_sub ns xs))" by auto
      with r False True show ?thesis
        by (cases "find_sub ns xs") (auto simp: Suc_diff_le)
    next
      case short: False
      with Cons.prems r False show ?thesis by (simp add: find_sub_short)
    qed
  qed (use r in simp)
qed

lemma strstr_loop_memmem:
  assumes "bytes m h hs" "bytes m n ns" "ns \<noteq> []" "i + length ns \<le> Suc (length hs)"
  shows "strstr_loop m h n (length ns) i = memmem_loop m h n (length ns) i"
  using assms(1,4)
proof (induction i arbitrary: h hs)
  case (Suc i)
  from Suc.prems assms(3) obtain x xs where hs: "hs = x # xs" by (cases hs) auto
  from assms(3) obtain y ys where ns: "ns = y # ys" by (cases ns) auto
  from memcmp_prefix [OF Suc.prems(1) assms(2)] Suc.prems(2) obtain r where
    r: "memcmp m h n (length ns) = Some r" "r = 0 \<longleftrightarrow> prefix ns hs" by auto
  have "strstr_loop m (Suc h) n (length ns) i = memmem_loop m (Suc h) n (length ns) i"
    using Suc.prems hs by (intro Suc.IH [of _ xs]) auto
  then show ?case
    using Suc.prems(1) assms(2) r hs ns by auto
qed simp

lemma memmem_result:
  assumes "bytes m h hs" "bytes m n ns" "length hs = hl" "length ns = nl"
  shows "memmem m h hl n nl = Some (map_option ((+) h) (find_sub ns hs))"
  using memmem_loop_result [OF assms(1,2)] assms(3,4)
  by (auto simp: memmem_def find_sub_short)

lemma find_sub_Nil [simp]: "find_sub [] hs = Some 0"
  by (cases hs) auto

lemma strstr_result:
  assumes "cstr m h hs" "cstr m n ns" "h \<noteq> 0" "n \<noteq> 0"
  shows "strstr m h n = Some (map_option ((+) h) (find_sub ns hs))"
proof -
  have "strstr_loop m h n (length ns) (Suc (length hs - length ns)) =
      memmem_loop m h n (length ns) (Suc (length hs - length ns))"
    if "ns \<noteq> []" "length ns \<le> length hs"
    using that assms by (intro strstr_loop_memmem [of m h hs]) (auto simp: cstr_bytes)
  then show ?thesis
    using assms memmem_loop_result [OF cstr_bytes [OF assms(1)] cstr_bytes [OF assms(2)]]
    by (auto simp: strstr_def strlen_result find_sub_short)
qed

section \<open>Copying\<close>

lemma strcpy_result:
  assumes "cstr m s2 xs" "s1 + length xs < length m" "s1 \<le> s2 \<or> s2 + length xs < s1"
  shows "strcpy m s1 s2 = Some (patch s1 (xs @ [0]) m)"
  using assms
proof (induction xs arbitrary: m s1 s2)
  case Nil
  then show ?case by (auto simp: strcpy.simps [of m s1 s2] ram_simps simp flip: patch_Cons)
next
  case (Cons x xs)
  let ?m = "m[s1 := x]"
  have "cstr ?m (Suc s2) xs"
    using Cons.prems by (subst cstr_upd) auto
  then have "strcpy ?m (Suc s1) (Suc s2) = Some (patch (Suc s1) (xs @ [0]) ?m)"
    using Cons.prems by (intro Cons.IH) auto
  then show ?case
    using Cons.prems by (auto simp: strcpy.simps [of m s1 s2] ram_simps patch_Cons)
qed

lemma memccpy_result:
  assumes "bytes m b xs" "a + length xs \<le> length m" "a \<le> b \<or> b + length xs \<le> a"
    and "\<forall>x \<in> set xs. sc x \<noteq> c"
  shows "memccpy m a b c (length xs) = Some (None, patch a xs m)"
  using assms
proof (induction xs arbitrary: m a b)
  case (Cons x xs)
  let ?m = "m[a := x]"
  have "bytes ?m (Suc b) xs"
    using Cons.prems by (subst bytes_upd) auto
  then have "memccpy ?m (Suc a) (Suc b) c (length xs) = Some (None, patch (Suc a) xs ?m)"
    using Cons.prems by (intro Cons.IH) auto
  then show ?case
    using Cons.prems by (auto simp: store_def load_def patch_Cons nth_list_update split: if_splits)
qed simp

lemma memccpy_found:
  assumes "bytes m b (xs @ [x])" "a + length xs < length m" "a \<le> b \<or> b + length xs < a"
    and "\<forall>x \<in> set xs. sc x \<noteq> c" "sc x = c" "length xs < n"
  shows "memccpy m a b c n = Some (Some (a + length xs + 1), patch a (xs @ [x]) m)"
  using assms
proof (induction xs arbitrary: m a b n)
  case Nil
  then show ?case
    by (cases n) (auto simp: store_def load_def nth_list_update split: if_splits simp flip: patch_Cons)
next
  case (Cons y xs)
  let ?m = "m[a := y]"
  from Cons.prems(6) obtain k where n: "n = Suc k" "length xs < k" by (cases n) auto
  have "bytes ?m (Suc b) (xs @ [x])"
    using Cons.prems by (subst bytes_upd) auto
  then have "memccpy ?m (Suc a) (Suc b) c k = Some (Some (Suc a + length xs + 1), patch (Suc a) (xs @ [x]) ?m)"
    using Cons.prems n by (intro Cons.IH) auto
  then show ?case
    using Cons.prems n by (auto simp: store_def load_def patch_Cons nth_list_update split: if_splits)
qed

lemma sc_0 [simp]: "sc 0 = 0"
  by (simp add: sc_def)

lemma sc_0_iff [simp]: "sc x = 0 \<longleftrightarrow> x = 0"
  using sc_inj [of x 0] by simp

text \<open>\<open>strncpy\<close> copies the string with its NUL, or its first \<open>n\<close> bytes when it is longer; it
  does not fill the rest of the buffer.\<close>

lemma strncpy_result:
  assumes "cstr m src xs" "dest + min n (Suc (length xs)) \<le> length m"
    and "dest \<le> src \<or> src + length xs < dest"
  shows "strncpy m dest src n = Some (patch dest (take n (xs @ [0])) m)"
proof (cases "length xs < n")
  case True
  have "memccpy m dest src 0 n = Some (Some (dest + length xs + 1), patch dest (xs @ [0]) m)"
    using assms True by (intro memccpy_found) (auto simp: cstr_iff)
  with True show ?thesis by (simp add: strncpy_def)
next
  case False
  have "memccpy m dest src 0 (length (take n xs)) = Some (None, patch dest (take n xs) m)"
    using assms False by (intro memccpy_result) (auto simp: cstr_iff bytes_take dest: in_set_takeD)
  moreover have "length (take n xs) = n" using False by simp
  ultimately show ?thesis using False by (simp add: strncpy_def del: length_take)
qed

lemma strcat_result:
  assumes "cstr m s xs" "cstr m t ys" "s \<noteq> 0" "s + length xs + length ys < length m"
    and "s + length xs \<le> t \<or> t + length ys < s + length xs"
  shows "strcat m s t = Some (patch (s + length xs) (ys @ [0]) m)"
  using assms by (simp add: strcat_def strlen_result strcpy_result)

text \<open>The bounded copies: what is stored is always NUL-terminated when there is room for a byte.\<close>

lemma strncat_loop_result:
  assumes "cstr m t ys" "s + min k (length ys) < length m" "s \<le> t \<or> t + length ys < s"
  shows "strncat_loop m s t k = Some (patch s (take k ys @ [0]) m)"
  using assms
proof (induction k arbitrary: m s t ys)
  case 0
  then show ?case by (simp add: store_def flip: patch_Cons)
next
  case (Suc k)
  show ?case
  proof (cases ys)
    case Nil
    with Suc.prems show ?thesis by (auto simp: load_def store_def split: if_splits simp flip: patch_Cons)
  next
    case (Cons y ys')
    let ?m = "m[s := y]"
    have "cstr ?m (Suc t) ys'"
      using Suc.prems Cons by (subst cstr_upd) auto
    then have "strncat_loop ?m (Suc s) (Suc t) k = Some (patch (Suc s) (take k ys' @ [0]) ?m)"
      using Suc.prems Cons by (intro Suc.IH) auto
    then show ?thesis
      using Suc.prems Cons by (auto simp: store_def patch_Cons)
  qed
qed

lemma strncat_result:
  assumes "cstr m s xs" "cstr m t ys" "s \<noteq> 0" "s + length xs + min n (length ys) < length m"
    and "s + length xs \<le> t \<or> t + length ys < s + length xs"
  shows "strncat m s t n = Some (if n = 0 then m else patch (s + length xs) (take n ys @ [0]) m)"
  using assms by (simp add: strncat_def strlen_result strncat_loop_result)

lemma strlcpy_loop_short:
  assumes "cstr m s xs" "length xs < n" "d + length xs < length m" "d \<le> s \<or> s + length xs < d"
  shows "strlcpy_loop m d s n =
    Some (patch d (xs @ [0]) m, d + length xs + 1, s + length xs + 1, n - length xs)"
  using assms
proof (induction xs arbitrary: m d s n)
  case Nil
  then show ?case by (cases n) (auto simp: store_def simp flip: patch_Cons)
next
  case (Cons x xs)
  let ?m = "m[d := x]"
  from Cons.prems(2) obtain k where n: "n = Suc k" "length xs < k" by (cases n) auto
  have "cstr ?m (Suc s) xs"
    using Cons.prems by (subst cstr_upd) auto
  then have "strlcpy_loop ?m (Suc d) (Suc s) k =
      Some (patch (Suc d) (xs @ [0]) ?m, Suc d + length xs + 1, Suc s + length xs + 1, k - length xs)"
    using Cons.prems n by (intro Cons.IH) auto
  then show ?case using Cons.prems n by (auto simp: store_def patch_Cons)
qed

lemma strlcpy_loop_long:
  assumes "cstr m s xs" "n \<le> length xs" "d + n \<le> length m" "d \<le> s \<or> s + length xs < d"
  shows "strlcpy_loop m d s n = Some (patch d (take n xs) m, d + n, s + n, 0)"
  using assms
proof (induction n arbitrary: m d s xs)
  case (Suc n)
  then obtain x xs' where xs: "xs = x # xs'" by (cases xs) auto
  let ?m = "m[d := x]"
  have "cstr ?m (Suc s) xs'"
    using Suc.prems xs by (subst cstr_upd) auto
  then have "strlcpy_loop ?m (Suc d) (Suc s) n = Some (patch (Suc d) (take n xs') ?m, Suc d + n, Suc s + n, 0)"
    using Suc.prems xs by (intro Suc.IH) auto
  then show ?case using Suc.prems xs by (auto simp: store_def patch_Cons)
qed simp

lemma cstr_patch:
  "d + length ys \<le> s \<or> s + length xs < d \<Longrightarrow> d + length ys \<le> length m \<Longrightarrow>
     cstr (patch d ys m) s xs = cstr m s xs"
proof (induction ys arbitrary: m d)
  case (Cons y ys)
  have "cstr (patch d (y # ys) m) s xs = cstr (patch (Suc d) ys (m[d := y])) s xs"
    using Cons.prems by (subst patch_Cons) auto
  also have "\<dots> = cstr (m[d := y]) s xs" using Cons.prems by (intro Cons.IH) auto
  also have "\<dots> = cstr m s xs" using Cons.prems by (intro cstr_upd) auto
  finally show ?case .
qed simp

lemma patch_snoc: "d + length ys < length m \<Longrightarrow> (patch d ys m)[d + length ys := y] = patch d (ys @ [y]) m"
  by (intro nth_equalityI) (auto simp: length_patch nth_patch nth_list_update nth_append)

lemma strlcpy_result:
  assumes "cstr m src xs" "dst + min siz (Suc (length xs)) \<le> length m"
    and "dst + siz \<le> src \<or> src + length xs < dst"
  shows "strlcpy m dst src siz =
    Some (length xs, if siz = 0 then m else patch dst (take (siz - 1) xs @ [0]) m)"
proof (cases "length xs < siz - 1")
  case True
  then have "strlcpy_loop m dst src (siz - 1) =
      Some (patch dst (xs @ [0]) m, dst + length xs + 1, src + length xs + 1, siz - 1 - length xs)"
    using assms by (intro strlcpy_loop_short) auto
  with True show ?thesis by (auto simp: strlcpy_def)
next
  case False
  let ?n = "siz - 1"
  have l: "strlcpy_loop m dst src ?n = Some (patch dst (take ?n xs) m, dst + ?n, src + ?n, 0)"
    using assms False by (intro strlcpy_loop_long) auto
  have len: "length (take ?n xs) = ?n" using False by simp
  have tail: "cstr m (src + ?n) (drop ?n xs)"
    using assms(1) cstr_drop [of m src "take ?n xs" "drop ?n xs"] len by simp
  have m2: "siz \<noteq> 0 \<Longrightarrow> store (patch dst (take ?n xs) m) (dst + ?n) 0 = Some (patch dst (take ?n xs @ [0]) m)"
    using assms(2) False patch_snoc [of dst "take ?n xs" m 0] len
    by (simp add: store_def length_patch)
  have "siz \<noteq> 0 \<Longrightarrow> strlen_loop (patch dst (take ?n xs @ [0]) m) (src + ?n) = Some (length xs - ?n)"
    using tail assms False len by (subst strlen_loop_result [of _ _ "drop ?n xs"]) (auto simp: cstr_patch)
  moreover have "siz = 0 \<Longrightarrow> strlen_loop m src = Some (length xs)"
    using assms(1) by (simp add: strlen_loop_result)
  ultimately show ?thesis using l m2 False by (cases "siz = 0") (simp_all add: strlcpy_def)
qed

lemma strlcat_end_result: "cstr m d xs \<Longrightarrow> strlcat_end m d n = Some (min n (length xs))"
proof (induction n arbitrary: d xs)
  case 0
  then show ?case by (auto simp: load_def dest: cstr_load)
next
  case (Suc n)
  then show ?case by (cases xs) auto
qed

lemma strlcat_loop_result:
  assumes "cstr m s ys" "0 < n" "d + min (n - 1) (length ys) \<le> length m" "d \<le> s \<or> s + length ys < d"
  shows "strlcat_loop m d s n =
    Some (patch d (take (n - 1) ys) m, d + min (n - 1) (length ys), s + length ys)"
  using assms
proof (induction ys arbitrary: m d s n)
  case Nil
  then show ?case by (auto simp: strlcat_loop.simps [of m d s n] ram_simps)
next
  case (Cons y ys)
  show ?case
  proof (cases "n = 1")
    case True
    with Cons.prems have "strlcat_loop m d (Suc s) n = Some (m, d, Suc s + length ys)"
      using Cons.IH [of m "Suc s" n d] by auto
    moreover have "s < length m" using cstr_bound [OF Cons.prems(1)] by simp
    moreover have "m ! s = y \<and> y \<noteq> 0" using Cons.prems(1) by (auto simp: ram_simps)
    ultimately show ?thesis
      unfolding True by (simp add: strlcat_loop.simps [of m d s "Suc 0"])
  next
    case False
    then obtain k where n: "n = Suc (Suc k)" using Cons.prems(2) by (cases n) (auto simp: gr0_conv_Suc)
    let ?m = "m[d := y]"
    have "cstr ?m (Suc s) ys"
      using Cons.prems n by (subst cstr_upd) auto
    then have "strlcat_loop ?m (Suc d) (Suc s) (Suc k) =
        Some (patch (Suc d) (take k ys) ?m, Suc d + min k (length ys), Suc s + length ys)"
      using Cons.IH [of ?m "Suc s" "Suc k" "Suc d"] Cons.prems n by auto
    moreover have "s < length m" "d < length m"
      using cstr_bound [OF Cons.prems(1)] Cons.prems(3) n by auto
    moreover have "m ! s = y \<and> y \<noteq> 0" using Cons.prems(1) by (auto simp: ram_simps)
    ultimately show ?thesis
      unfolding n by (simp add: strlcat_loop.simps [of m d s "Suc (Suc k)"] patch_Cons)
  qed
qed

lemma strlcat_result:
  assumes "cstr m dst xs" "cstr m src ys" "src \<noteq> 0"
    and "length xs < siz \<Longrightarrow> dst + length xs + min (siz - length xs) (Suc (length ys)) \<le> length m"
    and "dst + length xs \<le> src \<or> src + length ys < dst + length xs"
  shows "strlcat m dst src siz =
    (if length xs < siz
     then Some (length xs + length ys, patch (dst + length xs) (take (siz - length xs - 1) ys @ [0]) m)
     else Some (siz + length ys, m))"
proof (cases "length xs < siz")
  case True
  let ?n = "siz - length xs"
  let ?t = "take (?n - 1) ys"
  have "dst + length xs + length ?t < length m"
    using assms(4) True by (auto simp: min_def split: if_splits)
  then have st: "store (patch (dst + length xs) ?t m) (dst + length xs + length ?t) 0 =
      Some (patch (dst + length xs) (?t @ [0]) m)"
    using patch_snoc [of "dst + length xs" ?t m 0] by (simp add: store_def length_patch)
  have "strlcat_loop m (dst + length xs) src ?n =
      Some (patch (dst + length xs) ?t m, dst + length xs + min (?n - 1) (length ys), src + length ys)"
    using assms True by (intro strlcat_loop_result) auto
  moreover have "min (?n - 1) (length ys) = length ?t" by simp
  ultimately show ?thesis
    using True st strlcat_end_result [OF assms(1), of siz] by (simp add: strlcat_def)
next
  case False
  then show ?thesis
    using assms strlcat_end_result [OF assms(1), of siz] by (simp add: strlcat_def strlen_result)
qed

section \<open>Splitting\<close>

lemma strsep_inner_result: "cstr m d ds \<Longrightarrow> strsep_inner m ch d = Some (ch \<in> set ds)"
  by (induction ds arbitrary: d) (auto simp: strsep_inner.simps [of m ch] ram_simps)

lemma strsep_loop_result:
  assumes "cstr m t xs" "cstr m d ds"
  shows "strsep_loop m t d =
    (let tok = takeWhile (\<lambda>x. x \<notin> set ds) xs in
     if tok = xs then Some (None, m)
     else Some (Some (t + length tok + 1), m[t + length tok := 0]))"
  using assms(1)
proof (induction xs arbitrary: t)
  case Nil
  then show ?case by (auto simp: strsep_loop.simps [of m t] ram_simps)
next
  case (Cons x xs)
  then show ?case
    using strsep_inner_result [OF assms(2), of x] Cons.IH [of "Suc t"]
    by (auto simp: strsep_loop.simps [of m t] ram_simps Let_def)
qed


text \<open>\<open>strsep\<close> cuts the string at its first separator: the token and the rest are strings again.\<close>

lemma strsep_cut:
  assumes "cstr m s xs" "cstr m d ds" "xs = tok @ c # rest" "set tok \<inter> set ds = {}" "c \<in> set ds"
  shows "\<exists>m'. strsep m (Some s) d = Some (Some s, Some (s + length tok + 1), m') \<and>
    cstr m' s tok \<and> cstr m' (s + length tok + 1) rest"
proof -
  have tw: "takeWhile (\<lambda>x. x \<notin> set ds) xs = tok"
    using assms(3-5) by (auto simp: takeWhile_append takeWhile_eq_all_conv)
  let ?m = "m[s + length tok := 0]"
  have "tok \<noteq> xs" using assms(3) by simp
  have b: "bytes m s tok" "c \<noteq> 0" "0 \<notin> set tok" "cstr m (s + length tok + 1) rest"
    using assms(1,3) cstr_drop [of m s tok "c # rest"] by auto
  have "s + length tok < length m" using cstr_bound [OF assms(1)] assms(3) by simp
  then have "cstr ?m s tok"
    using b by (simp add: cstr_iff bytes_upd load_def)
  moreover have "cstr ?m (s + length tok + 1) rest" using b(4) by (simp add: cstr_upd)
  moreover have "strsep m (Some s) d = Some (Some s, Some (s + length tok + 1), ?m)"
    using strsep_loop_result [OF assms(1,2)] tw \<open>tok \<noteq> xs\<close> by (simp add: strsep_def Let_def)
  ultimately show ?thesis by blast
qed

lemma strsep_last:
  assumes "cstr m s xs" "cstr m d ds" "set xs \<inter> set ds = {}"
  shows "strsep m (Some s) d = Some (Some s, None, m)"
proof -
  have "takeWhile (\<lambda>x. x \<notin> set ds) xs = xs" using assms(3) by (auto simp: takeWhile_eq_all_conv)
  then show ?thesis using strsep_loop_result [OF assms(1,2)] by (simp add: strsep_def Let_def)
qed

text \<open>\<open>strtok_r\<close> skips leading separators and cuts at the next one.\<close>

lemma strtok_r_cut:
  assumes "cstr m s xs" "cstr m d ds" "d \<noteq> 0"
    and "xs = lead @ tok @ rest" "set lead \<subseteq> set ds" "set tok \<inter> set ds = {}" "tok \<noteq> []"
    and "rest \<noteq> [] \<Longrightarrow> hd rest \<in> set ds"
  shows "\<exists>m'. strtok_r m (Some s) d saved =
      Some (Some (s + length lead), s + length lead + length tok + length (take 1 rest), m') \<and>
    cstr m' (s + length lead) tok \<and>
    cstr m' (s + length lead + length tok + length (take 1 rest)) (drop 1 rest)"
proof -
  let ?s1 = "s + length lead" and ?s2 = "s + length lead + length tok"
  have s1: "cstr m ?s1 (tok @ rest)" using assms(1,4) cstr_drop [of m s lead "tok @ rest"] by simp
  have s2: "cstr m ?s2 rest" "bytes m ?s1 tok" "0 \<notin> set tok" using s1 cstr_drop [of m ?s1 tok rest] by auto
  have "takeWhile (\<lambda>x. x \<in> set ds) xs = lead"
    using assms(4-7) by (cases tok) (auto simp: takeWhile_append takeWhile_eq_all_conv)
  then have k: "strspn m s d = Some (length lead)" using strspn_result(1) [OF assms(1-3)] by simp
  have "takeWhile (\<lambda>x. x \<notin> set ds) (tok @ rest) = tok"
    using assms(6,8) by (cases rest) (auto simp: takeWhile_append takeWhile_eq_all_conv)
  then have l: "strcspn m ?s1 d = Some (length tok)" using strspn_result(2) [OF s1 assms(2,3)] by simp
  obtain t ts where tok: "tok = t # ts" using assms(7) by (cases tok) auto
  have v: "load m ?s1 = Some t" "t \<noteq> 0" using s1 tok by auto
  show ?thesis
  proof (cases rest)
    case Nil
    then have "load m ?s2 = Some 0" using s2(1) by simp
    then have "strtok_r m (Some s) d saved = Some (Some ?s1, ?s2, m)"
      using k l v by (simp add: strtok_r_def Let_def)
    with Nil s1 s2(1) show ?thesis by simp
  next
    case (Cons c cs)
    let ?m = "m[?s2 := 0]"
    have c: "load m ?s2 = Some c" "c \<noteq> 0" "cstr m (Suc ?s2) cs" using s2(1) Cons by auto
    then have lt: "?s2 < length m" by (simp add: ram_simps)
    have "strtok_r m (Some s) d saved = Some (Some ?s1, Suc ?s2, ?m)"
      using k l v c(1,2) lt by (simp add: strtok_r_def Let_def store_def)
    moreover have "cstr ?m ?s1 tok" using s2(2,3) lt by (simp add: cstr_iff bytes_upd load_def)
    moreover have "cstr ?m (Suc ?s2) cs" using c(3) by (simp add: cstr_upd)
    ultimately show ?thesis using Cons by simp
  qed
qed

lemma strtok_r_done:
  assumes "cstr m s xs" "cstr m d ds" "d \<noteq> 0" "set xs \<subseteq> set ds"
  shows "strtok_r m (Some s) d saved = Some (None, s + length xs, m)"
proof -
  have "takeWhile (\<lambda>x. x \<in> set ds) xs = xs" using assms(4) by (auto simp: takeWhile_eq_all_conv)
  then have "strspn m s d = Some (length xs)" using strspn_result(1) [OF assms(1-3)] by argo
  moreover have "load m (s + length xs) = Some 0" using assms(1) cstr_drop [of m s xs "[]"] by simp
  ultimately show ?thesis by (simp add: strtok_r_def Let_def)
qed


section \<open>Properties\<close>

text \<open>A string and a RAM for the witnesses: \<open>a,b\<close> at 1, the separator set \<open>,\<close> at 5.\<close>

definition demo_ram :: ram where
  "demo_ram = [9, 97, 44, 98, 0, 44, 0, 97, 98, 0, 1, 2]"

lemma demo_ram_cstr: "cstr demo_ram 1 [97, 44, 98]" "cstr demo_ram 5 [44]" "cstr demo_ram 7 [97, 98]"
  by (simp_all add: demo_ram_def load_def)

text \<open>C10: \<open>memmove\<close> stores at the destination the bytes the source held before the call, and
  changes nothing else, however the two blocks overlap.\<close>

theorem memmove_any_overlap:
  assumes "dst + n \<le> length m" "src + n \<le> length m"
  shows "memmove m dst src n = Some (patch dst (seg src n m) m)"
  by (rule memmove_result [OF assms])

theorem memmove_any_overlap_witness: "memmove [1, 2, 3, 4] 1 0 3 = Some [1, 1, 2, 3]"
  using memmove_any_overlap [of 1 3 "[1, 2, 3, 4]" 0] by (simp add: patch_def seg_def)

text \<open>\<open>strstr\<close> returns the first position at which the needle occurs in the haystack, and
  NULL exactly when it does not occur.\<close>

theorem strstr_first:
  assumes "cstr m h hs" "cstr m n ns" "h \<noteq> 0" "n \<noteq> 0"
  shows "(strstr m h n = Some None \<longleftrightarrow> \<not> sublist ns hs) \<and>
    (\<forall>p. strstr m h n = Some (Some p) \<longrightarrow>
       h \<le> p \<and> prefix ns (drop (p - h) hs) \<and> (\<forall>j < p - h. \<not> prefix ns (drop j hs))) \<and>
    strstr m h n \<noteq> None"
  using strstr_result [OF assms] find_sub_None [of ns hs] find_sub_Some [of ns hs]
  by (cases "find_sub ns hs") auto

theorem strstr_first_witness: "strstr demo_ram 1 7 = Some None"
  using strstr_first [OF demo_ram_cstr(1,3)] by (simp add: sublist_Cons_right)

text \<open>\<open>strcmp\<close> is 0 exactly on equal strings, and swapping its arguments negates it; the sign
  is that of the first pair of bytes that differ, read as signed characters.\<close>

theorem strcmp_sign:
  assumes "cstr m a xs" "cstr m b ys"
  shows "\<exists>r. strcmp m a b = Some r \<and> strcmp m b a = Some (- r) \<and> (r = 0 \<longleftrightarrow> xs = ys) \<and>
    r = lexdiff sint xs ys"
proof -
  have "inj sc" by (simp add: inj_def sc_inj)
  moreover have "0 \<notin> set xs" "0 \<notin> set ys" using assms by (simp_all add: cstr_iff)
  moreover have "sc = sint" by (simp add: sc_def fun_eq_iff)
  ultimately show ?thesis
    using strcmp_result [OF assms] strcmp_result [OF assms(2,1)] lexdiff_0_iff [of sc xs ys]
      lexdiff_sym [of sc ys xs] by auto
qed

theorem strcmp_sign_witness: "strcmp [128, 0, 1, 0] 0 2 = Some (- 129)"
  using strcmp_sign [of "[128, 0, 1, 0]" 0 "[128]" 2 "[1]"] by (simp add: load_def)

text \<open>\<open>strlcpy\<close> stores as much of the source as fits in \<open>siz - 1\<close> bytes, always with a final
  NUL when \<open>siz\<close> is not 0, touches nothing else, and returns the length of the source.\<close>

theorem strlcpy_bounded:
  assumes "cstr m src xs" "dst + min siz (Suc (length xs)) \<le> length m"
    and "dst + siz \<le> src \<or> src + length xs < dst"
  shows "strlcpy m dst src siz =
    Some (length xs, if siz = 0 then m else patch dst (take (siz - 1) xs @ [0]) m)"
  by (rule strlcpy_result [OF assms])

theorem strlcpy_bounded_witness:
  "strlcpy demo_ram 9 1 3 = Some (3, [9, 97, 44, 98, 0, 44, 0, 97, 98, 97, 44, 0])"
  using strlcpy_bounded [OF demo_ram_cstr(1), of 9 3] by (simp add: demo_ram_def patch_def)

text \<open>\<open>strlcat\<close> returns the length the whole concatenation would have, and stores as much of
  it as fits in a buffer of \<open>siz\<close> bytes with its NUL; when the buffer holds no NUL within
  \<open>siz\<close> bytes it changes nothing.\<close>

theorem strlcat_bounded:
  assumes "cstr m dst xs" "cstr m src ys" "src \<noteq> 0"
    and "length xs < siz \<Longrightarrow> dst + length xs + min (siz - length xs) (Suc (length ys)) \<le> length m"
    and "dst + length xs \<le> src \<or> src + length ys < dst + length xs"
  shows "strlcat m dst src siz =
    (if length xs < siz
     then Some (length xs + length ys, patch (dst + length xs) (take (siz - length xs - 1) ys @ [0]) m)
     else Some (siz + length ys, m))"
  by (rule strlcat_result [OF assms])

theorem strlcat_bounded_witness:
  "strlcat demo_ram 7 5 4 = Some (3, [9, 97, 44, 98, 0, 44, 0, 97, 98, 44, 0, 2])"
  using strlcat_bounded [OF demo_ram_cstr(3,2), of 4] by (simp add: demo_ram_def patch_def)

text \<open>\<open>strsep\<close> cuts the string at its first separator: the token before it and the rest after
  it are strings in the RAM it leaves, and the pointer is advanced to the rest.\<close>

theorem strsep_splits:
  assumes "cstr m s xs" "cstr m d ds" "xs = tok @ c # rest" "set tok \<inter> set ds = {}" "c \<in> set ds"
  shows "\<exists>m'. strsep m (Some s) d = Some (Some s, Some (s + length tok + 1), m') \<and>
    cstr m' s tok \<and> cstr m' (s + length tok + 1) rest"
  by (rule strsep_cut [OF assms])

theorem strsep_splits_witness:
  "\<exists>m'. strsep demo_ram (Some 1) 5 = Some (Some 1, Some 3, m') \<and> cstr m' 1 [97] \<and> cstr m' 3 [98]"
  using strsep_splits [OF demo_ram_cstr(1,2), of "[97]" 44 "[98]"] by (simp add: numeral_3_eq_3)

text \<open>\<open>strtok_r\<close> skips the leading separators, returns the token up to the next separator as a
  string of its own, and saves the position right after that separator.\<close>

theorem strtok_r_splits:
  assumes "cstr m s xs" "cstr m d ds" "d \<noteq> 0"
    and "xs = lead @ tok @ rest" "set lead \<subseteq> set ds" "set tok \<inter> set ds = {}" "tok \<noteq> []"
    and "rest \<noteq> [] \<Longrightarrow> hd rest \<in> set ds"
  shows "\<exists>m'. strtok_r m (Some s) d saved =
      Some (Some (s + length lead), s + length lead + length tok + length (take 1 rest), m') \<and>
    cstr m' (s + length lead) tok \<and>
    cstr m' (s + length lead + length tok + length (take 1 rest)) (drop 1 rest)"
  by (rule strtok_r_cut [OF assms])

theorem strtok_r_splits_witness:
  "\<exists>m'. strtok_r demo_ram (Some 2) 5 0 = Some (Some (2 + 1), 2 + 1 + 1, m') \<and>
    cstr m' (2 + 1) [98]"
proof -
  have "cstr demo_ram 2 [44, 98]" by (simp add: demo_ram_def load_def)
  from strtok_r_splits [OF this demo_ram_cstr(2), of "[44]" "[98]" "[]" 0] show ?thesis
    by simp
qed

end
