(* ===== verification/Ctype.thy ===== *)
theory Ctype
  imports Prelude
begin

text \<open>
  The character classes of the C library (\<^verbatim>\<open>lib/c/lib/is*.c\<close>, \<^verbatim>\<open>toupper.c\<close>,
  \<^verbatim>\<open>tolower.c\<close>). An \<open>int\<close> argument is a 32-bit word and \<open>(unsigned int)(ch - lo) < n\<close> is
  the unsigned comparison of words. The lemmas give each class as the ASCII range it stands
  for, on the values that a byte takes; they are checked on all 256 bytes.
\<close>

definition isascii :: "u32 \<Rightarrow> bool" where
  "isascii ch \<longleftrightarrow> ch < 128"

definition isblank :: "u32 \<Rightarrow> bool" where
  "isblank ch \<longleftrightarrow> ch = 32 \<or> ch = 9"

definition isalnum :: "u32 \<Rightarrow> bool" where
  "isalnum ch \<longleftrightarrow> (ch OR 0x20) - 97 < 26 \<or> ch - 48 < 10"

definition isalpha :: "u32 \<Rightarrow> bool" where
  "isalpha ch \<longleftrightarrow> (ch OR 0x20) - 97 < 26"

definition isdigit :: "u32 \<Rightarrow> bool" where
  "isdigit ch \<longleftrightarrow> ch - 48 < 10"

definition isxdigit :: "u32 \<Rightarrow> bool" where
  "isxdigit ch \<longleftrightarrow> ch - 48 < 10 \<or> (ch OR 0x20) - 97 < 6"

definition islower :: "u32 \<Rightarrow> bool" where
  "islower ch \<longleftrightarrow> ch - 97 < 26"

definition isupper :: "u32 \<Rightarrow> bool" where
  "isupper ch \<longleftrightarrow> ch - 65 < 26"

definition isspace :: "u32 \<Rightarrow> bool" where
  "isspace ch \<longleftrightarrow> ch - 9 < 5 \<or> ch = 32"

definition isprint :: "u32 \<Rightarrow> bool" where
  "isprint ch \<longleftrightarrow> ch - 32 < 127 - 32"

definition isgraph :: "u32 \<Rightarrow> bool" where
  "isgraph ch \<longleftrightarrow> ch - 33 < 127 - 33"

definition iscntrl :: "u32 \<Rightarrow> bool" where
  "iscntrl ch \<longleftrightarrow> ch < 32 \<or> ch = 127"

definition ispunct :: "u32 \<Rightarrow> bool" where
  "ispunct ch \<longleftrightarrow> isprint ch \<and> \<not> isalnum ch \<and> \<not> isspace ch"

definition toupper :: "u32 \<Rightarrow> u32" where
  "toupper ch = (if ch - 97 < 26 then ch + (65 - 97) else ch)"

definition tolower :: "u32 \<Rightarrow> u32" where
  "tolower ch = (if ch - 65 < 26 then ch + (97 - 65) else ch)"

text \<open>A \<open>char\<close> argument is sign-extended.\<close>

definition cint :: "u8 \<Rightarrow> u32" where
  "cint b = scast b"

lemmas ctype_defs = isascii_def isblank_def isalnum_def isalpha_def isdigit_def isxdigit_def
  islower_def isupper_def isspace_def isprint_def isgraph_def iscntrl_def ispunct_def

text \<open>Each class is its ASCII range, whatever \<open>int\<close> it is given.\<close>

lemma bit_32: "bit (32 :: u32) k \<longleftrightarrow> k = 5"
  using bit_exp_iff [of 5 k, where 'a = u32] by auto

lemma or_space: "(ch :: u32) OR 32 = (if odd (unat ch div 32) then ch else ch + 32)"
proof -
  have "bit ch 5 = bit (unat ch) 5" by (simp add: bit_unsigned_iff)
  also have "\<dots> = odd (unat ch div 32)" by (simp add: bit_iff_odd)
  finally have b: "bit ch 5 = odd (unat ch div 32)" .
  show ?thesis
  proof (cases "bit ch 5")
    case True
    then have "ch OR 32 = ch" by (intro bit_eqI) (auto simp only: bit_or_iff bit_32)
    with True b show ?thesis by simp
  next
    case False
    then have "ch + 32 = ch OR 32" by (intro disjunctive_add) (auto simp only: bit_32)
    with False b show ?thesis by simp
  qed
qed

definition within :: "nat \<Rightarrow> nat \<Rightarrow> u32 \<Rightarrow> bool" where
  "within lo hi ch \<longleftrightarrow> lo \<le> unat ch \<and> unat ch \<le> hi"

lemma check_range:
  assumes "lo \<le> hi" "hi < 2 ^ 32 - 1"
  shows "ch - of_nat lo < of_nat (Suc hi - lo) \<longleftrightarrow> within lo hi ch"
proof -
  have l: "(of_nat lo :: u32) \<le> of_nat (Suc hi)"
    using assms by (simp add: word_le_nat_alt unat_of_nat del: of_nat_Suc)
  have "ch - of_nat lo < of_nat (Suc hi) - of_nat lo \<longleftrightarrow> of_nat lo \<le> ch \<and> ch < of_nat (Suc hi)"
    by (rule range_check [OF l])
  moreover have "of_nat (Suc hi) - of_nat lo = (of_nat (Suc hi - lo) :: u32)"
    using assms by (simp add: of_nat_diff del: of_nat_Suc)
  moreover have "of_nat lo \<le> ch \<and> ch < of_nat (Suc hi) \<longleftrightarrow> within lo hi ch"
    using assms
    by (auto simp: within_def word_le_nat_alt word_less_nat_alt unat_of_nat simp del: of_nat_Suc)
  ultimately show ?thesis by simp
qed

lemmas check_ranges = check_range [of 48 57, simplified] check_range [of 65 90, simplified]
  check_range [of 97 122, simplified] check_range [of 97 102, simplified]
  check_range [of 9 13, simplified] check_range [of 32 126, simplified]
  check_range [of 33 126, simplified]

lemma or_space_range:
  assumes "97 \<le> lo" "hi \<le> 122"
  shows "within lo hi (ch OR 32) \<longleftrightarrow> within (lo - 32) (hi - 32) ch \<or> within lo hi ch"
proof (cases "odd (unat ch div 32)")
  case True
  then have "\<not> (65 \<le> unat ch \<and> unat ch \<le> 90)"
  proof -
    have "unat ch div 32 = 2" if "65 \<le> unat ch" "unat ch \<le> 90" using that by simp
    with True show ?thesis by (metis even_numeral)
  qed
  with True assms show ?thesis by (auto simp: or_space within_def)
next
  case False
  then have "\<not> (97 \<le> unat ch \<and> unat ch \<le> 122)"
  proof -
    have "unat ch div 32 = 3" if "97 \<le> unat ch" "unat ch \<le> 122" using that by simp
    with False show ?thesis by (metis odd_numeral)
  qed
  moreover have "unat (ch + 32) = (unat ch + 32) mod 2 ^ 32" by (simp add: unat_word_ariths)
  ultimately show ?thesis
    using False assms unat_u32 [of ch]
    by (auto simp: or_space within_def mod_if split: if_splits)
qed

lemma class_ranges:
  "isalpha ch \<longleftrightarrow> within 65 90 ch \<or> within 97 122 ch"
  "isdigit ch \<longleftrightarrow> within 48 57 ch"
  "isxdigit ch \<longleftrightarrow> within 48 57 ch \<or> within 65 70 ch \<or> within 97 102 ch"
  "isspace ch \<longleftrightarrow> within 9 13 ch \<or> ch = 32"
  "isupper ch \<longleftrightarrow> within 65 90 ch" "islower ch \<longleftrightarrow> within 97 122 ch"
  "isalnum ch \<longleftrightarrow> isalpha ch \<or> isdigit ch"
  "isprint ch \<longleftrightarrow> within 32 126 ch" "isgraph ch \<longleftrightarrow> within 33 126 ch"
  using or_space_range [of 97 122 ch] or_space_range [of 97 102 ch]
  by (auto simp: ctype_defs check_ranges)

lemma cint_ascii: assumes "unat c < 128" shows "unat (cint c) = unat c"
proof -
  have u: "uint c < 128" using assms by (simp flip: of_nat_less_iff [where 'a = int])
  have "cint c = word_of_int (sint c)" by (simp add: cint_def)
  also have "sint c = uint c" using u by (simp add: sint_cases)
  finally have "cint c = ucast c" by simp
  then show ?thesis using assms by (simp add: unat_ucast8)
qed

lemma cint_high: assumes "128 \<le> unat c" shows "2 ^ 32 - 128 \<le> unat (cint c)"
proof -
  have u: "128 \<le> uint c" "uint c < 256"
    using assms unat_u8 [of c]
    by (simp_all flip: of_nat_less_iff [where 'a = int] of_nat_le_iff [where 'a = int])
  have s: "sint c = uint c - 256" using u(1) by (simp add: sint_cases)
  have "cint c = word_of_int (sint c)" by (simp add: cint_def)
  then have "uint (cint c) = sint c mod 2 ^ 32" by (simp only: uint_word_of_int) simp
  also have "\<dots> = (uint c - 256) mod 2 ^ 32" unfolding s ..
  also have "\<dots> = (uint c - 256 + 2 ^ 32) mod 2 ^ 32" by (rule mod_add_self2 [symmetric])
  also have "\<dots> = uint c - 256 + 2 ^ 32" using u by (intro mod_pos_pos_trivial) auto
  finally have "4294967168 \<le> int (unat (cint c))" using u by simp
  then have "4294967168 \<le> unat (cint c)" by linarith
  then show ?thesis by simp
qed

lemma cint_within: "hi < 128 \<Longrightarrow> within lo hi (cint c) \<longleftrightarrow> lo \<le> unat c \<and> unat c \<le> hi"
  using cint_ascii [of c] cint_high [of c] by (cases "unat c < 128") (auto simp: within_def)

lemma cint_eq: "n < 128 \<Longrightarrow> cint c = of_nat n \<longleftrightarrow> c = of_nat n"
  using cint_within [of n n c] by (auto simp: within_def word_unat_eq_iff unat_of_nat)

section \<open>Property\<close>

text \<open>On every \<open>int\<close>, each class of \<open>ctype.h\<close> is the ASCII range it stands for; the case
  maps change exactly the letters of the other case, to the letter of theirs.\<close>

theorem ctype_ascii:
  "(isdigit ch \<longleftrightarrow> within 48 57 ch) \<and> (isupper ch \<longleftrightarrow> within 65 90 ch) \<and>
   (islower ch \<longleftrightarrow> within 97 122 ch) \<and> (isalpha ch \<longleftrightarrow> isupper ch \<or> islower ch) \<and>
   (isalnum ch \<longleftrightarrow> isalpha ch \<or> isdigit ch) \<and>
   (isxdigit ch \<longleftrightarrow> isdigit ch \<or> within 65 70 ch \<or> within 97 102 ch) \<and>
   (isspace ch \<longleftrightarrow> within 9 13 ch \<or> unat ch = 32) \<and> (isgraph ch \<longleftrightarrow> within 33 126 ch) \<and>
   (isprint ch \<longleftrightarrow> isgraph ch \<or> unat ch = 32) \<and> (ispunct ch \<longleftrightarrow> isgraph ch \<and> \<not> isalnum ch) \<and>
   unat (toupper ch) = (if islower ch then unat ch - 32 else unat ch) \<and>
   unat (tolower ch) = (if isupper ch then unat ch + 32 else unat ch)"
proof -
  have sp: "ch = 32 \<longleftrightarrow> unat ch = 32" by (simp add: word_unat_eq_iff)
  have up: "unat (ch - 32) = unat ch - 32" if "97 \<le> unat ch"
    using that by (subst unat_sub) (simp_all add: word_le_nat_alt)
  have lo: "unat (ch + 32) = unat ch + 32" if "unat ch \<le> 90"
    using that by (simp add: unat_word_ariths)
  have pr: "isprint ch \<longleftrightarrow> isgraph ch \<or> unat ch = 32"
    by (auto simp: class_ranges within_def)
  have pu: "ispunct ch \<longleftrightarrow> isgraph ch \<and> \<not> isalnum ch"
    unfolding ispunct_def pr using sp by (auto simp: class_ranges within_def)
  have tu: "unat (toupper ch) = (if islower ch then unat ch - 32 else unat ch)"
    using up by (auto simp: toupper_def class_ranges check_ranges within_def)
  have tl: "unat (tolower ch) = (if isupper ch then unat ch + 32 else unat ch)"
    using lo by (auto simp: tolower_def class_ranges check_ranges within_def)
  show ?thesis using pr pu tu tl sp by (simp add: class_ranges)
qed

end
