(* ===== verification/Numconv.thy ===== *)
theory Numconv
  imports Cstring Ctype
begin

text \<open>
  Numbers and text: \<open>strtoul\<close>, \<open>strtoull\<close>, \<open>strtol\<close>, \<open>strtoll\<close>, \<open>atol\<close>, \<open>atoll\<close>
  (\<^verbatim>\<open>lib/c/lib/\<close>) and the converters \<open>__ltostr\<close>, \<open>__lltostr\<close> that \<open>printf\<close> uses. The
  readers take the string as the list of its bytes before the NUL; the code reads forward
  only and never past the NUL. A position is an offset into it. The writers work on RAM.
\<close>

section \<open>Reading\<close>

text \<open>\<open>s[i]\<close> of a NUL-terminated string, for \<open>i\<close> up to its length.\<close>

definition at :: "u8 list \<Rightarrow> nat \<Rightarrow> u8" where
  "at s i = (if i < length s then s ! i else 0)"

text \<open>The value of a digit as the code computes it in an \<open>unsigned char\<close>; what is no digit
  gets a value of 36 or more.\<close>

definition digit_val :: "u8 \<Rightarrow> u8" where
  "digit_val c = (if 97 \<le> c then c - 97 + 10 else if 65 \<le> c then c - 65 + 10
     else if c \<le> 57 then c - 48 else 0xff)"

text \<open>The digit loop: the value, the overflow flag and the number of digits consumed.\<close>

fun digits32 :: "nat \<Rightarrow> u8 list \<Rightarrow> u32 \<Rightarrow> bool \<Rightarrow> nat \<Rightarrow> u32 \<times> bool \<times> nat" where
  "digits32 base [] v ovf k = (v, ovf, k)"
| "digits32 base (ch # cs) v ovf k =
     (let c = digit_val ch in
      if base \<le> unat c then (v, ovf, k)
      else
        (let x = (v AND 0xff) * of_nat base + ucast c;
             w = drop_bit 8 v * of_nat base + drop_bit 8 x in
         digits32 base cs (push_bit 8 w + (x AND 0xff)) (ovf \<or> w > drop_bit 8 (- 1)) (Suc k)))"

text \<open>\<open>strtoull\<close> keeps \<open>v\<close> in a signed \<open>long long\<close>, so its shift is arithmetic.\<close>

fun digits64 :: "nat \<Rightarrow> u8 list \<Rightarrow> u64 \<Rightarrow> bool \<Rightarrow> nat \<Rightarrow> u64 \<times> bool \<times> nat" where
  "digits64 base [] v ovf k = (v, ovf, k)"
| "digits64 base (ch # cs) v ovf k =
     (let c = digit_val ch in
      if base \<le> unat c then (v, ovf, k)
      else
        (let x = ucast (v AND 0xff) * of_nat base + ucast c :: u32;
             w = signed_drop_bit 8 v * of_nat base + ucast (drop_bit 8 x) in
         digits64 base cs (push_bit 8 w + ucast (x AND 0xff)) (ovf \<or> w > drop_bit 8 (- 1)) (Suc k)))"

text \<open>
  The prefix of both functions: skip white space, take a sign, settle the base. It gives the
  sign, the offset \<open>orig\<close> after the sign, the offset of the first digit and the base; \<open>None\<close>
  is the early return for a base out of range.
\<close>

definition skip_space :: "u8 list \<Rightarrow> nat" where
  "skip_space s = length (takeWhile (\<lambda>b. isspace (cint b)) s)"

definition skip0x :: "u8 list \<Rightarrow> nat \<Rightarrow> nat \<Rightarrow> nat \<times> nat" where
  "skip0x s i base =
     (if (at s (i + 1) = 120 \<or> at s (i + 1) = 88) \<and> isxdigit (cint (at s (i + 2)))
      then (i + 2, 16) else (i, base))"

definition conv_prefix :: "u8 list \<Rightarrow> int \<Rightarrow> (bool \<times> nat \<times> nat \<times> nat) option" where
  "conv_prefix s base =
     (let i0 = skip_space s;
          neg = (at s i0 = 45);
          orig = (if at s i0 = 45 \<or> at s i0 = 43 then i0 + 1 else i0) in
      if base = 16 \<and> at s orig = 48 then
        (case skip0x s orig 16 of (i, b) \<Rightarrow> Some (neg, orig, i, b))
      else if base \<noteq> 0 then
        (if (of_int (base - 2) :: u32) > 34 then None else Some (neg, orig, orig, nat base))
      else if at s orig = 48 then
        (case skip0x s orig 8 of (i, b) \<Rightarrow> Some (neg, orig, i, b))
      else Some (neg, orig, orig, 10))"

text \<open>The value returned, the offset stored through \<open>endptr\<close> (\<open>None\<close>: not stored), and the value
  stored in \<open>errno\<close> (\<open>None\<close>: left alone).\<close>

definition strtoul :: "u8 list \<Rightarrow> int \<Rightarrow> u32 \<times> nat option \<times> errno_t option" where
  "strtoul s base =
     (case conv_prefix s base of
        None \<Rightarrow> (0, None, Some EINVAL)
      | Some (neg, orig, i, b) \<Rightarrow>
          (case digits32 b (drop i s) 0 False i of (v, ovf, e) \<Rightarrow>
             (let fail = (e = orig);
                  err = (if ovf then Some ERANGE else if fail then Some EINVAL else None);
                  v = (if fail then 0 else v) in
              (if ovf then - 1 else if neg then - v else v, Some (if fail then 0 else e), err))))"

definition strtoull :: "u8 list \<Rightarrow> int \<Rightarrow> u64 \<times> nat option \<times> errno_t option" where
  "strtoull s base =
     (case conv_prefix s base of
        None \<Rightarrow> (0, None, Some EINVAL)
      | Some (neg, orig, i, b) \<Rightarrow>
          (case digits64 b (drop i s) 0 False i of (v, ovf, e) \<Rightarrow>
             (let fail = (e = orig);
                  err = (if ovf then Some ERANGE else if fail then Some EINVAL else None);
                  v = (if fail then 0 else v) in
              (if ovf then - 1 else if neg then - v else v, Some (if fail then 0 else e), err))))"

text \<open>
  \<open>strtol\<close> and \<open>strtoll\<close> strip white space and a minus sign that an alphanumeric follows, and
  leave the rest to the unsigned function. The early return of that function does not store
  through \<open>endptr\<close>, which \<open>strtol\<close> then reads: its offset is \<open>None\<close> here too.
\<close>

definition strtol :: "u8 list \<Rightarrow> int \<Rightarrow> u32 \<times> nat option \<times> errno_t option" where
  "strtol s base =
     (let i0 = skip_space s;
          neg = (at s i0 = 45 \<and> isalnum (cint (at s (i0 + 1))));
          i = (if neg then i0 + 1 else i0) in
      case strtoul (drop i s) base of (v, e, err) \<Rightarrow>
        (let endp = map_option (\<lambda>k. if k = 0 then 0 else i + k) e in
         if 2147483648 \<le> v then
           (if v = 2147483648 \<and> neg then (v, endp, Some E_OK)
            else (if neg then 2147483648 else 2147483647, endp, Some ERANGE))
         else (if neg then - v else v, endp, err)))"

definition strtoll :: "u8 list \<Rightarrow> int \<Rightarrow> u64 \<times> nat option \<times> errno_t option" where
  "strtoll s base =
     (let i0 = skip_space s;
          neg = (at s i0 = 45 \<and> isalnum (cint (at s (i0 + 1))));
          i = (if neg then i0 + 1 else i0) in
      case strtoull (drop i s) base of (v, e, err) \<Rightarrow>
        (let endp = map_option (\<lambda>k. if k = 0 then 0 else i + k) e in
         if v > 0x7fffffffffffffff then
           (if v = 0x8000000000000000 \<and> neg then (v, endp, Some E_OK)
            else (if neg then 0x8000000000000000 else 0x7fffffffffffffff, endp, Some ERANGE))
         else (if neg then - v else v, endp, err)))"

text \<open>
  \<open>atol\<close> and \<open>atoll\<close> accumulate in a signed integer of \<open>w\<close> bits: leaving its range is
  undefined (\<open>None\<close>), also in the intermediate \<open>v*10 + *s\<close>.
\<close>

definition fits :: "nat \<Rightarrow> int \<Rightarrow> int option" where
  "fits w x = (if - (2 ^ (w - 1)) \<le> x \<and> x < 2 ^ (w - 1) then Some x else None)"

fun ato_digits :: "nat \<Rightarrow> u8 list \<Rightarrow> int \<Rightarrow> int option" where
  "ato_digits w [] v = Some v"
| "ato_digits w (b # bs) v =
     (if cint b - 48 < 10 then do {
        x \<leftarrow> fits w (v * 10);
        y \<leftarrow> fits w (x + sint b);
        z \<leftarrow> fits w (y - 48);
        ato_digits w bs z
      } else Some v)"

definition ato_space :: "u8 \<Rightarrow> bool" where
  "ato_space b \<longleftrightarrow> b = 32 \<or> cint b - 9 < 5"

definition ato :: "nat \<Rightarrow> u8 list \<Rightarrow> int option" where
  "ato w s =
     (let t = dropWhile ato_space s;
          neg = (at t 0 = 45);
          t' = (if at t 0 = 45 \<or> at t 0 = 43 then drop 1 t else t) in
      do { v \<leftarrow> ato_digits w t' 0; if neg then fits w (- v) else Some v })"

definition atol :: "u8 list \<Rightarrow> int option" where
  "atol s = ato 32 s"

definition atoll :: "u8 list \<Rightarrow> int option" where
  "atoll s = ato 64 s"

section \<open>Writing\<close>

text \<open>The loop fills the buffer backwards; it returns \<open>tmp\<close>, the number of digits and RAM.\<close>

definition digit_char :: "nat \<Rightarrow> bool \<Rightarrow> u8" where
  "digit_char d up = (if 57 < d + 48 then of_nat (d + 48 + ((if up then 65 else 97) - 57 - 1))
     else of_nat (d + 48))"

function ltostr_loop :: "ram \<Rightarrow> addr \<Rightarrow> addr \<Rightarrow> nat \<Rightarrow> nat \<Rightarrow> bool \<Rightarrow> nat \<Rightarrow>
    (addr \<times> nat \<times> ram) option" where
  "ltostr_loop m s tmp i base up j =
     (if s < tmp \<and> i \<noteq> 0 then
        (if tmp - 1 < length m then
           ltostr_loop (m[tmp - 1 := digit_char (i mod base) up]) s (tmp - 1) (i div base) base up (Suc j)
         else None)
      else Some (tmp, j, m))"
  by pat_completeness auto
termination
  by (relation "measure (\<lambda>(m, s, tmp, _). tmp)") auto

declare ltostr_loop.simps [simp del]

text \<open>The two functions differ in the width of \<open>i\<close> only, which is the argument read here. With
  \<open>size = 0\<close>, and with \<open>size = 1\<close> and \<open>i = 0\<close>, the code stores before the buffer.\<close>

definition tostr :: "ram \<Rightarrow> addr \<Rightarrow> nat \<Rightarrow> nat \<Rightarrow> nat \<Rightarrow> bool \<Rightarrow> (nat \<times> ram) option" where
  "tostr m s size0 i base0 up =
     (if s + size0 = 0 then None else do {
        let tmp0 = s + size0 - 1;
        m1 \<leftarrow> store m tmp0 0;
        let base = (if base0 = 0 \<or> 36 < base0 then 10 else base0);
        (tmp1, j1, m2) \<leftarrow> (if i = 0 then
            (if tmp0 = 0 then None
             else map_option (\<lambda>m2. (tmp0 - 1, 1, m2)) (store m1 (tmp0 - 1) 48))
          else Some (tmp0, 0, m1));
        (tmp, j, m3) \<leftarrow> ltostr_loop m2 s tmp1 i base up j1;
        m4 \<leftarrow> memmove m3 s tmp (j + 1);
        Some (j, m4)
      })"

definition ltostr :: "ram \<Rightarrow> addr \<Rightarrow> nat \<Rightarrow> u32 \<Rightarrow> nat \<Rightarrow> bool \<Rightarrow> (nat \<times> ram) option" where
  "ltostr m s size0 i base up = tostr m s size0 (unat i) base up"

definition lltostr :: "ram \<Rightarrow> addr \<Rightarrow> nat \<Rightarrow> u64 \<Rightarrow> nat \<Rightarrow> bool \<Rightarrow> (nat \<times> ram) option" where
  "lltostr m s size0 i base up = tostr m s size0 (unat i) base up"

section \<open>The digit loops\<close>

text \<open>One iteration computes \<open>v * base + c\<close> in two halves and flags what does not fit.\<close>

lemma base_mod:
  assumes "base \<le> 36" "d < base"
  shows "(a mod 256) * base + d < 9216" "((a mod 256) * base + d) div 256 < base"
    "(a div 256) * base + ((a mod 256) * base + d) div 256 = (a * base + d) div 256"
    "((a mod 256) * base + d) mod 256 = (a * base + d) mod (256::nat)"
proof -
  have m: "a mod 256 \<le> 255" by (simp add: less_Suc_eq_le[symmetric])
  have l: "(a mod 256) * base + d < 256 * base" using mult_le_mono1 [OF m, of base] assms(2) by linarith
  then show "(a mod 256) * base + d < 9216" using assms(1) by linarith
  show "((a mod 256) * base + d) div 256 < base" using l by (simp add: less_mult_imp_div_less mult.commute)
  have e: "a * base + d = 256 * ((a div 256) * base) + ((a mod 256) * base + d)"
  proof -
    have "a * base = (256 * (a div 256) + a mod 256) * base" by simp
    then show ?thesis by (simp only: distrib_right mult.assoc add.assoc)
  qed
  show "(a div 256) * base + ((a mod 256) * base + d) div 256 = (a * base + d) div 256"
    unfolding e by simp
  show "((a mod 256) * base + d) mod 256 = (a * base + d) mod (256::nat)"
    unfolding e by simp
qed

lemma step32:
  fixes v :: u32 and c :: u8
  assumes "base \<le> 36" "unat c < base" 
  defines "x \<equiv> (v AND 0xff) * of_nat base + ucast c"
  defines "w \<equiv> drop_bit 8 v * of_nat base + drop_bit 8 x"
  shows "w > drop_bit 8 (- 1) \<longleftrightarrow> 2 ^ 32 \<le> unat v * base + unat c"
    and "unat v * base + unat c < 2 ^ 32 \<Longrightarrow> unat (push_bit 8 w + (x AND 0xff)) = unat v * base + unat c"
proof -
  note bm = base_mod [OF assms(1,2), of "unat v"]
  have m: "unat ((v AND 0xff) * of_nat base) = (unat v mod 256) * base"
    using bm(1) assms(1) by (simp add: unat_word_ariths and_255 unat_of_nat)
  have x: "unat x = (unat v mod 256) * base + unat c"
    unfolding x_def using bm(1) m assms by (simp add: unat_word_ariths unat_ucast8)
  have "unat v div 256 \<le> 16777215" using unat_u32 [of v] by linarith
  then have "unat v div 256 * base \<le> 16777215 * 36" using assms(1) by (intro mult_le_mono) auto
  then have w: "unat w = (unat v * base + unat c) div 256"
    unfolding w_def using bm(2,3) assms(1)
    by (simp add: unat_word_ariths unat_drop8 x unat_of_nat)
  show "w > drop_bit 8 (- 1) \<longleftrightarrow> 2 ^ 32 \<le> unat v * base + unat c"
    unfolding word_less_nat_alt w unat_drop8 by (simp add: unsigned_minus_1_eq_mask mask_eq_exp_minus_1) linarith
  assume l: "unat v * base + unat c < 2 ^ 32"
  have "unat (push_bit 8 w) = 256 * ((unat v * base + unat c) div 256)"
    using l by (simp add: push_bit_eq_mult unat_word_ariths w)
  moreover have "unat (x AND 0xff) = (unat v * base + unat c) mod 256"
    by (simp only: and_255 x bm(4))
  ultimately show "unat (push_bit 8 w + (x AND 0xff)) = unat v * base + unat c"
    using l by (simp add: unat_word_ariths)
qed

lemma signed_shift_u64: "signed_drop_bit 8 (v :: u64) = of_int (sint v div 256)"
proof -
  have "signed_drop_bit 8 v = of_int (sint (signed_drop_bit 8 v))" by simp
  also have "sint (signed_drop_bit 8 v) = drop_bit 8 (sint v)" by (rule sint_signed_drop_bit_eq)
  finally show ?thesis by (simp add: drop_bit_eq_div)
qed

lemma step64:
  fixes v :: u64 and c :: u8
  assumes "2 \<le> base" "base \<le> 36" "unat c < base" 
  defines "x \<equiv> ucast (v AND 0xff) * of_nat base + ucast c :: u32"
  defines "w \<equiv> signed_drop_bit 8 v * of_nat base + ucast (drop_bit 8 x)"
  shows "w > drop_bit 8 (- 1) \<longleftrightarrow> 2 ^ 64 \<le> unat v * base + unat c"
    and "unat v * base + unat c < 2 ^ 64 \<Longrightarrow>
      unat (push_bit 8 w + ucast (x AND 0xff)) = unat v * base + unat c"
proof -
  note bm = base_mod [OF assms(2,3), of "unat v"]
  let ?N = "unat v * base + unat c"
  have u: "unat (ucast (v AND 0xff) :: u32) = unat v mod 256"
    by (simp only: unsigned_ucast_eq take_bit_eq_mod [where 'a = nat] and_255) simp
  have m: "unat (ucast (v AND 0xff) * of_nat base :: u32) = (unat v mod 256) * base"
    using bm(1) assms(2) u by (simp add: unat_word_ariths unat_of_nat)
  have x: "unat x = (unat v mod 256) * base + unat c"
    unfolding x_def using bm(1) m assms by (simp add: unat_word_ariths unat_ucast8)
  have r: "unat (ucast (drop_bit 8 x) :: u64) = unat x div 256"
    using unat_u32 [of x]
    by (simp only: unsigned_ucast_eq take_bit_eq_mod [where 'a = nat] unat_drop8) simp
  define q where "q = sint v div 256 * int base + int (unat x div 256)"
  have w: "w = of_int q"
  proof -
    have "ucast (drop_bit 8 x) = (of_nat (unat (ucast (drop_bit 8 x) :: u64)) :: u64)" by simp
    then have "ucast (drop_bit 8 x) = (of_nat (unat x div 256) :: u64)" by (simp only: r)
    then show ?thesis by (simp add: w_def q_def signed_shift_u64)
  qed
  have b: "uint v < 2 ^ 64" "0 \<le> uint v" using unsigned_less [of v] by auto
  have xb: "int (unat x div 256) < int base" using bm(2) x by simp
  have gt: "w > drop_bit 8 (- 1) \<longleftrightarrow> 2 ^ 56 \<le> q mod 2 ^ 64"
    unfolding w word_less_def by (simp add: uint_word_of_int mask_eq_exp_minus_1) linarith
  have N: "int ?N = uint v * int base + int (unat c)" by simp
  have Nd: "int (?N div 256) = uint v div 256 * int base + int (unat x div 256)"
    by (simp add: zdiv_int flip: bm(3) x)
  have big: "2 ^ 64 \<le> ?N" if "2 ^ 63 \<le> uint v"
  proof -
    have "uint v * 2 \<le> uint v * int base" using b assms(1) by (intro mult_left_mono) auto
    moreover have "(2 :: int) ^ 64 \<le> uint v * 2" using that by simp
    moreover have "0 \<le> int (unat c)" by (rule of_nat_0_le_iff)
    ultimately have "(2 :: int) ^ 64 \<le> int ?N" unfolding N by linarith
    then show ?thesis by (metis of_nat_le_iff of_nat_numeral of_nat_power)
  qed
  have small: "q = int (?N div 256)" if "uint v < 2 ^ 63"
    unfolding q_def Nd using that by (simp add: sint_cases)
  have q56: "?N div 256 < 2305843009213693952" if "uint v < 2 ^ 63"
  proof -
    have "uint v * int base \<le> (2 ^ 63 - 1) * 36"
      using that b assms(2) by (intro mult_mono) auto
    then have "uint v * int base \<le> 332041393326771929052" by simp
    moreover have "int (unat c) < 36" using assms(2,3) by linarith
    ultimately have "int ?N < 332041393326771929088" unfolding N by linarith
    then have "?N < 332041393326771929088" by linarith
    then show ?thesis by linarith
  qed
  have qs: "q mod 2 ^ 64 = q" if "uint v < 2 ^ 63"
  proof -
    have "0 \<le> q" "q < 2305843009213693952" using small [OF that] q56 [OF that] by linarith+
    then show ?thesis by (simp add: mod_pos_pos_trivial)
  qed
  show "w > drop_bit 8 (- 1) \<longleftrightarrow> 2 ^ 64 \<le> ?N"
  proof (cases "uint v < 2 ^ 63")
    case True
    have "72057594037927936 \<le> ?N div 256 \<longleftrightarrow> 18446744073709551616 \<le> ?N" by linarith
    then show ?thesis unfolding gt qs [OF True] using small [OF True] by simp
  next
    case False
    define h where "h = sint v div 256"
    have "sint v < 0" "- 9223372036854775808 \<le> sint v" using b False by (auto simp: sint_cases)
    then have h: "h \<le> - 1" "- 36028797018963968 \<le> h" unfolding h_def by linarith+
    have "h * int base \<le> - 1 * int base" using h by (intro mult_right_mono) auto
    moreover have "- 36028797018963968 * int base \<le> h * int base" using h by (intro mult_right_mono) auto
    moreover have "- 36028797018963968 * 36 \<le> - 36028797018963968 * int base" using assms(2) by simp
    ultimately have q: "q < 0" "- 36028797018963968 * 36 \<le> q"
      unfolding q_def h_def [symmetric] using xb by linarith+
    have "q mod 2 ^ 64 = (q + 2 ^ 64) mod 2 ^ 64" by simp
    also have "\<dots> = q + 2 ^ 64" using q by (intro mod_pos_pos_trivial) auto
    finally have "2 ^ 56 \<le> q mod 2 ^ 64" using q by simp
    with gt big False show ?thesis by simp
  qed
  assume l: "?N < 2 ^ 64"
  then have v: "uint v < 2 ^ 63" using big by linarith
  have wN: "unat w = ?N div 256"
  proof -
    have "uint w = q mod 2 ^ 64" by (simp add: w uint_word_of_int)
    also have "\<dots> = q" by (rule qs [OF v])
    finally show ?thesis using small [OF v] by (simp flip: of_nat_eq_iff [where 'a = int])
  qed
  have "unat (push_bit 8 w) = 256 * (?N div 256)"
    using l by (simp add: push_bit_eq_mult unat_word_ariths wN)
  moreover have "unat (ucast (x AND 0xff) :: u64) = ?N mod 256"
    by (simp only: unsigned_ucast_eq take_bit_eq_mod [where 'a = nat] and_255 x bm(4)) simp
  ultimately show "unat (push_bit 8 w + ucast (x AND 0xff)) = ?N"
    using l by (simp add: unat_word_ariths)
qed

definition is_digit :: "nat \<Rightarrow> u8 \<Rightarrow> bool" where
  "is_digit base c \<longleftrightarrow> unat (digit_val c) < base"

fun horner :: "nat \<Rightarrow> nat \<Rightarrow> u8 list \<Rightarrow> nat" where
  "horner base a [] = a"
| "horner base a (c # cs) = horner base (a * base + unat (digit_val c)) cs"

lemma horner_mono: "1 \<le> base \<Longrightarrow> a \<le> horner base a cs"
proof (induction cs arbitrary: a)
  case (Cons c cs)
  have "a \<le> a * base + unat (digit_val c)" using Cons.prems by (simp add: trans_le_add1)
  also have "\<dots> \<le> horner base (a * base + unat (digit_val c)) cs" by (rule Cons.IH [OF Cons.prems])
  finally show ?case by simp
qed simp

definition no_digit :: "nat \<Rightarrow> u8 list \<Rightarrow> bool" where
  "no_digit base cs \<longleftrightarrow> cs = [] \<or> \<not> is_digit base (hd cs)"

lemma digits32_result:
  assumes "1 \<le> base" "base \<le> 36" "\<forall>c \<in> set ds. is_digit base c" "no_digit base rest"
  shows "\<exists>v'. digits32 base (ds @ rest) v ovf k =
      (v', ovf \<or> 2 ^ 32 \<le> horner base (unat v) ds, k + length ds) \<and>
    (horner base (unat v) ds < 2 ^ 32 \<longrightarrow> unat v' = horner base (unat v) ds)"
  using assms(3)
proof (induction ds arbitrary: v ovf k)
  case Nil
  then show ?case
    using assms(4) unat_u32 [of v] by (cases rest) (auto simp: no_digit_def is_digit_def Let_def)
next
  case (Cons c ds)
  let ?N = "unat v * base + unat (digit_val c)"
  let ?x = "(v AND 0xff) * of_nat base + ucast (digit_val c)"
  let ?w = "drop_bit 8 v * of_nat base + drop_bit 8 ?x"
  let ?v = "push_bit 8 ?w + (?x AND 0xff)"
  have d: "unat (digit_val c) < base" using Cons.prems by (simp add: is_digit_def)
  note st = step32 [OF assms(2) d, of v]
  from Cons.IH [of ?v "ovf \<or> ?w > drop_bit 8 (- 1)" "Suc k"] Cons.prems obtain v' where
    v': "digits32 base (ds @ rest) ?v (ovf \<or> ?w > drop_bit 8 (- 1)) (Suc k) =
      (v', (ovf \<or> ?w > drop_bit 8 (- 1)) \<or> 2 ^ 32 \<le> horner base (unat ?v) ds, Suc k + length ds)"
    "horner base (unat ?v) ds < 2 ^ 32 \<longrightarrow> unat v' = horner base (unat ?v) ds" by auto
  have e: "digits32 base ((c # ds) @ rest) v ovf k =
      digits32 base (ds @ rest) ?v (ovf \<or> ?w > drop_bit 8 (- 1)) (Suc k)"
    using d by (simp add: Let_def)
  show ?case
  proof (cases "?N < 2 ^ 32")
    case True
    then have "unat ?v = ?N" "\<not> ?w > drop_bit 8 (- 1)" using st by auto
    with e v' show ?thesis by (intro exI [of _ v']) (simp only: horner.simps, simp)
  next
    case False
    then have "2 ^ 32 \<le> horner base ?N ds" "?w > drop_bit 8 (- 1)"
      using horner_mono [OF assms(1), of ?N ds] st by auto
    with e v' show ?thesis by (intro exI [of _ v']) (simp only: horner.simps, simp)
  qed
qed

lemma digits64_result:
  assumes "2 \<le> base" "base \<le> 36" "\<forall>c \<in> set ds. is_digit base c" "no_digit base rest"
  shows "\<exists>v'. digits64 base (ds @ rest) v ovf k =
      (v', ovf \<or> 2 ^ 64 \<le> horner base (unat v) ds, k + length ds) \<and>
    (horner base (unat v) ds < 2 ^ 64 \<longrightarrow> unat v' = horner base (unat v) ds)"
  using assms(3)
proof (induction ds arbitrary: v ovf k)
  case Nil
  then show ?case
    using assms(4) unat_u64 [of v] by (cases rest) (auto simp: no_digit_def is_digit_def Let_def)
next
  case (Cons c ds)
  let ?N = "unat v * base + unat (digit_val c)"
  let ?x = "ucast (v AND 0xff) * of_nat base + ucast (digit_val c) :: u32"
  let ?w = "signed_drop_bit 8 v * of_nat base + ucast (drop_bit 8 ?x)"
  let ?v = "push_bit 8 ?w + ucast (?x AND 0xff)"
  have d: "unat (digit_val c) < base" using Cons.prems by (simp add: is_digit_def)
  note st = step64 [OF assms(1,2) d, of v]
  from Cons.IH [of ?v "ovf \<or> ?w > drop_bit 8 (- 1)" "Suc k"] Cons.prems obtain v' where
    v': "digits64 base (ds @ rest) ?v (ovf \<or> ?w > drop_bit 8 (- 1)) (Suc k) =
      (v', (ovf \<or> ?w > drop_bit 8 (- 1)) \<or> 2 ^ 64 \<le> horner base (unat ?v) ds, Suc k + length ds)"
    "horner base (unat ?v) ds < 2 ^ 64 \<longrightarrow> unat v' = horner base (unat ?v) ds" by auto
  have e: "digits64 base ((c # ds) @ rest) v ovf k =
      digits64 base (ds @ rest) ?v (ovf \<or> ?w > drop_bit 8 (- 1)) (Suc k)"
    using d by (simp add: Let_def)
  show ?case
  proof (cases "?N < 2 ^ 64")
    case True
    then have "unat ?v = ?N" "\<not> ?w > drop_bit 8 (- 1)" using st by auto
    with e v' show ?thesis by (intro exI [of _ v']) (simp only: horner.simps, simp)
  next
    case False
    then have "2 ^ 64 \<le> horner base ?N ds" "?w > drop_bit 8 (- 1)"
      using horner_mono [of base ?N ds] assms(1) st by auto
    with e v' show ?thesis by (intro exI [of _ v']) (simp only: horner.simps, simp)
  qed
qed

section \<open>The readers on a well-formed number\<close>

text \<open>White space, a sign, digits, and something that is not a digit.\<close>

definition number :: "nat \<Rightarrow> u8 list \<Rightarrow> u8 list \<Rightarrow> u8 list \<Rightarrow> u8 list \<Rightarrow> bool" where
  "number base ws sg ds rest \<longleftrightarrow> 2 \<le> base \<and> base \<le> 36 \<and> (\<forall>c \<in> set ws. isspace (cint c)) \<and>
     sg \<in> {[], [43], [45]} \<and> ds \<noteq> [] \<and> (\<forall>c \<in> set ds. is_digit base c) \<and> no_digit base rest \<and>
     \<not> (base = 16 \<and> at rest 0 \<in> {88, 120})"

lemma digit_not_space_or_sign:
  assumes "is_digit base c" "base \<le> 36"
  shows "\<not> isspace (cint c)" "c \<noteq> 43" "c \<noteq> 45" "isalnum (cint c)"
proof -
  have v: "unat (digit_val c) < 36" using assms by (simp add: is_digit_def)
  have c: "48 \<le> unat c \<and> unat c \<le> 57 \<or> 65 \<le> unat c \<and> unat c \<le> 90 \<or> 97 \<le> unat c \<and> unat c \<le> 122"
    using v unat_u8 [of c]
    by (auto simp: digit_val_def word_le_nat_alt unat_word_ariths unat_sub_if' split: if_splits)
  then have "unat (cint c) = unat c" by (intro cint_ascii) auto
  with c show "\<not> isspace (cint c)" "isalnum (cint c)"
    by (auto simp: class_ranges within_def word_unat_eq_iff)
  show "c \<noteq> 43" "c \<noteq> 45" using c by auto
qed

lemma at_append: "at (xs @ ys) (length xs + i) = at ys i"
  by (simp add: at_def)

lemma at_append0: "at (xs @ ys) (length xs) = at ys 0"
  using at_append [of xs ys 0] by simp

lemma at_Cons: "at (x # xs) 0 = x" "at (x # xs) (Suc i) = at xs i"
  by (simp_all add: at_def)

lemma sign_not_space: "c \<in> {43, 45} \<Longrightarrow> \<not> isspace (cint c)"
  by (auto simp: class_ranges within_def cint_ascii word_unat_eq_iff)

lemma number_first:
  assumes "number base ws sg ds rest"
  shows "takeWhile (\<lambda>b. isspace (cint b)) (ws @ sg @ ds @ rest) = ws"
    and "at (ds @ rest) 0 = hd ds" "hd ds \<noteq> 43" "hd ds \<noteq> 45" "is_digit base (hd ds)"
proof -
  from assms obtain d ds' where ds: "ds = d # ds'" "is_digit base d" "base \<le> 36"
    by (cases ds) (auto simp: number_def)
  note dn = digit_not_space_or_sign [OF ds(2,3)]
  show "at (ds @ rest) 0 = hd ds" "hd ds \<noteq> 43" "hd ds \<noteq> 45" "is_digit base (hd ds)"
    using ds dn by (simp_all add: at_Cons)
  have "takeWhile (\<lambda>b. isspace (cint b)) (sg @ ds @ rest) = []"
    using assms ds(1) dn(1) sign_not_space by (auto simp: number_def)
  then show "takeWhile (\<lambda>b. isspace (cint b)) (ws @ sg @ ds @ rest) = ws"
    using assms by (subst takeWhile_append2) (auto simp: number_def)
qed

lemma number_prefix:
  assumes "number base ws sg ds rest" "s = ws @ sg @ ds @ rest"
  shows "conv_prefix s (int base) = Some (sg = [45], length (ws @ sg), length (ws @ sg), base)"
proof -
  note nf = number_first [OF assms(1)]
  have sk: "skip_space s = length ws" by (simp add: skip_space_def nf(1) assms(2))
  have sg: "sg \<in> {[], [43], [45]}" and b: "2 \<le> base" "base \<le> 36" using assms(1) by (simp_all add: number_def)
  have a0: "at s (length ws) = at (sg @ ds @ rest) 0" unfolding assms(2) by (rule at_append0)
  then have s0: "(at s (length ws) = 45) = (sg = [45])" "(at s (length ws) = 43) = (sg = [43])"
    using sg nf(2-4) by (auto simp: at_Cons)
  have orig: "(if at s (length ws) = 45 \<or> at s (length ws) = 43 then length ws + 1 else length ws) =
      length (ws @ sg)"
    unfolding s0 using sg by auto
  have a1: "at s (length (ws @ sg) + i) = at (ds @ rest) i" for i
    using at_append [of "ws @ sg" "ds @ rest" i] assms(2) by simp
  have a10: "at s (length (ws @ sg)) = hd ds" using a1 [of 0] nf(2) by simp
  have no_x: "skip0x s (length (ws @ sg)) 16 = (length (ws @ sg), 16)" if "base = 16"
  proof -
    obtain d ds' where ds: "ds = d # ds'" using assms(1) by (cases ds) (auto simp: number_def)
    have "at (ds @ rest) 1 \<noteq> 120 \<and> at (ds @ rest) 1 \<noteq> 88"
    proof (cases ds')
      case Nil
      with ds assms(1) that show ?thesis by (auto simp: number_def at_Cons)
    next
      case (Cons e es)
      with ds assms(1) that have "is_digit 16 e" by (simp add: number_def)
      then have "e \<noteq> 120 \<and> e \<noteq> 88" by (auto simp: is_digit_def digit_val_def)
      with ds Cons show ?thesis by (simp add: at_Cons)
    qed
    then show ?thesis by (simp add: skip0x_def a1 [of 1, simplified])
  qed
  have "(of_int (int base - 2) :: u32) \<le> 34"
  proof -
    obtain k where k: "base = k + 2" using b(1) by (metis add.commute le_Suc_ex)
    then have "of_int (int base - 2) = (of_nat k :: u32)" by simp
    then show ?thesis using b k by (simp add: word_le_nat_alt unat_of_nat)
  qed
  then show ?thesis
    using b no_x sg
    by (simp only: conv_prefix_def sk Let_def orig s0 a10) (auto simp: not_less [symmetric] a10)
qed

lemma strtoul_result:
  assumes "number base ws sg ds rest" "s = ws @ sg @ ds @ rest"
  shows "strtoul s (int base) =
    (if 2 ^ 32 \<le> horner base 0 ds then (- 1, Some (length (ws @ sg @ ds)), Some ERANGE)
     else ((if sg = [45] then - of_nat (horner base 0 ds) else of_nat (horner base 0 ds)),
       Some (length (ws @ sg @ ds)), None))"
proof -
  have b: "1 \<le> base" "base \<le> 36" "\<forall>c \<in> set ds. is_digit base c" "no_digit base rest" "ds \<noteq> []"
    using assms(1) by (auto simp: number_def)
  from digits32_result [OF b(1-4), of 0 False "length (ws @ sg)"] obtain v' where
    v': "digits32 base (ds @ rest) 0 False (length (ws @ sg)) =
      (v', 2 ^ 32 \<le> horner base 0 ds, length (ws @ sg) + length ds)"
    "horner base 0 ds < 2 ^ 32 \<longrightarrow> unat v' = horner base 0 ds" by auto
  have "drop (length (ws @ sg)) s = ds @ rest" unfolding assms(2) by simp
  moreover have "v' = of_nat (horner base 0 ds)" if "horner base 0 ds < 2 ^ 32"
    using v'(2) that by (metis of_nat_unat ucast_id)
  ultimately show ?thesis
    using v'(1) b(5) number_prefix [OF assms] by (auto simp: strtoul_def Let_def)
qed

lemma strtoull_result:
  assumes "number base ws sg ds rest" "s = ws @ sg @ ds @ rest"
  shows "strtoull s (int base) =
    (if 2 ^ 64 \<le> horner base 0 ds then (- 1, Some (length (ws @ sg @ ds)), Some ERANGE)
     else ((if sg = [45] then - of_nat (horner base 0 ds) else of_nat (horner base 0 ds)),
       Some (length (ws @ sg @ ds)), None))"
proof -
  have b: "2 \<le> base" "base \<le> 36" "\<forall>c \<in> set ds. is_digit base c" "no_digit base rest" "ds \<noteq> []"
    using assms(1) by (auto simp: number_def)
  from digits64_result [OF b(1-4), of 0 False "length (ws @ sg)"] obtain v' where
    v': "digits64 base (ds @ rest) 0 False (length (ws @ sg)) =
      (v', 2 ^ 64 \<le> horner base 0 ds, length (ws @ sg) + length ds)"
    "horner base 0 ds < 2 ^ 64 \<longrightarrow> unat v' = horner base 0 ds" by auto
  have "drop (length (ws @ sg)) s = ds @ rest" unfolding assms(2) by simp
  moreover have "v' = of_nat (horner base 0 ds)" if "horner base 0 ds < 2 ^ 64"
    using v'(2) that by (metis of_nat_unat ucast_id)
  ultimately show ?thesis
    using v'(1) b(5) number_prefix [OF assms] by (auto simp: strtoull_def Let_def)
qed

text \<open>\<open>strtol\<close> passes a sign-free number on, apart from a plus sign.\<close>

lemma number_strip:
  assumes "number base ws sg ds rest" "s = ws @ sg @ ds @ rest"
  shows "skip_space s = length ws"
    and "(at s (length ws) = 45 \<and> isalnum (cint (at s (length ws + 1)))) = (sg = [45])"
    and "number base [] (if sg = [45] then [] else sg) ds rest"
    and "drop (if sg = [45] then length ws + 1 else length ws) s =
      [] @ (if sg = [45] then [] else sg) @ ds @ rest"
proof -
  note nf = number_first [OF assms(1)]
  have sg: "sg \<in> {[], [43], [45]}" and b: "base \<le> 36" using assms(1) by (simp_all add: number_def)
  show "skip_space s = length ws" by (simp add: skip_space_def nf(1) assms(2))
  have a: "at s (length ws + i) = at (sg @ ds @ rest) i" for i unfolding assms(2) by (rule at_append)
  have "isalnum (cint (hd ds))" using digit_not_space_or_sign(4) [OF nf(5) b] .
  then show "(at s (length ws) = 45 \<and> isalnum (cint (at s (length ws + 1)))) = (sg = [45])"
    using sg nf(2-4) a [of 0] a [of 1] by (auto simp: at_Cons)
  show "number base [] (if sg = [45] then [] else sg) ds rest"
    using assms(1) by (auto simp: number_def)
  show "drop (if sg = [45] then length ws + 1 else length ws) s =
      [] @ (if sg = [45] then [] else sg) @ ds @ rest"
    using assms(2) by auto
qed

definition saturate :: "nat \<Rightarrow> int \<Rightarrow> int" where
  "saturate w x = max (- (2 ^ (w - 1))) (min (2 ^ (w - 1) - 1) x)"

definition signed_errno :: "nat \<Rightarrow> int \<Rightarrow> errno_t option" where
  "signed_errno w x = (if x < - (2 ^ (w - 1)) \<or> 2 ^ (w - 1) \<le> x then Some ERANGE
     else if x = - (2 ^ (w - 1)) then Some E_OK else None)"

lemma strtol_result:
  assumes "number base ws sg ds rest" "s = ws @ sg @ ds @ rest"
  defines "x \<equiv> (if sg = [45] then - int (horner base 0 ds) else int (horner base 0 ds))"
  shows "\<exists>v. strtol s (int base) = (v, Some (length (ws @ sg @ ds)), signed_errno 32 x) \<and>
    sint v = saturate 32 x"
proof -
  let ?N = "horner base 0 ds"
  note ns = number_strip [OF assms(1,2)]
  have ds: "ds \<noteq> []" using assms(1) by (simp add: number_def)
  define v where "v = (if 2 ^ 32 \<le> ?N then - 1 else of_nat ?N :: u32)"
  have u: "uint v = (if 2 ^ 32 \<le> ?N then 2 ^ 32 - 1 else int ?N)"
    by (auto simp: v_def unsigned_minus_1_eq_mask mask_eq_exp_minus_1 unsigned_of_nat
        take_bit_eq_mod)
  define sg' where "sg' = (if sg = [45] then [] else sg)"
  have st: "strtoul (drop (if sg = [45] then length ws + 1 else length ws) s) (int base) =
      (v, Some (length (sg' @ ds)), if 2 ^ 32 \<le> ?N then Some ERANGE else None)"
    using strtoul_result [OF ns(3,4)] by (auto simp: v_def sg'_def)
  have len: "(if sg = [45] then length ws + 1 else length ws) + length (sg' @ ds) = length (ws @ sg @ ds)"
    by (simp add: sg'_def)
  have cmp: "2147483648 \<le> v \<longleftrightarrow> 2 ^ 31 \<le> ?N" "v = 2147483648 \<longleftrightarrow> ?N = 2 ^ 31"
    using u by (auto simp: word_le_def word_uint_eq_iff split: if_splits)
  have sn: "sint v = int ?N" "sint (- v) = - int ?N" if "?N < 2 ^ 31"
    using u that by (auto simp: sint_cases uint_word_ariths zmod_zminus1_eq_if)
  have sc: "sint (2147483648 :: u32) = - 2147483648" "sint (2147483647 :: u32) = 2147483647"
    by (simp_all add: sint_cases)
  have ne: "length (sg' @ ds) \<noteq> 0" using ds by simp
  show ?thesis
    unfolding strtol_def ns(1,2) Let_def st using len ne cmp sn sc
    by (auto simp: x_def saturate_def signed_errno_def)
qed

lemma strtoll_result:
  assumes "number base ws sg ds rest" "s = ws @ sg @ ds @ rest"
  defines "x \<equiv> (if sg = [45] then - int (horner base 0 ds) else int (horner base 0 ds))"
  shows "\<exists>v. strtoll s (int base) = (v, Some (length (ws @ sg @ ds)), signed_errno 64 x) \<and>
    sint v = saturate 64 x"
proof -
  let ?N = "horner base 0 ds"
  note ns = number_strip [OF assms(1,2)]
  have ds: "ds \<noteq> []" using assms(1) by (simp add: number_def)
  define v where "v = (if 2 ^ 64 \<le> ?N then - 1 else of_nat ?N :: u64)"
  have u: "uint v = (if 2 ^ 64 \<le> ?N then 2 ^ 64 - 1 else int ?N)"
    by (auto simp: v_def unsigned_minus_1_eq_mask mask_eq_exp_minus_1 unsigned_of_nat
        take_bit_eq_mod)
  define sg' where "sg' = (if sg = [45] then [] else sg)"
  have st: "strtoull (drop (if sg = [45] then length ws + 1 else length ws) s) (int base) =
      (v, Some (length (sg' @ ds)), if 2 ^ 64 \<le> ?N then Some ERANGE else None)"
    using strtoull_result [OF ns(3,4)] by (auto simp: v_def sg'_def)
  have len: "(if sg = [45] then length ws + 1 else length ws) + length (sg' @ ds) = length (ws @ sg @ ds)"
    by (simp add: sg'_def)
  have cmp: "v > 0x7fffffffffffffff \<longleftrightarrow> 2 ^ 63 \<le> ?N" "v = 9223372036854775808 \<longleftrightarrow> ?N = 2 ^ 63"
    using u by (auto simp: word_less_def word_uint_eq_iff split: if_splits)
  have sn: "sint v = int ?N" "sint (- v) = - int ?N" if "?N < 2 ^ 63"
    using u that by (auto simp: sint_cases uint_word_ariths zmod_zminus1_eq_if)
  have sc: "sint (9223372036854775808 :: u64) = - 9223372036854775808" "sint (9223372036854775807 :: u64) = 9223372036854775807"
    by (simp_all add: sint_cases)
  have ne: "length (sg' @ ds) \<noteq> 0" using ds by simp
  show ?thesis
    unfolding strtoll_def ns(1,2) Let_def st using len ne cmp sn sc
    by (auto simp: x_def saturate_def signed_errno_def)
qed

section \<open>The writers\<close>

text \<open>The digits of a number, most significant first.\<close>

function digs :: "nat \<Rightarrow> bool \<Rightarrow> nat \<Rightarrow> u8 list" where
  "digs base up i = (if base \<le> i \<and> 2 \<le> base then digs base up (i div base) @ [digit_char (i mod base) up]
     else [digit_char (i mod base) up])"
  by pat_completeness auto
termination
  by (relation "measure (\<lambda>(base, up, i). i)") auto

declare digs.simps [simp del]

lemma digs_nonempty [simp]: "digs base up i \<noteq> []"
  by (simp add: digs.simps [of base up i])

lemma ltostr_loop_0 [simp]: "ltostr_loop m s tmp 0 base up j = Some (tmp, j, m)"
  by (simp add: ltostr_loop.simps [of m s tmp])

lemma ltostr_loop_result:
  assumes "2 \<le> base" "i \<noteq> 0" "s + length (digs base up i) \<le> tmp" "tmp \<le> length m"
  shows "ltostr_loop m s tmp i base up j =
    Some (tmp - length (digs base up i), j + length (digs base up i),
      patch (tmp - length (digs base up i)) (digs base up i) m)"
  using assms
proof (induction i arbitrary: tmp j m rule: less_induct)
  case (less i)
  let ?c = "digit_char (i mod base) up" and ?m = "m[tmp - 1 := digit_char (i mod base) up]"
  have "0 < length (digs base up i)" by simp
  then have lt: "s < tmp" using less.prems(3) by linarith
  then have step: "ltostr_loop m s tmp i base up j = ltostr_loop ?m s (tmp - 1) (i div base) base up (Suc j)"
    using less.prems by (simp add: ltostr_loop.simps [of m s tmp])
  show ?case
  proof (cases "base \<le> i")
    case True
    let ?d = "digs base up (i div base)"
    have d: "digs base up i = ?d @ [?c]"
      using True less.prems(1) by (simp add: digs.simps [of base up i])
    have "i div base < i" "i div base \<noteq> 0" using True less.prems(1,2) by (simp_all add: div_eq_0_iff)
    then have "ltostr_loop ?m s (tmp - 1) (i div base) base up (Suc j) =
        Some (tmp - 1 - length ?d, Suc j + length ?d, patch (tmp - 1 - length ?d) ?d ?m)"
      using less.prems d by (intro less.IH) auto
    moreover have "patch (tmp - 1 - length ?d) ?d ?m = patch (tmp - 1 - length ?d) (?d @ [?c]) m"
      using less.prems d
      by (intro nth_equalityI) (auto simp: length_patch nth_patch nth_list_update nth_append)
    ultimately show ?thesis using step d by simp
  next
    case False
    then have "digs base up i = [?c]" "i div base = 0" by (simp_all add: digs.simps [of base up i])
    with step lt less.prems(4) show ?thesis
      using patch_Cons [of "tmp - 1" m "[]" ?c] by simp
  qed
qed

lemma digit_char_digit:
  assumes "d < 36"
  shows "unat (digit_val (digit_char d up)) = d" "digit_char d up \<noteq> 0"
    and "d < 10 \<Longrightarrow> digit_char d up = of_nat (48 + d)"
proof -
  have u: "unat (digit_char d up) = (if d < 10 then d + 48 else if up then d + 55 else d + 87)"
    using assms by (auto simp: digit_char_def unat_of_nat unat_sub_if' simp del: of_nat_add)
  show "unat (digit_val (digit_char d up)) = d"
    using assms u
    by (cases up; cases "d < 10"; simp add: digit_val_def word_le_nat_alt unat_word_ariths unat_sub_if')
  show "digit_char d up \<noteq> 0" using u by (auto simp: word_unat_eq_iff split: if_splits)
  show "d < 10 \<Longrightarrow> digit_char d up = of_nat (48 + d)" by (simp add: digit_char_def add.commute)
qed

lemma horner_append: "horner base a (xs @ ys) = horner base (horner base a xs) ys"
  by (induction xs arbitrary: a) auto

lemma digs_value:
  assumes "2 \<le> base" "base \<le> 36"
  shows "horner base 0 (digs base up i) = i" "\<forall>c \<in> set (digs base up i). is_digit base c \<and> c \<noteq> 0"
proof (induction i rule: less_induct)
  case (less i)
  have "i mod base < base" using assms(1) by simp
  then have lt: "i mod base < base" "i mod base < 36" using assms(2) by linarith+
  note dc = digit_char_digit [OF lt(2), of up]
  { case 1
    show ?case
    proof (cases "base \<le> i")
      case True
      with less(1) [of "i div base"] assms(1) dc show ?thesis
        by (simp add: digs.simps [of base up i] horner_append)
    qed (use dc in \<open>simp add: digs.simps [of base up i]\<close>) }
  { case 2
    show ?case
    proof (cases "base \<le> i")
      case True
      with less(2) [of "i div base"] assms(1) dc lt show ?thesis
        by (simp add: digs.simps [of base up i] is_digit_def)
    qed (use dc lt in \<open>simp add: digs.simps [of base up i] is_digit_def\<close>) }
qed

lemma tostr_result:
  assumes "2 \<le> base" "base \<le> 36" "length (digs base up i) < size0" "s + size0 \<le> length m" "0 < s"
  shows "\<exists>m'. tostr m s size0 i base up = Some (length (digs base up i), m') \<and>
    cstr m' s (digs base up i) \<and> length m' = length m \<and>
    (\<forall>a. a < s \<or> s + size0 \<le> a \<longrightarrow> a < length m \<longrightarrow> m' ! a = m ! a)"
proof -
  let ?d = "digs base up i" and ?e = "s + size0 - 1"
  let ?m1 = "m[?e := 0]" and ?t = "?e - length ?d"
  have e: "?e < length m" "s + length ?d \<le> ?e" using assms by auto
  define m3 where "m3 = patch ?t ?d ?m1"
  have l3: "length m3 = length m" using e by (simp add: m3_def length_patch)
  have n3: "m3 ! a = (if ?t \<le> a \<and> a < ?e then ?d ! (a - ?t) else ?m1 ! a)" if "a < length m" for a
    unfolding m3_def using e that by (subst nth_patch) auto
  have lp: "\<exists>tmp1 j1 m2. (if i = 0 then
            (if ?e = 0 then None else map_option (\<lambda>m2. (?e - 1, 1, m2)) (store ?m1 (?e - 1) 48))
          else Some (?e, 0, ?m1)) = Some (tmp1, j1, m2) \<and>
      ltostr_loop m2 s tmp1 i base up j1 = Some (?t, length ?d, m3)"
  proof (cases "i = 0")
    case True
    then have d: "?d = [48]" using digit_char_digit(3) [of 0 up] assms(1)
      by (simp add: digs.simps [of base up 0])
    then have "patch (?e - 1) [48] ?m1 = ?m1[?e - 1 := 48]"
      using e patch_Cons [of "?e - 1" ?m1 "[]" 48] by simp
    moreover have "?e - 1 < length m" "0 < ?e" using e assms(5) by auto
    ultimately show ?thesis using d True by (simp add: store_def m3_def)
  next
    case False
    with ltostr_loop_result [OF assms(1) False e(2), of ?m1 0] e show ?thesis
      by (simp add: m3_def)
  qed
  let ?m4 = "patch s (seg ?t (length ?d + 1) m3) m3"
  have mv: "memmove m3 s ?t (length ?d + 1) = Some ?m4"
    using e assms l3 by (intro memmove_result) auto
  have sg: "seg ?t (length ?d + 1) m3 = ?d @ [0]"
  proof (rule nth_equalityI)
    show "length (seg ?t (length ?d + 1) m3) = length (?d @ [0])" using e l3 by simp
    fix k assume "k < length (seg ?t (length ?d + 1) m3)"
    then have k: "k < length ?d + 1" using e l3 by simp
    then have "seg ?t (length ?d + 1) m3 ! k = m3 ! (?t + k)" using e l3 by (intro nth_seg) auto
    also have "\<dots> = (?d @ [0]) ! k"
    proof (cases "k < length ?d")
      case True
      with e n3 [of "?t + k"] show ?thesis by (auto simp: nth_append)
    next
      case False
      with k e have "?t + k = ?e" "k = length ?d" by auto
      with e n3 [of ?e] show ?thesis by simp
    qed
    finally show "seg ?t (length ?d + 1) m3 ! k = (?d @ [0]) ! k" .
  qed
  have "bytes ?m4 s (?d @ [0])"
    unfolding sg bytes_iff using seg_patch [of s "?d @ [0]" m3] e l3 assms
    by (simp add: length_patch)
  then have "cstr ?m4 s ?d" using digs_value(2) [OF assms(1,2), of up i] by (auto simp: cstr_iff)
  moreover have "length ?m4 = length m" using l3 e assms by (simp add: sg length_patch)
  moreover have "?m4 ! a = m ! a" if "a < s \<or> s + size0 \<le> a" "a < length m" for a
  proof -
    have "?m4 ! a = m3 ! a" using that e l3 assms by (subst nth_patch) (auto simp: sg)
    also have "\<dots> = m ! a" using that e n3 [of a] assms by (auto simp: nth_list_update)
    finally show ?thesis .
  qed
  moreover have "tostr m s size0 i base up = Some (length ?d, ?m4)"
    using assms e lp mv by (auto simp: tostr_def store_def Let_def)
  ultimately show ?thesis by blast
qed

section \<open>The checked accumulation\<close>

lemma ato_space_isspace: "ato_space b = isspace (cint b)"
  using cint_eq [of 32 b] by (auto simp: ato_space_def isspace_def)

lemma ato_digit:
  shows "cint b - 48 < 10 \<longleftrightarrow> is_digit 10 b"
    and "is_digit 10 b \<Longrightarrow> sint b = 48 + int (unat (digit_val b))"
proof -
  have d: "is_digit 10 b \<longleftrightarrow> 48 \<le> unat b \<and> unat b \<le> 57"
    using unat_u8 [of b]
    by (auto simp: is_digit_def digit_val_def word_le_nat_alt unat_word_ariths unat_sub_if' split: if_splits)
  then show "cint b - 48 < 10 \<longleftrightarrow> is_digit 10 b"
    using cint_within [of 57 48 b] by (simp add: check_ranges)
  assume "is_digit 10 b"
  then have b: "48 \<le> unat b" "unat b \<le> 57" using d by auto
  then have "digit_val b = b - 48" by (simp add: digit_val_def word_le_nat_alt)
  then have "unat (digit_val b) = unat b - 48" using b by (simp add: unat_sub_if')
  moreover have "sint b = int (unat b)"
  proof -
    have "int (unat b) < 128" using b(2) by linarith
    then show ?thesis by (simp add: sint_cases)
  qed
  ultimately show "sint b = 48 + int (unat (digit_val b))" using b by linarith
qed

lemma fits_int: "fits w (int k) = (if int k < 2 ^ (w - 1) then Some (int k) else None)"
proof -
  have "- (2 ^ (w - 1)) \<le> (0 :: int)" by simp
  then have "- (2 ^ (w - 1)) \<le> int k" using of_nat_0_le_iff [of k] by linarith
  then show ?thesis by (simp add: fits_def)
qed

lemma ato_digits_result:
  assumes "\<forall>c \<in> set ds. is_digit 10 c" "no_digit 10 rest" "7 \<le> w" "ds \<noteq> []"
  shows "ato_digits w (ds @ rest) (int v) =
    (if int (horner 10 v ds) + 48 < 2 ^ (w - 1) then Some (int (horner 10 v ds)) else None)"
  using assms(1,4)
proof (induction ds arbitrary: v)
  case (Cons d ds)
  let ?N = "v * 10 + unat (digit_val d)"
  have d: "is_digit 10 d" using Cons.prems by simp
  have stop: "ato_digits w rest x = Some x" for x
    using assms(2) by (cases rest) (auto simp: no_digit_def ato_digit(1))
  have m: "?N \<le> horner 10 ?N ds" by (rule horner_mono) simp
  have step: "ato_digits w ((d # ds) @ rest) (int v) =
      (if int ?N + 48 < 2 ^ (w - 1) then ato_digits w (ds @ rest) (int ?N) else None)"
  proof -
    define N where "N = ?N"
    define B where "B = (2 :: int) ^ (w - 1)"
    have e: "int v * 10 + sint d = int (N + 48)" "int (N + 48) - 48 = int N"
      using ato_digit(2) [OF d] by (simp_all add: N_def)
    have f: "fits w (int v * 10) = (if int v * 10 < B then Some (int v * 10) else None)"
      using fits_int [of w "v * 10"] by (simp add: B_def)
    have "int v * 10 \<le> int N" by (simp add: N_def)
    then have "fits w (int v * 10) \<bind> (\<lambda>x. fits w (x + sint d) \<bind> (\<lambda>y. fits w (y - 48) \<bind> g)) =
        (if int N + 48 < B then g (int N) else None)" for g :: "int \<Rightarrow> int option"
      unfolding f using fits_int [of w "N + 48", folded B_def] fits_int [of w N, folded B_def]
      by (auto simp: e simp del: of_nat_add)
    moreover have "cint d - 48 < 10" using d ato_digit(1) by blast
    ultimately show ?thesis by (simp add: N_def B_def)
  qed
  show ?case
  proof (cases "ds = []")
    case True
    with step stop show ?thesis by simp
  next
    case False
    have "ato_digits w (ds @ rest) (int ?N) = (if int (horner 10 ?N ds) + 48 < 2 ^ (w - 1)
        then Some (int (horner 10 ?N ds)) else None)"
      using Cons.prems False by (intro Cons.IH) auto
    moreover have "int ?N \<le> int (horner 10 ?N ds)" using m by (simp only: of_nat_le_iff)
    ultimately show ?thesis unfolding step by auto
  qed
qed simp

lemma ato_result:
  assumes "number 10 ws sg ds rest" "7 \<le> w"
  shows "ato w (ws @ sg @ ds @ rest) =
    (if int (horner 10 0 ds) + 48 < 2 ^ (w - 1)
     then Some (if sg = [45] then - int (horner 10 0 ds) else int (horner 10 0 ds)) else None)"
proof -
  note nf = number_first [OF assms(1)]
  have sp: "(\<lambda>b. isspace (cint b)) = ato_space" by (simp add: ato_space_isspace fun_eq_iff)
  have t: "dropWhile ato_space (ws @ sg @ ds @ rest) = sg @ ds @ rest"
    using nf(1) takeWhile_dropWhile_id [of ato_space "ws @ sg @ ds @ rest"] unfolding sp by simp
  have sg: "sg \<in> {[], [43], [45]}" and n: "\<forall>c \<in> set ds. is_digit 10 c" "no_digit 10 rest" "ds \<noteq> []"
    using assms(1) by (auto simp: number_def)
  have "ato_digits w (ds @ rest) 0 = (if int (horner 10 0 ds) + 48 < 2 ^ (w - 1)
      then Some (int (horner 10 0 ds)) else None)"
    using ato_digits_result [OF n(1,2) assms(2) n(3), of 0] by simp
  moreover have "fits w (- int k) = Some (- int k)" if "int k + 48 < 2 ^ (w - 1)" for k
  proof -
    have "- (2 ^ (w - 1)) \<le> - int k" "- int k < 2 ^ (w - 1)"
      using that of_nat_0_le_iff [of k] by linarith+
    then show ?thesis by (simp only: fits_def) simp
  qed
  ultimately show ?thesis
    unfolding ato_def t Let_def using sg nf(2-4) by (auto simp: at_Cons)
qed

section \<open>Properties\<close>

text \<open>The text \<open>\<^verbatim>\<open> -42x\<close>\<close> for the witnesses.\<close>

lemma demo_number: "number 10 [32] [45] [52, 50] [120]"
  by (simp add: number_def is_digit_def digit_val_def no_digit_def at_def class_ranges within_def
      cint_ascii word_unat_eq_iff)

lemma demo_value: "horner 10 0 [52, 50] = 42"
  by (simp add: digit_val_def)

lemma demo_end: "Some (Suc (Suc (Suc (Suc 0)))) = Some (4 :: nat)"
  by simp

text \<open>C8: \<open>strtol\<close> on a number in any base from 2 to 36 returns its value, clamped to the range
  of \<open>long\<close>, stores the position after its last digit, and sets \<open>errno\<close> to ERANGE exactly when
  the value was clamped; on \<open>LONG_MIN\<close> itself it also stores 0 in \<open>errno\<close>.\<close>

theorem strtol_value:
  assumes "number base ws sg ds rest" "s = ws @ sg @ ds @ rest"
    and "x = (if sg = [45] then - int (horner base 0 ds) else int (horner base 0 ds))"
  shows "\<exists>v. strtol s (int base) = (v, Some (length (ws @ sg @ ds)),
      if x < - (2 ^ 31) \<or> 2 ^ 31 \<le> x then Some ERANGE
      else if x = - (2 ^ 31) then Some E_OK else None) \<and>
    sint v = max (- (2 ^ 31)) (min (2 ^ 31 - 1) x)"
proof -
  have e: "(32 :: nat) - 1 = 31" by simp
  show ?thesis
    using strtol_result [OF assms(1,2)] by (simp only: signed_errno_def saturate_def assms(3) e)
qed

theorem strtol_value_witness:
  "\<exists>v. strtol [32, 45, 52, 50, 120] 10 = (v, Some 4, None) \<and> sint v = - 42"
  using strtol_value [OF demo_number refl refl] unfolding demo_value by (simp add: demo_end)

text \<open>\<open>strtoull\<close> on a number in any base from 2 to 36 returns its value modulo the sign, or
  \<open>ULLONG_MAX\<close> with ERANGE exactly when the value does not fit in 64 bits.\<close>

theorem strtoull_value:
  assumes "number base ws sg ds rest" "s = ws @ sg @ ds @ rest"
  shows "strtoull s (int base) =
    (if 2 ^ 64 \<le> horner base 0 ds then (- 1, Some (length (ws @ sg @ ds)), Some ERANGE)
     else ((if sg = [45] then - of_nat (horner base 0 ds) else of_nat (horner base 0 ds)),
       Some (length (ws @ sg @ ds)), None))"
  by (rule strtoull_result [OF assms])

theorem strtoull_value_witness: "strtoull [32, 45, 52, 50, 120] 10 = (- 42, Some 4, None)"
  using strtoull_value [OF demo_number refl] unfolding demo_value by (simp add: demo_end)

text \<open>C9: What \<open>__ltostr\<close> writes, \<open>strtoul\<close> reads back: in any base from 2 to 36 and in a buffer
  large enough, it writes a NUL-terminated string inside the buffer only, and reading that
  string in the same base consumes it all and returns the number.\<close>

theorem ltostr_strtoul:
  assumes "2 \<le> base" "base \<le> 36" "length (digs base up (unat i)) < size0"
    and "s + size0 \<le> length m" "0 < s"
  shows "\<exists>xs m'. ltostr m s size0 i base up = Some (length xs, m') \<and> cstr m' s xs \<and>
    (\<forall>a. a < s \<or> s + size0 \<le> a \<longrightarrow> a < length m \<longrightarrow> m' ! a = m ! a) \<and>
    strtoul xs (int base) = (i, Some (length xs), None)"
proof -
  let ?xs = "digs base up (unat i)"
  note dv = digs_value [OF assms(1,2), of up "unat i"]
  have "number base [] [] ?xs []"
    using assms(1,2) dv(2) by (simp add: number_def no_digit_def at_def)
  from strtoul_result [OF this refl] have "strtoul ?xs (int base) = (i, Some (length ?xs), None)"
    using dv(1) unat_u32 [of i] by simp
  then show ?thesis
    using tostr_result [OF assms] unfolding ltostr_def by blast
qed

theorem ltostr_strtoul_witness:
  "\<exists>xs m'. ltostr (replicate 8 0) 1 5 7 10 False = Some (length xs, m') \<and> cstr m' 1 xs \<and>
    strtoul xs 10 = (7, Some (length xs), None)"
proof -
  have "length (digs 10 False (unat (7 :: u32))) < 5" by (simp add: digs.simps [of 10 False 7])
  then show ?thesis
    using ltostr_strtoul [of 10 False "7 :: u32" 5 1 "replicate 8 0"] by auto
qed

text \<open>\<open>atol\<close> returns the value of a decimal number, as long as the value is at least 48 below
  the limit of \<open>long\<close>: from there on the intermediate \<open>v*10 + *s\<close> leaves the range of the
  type, although values up to \<open>LONG_MAX\<close> are representable.\<close>

theorem atol_value:
  assumes "number 10 ws sg ds rest"
  shows "atol (ws @ sg @ ds @ rest) =
    (if int (horner 10 0 ds) + 48 < 2 ^ 31
     then Some (if sg = [45] then - int (horner 10 0 ds) else int (horner 10 0 ds)) else None)"
  using ato_result [OF assms, of 32] by (simp add: atol_def)

theorem atol_value_witness: "atol [32, 45, 52, 50, 120] = Some (- 42)"
  using atol_value [OF demo_number] unfolding demo_value by simp

end
