(* ===== verification/Sort.thy ===== *)
theory Sort
  imports Cstring "HOL-Library.Multiset"
begin

text \<open>
  \<open>qsort\<close> and \<open>bsearch\<close> (\<^verbatim>\<open>lib/c/lib/qsort.c\<close>, \<^verbatim>\<open>bsearch.c\<close>). The array is the list of its
  elements; an element is the block of \<open>size\<close> bytes that \<open>idx\<close> addresses and \<open>iswap\<close>
  exchanges byte by byte. The comparison function is the caller's, a parameter. Indices are
  the C \<open>long\<close> values, as integers; reading an element outside the array is \<open>None\<close>.

  The locale \<open>comparison\<close> is what \<open>qsort\<close> and \<open>bsearch\<close> require of the comparison function
  on the elements of the array; \<open>strcmp\<close> on strings interprets it.
\<close>

section \<open>Definitions\<close>

definition elem :: "'a list \<Rightarrow> int \<Rightarrow> 'a option" where
  "elem xs i = (if 0 \<le> i \<and> i < int (length xs) then Some (xs ! nat i) else None)"

definition swap_at :: "'a list \<Rightarrow> int \<Rightarrow> int \<Rightarrow> 'a list option" where
  "swap_at xs a b = do {
     x \<leftarrow> elem xs a;
     y \<leftarrow> elem xs b;
     Some (xs[nat a := y, nat b := x])
   }"

text \<open>The minimum search of \<open>isort\<close> over the positions \<open>i\<close> to \<open>n - 1\<close>, and the selection sort of
  the \<open>nmemb\<close> elements from position \<open>b\<close>.\<close>

fun min_from :: "('a \<Rightarrow> 'a \<Rightarrow> int) \<Rightarrow> 'a list \<Rightarrow> int \<Rightarrow> int \<Rightarrow> nat \<Rightarrow> int option" where
  "min_from cmp xs m tmp 0 = Some m"
| "min_from cmp xs m tmp (Suc k) = do {
     t \<leftarrow> elem xs tmp;
     x \<leftarrow> elem xs m;
     min_from cmp xs (if cmp t x < 0 then tmp else m) (tmp + 1) k
   }"

fun isort :: "('a \<Rightarrow> 'a \<Rightarrow> int) \<Rightarrow> 'a list \<Rightarrow> int \<Rightarrow> nat \<Rightarrow> 'a list option" where
  "isort cmp xs b (Suc (Suc k)) = do {
     m \<leftarrow> min_from cmp xs b (b + 1) (Suc k);
     ys \<leftarrow> swap_at xs m b;
     isort cmp ys (b + 1) (Suc k)
   }"
| "isort cmp xs b _ = Some xs"

text \<open>The two scans of the partition: \<open>while (compar(++i, v) < 0)\<close> and
  \<open>while (compar(--j, v) > 0) if (j == l) break\<close>, where \<open>v\<close> is the element at \<open>r\<close>.\<close>

function scan_up :: "('a \<Rightarrow> 'a \<Rightarrow> int) \<Rightarrow> 'a list \<Rightarrow> int \<Rightarrow> int \<Rightarrow> int option" where
  "scan_up cmp xs r i =
     (if 0 \<le> i + 1 \<and> i + 1 < int (length xs) \<and> 0 \<le> r \<and> r < int (length xs) then
        if cmp (xs ! nat (i + 1)) (xs ! nat r) < 0 then scan_up cmp xs r (i + 1) else Some (i + 1)
      else None)"
  by pat_completeness auto
termination
  by (relation "measure (\<lambda>(cmp, xs, r, i). nat (int (length xs) - i))") auto

function scan_down :: "('a \<Rightarrow> 'a \<Rightarrow> int) \<Rightarrow> 'a list \<Rightarrow> int \<Rightarrow> int \<Rightarrow> int \<Rightarrow> int option" where
  "scan_down cmp xs r l j =
     (if 0 \<le> j - 1 \<and> j - 1 < int (length xs) \<and> 0 \<le> r \<and> r < int (length xs) then
        if cmp (xs ! nat (j - 1)) (xs ! nat r) > 0 then
          if j - 1 = l then Some (j - 1) else scan_down cmp xs r l (j - 1)
        else Some (j - 1)
      else None)"
  by pat_completeness auto
termination
  by (relation "measure (\<lambda>(cmp, xs, r, l, j). nat j)") auto

declare scan_up.simps [simp del] scan_down.simps [simp del]

lemma scan_up_gt: "scan_up cmp xs r i = Some k \<Longrightarrow> i < k"
proof (induction cmp xs r i rule: scan_up.induct)
  case (1 cmp xs r i)
  then show ?case by (auto simp: scan_up.simps [of cmp xs r i] split: if_splits)
qed

lemma scan_down_less: "scan_down cmp xs r l j = Some k \<Longrightarrow> k < j"
proof (induction cmp xs r l j rule: scan_down.induct)
  case (1 cmp xs r l j)
  then show ?case by (auto simp: scan_down.simps [of cmp xs r l j] split: if_splits)
qed

text \<open>\<open>if (compar(i, v) == 0) { ++p; swap(p, i); }\<close> and its mirror image: the new \<open>p\<close> and array.\<close>

definition park :: "('a \<Rightarrow> 'a \<Rightarrow> int) \<Rightarrow> 'a list \<Rightarrow> int \<Rightarrow> int \<Rightarrow> int \<Rightarrow> int \<Rightarrow> (int \<times> 'a list) option" where
  "park cmp xs r p' p i = do {
     x \<leftarrow> elem xs i;
     v \<leftarrow> elem xs r;
     if cmp x v = 0 then map_option (Pair p') (swap_at xs p' i) else Some (p, xs)
   }"

text \<open>The endless loop of \<open>Qsort\<close>, left by its \<open>break\<close>: it returns \<open>i\<close>, \<open>p\<close>, \<open>q\<close> and the array.\<close>

function part_loop :: "('a \<Rightarrow> 'a \<Rightarrow> int) \<Rightarrow> 'a list \<Rightarrow> int \<Rightarrow> int \<Rightarrow> int \<Rightarrow> int \<Rightarrow> int \<Rightarrow> int \<Rightarrow>
    (int \<times> int \<times> int \<times> 'a list) option" where
  "part_loop cmp xs l r i j p q =
     (case scan_up cmp xs r i of None \<Rightarrow> None | Some i' \<Rightarrow>
      case scan_down cmp xs r l j of None \<Rightarrow> None | Some j' \<Rightarrow>
      if i' \<ge> j' then Some (i', p, q, xs)
      else
        (case swap_at xs i' j' of None \<Rightarrow> None | Some xs1 \<Rightarrow>
         case park cmp xs1 r (p + 1) p i' of None \<Rightarrow> None | Some (p', xs2) \<Rightarrow>
         case park cmp xs2 r (q - 1) q j' of None \<Rightarrow> None | Some (q', xs3) \<Rightarrow>
         part_loop cmp xs3 l r i' j' p' q'))"
  by pat_completeness auto
termination
  by (relation "measure (\<lambda>(cmp, xs, l, r, i, j, p, q). nat (j - i))")
    (auto dest!: scan_up_gt scan_down_less)

text \<open>\<open>for (k = l; k < p; ++k, --j) swap(k, j)\<close> with \<open>n\<close> iterations, and its mirror image.\<close>

fun swap_in :: "nat \<Rightarrow> int \<Rightarrow> int \<Rightarrow> 'a list \<Rightarrow> (int \<times> 'a list) option" where
  "swap_in 0 k j xs = Some (j, xs)"
| "swap_in (Suc n) k j xs = do { ys \<leftarrow> swap_at xs k j; swap_in n (k + 1) (j - 1) ys }"

fun swap_out :: "nat \<Rightarrow> int \<Rightarrow> int \<Rightarrow> 'a list \<Rightarrow> (int \<times> 'a list) option" where
  "swap_out 0 k i xs = Some (i, xs)"
| "swap_out (Suc n) k i xs = do { ys \<leftarrow> swap_at xs k i; swap_out n (k - 1) (i + 1) ys }"

text \<open>\<open>Qsort\<close> with a bound on the depth of its recursion; running out of it is \<open>None\<close>.\<close>

fun Qsort :: "nat \<Rightarrow> ('a \<Rightarrow> 'a \<Rightarrow> int) \<Rightarrow> 'a list \<Rightarrow> int \<Rightarrow> int \<Rightarrow> 'a list option" where
  "Qsort 0 cmp xs l r = None"
| "Qsort (Suc fuel) cmp xs l r =
     (if r - l < 10 then isort cmp xs l (nat (r - l + 1))
      else do {
        (i, p, q, xs1) \<leftarrow> part_loop cmp xs l r (l - 1) r (l - 1) r;
        xs2 \<leftarrow> swap_at xs1 i r;
        (j, xs3) \<leftarrow> swap_in (nat (p - l)) l (i - 1) xs2;
        (i', xs4) \<leftarrow> swap_out (nat (r - 1 - q)) (r - 1) (i + 1) xs3;
        xs5 \<leftarrow> (if j > l then Qsort fuel cmp xs4 l j else Some xs4);
        if r > i' then Qsort fuel cmp xs5 i' r else Some xs5
      })"

definition qsort :: "('a \<Rightarrow> 'a \<Rightarrow> int) \<Rightarrow> 'a list \<Rightarrow> 'a list option" where
  "qsort cmp xs = Qsort (Suc (length xs)) cmp xs 0 (int (length xs) - 1)"

text \<open>\<open>bsearch\<close> over the \<open>nmemb\<close> elements from position \<open>b\<close>; the result is a position or NULL.\<close>

function bsearch :: "('k \<Rightarrow> 'a \<Rightarrow> int) \<Rightarrow> 'k \<Rightarrow> 'a list \<Rightarrow> nat \<Rightarrow> nat \<Rightarrow> nat option option" where
  "bsearch cmp key xs b nmemb =
     (if nmemb = 0 then Some None
      else
        (let m = nmemb div 2; p = b + m in
         if p < length xs then
           (let tmp = cmp key (xs ! p) in
            if tmp < 0 then bsearch cmp key xs b m
            else if tmp > 0 then bsearch cmp key xs (p + 1) (nmemb - (m + 1))
            else Some (Some p))
         else None))"
  by pat_completeness auto
termination
  by (relation "measure (\<lambda>(cmp, key, xs, b, nmemb). nmemb)") auto

declare part_loop.simps [simp del] bsearch.simps [simp del]

section \<open>Rearrangements\<close>

text \<open>Arrays that swaps inside the positions \<open>l\<close> to \<open>r\<close> lead to.\<close>

inductive shuf :: "int \<Rightarrow> int \<Rightarrow> 'a list \<Rightarrow> 'a list \<Rightarrow> bool" for l r xs where
  refl: "shuf l r xs xs"
| swap: "shuf l r xs ys \<Longrightarrow> swap_at ys a b = Some zs \<Longrightarrow> l \<le> a \<Longrightarrow> a \<le> r \<Longrightarrow> l \<le> b \<Longrightarrow> b \<le> r \<Longrightarrow>
    shuf l r xs zs"

definition valid :: "'a list \<Rightarrow> int \<Rightarrow> bool" where
  "valid xs i \<longleftrightarrow> 0 \<le> i \<and> i < int (length xs)"

text \<open>The element at a valid position.\<close>

definition at' :: "'a list \<Rightarrow> int \<Rightarrow> 'a" where
  "at' xs i = xs ! nat i"

lemma elem_valid: "elem xs i = (if valid xs i then Some (at' xs i) else None)"
  by (simp add: elem_def valid_def at'_def)

lemma swap_at_valid:
  "valid xs a \<Longrightarrow> valid xs b \<Longrightarrow> swap_at xs a b = Some (xs[nat a := at' xs b, nat b := at' xs a])"
  by (simp add: swap_at_def elem_valid)

lemma swap_at_Some: "swap_at xs a b = Some ys \<longleftrightarrow>
    valid xs a \<and> valid xs b \<and> ys = xs[nat a := at' xs b, nat b := at' xs a]"
  by (auto simp: swap_at_def elem_valid split: if_splits Option.bind_splits)

lemma at'_swap:
  "valid xs a \<Longrightarrow> valid xs b \<Longrightarrow> valid xs k \<Longrightarrow>
     at' (xs[nat a := at' xs b, nat b := at' xs a]) k =
       (if k = b then at' xs a else if k = a then at' xs b else at' xs k)"
  by (auto simp: at'_def valid_def nth_list_update)

lemma valid_update [simp]: "valid (xs[i := x]) k = valid xs k"
  by (simp add: valid_def)

lemma valid_length: "length ys = length xs \<Longrightarrow> valid ys k = valid xs k"
  by (simp add: valid_def)

lemma shuf_length: "shuf l r xs ys \<Longrightarrow> length ys = length xs"
  by (induction rule: shuf.induct) (auto simp: swap_at_Some)

lemma shuf_mset: "shuf l r xs ys \<Longrightarrow> mset ys = mset xs"
  by (induction rule: shuf.induct)
    (auto simp: swap_at_Some valid_def at'_def mset_swap)

lemma shuf_outside: "shuf l r xs ys \<Longrightarrow> valid xs k \<Longrightarrow> k < l \<or> r < k \<Longrightarrow> at' ys k = at' xs k"
proof (induction rule: shuf.induct)
  case (swap ys a b zs)
  then have v: "valid ys k" using valid_length [OF shuf_length [OF swap.hyps(1)]] by simp
  with swap show ?case by (auto simp: swap_at_Some at'_swap)
qed simp

lemma shuf_all:
  assumes "shuf l r xs ys" "\<And>k. l \<le> k \<Longrightarrow> k \<le> r \<Longrightarrow> valid xs k \<Longrightarrow> P (at' xs k)"
  shows "l \<le> k \<Longrightarrow> k \<le> r \<Longrightarrow> valid xs k \<Longrightarrow> P (at' ys k)"
  using assms
proof (induction arbitrary: k rule: shuf.induct)
  case (swap ys a b zs)
  then have v: "valid ys k" "valid ys a" "valid ys b" "valid xs a" "valid xs b"
    using valid_length [OF shuf_length [OF swap.hyps(1)]] by (auto simp: swap_at_Some)
  have "P (at' ys k)" "P (at' ys a)" "P (at' ys b)"
    using swap.IH swap.prems swap.hyps v by blast+
  with swap.hyps(2) v show ?case by (auto simp: swap_at_Some at'_swap)
qed simp

lemma shuf_trans: "shuf l r ys zs \<Longrightarrow> shuf l r xs ys \<Longrightarrow> shuf l r xs zs"
  by (induction rule: shuf.induct) (auto intro: shuf.swap)

lemma shuf_mono: "shuf l r xs ys \<Longrightarrow> l' \<le> l \<Longrightarrow> r \<le> r' \<Longrightarrow> shuf l' r' xs ys"
  by (induction rule: shuf.induct) (auto intro: shuf.intros)

lemma shuf_one: "swap_at xs a b = Some ys \<Longrightarrow> l \<le> a \<Longrightarrow> a \<le> r \<Longrightarrow> l \<le> b \<Longrightarrow> b \<le> r \<Longrightarrow> shuf l r xs ys"
  by (rule shuf.swap [OF shuf.refl])

lemma shuf_set: "shuf l r xs ys \<Longrightarrow> set ys = set xs"
  by (metis shuf_mset set_mset_mset)

lemma at'_in_set: "valid xs k \<Longrightarrow> at' xs k \<in> set xs"
  by (auto simp: valid_def at'_def nat_less_iff)

text \<open>
  Moving the \<open>p - l\<close> first elements of a zone \<open>l..p\<close> to the end of the positions \<open>l..h\<close>: the
  elements that satisfy \<open>E\<close> fill the top.
\<close>

lemma swap_in_result:
  assumes "\<And>m. l \<le> m \<Longrightarrow> m \<le> h \<Longrightarrow> valid xs m" "p \<le> h" "int t + int n = p - l"
    and "\<And>m. l + min (int t) (h - p) \<le> m \<Longrightarrow> m \<le> h \<Longrightarrow> \<not> (p < m \<and> m \<le> h - int t) \<Longrightarrow> E (at' xs m)"
  shows "\<exists>ys. swap_in n (l + int t) (h - int t) xs = Some (h - (p - l), ys) \<and> shuf l h xs ys \<and>
    (\<forall>m. h - (p - l) < m \<longrightarrow> m \<le> h \<longrightarrow> E (at' ys m))"
  using assms
proof (induction n arbitrary: t xs)
  case 0
  have "h - int t = h - (p - l)" using 0(3) by simp
  then show ?case using 0 by (intro exI [of _ xs]) (auto simp: shuf.refl)
next
  case (Suc n)
  let ?k = "l + int t" and ?j = "h - int t"
  have b: "l \<le> ?k" "?k < p" "l < ?j" "?j \<le> h" using Suc.prems(2,3) by auto
  have v: "valid xs ?k" "valid xs ?j" using Suc.prems(1) b Suc.prems(2) by auto
  define ys where "ys = xs[nat ?k := at' xs ?j, nat ?j := at' xs ?k]"
  have sw: "swap_at xs ?k ?j = Some ys" using v by (simp add: swap_at_valid ys_def)
  have at: "at' ys m = (if m = ?j then at' xs ?k else if m = ?k then at' xs ?j else at' xs m)"
    if "l \<le> m" "m \<le> h" for m
    using at'_swap [OF v Suc.prems(1) [OF that]] by (simp add: ys_def)
  have E: "E (at' ys m)" if m: "l + min (int (Suc t)) (h - p) \<le> m" "m \<le> h" "\<not> (p < m \<and> m \<le> h - int (Suc t))" for m
  proof -
    have lm: "l \<le> m" using m(1) Suc.prems(2) by (simp add: min_def split: if_splits)
    have ek: "E (at' xs ?k)" using b Suc.prems(2) by (intro Suc.prems(4)) auto
    show ?thesis
    proof (cases "m = ?j \<or> m = ?k")
      case True
      have "E (at' xs ?j)" if "int t \<ge> h - p"
        using that b Suc.prems(2,3) by (intro Suc.prems(4)) auto
      moreover have "m \<noteq> ?k" if "int t < h - p" using m(1) that by auto
      ultimately show ?thesis using True at [OF lm m(2)] ek by (cases "m = ?j"; cases "int t < h - p") auto
    next
      case False
      have "E (at' xs m)" using m False lm by (intro Suc.prems(4)) auto
      with False at [OF lm m(2)] show ?thesis by simp
    qed
  qed
  have "\<exists>zs. swap_in n (l + int (Suc t)) (h - int (Suc t)) ys = Some (h - (p - l), zs) \<and> shuf l h ys zs \<and>
    (\<forall>m. h - (p - l) < m \<longrightarrow> m \<le> h \<longrightarrow> E (at' zs m))"
  proof (rule Suc.IH)
    show "valid ys m" if "l \<le> m" "m \<le> h" for m using Suc.prems(1) [OF that] by (simp add: ys_def)
    show "int (Suc t) + int n = p - l" using Suc.prems(3) by simp
  qed (use Suc.prems(2) E in auto)
  then obtain zs where zs: "swap_in n (?k + 1) (?j - 1) ys = Some (h - (p - l), zs)" "shuf l h ys zs"
    "\<forall>m. h - (p - l) < m \<longrightarrow> m \<le> h \<longrightarrow> E (at' zs m)" by (auto simp: algebra_simps)
  have "shuf l h xs ys" using sw b Suc.prems(2) by (intro shuf_one [of xs ?k ?j]) auto
  with zs sw show ?case by (intro exI [of _ zs]) (auto intro: shuf_trans)
qed

lemma swap_out_result:
  assumes "\<And>m. l \<le> m \<Longrightarrow> m \<le> h \<Longrightarrow> valid xs m" "l - 1 \<le> q" "int t + int n = h - q"
    and "\<And>m. l \<le> m \<Longrightarrow> m \<le> h - min (int t) (max 0 (q - l)) \<Longrightarrow> \<not> (l + int t \<le> m \<and> m < q) \<Longrightarrow> E (at' xs m)"
  shows "\<exists>ys. swap_out n (h - int t) (l + int t) xs = Some (l + (h - q), ys) \<and> shuf l h xs ys \<and>
    (\<forall>m. l \<le> m \<longrightarrow> m < l + (h - q) \<longrightarrow> m \<le> h \<longrightarrow> E (at' ys m))"
  using assms
proof (induction n arbitrary: t xs)
  case 0
  have "l + int t = l + (h - q)" using 0(3) by simp
  then show ?case using 0 by (intro exI [of _ xs]) (auto simp: shuf.refl)
next
  case (Suc n)
  let ?k = "h - int t" and ?i = "l + int t"
  have b: "?k \<le> h" "q < ?k" "?i \<le> h" "l \<le> ?i" using Suc.prems(2,3) by auto
  have v: "valid xs ?k" "valid xs ?i" using Suc.prems(1) b Suc.prems(2) by auto
  define ys where "ys = xs[nat ?k := at' xs ?i, nat ?i := at' xs ?k]"
  have sw: "swap_at xs ?k ?i = Some ys" using v by (simp add: swap_at_valid ys_def)
  have at: "at' ys m = (if m = ?i then at' xs ?k else if m = ?k then at' xs ?i else at' xs m)"
    if "l \<le> m" "m \<le> h" for m
    using at'_swap [OF v Suc.prems(1) [OF that]] by (simp add: ys_def)
  have E: "E (at' ys m)" if m: "l \<le> m" "m \<le> h - min (int (Suc t)) (max 0 (q - l))"
      "\<not> (l + int (Suc t) \<le> m \<and> m < q)" for m
  proof -
    have mh: "m \<le> h" using m(2) by (simp add: min_def max_def split: if_splits)
    have ek: "E (at' xs ?k)" using b Suc.prems(2) by (intro Suc.prems(4)) auto
    show ?thesis
    proof (cases "m = ?i \<or> m = ?k")
      case True
      have "E (at' xs ?i)" if "int t \<ge> q - l"
        using that b Suc.prems(2,3) by (intro Suc.prems(4)) (auto simp: max_def min_def)
      moreover have "m \<noteq> ?k" if "int t < q - l" using m(2) that by (auto simp: max_def min_def)
      ultimately show ?thesis using True at [OF m(1) mh] ek by (cases "m = ?i"; cases "int t < q - l") auto
    next
      case False
      have "E (at' xs m)" using m False mh by (intro Suc.prems(4)) (auto simp: max_def min_def split: if_splits)
      with False at [OF m(1) mh] show ?thesis by simp
    qed
  qed
  have "\<exists>zs. swap_out n (h - int (Suc t)) (l + int (Suc t)) ys = Some (l + (h - q), zs) \<and> shuf l h ys zs \<and>
    (\<forall>m. l \<le> m \<longrightarrow> m < l + (h - q) \<longrightarrow> m \<le> h \<longrightarrow> E (at' zs m))"
  proof (rule Suc.IH)
    show "valid ys m" if "l \<le> m" "m \<le> h" for m using Suc.prems(1) [OF that] by (simp add: ys_def)
    show "int (Suc t) + int n = h - q" using Suc.prems(3) by simp
  qed (use Suc.prems(2) E in auto)
  then obtain zs where zs: "swap_out n (?k - 1) (?i + 1) ys = Some (l + (h - q), zs)" "shuf l h ys zs"
    "\<forall>m. l \<le> m \<longrightarrow> m < l + (h - q) \<longrightarrow> m \<le> h \<longrightarrow> E (at' zs m)" by (auto simp: algebra_simps)
  have "shuf l h xs ys" using sw b Suc.prems(2) by (intro shuf_one [of xs ?k ?i]) auto
  with zs sw show ?case by (intro exI [of _ zs]) (auto intro: shuf_trans)
qed

section \<open>Sorting by a comparison\<close>

locale comparison =
  fixes cmp :: "'a \<Rightarrow> 'a \<Rightarrow> int" and elems :: "'a set"
  assumes cmp_refl: "x \<in> elems \<Longrightarrow> cmp x x = 0"
    and cmp_anti: "x \<in> elems \<Longrightarrow> y \<in> elems \<Longrightarrow> cmp x y < 0 \<longleftrightarrow> 0 < cmp y x"
    and cmp_trans: "x \<in> elems \<Longrightarrow> y \<in> elems \<Longrightarrow> z \<in> elems \<Longrightarrow>
      cmp x y \<le> 0 \<Longrightarrow> cmp y z \<le> 0 \<Longrightarrow> cmp x z \<le> 0"
begin

lemma cmp_eq: "x \<in> elems \<Longrightarrow> y \<in> elems \<Longrightarrow> cmp x y = 0 \<longleftrightarrow> cmp y x = 0"
  using cmp_anti [of x y] cmp_anti [of y x] by linarith

lemma cmp_ge: "x \<in> elems \<Longrightarrow> y \<in> elems \<Longrightarrow> 0 \<le> cmp x y \<longleftrightarrow> cmp y x \<le> 0"
  using cmp_anti [of x y] by linarith

definition srt :: "int \<Rightarrow> int \<Rightarrow> 'a list \<Rightarrow> bool" where
  "srt l r xs \<longleftrightarrow> (\<forall>a b. l \<le> a \<longrightarrow> a < b \<longrightarrow> b \<le> r \<longrightarrow> cmp (at' xs a) (at' xs b) \<le> 0)"

lemma min_from_result:
  assumes "set xs \<subseteq> elems" "valid xs m" "0 \<le> tmp" "tmp + int k \<le> int (length xs)"
  shows "\<exists>m'. min_from cmp xs m tmp k = Some m' \<and> valid xs m' \<and>
    (m' = m \<or> tmp \<le> m' \<and> m' < tmp + int k) \<and> cmp (at' xs m') (at' xs m) \<le> 0 \<and>
    (\<forall>i. tmp \<le> i \<longrightarrow> i < tmp + int k \<longrightarrow> cmp (at' xs m') (at' xs i) \<le> 0)"
  using assms(2-4)
proof (induction k arbitrary: m tmp)
  case 0
  then show ?case using assms(1) cmp_refl at'_in_set by fastforce
next
  case (Suc k)
  let ?m = "if cmp (at' xs tmp) (at' xs m) < 0 then tmp else m"
  have v: "valid xs tmp" "valid xs ?m" using Suc.prems by (auto simp: valid_def)
  have e: "at' xs i \<in> elems" if "valid xs i" for i using that assms(1) at'_in_set by blast
  from Suc.IH [OF v(2), of "tmp + 1"] Suc.prems obtain m' where
    m': "min_from cmp xs ?m (tmp + 1) k = Some m'" "valid xs m'"
      "m' = ?m \<or> tmp + 1 \<le> m' \<and> m' < tmp + 1 + int k" "cmp (at' xs m') (at' xs ?m) \<le> 0"
      "\<forall>i. tmp + 1 \<le> i \<longrightarrow> i < tmp + 1 + int k \<longrightarrow> cmp (at' xs m') (at' xs i) \<le> 0" by auto
  have "cmp (at' xs ?m) (at' xs m) \<le> 0" "cmp (at' xs ?m) (at' xs tmp) \<le> 0"
    using cmp_refl [OF e [OF Suc.prems(1)]] cmp_refl [OF e [OF v(1)]]
      cmp_ge [OF e [OF v(1)] e [OF Suc.prems(1)]] by auto
  then have "cmp (at' xs m') (at' xs m) \<le> 0" "cmp (at' xs m') (at' xs tmp) \<le> 0"
    using cmp_trans m'(2,4) e v Suc.prems(1) by blast+
  moreover have "min_from cmp xs m tmp (Suc k) = Some m'"
    using m'(1) v(1) Suc.prems(1) by (simp add: elem_valid)
  moreover have "cmp (at' xs m') (at' xs i) \<le> 0" if "tmp \<le> i" "i < tmp + int (Suc k)" for i
    using that m'(5) \<open>cmp (at' xs m') (at' xs tmp) \<le> 0\<close> by (cases "i = tmp") auto
  ultimately show ?case using m'(2,3) by (intro exI [of _ m']) (auto split: if_splits)
qed

lemma isort_result:
  assumes "set xs \<subseteq> elems" "0 \<le> b" "b + int n \<le> int (length xs)"
  shows "\<exists>ys. isort cmp xs b n = Some ys \<and> shuf b (b + int n - 1) xs ys \<and> srt b (b + int n - 1) ys"
  using assms
proof (induction n arbitrary: xs b)
  case 0
  then show ?case by (auto simp: srt_def intro: shuf.refl)
next
  case (Suc n)
  show ?case
  proof (cases n)
    case 0
    then show ?thesis by (auto simp: srt_def intro: shuf.refl)
  next
    case (Suc k)
    have vb: "valid xs b" using Suc.prems by (simp add: valid_def)
    from min_from_result [OF Suc.prems(1) vb, of "b + 1" n] Suc.prems obtain m where
      m: "min_from cmp xs b (b + 1) n = Some m" "valid xs m" "m = b \<or> b + 1 \<le> m \<and> m < b + 1 + int n"
        "cmp (at' xs m) (at' xs b) \<le> 0"
        "\<forall>i. b + 1 \<le> i \<longrightarrow> i < b + 1 + int n \<longrightarrow> cmp (at' xs m) (at' xs i) \<le> 0" by auto
    define ys where "ys = xs[nat m := at' xs b, nat b := at' xs m]"
    have sw: "swap_at xs m b = Some ys" using m(2) vb by (simp add: swap_at_valid ys_def)
    have s1: "shuf b (b + int (Suc n) - 1) xs ys"
      using sw m(3) by (intro shuf_one [of xs m b]) auto
    have ly: "length ys = length xs" by (simp add: ys_def)
    have ye: "set ys \<subseteq> elems" using shuf_set [OF s1] Suc.prems(1) by simp
    from Suc.IH [OF ye, of "b + 1"] Suc.prems ly obtain zs where
      zs: "isort cmp ys (b + 1) n = Some zs" "shuf (b + 1) (b + 1 + int n - 1) ys zs"
        "srt (b + 1) (b + 1 + int n - 1) zs" by auto
    have s2: "shuf b (b + int (Suc n) - 1) xs zs"
      using shuf_trans [OF shuf_mono [OF zs(2), of b "b + int (Suc n) - 1"] s1] by simp
    have yb: "at' ys b = at' xs m" using at'_swap [of xs m b b] m(2) vb by (simp add: ys_def)
    have zb: "at' zs b = at' xs m"
      using shuf_outside [OF zs(2), of b] vb ly yb by (simp add: valid_def)
    have low: "cmp (at' xs m) (at' ys i) \<le> 0" if "b + 1 \<le> i" "i < b + 1 + int n" for i
    proof -
      have "valid xs i" using that Suc.prems by (auto simp: valid_def)
      then have "at' ys i = (if i = m then at' xs b else at' xs i)"
        using at'_swap [of xs m b i] m(2) vb that by (simp add: ys_def)
      then show ?thesis using m(4,5) that by auto
    qed
    have lowz: "cmp (at' xs m) (at' zs i) \<le> 0" if "b + 1 \<le> i" "i \<le> b + 1 + int n - 1" for i
    proof (rule shuf_all [OF zs(2), where P = "\<lambda>x. cmp (at' xs m) x \<le> 0"])
      show "valid ys i" using that Suc.prems ly by (auto simp: valid_def)
    qed (use low that in auto)
    have "srt b (b + int (Suc n) - 1) zs"
      unfolding srt_def
    proof (intro allI impI)
      fix a c assume ac: "b \<le> a" "a < c" "c \<le> b + int (Suc n) - 1"
      show "cmp (at' zs a) (at' zs c) \<le> 0"
      proof (cases "a = b")
        case True
        with ac zb lowz [of c] show ?thesis by simp
      next
        case False
        with ac zs(3) show ?thesis by (auto simp: srt_def)
      qed
    qed
    moreover have "isort cmp xs b (Suc n) = Some zs" using m(1) sw zs(1) Suc by simp
    ultimately show ?thesis using s2 by blast
  qed
qed

text \<open>The scans stop at the first element on their way that is not on its own side of \<open>v\<close>.\<close>

lemma scan_up_result:
  assumes "valid xs r" "0 \<le> i + 1" "i < s" "s \<le> r" "0 \<le> cmp (at' xs s) (at' xs r)"
  shows "\<exists>k. scan_up cmp xs r i = Some k \<and> i < k \<and> k \<le> s \<and> 0 \<le> cmp (at' xs k) (at' xs r) \<and>
    (\<forall>m. i < m \<longrightarrow> m < k \<longrightarrow> cmp (at' xs m) (at' xs r) < 0)"
  using assms
proof (induction "nat (s - i)" arbitrary: i rule: less_induct)
  case less
  have step: "scan_up cmp xs r i = (if cmp (at' xs (i + 1)) (at' xs r) < 0 then scan_up cmp xs r (i + 1)
      else Some (i + 1))"
    using less.prems by (simp add: scan_up.simps [of cmp xs r i] valid_def at'_def)
  show ?case
  proof (cases "cmp (at' xs (i + 1)) (at' xs r) < 0")
    case True
    then have "i + 1 < s" using less.prems by (cases "i + 1 = s") auto
    with less.prems less.hyps [of "i + 1"] obtain k where
      k: "scan_up cmp xs r (i + 1) = Some k" "i + 1 < k" "k \<le> s" "0 \<le> cmp (at' xs k) (at' xs r)"
        "\<forall>m. i + 1 < m \<longrightarrow> m < k \<longrightarrow> cmp (at' xs m) (at' xs r) < 0" by auto
    have "cmp (at' xs m) (at' xs r) < 0" if "i < m" "m < k" for m
      using that k(5) True by (cases "m = i + 1") auto
    with k step True show ?thesis by auto
  next
    case False
    with step less.prems show ?thesis by auto
  qed
qed

lemma scan_down_result:
  assumes "valid xs r" "0 \<le> l" "l < j" "j \<le> r"
  shows "\<exists>k. scan_down cmp xs r l j = Some k \<and> l \<le> k \<and> k < j \<and>
    (cmp (at' xs k) (at' xs r) \<le> 0 \<or> k = l) \<and>
    (\<forall>m. k < m \<longrightarrow> m < j \<longrightarrow> 0 < cmp (at' xs m) (at' xs r))"
  using assms
proof (induction "nat (j - l)" arbitrary: j rule: less_induct)
  case less
  have step: "scan_down cmp xs r l j = (if 0 < cmp (at' xs (j - 1)) (at' xs r) then
      if j - 1 = l then Some (j - 1) else scan_down cmp xs r l (j - 1) else Some (j - 1))"
    using less.prems by (simp add: scan_down.simps [of cmp xs r l j] valid_def at'_def)
  show ?case
  proof (cases "0 < cmp (at' xs (j - 1)) (at' xs r) \<and> j - 1 \<noteq> l")
    case True
    with less.prems less.hyps [of "j - 1"] obtain k where
      k: "scan_down cmp xs r l (j - 1) = Some k" "l \<le> k" "k < j - 1"
        "cmp (at' xs k) (at' xs r) \<le> 0 \<or> k = l"
        "\<forall>m. k < m \<longrightarrow> m < j - 1 \<longrightarrow> 0 < cmp (at' xs m) (at' xs r)" by auto
    have "0 < cmp (at' xs m) (at' xs r)" if "k < m" "m < j" for m
      using that k(5) True by (cases "m = j - 1") auto
    with k step True show ?thesis by auto
  next
    case False
    with step less.prems show ?thesis by (auto split: if_splits)
  qed
qed

text \<open>The four zones of the array during the partition: equal, less, unseen, greater, equal.\<close>

definition zones :: "'a list \<Rightarrow> int \<Rightarrow> int \<Rightarrow> int \<Rightarrow> int \<Rightarrow> int \<Rightarrow> int \<Rightarrow> bool" where
  "zones xs l r i j p q \<longleftrightarrow>
     (\<forall>k. l \<le> k \<longrightarrow> k \<le> p \<longrightarrow> cmp (at' xs k) (at' xs r) = 0) \<and>
     (\<forall>k. p < k \<longrightarrow> k \<le> i \<longrightarrow> cmp (at' xs k) (at' xs r) < 0) \<and>
     (\<forall>k. j \<le> k \<longrightarrow> k < q \<longrightarrow> 0 < cmp (at' xs k) (at' xs r)) \<and>
     (\<forall>k. q \<le> k \<longrightarrow> k \<le> r \<longrightarrow> cmp (at' xs k) (at' xs r) = 0)"

lemma park_up:
  assumes "valid xs r" "0 \<le> l" "l - 1 \<le> p" "p < i" "i < j" "j < r" "j < q" "q \<le> r"
    and z: "zones xs l r (i - 1) (j + 1) p q" and le: "cmp (at' xs i) (at' xs r) \<le> 0"
    and ge: "0 \<le> cmp (at' xs j) (at' xs r)"
  shows "\<exists>p' ys. park cmp xs r (p + 1) p i = Some (p', ys) \<and> l - 1 \<le> p' \<and> p' \<le> i \<and>
    zones ys l r i (j + 1) p' q \<and> shuf l r xs ys \<and> at' ys r = at' xs r \<and> at' ys j = at' xs j"
proof -
  have v: "valid xs i" "valid xs j" "valid xs (p + 1)" using assms by (auto simp: valid_def)
  have vk: "valid xs k" if "l \<le> k" "k \<le> r" for k using that assms by (auto simp: valid_def)
  show ?thesis
  proof (cases "cmp (at' xs i) (at' xs r) = 0")
    case True
    define ys where "ys = xs[nat (p + 1) := at' xs i, nat i := at' xs (p + 1)]"
    have sw: "swap_at xs (p + 1) i = Some ys" using v by (simp add: swap_at_valid ys_def)
    have at: "at' ys k = (if k = i then at' xs (p + 1) else if k = p + 1 then at' xs i else at' xs k)"
      if "l \<le> k" "k \<le> r" for k
      using at'_swap [OF v(3,1) vk [OF that]] by (simp add: ys_def)
    have r: "at' ys r = at' xs r" "at' ys j = at' xs j" using at [of r] at [of j] assms by auto
    have "zones ys l r i (j + 1) (p + 1) q"
      unfolding zones_def r
    proof (intro conjI allI impI)
      fix k assume "l \<le> k" "k \<le> p + 1"
      then show "cmp (at' ys k) (at' xs r) = 0"
        using z True at [of k] assms(3-8) unfolding zones_def by (cases "k = p + 1") auto
    next
      fix k assume k: "p + 1 < k" "k \<le> i"
      then have "cmp (at' xs (p + 1)) (at' xs r) < 0" using z unfolding zones_def by auto
      with k show "cmp (at' ys k) (at' xs r) < 0"
        using z at [of k] assms(3-8) unfolding zones_def by (cases "k = i") auto
    next
      fix k assume "j + 1 \<le> k" "k < q"
      then show "0 < cmp (at' ys k) (at' xs r)"
        using z at [of k] assms(3-8) unfolding zones_def by auto
    next
      fix k assume "q \<le> k" "k \<le> r"
      then show "cmp (at' ys k) (at' xs r) = 0"
        using z at [of k] assms(3-8) unfolding zones_def by auto
    qed
    moreover have "shuf l r xs ys" using sw assms by (intro shuf_one [of xs "p + 1" i]) auto
    ultimately show ?thesis
      using True sw v assms r by (intro exI [of _ "p + 1"] exI [of _ ys]) (simp add: park_def elem_valid)
  next
    case False
    with le have lt: "cmp (at' xs i) (at' xs r) < 0" by simp
    have "zones xs l r i (j + 1) p q"
      unfolding zones_def
    proof (intro conjI allI impI)
      fix k assume "p < k" "k \<le> i"
      then show "cmp (at' xs k) (at' xs r) < 0"
        using z lt unfolding zones_def by (cases "k = i") auto
    qed (use z in \<open>auto simp: zones_def\<close>)
    with False v assms show ?thesis
      by (intro exI [of _ p] exI [of _ xs]) (simp add: park_def elem_valid shuf.refl)
  qed
qed

lemma park_down:
  assumes "valid xs r" "0 \<le> l" "l - 1 \<le> p" "p \<le> i" "i < j" "j < r" "j < q" "q \<le> r"
    and z: "zones xs l r i (j + 1) p q" and ge: "0 \<le> cmp (at' xs j) (at' xs r)" and l: "l \<le> i"
  shows "\<exists>q' ys. park cmp xs r (q - 1) q j = Some (q', ys) \<and> j \<le> q' \<and> q' \<le> r \<and>
    zones ys l r i j p q' \<and> shuf l r xs ys \<and> at' ys r = at' xs r"
proof -
  have v: "valid xs j" "valid xs (q - 1)" "valid xs r" using assms by (auto simp: valid_def)
  have vk: "valid xs k" if "l \<le> k" "k \<le> r" for k using that assms by (auto simp: valid_def)
  show ?thesis
  proof (cases "cmp (at' xs j) (at' xs r) = 0")
    case True
    define ys where "ys = xs[nat (q - 1) := at' xs j, nat j := at' xs (q - 1)]"
    have sw: "swap_at xs (q - 1) j = Some ys" using v by (simp add: swap_at_valid ys_def)
    have at: "at' ys k = (if k = j then at' xs (q - 1) else if k = q - 1 then at' xs j else at' xs k)"
      if "l \<le> k" "k \<le> r" for k
      using at'_swap [OF v(2,1) vk [OF that]] by (simp add: ys_def)
    have r: "at' ys r = at' xs r" using at [of r] assms by auto
    have "zones ys l r i j p (q - 1)"
      unfolding zones_def r
    proof (intro conjI allI impI)
      fix k assume "l \<le> k" "k \<le> p"
      then show "cmp (at' ys k) (at' xs r) = 0"
        using z at [of k] assms(3-8) unfolding zones_def by auto
    next
      fix k assume "p < k" "k \<le> i"
      then show "cmp (at' ys k) (at' xs r) < 0"
        using z at [of k] assms(3-8) unfolding zones_def by auto
    next
      fix k assume k: "j \<le> k" "k < q - 1"
      then have "0 < cmp (at' xs (q - 1)) (at' xs r)" using z unfolding zones_def by auto
      with k show "0 < cmp (at' ys k) (at' xs r)"
        using z at [of k] assms(3-8) l unfolding zones_def by (cases "k = j") auto
    next
      fix k assume "q - 1 \<le> k" "k \<le> r"
      then show "cmp (at' ys k) (at' xs r) = 0"
        using z True at [of k] assms(3-8) l unfolding zones_def by (cases "k = q - 1") auto
    qed
    moreover have "shuf l r xs ys" using sw assms by (intro shuf_one [of xs "q - 1" j]) auto
    ultimately show ?thesis
      using True sw v assms r by (intro exI [of _ "q - 1"] exI [of _ ys]) (simp add: park_def elem_valid)
  next
    case False
    with ge have gt: "0 < cmp (at' xs j) (at' xs r)" by simp
    have "zones xs l r i j p q"
      unfolding zones_def
    proof (intro conjI allI impI)
      fix k assume "j \<le> k" "k < q"
      then show "0 < cmp (at' xs k) (at' xs r)"
        using z gt unfolding zones_def by (cases "k = j") auto
    qed (use z in \<open>auto simp: zones_def\<close>)
    with False v assms show ?thesis
      by (intro exI [of _ q] exI [of _ xs]) (simp add: park_def elem_valid shuf.refl)
  qed
qed

lemma part_loop_result:
  assumes "valid xs r" "0 \<le> l" "l - 1 \<le> p" "p \<le> i" "i < j" "l < j" "j \<le> q" "q \<le> r"
    and "zones xs l r i j p q"
  shows "\<exists>i' p' q' ys. part_loop cmp xs l r i j p q = Some (i', p', q', ys) \<and> l \<le> i' \<and> i' \<le> r \<and>
    l - 1 \<le> p' \<and> p' < i' \<and> i' \<le> q' \<and> q' \<le> r \<and> zones ys l r (i' - 1) (i' + 1) p' q' \<and>
    0 \<le> cmp (at' ys i') (at' ys r) \<and> shuf l r xs ys"
  using assms
proof (induction "nat (j - i)" arbitrary: xs i j p q rule: less_induct)
  case less
  note z = less.prems(9)
  have gej: "0 \<le> cmp (at' xs j) (at' xs r)"
    using z less.prems(7,8) unfolding zones_def by (cases "j < q") (auto simp: less_imp_le)
  from scan_up_result [of xs r i j] less.prems gej obtain k where
    k: "scan_up cmp xs r i = Some k" "i < k" "k \<le> j" "0 \<le> cmp (at' xs k) (at' xs r)"
      "\<forall>m. i < m \<longrightarrow> m < k \<longrightarrow> cmp (at' xs m) (at' xs r) < 0" by auto
  from scan_down_result [of xs r l j] less.prems obtain h where
    h: "scan_down cmp xs r l j = Some h" "l \<le> h" "h < j" "cmp (at' xs h) (at' xs r) \<le> 0 \<or> h = l"
      "\<forall>m. h < m \<longrightarrow> m < j \<longrightarrow> 0 < cmp (at' xs m) (at' xs r)" by auto
  have zk: "zones xs l r (k - 1) (h + 1) p q"
    unfolding zones_def
  proof (intro conjI allI impI)
    fix m assume "p < m" "m \<le> k - 1"
    then show "cmp (at' xs m) (at' xs r) < 0"
      using z k(5) unfolding zones_def by (cases "m \<le> i") auto
  next
    fix m assume "h + 1 \<le> m" "m < q"
    then show "0 < cmp (at' xs m) (at' xs r)"
      using z h(5) unfolding zones_def by (cases "j \<le> m") auto
  qed (use z in \<open>auto simp: zones_def\<close>)
  show ?case
  proof (cases "h \<le> k")
    case True
    have "zones xs l r (k - 1) (k + 1) p q"
      using zk True unfolding zones_def by auto
    moreover have "part_loop cmp xs l r i j p q = Some (k, p, q, xs)"
      using k(1) h(1) True by (simp add: part_loop.simps [of cmp xs])
    ultimately show ?thesis
      using less.prems k by (intro exI [of _ k] exI [of _ p] exI [of _ q] exI [of _ xs])
        (auto intro: shuf.refl)
  next
    case False
    then have kh: "k < h" by simp
    have lk: "l \<le> k" using k(2) less.prems(3,4) by linarith
    have le: "cmp (at' xs h) (at' xs r) \<le> 0" using h(4) kh lk by auto
    have v: "valid xs k" "valid xs h" using kh lk h less.prems by (auto simp: valid_def)
    define xs1 where "xs1 = xs[nat k := at' xs h, nat h := at' xs k]"
    have sw: "swap_at xs k h = Some xs1" using v by (simp add: swap_at_valid xs1_def)
    have at1: "at' xs1 m = (if m = h then at' xs k else if m = k then at' xs h else at' xs m)"
      if "l \<le> m" "m \<le> r" for m
      using at'_swap [OF v, of m] that less.prems(1,2) by (simp add: xs1_def valid_def)
    have r1: "at' xs1 r = at' xs r" using at1 [of r] kh h less.prems by auto
    have v1: "valid xs1 r" using less.prems(1) by (simp add: xs1_def)
    have z1: "zones xs1 l r (k - 1) (h + 1) p q"
      unfolding zones_def r1 using zk kh lk h(3) k(2) less.prems
      by (auto simp: zones_def at1)
    have b: "h < r" "h < q" "p < k" using h(3) k(2) less.prems by auto
    have c1: "cmp (at' xs1 k) (at' xs1 r) \<le> 0" "0 \<le> cmp (at' xs1 h) (at' xs1 r)"
      unfolding r1 using at1 [of k] at1 [of h] le k(4) kh lk b by auto
    have s1: "shuf l r xs xs1" using sw kh lk h(3) less.prems by (intro shuf_one [of xs k h]) auto
    from park_up [OF v1 less.prems(2,3) b(3) kh b(1,2) less.prems(8) z1 c1] obtain p' xs2 where
      p2: "park cmp xs1 r (p + 1) p k = Some (p', xs2)" "l - 1 \<le> p'" "p' \<le> k"
        "zones xs2 l r k (h + 1) p' q" "shuf l r xs1 xs2" "at' xs2 r = at' xs1 r" "at' xs2 h = at' xs1 h"
      by blast
    have v2: "valid xs2 r" using v1 valid_length [OF shuf_length [OF p2(5)]] by blast
    have "0 \<le> cmp (at' xs2 h) (at' xs2 r)" using c1(2) p2(6,7) by simp
    from park_down [OF v2 less.prems(2) p2(2,3) kh b(1,2) less.prems(8) p2(4) this lk] obtain q' xs3 where
      p3: "park cmp xs2 r (q - 1) q h = Some (q', xs3)" "h \<le> q'" "q' \<le> r"
        "zones xs3 l r k h p' q'" "shuf l r xs2 xs3" "at' xs3 r = at' xs2 r" by blast
    have v3: "valid xs3 r" using v2 valid_length [OF shuf_length [OF p3(5)]] by blast
    have step: "part_loop cmp xs l r i j p q = part_loop cmp xs3 l r k h p' q'"
      using k(1) h(1) False sw p2(1) p3(1) by (simp add: part_loop.simps [of cmp xs])
    have s3: "shuf l r xs xs3" using s1 p2(5) p3(5) by (blast intro: shuf_trans)
    have "nat (h - k) < nat (j - i)" using kh h(3) k(2) by simp
    then show ?thesis
      unfolding step using less.hyps [of h k xs3 p' q'] v3 less.prems(2) p2(2,3) kh lk p3 s3
      by (auto intro: shuf_trans)
  qed
qed

text \<open>One partition: everything below \<open>j\<close> is at most \<open>v\<close>, everything from \<open>i'\<close> on at least \<open>v\<close>,
  and what lies between is equal to it.\<close>

lemma partition_result:
  assumes "set xs \<subseteq> elems" "valid xs r" "0 \<le> l" "l < r"
  shows "\<exists>i p q xs1 xs2 j xs3 i' xs4 v.
    part_loop cmp xs l r (l - 1) r (l - 1) r = Some (i, p, q, xs1) \<and> swap_at xs1 i r = Some xs2 \<and>
    swap_in (nat (p - l)) l (i - 1) xs2 = Some (j, xs3) \<and>
    swap_out (nat (r - 1 - q)) (r - 1) (i + 1) xs3 = Some (i', xs4) \<and>
    shuf l r xs xs4 \<and> v \<in> elems \<and> l - 1 \<le> j \<and> j < r \<and> l < i' \<and> i' \<le> r + 1 \<and> j < i' \<and>
    (\<forall>m. l \<le> m \<longrightarrow> m \<le> j \<longrightarrow> cmp (at' xs4 m) v \<le> 0) \<and>
    (\<forall>m. j < m \<longrightarrow> m < i' \<longrightarrow> cmp (at' xs4 m) v = 0) \<and>
    (\<forall>m. i' \<le> m \<longrightarrow> m \<le> r \<longrightarrow> 0 \<le> cmp (at' xs4 m) v)"
proof -
  have e: "at' xs r \<in> elems" using assms(1) at'_in_set [OF assms(2)] by blast
  have "zones xs l r (l - 1) r (l - 1) r" using cmp_refl [OF e] by (auto simp: zones_def)
  with part_loop_result [OF assms(2,3), of "l - 1" "l - 1" r r] assms(4) obtain i p q xs1 where
    pl: "part_loop cmp xs l r (l - 1) r (l - 1) r = Some (i, p, q, xs1)" "l \<le> i" "i \<le> r"
      "l - 1 \<le> p" "p < i" "i \<le> q" "q \<le> r" "zones xs1 l r (i - 1) (i + 1) p q"
      "0 \<le> cmp (at' xs1 i) (at' xs1 r)" "shuf l r xs xs1" by auto
  define v where "v = at' xs1 r"
  have vk: "valid xs1 m" if "l \<le> m" "m \<le> r" for m
    using that assms shuf_length [OF pl(10)] by (auto simp: valid_def)
  have ve: "v \<in> elems"
    using assms(1,4) shuf_set [OF pl(10)] at'_in_set [OF vk [of r]] by (auto simp: v_def)
  note z = pl(8) [unfolded zones_def, folded v_def]
  define xs2 where "xs2 = xs1[nat i := at' xs1 r, nat r := at' xs1 i]"
  have sw: "swap_at xs1 i r = Some xs2" using vk pl assms(4) by (simp add: swap_at_valid xs2_def)
  have at2: "at' xs2 m = (if m = i then v else if m = r then at' xs1 i else at' xs1 m)"
    if "l \<le> m" "m \<le> r" for m
    using at'_swap [of xs1 i r m] vk that pl(2,3) assms(4) by (auto simp: xs2_def v_def)
  have v2: "valid xs2 m" if "l \<le> m" "m \<le> r" for m using vk [OF that] by (simp add: xs2_def)
  have s2: "shuf l r xs1 xs2" using sw pl assms(4) by (intro shuf_one [of xs1 i r]) auto
  have vv: "cmp v v = 0" using cmp_refl [OF ve] .
  define j where "j = i - 1 - max 0 (p - l)"
  have "\<exists>xs3. swap_in (nat (p - l)) l (i - 1) xs2 = Some (j, xs3) \<and> shuf l (i - 1) xs2 xs3 \<and>
      (\<forall>m. j < m \<longrightarrow> m \<le> i - 1 \<longrightarrow> cmp (at' xs3 m) v = 0)"
  proof (cases "l \<le> p")
    case True
    have "\<exists>ys. swap_in (nat (p - l)) (l + int 0) (i - 1 - int 0) xs2 = Some (i - 1 - (p - l), ys) \<and>
        shuf l (i - 1) xs2 ys \<and> (\<forall>m. i - 1 - (p - l) < m \<longrightarrow> m \<le> i - 1 \<longrightarrow> cmp (at' ys m) v = 0)"
    proof (rule swap_in_result)
      fix m assume "l + min (int 0) (i - 1 - p) \<le> m" "m \<le> i - 1" "\<not> (p < m \<and> m \<le> i - 1 - int 0)"
      then show "cmp (at' xs2 m) v = 0" using at2 [of m] z pl(2-5) by auto
    qed (use True pl v2 in auto)
    then show ?thesis using True by (simp add: j_def)
  next
    case False
    then show ?thesis by (simp add: j_def shuf.refl)
  qed
  then obtain xs3 where s3: "swap_in (nat (p - l)) l (i - 1) xs2 = Some (j, xs3)" "shuf l (i - 1) xs2 xs3"
    "\<forall>m. j < m \<longrightarrow> m \<le> i - 1 \<longrightarrow> cmp (at' xs3 m) v = 0" by blast
  have v3: "valid xs3 m" if "l \<le> m" "m \<le> r" for m
    using v2 [OF that] valid_length [OF shuf_length [OF s3(2)]] by simp
  have at3: "at' xs3 m = at' xs2 m" if "i \<le> m" "m \<le> r" for m
    using that pl(2) v2 [of m] by (intro shuf_outside [OF s3(2)]) auto
  define i' where "i' = i + 1 + max 0 (r - 1 - q)"
  have "\<exists>xs4. swap_out (nat (r - 1 - q)) (r - 1) (i + 1) xs3 = Some (i', xs4) \<and>
      shuf (i + 1) (r - 1) xs3 xs4 \<and> (\<forall>m. i + 1 \<le> m \<longrightarrow> m < i' \<longrightarrow> m \<le> r - 1 \<longrightarrow> cmp (at' xs4 m) v = 0)"
  proof (cases "q \<le> r - 1")
    case True
    have "\<exists>ys. swap_out (nat (r - 1 - q)) (r - 1 - int 0) (i + 1 + int 0) xs3 =
        Some (i + 1 + (r - 1 - q), ys) \<and> shuf (i + 1) (r - 1) xs3 ys \<and>
        (\<forall>m. i + 1 \<le> m \<longrightarrow> m < i + 1 + (r - 1 - q) \<longrightarrow> m \<le> r - 1 \<longrightarrow> cmp (at' ys m) v = 0)"
    proof (rule swap_out_result)
      fix m assume "i + 1 \<le> m" "m \<le> r - 1 - min (int 0) (max 0 (q - (i + 1)))"
        "\<not> (i + 1 + int 0 \<le> m \<and> m < q)"
      then show "cmp (at' xs3 m) v = 0" using at3 [of m] at2 [of m] z pl(2-7) by auto
    qed (use True pl v3 in auto)
    then show ?thesis using True by (simp add: i'_def)
  next
    case False
    then have "r - 1 - q \<le> 0" by simp
    then show ?thesis by (intro exI [of _ xs3]) (auto simp: i'_def shuf.refl)
  qed
  then obtain xs4 where s4: "swap_out (nat (r - 1 - q)) (r - 1) (i + 1) xs3 = Some (i', xs4)"
    "shuf (i + 1) (r - 1) xs3 xs4"
    "\<forall>m. i + 1 \<le> m \<longrightarrow> m < i' \<longrightarrow> m \<le> r - 1 \<longrightarrow> cmp (at' xs4 m) v = 0" by blast
  have at4: "at' xs4 m = at' xs3 m" if "l \<le> m" "m \<le> r" "m \<le> i \<or> m = r" for m
    using that v3 [of m] by (intro shuf_outside [OF s4(2)]) auto
  have le2: "cmp (at' xs2 m) v \<le> 0" if "l \<le> m" "m \<le> i - 1" for m
    using that at2 [of m] z pl(2-7) by (cases "m \<le> p") (auto simp: less_imp_le)
  have le3: "cmp (at' xs3 m) v \<le> 0" if "l \<le> m" "m \<le> i - 1" for m
  proof (rule shuf_all [OF s3(2), where P = "\<lambda>x. cmp x v \<le> 0"])
    show "valid xs2 m" using that v2 pl(3) by auto
  qed (use le2 that in auto)
  have ge3: "0 \<le> cmp (at' xs3 m) v" if "i \<le> m" "m \<le> r" for m
    using that at2 [of m] at3 [of m] z pl(2-7,9) vv
    by (cases "m < q") (auto simp: less_imp_le v_def)
  have ge4: "0 \<le> cmp (at' xs4 m) v" if "i + 1 \<le> m" "m \<le> r" for m
  proof (cases "m = r")
    case True
    then show ?thesis using that at4 [of m] ge3 [of m] pl(2) by auto
  next
    case False
    show ?thesis
    proof (rule shuf_all [OF s4(2), where P = "\<lambda>x. 0 \<le> cmp x v"])
      show "valid xs3 m" using that v3 pl(2) by auto
    qed (use ge3 that False in auto)
  qed
  have ji: "l - 1 \<le> j" "j \<le> i - 1" "i < i'" "i' \<le> r + 1" "i' \<le> r \<or> i = r"
    using pl(2-7) by (auto simp: j_def i'_def)
  have s: "shuf l r xs xs4"
    using pl(10) s2 shuf_mono [OF s3(2), of l r] shuf_mono [OF s4(2), of l r] pl(2,3)
    by (auto intro: shuf_trans)
  have mid: "cmp (at' xs4 m) v = 0" if "j < m" "m < i'" for m
  proof (cases "m \<le> i")
    case True
    then have "at' xs4 m = at' xs3 m" using at4 [of m] that ji(1) pl(3) by auto
    then show ?thesis using True s3(3) that at3 [of m] at2 [of m] pl(2,3) vv by (cases "m = i") auto
  next
    case False
    then show ?thesis using s4(3) that ji(4,5) by auto
  qed
  have low: "cmp (at' xs4 m) v \<le> 0" if "l \<le> m" "m \<le> j" for m
    using that le3 [of m] at4 [of m] ji pl(3) by auto
  have high: "0 \<le> cmp (at' xs4 m) v" if "i' \<le> m" "m \<le> r" for m
    using that ge4 [of m] ji by auto
  have jr: "j < r" "l < i'" "j < i'" using ji pl(2,3) by auto
  show ?thesis
    by (rule exI [of _ i], rule exI [of _ p], rule exI [of _ q], rule exI [of _ xs1],
        rule exI [of _ xs2], rule exI [of _ j], rule exI [of _ xs3], rule exI [of _ i'],
        rule exI [of _ xs4], rule exI [of _ v])
      (use pl(1) sw s3(1) s4(1) s ve ji jr low mid high in blast)
qed

lemma Qsort_result:
  assumes "set xs \<subseteq> elems" "0 \<le> l" "l \<le> r + 1" "r < int (length xs)" "r - l + 1 < int fuel"
  shows "\<exists>ys. Qsort fuel cmp xs l r = Some ys \<and> shuf l r xs ys \<and> srt l r ys"
  using assms
proof (induction fuel arbitrary: xs l r)
  case 0
  then show ?case by simp
next
  case (Suc fuel)
  show ?case
  proof (cases "r - l < 10")
    case True
    with isort_result [OF Suc.prems(1,2), of "nat (r - l + 1)"] Suc.prems show ?thesis by auto
  next
    case False
    then have vr: "valid xs r" "l < r" using Suc.prems by (auto simp: valid_def)
    from partition_result [OF Suc.prems(1) vr(1) Suc.prems(2) vr(2)]
    obtain i p q xs1 xs2 j xs3 i' xs4 v where
      pt: "part_loop cmp xs l r (l - 1) r (l - 1) r = Some (i, p, q, xs1)" "swap_at xs1 i r = Some xs2"
        "swap_in (nat (p - l)) l (i - 1) xs2 = Some (j, xs3)"
        "swap_out (nat (r - 1 - q)) (r - 1) (i + 1) xs3 = Some (i', xs4)" "shuf l r xs xs4" "v \<in> elems"
        "l - 1 \<le> j" "j < r" "l < i'" "i' \<le> r + 1" "j < i'"
      and le: "\<forall>m. l \<le> m \<longrightarrow> m \<le> j \<longrightarrow> cmp (at' xs4 m) v \<le> 0"
      and eq: "\<forall>m. j < m \<longrightarrow> m < i' \<longrightarrow> cmp (at' xs4 m) v = 0"
      and ge: "\<forall>m. i' \<le> m \<longrightarrow> m \<le> r \<longrightarrow> 0 \<le> cmp (at' xs4 m) v" by blast
    have l4: "length xs4 = length xs" "set xs4 \<subseteq> elems"
      using shuf_length [OF pt(5)] shuf_set [OF pt(5)] Suc.prems(1) by auto
    have "\<exists>xs5. (if j > l then Qsort fuel cmp xs4 l j else Some xs4) = Some xs5 \<and> shuf l j xs4 xs5 \<and> srt l j xs5"
    proof (cases "j > l")
      case True
      then have "\<exists>ys. Qsort fuel cmp xs4 l j = Some ys \<and> shuf l j xs4 ys \<and> srt l j ys"
        using Suc.prems pt(8) l4 by (intro Suc.IH) auto
      with True show ?thesis by simp
    qed (auto simp: shuf.refl srt_def)
    then obtain xs5 where x5: "(if j > l then Qsort fuel cmp xs4 l j else Some xs4) = Some xs5"
      "shuf l j xs4 xs5" "srt l j xs5" by blast
    have l5: "length xs5 = length xs" "set xs5 \<subseteq> elems"
      using shuf_length [OF x5(2)] shuf_set [OF x5(2)] l4 by auto
    have "\<exists>xs6. (if r > i' then Qsort fuel cmp xs5 i' r else Some xs5) = Some xs6 \<and> shuf i' r xs5 xs6 \<and> srt i' r xs6"
    proof (cases "r > i'")
      case True
      then have "\<exists>ys. Qsort fuel cmp xs5 i' r = Some ys \<and> shuf i' r xs5 ys \<and> srt i' r ys"
        using Suc.prems pt(9) l5 by (intro Suc.IH) auto
      with True show ?thesis by simp
    qed (auto simp: shuf.refl srt_def)
    then obtain xs6 where x6: "(if r > i' then Qsort fuel cmp xs5 i' r else Some xs5) = Some xs6"
      "shuf i' r xs5 xs6" "srt i' r xs6" by blast
    have vk: "valid ys m" if "l \<le> m" "m \<le> r" "length ys = length xs" for m and ys :: "'a list"
      using that Suc.prems by (auto simp: valid_def)
    have l6: "length xs6 = length xs" "set xs6 \<subseteq> elems"
      using shuf_length [OF x6(2)] shuf_set [OF x6(2)] l5 by auto
    have at6: "at' xs6 m = at' xs5 m" if "l \<le> m" "m < i'" for m
      using that vk [of m xs5] l5 pt(10) by (intro shuf_outside [OF x6(2)]) auto
    have at5: "at' xs5 m = at' xs4 m" if "j < m" "m \<le> r" for m
      using that vk [of m xs4] l4 pt(7) by (intro shuf_outside [OF x5(2)]) auto
    have le6: "cmp (at' xs6 m) v \<le> 0" if "l \<le> m" "m < i'" for m
    proof (cases "m \<le> j")
      case True
      have "cmp (at' xs5 m) v \<le> 0"
        by (rule shuf_all [OF x5(2), where P = "\<lambda>x. cmp x v \<le> 0"])
          (use le that True vk [of m xs4] l4 pt(8) in auto)
      then show ?thesis using at6 [OF that] by simp
    next
      case False
      then show ?thesis using at6 [OF that] at5 [of m] eq that pt(10) by auto
    qed
    have ge6: "0 \<le> cmp (at' xs6 m) v" if "j < m" "m \<le> r" for m
    proof (cases "i' \<le> m")
      case True
      show ?thesis
        by (rule shuf_all [OF x6(2), where P = "\<lambda>x. 0 \<le> cmp x v"])
          (use ge at5 that True vk [of m xs5] l5 pt(7,9,11) in auto)
    next
      case False
      then show ?thesis using at6 [of m] at5 [of m] eq that pt(7) by auto
    qed
    have el: "at' xs6 m \<in> elems" if "l \<le> m" "m \<le> r" for m
      using at'_in_set [OF vk [OF that l6(1)]] l6(2) by blast
    have "srt l r xs6"
      unfolding srt_def
    proof (intro allI impI)
      fix a b assume ab: "l \<le> a" "a < b" "b \<le> r"
      consider "b \<le> j" | "i' \<le> a" | "j < b" "a < i'" by linarith
      then show "cmp (at' xs6 a) (at' xs6 b) \<le> 0"
      proof cases
        case 1
        with ab x5(3) at6 [of a] at6 [of b] pt(11) show ?thesis by (auto simp: srt_def)
      next
        case 2
        with ab x6(3) show ?thesis by (auto simp: srt_def)
      next
        case 3
        then have "cmp (at' xs6 a) v \<le> 0" "0 \<le> cmp (at' xs6 b) v"
          using le6 [of a] ge6 [of b] ab by auto
        moreover have "at' xs6 a \<in> elems" "at' xs6 b \<in> elems" using el ab by auto
        ultimately show ?thesis using cmp_trans [OF _ pt(6)] cmp_ge [OF _ pt(6)] by blast
      qed
    qed
    moreover have "shuf l r xs xs6"
      using pt(5) shuf_mono [OF x5(2), of l r] shuf_mono [OF x6(2), of l r] pt(8,9)
      by (auto intro: shuf_trans)
    moreover have "Qsort (Suc fuel) cmp xs l r = Some xs6"
      using False pt(1-4) x5(1) x6(1) by simp
    ultimately show ?thesis by blast
  qed
qed

lemma qsort_sorts:
  assumes "set xs \<subseteq> elems"
  shows "\<exists>ys. qsort cmp xs = Some ys \<and> mset ys = mset xs \<and> sorted_wrt (\<lambda>x y. cmp x y \<le> 0) ys"
proof -
  from Qsort_result [OF assms, of 0 "int (length xs) - 1" "Suc (length xs)"] obtain ys where
    ys: "qsort cmp xs = Some ys" "shuf 0 (int (length xs) - 1) xs ys" "srt 0 (int (length xs) - 1) ys"
    by (auto simp: qsort_def)
  have "cmp (ys ! a) (ys ! b) \<le> 0" if "a < b" "b < length ys" for a b
    using ys(3) that shuf_length [OF ys(2)] unfolding srt_def at'_def
    by (elim allE [of _ "int a"] allE [of _ "int b"]) auto
  with ys shuf_mset [OF ys(2)] show ?thesis by (auto simp: sorted_wrt_iff_nth_less)
qed

text \<open>Binary search: the positions before the interval are smaller than the key, those after it
  greater.\<close>

lemma bsearch_result:
  assumes "set xs \<subseteq> elems" "key \<in> elems" "sorted_wrt (\<lambda>x y. cmp x y \<le> 0) xs"
    and "b + n \<le> length xs"
    and "\<forall>k<b. 0 < cmp key (xs ! k)" "\<forall>k<length xs. b + n \<le> k \<longrightarrow> cmp key (xs ! k) < 0"
  shows "\<exists>res. bsearch cmp key xs b n = Some res \<and>
    (case res of Some p \<Rightarrow> p < length xs \<and> cmp key (xs ! p) = 0
     | None \<Rightarrow> \<forall>x \<in> set xs. cmp key x \<noteq> 0)"
  using assms(4-6)
proof (induction n arbitrary: b rule: less_induct)
  case (less n)
  show ?case
  proof (cases "n = 0")
    case True
    have "cmp key (xs ! k) \<noteq> 0" if "k < length xs" for k
      using less.prems that True by (cases "k < b") (auto dest!: spec [of _ k])
    then show ?thesis using True by (auto simp: bsearch.simps [of cmp key xs b 0] in_set_conv_nth)
  next
    case False
    let ?m = "n div 2" and ?p = "b + n div 2"
    have p: "?p < length xs" using less.prems(1) False by simp
    have el: "xs ! k \<in> elems" if "k < length xs" for k using that assms(1) by auto
    have le: "cmp (xs ! i) (xs ! j) \<le> 0" if "i < j" "j < length xs" for i j
      using that assms(3) by (simp add: sorted_wrt_iff_nth_less)
    consider "cmp key (xs ! ?p) < 0" | "0 < cmp key (xs ! ?p)" | "cmp key (xs ! ?p) = 0" by linarith
    then show ?thesis
    proof cases
      case 1
      have "cmp key (xs ! k) < 0" if "k < length xs" "?p \<le> k" for k
      proof (cases "k = ?p")
        case False
        then have "cmp (xs ! ?p) (xs ! k) \<le> 0" using le that by simp
        then have "cmp key (xs ! k) \<le> 0"
          using 1 cmp_trans [OF assms(2) el [OF p] el [OF that(1)]] by simp
        moreover have "cmp key (xs ! k) \<noteq> 0"
        proof
          assume "cmp key (xs ! k) = 0"
          then have "cmp (xs ! k) key \<le> 0" using cmp_eq [OF assms(2) el [OF that(1)]] by simp
          then have "cmp (xs ! ?p) key \<le> 0"
            using cmp_trans [OF el [OF p] el [OF that(1)] assms(2)] \<open>cmp (xs ! ?p) (xs ! k) \<le> 0\<close> by blast
          with 1 cmp_anti [OF assms(2) el [OF p]] show False by simp
        qed
        ultimately show ?thesis by simp
      qed (use 1 in simp)
      then show ?thesis
        using less.IH [of ?m b] less.prems False 1 p
        by (simp add: bsearch.simps [of cmp key xs b n] Let_def)
    next
      case 2
      have "0 < cmp key (xs ! k)" if "k < ?p + 1" for k
      proof (cases "k = ?p")
        case False
        then have kl: "k < length xs" "cmp (xs ! k) (xs ! ?p) \<le> 0" using le that p by auto
        have "cmp (xs ! ?p) key < 0" using 2 cmp_anti [OF el [OF p] assms(2)] by simp
        then have "cmp (xs ! k) key \<le> 0"
          using kl cmp_trans [OF el [OF kl(1)] el [OF p] assms(2)] by simp
        moreover have "cmp (xs ! k) key \<noteq> 0"
        proof
          assume "cmp (xs ! k) key = 0"
          then have "cmp key (xs ! k) \<le> 0" using cmp_eq [OF assms(2) el [OF kl(1)]] by simp
          then have "cmp key (xs ! ?p) \<le> 0"
            using cmp_trans [OF assms(2) el [OF kl(1)] el [OF p]] kl(2) by blast
          with 2 show False by simp
        qed
        ultimately show ?thesis using cmp_anti [OF el [OF kl(1)] assms(2)] by linarith
      qed (use 2 in simp)
      moreover have "bsearch cmp key xs b n = bsearch cmp key xs (?p + 1) (n - (?m + 1))"
        using False 2 p by (simp add: bsearch.simps [of cmp key xs b n] Let_def)
      ultimately show ?thesis
        using less.IH [of "n - (?m + 1)" "?p + 1"] less.prems False by simp
    next
      case 3
      with False p show ?thesis by (simp add: bsearch.simps [of cmp key xs b n])
    qed
  qed
qed

end

section \<open>\<open>strcmp\<close> as a comparison\<close>

lemma lexdiff_trans:
  assumes "inj f" "0 \<notin> set xs" "0 \<notin> set ys" "0 \<notin> set zs"
  shows "lexdiff f xs ys \<le> 0 \<Longrightarrow> lexdiff f ys zs \<le> 0 \<Longrightarrow> lexdiff f xs zs \<le> 0"
  using assms(2-4)
proof (induction xs arbitrary: ys zs)
  case Nil
  show ?case
  proof (cases zs)
    case (Cons z zs')
    have "f 0 \<noteq> f z" using Nil Cons assms(1) by (auto simp: inj_eq)
    with Nil Cons show ?thesis by (cases ys) (auto split: if_splits)
  qed simp
next
  case (Cons x xs')
  then obtain y ys' where ys: "ys = y # ys' \<or> ys = []" by (cases ys) auto
  have x0: "f x \<noteq> f 0" using Cons.prems assms(1) by (auto simp: inj_eq)
  show ?case
  proof (cases zs)
    case Nil
    with Cons.prems x0 show ?thesis by (cases ys) (auto split: if_splits)
  next
    case (Cons z zs')
    have z0: "f z \<noteq> f 0" using Cons Cons.prems assms(1) by (auto simp: inj_eq)
    show ?thesis
    proof (cases ys)
      case Nil
      with Cons Cons.prems x0 z0 show ?thesis by auto
    next
      case y: (Cons y ys')
      have "x \<noteq> y \<Longrightarrow> f x \<noteq> f y" "y \<noteq> z \<Longrightarrow> f y \<noteq> f z" using assms(1) by (auto simp: inj_eq)
      with Cons y Cons.prems Cons.IH [of ys' zs'] show ?thesis by (auto split: if_splits)
    qed
  qed
qed

interpretation strings: comparison "lexdiff sc" "{xs. 0 \<notin> set xs}"
proof unfold_locales
  have i: "inj sc" by (simp add: inj_def sc_inj)
  show "lexdiff sc x x = 0" if "x \<in> {xs. 0 \<notin> set xs}" for x
    using that lexdiff_0_iff [OF i, of x x] by simp
  show "(lexdiff sc x y < 0) = (0 < lexdiff sc y x)" for x y
    by (simp add: lexdiff_sym [of sc x y])
  show "lexdiff sc x z \<le> 0"
    if "x \<in> {xs. 0 \<notin> set xs}" "y \<in> {xs. 0 \<notin> set xs}" "z \<in> {xs. 0 \<notin> set xs}"
      "lexdiff sc x y \<le> 0" "lexdiff sc y z \<le> 0" for x y z
    using that lexdiff_trans [OF i, of x y z] by simp
qed

section \<open>Properties\<close>

text \<open>C11: \<open>qsort\<close> returns (its recursion and its loops end inside the array) with the elements of
  the array rearranged in ascending order, for every comparison function that is reflexive,
  antisymmetric and transitive on the elements.\<close>

theorem qsort_correct:
  assumes "comparison cmp elems" "set xs \<subseteq> elems"
  shows "\<exists>ys. qsort cmp xs = Some ys \<and> mset ys = mset xs \<and> sorted_wrt (\<lambda>x y. cmp x y \<le> 0) ys"
  by (rule comparison.qsort_sorts [OF assms])

theorem qsort_correct_witness:
  "\<exists>ys. qsort (lexdiff sc) [[98], [97], [97, 98]] = Some ys \<and>
    mset ys = mset [[98], [97], [97, 98]] \<and> sorted_wrt (\<lambda>x y. lexdiff sc x y \<le> 0) ys"
  using qsort_correct [OF strings.comparison_axioms, of "[[98], [97], [97, 98]]"] by simp

text \<open>On an array in ascending order \<open>bsearch\<close> returns a position that holds an element equal
  to the key, and NULL exactly when there is none.\<close>

theorem bsearch_correct:
  assumes "comparison cmp elems" "set xs \<subseteq> elems" "key \<in> elems"
    and "sorted_wrt (\<lambda>x y. cmp x y \<le> 0) xs"
  shows "\<exists>res. bsearch cmp key xs 0 (length xs) = Some res \<and>
    (case res of Some p \<Rightarrow> p < length xs \<and> cmp key (xs ! p) = 0
     | None \<Rightarrow> \<forall>x \<in> set xs. cmp key x \<noteq> 0)"
  using comparison.bsearch_result [OF assms, of 0 "length xs"] by simp

theorem bsearch_correct_witness:
  "\<exists>res. bsearch (lexdiff sc) [98] [[97], [98]] 0 (length [[97 :: u8], [98]]) = Some res \<and> res \<noteq> None"
  using bsearch_correct [OF strings.comparison_axioms, of "[[97], [98]]" "[98]"]
  by (auto simp: sc_def split: option.splits)

end
