(* ===== verification/Alloc.thy ===== *)
theory Alloc
  imports Cstring
begin

text \<open>
  The allocation functions of the C library (\<open>src/lib/c/lib/alloc.c\<close>), which pass requests on to the memory manager of
  the assembly core. The manager is a parameter: where it places a block of a size, given the blocks in use, and which
  blocks are left after a deallocation. Block sizes and addresses are those of the flat memory; 0 is NULL.
\<close>

section \<open>Definitions\<close>

type_synonym blocks = "(addr \<times> nat) list"

record manager =
  mm_allocate :: "nat \<Rightarrow> blocks \<Rightarrow> addr option"
  mm_deallocate :: "addr \<Rightarrow> blocks \<Rightarrow> blocks"

record heap =
  memory :: ram
  live :: blocks
  heap_errno :: errno_t

definition libc_free :: "manager \<Rightarrow> addr \<Rightarrow> heap \<Rightarrow> heap" where
  "libc_free mm ptr h = h\<lparr>live := mm_deallocate mm ptr (live h)\<rparr>"

definition malloc :: "manager \<Rightarrow> u32 \<Rightarrow> heap \<Rightarrow> addr \<times> heap" where
  "malloc mm siz h =
     (case mm_allocate mm (unat siz) (live h) of
        None \<Rightarrow> (0, h\<lparr>heap_errno := ENOMEM\<rparr>)
      | Some ptr \<Rightarrow>
          let h = h\<lparr>live := (ptr, unat siz) # live h\<rparr> in
          if ptr = 0 then (0, h\<lparr>heap_errno := ENOMEM\<rparr>) else (ptr, h))"

definition calloc :: "manager \<Rightarrow> u32 \<Rightarrow> u32 \<Rightarrow> heap \<Rightarrow> (addr \<times> heap) option" where
  "calloc mm nmemb sz h =
     (let n = sz * nmemb in
      if nmemb \<noteq> 0 \<and> n div nmemb \<noteq> sz then Some (0, h\<lparr>heap_errno := ENOMEM\<rparr>)
      else case malloc mm n h of (mem, h) \<Rightarrow>
        if mem = 0 then Some (0, h\<lparr>heap_errno := ENOMEM\<rparr>)
        else do { m \<leftarrow> memset (memory h) mem 0 (unat n); Some (mem, h\<lparr>memory := m\<rparr>) })"

definition realloc :: "manager \<Rightarrow> addr \<Rightarrow> u32 \<Rightarrow> heap \<Rightarrow> (addr \<times> heap) option" where
  "realloc mm ptr siz h =
     (case malloc mm siz h of (new, h) \<Rightarrow> do {
        m \<leftarrow> memcpy (memory h) new ptr (unat siz);
        Some (new, h\<lparr>memory := m\<rparr>)
      })"

section \<open>The heap\<close>

definition apart :: "addr \<times> nat \<Rightarrow> addr \<times> nat \<Rightarrow> bool" where
  "apart b c \<longleftrightarrow> fst b + snd b \<le> fst c \<or> fst c + snd c \<le> fst b"

text \<open>The blocks lie inside the memory and do not overlap.\<close>

definition heap_ok :: "heap \<Rightarrow> bool" where
  "heap_ok h \<longleftrightarrow> sorted_wrt apart (live h) \<and> (\<forall>b \<in> set (live h). fst b + snd b \<le> length (memory h))"

text \<open>What the manager promises for a memory of \<open>n\<close> bytes: new blocks lie in it and overlap no block in use, and a
  deallocation only takes blocks away.\<close>

definition manager_ok :: "manager \<Rightarrow> nat \<Rightarrow> bool" where
  "manager_ok mm n \<longleftrightarrow>
     (\<forall>k bs p. mm_allocate mm k bs = Some p \<longrightarrow> p + k \<le> n \<and> (\<forall>b \<in> set bs. apart (p, k) b)) \<and>
     (\<forall>p bs. \<exists>P. mm_deallocate mm p bs = filter P bs)"

definition contents :: "heap \<Rightarrow> addr \<times> nat \<Rightarrow> u8 list" where
  "contents h b = seg (fst b) (snd b) (memory h)"

lemma heap_ok_errno [simp]: "heap_ok (h\<lparr>heap_errno := e\<rparr>) = heap_ok h"
  by (simp add: heap_ok_def)

lemma malloc_ok:
  assumes "manager_ok mm (length (memory h))" "heap_ok h"
  shows "case malloc mm siz h of (p, h') \<Rightarrow> heap_ok h' \<and> memory h' = memory h \<and> set (live h) \<subseteq> set (live h') \<and>
    (p = 0 \<longrightarrow> heap_errno h' = ENOMEM) \<and>
    (p \<noteq> 0 \<longrightarrow> live h' = (p, unat siz) # live h \<and> p + unat siz \<le> length (memory h) \<and>
       (\<forall>b \<in> set (live h). apart (p, unat siz) b))"
proof (cases "mm_allocate mm (unat siz) (live h)")
  case None
  then show ?thesis using assms(2) by (simp add: malloc_def heap_ok_def)
next
  case (Some p)
  then have "p + unat siz \<le> length (memory h)" "\<forall>b \<in> set (live h). apart (p, unat siz) b"
    using assms(1) by (auto simp: manager_ok_def)
  then show ?thesis using assms(2) Some by (auto simp: malloc_def heap_ok_def Let_def)
qed

lemma libc_free_ok:
  assumes "manager_ok mm n" "heap_ok h"
  shows "heap_ok (libc_free mm ptr h)" "memory (libc_free mm ptr h) = memory h"
proof -
  obtain P where "mm_deallocate mm ptr (live h) = filter P (live h)" using assms(1) unfolding manager_ok_def by blast
  then show "heap_ok (libc_free mm ptr h)" "memory (libc_free mm ptr h) = memory h"
    using assms(2) by (simp_all add: libc_free_def heap_ok_def sorted_wrt_filter)
qed

lemma contents_patch:
  assumes "apart (p, length bs) b" "p + length bs \<le> length (memory h)" "fst b + snd b \<le> length (memory h)"
  shows "contents (h\<lparr>memory := patch p bs (memory h)\<rparr>) b = contents h b"
  using assms by (intro nth_equalityI) (auto simp: contents_def length_patch nth_seg nth_patch apart_def)

lemma div_mult_overflow:
  fixes a b :: u32
  assumes "b \<noteq> 0"
  shows "(a * b) div b = a \<longleftrightarrow> unat a * unat b < 2 ^ 32"
proof -
  let ?a = "unat a" and ?b = "unat b"
  have b: "0 < ?b" "?b < 2 ^ 32" using assms unat_u32 [of b] by (simp_all add: unat_gt_0)
  have "(a * b) div b = a \<longleftrightarrow> (?a * ?b mod 2 ^ 32) div ?b = ?a"
    by (simp add: word_unat_eq_iff unat_div unat_word_ariths)
  also have "\<dots> \<longleftrightarrow> ?a * ?b < 2 ^ 32"
  proof
    assume "?a * ?b < 2 ^ 32"
    then show "(?a * ?b mod 2 ^ 32) div ?b = ?a" using b by simp
  next
    assume d: "(?a * ?b mod 2 ^ 32) div ?b = ?a"
    have "?a * ?b \<le> ?a * ?b mod 2 ^ 32" using div_times_less_eq_dividend [of "?a * ?b mod 2 ^ 32" ?b] unfolding d .
    also have "\<dots> < 2 ^ 32" by simp
    finally show "?a * ?b < 2 ^ 32" .
  qed
  finally show ?thesis .
qed

section \<open>Properties\<close>

text \<open>\<open>calloc\<close> fails with \<open>ENOMEM\<close> when the product of its arguments needs more than 32 bits; when it succeeds, the
  block of exactly that many bytes is zero and in use. In every case the heap stays consistent and no block in use
  changes.\<close>
theorem calloc_zeroed:
  assumes "manager_ok mm (length (memory h))" "heap_ok h"
  shows "\<exists>p h'. calloc mm a b h = Some (p, h') \<and> heap_ok h' \<and>
    (2 ^ 32 \<le> unat a * unat b \<longrightarrow> p = 0) \<and> (p = 0 \<longrightarrow> heap_errno h' = ENOMEM \<and> memory h' = memory h) \<and>
    (p \<noteq> 0 \<longrightarrow> (p, unat a * unat b) \<in> set (live h') \<and>
       contents h' (p, unat a * unat b) = replicate (unat a * unat b) 0) \<and>
    (\<forall>c \<in> set (live h). c \<in> set (live h') \<and> contents h' c = contents h c)"
proof (cases "a \<noteq> 0 \<and> 2 ^ 32 \<le> unat a * unat b")
  case True
  then have "b * a div a \<noteq> b" using div_mult_overflow [of a b] by (simp add: mult.commute)
  then show ?thesis using True assms(2) by (simp add: calloc_def Let_def contents_def)
next
  case False
  then have lt: "unat a * unat b < 2 ^ 32" by (cases "a = 0") auto
  then have n: "unat (b * a) = unat a * unat b" by (simp add: unat_word_ariths mult.commute)
  have c: "\<not> (a \<noteq> 0 \<and> b * a div a \<noteq> b)" using lt div_mult_overflow [of a b] by (auto simp: mult.commute)
  obtain p h1 where m: "malloc mm (b * a) h = (p, h1)" by fastforce
  note ok = malloc_ok [OF assms, of "b * a", unfolded m prod.case n]
  show ?thesis
  proof (cases "p = 0")
    case True
    then show ?thesis using ok c m lt by (auto simp: calloc_def Let_def contents_def)
  next
    case False
    let ?z = "replicate (unat a * unat b) (0 :: u8)"
    let ?h = "h1\<lparr>memory := patch p ?z (memory h1)\<rparr>"
    have fit: "p + length ?z \<le> length (memory h1)" using ok False by simp
    have "calloc mm a b h = Some (p, ?h)" using c m False fit by (simp add: calloc_def Let_def n memset_result)
    moreover have "heap_ok ?h" using ok fit by (auto simp: heap_ok_def length_patch)
    moreover have "contents ?h (p, unat a * unat b) = ?z" using fit seg_patch [OF fit] by (simp add: contents_def)
    moreover have "\<forall>c \<in> set (live h). contents ?h c = contents h c"
    proof
      fix c assume "c \<in> set (live h)"
      then have "apart (p, length ?z) c" "fst c + snd c \<le> length (memory h1)"
        using ok False assms(2) by (auto simp: heap_ok_def)
      from contents_patch [OF this(1) fit this(2)] show "contents ?h c = contents h c" using ok by (simp add: contents_def)
    qed
    ultimately show ?thesis using ok False lt by (intro exI [of _ p] exI [of _ ?h]) auto
  qed
qed

text \<open>\<open>realloc\<close> of a block in use, to a size that is not larger, puts a copy of its first bytes into a new block; the
  old block stays in use, so that it leaks. When the manager has no memory, the copy goes to address 0, over the start
  of memory, before NULL is returned.\<close>
theorem realloc_copies_and_leaks:
  assumes "manager_ok mm (length (memory h))" "heap_ok h" "(ptr, k) \<in> set (live h)" "unat n \<le> k"
  shows "(\<forall>p. mm_allocate mm (unat n) (live h) = Some p \<longrightarrow> p \<noteq> 0 \<longrightarrow>
      (\<exists>h'. realloc mm ptr n h = Some (p, h') \<and> heap_ok h' \<and> live h' = (p, unat n) # live h \<and>
         contents h' (p, unat n) = take (unat n) (contents h (ptr, k)) \<and>
         (\<forall>c \<in> set (live h). contents h' c = contents h c))) \<and>
    (mm_allocate mm (unat n) (live h) = None \<longrightarrow>
      realloc mm ptr n h = Some (0, h\<lparr>heap_errno := ENOMEM,
        memory := patch 0 (take (unat n) (contents h (ptr, k))) (memory h)\<rparr>))"
proof -
  have bnd: "ptr + k \<le> length (memory h)" using assms(2,3) by (auto simp: heap_ok_def)
  have s: "seg ptr (unat n) (memory h) = take (unat n) (contents h (ptr, k))"
    using assms(4) by (simp add: contents_def seg_def min_def)
  let ?s = "take (unat n) (contents h (ptr, k))"
  have l: "length ?s = unat n" using assms(4) bnd by (simp add: contents_def)
  have "\<exists>h'. realloc mm ptr n h = Some (p, h') \<and> heap_ok h' \<and> live h' = (p, unat n) # live h \<and>
      contents h' (p, unat n) = ?s \<and> (\<forall>c \<in> set (live h). contents h' c = contents h c)"
    if a: "mm_allocate mm (unat n) (live h) = Some p" "p \<noteq> 0" for p
  proof -
    define h1 where "h1 = h\<lparr>live := (p, unat n) # live h\<rparr>"
    have m: "malloc mm n h = (p, h1)" using a by (simp add: malloc_def h1_def)
    note ok = malloc_ok [OF assms(1,2), of n, unfolded m prod.case]
    have h1: "heap_ok h1" "memory h1 = memory h" "live h1 = (p, unat n) # live h"
      "p + unat n \<le> length (memory h)" "\<forall>b \<in> set (live h). apart (p, unat n) b" using ok a(2) by auto
    have "apart (p, unat n) (ptr, k)" using h1(5) assms(3) by blast
    then have "memcpy (memory h1) p ptr (unat n) = Some (patch p ?s (memory h))"
      using h1(2,4) bnd assms(4) s by (auto simp: apart_def intro!: memcpy_result [THEN trans])
    then have "realloc mm ptr n h = Some (p, h1\<lparr>memory := patch p ?s (memory h1)\<rparr>)"
      by (simp add: realloc_def m h1(2))
    moreover have fit: "p + length ?s \<le> length (memory h1)" using h1 l by simp
    then have "heap_ok (h1\<lparr>memory := patch p ?s (memory h1)\<rparr>)" using h1(1) by (auto simp: heap_ok_def length_patch)
    moreover have "contents (h1\<lparr>memory := patch p ?s (memory h1)\<rparr>) (p, unat n) = ?s"
      using seg_patch [OF fit] l by (simp add: contents_def)
    moreover have "contents (h1\<lparr>memory := patch p ?s (memory h1)\<rparr>) c = contents h c" if "c \<in> set (live h)" for c
    proof -
      have "apart (p, length ?s) c" "fst c + snd c \<le> length (memory h1)"
        using that h1 l assms(2) by (auto simp: heap_ok_def)
      from contents_patch [OF this(1) fit this(2)] show ?thesis using h1(2) by (simp add: contents_def)
    qed
    ultimately show ?thesis using h1(3) by auto
  qed
  moreover have "realloc mm ptr n h = Some (0, h\<lparr>heap_errno := ENOMEM, memory := patch 0 ?s (memory h)\<rparr>)"
    if "mm_allocate mm (unat n) (live h) = None"
  proof -
    have "memcpy (memory h) 0 ptr (unat n) = Some (patch 0 ?s (memory h))"
      using bnd assms(4) memcpy_result [of 0 "unat n" "memory h" ptr] unfolding s by simp
    then show ?thesis using that by (simp add: realloc_def malloc_def)
  qed
  ultimately show ?thesis by blast
qed

text \<open>A manager that places blocks one after the other.\<close>

definition bump_manager :: "nat \<Rightarrow> manager" where
  "bump_manager n = \<lparr>mm_allocate = (\<lambda>k bs. let p = foldr (\<lambda>b m. max m (fst b + snd b)) bs 8 in if p + k \<le> n then Some p else None),
     mm_deallocate = (\<lambda>p bs. filter (\<lambda>b. fst b \<noteq> p) bs)\<rparr>"

lemma bump_manager_ok: "manager_ok (bump_manager n) n"
proof -
  have "fst b + snd b \<le> foldr (\<lambda>b m. max m (fst b + snd b)) bs 8" if "b \<in> set bs" for b :: "nat \<times> nat" and bs
    using that by (induction bs) auto
  then show ?thesis by (auto simp: manager_ok_def bump_manager_def Let_def apart_def split: if_splits)
qed

lemma calloc_zeroed_witness:
  "\<exists>p h'. calloc (bump_manager 32) 2 3 \<lparr>memory = replicate 32 7, live = [(8, 2)], heap_errno = E_OK\<rparr> = Some (p, h') \<and>
    heap_ok h' \<and> (p \<noteq> 0 \<longrightarrow> contents h' (p, 6) = replicate 6 0)"
proof -
  let ?h = "\<lparr>memory = replicate 32 7, live = [(8, 2)], heap_errno = E_OK\<rparr>"
  have "manager_ok (bump_manager 32) (length (memory ?h))" "heap_ok ?h"
    using bump_manager_ok [of 32] by (simp_all add: heap_ok_def)
  from calloc_zeroed [OF this, of 2 3] show ?thesis by auto
qed

lemma realloc_copies_and_leaks_witness:
  "\<exists>h'. realloc (bump_manager 32) 8 2 \<lparr>memory = replicate 32 7, live = [(8, 4)], heap_errno = E_OK\<rparr> = Some (12, h') \<and>
    live h' = [(12, 2), (8, 4)]"
proof -
  let ?h = "\<lparr>memory = replicate 32 7, live = [(8, 4)], heap_errno = E_OK\<rparr>"
  have h: "manager_ok (bump_manager 32) (length (memory ?h))" "heap_ok ?h"
    using bump_manager_ok [of 32] by (simp_all add: heap_ok_def)
  have "mm_allocate (bump_manager 32) 2 (live ?h) = Some 12" by (simp add: bump_manager_def)
  then show ?thesis using realloc_copies_and_leaks [OF h, of 8 4 2] by auto
qed

end
