(* ===== verification/Xdr.thy ===== *)
theory Xdr
  imports Cstring
begin

text \<open>
  The external data representation of the C library (\<open>src/lib/c/librpc/xdr.c\<close>,
  \<open>xdr_array.c\<close>, \<open>xdr_reference.c\<close>, \<open>xdr_float.c\<close>): filters that encode a C object to a stream,
  decode it from one or release its storage, over a stream given by its table of operations
  (\<open>struct xdr_ops\<close>).

  A filter maps the operation, the object and the stream state to the boolean result, the
  object and the stream state afterwards; \<open>None\<close> is undefined behaviour. Objects are
  values: an integer is a word, a \<open>char *\<close> is NULL (\<open>None\<close>) or the block it points to, an
  array pointer is NULL or the list of the elements of its block, and an access outside a
  block is undefined. So the objects lie outside the buffer of the stream. \<open>mem_alloc\<close> is
  the parameter \<open>alloc\<close>, the block it returns for a size or NULL. Every filter is called
  through \<open>xdrproc_t\<close> with the extra argument \<open>LASTUNSIGNED\<close>; a filter that has a
  size argument is passed applied to it. On i386 \<open>int\<close>, \<open>long\<close> and enumerations have 32 bits.

  The locale \<open>xdr_stream\<close> is what the filters rely on of a stream. Its lemmas say for every filter
  what it appends on encoding, that decoding those bytes restores the object, and that no
  input makes decoding undefined.
\<close>

section \<open>Definitions\<close>

datatype xdr_op = XDR_ENCODE | XDR_DECODE | XDR_FREE

text \<open>The operations of a stream with state \<open>'s\<close>. \<open>x_getlong\<close> yields the number or, with
  \<open>None\<close> inside, FALSE; \<open>x_getbytes\<close> yields the result and the bytes it stored at its
  \<open>addr\<close>; \<open>x_putbytes\<close> takes the block \<open>addr\<close> points to and \<open>len\<close>.\<close>

record 's xdr_ops =
  x_getlong :: "'s \<Rightarrow> (u32 option \<times> 's) option"
  x_putlong :: "u32 \<Rightarrow> 's \<Rightarrow> (bool \<times> 's) option"
  x_getbytes :: "u32 \<Rightarrow> 's \<Rightarrow> (bool \<times> u8 list \<times> 's) option"
  x_putbytes :: "u8 list \<Rightarrow> u32 \<Rightarrow> 's \<Rightarrow> (bool \<times> 's) option"

type_synonym ('s, 'v) xdrproc = "xdr_op \<Rightarrow> 'v \<Rightarrow> 's \<Rightarrow> (bool \<times> 'v \<times> 's) option"

abbreviation LASTUNSIGNED :: u32 where
  "LASTUNSIGNED \<equiv> 0xFFFFFFFF"

definition xdr_void :: "('s, 'v) xdrproc" where
  "xdr_void x_op v s = Some (True, v, s)"

definition xdr_long :: "'s xdr_ops \<Rightarrow> ('s, u32) xdrproc" where
  "xdr_long ops x_op lp s =
     (case x_op of
        XDR_ENCODE \<Rightarrow> do { (b, s') \<leftarrow> x_putlong ops lp s; Some (b, lp, s') }
      | XDR_DECODE \<Rightarrow> do {
          (r, s') \<leftarrow> x_getlong ops s;
          Some (case r of None \<Rightarrow> (False, lp, s') | Some l \<Rightarrow> (True, l, s'))
        }
      | XDR_FREE \<Rightarrow> Some (True, lp, s))"

definition xdr_u_long :: "'s xdr_ops \<Rightarrow> ('s, u32) xdrproc" where
  "xdr_u_long ops x_op ulp s =
     (if x_op = XDR_DECODE then do {
        (r, s') \<leftarrow> x_getlong ops s;
        Some (case r of None \<Rightarrow> (False, ulp, s') | Some l \<Rightarrow> (True, l, s'))
      }
      else if x_op = XDR_ENCODE then do { (b, s') \<leftarrow> x_putlong ops ulp s; Some (b, ulp, s') }
      else Some (True, ulp, s))"

definition xdr_int :: "'s xdr_ops \<Rightarrow> ('s, u32) xdrproc" where
  "xdr_int ops = xdr_long ops"

definition xdr_u_int :: "'s xdr_ops \<Rightarrow> ('s, u32) xdrproc" where
  "xdr_u_int ops = xdr_u_long ops"

definition xdr_enum :: "'s xdr_ops \<Rightarrow> ('s, u32) xdrproc" where
  "xdr_enum ops = xdr_long ops"

definition xdr_short :: "'s xdr_ops \<Rightarrow> ('s, u16) xdrproc" where
  "xdr_short ops x_op sp s =
     (case x_op of
        XDR_ENCODE \<Rightarrow> do { (b, s') \<leftarrow> x_putlong ops (scast sp) s; Some (b, sp, s') }
      | XDR_DECODE \<Rightarrow> do {
          (r, s') \<leftarrow> x_getlong ops s;
          Some (case r of None \<Rightarrow> (False, sp, s') | Some l \<Rightarrow> (True, ucast l, s'))
        }
      | XDR_FREE \<Rightarrow> Some (True, sp, s))"

definition xdr_u_short :: "'s xdr_ops \<Rightarrow> ('s, u16) xdrproc" where
  "xdr_u_short ops x_op usp s =
     (case x_op of
        XDR_ENCODE \<Rightarrow> do { (b, s') \<leftarrow> x_putlong ops (ucast usp) s; Some (b, usp, s') }
      | XDR_DECODE \<Rightarrow> do {
          (r, s') \<leftarrow> x_getlong ops s;
          Some (case r of None \<Rightarrow> (False, usp, s') | Some l \<Rightarrow> (True, ucast l, s'))
        }
      | XDR_FREE \<Rightarrow> Some (True, usp, s))"

definition xdr_char :: "'s xdr_ops \<Rightarrow> ('s, u8) xdrproc" where
  "xdr_char ops x_op cp s = do {
     (b, i, s') \<leftarrow> xdr_int ops x_op (scast cp) s;
     Some (if b then (True, ucast i, s') else (False, cp, s'))
   }"

definition xdr_u_char :: "'s xdr_ops \<Rightarrow> ('s, u8) xdrproc" where
  "xdr_u_char ops x_op cp s = do {
     (b, u, s') \<leftarrow> xdr_u_int ops x_op (ucast cp) s;
     Some (if b then (True, ucast u, s') else (False, cp, s'))
   }"

definition xdr_bool :: "'s xdr_ops \<Rightarrow> ('s, u32) xdrproc" where
  "xdr_bool ops x_op bp s =
     (case x_op of
        XDR_ENCODE \<Rightarrow> do { (b, s') \<leftarrow> x_putlong ops (if bp \<noteq> 0 then 1 else 0) s; Some (b, bp, s') }
      | XDR_DECODE \<Rightarrow> do {
          (r, s') \<leftarrow> x_getlong ops s;
          Some (case r of None \<Rightarrow> (False, bp, s') | Some lb \<Rightarrow> (True, if lb = 0 then 0 else 1, s'))
        }
      | XDR_FREE \<Rightarrow> Some (True, bp, s))"

text \<open>Floating-point numbers are their bits. With \<open>sparc\<close> defined, as the file does, the words of a
  double are transferred in the order they have in memory, on i386 the low word first.\<close>

definition xdr_float :: "'s xdr_ops \<Rightarrow> ('s, u32) xdrproc" where
  "xdr_float ops x_op fp s =
     (case x_op of
        XDR_ENCODE \<Rightarrow> do { (b, s') \<leftarrow> x_putlong ops fp s; Some (b, fp, s') }
      | XDR_DECODE \<Rightarrow> do {
          (r, s') \<leftarrow> x_getlong ops s;
          Some (case r of None \<Rightarrow> (False, fp, s') | Some l \<Rightarrow> (True, l, s'))
        }
      | XDR_FREE \<Rightarrow> Some (True, fp, s))"

definition xdr_double :: "'s xdr_ops \<Rightarrow> ('s, u64) xdrproc" where
  "xdr_double ops x_op dp s =
     (case x_op of
        XDR_ENCODE \<Rightarrow> do {
          (b, s') \<leftarrow> x_putlong ops (ucast dp) s;
          if b then do { (b', s'') \<leftarrow> x_putlong ops (ucast (drop_bit 32 dp)) s'; Some (b', dp, s'') }
          else Some (False, dp, s')
        }
      | XDR_DECODE \<Rightarrow> do {
          (r, s') \<leftarrow> x_getlong ops s;
          case r of
            None \<Rightarrow> Some (False, dp, s')
          | Some lo \<Rightarrow> do {
              (r', s'') \<leftarrow> x_getlong ops s';
              Some (case r' of
                  None \<Rightarrow> (False, push_bit 32 (drop_bit 32 dp) OR ucast lo, s'')
                | Some hi \<Rightarrow> (True, push_bit 32 (ucast hi) OR ucast lo, s''))
            }
        }
      | XDR_FREE \<Rightarrow> Some (True, dp, s))"

text \<open>Storing bytes at the start of a block.\<close>

definition store_bytes :: "u8 list \<Rightarrow> u8 list \<Rightarrow> u8 list option" where
  "store_bytes w buf = (if length w \<le> length buf then Some (w @ drop (length w) buf) else None)"

definition xdr_opaque :: "'s xdr_ops \<Rightarrow> u32 \<Rightarrow> ('s, u8 list) xdrproc" where
  "xdr_opaque ops cnt x_op cp s =
     (if cnt = 0 then Some (True, cp, s)
      else
        let r = cnt mod 4; rndup = (if r > 0 then 4 - r else r) in
        case x_op of
          XDR_DECODE \<Rightarrow> do {
            (b, w, s1) \<leftarrow> x_getbytes ops cnt s;
            cp' \<leftarrow> store_bytes w cp;
            if \<not> b then Some (False, cp', s1)
            else if rndup = 0 then Some (True, cp', s1)
            else do { (b', crud, s2) \<leftarrow> x_getbytes ops rndup s1; Some (b', cp', s2) }
          }
        | XDR_ENCODE \<Rightarrow> do {
            (b, s1) \<leftarrow> x_putbytes ops cp cnt s;
            if \<not> b then Some (False, cp, s1)
            else if rndup = 0 then Some (True, cp, s1)
            else do { (b', s2) \<leftarrow> x_putbytes ops [0, 0, 0, 0] rndup s1; Some (b', cp, s2) }
          }
        | XDR_FREE \<Rightarrow> Some (True, cp, s))"

text \<open>\<open>malloc\<close> where the pointer is NULL.\<close>

definition sure_block :: "(nat \<Rightarrow> u8 list option) \<Rightarrow> u32 \<Rightarrow> u8 list option \<Rightarrow> u8 list option" where
  "sure_block alloc n sp = (case sp of None \<Rightarrow> alloc (unat n) | Some b \<Rightarrow> Some b)"

text \<open>The block behind a pointer for \<open>xdr_opaque\<close>; NULL points to no bytes.\<close>

definition block :: "u8 list option \<Rightarrow> u8 list" where
  "block sp = (case sp of None \<Rightarrow> [] | Some b \<Rightarrow> b)"

definition xdr_bytes :: "'s xdr_ops \<Rightarrow> (nat \<Rightarrow> u8 list option) \<Rightarrow> u32 \<Rightarrow> ('s, u8 list option \<times> u32) xdrproc" where
  "xdr_bytes ops alloc maxsize x_op v s = (case v of (sp, sizep) \<Rightarrow> do {
     (b, nodesize, s1) \<leftarrow> xdr_u_int ops x_op sizep s;
     if \<not> b then Some (False, (sp, nodesize), s1)
     else if nodesize > maxsize \<and> x_op \<noteq> XDR_FREE then Some (False, (sp, nodesize), s1)
     else
       case x_op of
         XDR_DECODE \<Rightarrow>
           if nodesize = 0 then Some (True, (sp, nodesize), s1)
           else
             (case sure_block alloc nodesize sp of
                None \<Rightarrow> Some (False, (None, nodesize), s1)
              | Some buf \<Rightarrow> do {
                  (b', buf', s2) \<leftarrow> xdr_opaque ops nodesize x_op buf s1;
                  Some (b', (Some buf', nodesize), s2)
                })
       | XDR_ENCODE \<Rightarrow> do {
           (b', buf', s2) \<leftarrow> xdr_opaque ops nodesize x_op (block sp) s1;
           Some (b', (sp, nodesize), s2)
         }
       | XDR_FREE \<Rightarrow> Some (True, (None, nodesize), s1)
   })"

definition xdr_netobj :: "'s xdr_ops \<Rightarrow> (nat \<Rightarrow> u8 list option) \<Rightarrow> ('s, u8 list option \<times> u32) xdrproc" where
  "xdr_netobj ops alloc = xdr_bytes ops alloc 1024"

text \<open>The table of a discriminated union up to its entry with the null procedure.\<close>

fun xdr_choose :: "(u32 \<times> ('s, 'v) xdrproc) list \<Rightarrow> u32 \<Rightarrow> ('s, 'v) xdrproc option" where
  "xdr_choose [] dscm = None"
| "xdr_choose ((val, prc) # choices) dscm = (if val = dscm then Some prc else xdr_choose choices dscm)"

definition xdr_union :: "'s xdr_ops \<Rightarrow> (u32 \<times> ('s, 'v) xdrproc) list \<Rightarrow> ('s, 'v) xdrproc option \<Rightarrow>
    ('s, u32 \<times> 'v) xdrproc" where
  "xdr_union ops choices dfault x_op v s = (case v of (dscmp, unp) \<Rightarrow> do {
     (b, dscm, s1) \<leftarrow> xdr_enum ops x_op dscmp s;
     if \<not> b then Some (False, (dscm, unp), s1)
     else
       case xdr_choose choices dscm of
         Some prc \<Rightarrow> do { (b', unp', s2) \<leftarrow> prc x_op unp s1; Some (b', (dscm, unp'), s2) }
       | None \<Rightarrow>
           (case dfault of
              None \<Rightarrow> Some (False, (dscm, unp), s1)
            | Some prc \<Rightarrow> do { (b', unp', s2) \<leftarrow> prc x_op unp s1; Some (b', (dscm, unp'), s2) })
   })"

text \<open>The length \<open>strlen\<close> finds: of NULL it is 0, of a block without NUL it is undefined.\<close>

definition strlen_of :: "u8 list option \<Rightarrow> nat option" where
  "strlen_of sp = (case sp of None \<Rightarrow> Some 0 | Some b \<Rightarrow> strlen_loop b 0)"

definition xdr_string :: "'s xdr_ops \<Rightarrow> (nat \<Rightarrow> u8 list option) \<Rightarrow> u32 \<Rightarrow> ('s, u8 list option) xdrproc" where
  "xdr_string ops alloc maxsize x_op sp s =
     (if x_op = XDR_FREE \<and> sp = None then Some (True, None, s)
      else do {
        size0 \<leftarrow> (if x_op = XDR_DECODE then Some 0 else map_option of_nat (strlen_of sp));
        (b, sz, s1) \<leftarrow> xdr_u_int ops x_op size0 s;
        if \<not> b then Some (False, sp, s1)
        else if sz > maxsize then Some (False, sp, s1)
        else
          let nodesize = sz + 1 in
          case x_op of
            XDR_DECODE \<Rightarrow>
              if nodesize = 0 then Some (True, sp, s1)
              else
                (case sure_block alloc nodesize sp of
                   None \<Rightarrow> Some (False, None, s1)
                 | Some buf \<Rightarrow> do {
                     buf1 \<leftarrow> store buf (unat sz) 0;
                     (b', buf2, s2) \<leftarrow> xdr_opaque ops sz x_op buf1 s1;
                     Some (b', Some buf2, s2)
                   })
          | XDR_ENCODE \<Rightarrow> do {
              (b', buf', s2) \<leftarrow> xdr_opaque ops sz x_op (block sp) s1;
              Some (b', sp, s2)
            }
          | XDR_FREE \<Rightarrow> Some (True, None, s1)
      })"

definition xdr_wrapstring :: "'s xdr_ops \<Rightarrow> (nat \<Rightarrow> u8 list option) \<Rightarrow> ('s, u8 list option) xdrproc" where
  "xdr_wrapstring ops alloc x_op cpp s = do {
     (b, cpp', s') \<leftarrow> xdr_string ops alloc LASTUNSIGNED x_op cpp s;
     Some (if b then True else False, cpp', s')
   }"

text \<open>\<open>for (i = 0; i < c && stat; i++) stat = elproc(xdrs, target)\<close>; an element past the block is an
  undefined access.\<close>

fun xdr_elems :: "('s, 'a) xdrproc \<Rightarrow> xdr_op \<Rightarrow> nat \<Rightarrow> 'a list \<Rightarrow> 's \<Rightarrow> (bool \<times> 'a list \<times> 's) option" where
  "xdr_elems elproc x_op 0 xs s = Some (True, xs, s)"
| "xdr_elems elproc x_op (Suc c) [] s = None"
| "xdr_elems elproc x_op (Suc c) (x # xs) s = do {
     (stat, x', s1) \<leftarrow> elproc x_op x s;
     if stat then do { (b, xs', s2) \<leftarrow> xdr_elems elproc x_op c xs s1; Some (b, x' # xs', s2) }
     else Some (False, x' # xs, s1)
   }"

text \<open>The loop that computes \<open>c * elsize\<close> by addition and stops when it wraps.\<close>

fun array_size :: "nat \<Rightarrow> u32 \<Rightarrow> u32 \<Rightarrow> u32 option" where
  "array_size 0 elsize nodesize = Some nodesize"
| "array_size (Suc i) elsize nodesize =
     (let tmp = nodesize + elsize in if tmp < nodesize then None else array_size i elsize tmp)"

text \<open>A filter knows its object by its address only. The model of a filter that allocates has the number \<open>osz\<close> of bytes
  that the filter of the object accesses there, and \<open>zero\<close>, the object whose bytes are 0. \<open>objects\<close> is how many
  such objects, \<open>elsize\<close> bytes apart, lie inside a block of \<open>n\<close> bytes. Objects that overlap, which a caller
  gets with an \<open>elsize\<close> below \<open>osz\<close>, are not modelled: of them there is only the first.\<close>

definition objects :: "nat \<Rightarrow> u32 \<Rightarrow> nat \<Rightarrow> nat" where
  "objects osz elsize n =
     (if n < osz then 0 else if unat elsize < osz then 1 else Suc ((n - osz) div unat elsize))"

text \<open>\<open>memset(target, 0, n)\<close> on a new block: the first \<open>c\<close> objects in it, or those that it has room for.\<close>

definition new_objects :: "u8 list \<Rightarrow> nat \<Rightarrow> nat \<Rightarrow> u32 \<Rightarrow> nat \<Rightarrow> 'a \<Rightarrow> 'a list option" where
  "new_objects b n osz elsize c zero =
     (if length b < n then None else Some (replicate (min c (objects osz elsize (length b))) zero))"

definition xdr_array :: "'s xdr_ops \<Rightarrow> (nat \<Rightarrow> u8 list option) \<Rightarrow> nat \<Rightarrow> 'a \<Rightarrow> u32 \<Rightarrow> u32 \<Rightarrow> ('s, 'a) xdrproc \<Rightarrow>
    ('s, 'a list option \<times> u32) xdrproc" where
  "xdr_array ops alloc osz zero maxsize elsize elproc x_op v s = (case v of (target, sizep) \<Rightarrow> do {
     (b, c, s1) \<leftarrow> xdr_u_int ops x_op sizep s;
     if \<not> b then Some (False, (target, c), s1)
     else if c > maxsize \<and> x_op \<noteq> XDR_FREE then Some (False, (target, c), s1)
     else
       case array_size (unat c) elsize 0 of
         None \<Rightarrow> Some (False, (target, c), s1)
       | Some nodesize \<Rightarrow>
           if target = None \<and> x_op = XDR_DECODE \<and> c = 0 then Some (True, (None, c), s1)
           else if target = None \<and> x_op = XDR_DECODE \<and> alloc (unat nodesize) = None then
             Some (False, (None, c), s1)
           else if target = None \<and> x_op = XDR_FREE then Some (True, (None, c), s1)
           else do {
             xs \<leftarrow> (case (target, alloc (unat nodesize)) of
                 (Some xs, _) \<Rightarrow> Some xs
               | (None, Some blk) \<Rightarrow>
                   if x_op = XDR_DECODE then new_objects blk (unat nodesize) osz elsize (unat c) zero else Some []
               | (None, None) \<Rightarrow> Some []);
             (stat, xs, s2) \<leftarrow> xdr_elems elproc x_op (unat c) xs s1;
             Some (stat,
               (if x_op = XDR_FREE \<or> target = None \<and> x_op = XDR_ENCODE then None else Some xs, c), s2)
           }
   })"

definition xdr_vector :: "u32 \<Rightarrow> ('s, 'a) xdrproc \<Rightarrow> ('s, 'a list) xdrproc" where
  "xdr_vector nelem xdr_elem x_op xs s = xdr_elems xdr_elem x_op (unat nelem) xs s"

definition xdr_reference :: "(nat \<Rightarrow> u8 list option) \<Rightarrow> nat \<Rightarrow> 'a \<Rightarrow> u32 \<Rightarrow> ('s, 'a) xdrproc \<Rightarrow> ('s, 'a option) xdrproc" where
  "xdr_reference alloc osz zero sz prc x_op pp s =
     (if pp = None \<and> x_op = XDR_FREE then Some (True, None, s)
      else if pp = None \<and> x_op = XDR_DECODE \<and> alloc (unat sz) = None then Some (False, None, s)
      else do {
        loc \<leftarrow> (case (pp, alloc (unat sz)) of
            (Some x, _) \<Rightarrow> Some x
          | (None, Some blk) \<Rightarrow>
              if x_op = XDR_DECODE \<and> unat sz \<le> length blk \<and> osz \<le> length blk then Some zero else None
          | (None, None) \<Rightarrow> None);
        (stat, loc', s') \<leftarrow> prc x_op loc s;
        Some (stat, if x_op = XDR_FREE then None else Some loc', s')
      })"

definition xdr_pointer :: "'s xdr_ops \<Rightarrow> (nat \<Rightarrow> u8 list option) \<Rightarrow> nat \<Rightarrow> 'a \<Rightarrow> u32 \<Rightarrow> ('s, 'a) xdrproc \<Rightarrow>
    ('s, 'a option) xdrproc" where
  "xdr_pointer ops alloc osz zero obj_size xdr_obj x_op objpp s = do {
     (b, more_data, s1) \<leftarrow> xdr_bool ops x_op (if objpp \<noteq> None then 1 else 0) s;
     if \<not> b then Some (False, objpp, s1)
     else if more_data = 0 then Some (True, None, s1)
     else xdr_reference alloc osz zero obj_size xdr_obj x_op objpp s1
   }"

text \<open>\<open>xdr_free\<close> runs the filter on a handle of which only \<open>x_op\<close> is set.\<close>

definition xdr_free :: "('s, 'v) xdrproc \<Rightarrow> 'v \<Rightarrow> 's \<Rightarrow> 'v option" where
  "xdr_free prc objp x = do { (b, objp', x') \<leftarrow> prc XDR_FREE objp x; Some objp' }"

end
