(* ===== verification/Xdr_Codec.thy ===== *)
theory Xdr_Codec
  imports Xdr
begin

text \<open>
  What the filters of \<open>Xdr\<close> promise over any stream that keeps the contract \<open>xdr_stream\<close>: the
  bytes each of them appends, that decoding these bytes restores the object, that a stream
  that ends too early is refused, and that no input makes decoding undefined.
\<close>

section \<open>Views of a stream\<close>

text \<open>\<open>written\<close> are the bytes encoded so far, \<open>fits s n\<close> says that \<open>n\<close> more can be encoded; \<open>ahead\<close> are
  the bytes that can still be decoded. \<open>wok\<close> and \<open>rok\<close> are the invariants of the two
  directions.\<close>

record 's xview =
  wok :: "'s \<Rightarrow> bool"
  rok :: "'s \<Rightarrow> bool"
  fits :: "'s \<Rightarrow> nat \<Rightarrow> bool"
  written :: "'s \<Rightarrow> u8 list"
  ahead :: "'s \<Rightarrow> u8 list"

text \<open>Numbers are transferred with the most significant byte first.\<close>

definition be32 :: "u32 \<Rightarrow> u8 list" where
  "be32 w = [ucast (drop_bit 24 w), ucast (drop_bit 16 w), ucast (drop_bit 8 w), ucast w]"

definition of_be32 :: "u8 list \<Rightarrow> u32" where
  "of_be32 bs = push_bit 24 (ucast (bs ! 0)) OR push_bit 16 (ucast (bs ! 1)) OR
     push_bit 8 (ucast (bs ! 2)) OR ucast (bs ! 3)"

lemma length_be32 [simp]: "length (be32 w) = 4"
  by (simp add: be32_def)

lemma of_be32_be32 [simp]: "of_be32 (be32 w) = w"
proof (rule bit_word_eqI)
  fix n assume "n < LENGTH(32)"
  then consider "n < 8" | "8 \<le> n" "n < 16" | "16 \<le> n" "n < 24" | "24 \<le> n" "n < 32" by fastforce
  then show "bit (of_be32 (be32 w)) n \<longleftrightarrow> bit w n"
    by cases (auto simp: of_be32_def be32_def bit_simps)
qed

lemma bit_u8_high [simp]: "\<not> bit (b :: u8) (8 + n)" "\<not> bit (b :: u8) (16 + n)" "\<not> bit (b :: u8) (24 + n)"
  by (auto dest: bit_imp_le_length)

lemma be32_of_be32:
  assumes "length bs = 4"
  shows "be32 (of_be32 bs) = bs"
proof -
  obtain a b c d where bs: "bs = [a, b, c, d]"
    using assms by (auto simp: numeral_eq_Suc length_Suc_conv)
  show ?thesis unfolding bs
    by (auto simp: of_be32_def be32_def bit_simps intro!: bit_word_eqI)
qed

lemma ucast_scast:
  assumes "LENGTH('a) \<le> LENGTH('b)"
  shows "ucast (scast (w :: 'a::len word) :: 'b::len word) = w"
proof (rule bit_word_eqI)
  fix n assume "n < LENGTH('a)"
  then have "n = LENGTH('a) - 1 \<or> n < LENGTH('a) - 1" by linarith
  then show "bit (ucast (scast w :: 'b word) :: 'a word) n \<longleftrightarrow> bit w n"
    using assms \<open>n < LENGTH('a)\<close> by (auto simp: bit_simps)
qed

lemma ucast_ucast_same:
  assumes "LENGTH('a) \<le> LENGTH('b)"
  shows "ucast (ucast (w :: 'a::len word) :: 'b::len word) = w"
  using assms by (intro bit_word_eqI) (auto simp: bit_simps)

text \<open>\<open>emits V f v bs\<close>: encoding \<open>v\<close> appends \<open>bs\<close>, and fails when they do not fit. \<open>yields V f v0 v bs\<close>:
  decoding into \<open>v0\<close> a stream that continues with \<open>bs\<close> succeeds with \<open>v\<close> and consumes exactly
  \<open>bs\<close>, and fails when the stream ends inside them. \<open>safe V f T\<close>: decoding into a target in
  \<open>T\<close> is defined whatever the stream holds.\<close>

definition emits :: "'s xview \<Rightarrow> ('s, 'v) xdrproc \<Rightarrow> 'v \<Rightarrow> u8 list \<Rightarrow> bool" where
  "emits V f v bs \<longleftrightarrow> (\<forall>s. wok V s \<longrightarrow>
     (if fits V s (length bs) then
        \<exists>s'. f XDR_ENCODE v s = Some (True, v, s') \<and> wok V s' \<and> written V s' = written V s @ bs \<and>
          (\<forall>n. fits V s' n \<longleftrightarrow> fits V s (length bs + n))
      else \<exists>v' s'. f XDR_ENCODE v s = Some (False, v', s')))"

definition yields :: "'s xview \<Rightarrow> ('s, 'v) xdrproc \<Rightarrow> 'v \<Rightarrow> 'v \<Rightarrow> u8 list \<Rightarrow> bool" where
  "yields V f v0 v bs \<longleftrightarrow>
     (\<forall>s rest. rok V s \<longrightarrow> ahead V s = bs @ rest \<longrightarrow>
        (\<exists>s'. f XDR_DECODE v0 s = Some (True, v, s') \<and> rok V s' \<and> ahead V s' = rest)) \<and>
     (\<forall>s n. rok V s \<longrightarrow> ahead V s = take n bs \<longrightarrow> n < length bs \<longrightarrow>
        (\<exists>v' s'. f XDR_DECODE v0 s = Some (False, v', s')))"

definition safe :: "'s xview \<Rightarrow> ('s, 'v) xdrproc \<Rightarrow> ('v \<Rightarrow> bool) \<Rightarrow> bool" where
  "safe V f T \<longleftrightarrow> (\<forall>s v0. rok V s \<longrightarrow> T v0 \<longrightarrow>
     (\<exists>b v s'. f XDR_DECODE v0 s = Some (b, v, s') \<and> (b \<longrightarrow> rok V s')))"

lemma emitsD:
  "emits V f v bs \<Longrightarrow> wok V s \<Longrightarrow> fits V s (length bs) \<Longrightarrow>
    \<exists>s'. f XDR_ENCODE v s = Some (True, v, s') \<and> wok V s' \<and> written V s' = written V s @ bs \<and>
      (\<forall>n. fits V s' n \<longleftrightarrow> fits V s (length bs + n))"
  unfolding emits_def by (metis (lifting))

lemma emits_fullD:
  "emits V f v bs \<Longrightarrow> wok V s \<Longrightarrow> \<not> fits V s (length bs) \<Longrightarrow>
    \<exists>v' s'. f XDR_ENCODE v s = Some (False, v', s')"
  unfolding emits_def by (metis (lifting))

lemma yieldsD:
  "yields V f v0 v bs \<Longrightarrow> rok V s \<Longrightarrow> ahead V s = bs @ rest \<Longrightarrow>
    \<exists>s'. f XDR_DECODE v0 s = Some (True, v, s') \<and> rok V s' \<and> ahead V s' = rest"
  unfolding yields_def by blast

lemma yields_shortD:
  "yields V f v0 v bs \<Longrightarrow> rok V s \<Longrightarrow> ahead V s = take n bs \<Longrightarrow> n < length bs \<Longrightarrow>
    \<exists>v' s'. f XDR_DECODE v0 s = Some (False, v', s')"
  unfolding yields_def by blast

lemma safeD:
  "safe V f T \<Longrightarrow> rok V s \<Longrightarrow> T v0 \<Longrightarrow>
    \<exists>b v s'. f XDR_DECODE v0 s = Some (b, v, s') \<and> (b \<longrightarrow> rok V s')"
  unfolding safe_def by blast

text \<open>A filter that runs \<open>g\<close> on a part \<open>a\<close> of its object, gives up when \<open>g\<close> fails, and goes on with
  the rest otherwise.\<close>

lemma emits_seq:
  assumes g: "emits V g a as" and h: "emits V h b bs" and mk: "mk b = v"
    and f: "\<And>s. f XDR_ENCODE v s = do {
        (ok, a', s1) \<leftarrow> g XDR_ENCODE a s; if \<not> ok then Some (False, F a', s1) else K a' s1 }"
    and K: "\<And>s1. K a s1 = do { (ok, b', s2) \<leftarrow> h XDR_ENCODE b s1; Some (ok, mk b', s2) }"
    and less: "\<And>s m n. wok V s \<Longrightarrow> fits V s (m + n) \<Longrightarrow> fits V s m"
  shows "emits V f v (as @ bs)"
  unfolding emits_def
proof (intro allI impI)
  fix s assume w: "wok V s"
  show "if fits V s (length (as @ bs)) then
      \<exists>s'. f XDR_ENCODE v s = Some (True, v, s') \<and> wok V s' \<and> written V s' = written V s @ as @ bs \<and>
        (\<forall>n. fits V s' n \<longleftrightarrow> fits V s (length (as @ bs) + n))
    else \<exists>v' s'. f XDR_ENCODE v s = Some (False, v', s')"
  proof (cases "fits V s (length as)")
    case False
    then have "\<not> fits V s (length (as @ bs))" using less [OF w] by auto
    with emits_fullD [OF g w False] show ?thesis by (auto simp: f)
  next
    case True
    from emitsD [OF g w True] obtain s1 where s1: "g XDR_ENCODE a s = Some (True, a, s1)" "wok V s1"
      "written V s1 = written V s @ as" and f1: "\<And>n. fits V s1 n \<longleftrightarrow> fits V s (length as + n)" by metis
    show ?thesis
    proof (cases "fits V s1 (length bs)")
      case True
      then show ?thesis using emitsD [OF h s1(2) True] s1 f1 mk by (auto simp: f K add.assoc)
    next
      case False
      then show ?thesis using emits_fullD [OF h s1(2) False] s1 f1 by (auto simp: f K)
    qed
  qed
qed

lemma yields_seq:
  assumes g: "yields V g a0 a as" and h: "yields V h b0 b bs"
    and f: "\<And>s. f XDR_DECODE v0 s = do {
        (ok, a', s1) \<leftarrow> g XDR_DECODE a0 s; if \<not> ok then Some (False, F a', s1) else K a' s1 }"
    and K: "\<And>s1. K a s1 = do { (ok, b', s2) \<leftarrow> h XDR_DECODE b0 s1; Some (ok, mk b', s2) }"
  shows "yields V f v0 (mk b) (as @ bs)"
  unfolding yields_def
proof (intro conjI allI impI)
  fix s rest assume s: "rok V s" "ahead V s = (as @ bs) @ rest"
  then have "ahead V s = as @ (bs @ rest)" by simp
  from yieldsD [OF g s(1) this] obtain s1 where s1: "g XDR_DECODE a0 s = Some (True, a, s1)" "rok V s1"
    "ahead V s1 = bs @ rest" by metis
  from yieldsD [OF h s1(2,3)] s1(1)
  show "\<exists>s'. f XDR_DECODE v0 s = Some (True, mk b, s') \<and> rok V s' \<and> ahead V s' = rest"
    by (auto simp: f K)
next
  fix s n assume s: "rok V s" "ahead V s = take n (as @ bs)" "n < length (as @ bs)"
  show "\<exists>v' s'. f XDR_DECODE v0 s = Some (False, v', s')"
  proof (cases "n < length as")
    case True
    then have "ahead V s = take n as" using s by simp
    from yields_shortD [OF g s(1) this True] show ?thesis by (auto simp: f)
  next
    case False
    then have a: "ahead V s = as @ take (n - length as) bs" using s by simp
    from yieldsD [OF g s(1) a] obtain s1 where s1: "g XDR_DECODE a0 s = Some (True, a, s1)" "rok V s1"
      "ahead V s1 = take (n - length as) bs" by metis
    have "n - length as < length bs" using False s(3) by auto
    from yields_shortD [OF h s1(2,3) this] s1(1) show ?thesis by (auto simp: f K)
  qed
qed

lemma safe_seq:
  assumes g: "safe V g T" and sel: "\<And>v0. T' v0 \<Longrightarrow> T (sel v0)"
    and f: "\<And>v0 s. T' v0 \<Longrightarrow> f XDR_DECODE v0 s = do {
        (ok, a', s1) \<leftarrow> g XDR_DECODE (sel v0) s; if \<not> ok then Some (False, F v0 a', s1) else K v0 a' s1 }"
    and K: "\<And>v0 a s1. T' v0 \<Longrightarrow> rok V s1 \<Longrightarrow> \<exists>b v s'. K v0 a s1 = Some (b, v, s') \<and> (b \<longrightarrow> rok V s')"
  shows "safe V f T'"
  unfolding safe_def
proof (intro allI impI)
  fix s v0 assume s: "rok V s" "T' v0"
  from safeD [OF g s(1) sel [OF s(2)]] obtain ok a s1 where
    "g XDR_DECODE (sel v0) s = Some (ok, a, s1)" "ok \<longrightarrow> rok V s1" by metis
  then show "\<exists>b v s'. f XDR_DECODE v0 s = Some (b, v, s') \<and> (b \<longrightarrow> rok V s')"
    using K [OF s(2)] by (cases ok) (auto simp: f [OF s(2)])
qed

section \<open>Opaque data\<close>

text \<open>Opaque bytes are padded with zeros to a multiple of four.\<close>

definition pad :: "nat \<Rightarrow> nat" where
  "pad n = (if n mod 4 = 0 then 0 else 4 - n mod 4)"

definition padded :: "u8 list \<Rightarrow> u8 list" where
  "padded bs = bs @ replicate (pad (length bs)) 0"

lemma pad_less: "pad n < 4"
  by (simp add: pad_def)

lemma length_padded: "length (padded bs) = length bs + pad (length bs)"
  by (simp add: padded_def)

lemma pad_mod: "(n + pad n) mod 4 = 0"
proof -
  have "n mod 4 + pad n = 0 \<or> n mod 4 + pad n = 4" by (auto simp: pad_def)
  moreover have "(n + pad n) mod 4 = (n mod 4 + pad n) mod 4" by (simp add: mod_add_left_eq)
  ultimately show ?thesis by auto
qed

lemma unat_rndup:
  "unat (if cnt mod 4 > 0 then 4 - cnt mod 4 else cnt mod 4 :: u32) = pad (unat cnt)"
proof -
  have m: "unat (cnt mod 4) = unat cnt mod 4" by (simp add: unat_mod_distrib)
  have "unat (4 - cnt mod 4) = 4 - unat cnt mod 4"
  proof -
    have "cnt mod 4 \<le> 4" by (simp add: word_le_nat_alt m)
    then show ?thesis by (simp add: unat_sub m)
  qed
  then show ?thesis using m by (auto simp: pad_def word_less_nat_alt)
qed

text \<open>The loop of \<open>xdr_array\<close> computes the product or finds that it does not fit.\<close>

lemma array_size_eq: "array_size n elsize acc =
    (if unat acc + n * unat elsize < 4294967296 then Some (acc + of_nat n * elsize) else None)"
proof (induction n arbitrary: acc)
  case 0
  then show ?case using unat_u32 [of acc] by simp
next
  case (Suc n)
  have "acc + elsize < acc \<longleftrightarrow> 4294967296 \<le> unat acc + unat elsize"
    using unat_u32 [of acc] unat_u32 [of elsize]
    by (auto simp: word_less_nat_alt unat_plus_if')
  moreover have "unat (acc + elsize) = unat acc + unat elsize" if "unat acc + unat elsize < 4294967296"
    using that by (simp add: unat_plus_if')
  ultimately show ?case using Suc.IH [of "acc + elsize"]
    by (auto simp: Let_def algebra_simps)
qed

text \<open>A block of the size that \<open>xdr_array\<close> asks for has room for its elements.\<close>

lemma objects_enough:
  assumes "length b = c * unat elsize" "osz \<le> unat elsize" "0 < elsize"
  shows "new_objects b (c * unat elsize) osz elsize c zero = Some (replicate c zero)"
proof -
  have e: "0 < unat elsize" using assms(3) by (simp add: word_less_nat_alt)
  have "c \<le> objects osz elsize (length b)"
  proof (cases c)
    case (Suc k)
    have "k * unat elsize \<le> length b - osz" using assms(1,2) Suc by simp
    then have "k \<le> (length b - osz) div unat elsize" using e by (simp add: less_eq_div_iff_mult_less_eq)
    moreover have "\<not> length b < osz" using assms(1,2) Suc by simp
    ultimately show ?thesis using assms(2) Suc by (simp add: objects_def)
  qed simp
  then show ?thesis using assms(1) by (simp add: new_objects_def min_absorb1)
qed

lemma store_bytes_Some: "length w \<le> length buf \<Longrightarrow> store_bytes w buf = Some (w @ drop (length w) buf)"
  by (simp add: store_bytes_def)

section \<open>The contract of a stream\<close>

locale xdr_stream =
  fixes ops :: "'s xdr_ops" and V :: "'s xview"
  assumes fits_less: "wok V s \<Longrightarrow> fits V s n \<Longrightarrow> m \<le> n \<Longrightarrow> fits V s m"
    and fits_0: "wok V s \<Longrightarrow> fits V s 0"
    and putlong: "wok V s \<Longrightarrow> fits V s 4 \<Longrightarrow>
      \<exists>s'. x_putlong ops w s = Some (True, s') \<and> wok V s' \<and> written V s' = written V s @ be32 w \<and>
        (\<forall>n. fits V s' n \<longleftrightarrow> fits V s (4 + n))"
    and putlong_full: "wok V s \<Longrightarrow> \<not> fits V s 4 \<Longrightarrow> \<exists>s'. x_putlong ops w s = Some (False, s')"
    and putbytes: "wok V s \<Longrightarrow> fits V s (unat len) \<Longrightarrow> unat len \<le> length bs \<Longrightarrow>
      \<exists>s'. x_putbytes ops bs len s = Some (True, s') \<and> wok V s' \<and>
        written V s' = written V s @ take (unat len) bs \<and> (\<forall>n. fits V s' n \<longleftrightarrow> fits V s (unat len + n))"
    and putbytes_full: "wok V s \<Longrightarrow> \<not> fits V s (unat len) \<Longrightarrow> unat len \<le> length bs \<Longrightarrow>
      \<exists>s'. x_putbytes ops bs len s = Some (False, s')"
    and getlong: "rok V s \<Longrightarrow> 4 \<le> length (ahead V s) \<Longrightarrow>
      \<exists>s'. x_getlong ops s = Some (Some (of_be32 (take 4 (ahead V s))), s') \<and> rok V s' \<and>
        ahead V s' = drop 4 (ahead V s)"
    and getlong_short: "rok V s \<Longrightarrow> length (ahead V s) < 4 \<Longrightarrow> \<exists>s'. x_getlong ops s = Some (None, s')"
    and getbytes: "rok V s \<Longrightarrow> unat len \<le> length (ahead V s) \<Longrightarrow>
      \<exists>s'. x_getbytes ops len s = Some (True, take (unat len) (ahead V s), s') \<and> rok V s' \<and>
        ahead V s' = drop (unat len) (ahead V s)"
    and getbytes_short: "rok V s \<Longrightarrow> length (ahead V s) < unat len \<Longrightarrow>
      \<exists>s' w. x_getbytes ops len s = Some (False, w, s') \<and> length w \<le> unat len"
begin

text \<open>Integers: a filter that puts \<open>enc v\<close> and reads back \<open>dec\<close>.\<close>

definition number :: "('s, 'v) xdrproc \<Rightarrow> ('v \<Rightarrow> u32) \<Rightarrow> (u32 \<Rightarrow> 'v) \<Rightarrow> bool" where
  "number f enc dec \<longleftrightarrow>
     (\<forall>v s. f XDR_ENCODE v s = do { (b, s') \<leftarrow> x_putlong ops (enc v) s; Some (b, v, s') }) \<and>
     (\<forall>v s. f XDR_DECODE v s = do { (r, s') \<leftarrow> x_getlong ops s;
        Some (case r of None \<Rightarrow> (False, v, s') | Some l \<Rightarrow> (True, dec l, s')) })"

lemma number_emits: "number f enc dec \<Longrightarrow> emits V f v (be32 (enc v))"
  unfolding number_def emits_def
proof (intro allI impI, elim conjE)
  fix s
  assume n: "\<forall>v s. f XDR_ENCODE v s = do { (b, s') \<leftarrow> x_putlong ops (enc v) s; Some (b, v, s') }"
    and w: "wok V s"
  show "if fits V s (length (be32 (enc v))) then
      \<exists>s'. f XDR_ENCODE v s = Some (True, v, s') \<and> wok V s' \<and> written V s' = written V s @ be32 (enc v) \<and>
        (\<forall>m. fits V s' m \<longleftrightarrow> fits V s (length (be32 (enc v)) + m))
    else \<exists>v' s'. f XDR_ENCODE v s = Some (False, v', s')"
  proof (cases "fits V s 4")
    case True
    from putlong [OF w True, of "enc v"] True n show ?thesis by fastforce
  next
    case False
    from putlong_full [OF w False, of "enc v"] False n show ?thesis by fastforce
  qed
qed

lemma number_decode:
  assumes "number f enc dec" "rok V s" "4 \<le> length (ahead V s)"
  obtains s' where "f XDR_DECODE v0 s = Some (True, dec (of_be32 (take 4 (ahead V s))), s')" "rok V s'"
    "ahead V s' = drop 4 (ahead V s)"
  using assms getlong [OF assms(2,3)] unfolding number_def by auto

lemma number_decode_short:
  assumes "number f enc dec" "rok V s" "length (ahead V s) < 4"
  obtains s' where "f XDR_DECODE v0 s = Some (False, v0, s')"
  using assms getlong_short [OF assms(2,3)] unfolding number_def by auto

lemma number_yields:
  assumes "number f enc dec"
  shows "yields V f v0 (dec w) (be32 w)"
  unfolding yields_def
proof (intro conjI allI impI)
  fix s rest assume "rok V s" "ahead V s = be32 w @ rest"
  then show "\<exists>s'. f XDR_DECODE v0 s = Some (True, dec w, s') \<and> rok V s' \<and> ahead V s' = rest"
    using number_decode [OF assms, of s v0] by auto
next
  fix s n assume "rok V s" "ahead V s = take n (be32 w)" "n < length (be32 w)"
  then show "\<exists>v' s'. f XDR_DECODE v0 s = Some (False, v', s')"
    by - (rule number_decode_short [OF assms, of s v0], auto)
qed

lemma number_safe:
  assumes "number f enc dec"
  shows "safe V f (\<lambda>_. True)"
  unfolding safe_def
proof (intro allI impI)
  fix s v0 assume r: "rok V s"
  show "\<exists>b v s'. f XDR_DECODE v0 s = Some (b, v, s') \<and> (b \<longrightarrow> rok V s')"
  proof (cases "4 \<le> length (ahead V s)")
    case True
    show ?thesis by (rule number_decode [OF assms r True, of v0]) auto
  next
    case False
    then have "length (ahead V s) < 4" by simp
    from number_decode_short [OF assms r this, of v0] show ?thesis by blast
  qed
qed

lemma number_u_int: "number (xdr_u_int ops) id id"
  and number_long: "number (xdr_long ops) id id"
  and number_int: "number (xdr_int ops) id id"
  and number_enum: "number (xdr_enum ops) id id"
  and number_float: "number (xdr_float ops) id id"
  and number_short: "number (xdr_short ops) scast ucast"
  and number_u_short: "number (xdr_u_short ops) ucast ucast"
  and number_bool: "number (xdr_bool ops) (\<lambda>b. if b \<noteq> 0 then 1 else 0) (\<lambda>b. if b = 0 then 0 else 1)"
  by (auto simp: number_def xdr_u_int_def xdr_u_long_def xdr_long_def xdr_int_def xdr_enum_def
      xdr_float_def xdr_short_def xdr_u_short_def xdr_bool_def id_def)

text \<open>A filter that goes through a number of another width.\<close>

lemma number_through:
  assumes g: "number g enc dec" and c: "\<And>v. dec' (enc' v) = v"
    and f: "\<And>x_op v s. f x_op v s = do {
      (b, i, s') \<leftarrow> g x_op (enc' v) s; Some (if b then (True, dec' i, s') else (False, v, s')) }"
  shows "number f (\<lambda>v. enc (enc' v)) (\<lambda>w. dec' (dec w))"
proof -
  have ge: "g XDR_ENCODE w s = do { (b, s') \<leftarrow> x_putlong ops (enc w) s; Some (b, w, s') }"
    and gd: "g XDR_DECODE w s = do { (r, s') \<leftarrow> x_getlong ops s;
      Some (case r of None \<Rightarrow> (False, w, s') | Some l \<Rightarrow> (True, dec l, s')) }" for w s
    using g unfolding number_def by blast+
  show ?thesis unfolding number_def
  proof (intro conjI allI)
    fix v s
    show "f XDR_ENCODE v s = do { (b, s') \<leftarrow> x_putlong ops (enc (enc' v)) s; Some (b, v, s') }"
      unfolding f ge by (cases "x_putlong ops (enc (enc' v)) s") (auto simp: c)
    show "f XDR_DECODE v s = do { (r, s') \<leftarrow> x_getlong ops s;
        Some (case r of None \<Rightarrow> (False, v, s') | Some l \<Rightarrow> (True, dec' (dec l), s')) }"
      unfolding f gd by (cases "x_getlong ops s") (auto split: option.splits)
  qed
qed

lemma number_char: "number (xdr_char ops) scast ucast"
  using number_through [OF number_int, of ucast scast "xdr_char ops"]
  by (simp add: ucast_scast xdr_char_def)

lemma number_u_char: "number (xdr_u_char ops) ucast ucast"
  using number_through [OF number_u_int, of ucast ucast "xdr_u_char ops"]
  by (simp add: ucast_ucast_same xdr_u_char_def)

lemma opaque_emits:
  assumes len: "unat cnt \<le> length v"
  shows "emits V (xdr_opaque ops cnt) v (padded (take (unat cnt) v))"
  unfolding emits_def
proof (intro allI impI)
  fix s assume w: "wok V s"
  let ?n = "unat cnt" and ?r = "if cnt mod 4 > 0 then 4 - cnt mod 4 else cnt mod 4"
  let ?p = "pad ?n"
  have L: "length (padded (take ?n v)) = ?n + ?p" using len by (simp add: length_padded)
  have r: "unat ?r = ?p" by (rule unat_rndup)
  have r0: "?r = 0 \<longleftrightarrow> ?p = 0" unfolding r [symmetric] by (rule unat_eq_zero [symmetric])
  show "if fits V s (length (padded (take ?n v))) then
      \<exists>s'. xdr_opaque ops cnt XDR_ENCODE v s = Some (True, v, s') \<and> wok V s' \<and>
        written V s' = written V s @ padded (take ?n v) \<and>
        (\<forall>m. fits V s' m \<longleftrightarrow> fits V s (length (padded (take ?n v)) + m))
    else \<exists>v' s'. xdr_opaque ops cnt XDR_ENCODE v s = Some (False, v', s')"
  proof (cases "cnt = 0")
    case True
    then show ?thesis using w fits_0 [OF w] by (simp add: xdr_opaque_def padded_def pad_def)
  next
    case False
    show ?thesis
    proof (cases "fits V s ?n")
      case no: False
      then have "\<not> fits V s (?n + ?p)" using fits_less [OF w] by (metis le_add1)
      moreover obtain s1 where "x_putbytes ops v cnt s = Some (False, s1)"
        using putbytes_full [OF w no len] by blast
      ultimately show ?thesis using False by (simp add: L xdr_opaque_def Let_def)
    next
      case True
      obtain s1 where s1: "x_putbytes ops v cnt s = Some (True, s1)" "wok V s1"
        "written V s1 = written V s @ take ?n v" and f1: "\<And>m. fits V s1 m \<longleftrightarrow> fits V s (?n + m)"
        using putbytes [OF w True len] by blast
      show ?thesis
      proof (cases "?p = 0")
        case p0: True
        then show ?thesis using False s1 f1 True r0 len
          by (simp add: L xdr_opaque_def Let_def padded_def)
      next
        case p: False
        have z: "unat ?r \<le> length [0::u8, 0, 0, 0]" unfolding r using pad_less [of ?n] by simp
        have t: "take ?p [0::u8, 0, 0, 0] = replicate ?p 0"
          using pad_less [of ?n] by (auto simp: less_Suc_eq numeral_eq_Suc)
        have enc: "xdr_opaque ops cnt XDR_ENCODE v s =
            do { (b', s2) \<leftarrow> x_putbytes ops [0, 0, 0, 0] ?r s1; Some (b', v, s2) }"
          using False s1 p r0 by (simp add: xdr_opaque_def Let_def)
        show ?thesis
        proof (cases "fits V s1 ?p")
          case True
          then obtain s2 where "x_putbytes ops [0, 0, 0, 0] ?r s1 = Some (True, s2)" "wok V s2"
            "written V s2 = written V s1 @ replicate ?p 0" "\<And>m. fits V s2 m \<longleftrightarrow> fits V s1 (?p + m)"
            using putbytes [OF s1(2) _ z] unfolding r t by blast
          then show ?thesis using True s1 f1 len unfolding enc by (simp add: L padded_def add.assoc)
        next
          case no: False
          then obtain s2 where "x_putbytes ops [0, 0, 0, 0] ?r s1 = Some (False, s2)"
            using putbytes_full [OF s1(2) _ z] unfolding r by blast
          then show ?thesis using no f1 unfolding enc by (simp add: L)
        qed
      qed
    qed
  qed
qed

lemma opaque_decode:
  assumes s: "rok V s" and len: "unat cnt \<le> length buf"
  shows "if unat cnt + pad (unat cnt) \<le> length (ahead V s) then
      \<exists>s'. xdr_opaque ops cnt XDR_DECODE buf s = Some (True, take (unat cnt) (ahead V s) @ drop (unat cnt) buf, s') \<and>
        rok V s' \<and> ahead V s' = drop (unat cnt + pad (unat cnt)) (ahead V s)
    else \<exists>v' s'. xdr_opaque ops cnt XDR_DECODE buf s = Some (False, v', s')"
proof -
  let ?n = "unat cnt" and ?r = "if cnt mod 4 > 0 then 4 - cnt mod 4 else cnt mod 4"
  let ?p = "pad ?n" and ?a = "ahead V s"
  have r: "unat ?r = ?p" by (rule unat_rndup)
  have r0: "?r = 0 \<longleftrightarrow> ?p = 0" unfolding r [symmetric] by (rule unat_eq_zero [symmetric])
  show ?thesis
  proof (cases "cnt = 0")
    case True
    then show ?thesis using s by (simp add: xdr_opaque_def pad_def)
  next
    case nz: False
    show ?thesis
    proof (cases "?n \<le> length ?a")
      case False
      then obtain s1 w where "x_getbytes ops cnt s = Some (False, w, s1)" "length w \<le> ?n"
        using getbytes_short [OF s] by (metis not_le)
      then show ?thesis using False nz len by (simp add: xdr_opaque_def Let_def store_bytes_def)
    next
      case True
      obtain s1 where s1: "x_getbytes ops cnt s = Some (True, take ?n ?a, s1)" "rok V s1"
        "ahead V s1 = drop ?n ?a"
        using getbytes [OF s True] by blast
      have dec: "xdr_opaque ops cnt XDR_DECODE buf s = (let cp' = take ?n ?a @ drop ?n buf in
          if ?p = 0 then Some (True, cp', s1)
          else do { (b', crud, s2) \<leftarrow> x_getbytes ops ?r s1; Some (b', cp', s2) })"
        using nz s1 r0 True len by (simp add: xdr_opaque_def Let_def store_bytes_Some min_absorb2)
      show ?thesis
      proof (cases "?n + ?p \<le> length ?a")
        case ok: True
        then have q: "unat ?r \<le> length (ahead V s1)" unfolding r s1(3) by simp
        obtain s2 where "x_getbytes ops ?r s1 = Some (True, take ?p (ahead V s1), s2)" "rok V s2"
          "ahead V s2 = drop ?p (ahead V s1)"
          using getbytes [OF s1(2) q] unfolding r by blast
        then show ?thesis using ok s1 unfolding dec by (simp add: Let_def add.commute)
      next
        case no: False
        then have q: "length (ahead V s1) < unat ?r" using True unfolding r s1(3) by simp
        obtain s2 w where "x_getbytes ops ?r s1 = Some (False, w, s2)"
          using getbytes_short [OF s1(2) q] by blast
        then show ?thesis using no True unfolding dec by (auto simp: Let_def)
      qed
    qed
  qed
qed

lemma opaque_yields:
  assumes "unat cnt = length bs" "length bs \<le> length buf"
  shows "yields V (xdr_opaque ops cnt) buf (bs @ drop (length bs) buf) (padded bs)"
  unfolding yields_def
proof (intro conjI allI impI)
  fix s rest assume s: "rok V s" "ahead V s = padded bs @ rest"
  then show "\<exists>s'. xdr_opaque ops cnt XDR_DECODE buf s = Some (True, bs @ drop (length bs) buf, s') \<and>
      rok V s' \<and> ahead V s' = rest"
    using opaque_decode [OF s(1), of cnt buf] assms by (simp add: padded_def)
next
  fix s n assume s: "rok V s" "ahead V s = take n (padded bs)" "n < length (padded bs)"
  then show "\<exists>v' s'. xdr_opaque ops cnt XDR_DECODE buf s = Some (False, v', s')"
    using opaque_decode [OF s(1), of cnt buf] assms by (simp add: length_padded split: if_splits)
qed

lemma opaque_safe: "safe V (xdr_opaque ops cnt) (\<lambda>buf. unat cnt \<le> length buf)"
  unfolding safe_def
proof (intro allI impI)
  fix s and buf :: "u8 list" assume s: "rok V s" "unat cnt \<le> length buf"
  from opaque_decode [OF this]
  show "\<exists>b v s'. xdr_opaque ops cnt XDR_DECODE buf s = Some (b, v, s') \<and> (b \<longrightarrow> rok V s')"
    by (auto split: if_splits)
qed

lemmas emits_u_int = number_emits [OF number_u_int, unfolded id_apply]
  and yields_u_int = number_yields [OF number_u_int, unfolded id_apply]
  and safe_u_int = number_safe [OF number_u_int]
  and emits_enum = number_emits [OF number_enum, unfolded id_apply]
  and yields_enum = number_yields [OF number_enum, unfolded id_apply]
  and safe_enum = number_safe [OF number_enum]

lemma fits_add: "wok V s \<Longrightarrow> fits V s (m + n) \<Longrightarrow> fits V s m"
  using fits_less by (metis le_add1)

text \<open>Doubles: the low word first.\<close>

lemma double_emits:
  "emits V (xdr_double ops) d (be32 (ucast d) @ be32 (ucast (drop_bit 32 d)))"
  by (rule emits_seq [OF number_emits [OF number_long] number_emits [OF number_long],
        unfolded id_apply, where mk = "\<lambda>_. d" and F = "\<lambda>_. d" and
        K = "\<lambda>_ s1. do { (ok, b', s2) \<leftarrow> xdr_long ops XDR_ENCODE (ucast (drop_bit 32 d)) s1; Some (ok, d, s2) }"])
    (auto simp: xdr_double_def xdr_long_def fits_add split: Option.bind_split)

section \<open>Counted data\<close>

lemma bytes_emits:
  assumes "n \<le> maxsize" "unat n \<le> length (block sp)"
  shows "emits V (xdr_bytes ops alloc maxsize) (sp, n) (be32 n @ padded (take (unat n) (block sp)))"
  by (rule emits_seq [OF emits_u_int opaque_emits [OF assms(2)], where mk = "\<lambda>_. (sp, n)"
        and F = "\<lambda>a. (sp, a)" and K = "\<lambda>a s1. if a > maxsize then Some (False, (sp, a), s1)
          else do { (ok, b', s2) \<leftarrow> xdr_opaque ops a XDR_ENCODE (block sp) s1; Some (ok, (sp, a), s2) }"])
    (use assms(1) in \<open>auto simp: xdr_bytes_def fits_add not_less split: Option.bind_split\<close>)

lemma bytes_yields:
  assumes "n \<le> maxsize" "unat n = length bs" "n \<noteq> 0" "sure_block alloc n sp0 = Some buf" "length bs \<le> length buf"
  shows "yields V (xdr_bytes ops alloc maxsize) (sp0, n0) (Some (bs @ drop (length bs) buf), n) (be32 n @ padded bs)"
  by (rule yields_seq [OF yields_u_int [of n0 n] opaque_yields [OF assms(2,5)], where mk = "\<lambda>b. (Some b, n)"
        and F = "\<lambda>a. (sp0, a)" and K = "\<lambda>a s1. if a > maxsize then Some (False, (sp0, a), s1)
          else if a = 0 then Some (True, (sp0, a), s1)
          else (case sure_block alloc a sp0 of None \<Rightarrow> Some (False, (None, a), s1)
            | Some buf \<Rightarrow> do { (ok, b', s2) \<leftarrow> xdr_opaque ops a XDR_DECODE buf s1; Some (ok, (Some b', a), s2) })"])
    (use assms in \<open>auto simp: xdr_bytes_def not_less split: Option.bind_split\<close>)

lemma bytes_safe:
  "safe V (xdr_bytes ops alloc maxsize)
    (\<lambda>(sp, _). \<forall>n \<le> maxsize. n \<noteq> 0 \<longrightarrow> (\<forall>buf. sure_block alloc n sp = Some buf \<longrightarrow> unat n \<le> length buf))"
    (is "safe V _ ?T")
proof -
  let ?K = "\<lambda>v a s1. if a > maxsize then Some (False, (fst v, a), s1)
      else if a = 0 then Some (True, (fst v, a), s1)
      else (case sure_block alloc a (fst v) of None \<Rightarrow> Some (False, (None, a), s1)
        | Some buf \<Rightarrow> do { (ok, b', s2) \<leftarrow> xdr_opaque ops a XDR_DECODE buf s1; Some (ok, (Some b', a), s2) })"
  have K: "\<exists>b v' s'. ?K v a s1 = Some (b, v', s') \<and> (b \<longrightarrow> rok V s')" if "?T v" "rok V s1" for v a s1
  proof (cases "a \<le> maxsize \<and> a \<noteq> 0 \<and> sure_block alloc a (fst v) \<noteq> None")
    case False
    then show ?thesis using that by (auto simp: not_less not_le)
  next
    case True
    then obtain buf where b: "sure_block alloc a (fst v) = Some buf" by blast
    then have "unat a \<le> length buf" using that True by (cases v) auto
    from safeD [OF opaque_safe that(2) this] True b show ?thesis by (auto simp: not_less)
  qed
  show ?thesis
    by (rule safe_seq [OF safe_u_int, where sel = snd and F = "\<lambda>v a. (fst v, a)" and K = ?K])
      (use K in \<open>auto simp: xdr_bytes_def split: Option.bind_split\<close>)
qed

section \<open>Strings\<close>

lemma strlen_of_Some: "0 \<notin> set cs \<Longrightarrow> strlen_of (Some (cs @ 0 # rest)) = Some (length cs)"
proof -
  assume cs: "0 \<notin> set cs"
  have "strlen_loop (pre @ cs @ 0 # rest) (length pre) = Some (length cs)" for pre
    using cs
  proof (induction cs arbitrary: pre)
    case Nil
    then show ?case by (simp add: strlen_loop.simps [of _ "length pre"])
  next
    case (Cons c cs)
    from Cons(1) [of "pre @ [c]"] Cons(2) show ?case
      by (simp add: strlen_loop.simps [of _ "length pre"] nth_append)
  qed
  from this [of "[]"] show ?thesis by (simp add: strlen_of_def)
qed

lemma string_emits:
  assumes "0 \<notin> set cs" "length cs \<le> unat maxsize"
  shows "emits V (xdr_string ops alloc maxsize) (Some (cs @ 0 # rest)) (be32 (of_nat (length cs)) @ padded cs)"
proof -
  have n: "unat (of_nat (length cs) :: u32) = length cs"
    using assms(2) unat_u32 [of maxsize] by (simp add: unat_of_nat)
  then have le: "of_nat (length cs) \<le> maxsize" using assms(2) by (simp add: word_le_nat_alt)
  have t: "unat (of_nat (length cs) :: u32) \<le> length (cs @ 0 # rest)" unfolding n by simp
  from opaque_emits [OF t] have o: "emits V (xdr_opaque ops (of_nat (length cs))) (cs @ 0 # rest) (padded cs)"
    unfolding n by simp
  show ?thesis
    by (rule emits_seq [OF emits_u_int o, where mk = "\<lambda>_. Some (cs @ 0 # rest)"
          and F = "\<lambda>a. Some (cs @ 0 # rest)" and K = "\<lambda>a s1. if a > maxsize then Some (False, Some (cs @ 0 # rest), s1)
            else do { (ok, b', s2) \<leftarrow> xdr_opaque ops a XDR_ENCODE (cs @ 0 # rest) s1; Some (ok, Some (cs @ 0 # rest), s2) }"])
      (use le in \<open>auto simp: xdr_string_def strlen_of_Some [OF assms(1)] block_def Let_def fits_add not_less
        split: Option.bind_split\<close>)
qed

lemma string_yields:
  assumes cs: "length cs \<le> unat maxsize" "length cs < 4294967295"
    and buf: "sure_block alloc (of_nat (length cs) + 1) sp0 = Some buf" "length cs < length buf"
  shows "yields V (xdr_string ops alloc maxsize) sp0 (Some (cs @ 0 # drop (Suc (length cs)) buf))
    (be32 (of_nat (length cs)) @ padded cs)"
proof -
  let ?n = "of_nat (length cs) :: u32"
  have n: "unat ?n = length cs" using cs(2) by (simp add: unat_of_nat)
  then have le: "?n \<le> maxsize" using cs(1) by (simp add: word_le_nat_alt)
  have "unat (?n + 1) = Suc (length cs)"
    using cs(2) by (simp add: n unat_word_ariths(1))
  then have z: "?n + 1 \<noteq> 0" by force
  have s: "store buf (unat ?n) 0 = Some (buf[length cs := 0])" using buf(2) n by (simp add: store_def)
  have o: "yields V (xdr_opaque ops ?n) (buf[length cs := 0]) (cs @ drop (length cs) (buf[length cs := 0])) (padded cs)"
    using opaque_yields [of ?n cs "buf[length cs := 0]"] n buf(2) by simp
  have d: "drop (length cs) (buf[length cs := 0]) = 0 # drop (Suc (length cs)) buf"
    using buf(2) by (simp add: drop_update_swap flip: Cons_nth_drop_Suc)
  show ?thesis unfolding d [symmetric]
    by (rule yields_seq [OF yields_u_int o, where mk = Some and F = "\<lambda>_. sp0" and
          K = "\<lambda>a s1. if a > maxsize then Some (False, sp0, s1) else if a + 1 = 0 then Some (True, sp0, s1)
            else (case sure_block alloc (a + 1) sp0 of None \<Rightarrow> Some (False, None, s1)
              | Some buf \<Rightarrow> do { buf1 \<leftarrow> store buf (unat a) 0;
                  (ok, b', s2) \<leftarrow> xdr_opaque ops a XDR_DECODE buf1 s1; Some (ok, Some b', s2) })"])
      (use le z buf(1) s in \<open>auto simp: xdr_string_def Let_def not_less split: Option.bind_split\<close>)
qed

lemma string_safe:
  "safe V (xdr_string ops alloc maxsize)
    (\<lambda>sp. \<forall>n \<le> maxsize. n + 1 \<noteq> 0 \<longrightarrow> (\<forall>buf. sure_block alloc (n + 1) sp = Some buf \<longrightarrow> unat n < length buf))"
    (is "safe V _ ?T")
proof -
  let ?K = "\<lambda>sp0 a s1. if a > maxsize then Some (False, sp0, s1) else if a + 1 = 0 then Some (True, sp0, s1)
      else (case sure_block alloc (a + 1) sp0 of None \<Rightarrow> Some (False, None, s1)
        | Some buf \<Rightarrow> do { buf1 \<leftarrow> store buf (unat a) 0;
            (ok, b', s2) \<leftarrow> xdr_opaque ops a XDR_DECODE buf1 s1; Some (ok, Some b', s2) })"
  have K: "\<exists>b v' s'. ?K v a s1 = Some (b, v', s') \<and> (b \<longrightarrow> rok V s')" if "?T v" "rok V s1" for v a s1
  proof (cases "a \<le> maxsize \<and> a + 1 \<noteq> 0 \<and> sure_block alloc (a + 1) v \<noteq> None")
    case False
    then show ?thesis using that by (auto simp: not_less not_le)
  next
    case True
    then obtain buf where b: "sure_block alloc (a + 1) v = Some buf" by blast
    then have l: "unat a < length buf" using that True by auto
    then have "unat a \<le> length (buf[unat a := 0])" by simp
    from safeD [OF opaque_safe that(2) this] True b l show ?thesis by (auto simp: not_less store_def)
  qed
  show ?thesis
    by (rule safe_seq [OF safe_u_int, where sel = "\<lambda>_. 0" and F = "\<lambda>sp0 _. sp0" and K = ?K])
      (use K in \<open>auto simp: xdr_string_def Let_def split: Option.bind_split\<close>)
qed

text \<open>A length of \<open>0xffffffff\<close> wraps \<open>nodesize\<close> to 0: \<open>xdr_wrapstring\<close> accepts it as a complete
  string and stores nothing.\<close>

lemma wrapstring_wraps: "yields V (xdr_wrapstring ops alloc) sp0 sp0 (be32 LASTUNSIGNED)"
proof -
  have m: "\<not> LASTUNSIGNED < a" for a using unat_u32 [of a] by (simp add: word_less_nat_alt)
  have "yields V (xdr_wrapstring ops alloc) sp0 sp0 (be32 LASTUNSIGNED @ [])"
    by (rule yields_seq [OF yields_u_int, where h = xdr_void and mk = "\<lambda>v. v" and F = "\<lambda>_. sp0" and
          K = "\<lambda>a s1. do { (b, v, s') \<leftarrow> (if a + 1 = 0 then Some (True, sp0, s1)
            else (case sure_block alloc (a + 1) sp0 of None \<Rightarrow> Some (False, None, s1)
              | Some buf \<Rightarrow> do { buf1 \<leftarrow> store buf (unat a) 0;
                  (ok, b', s2) \<leftarrow> xdr_opaque ops a XDR_DECODE buf1 s1; Some (ok, Some b', s2) })); Some (b, v, s') }"])
      (auto simp: m xdr_wrapstring_def xdr_string_def xdr_void_def yields_def Let_def split: Option.bind_split)
  then show ?thesis by simp
qed

section \<open>Arrays\<close>

lemma elems_emits:
  assumes "\<And>x. x \<in> set xs \<Longrightarrow> emits V el x (enc x)"
  shows "emits V (\<lambda>x_op. xdr_elems el x_op (length xs)) (xs @ ys) (concat (map enc xs))"
  using assms
proof (induction xs)
  case Nil
  then show ?case by (auto simp: emits_def fits_0)
next
  case (Cons x xs)
  let ?h = "\<lambda>x_op. xdr_elems el x_op (length xs)"
  let ?K = "\<lambda>a s1. do { (ok, b', s2) \<leftarrow> ?h XDR_ENCODE (xs @ ys) s1; Some (ok, a # b', s2) }"
  have h: "emits V ?h (xs @ ys) (concat (map enc xs))" using Cons by simp
  have x: "emits V el x (enc x)" using Cons by simp
  have "emits V (\<lambda>x_op. xdr_elems el x_op (Suc (length xs))) (x # xs @ ys) (enc x @ concat (map enc xs))"
    by (rule emits_seq [OF x h, where mk = "\<lambda>b. x # b" and F = "\<lambda>a. a # xs @ ys" and K = ?K])
      (simp_all add: fits_add if_distrib split: Option.bind_split)
  then show ?case by simp
qed

lemma elems_yields:
  assumes "\<And>x. x \<in> set xs \<Longrightarrow> yields V el z x (enc x)"
  shows "yields V (\<lambda>x_op. xdr_elems el x_op (length xs)) (replicate (length xs) z @ ys) (xs @ ys) (concat (map enc xs))"
  using assms
proof (induction xs)
  case Nil
  then show ?case by (auto simp: yields_def)
next
  case (Cons x xs)
  let ?h = "\<lambda>x_op. xdr_elems el x_op (length xs)" and ?r = "replicate (length xs) z @ ys"
  let ?K = "\<lambda>a s1. do { (ok, b', s2) \<leftarrow> ?h XDR_DECODE ?r s1; Some (ok, a # b', s2) }"
  have h: "yields V ?h ?r (xs @ ys) (concat (map enc xs))" using Cons by simp
  have x: "yields V el z x (enc x)" using Cons by simp
  have "yields V (\<lambda>x_op. xdr_elems el x_op (Suc (length xs))) (z # ?r) (x # xs @ ys) (enc x @ concat (map enc xs))"
    by (rule yields_seq [OF x h, where mk = "\<lambda>b. x # b" and F = "\<lambda>a. a # ?r" and K = ?K])
      (simp_all split: Option.bind_split)
  then show ?case by simp
qed

lemma elems_safe:
  assumes "safe V el T"
  shows "rok V s \<Longrightarrow> n \<le> length xs \<Longrightarrow> \<forall>x \<in> set xs. T x \<Longrightarrow>
    \<exists>b v s'. xdr_elems el XDR_DECODE n xs s = Some (b, v, s') \<and> (b \<longrightarrow> rok V s')"
proof (induction n arbitrary: xs s)
  case (Suc n)
  then obtain x ys where xs: "xs = x # ys" by (cases xs) auto
  with Suc.prems obtain b v s1 where e: "el XDR_DECODE x s = Some (b, v, s1)" "b \<longrightarrow> rok V s1"
    using safeD [OF assms, of s x] by auto
  show ?case
  proof (cases b)
    case True
    with e Suc.IH [of s1 ys] Suc.prems show ?thesis unfolding xs by auto
  qed (use e in \<open>auto simp: xs\<close>)
qed auto

lemma array_emits:
  assumes len: "unat c = length xs" and max: "c \<le> maxsize" "length xs * unat elsize < 4294967296"
    and el: "\<And>x. x \<in> set xs \<Longrightarrow> emits V el x (enc x)"
  shows "emits V (xdr_array ops alloc osz z maxsize elsize el) (Some (xs @ ys), c) (be32 c @ concat (map enc xs))"
proof -
  have sz: "array_size (unat c) elsize 0 \<noteq> None" using max(2) by (simp add: array_size_eq len)
  show ?thesis
    by (rule emits_seq [OF emits_u_int elems_emits [OF el, where ys = ys], where mk = "\<lambda>b. (Some b, c)"
          and F = "\<lambda>a. (Some (xs @ ys), a)" and K = "\<lambda>a s1.
            if a > maxsize then Some (False, (Some (xs @ ys), a), s1)
            else case array_size (unat a) elsize 0 of None \<Rightarrow> Some (False, (Some (xs @ ys), a), s1)
            | Some _ \<Rightarrow> do { (ok, b', s2) \<leftarrow> xdr_elems el XDR_ENCODE (unat a) (xs @ ys) s1; Some (ok, (Some b', a), s2) }"])
      (use sz max len in \<open>auto simp: xdr_array_def fits_add not_less split: Option.bind_split option.splits\<close>)
qed

text \<open>An array with fewer elements than the count says is accessed past its end.\<close>

lemma elems_past:
  assumes "\<And>x. x \<in> set xs \<Longrightarrow> emits V el x (enc x)" "length xs < n"
    and "wok V s" "fits V s (length (concat (map enc xs)))"
  shows "xdr_elems el XDR_ENCODE n xs s = None"
  using assms
proof (induction xs arbitrary: n s)
  case Nil
  then obtain m where "n = Suc m" by (cases n) auto
  then show ?case by simp
next
  case (Cons x xs)
  then obtain m where m: "n = Suc m" "length xs < m" by (cases n) auto
  have f: "fits V s (length (enc x))"
    by (rule fits_less [OF Cons.prems(3,4)]) simp
  from emitsD [OF Cons.prems(1) Cons.prems(3) f] obtain s' where s': "el XDR_ENCODE x s = Some (True, x, s')"
    "wok V s'" "\<And>n. fits V s' n \<longleftrightarrow> fits V s (length (enc x) + n)" by auto
  have "xdr_elems el XDR_ENCODE m xs s' = None"
    by (rule Cons.IH) (use Cons.prems s' m in auto)
  then show ?case using s' m by simp
qed

lemma array_past:
  assumes "length xs < unat c" "c \<le> maxsize" "unat c * unat elsize < 4294967296"
    and el: "\<And>x. x \<in> set xs \<Longrightarrow> emits V el x (enc x)"
    and s: "wok V s" "fits V s (4 + length (concat (map enc xs)))"
  shows "xdr_array ops alloc osz z maxsize elsize el XDR_ENCODE (Some xs, c) s = None"
proof -
  have "fits V s (length (be32 c))" by (rule fits_less [OF s]) simp
  from emitsD [OF emits_u_int s(1) this] obtain s' where s': "xdr_u_int ops XDR_ENCODE c s = Some (True, c, s')"
    "wok V s'" "\<And>n. fits V s' n \<longleftrightarrow> fits V s (4 + n)" by auto
  have "xdr_elems el XDR_ENCODE (unat c) xs s' = None"
    by (rule elems_past [OF el assms(1) s'(2)]) (use s s' in auto)
  moreover have "array_size (unat c) elsize 0 \<noteq> None" using assms(3) by (simp add: array_size_eq)
  ultimately show ?thesis using s'(1) assms(2) by (auto simp: xdr_array_def not_less)
qed

lemma array_yields:
  assumes len: "unat c = length xs" "xs \<noteq> []" and max: "c \<le> maxsize" "length xs * unat elsize < 4294967296"
    and al: "alloc (length xs * unat elsize) = Some blk" "length blk = length xs * unat elsize"
    and os: "osz \<le> unat elsize" "0 < elsize"
    and el: "\<And>x. x \<in> set xs \<Longrightarrow> yields V el z x (enc x)"
  shows "yields V (xdr_array ops alloc osz z maxsize elsize el) (None, n0) (Some xs, c) (be32 c @ concat (map enc xs))"
proof -
  obtain sz where sz: "array_size (unat c) elsize 0 = Some sz" "unat sz = length xs * unat elsize"
  proof (rule that)
    show "array_size (unat c) elsize 0 = Some (of_nat (length xs) * elsize)"
      using max(2) by (simp add: array_size_eq len)
    show "unat (of_nat (length xs) * elsize) = length xs * unat elsize"
      using max(2) by (simp add: unat_word_ariths(2) unat_of_nat mod_mult_left_eq)
  qed
  have c0: "c \<noteq> 0" using len by auto
  have new: "new_objects blk (length xs * unat elsize) osz elsize (length xs) z = Some (replicate (length xs) z)"
    by (rule objects_enough [OF al(2) os])
  have e: "yields V (\<lambda>x_op. xdr_elems el x_op (length xs)) (replicate (length xs) z) xs (concat (map enc xs))"
    using elems_yields [OF el, where ys = "[]"] by simp
  show ?thesis
    by (rule yields_seq [OF yields_u_int [of n0 c] e, where mk = "\<lambda>b. (Some b, c)"
          and F = "\<lambda>a. (None, a)" and K = "\<lambda>a s1.
            if a > maxsize then Some (False, (None, a), s1)
            else case array_size (unat a) elsize 0 of None \<Rightarrow> Some (False, (None, a), s1)
            | Some sz \<Rightarrow> if a = 0 then Some (True, (None, a), s1)
              else if alloc (unat sz) = None then Some (False, (None, a), s1)
              else do { xs0 \<leftarrow> (case alloc (unat sz) of None \<Rightarrow> Some [] | Some blk \<Rightarrow> new_objects blk (unat sz) osz elsize (unat a) z);
                (ok, b', s2) \<leftarrow> xdr_elems el XDR_DECODE (unat a) xs0 s1; Some (ok, (Some b', a), s2) }"])
      (use sz max len al(1) c0 new in \<open>auto simp: xdr_array_def not_less split: Option.bind_split option.splits\<close>)
qed

lemma array_safe:
  assumes el: "safe V el T" and z: "T z"
    and al: "\<And>n b. alloc n = Some b \<Longrightarrow> length b = n" and os: "osz \<le> unat elsize" "0 < elsize"
  shows "safe V (xdr_array ops alloc osz z maxsize elsize el) (\<lambda>(t, _). t = None)"
proof -
  let ?K = "\<lambda>v a s1.
            if a > maxsize then Some (False, (None, a), s1)
            else case array_size (unat a) elsize 0 of None \<Rightarrow> Some (False, (None, a), s1)
            | Some sz \<Rightarrow> if a = 0 then Some (True, (None, a), s1)
              else if alloc (unat sz) = None then Some (False, (None, a), s1)
              else do { xs0 \<leftarrow> (case alloc (unat sz) of None \<Rightarrow> Some [] | Some blk \<Rightarrow> new_objects blk (unat sz) osz elsize (unat a) z);
                (ok, b', s2) \<leftarrow> xdr_elems el XDR_DECODE (unat a) xs0 s1; Some (ok, (Some b', a), s2) }"
  have new: "new_objects blk (unat sz) osz elsize (unat a) z = Some (replicate (unat a) z)"
    if "array_size (unat a) elsize 0 = Some sz" "alloc (unat sz) = Some blk" for a :: u32 and sz blk
  proof -
    have "unat sz = unat a * unat elsize"
      using that(1) by (auto simp: array_size_eq unat_word_ariths(2) split: if_splits)
    then show ?thesis using objects_enough [of blk "unat a" elsize osz z] al [OF that(2)] os by simp
  qed
  have K: "\<exists>b v' s'. ?K v a s1 = Some (b, v', s') \<and> (b \<longrightarrow> rok V s')" if "rok V s1" for v :: "'b list option \<times> u32" and a s1
    using elems_safe [OF el that, of "unat a" "replicate (unat a) z"] z that
    by (auto simp: new split: option.splits)
  show ?thesis
    by (rule safe_seq [OF safe_u_int, where sel = snd and F = "\<lambda>v a. (None, a)" and K = ?K])
      (use K in \<open>auto simp: xdr_array_def split: Option.bind_split option.splits\<close>)
qed

lemma vector_emits:
  assumes "unat n = length xs" "\<And>x. x \<in> set xs \<Longrightarrow> emits V el x (enc x)"
  shows "emits V (xdr_vector n el) (xs @ ys) (concat (map enc xs))"
  using elems_emits [of xs el enc ys] assms by (simp add: emits_def xdr_vector_def)

lemma vector_yields:
  assumes "unat n = length xs" "\<And>x. x \<in> set xs \<Longrightarrow> yields V el z x (enc x)"
  shows "yields V (xdr_vector n el) (replicate (length xs) z) xs (concat (map enc xs))"
  using elems_yields [of xs el z enc "[]"] assms by (simp add: yields_def xdr_vector_def)

section \<open>Unions and pointers\<close>

text \<open>The arm a discriminant selects.\<close>

definition arm :: "(u32 \<times> ('s, 'v) xdrproc) list \<Rightarrow> ('s, 'v) xdrproc option \<Rightarrow> u32 \<Rightarrow> ('s, 'v) xdrproc option" where
  "arm choices dfault d = (case xdr_choose choices d of None \<Rightarrow> dfault | Some p \<Rightarrow> Some p)"

lemma union_unfold: "xdr_union ops choices dfault x_op (d, u) s = do {
     (b, d', s1) \<leftarrow> xdr_enum ops x_op d s;
     if \<not> b then Some (False, (d', u), s1)
     else (case arm choices dfault d' of
         None \<Rightarrow> Some (False, (d', u), s1)
       | Some prc \<Rightarrow> do { (b', u', s2) \<leftarrow> prc x_op u s1; Some (b', (d', u'), s2) }) }"
  by (auto simp: xdr_union_def arm_def split: option.splits intro!: Option.bind_cong)

lemma union_emits:
  assumes "arm choices dfault d = Some prc" "emits V prc u bs"
  shows "emits V (xdr_union ops choices dfault) (d, u) (be32 d @ bs)"
  by (rule emits_seq [OF emits_enum assms(2), where mk = "Pair d" and F = "\<lambda>a. (a, u)" and K = "\<lambda>a s1.
        case arm choices dfault a of None \<Rightarrow> Some (False, (a, u), s1)
        | Some prc \<Rightarrow> do { (b', u', s2) \<leftarrow> prc XDR_ENCODE u s1; Some (b', (a, u'), s2) }"])
    (use assms(1) in \<open>simp_all add: union_unfold fits_add\<close>)

lemma union_yields:
  assumes "arm choices dfault d = Some prc" "yields V prc u0 u bs"
  shows "yields V (xdr_union ops choices dfault) (d0, u0) (d, u) (be32 d @ bs)"
  by (rule yields_seq [OF yields_enum assms(2), where mk = "Pair d" and F = "\<lambda>a. (a, u0)" and K = "\<lambda>a s1.
        case arm choices dfault a of None \<Rightarrow> Some (False, (a, u0), s1)
        | Some prc \<Rightarrow> do { (b', u', s2) \<leftarrow> prc XDR_DECODE u0 s1; Some (b', (a, u'), s2) }"])
    (use assms(1) in \<open>simp_all add: union_unfold\<close>)

lemma union_safe:
  assumes "\<And>d prc. arm choices dfault d = Some prc \<Longrightarrow> safe V prc T"
  shows "safe V (xdr_union ops choices dfault) (\<lambda>(d, u). T u)"
proof -
  let ?K = "\<lambda>v a s1.
        case arm choices dfault a of None \<Rightarrow> Some (False, (a, snd v), s1)
        | Some prc \<Rightarrow> do { (b', u', s2) \<leftarrow> prc XDR_DECODE (snd v) s1; Some (b', (a, u'), s2) }"
  have K: "\<exists>b v' s'. ?K v a s1 = Some (b, v', s') \<and> (b \<longrightarrow> rok V s')"
    if "T (snd v)" "rok V s1" for v :: "u32 \<times> 'a" and a s1
  proof (cases "arm choices dfault a")
    case None
    then show ?thesis by auto
  next
    case (Some prc)
    from safeD [OF assms [OF Some] that(2,1)] Some show ?thesis by auto
  qed
  show ?thesis
    by (rule safe_seq [OF safe_enum, where sel = fst and F = "\<lambda>v a. (a, snd v)" and K = ?K])
      (use K in \<open>auto simp: union_unfold cong: if_cong option.case_cong\<close>)
qed

lemma pointer_emits_Some:
  assumes "emits V el x bs"
  shows "emits V (xdr_pointer ops alloc osz z sz el) (Some x) (be32 1 @ bs)"
  by (rule emits_seq [OF number_emits [OF number_bool, of 1, simplified] assms, where mk = Some
        and F = "\<lambda>a. Some x" and K = "\<lambda>a s1. if a = 0 then Some (True, None, s1)
          else do { (b', x', s2) \<leftarrow> el XDR_ENCODE x s1; Some (b', Some x', s2) }"])
    (auto simp: xdr_pointer_def xdr_reference_def fits_add intro!: Option.bind_cong)

lemma pointer_emits_None: "emits V (xdr_pointer ops alloc osz z sz el) None (be32 0)"
proof -
  have v: "emits V xdr_void None []" by (auto simp: emits_def xdr_void_def fits_0)
  have "emits V (xdr_pointer ops alloc osz z sz el) None (be32 0 @ [])"
    by (rule emits_seq [OF number_emits [OF number_bool, of 0, simplified] v, where mk = "\<lambda>_. None"
        and F = "\<lambda>a. None" and K = "\<lambda>a s1. if a = 0 then Some (True, None, s1) else None"])
      (simp_all add: xdr_pointer_def xdr_reference_def xdr_void_def fits_add split: option.splits cong: if_cong)
  then show ?thesis by simp
qed

lemma pointer_yields_Some:
  assumes "yields V el (case p of None \<Rightarrow> z | Some y \<Rightarrow> y) x bs"
    and "p \<noteq> None \<or> alloc (unat sz) \<noteq> None" "\<And>b. alloc (unat sz) = Some b \<Longrightarrow> length b = unat sz" "osz \<le> unat sz"
  shows "yields V (xdr_pointer ops alloc osz z sz el) p (Some x) (be32 1 @ bs)"
  by (rule yields_seq [OF number_yields [OF number_bool, of _ 1, simplified] assms(1), where mk = Some
        and F = "\<lambda>a. p" and K = "\<lambda>a s1. if a = 0 then Some (True, None, s1)
          else xdr_reference alloc osz z sz el XDR_DECODE p s1"])
    (use assms(2-) in \<open>auto simp: xdr_pointer_def xdr_reference_def split: option.splits\<close>)

lemma pointer_yields_None: "yields V (xdr_pointer ops alloc osz z sz el) p None (be32 0)"
proof -
  have v: "yields V xdr_void None None []" by (auto simp: yields_def xdr_void_def)
  have "yields V (xdr_pointer ops alloc osz z sz el) p None (be32 0 @ [])"
    by (rule yields_seq [OF number_yields [OF number_bool, of _ 0, simplified] v, where mk = "\<lambda>v. v"
        and F = "\<lambda>a. p" and K = "\<lambda>a s1. if a = 0 then Some (True, None, s1)
          else xdr_reference alloc osz z sz el XDR_DECODE p s1"])
      (simp_all add: xdr_pointer_def xdr_void_def)
  then show ?thesis by simp
qed

lemma pointer_safe:
  assumes "safe V el T" "T z"
    and al: "\<And>n b. alloc n = Some b \<Longrightarrow> length b = n" and os: "osz \<le> unat sz"
  shows "safe V (xdr_pointer ops alloc osz z sz el) (\<lambda>p. p = None)"
proof -
  let ?K = "\<lambda>p a s1. if a = 0 then Some (True, None, s1)
      else if alloc (unat sz) = None then Some (False, None, s1)
      else do { (b', x', s2) \<leftarrow> el XDR_DECODE z s1; Some (b', Some x', s2) }"
  have K: "\<exists>b v' s'. ?K p a s1 = Some (b, v', s') \<and> (b \<longrightarrow> rok V s')" if "rok V s1" for p :: "'b option" and a :: u32 and s1
    using safeD [OF assms(1) that assms(2)] that by auto
  show ?thesis
    by (rule safe_seq [OF number_safe [OF number_bool], where sel = "\<lambda>_. 0" and F = "\<lambda>p _. None" and K = ?K])
      (use K al os in \<open>auto simp: xdr_pointer_def xdr_reference_def split: option.splits intro!: Option.bind_cong\<close>)
qed

end

section \<open>Releasing\<close>

text \<open>\<open>xdr_free\<close> releases a counted object and leaves its pointer NULL, without touching the stream.
  A string is released only within its size limit.\<close>

lemma free_bytes: "xdr_free (xdr_bytes ops alloc maxsize) (sp, n) x = Some (None, n)"
  by (simp add: xdr_free_def xdr_bytes_def xdr_u_int_def xdr_u_long_def)

lemma free_string:
  assumes "strlen_of (Some b) = Some n" "n \<le> unat maxsize"
  shows "xdr_free (xdr_string ops alloc maxsize) (Some b) x = Some None"
proof -
  have "(of_nat n :: u32) \<le> maxsize"
    using assms(2) unat_u32 [of maxsize] by (simp add: word_le_nat_alt unat_of_nat)
  then show ?thesis
    using assms(1) by (simp add: xdr_free_def xdr_string_def xdr_u_int_def xdr_u_long_def Let_def not_less)
qed

end
