(* ===== verification/Xdr_Mem.thy ===== *)
theory Xdr_Mem
  imports Xdr_Codec
begin

text \<open>
  XDR streams over a memory buffer (\<open>src/lib/c/librpc/xdr_mem.c\<close>, with \<open>htonl\<close> of
  \<open>src/lib/c/lib/htonl.c\<close>), on a little-endian machine with 32-bit addresses. The stream state
  is the handle together with the RAM its buffer lies in. The interpretation \<open>mem\<close> of
  \<open>xdr_stream\<close> gives every filter its codec lemmas over memory streams.
\<close>

section \<open>Definitions\<close>

definition htonl :: "u32 \<Rightarrow> u32" where
  "htonl hostlong = drop_bit 24 hostlong OR drop_bit 8 (hostlong AND 0xff0000) OR
     push_bit 8 (hostlong AND 0xff00) OR push_bit 24 hostlong"

text \<open>Access to a 32-bit number in memory.\<close>

definition load32 :: "ram \<Rightarrow> addr \<Rightarrow> u32 option" where
  "load32 m a = (if a + 4 \<le> length m then
      Some (ucast (m ! a) OR push_bit 8 (ucast (m ! (a + 1))) OR push_bit 16 (ucast (m ! (a + 2))) OR
        push_bit 24 (ucast (m ! (a + 3))))
    else None)"

definition store32 :: "ram \<Rightarrow> addr \<Rightarrow> u32 \<Rightarrow> ram option" where
  "store32 m a w = (if a + 4 \<le> length m then
      Some (patch a [ucast w, ucast (drop_bit 8 w), ucast (drop_bit 16 w), ucast (drop_bit 24 w)] m)
    else None)"

record xdrmem =
  x_base :: addr
  x_private :: addr
  x_handy :: u32
  x_ram :: ram

definition xdrmem_create :: "addr \<Rightarrow> u32 \<Rightarrow> ram \<Rightarrow> xdrmem" where
  "xdrmem_create a sz m = \<lparr>x_base = a, x_private = a, x_handy = sz, x_ram = m\<rparr>"

definition xdrmem_getlong :: "xdrmem \<Rightarrow> (u32 option \<times> xdrmem) option" where
  "xdrmem_getlong x =
     (if x_handy x < 4 then Some (None, x)
      else do {
        let x = x\<lparr>x_handy := x_handy x - 4\<rparr>;
        l \<leftarrow> load32 (x_ram x) (x_private x);
        Some (Some (htonl l), x\<lparr>x_private := x_private x + 4\<rparr>)
      })"

definition xdrmem_putlong :: "u32 \<Rightarrow> xdrmem \<Rightarrow> (bool \<times> xdrmem) option" where
  "xdrmem_putlong lp x =
     (if x_handy x < 4 then Some (False, x)
      else do {
        let x = x\<lparr>x_handy := x_handy x - 4\<rparr>;
        m \<leftarrow> store32 (x_ram x) (x_private x) (htonl lp);
        Some (True, x\<lparr>x_ram := m, x_private := x_private x + 4\<rparr>)
      })"

text \<open>The bytes that \<open>memmove\<close> copies out of and into the buffer; the other block is an object of the
  filter, outside the buffer.\<close>

definition xdrmem_getbytes :: "u32 \<Rightarrow> xdrmem \<Rightarrow> (bool \<times> u8 list \<times> xdrmem) option" where
  "xdrmem_getbytes len x =
     (if x_handy x < len then Some (False, [], x)
      else
        let x = x\<lparr>x_handy := x_handy x - len\<rparr> in
        if x_private x + unat len \<le> length (x_ram x) then
          Some (True, seg (x_private x) (unat len) (x_ram x), x\<lparr>x_private := x_private x + unat len\<rparr>)
        else None)"

definition xdrmem_putbytes :: "u8 list \<Rightarrow> u32 \<Rightarrow> xdrmem \<Rightarrow> (bool \<times> xdrmem) option" where
  "xdrmem_putbytes bs len x =
     (if x_handy x < len then Some (False, x)
      else
        let x = x\<lparr>x_handy := x_handy x - len\<rparr> in
        if unat len \<le> length bs \<and> x_private x + unat len \<le> length (x_ram x) then
          Some (True, x\<lparr>x_ram := patch (x_private x) (take (unat len) bs) (x_ram x),
            x_private := x_private x + unat len\<rparr>)
        else None)"

definition xdrmem_ops :: "xdrmem xdr_ops" where
  "xdrmem_ops = \<lparr>x_getlong = xdrmem_getlong, x_putlong = xdrmem_putlong,
     x_getbytes = xdrmem_getbytes, x_putbytes = xdrmem_putbytes\<rparr>"

definition xdrmem_getpos :: "xdrmem \<Rightarrow> u32" where
  "xdrmem_getpos x = of_nat (x_private x) - of_nat (x_base x)"

definition xdrmem_setpos :: "u32 \<Rightarrow> xdrmem \<Rightarrow> bool \<times> xdrmem" where
  "xdrmem_setpos pos x =
     (let newaddr = of_nat (x_base x) + pos;
          lastaddr = of_nat (x_private x) + x_handy x in
      if sint newaddr > sint lastaddr then (False, x)
      else (True, x\<lparr>x_private := unat newaddr, x_handy := lastaddr - newaddr\<rparr>))"

definition xdrmem_inline :: "u32 \<Rightarrow> xdrmem \<Rightarrow> addr option \<times> xdrmem" where
  "xdrmem_inline len x =
     (if x_handy x \<ge> len then
        let x' = x\<lparr>x_handy := x_handy x - len\<rparr> in
        (Some (x_private x'), x'\<lparr>x_private := x_private x' + unat len\<rparr>)
      else (None, x))"

section \<open>The contract\<close>

text \<open>A stream is well formed when its position is not before its base and the \<open>x_handy\<close> bytes from it
  lie in memory.\<close>

definition mem_ok :: "xdrmem \<Rightarrow> bool" where
  "mem_ok x \<longleftrightarrow> x_base x \<le> x_private x \<and> x_private x + unat (x_handy x) \<le> length (x_ram x)"

definition mem_view :: "xdrmem xview" where
  "mem_view = \<lparr>wok = mem_ok, rok = mem_ok, fits = (\<lambda>x n. n \<le> unat (x_handy x)),
     written = (\<lambda>x. seg (x_base x) (x_private x - x_base x) (x_ram x)),
     ahead = (\<lambda>x. seg (x_private x) (unat (x_handy x)) (x_ram x))\<rparr>"

lemma mem_view_simps [simp]:
  "wok mem_view = mem_ok" "rok mem_view = mem_ok" "fits mem_view x n \<longleftrightarrow> n \<le> unat (x_handy x)"
  "written mem_view x = seg (x_base x) (x_private x - x_base x) (x_ram x)"
  "ahead mem_view x = seg (x_private x) (unat (x_handy x)) (x_ram x)"
  by (simp_all add: mem_view_def)

text \<open>\<open>htonl\<close> reverses the bytes.\<close>

lemma bit_byte_masks:
  "bit (0xff :: u32) n \<longleftrightarrow> n < 8"
  "bit (0xff00 :: u32) n \<longleftrightarrow> 8 \<le> n \<and> n < 16"
  "bit (0xff0000 :: u32) n \<longleftrightarrow> 16 \<le> n \<and> n < 24"
proof -
  have c: "(0xff :: u32) = mask 8" by (simp add: mask_eq_exp_minus_1)
  show "bit (0xff :: u32) n \<longleftrightarrow> n < 8" unfolding c by (auto simp: bit_simps)
  have a: "(0xff00 :: u32) = push_bit 8 (mask 8)" and b: "(0xff0000 :: u32) = push_bit 16 (mask 8)"
    by (simp_all add: mask_eq_exp_minus_1 push_bit_eq_mult)
  show "bit (0xff00 :: u32) n \<longleftrightarrow> 8 \<le> n \<and> n < 16" unfolding a by (auto simp: bit_simps)
  show "bit (0xff0000 :: u32) n \<longleftrightarrow> 16 \<le> n \<and> n < 24" unfolding b by (auto simp: bit_simps)
qed

lemma htonl_bytes:
  "ucast (htonl w) = (ucast (drop_bit 24 w) :: u8)"
  "ucast (drop_bit 8 (htonl w)) = (ucast (drop_bit 16 w) :: u8)"
  "ucast (drop_bit 16 (htonl w)) = (ucast (drop_bit 8 w) :: u8)"
  "ucast (drop_bit 24 (htonl w)) = (ucast w :: u8)"
  unfolding htonl_def
  by ((rule bit_word_eqI, auto simp: bit_simps bit_byte_masks simp del: bit_numeral_word_iff)[1])+

lemma store32_be:
  "store32 m a (htonl w) = (if a + 4 \<le> length m then Some (patch a (be32 w) m) else None)"
  by (simp add: store32_def htonl_bytes be32_def)

lemma load32_be:
  assumes "a + 4 \<le> length m"
  shows "map_option htonl (load32 m a) = Some (of_be32 (seg a 4 m))"
proof -
  let ?l = "ucast (m ! a) OR push_bit 8 (ucast (m ! (a + 1))) OR push_bit 16 (ucast (m ! (a + 2))) OR
        push_bit 24 (ucast (m ! (a + 3))) :: u32"
  let ?r = "push_bit 24 (ucast (m ! a)) OR push_bit 16 (ucast (m ! (a + 1))) OR push_bit 8 (ucast (m ! (a + 2))) OR
        ucast (m ! (a + 3)) :: u32"
  have "htonl ?l = ?r"
  proof (rule bit_word_eqI)
    fix n assume "n < LENGTH(32)"
    then consider "n < 8" | "8 \<le> n" "n < 16" | "16 \<le> n" "n < 24" | "24 \<le> n" "n < 32" by fastforce
    then show "bit (htonl ?l) n \<longleftrightarrow> bit ?r n"
      by cases (auto simp: htonl_def bit_simps bit_byte_masks simp del: bit_numeral_word_iff dest: bit_imp_le_length)
  qed
  moreover have "seg a 4 m = [m ! a, m ! (a + 1), m ! (a + 2), m ! (a + 3)]"
    using assms by (auto simp: list_eq_iff_nth nth_seg less_Suc_eq numeral_eq_Suc)
  ultimately show ?thesis using assms by (simp add: load32_def of_be32_def)
qed

lemma seg_append: "seg a (m + n) xs = seg a m xs @ seg (a + m) n xs"
  by (simp add: seg_def take_add add.commute)

lemma seg_before_patch: "n + a \<le> b \<Longrightarrow> b + length ys \<le> length xs \<Longrightarrow> seg a n (patch b ys xs) = seg a n xs"
  by (rule nth_equalityI) (auto simp: length_patch nth_seg nth_patch)

lemma take_seg: "n \<le> k \<Longrightarrow> take n (seg a k xs) = seg a n xs"
  by (simp add: seg_def min_absorb1)

lemma drop_seg: "drop n (seg a k xs) = seg (a + n) (k - n) xs"
  by (simp add: seg_def drop_take add.commute)

text \<open>What appending \<open>bs\<close> at the position does to the state.\<close>

lemma mem_append:
  assumes "mem_ok x" "length bs = unat n" "n \<le> x_handy x"
  defines "x' \<equiv> x\<lparr>x_handy := x_handy x - n, x_ram := patch (x_private x) bs (x_ram x),
      x_private := x_private x + unat n\<rparr>"
  shows "mem_ok x'" "written mem_view x' = written mem_view x @ bs"
    "fits mem_view x' k \<longleftrightarrow> fits mem_view x (unat n + k)"
proof -
  have h: "unat (x_handy x - n) = unat (x_handy x) - unat n" "unat n \<le> unat (x_handy x)"
    using assms(3) by (simp_all add: unat_sub word_le_nat_alt)
  have l: "x_private x + length bs \<le> length (x_ram x)" "x_base x \<le> x_private x"
    using assms h by (auto simp: mem_ok_def)
  have m: "unat (x_handy x) + x_private x \<le> length (x_ram x)" using assms(1) by (simp add: mem_ok_def)
  show "mem_ok x'" using l h m by (simp add: mem_ok_def x'_def length_patch assms(2))
  have "seg (x_base x) (x_private x - x_base x + length bs) (patch (x_private x) bs (x_ram x)) =
      seg (x_base x) (x_private x - x_base x) (x_ram x) @ bs"
    unfolding seg_append using l by (simp add: seg_before_patch seg_patch)
  then show "written mem_view x' = written mem_view x @ bs"
    using l by (simp add: x'_def assms(2))
  show "fits mem_view x' k \<longleftrightarrow> fits mem_view x (unat n + k)" using h by (auto simp: x'_def)
qed

lemma mem_advance:
  assumes "mem_ok x" "n \<le> x_handy x"
  defines "x' \<equiv> x\<lparr>x_handy := x_handy x - n, x_private := x_private x + unat n\<rparr>"
  shows "mem_ok x'" "ahead mem_view x' = drop (unat n) (ahead mem_view x)"
    "x_private x + unat n \<le> length (x_ram x)"
proof -
  have h: "unat (x_handy x - n) = unat (x_handy x) - unat n" "unat n \<le> unat (x_handy x)"
    using assms(2) by (simp_all add: unat_sub word_le_nat_alt)
  then show "mem_ok x'" "x_private x + unat n \<le> length (x_ram x)" using assms(1) by (auto simp: mem_ok_def x'_def)
  show "ahead mem_view x' = drop (unat n) (ahead mem_view x)" using h by (simp add: x'_def drop_seg)
qed

lemma length_ahead: "mem_ok x \<Longrightarrow> length (ahead mem_view x) = unat (x_handy x)"
  by (auto simp: mem_ok_def)

interpretation mem: xdr_stream xdrmem_ops mem_view
proof
  fix x :: xdrmem and w len :: u32 and bs :: "u8 list" and m n :: nat
  show "wok mem_view x \<Longrightarrow> fits mem_view x n \<Longrightarrow> m \<le> n \<Longrightarrow> fits mem_view x m" by simp
  show "wok mem_view x \<Longrightarrow> fits mem_view x 0" by simp
  { assume x: "wok mem_view x" "fits mem_view x 4"
    then have h: "4 \<le> x_handy x" by (simp add: word_le_nat_alt)
    note a = mem_append [of x "be32 w" 4, OF _ _ h]
    show "\<exists>x'. x_putlong xdrmem_ops w x = Some (True, x') \<and> wok mem_view x' \<and>
        written mem_view x' = written mem_view x @ be32 w \<and>
        (\<forall>n. fits mem_view x' n \<longleftrightarrow> fits mem_view x (4 + n))"
      using a x h mem_advance(3) [of x 4] unfolding xdrmem_ops_def xdrmem_putlong_def
      by (simp add: store32_be not_less) }
  { assume "wok mem_view x" "\<not> fits mem_view x 4"
    then show "\<exists>x'. x_putlong xdrmem_ops w x = Some (False, x')"
      by (simp add: xdrmem_ops_def xdrmem_putlong_def word_less_nat_alt not_le) }
  { assume x: "wok mem_view x" "fits mem_view x (unat len)" "unat len \<le> length bs"
    then have h: "len \<le> x_handy x" by (simp add: word_le_nat_alt)
    note a = mem_append [of x "take (unat len) bs" len, OF _ _ h]
    show "\<exists>x'. x_putbytes xdrmem_ops bs len x = Some (True, x') \<and> wok mem_view x' \<and>
        written mem_view x' = written mem_view x @ take (unat len) bs \<and>
        (\<forall>n. fits mem_view x' n \<longleftrightarrow> fits mem_view x (unat len + n))"
      using a x h mem_advance(3) [of x len] unfolding xdrmem_ops_def xdrmem_putbytes_def
      by (simp add: not_less Let_def) }
  { assume "wok mem_view x" "\<not> fits mem_view x (unat len)"
    then show "\<exists>x'. x_putbytes xdrmem_ops bs len x = Some (False, x')"
      by (simp add: xdrmem_ops_def xdrmem_putbytes_def word_less_nat_alt not_le) }
  { assume x: "rok mem_view x" "4 \<le> length (ahead mem_view x)"
    then have h: "4 \<le> x_handy x" using length_ahead [of x] by (simp add: word_le_nat_alt)
    note a = mem_advance [of x 4, OF _ h]
    have "map_option htonl (load32 (x_ram x) (x_private x)) = Some (of_be32 (take 4 (ahead mem_view x)))"
      using a(3) x length_ahead [of x] by (simp add: load32_be take_seg)
    then show "\<exists>x'. x_getlong xdrmem_ops x = Some (Some (of_be32 (take 4 (ahead mem_view x))), x') \<and>
        rok mem_view x' \<and> ahead mem_view x' = drop 4 (ahead mem_view x)"
      using a x h unfolding xdrmem_ops_def xdrmem_getlong_def by (auto simp: not_less) }
  { assume "rok mem_view x" "length (ahead mem_view x) < 4"
    then show "\<exists>x'. x_getlong xdrmem_ops x = Some (None, x')" using length_ahead [of x]
      by (simp add: xdrmem_ops_def xdrmem_getlong_def word_less_nat_alt) }
  { assume x: "rok mem_view x" "unat len \<le> length (ahead mem_view x)"
    then have h: "len \<le> x_handy x" using length_ahead [of x] by (simp add: word_le_nat_alt)
    note a = mem_advance [of x len, OF _ h]
    show "\<exists>x'. x_getbytes xdrmem_ops len x = Some (True, take (unat len) (ahead mem_view x), x') \<and>
        rok mem_view x' \<and> ahead mem_view x' = drop (unat len) (ahead mem_view x)"
      using a x h unfolding xdrmem_ops_def xdrmem_getbytes_def
      by (simp add: not_less Let_def take_seg word_le_nat_alt) }
  { assume "rok mem_view x" "length (ahead mem_view x) < unat len"
    then show "\<exists>x' w. x_getbytes xdrmem_ops len x = Some (False, w, x') \<and> length w \<le> unat len"
      using length_ahead [of x] by (simp add: xdrmem_ops_def xdrmem_getbytes_def word_less_nat_alt) }
qed

section \<open>Properties\<close>

text \<open>A buffer that was written is read back from its base.\<close>

lemma mem_ok_create: "a + unat sz \<le> length m \<Longrightarrow> mem_ok (xdrmem_create a sz m)"
  by (simp add: mem_ok_def xdrmem_create_def)

lemma written_create [simp]: "written mem_view (xdrmem_create a sz m) = []"
  by (simp add: xdrmem_create_def)

lemma reader_of_writer:
  assumes "mem_ok x" "written mem_view x = bs" "length bs < 4294967296"
  shows "mem_ok (xdrmem_create (x_base x) (of_nat (length bs)) (x_ram x))"
    "ahead mem_view (xdrmem_create (x_base x) (of_nat (length bs)) (x_ram x)) = bs"
proof -
  have l: "length bs = x_private x - x_base x" using assms(1,2) by (auto simp: mem_ok_def)
  have u: "unat (of_nat (length bs) :: u32) = length bs" using assms(3) by (simp add: unat_of_nat)
  have "x_base x + length bs \<le> length (x_ram x)" using l assms(1) by (auto simp: mem_ok_def)
  then show "mem_ok (xdrmem_create (x_base x) (of_nat (length bs)) (x_ram x))"
    by (intro mem_ok_create) (simp add: u)
  show "ahead mem_view (xdrmem_create (x_base x) (of_nat (length bs)) (x_ram x)) = bs"
    using assms(2) by (simp add: xdrmem_create_def u) (simp add: l)
qed

lemma mem_roundtrip:
  assumes e: "emits mem_view f v bs" and y: "yields mem_view f v0 v' bs"
    and room: "a + unat sz \<le> length m" "length bs \<le> unat sz"
  shows "\<exists>x. f XDR_ENCODE v (xdrmem_create a sz m) = Some (True, v, x) \<and>
    written mem_view x = bs \<and>
    (\<exists>y. f XDR_DECODE v0 (xdrmem_create (x_base x) (of_nat (length bs)) (x_ram x)) = Some (True, v', y))"
proof -
  have "fits mem_view (xdrmem_create a sz m) (length bs)" using room by (simp add: xdrmem_create_def)
  with emitsD [OF e, of "xdrmem_create a sz m"] mem_ok_create [OF room(1)] obtain x where
    x: "f XDR_ENCODE v (xdrmem_create a sz m) = Some (True, v, x)" "mem_ok x" "written mem_view x = bs"
    by (auto simp del: mem_view_simps(4))
  have "length bs < 4294967296" using room(2) unat_u32 [of sz] by simp
  from yieldsD [OF y, of _ "[]"] reader_of_writer [OF x(2,3) this] x show ?thesis by auto
qed

text \<open>A C string encoded by \<open>xdr_string\<close> into a memory buffer that is large enough, as its length,
  its bytes and zero padding to a multiple of four, is decoded from the buffer into freshly
  allocated storage as the same string.\<close>
theorem xdr_string_roundtrip:
  assumes "0 \<notin> set cs" "length cs \<le> unat maxsize" "length cs < 4294967295"
    and "alloc (Suc (length cs)) = Some blk" "length blk = Suc (length cs)"
    and "a + unat sz \<le> length m" "4 + length (padded cs) \<le> unat sz"
  shows "\<exists>x. xdr_string xdrmem_ops alloc maxsize XDR_ENCODE (Some (cs @ [0])) (xdrmem_create a sz m) =
      Some (True, Some (cs @ [0]), x) \<and>
    written mem_view x = be32 (of_nat (length cs)) @ padded cs \<and>
    (\<exists>y. xdr_string xdrmem_ops alloc maxsize XDR_DECODE None
        (xdrmem_create (x_base x) (of_nat (4 + length (padded cs))) (x_ram x)) =
      Some (True, Some (cs @ [0]), y))"
proof -
  have "unat (of_nat (length cs) + 1 :: u32) = Suc (length cs)"
    using assms(3) by (simp add: unat_word_ariths(1) unat_of_nat)
  then have "sure_block alloc (of_nat (length cs) + 1) None = Some blk"
    using assms(4) by (simp add: sure_block_def)
  from mem.string_yields [OF assms(2,3) this] assms(5)
  have y: "yields mem_view (xdr_string xdrmem_ops alloc maxsize) None (Some (cs @ [0]))
      (be32 (of_nat (length cs)) @ padded cs)" by simp
  from mem_roundtrip [OF mem.string_emits [OF assms(1,2), of alloc "[]"] y assms(6)] assms(7)
  show ?thesis by simp
qed

lemma xdr_string_roundtrip_witness:
  "\<exists>x. xdr_string xdrmem_ops (\<lambda>n. Some (replicate n 7)) 10 XDR_ENCODE (Some ([72, 105] @ [0]))
      (xdrmem_create 2 12 (replicate 20 1)) = Some (True, Some ([72, 105] @ [0]), x) \<and>
    written mem_view x = be32 (of_nat (length [72::u8, 105])) @ padded [72, 105] \<and>
    (\<exists>y. xdr_string xdrmem_ops (\<lambda>n. Some (replicate n 7)) 10 XDR_DECODE None
        (xdrmem_create (x_base x) (of_nat (4 + length (padded [72, 105]))) (x_ram x)) =
      Some (True, Some ([72, 105] @ [0]), y))"
  by (rule xdr_string_roundtrip [where blk = "replicate (Suc (length [72 :: u8, 105])) 7"])
    (simp_all add: padded_def pad_def)

text \<open>\<open>xdr_array\<close> transfers every array whose elements its element filter transfers: when each
  element is encoded as \<open>enc\<close> of it and decoded from there into a zeroed element, the array is
  encoded as its length and the elements' encodings, and decoded into new storage as the same
  array.\<close>
theorem xdr_array_roundtrip:
  assumes "xs \<noteq> []" "length xs \<le> unat maxsize" "length xs * unat elsize < 4294967296"
    and "alloc (length xs * unat elsize) = Some blk" "length blk = length xs * unat elsize"
    and "osz \<le> unat elsize" "0 < elsize"
    and "\<And>e. e \<in> set xs \<Longrightarrow> emits mem_view elproc e (enc e)"
    and "\<And>e. e \<in> set xs \<Longrightarrow> yields mem_view elproc z e (enc e)"
    and "a + unat sz \<le> length m" "4 + length (concat (map enc xs)) \<le> unat sz"
  shows "\<exists>x. xdr_array xdrmem_ops alloc osz z maxsize elsize elproc XDR_ENCODE
        (Some xs, of_nat (length xs)) (xdrmem_create a sz m) = Some (True, (Some xs, of_nat (length xs)), x) \<and>
    written mem_view x = be32 (of_nat (length xs)) @ concat (map enc xs) \<and>
    (\<exists>y. xdr_array xdrmem_ops alloc osz z maxsize elsize elproc XDR_DECODE (None, 0)
        (xdrmem_create (x_base x) (of_nat (4 + length (concat (map enc xs)))) (x_ram x)) =
      Some (True, (Some xs, of_nat (length xs)), y))"
proof -
  have n: "unat (of_nat (length xs) :: u32) = length xs"
    using assms(2) unat_u32 [of maxsize] by (simp add: unat_of_nat)
  then have le: "of_nat (length xs) \<le> maxsize" using assms(2) by (simp add: word_le_nat_alt)
  note e = mem.array_emits [OF n le assms(3,8), where ys = "[]" and osz = osz and alloc = alloc and z = z]
  have y: "yields mem_view (xdr_array xdrmem_ops alloc osz z maxsize elsize elproc) (None, 0)
      (Some xs, of_nat (length xs)) (be32 (of_nat (length xs)) @ concat (map enc xs))"
    by (rule mem.array_yields) (use n assms le in auto)
  from mem_roundtrip [OF e [simplified] y assms(10)] assms(11) show ?thesis by simp
qed

lemma xdr_array_roundtrip_witness:
  "\<exists>x. xdr_array xdrmem_ops (\<lambda>n. Some (replicate n 7)) 4 0 5 4 (xdr_u_int xdrmem_ops) XDR_ENCODE
        (Some [3, 9], of_nat (length [3::u32, 9])) (xdrmem_create 0 12 (replicate 12 0)) =
      Some (True, (Some [3, 9], of_nat (length [3::u32, 9])), x) \<and>
    written mem_view x = be32 (of_nat (length [3::u32, 9])) @ concat (map be32 [3, 9]) \<and>
    (\<exists>y. xdr_array xdrmem_ops (\<lambda>n. Some (replicate n 7)) 4 0 5 4 (xdr_u_int xdrmem_ops) XDR_DECODE (None, 0)
        (xdrmem_create (x_base x) (of_nat (4 + length (concat (map be32 [3, 9])))) (x_ram x)) =
      Some (True, (Some [3, 9], of_nat (length [3::u32, 9])), y))"
  by (rule xdr_array_roundtrip [OF _ _ _ _ _ _ _ mem.emits_u_int mem.yields_u_int, where blk = "replicate 8 7"])
    simp_all

text \<open>C15: whatever bytes a memory buffer holds, decoding counted bytes, a string, an optional string or an
  array of strings from it into storage that the filters allocate neither reads outside the
  buffer nor writes outside the storage, provided \<open>malloc\<close> returns blocks of the size asked for
  and the caller's object size has room for a \<open>char *\<close>, four bytes. The strings of the array
  are objects \<open>sz\<close> bytes apart in one block of \<open>malloc\<close>, so this includes that the block has room
  for all of them however large a count the buffer holds.\<close>
theorem xdr_decode_stays_inside:
  assumes x: "mem_ok x" and alloc: "\<And>n b. alloc n = Some b \<Longrightarrow> length b = n" and sz: "4 \<le> unat sz"
  shows "xdr_bytes xdrmem_ops alloc maxsize XDR_DECODE (None, n0) x \<noteq> None \<and>
    xdr_string xdrmem_ops alloc maxsize XDR_DECODE None x \<noteq> None \<and>
    xdr_pointer xdrmem_ops alloc 4 None sz (xdr_wrapstring xdrmem_ops alloc) XDR_DECODE None x \<noteq> None \<and>
    xdr_array xdrmem_ops alloc 4 None maxsize sz (xdr_wrapstring xdrmem_ops alloc) XDR_DECODE (None, n0) x \<noteq> None"
proof -
  have r: "rok mem_view x" using x by simp
  have z: "0 < sz" using sz by (simp add: word_less_nat_alt)
  have s: "unat n < length b" if "sure_block alloc (n + 1) None = Some b" "n + 1 \<noteq> 0" for n b
    using alloc [of "unat (n + 1)" b] that unatSuc [of n] by (simp add: sure_block_def add.commute)
  have st: "safe mem_view (xdr_string xdrmem_ops alloc k) (\<lambda>sp. sp = None)" for k
    using mem.string_safe [of alloc k] s unfolding safe_def by blast
  then have w: "safe mem_view (xdr_wrapstring xdrmem_ops alloc) (\<lambda>sp. sp = None)"
    unfolding safe_def
  proof (intro allI impI)
    fix y v0 assume "rok mem_view y" "v0 = (None :: u8 list option)"
    from safeD [OF st [of LASTUNSIGNED] this] show "\<exists>b v s'. xdr_wrapstring xdrmem_ops alloc XDR_DECODE v0 y = Some (b, v, s') \<and>
        (b \<longrightarrow> rok mem_view s')"
      by (auto simp: xdr_wrapstring_def)
  qed
  have "unat n \<le> length b" if "sure_block alloc n None = Some b" for n b
    using alloc [of "unat n" b] that by (simp add: sure_block_def)
  then have b: "xdr_bytes xdrmem_ops alloc maxsize XDR_DECODE (None, n0) x \<noteq> None"
    using safeD [OF mem.bytes_safe [of alloc maxsize] r, of "(None, n0)"] by auto
  from safeD [OF st [of maxsize] r refl] safeD [OF mem.pointer_safe [OF w refl alloc sz, of alloc] r refl]
    safeD [OF mem.array_safe [OF w refl alloc sz z, of alloc maxsize] r, of "(None, n0)"] b
  show ?thesis by auto
qed

lemma xdr_decode_stays_inside_witness:
  "xdr_bytes xdrmem_ops (\<lambda>n. Some (replicate n 7)) 4 XDR_DECODE (None, 0) (xdrmem_create 0 8 (replicate 8 255)) \<noteq> None \<and>
   xdr_string xdrmem_ops (\<lambda>n. Some (replicate n 7)) 4 XDR_DECODE None (xdrmem_create 0 8 (replicate 8 255)) \<noteq> None \<and>
   xdr_pointer xdrmem_ops (\<lambda>n. Some (replicate n 7)) 4 None 4 (xdr_wrapstring xdrmem_ops (\<lambda>n. Some (replicate n 7)))
     XDR_DECODE None (xdrmem_create 0 8 (replicate 8 255)) \<noteq> None \<and>
   xdr_array xdrmem_ops (\<lambda>n. Some (replicate n 7)) 4 None 4 4 (xdr_wrapstring xdrmem_ops (\<lambda>n. Some (replicate n 7)))
     XDR_DECODE (None, 0) (xdrmem_create 0 8 (replicate 8 255)) \<noteq> None"
  by (rule xdr_decode_stays_inside) (auto intro: mem_ok_create)

text \<open>\<open>xdr_array\<close> refuses a length whose array would need \<open>2 ^ 32\<close> bytes or more, before it allocates or
  transfers anything: it returns FALSE with the array pointer unchanged.\<close>
theorem xdr_array_refuses_overflow:
  assumes "mem_ok x" "4 \<le> unat (x_handy x)"
    and "unat (of_be32 (seg (x_private x) 4 (x_ram x))) * unat elsize \<ge> 4294967296"
  shows "xdr_array xdrmem_ops alloc osz z maxsize elsize elproc XDR_DECODE (target, n0) x =
    Some (False, (target, of_be32 (seg (x_private x) 4 (x_ram x))),
      x\<lparr>x_handy := x_handy x - 4, x_private := x_private x + 4\<rparr>)"
proof -
  have h: "\<not> x_handy x < 4" using assms(2) by (simp add: word_less_nat_alt)
  have "map_option htonl (load32 (x_ram x) (x_private x)) = Some (of_be32 (seg (x_private x) 4 (x_ram x)))"
    using assms(1,2) by (intro load32_be) (simp add: mem_ok_def)
  then show ?thesis
    using h assms(3) by (auto simp: xdr_array_def xdr_u_int_def xdr_u_long_def xdrmem_ops_def
        xdrmem_getlong_def array_size_eq)
qed

lemma xdr_array_refuses_overflow_witness:
  "xdr_array xdrmem_ops Map.empty 4 (0::u32) 0xFFFFFFFF 4 (xdr_u_int xdrmem_ops) XDR_DECODE (None, 0)
      (xdrmem_create 0 4 [0x40, 0, 0, 1]) =
    Some (False, (None, of_be32 (seg (x_private (xdrmem_create 0 4 [0x40, 0, 0, 1])) 4 (x_ram (xdrmem_create 0 4 [0x40, 0, 0, 1])))),
      xdrmem_create 0 4 [0x40, 0, 0, 1]\<lparr>x_handy := x_handy (xdrmem_create 0 4 [0x40, 0, 0, 1]) - 4,
        x_private := x_private (xdrmem_create 0 4 [0x40, 0, 0, 1]) + 4\<rparr>)"
  by (rule xdr_array_refuses_overflow)
    (simp_all add: mem_ok_def xdrmem_create_def seg_def of_be32_def)

text \<open>With the buffer in the lower half of the address space, \<open>xdrmem_setpos\<close> accepts exactly the
  positions up to the end of the buffer; an accepted position is the one \<open>xdrmem_getpos\<close> then
  reports, and the end of the buffer stays where it is.\<close>
theorem xdrmem_setpos_getpos:
  assumes "mem_ok x" "x_private x + unat (x_handy x) < 2147483648" "x_base x + unat pos < 2147483648"
  shows "(fst (xdrmem_setpos pos x) \<longleftrightarrow> x_base x + unat pos \<le> x_private x + unat (x_handy x)) \<and>
    (fst (xdrmem_setpos pos x) \<longrightarrow>
      mem_ok (snd (xdrmem_setpos pos x)) \<and> xdrmem_getpos (snd (xdrmem_setpos pos x)) = pos \<and>
      x_private (snd (xdrmem_setpos pos x)) + unat (x_handy (snd (xdrmem_setpos pos x))) =
        x_private x + unat (x_handy x)) \<and>
    (\<not> fst (xdrmem_setpos pos x) \<longrightarrow> snd (xdrmem_setpos pos x) = x)"
proof -
  let ?n = "of_nat (x_base x) + pos" and ?l = "of_nat (x_private x) + x_handy x"
  have n: "unat ?n = x_base x + unat pos" and l: "unat ?l = x_private x + unat (x_handy x)"
    using assms(2,3) by (simp_all add: unat_word_ariths(1) unat_of_nat)
  have s: "sint (w :: u32) = int (unat w)" if "unat w < 2147483648" for w
  proof -
    have "int (unat w) < 2147483648" using that by linarith
    then have "uint w < 2147483648" by simp
    then show ?thesis by (simp add: sint_cases)
  qed
  have c: "sint ?n > sint ?l \<longleftrightarrow> \<not> x_base x + unat pos \<le> x_private x + unat (x_handy x)"
  proof -
    have "sint ?n = int (x_base x + unat pos)" using s [of ?n] n assms(3) by metis
    moreover have "sint ?l = int (x_private x + unat (x_handy x))" using s [of ?l] l assms(2) by metis
    ultimately show ?thesis by linarith
  qed
  have d: "unat (?l - ?n) = unat ?l - unat ?n" if "x_base x + unat pos \<le> x_private x + unat (x_handy x)"
    using that n l by (simp add: unat_sub word_le_nat_alt)
  have g: "of_nat (x_base x + unat pos) - of_nat (x_base x) = pos" by simp
  show ?thesis
  proof (cases "x_base x + unat pos \<le> x_private x + unat (x_handy x)")
    case True
    then have e: "xdrmem_setpos pos x = (True, x\<lparr>x_private := x_base x + unat pos, x_handy := ?l - ?n\<rparr>)"
      using c n by (simp add: xdrmem_setpos_def Let_def)
    have u: "unat (?l - ?n) = x_private x + unat (x_handy x) - (x_base x + unat pos)"
      using d [OF True] n l by simp
    show ?thesis unfolding e fst_conv snd_conv using True u assms(1) by (simp add: mem_ok_def xdrmem_getpos_def)
  next
    case False
    then have "xdrmem_setpos pos x = (False, x)" using c by (simp add: xdrmem_setpos_def Let_def)
    then show ?thesis using False by simp
  qed
qed

lemma xdrmem_setpos_getpos_witness:
  "(fst (xdrmem_setpos 8 (xdrmem_create 4 8 (replicate 16 0))) \<longleftrightarrow>
      x_base (xdrmem_create 4 8 (replicate 16 0)) + unat (8 :: u32) \<le>
      x_private (xdrmem_create 4 8 (replicate 16 0)) + unat (x_handy (xdrmem_create 4 8 (replicate 16 0))))"
  using xdrmem_setpos_getpos [of "xdrmem_create 4 8 (replicate 16 0)" 8]
  by (simp add: mem_ok_def xdrmem_create_def)

text \<open>A position that wraps the address is accepted too, and lies before the buffer.\<close>

lemma xdrmem_setpos_before_buffer:
  "fst (xdrmem_setpos (- 4) (xdrmem_create 8 4 (replicate 12 0))) \<and>
   x_private (snd (xdrmem_setpos (- 4) (xdrmem_create 8 4 (replicate 12 0)))) = 4"
  by (simp add: xdrmem_setpos_def xdrmem_create_def Let_def sint_cases)

text \<open>A string length of \<open>0xffffffff\<close> makes \<open>nodesize\<close> wrap to 0: \<open>xdr_wrapstring\<close> then reports success
  for the four bytes of the length alone and leaves the pointer NULL.\<close>
theorem xdr_wrapstring_accepts_wrap:
  "\<exists>x. xdr_wrapstring xdrmem_ops alloc XDR_DECODE None (xdrmem_create 0 4 [255, 255, 255, 255]) =
    Some (True, None, x)"
proof -
  have m: "LASTUNSIGNED = mask 32" "(255 :: u8) = mask 8" by (simp_all add: mask_eq_exp_minus_1)
  have "be32 LASTUNSIGNED = [255, 255, 255, 255]"
    unfolding be32_def m by (auto simp: bit_simps intro!: bit_word_eqI)
  then have "ahead mem_view (xdrmem_create 0 4 [255, 255, 255, 255]) = be32 LASTUNSIGNED @ []"
    by (simp add: xdrmem_create_def seg_def)
  from yieldsD [OF mem.wrapstring_wraps _ this] show ?thesis
    by (auto simp: mem_ok_create)
qed

end
