(* ===== verification/Xdr_Rec.thy ===== *)
theory Xdr_Rec
  imports Xdr_Mem
begin

text \<open>
  XDR record streams (\<open>src/lib/c/librpc/xdr_rec.c\<close>): records are sent over a byte transport as
  fragments, each after a header with its length and a bit that marks the last fragment of its
  record.

  \<open>recstream\<close> is \<open>RECSTREAM\<close>; positions in the two buffers are offsets from \<open>out_base\<close> and
  \<open>in_base\<close>, which are four-byte aligned, and \<open>out_boundry\<close> is \<open>sendsize\<close>. The transport is a parameter:
  its state \<open>'t\<close> behind \<open>tcp_handle\<close>, \<open>readit\<close>, which delivers bytes or \<open>-1\<close> (\<open>None\<close>), and
  \<open>writeit\<close>, which returns the number of bytes it took. A loop that does not end, as when the
  transport keeps delivering no bytes, has the value \<open>None\<close>.
\<close>

section \<open>Definitions\<close>

record 't recstream =
  tcp_handle :: 't
  out_buf :: "u8 list"
  out_finger :: nat
  frag_header :: nat
  frag_sent :: bool
  in_buf :: "u8 list"
  in_finger :: nat
  in_boundry :: nat
  fbtbc :: int
  last_frag :: bool

type_synonym 't readit = "nat \<Rightarrow> 't \<Rightarrow> u8 list option \<times> 't"
type_synonym 't writeit = "u8 list \<Rightarrow> 't \<Rightarrow> int \<times> 't"

abbreviation sendsize :: "'t recstream \<Rightarrow> nat" where
  "sendsize r \<equiv> length (out_buf r)"

abbreviation LAST_FRAG :: u32 where
  "LAST_FRAG \<equiv> 0x80000000"

definition fix_buf_size :: "u32 \<Rightarrow> u32" where
  "fix_buf_size s = (let s = (if s < 100 then 4000 else s) in (s + 4 - 1) AND NOT (4 - 1))"

text \<open>\<open>xdrrec_create\<close>; \<open>the_buffer\<close> is what \<open>mem_alloc\<close> returned, and without it the handle stays
  unusable (\<open>None\<close>).\<close>

definition xdrrec_create :: "(nat \<Rightarrow> u8 list option) \<Rightarrow> u32 \<Rightarrow> u32 \<Rightarrow> 't \<Rightarrow> 't recstream option" where
  "xdrrec_create alloc ss rs tcp =
     (let ss = fix_buf_size ss; rs = fix_buf_size rs in
      case alloc (unat (ss + rs + 4)) of
        None \<Rightarrow> None
      | Some b \<Rightarrow>
          let out_b = take (unat ss) b; in_b = seg (unat ss) (unat rs) b in
          Some \<lparr>tcp_handle = tcp, out_buf = out_b, out_finger = 4, frag_header = 0, frag_sent = False,
            in_buf = in_b, in_finger = unat rs, in_boundry = unat rs, fbtbc = 0, last_frag = True\<rparr>)"

definition flush_out :: "'t writeit \<Rightarrow> bool \<Rightarrow> 't recstream \<Rightarrow> (bool \<times> 't recstream) option" where
  "flush_out writeit eor r = do {
     let eormask = (if eor then LAST_FRAG else 0);
     let len = of_nat (out_finger r) - of_nat (frag_header r) - 4;
     b \<leftarrow> store32 (out_buf r) (frag_header r) (htonl (len OR eormask));
     let r = r\<lparr>out_buf := b\<rparr>;
     let (n, t) = writeit (take (out_finger r) (out_buf r)) (tcp_handle r);
     let r = r\<lparr>tcp_handle := t\<rparr>;
     Some (if n \<noteq> int (out_finger r) then (False, r) else (True, r\<lparr>frag_header := 0, out_finger := 4\<rparr>))
   }"

definition fill_input_buf :: "'t readit \<Rightarrow> 't recstream \<Rightarrow> (bool \<times> 't recstream) option" where
  "fill_input_buf readit r =
     (let i = in_boundry r mod 4; len = length (in_buf r) - i in
      case readit len (tcp_handle r) of
        (None, t) \<Rightarrow> Some (False, r\<lparr>tcp_handle := t\<rparr>)
      | (Some bs, t) \<Rightarrow>
          if length bs \<le> len then
            Some (True, r\<lparr>tcp_handle := t, in_buf := patch i bs (in_buf r), in_finger := i,
              in_boundry := i + length bs\<rparr>)
          else None)"

text \<open>The result of the loops is FALSE or TRUE, the bytes they stored at \<open>addr\<close>, and the stream.\<close>

partial_function (option) get_input_bytes :: "'t readit \<Rightarrow> nat \<Rightarrow> 't recstream \<Rightarrow> (bool \<times> u8 list \<times> 't recstream) option" where
  "get_input_bytes readit len r =
     (if len > 0 then
        let current = in_boundry r - in_finger r in
        if current = 0 then
          Option.bind (fill_input_buf readit r) (\<lambda>(ok, r').
            if \<not> ok then Some (False, [], r') else get_input_bytes readit len r')
        else
          let current = (if len < current then len else current) in
          Option.bind (get_input_bytes readit (len - current) (r\<lparr>in_finger := in_finger r + current\<rparr>))
            (\<lambda>(ok, bs, r'). Some (ok, seg (in_finger r) current (in_buf r) @ bs, r'))
      else Some (True, [], r))"

definition set_input_fragment :: "'t readit \<Rightarrow> 't recstream \<Rightarrow> (bool \<times> 't recstream) option" where
  "set_input_fragment readit r = do {
     (ok, bs, r) \<leftarrow> get_input_bytes readit 4 r;
     if \<not> ok then Some (False, r)
     else do {
       header \<leftarrow> map_option htonl (load32 bs 0);
       let r = r\<lparr>last_frag := (header AND LAST_FRAG \<noteq> 0)\<rparr>;
       Some (if header = 0 then (False, r) else (True, r\<lparr>fbtbc := uint (header AND NOT LAST_FRAG)\<rparr>))
     }
   }"

partial_function (option) skip_input_bytes :: "'t readit \<Rightarrow> int \<Rightarrow> 't recstream \<Rightarrow> (bool \<times> 't recstream) option" where
  "skip_input_bytes readit cnt r =
     (if cnt > 0 then
        let current = in_boundry r - in_finger r in
        if current = 0 then
          Option.bind (fill_input_buf readit r) (\<lambda>(ok, r').
            if \<not> ok then Some (False, r') else skip_input_bytes readit cnt r')
        else
          let current = (if cnt < int current then nat cnt else current) in
          skip_input_bytes readit (cnt - int current) (r\<lparr>in_finger := in_finger r + current\<rparr>)
      else Some (True, r))"

definition xdrrec_putlong :: "'t writeit \<Rightarrow> u32 \<Rightarrow> 't recstream \<Rightarrow> (bool \<times> 't recstream) option" where
  "xdrrec_putlong writeit lp r =
     (if out_finger r + 4 > sendsize r then do {
        (ok, r) \<leftarrow> flush_out writeit False (r\<lparr>frag_sent := True\<rparr>);
        if \<not> ok then Some (False, r)
        else do {
          b \<leftarrow> store32 (out_buf r) (out_finger r) (htonl lp);
          Some (True, r\<lparr>out_buf := b, out_finger := out_finger r + 4\<rparr>)
        }
      }
      else do {
        b \<leftarrow> store32 (out_buf r) (out_finger r) (htonl lp);
        Some (True, r\<lparr>out_buf := b, out_finger := out_finger r + 4\<rparr>)
      })"

partial_function (option) xdrrec_putloop :: "'t writeit \<Rightarrow> u8 list \<Rightarrow> nat \<Rightarrow> 't recstream \<Rightarrow> (bool \<times> 't recstream) option" where
  "xdrrec_putloop writeit addr len r =
     (if len > 0 then
        let current = sendsize r - out_finger r;
            current = (if len < current then len else current) in
        if length addr < current \<or> sendsize r < out_finger r then None
        else
          let r1 = r\<lparr>out_buf := patch (out_finger r) (take current addr) (out_buf r),
                out_finger := out_finger r + current\<rparr> in
          if out_finger r1 = sendsize r1 then
            Option.bind (flush_out writeit False (r1\<lparr>frag_sent := True\<rparr>)) (\<lambda>(ok, r2).
              if \<not> ok then Some (False, r2)
              else xdrrec_putloop writeit (drop current addr) (len - current) r2)
          else xdrrec_putloop writeit (drop current addr) (len - current) r1
      else Some (True, r))"

definition xdrrec_putbytes :: "'t writeit \<Rightarrow> u8 list \<Rightarrow> u32 \<Rightarrow> 't recstream \<Rightarrow> (bool \<times> 't recstream) option" where
  "xdrrec_putbytes writeit addr len r = xdrrec_putloop writeit addr (unat len) r"

text \<open>\<open>fbtbc\<close> is a \<open>long\<close> and \<open>current\<close> an \<open>unsigned int\<close>: a negative \<open>fbtbc\<close> is a very large \<open>current\<close>.
  More than \<open>INT_MAX\<close> bytes at once would be a negative \<open>len\<close> of \<open>get_input_bytes\<close> and a destination
  larger than any object; that is \<open>None\<close>.\<close>

partial_function (option) xdrrec_getloop :: "'t readit \<Rightarrow> nat \<Rightarrow> 't recstream \<Rightarrow> (bool \<times> u8 list \<times> 't recstream) option" where
  "xdrrec_getloop readit len r =
     (if len > 0 then
        let current = unat (word_of_int (fbtbc r) :: u32) in
        if current = 0 then
          if last_frag r then Some (False, [], r)
          else
            Option.bind (set_input_fragment readit r) (\<lambda>(ok, r').
              if \<not> ok then Some (False, [], r') else xdrrec_getloop readit len r')
        else
          let current = (if len < current then len else current) in
          if current \<ge> 2147483648 then None
          else
            Option.bind (get_input_bytes readit current r) (\<lambda>(ok, bs, r1).
              if \<not> ok then Some (False, bs, r1)
              else
                let fb = sint (word_of_int (fbtbc r1) - of_nat current :: u32) in
                Option.bind (xdrrec_getloop readit (len - current) (r1\<lparr>fbtbc := fb\<rparr>))
                  (\<lambda>(ok', bs', r2). Some (ok', bs @ bs', r2)))
      else Some (True, [], r))"

definition xdrrec_getbytes :: "'t readit \<Rightarrow> u32 \<Rightarrow> 't recstream \<Rightarrow> (bool \<times> u8 list \<times> 't recstream) option" where
  "xdrrec_getbytes readit len r = xdrrec_getloop readit (unat len) r"

definition xdrrec_getlong :: "'t readit \<Rightarrow> 't recstream \<Rightarrow> (u32 option \<times> 't recstream) option" where
  "xdrrec_getlong readit r =
     (if fbtbc r \<ge> 4 \<and> int (in_boundry r) - int (in_finger r) \<ge> 4 then do {
        l \<leftarrow> load32 (in_buf r) (in_finger r);
        Some (Some (htonl l), r\<lparr>fbtbc := fbtbc r - 4, in_finger := in_finger r + 4\<rparr>)
      }
      else do {
        (ok, bs, r) \<leftarrow> xdrrec_getbytes readit 4 r;
        if \<not> ok then Some (None, r)
        else do { mylong \<leftarrow> load32 bs 0; Some (Some (htonl mylong), r) }
      })"

definition xdrrec_ops :: "'t readit \<Rightarrow> 't writeit \<Rightarrow> 't recstream xdr_ops" where
  "xdrrec_ops readit writeit = \<lparr>x_getlong = xdrrec_getlong readit, x_putlong = xdrrec_putlong writeit,
     x_getbytes = xdrrec_getbytes readit, x_putbytes = xdrrec_putbytes writeit\<rparr>"

text \<open>\<open>tell\<close> is \<open>lseek(tcp_handle, 0, 1)\<close>.\<close>

definition xdrrec_getpos :: "('t \<Rightarrow> u32) \<Rightarrow> xdr_op \<Rightarrow> 't recstream \<Rightarrow> u32" where
  "xdrrec_getpos tell x_op r =
     (let pos = tell (tcp_handle r) in
      if pos \<noteq> - 1 then
        case x_op of
          XDR_ENCODE \<Rightarrow> pos + of_nat (out_finger r)
        | XDR_DECODE \<Rightarrow> pos - (of_nat (in_boundry r) - of_nat (in_finger r))
        | XDR_FREE \<Rightarrow> - 1
      else pos)"

definition xdrrec_setpos :: "('t \<Rightarrow> u32) \<Rightarrow> xdr_op \<Rightarrow> u32 \<Rightarrow> 't recstream \<Rightarrow> bool \<times> 't recstream" where
  "xdrrec_setpos tell x_op pos r =
     (let currpos = xdrrec_getpos tell x_op r; delta = sint (currpos - pos) in
      if currpos \<noteq> - 1 then
        case x_op of
          XDR_ENCODE \<Rightarrow>
            let newpos = int (out_finger r) - delta in
            if newpos > int (frag_header r) \<and> newpos < int (sendsize r) then
              (True, r\<lparr>out_finger := nat newpos\<rparr>)
            else (False, r)
        | XDR_DECODE \<Rightarrow>
            let newpos = int (in_finger r) - delta in
            if delta < fbtbc r \<and> newpos \<le> int (in_boundry r) \<and> newpos \<ge> 0 then
              (True, r\<lparr>in_finger := nat newpos, fbtbc := fbtbc r - delta\<rparr>)
            else (False, r)
        | XDR_FREE \<Rightarrow> (False, r)
      else (False, r))"

definition xdrrec_inline :: "xdr_op \<Rightarrow> u32 \<Rightarrow> 't recstream \<Rightarrow> nat option \<times> 't recstream" where
  "xdrrec_inline x_op len r =
     (case x_op of
        XDR_ENCODE \<Rightarrow>
          if out_finger r + unat len \<le> sendsize r then
            (Some (out_finger r), r\<lparr>out_finger := out_finger r + unat len\<rparr>)
          else (None, r)
      | XDR_DECODE \<Rightarrow>
          if sint len \<le> fbtbc r \<and> in_finger r + unat len \<le> in_boundry r then
            (Some (in_finger r), r\<lparr>fbtbc := fbtbc r - sint len, in_finger := in_finger r + unat len\<rparr>)
          else (None, r)
      | XDR_FREE \<Rightarrow> (None, r))"

text \<open>The loop that \<open>xdrrec_skiprecord\<close> and \<open>xdrrec_eof\<close> share.\<close>

partial_function (option) skip_fragments :: "'t readit \<Rightarrow> 't recstream \<Rightarrow> (bool \<times> 't recstream) option" where
  "skip_fragments readit r =
     (if fbtbc r > 0 \<or> \<not> last_frag r then
        Option.bind (skip_input_bytes readit (fbtbc r) r) (\<lambda>(ok, r1).
          if \<not> ok then Some (False, r1)
          else
            let r2 = r1\<lparr>fbtbc := 0\<rparr> in
            if \<not> last_frag r2 then
              Option.bind (set_input_fragment readit r2) (\<lambda>(ok', r3).
                if \<not> ok' then Some (False, r3) else skip_fragments readit r3)
            else skip_fragments readit r2)
      else Some (True, r))"

definition xdrrec_skiprecord :: "'t readit \<Rightarrow> 't recstream \<Rightarrow> (bool \<times> 't recstream) option" where
  "xdrrec_skiprecord readit r = do {
     (ok, r) \<leftarrow> skip_fragments readit r;
     Some (if \<not> ok then (False, r) else (True, r\<lparr>last_frag := False\<rparr>))
   }"

definition xdrrec_eof :: "'t readit \<Rightarrow> 't recstream \<Rightarrow> (bool \<times> 't recstream) option" where
  "xdrrec_eof readit r = do {
     (ok, r) \<leftarrow> skip_fragments readit r;
     Some (if \<not> ok then (True, r) else (in_finger r = in_boundry r, r))
   }"

definition xdrrec_endofrecord :: "'t writeit \<Rightarrow> bool \<Rightarrow> 't recstream \<Rightarrow> (bool \<times> 't recstream) option" where
  "xdrrec_endofrecord writeit sendnow r =
     (if sendnow \<or> frag_sent r \<or> out_finger r + 4 \<ge> sendsize r then
        flush_out writeit True (r\<lparr>frag_sent := False\<rparr>)
      else do {
        let len = of_nat (out_finger r) - of_nat (frag_header r) - 4;
        b \<leftarrow> store32 (out_buf r) (frag_header r) (htonl (len OR LAST_FRAG));
        Some (True, r\<lparr>out_buf := b, frag_header := out_finger r, out_finger := out_finger r + 4\<rparr>)
      })"

end
