(* ===== verification/Xdr_Rec_Correct.thy ===== *)
theory Xdr_Rec_Correct
  imports Xdr_Rec
begin

text \<open>
  Record streams over a reliable transport keep the contract \<open>xdr_stream\<close>, and transfer the sequence of
  records: \<open>framing\<close> gives the meaning of the bytes on the wire, the writer appends to the
  current record and \<open>xdrrec_endofrecord\<close> completes it, the reader yields the record's bytes
  wherever the fragments were cut, and \<open>xdrrec_skiprecord\<close> moves to the next record.
\<close>

section \<open>Framing\<close>

definition header_of :: "bool \<Rightarrow> nat \<Rightarrow> u32" where
  "header_of eor n = of_nat n OR (if eor then LAST_FRAG else 0)"

definition frame :: "bool \<Rightarrow> u8 list \<Rightarrow> u8 list" where
  "frame eor p = be32 (header_of eor (length p)) @ p"

lemma LAST_FRAG_bit: "LAST_FRAG = push_bit 31 1"
  by (simp add: push_bit_eq_mult)

lemma bit_LAST_FRAG: "bit LAST_FRAG n \<longleftrightarrow> n = 31"
  unfolding LAST_FRAG_bit bit_push_bit_iff by (auto simp: bit_simps)

lemma bit_31_small: "n < 2147483648 \<Longrightarrow> \<not> bit (of_nat n :: u32) 31"
proof
  assume n: "n < 2147483648" and "bit (of_nat n :: u32) 31"
  then have "bit (unat (of_nat n :: u32)) 31" by (simp only: bit_unsigned_iff) simp
  moreover have "unat (of_nat n :: u32) = n" using n by (simp add: unat_of_nat)
  ultimately have "bit n 31" by (simp only:)
  then show False using n by (simp add: bit_iff_odd)
qed

definition header_len :: "u32 \<Rightarrow> nat" where
  "header_len h = unat (h AND NOT LAST_FRAG)"

definition header_last :: "u32 \<Rightarrow> bool" where
  "header_last h \<longleftrightarrow> h AND LAST_FRAG \<noteq> 0"

lemma header_small:
  assumes "n < 2147483648"
  shows "header_of eor n AND NOT LAST_FRAG = of_nat n" "header_of eor n AND LAST_FRAG \<noteq> 0 \<longleftrightarrow> eor"
    "header_of eor n = 0 \<longleftrightarrow> \<not> eor \<and> n = 0" "unat (of_nat n :: u32) = n"
proof -
  note b = bit_31_small [OF assms]
  show u: "unat (of_nat n :: u32) = n" using assms by (simp add: unat_of_nat)
  show m: "header_of eor n AND NOT LAST_FRAG = of_nat n"
  proof (rule bit_word_eqI)
    fix k assume "k < LENGTH(32)"
    then show "bit (header_of eor n AND NOT LAST_FRAG) k \<longleftrightarrow> bit (of_nat n :: u32) k"
      using b by (cases "k = 31") (auto simp: header_of_def bit_simps bit_LAST_FRAG simp del: bit_numeral_word_iff)
  qed
  have l: "bit (header_of eor n AND LAST_FRAG) k \<longleftrightarrow> eor \<and> k = 31" for k
    using b by (auto simp: header_of_def bit_simps bit_LAST_FRAG simp del: bit_numeral_word_iff)
  show e: "header_of eor n AND LAST_FRAG \<noteq> 0 \<longleftrightarrow> eor"
    using l by (metis bit_0_eq bot_apply bot_bool_def bit_eqI)
  show "header_of eor n = 0 \<longleftrightarrow> \<not> eor \<and> n = 0"
  proof
    assume z: "header_of eor n = 0"
    with m have "(of_nat n :: u32) = 0" by simp
    with u have "n = 0" by (metis unat_0)
    with z e show "\<not> eor \<and> n = 0" by auto
  qed (simp add: header_of_def)
qed

text \<open>The bytes of the current record that follow on the wire, and the wire after it.\<close>

function recfrag :: "u8 list \<Rightarrow> (u8 list \<times> u8 list) option" where
  "recfrag w =
     (if length w < 4 then None
      else
        let h = of_be32 (take 4 w); n = header_len h in
        if h = 0 \<or> length w < 4 + n then None
        else if header_last h then Some (seg 4 n w, drop (4 + n) w)
        else map_option (apfst ((@) (seg 4 n w))) (recfrag (drop (4 + n) w)))"
  by pat_completeness auto
termination by (relation "measure length") auto

declare recfrag.simps [simp del]

lemma recfrag_header:
  assumes "4 \<le> length w" "of_be32 (take 4 w) = h" "h \<noteq> 0" "4 + header_len h \<le> length w"
  shows "recfrag w = (if header_last h then Some (seg 4 (header_len h) w, drop (4 + header_len h) w)
    else map_option (apfst ((@) (seg 4 (header_len h) w))) (recfrag (drop (4 + header_len h) w)))"
  using assms by (simp add: recfrag.simps [of w] Let_def)

lemma header_of_frame:
  assumes "length p < 2147483648"
  shows "header_len (header_of b (length p)) = length p" "header_last (header_of b (length p)) \<longleftrightarrow> b"
  using header_small [OF assms] by (simp_all only: header_len_def header_last_def)

lemma recfrag_frame:
  assumes p: "length p < 2147483648" "\<not> eor \<longrightarrow> p \<noteq> []"
  shows "recfrag (frame eor p @ w) = (if eor then Some (p, w) else map_option (apfst ((@) p)) (recfrag w))"
proof -
  have z: "header_of eor (length p) \<noteq> 0" using header_small(3) [OF p(1), of eor] p(2) by auto
  have s: "seg 4 (length p) (frame eor p @ w) = p" "drop (4 + length p) (frame eor p @ w) = w"
    by (simp_all add: seg_def frame_def)
  note r = recfrag_header [of "frame eor p @ w" "header_of eor (length p)", OF _ _ z,
      unfolded header_of_frame [OF p(1)] s]
  show ?thesis by (rule r) (simp_all add: frame_def)
qed

text \<open>The sequence of complete records on a wire, given the bytes \<open>cur\<close> of the record that was open
  before it, and the bytes of the record that is open after it.\<close>

inductive framing :: "u8 list \<Rightarrow> u8 list \<Rightarrow> u8 list list \<Rightarrow> u8 list \<Rightarrow> bool" where
  nil: "framing cur [] [] cur"
| more: "framing (cur @ p) w rs c \<Longrightarrow> length p < 2147483648 \<Longrightarrow> p \<noteq> [] \<Longrightarrow> framing cur (frame False p @ w) rs c"
| eor: "framing [] w rs c \<Longrightarrow> length p < 2147483648 \<Longrightarrow> framing cur (frame True p @ w) ((cur @ p) # rs) c"

lemma framing_snoc:
  "framing cur w rs c \<Longrightarrow> length p < 2147483648 \<Longrightarrow> \<not> b \<longrightarrow> p \<noteq> [] \<Longrightarrow>
    framing cur (w @ frame b p) (if b then rs @ [c @ p] else rs) (if b then [] else c @ p)"
proof (induction rule: framing.induct)
  case (nil cur)
  then show ?case
    using framing.eor [OF framing.nil, of p cur] framing.more [OF framing.nil, of p cur]
    by (auto simp del: append_Nil2 simp: append_Nil2 [of "frame _ p"])
next
  case (more cur p w rs c)
  then show ?case by (auto intro: framing.more simp: append_assoc split: if_splits)
next
  case (eor w rs c p cur)
  then show ?case by (cases b) (auto intro: framing.eor)
qed

lemma framing_recfrag:
  "framing cur w (r # rs) c \<Longrightarrow> \<exists>r' w'. recfrag w = Some (r', w') \<and> r = cur @ r' \<and> framing [] w' rs c"
proof (induction cur w "r # rs" c rule: framing.induct)
  case (more cur p w c)
  then show ?case by (auto simp: recfrag_frame)
next
  case (eor w c p cur)
  then show ?case by (auto simp: recfrag_frame)
qed

section \<open>The transport\<close>

text \<open>A transport delivers the bytes \<open>avail\<close>, at least one at a time and at most as many as asked for, and
  \<open>-1\<close> when there are none; it takes what is written.\<close>

definition delivers :: "'t readit \<Rightarrow> ('t \<Rightarrow> u8 list) \<Rightarrow> bool" where
  "delivers readit avail \<longleftrightarrow> (\<forall>n t. 0 < n \<longrightarrow>
     (if avail t = [] then \<exists>t'. readit n t = (None, t') \<and> avail t' = []
      else \<exists>k t'. readit n t = (Some (take k (avail t)), t') \<and> 0 < k \<and> k \<le> n \<and> k \<le> length (avail t) \<and>
        avail t' = drop k (avail t)))"

definition accepts :: "'t writeit \<Rightarrow> ('t \<Rightarrow> u8 list) \<Rightarrow> bool" where
  "accepts writeit sent \<longleftrightarrow> (\<forall>bs t. \<exists>t'. writeit bs t = (int (length bs), t') \<and> sent t' = sent t @ bs)"

section \<open>Reading\<close>

definition in_ok :: "'t recstream \<Rightarrow> bool" where
  "in_ok r \<longleftrightarrow> in_finger r \<le> in_boundry r \<and> in_boundry r \<le> length (in_buf r) \<and> 4 \<le> length (in_buf r)"

text \<open>The bytes from the finger on, in the buffer and in the transport.\<close>

definition raw :: "('t \<Rightarrow> u8 list) \<Rightarrow> 't recstream \<Rightarrow> u8 list" where
  "raw avail r = seg (in_finger r) (in_boundry r - in_finger r) (in_buf r) @ avail (tcp_handle r)"

definition same_frag :: "'t recstream \<Rightarrow> 't recstream \<Rightarrow> bool" where
  "same_frag r r' \<longleftrightarrow> fbtbc r' = fbtbc r \<and> last_frag r' = last_frag r"

lemma same_frag_refl [simp]: "same_frag r r"
  by (simp add: same_frag_def)

lemma same_frag_trans: "same_frag r r' \<Longrightarrow> same_frag r' r'' \<Longrightarrow> same_frag r r''"
  by (simp add: same_frag_def)

lemma fill_input:
  assumes d: "delivers readit avail" and r: "in_ok r" "in_finger r = in_boundry r"
  shows "if raw avail r = [] then \<exists>r'. fill_input_buf readit r = Some (False, r')
    else \<exists>r'. fill_input_buf readit r = Some (True, r') \<and> in_ok r' \<and> raw avail r' = raw avail r \<and>
      same_frag r r' \<and> in_finger r' < in_boundry r'"
proof -
  let ?i = "in_boundry r mod 4" and ?t = "tcp_handle r"
  have a: "raw avail r = avail ?t" using r(2) by (simp add: raw_def)
  have i: "?i < 4" by simp
  then have n: "0 < length (in_buf r) - ?i" using r(1) by (auto simp: in_ok_def)
  show ?thesis
  proof (cases "avail ?t = []")
    case True
    with d n obtain t' where "readit (length (in_buf r) - ?i) ?t = (None, t')"
      unfolding delivers_def by metis
    then show ?thesis using a True by (simp add: fill_input_buf_def Let_def)
  next
    case False
    with d n obtain k t' where k: "readit (length (in_buf r) - ?i) ?t = (Some (take k (avail ?t)), t')"
      "0 < k" "k \<le> length (in_buf r) - ?i" "k \<le> length (avail ?t)" "avail t' = drop k (avail ?t)"
      unfolding delivers_def by metis
    let ?bs = "take k (avail ?t)"
    let ?r = "r\<lparr>tcp_handle := t', in_buf := patch ?i ?bs (in_buf r), in_finger := ?i, in_boundry := ?i + k\<rparr>"
    have l: "length ?bs = k" using k by simp
    have p: "?i + length ?bs \<le> length (in_buf r)" using k(3) i r(1) unfolding l by (auto simp: in_ok_def)
    have e: "fill_input_buf readit r = Some (True, ?r)"
      using k l by (simp add: fill_input_buf_def Let_def min_absorb2)
    have "in_ok ?r" using r(1) p l by (simp add: in_ok_def length_patch)
    moreover have "raw avail ?r = avail ?t"
      using seg_patch [OF p, unfolded l] by (simp add: raw_def k(5))
    moreover have "same_frag r ?r" by (simp add: same_frag_def)
    ultimately show ?thesis using e a False k(2) by (intro iffD2 [OF if_bool_eq_conj]) auto
  qed
qed

lemma take_raw:
  assumes "in_ok r" "k \<le> in_boundry r - in_finger r"
  shows "take k (raw avail r) = seg (in_finger r) k (in_buf r)"
    "raw avail (r\<lparr>in_finger := in_finger r + k\<rparr>) = drop k (raw avail r)"
    "in_ok (r\<lparr>in_finger := in_finger r + k\<rparr>)" "k \<le> length (raw avail r)"
  using assms by (auto simp: raw_def in_ok_def take_seg drop_seg)

lemma get_input:
  assumes d: "delivers readit avail"
  shows "in_ok r \<Longrightarrow>
    if n \<le> length (raw avail r) then
      \<exists>r'. get_input_bytes readit n r = Some (True, take n (raw avail r), r') \<and> in_ok r' \<and>
        raw avail r' = drop n (raw avail r) \<and> same_frag r r'
    else \<exists>bs r'. get_input_bytes readit n r = Some (False, bs, r') \<and> length bs \<le> n"
proof (induction n arbitrary: r rule: less_induct)
  case (less n)
  let ?P = "\<lambda>r. if n \<le> length (raw avail r) then
      \<exists>r'. get_input_bytes readit n r = Some (True, take n (raw avail r), r') \<and> in_ok r' \<and>
        raw avail r' = drop n (raw avail r) \<and> same_frag r r'
    else \<exists>bs r'. get_input_bytes readit n r = Some (False, bs, r') \<and> length bs \<le> n"
  have go: "?P r" if r: "in_ok r" "in_finger r < in_boundry r" and n: "0 < n" for r
  proof -
    define k where "k = (if n < in_boundry r - in_finger r then n else in_boundry r - in_finger r)"
    have k: "0 < k" "k \<le> n" "k \<le> in_boundry r - in_finger r" using r n by (auto simp: k_def)
    let ?r = "r\<lparr>in_finger := in_finger r + k\<rparr>"
    note t = take_raw [OF r(1) k(3)]
    have step: "get_input_bytes readit n r =
        Option.bind (get_input_bytes readit (n - k) ?r) (\<lambda>(ok, bs, r'). Some (ok, take k (raw avail r) @ bs, r'))"
      unfolding t(1) using n r by (subst get_input_bytes.simps) (simp add: k_def Let_def)
    have sf: "same_frag ?r r' \<Longrightarrow> same_frag r r'" for r' by (simp add: same_frag_def)
    show ?thesis
    proof (cases "n \<le> length (raw avail r)")
      case True
      then have "n - k \<le> length (raw avail ?r)" unfolding t(2) by simp
      with less.IH [of "n - k" ?r] k n t(3) obtain r' where r': "get_input_bytes readit (n - k) ?r =
          Some (True, take (n - k) (raw avail ?r), r')" "in_ok r'" "raw avail r' = drop (n - k) (raw avail ?r)"
          "same_frag ?r r'" by auto
      have "take k (raw avail r) @ take (n - k) (raw avail ?r) = take n (raw avail r)"
        unfolding t(2) using k(2) by (metis le_add_diff_inverse take_add)
      then show ?thesis using True r' k(2) unfolding step by (simp add: t(2) sf)
    next
      case False
      then have "\<not> n - k \<le> length (raw avail ?r)" unfolding t(2) length_drop using t(4) [of avail] k(2) by linarith
      with less.IH [of "n - k" ?r] k n t(3) obtain bs r' where
        "get_input_bytes readit (n - k) ?r = Some (False, bs, r')" "length bs \<le> n - k" by auto
      then show ?thesis using False k(2) unfolding step by simp
    qed
  qed
  show ?case
  proof (cases "n = 0")
    case True
    then show ?thesis using less.prems by (subst get_input_bytes.simps) simp
  next
    case n: False
    show ?thesis
    proof (cases "in_finger r < in_boundry r")
      case True
      then show ?thesis using go [OF less.prems True] n by blast
    next
      case False
      then have e: "in_finger r = in_boundry r" using less.prems by (simp add: in_ok_def)
      note f = fill_input [OF d less.prems e]
      show ?thesis
      proof (cases "raw avail r = []")
        case True
        with f obtain r' where "fill_input_buf readit r = Some (False, r')" by auto
        then have "get_input_bytes readit n r = Some (False, [], r')"
          using n e by (subst get_input_bytes.simps) (simp add: Let_def)
        then show ?thesis using True n by simp
      next
        case False
        with f obtain r' where r': "fill_input_buf readit r = Some (True, r')" "in_ok r'"
          "raw avail r' = raw avail r" "same_frag r r'" "in_finger r' < in_boundry r'" by auto
        have "get_input_bytes readit n r = get_input_bytes readit n r'"
          using n e r'(1) by (subst get_input_bytes.simps) (simp add: Let_def)
        then show ?thesis using go [OF r'(2,5)] n r'(3) same_frag_trans [OF r'(4)] by auto
      qed
    qed
  qed
qed

lemma load32_4: "length bs = 4 \<Longrightarrow> map_option htonl (load32 bs 0) = Some (of_be32 bs)"
  using load32_be [of 0 bs] by (simp add: seg_def)

lemma set_fragment:
  assumes d: "delivers readit avail" and r: "in_ok r"
  defines "h \<equiv> of_be32 (take 4 (raw avail r))"
  shows "if 4 \<le> length (raw avail r) \<and> h \<noteq> 0 then
      \<exists>r'. set_input_fragment readit r = Some (True, r') \<and> in_ok r' \<and> raw avail r' = drop 4 (raw avail r) \<and>
        fbtbc r' = int (header_len h) \<and> last_frag r' = header_last h
    else \<exists>r'. set_input_fragment readit r = Some (False, r')"
proof (cases "4 \<le> length (raw avail r)")
  case False
  with get_input [OF d r, of 4] obtain bs r' where "get_input_bytes readit 4 r = Some (False, bs, r')" by auto
  then show ?thesis using False by (simp add: set_input_fragment_def)
next
  case True
  with get_input [OF d r, of 4] obtain r' where r': "get_input_bytes readit 4 r = Some (True, take 4 (raw avail r), r')"
    "in_ok r'" "raw avail r' = drop 4 (raw avail r)" by auto
  have "map_option htonl (load32 (take 4 (raw avail r)) 0) = Some h"
    using True unfolding h_def by (intro load32_4) simp
  then obtain z where z: "load32 (take 4 (raw avail r)) 0 = Some z" "htonl z = h" by auto
  have e: "set_input_fragment readit r = (let r2 = r'\<lparr>last_frag := header_last h\<rparr> in
      Some (if h = 0 then (False, r2) else (True, r2\<lparr>fbtbc := uint (h AND NOT LAST_FRAG)\<rparr>)))"
    unfolding set_input_fragment_def r'(1) by (simp add: header_last_def Let_def z)
  have u: "uint (h AND NOT LAST_FRAG) = int (header_len h)"
    unfolding header_len_def by (simp only: of_nat_unat)
  show ?thesis
  proof (cases "h = 0")
    case h: False
    let ?r = "r'\<lparr>last_frag := header_last h, fbtbc := int (header_len h)\<rparr>"
    have "set_input_fragment readit r = Some (True, ?r)" unfolding e u using h by (simp add: Let_def)
    moreover have "in_ok ?r" "raw avail ?r = drop 4 (raw avail r)"
      using r' by (simp_all add: in_ok_def raw_def)
    ultimately show ?thesis using True h by simp
  qed (simp add: e Let_def)
qed

text \<open>A reading stream is well formed when the current fragment lies ahead and, unless it is the last one, the
  remaining fragments of its record.\<close>

definition rec_rok :: "('t \<Rightarrow> u8 list) \<Rightarrow> 't recstream \<Rightarrow> bool" where
  "rec_rok avail r \<longleftrightarrow> in_ok r \<and> 0 \<le> fbtbc r \<and> fbtbc r < 2147483648 \<and> nat (fbtbc r) \<le> length (raw avail r) \<and>
     (\<not> last_frag r \<longrightarrow> recfrag (drop (nat (fbtbc r)) (raw avail r)) \<noteq> None)"

definition rec_ahead :: "('t \<Rightarrow> u8 list) \<Rightarrow> 't recstream \<Rightarrow> u8 list" where
  "rec_ahead avail r = take (nat (fbtbc r)) (raw avail r) @
     (if last_frag r then [] else fst (the (recfrag (drop (nat (fbtbc r)) (raw avail r)))))"

text \<open>The wire after the current record.\<close>

definition rec_next :: "('t \<Rightarrow> u8 list) \<Rightarrow> 't recstream \<Rightarrow> u8 list" where
  "rec_next avail r = (let w = drop (nat (fbtbc r)) (raw avail r) in
     if last_frag r then w else snd (the (recfrag w)))"

lemma header_len_bound: "int (header_len h) < 2147483648"
proof -
  have "h AND NOT LAST_FRAG = take_bit 31 h"
    by (rule bit_word_eqI) (auto simp: bit_simps bit_LAST_FRAG simp del: bit_numeral_word_iff)
  then have "uint (h AND NOT LAST_FRAG) = take_bit 31 (uint h)" by (simp add: unsigned_take_bit_eq)
  moreover have "take_bit 31 (uint h) < 2 ^ 31" by (rule take_bit_int_less_exp)
  moreover have "int (header_len h) = uint (h AND NOT LAST_FRAG)" unfolding header_len_def by (simp only: of_nat_unat)
  ultimately show ?thesis by simp
qed

text \<open>The width of \<open>fbtbc\<close> does not matter while it is a fragment length.\<close>

lemma fbtbc_width:
  assumes "0 \<le> f" "f < 2147483648"
  shows "unat (word_of_int f :: u32) = nat f" "k \<le> nat f \<Longrightarrow> sint (word_of_int f - of_nat k :: u32) = f - int k"
proof -
  have "uint (word_of_int f :: u32) = f" using assms by (simp add: uint_word_of_int_eq take_bit_int_eq_self)
  then show "unat (word_of_int f :: u32) = nat f" by (simp add: unat_eq_nat_uint)
  have "(word_of_int f - of_nat k :: u32) = word_of_int (f - int k)" by simp
  moreover assume "k \<le> nat f"
  then have "sint (word_of_int (f - int k) :: u32) = f - int k"
    using assms by (simp add: signed_of_int signed_take_bit_int_eq_self_iff del: of_int_diff)
  ultimately show "sint (word_of_int f - of_nat k :: u32) = f - int k" by (simp only:)
qed

lemma next_fragment:
  assumes d: "delivers readit avail" and r: "rec_rok avail r" "nat (fbtbc r) = 0" "\<not> last_frag r"
  obtains r' where "set_input_fragment readit r = Some (True, r')" "rec_rok avail r'"
    "rec_ahead avail r' = rec_ahead avail r" "rec_next avail r' = rec_next avail r"
    "length (raw avail r') < length (raw avail r)"
proof -
  let ?w = "raw avail r"
  define h where "h = of_be32 (take 4 ?w)"
  have f: "recfrag ?w \<noteq> None" and i: "in_ok r" using r by (simp_all add: rec_rok_def)
  then have c: "4 \<le> length ?w" "h \<noteq> 0" "4 + header_len h \<le> length ?w"
    by (auto simp: recfrag.simps [of ?w] Let_def h_def split: if_splits)
  note v = recfrag_header [OF c(1) h_def [symmetric] c(2,3)]
  from set_fragment [OF d i] c(1,2) obtain r' where r': "set_input_fragment readit r = Some (True, r')" "in_ok r'"
    "raw avail r' = drop 4 ?w" "fbtbc r' = int (header_len h)" "last_frag r' = header_last h"
    by (auto simp: h_def)
  have dd: "drop (header_len h) (drop 4 ?w) = drop (4 + header_len h) ?w" by (simp add: add.commute)
  have ss: "take (header_len h) (drop 4 ?w) = seg 4 (header_len h) ?w" by (simp add: seg_def)
  have "rec_rok avail r' \<and> rec_ahead avail r' = rec_ahead avail r \<and> rec_next avail r' = rec_next avail r"
    unfolding rec_rok_def rec_ahead_def rec_next_def r'(3-5) nat_int dd ss using r v f c r'(2) header_len_bound [of h]
    by (cases "recfrag (drop (4 + header_len h) ?w)") (auto simp: Let_def split: if_splits)
  moreover have "length (raw avail r') < length ?w" using c(1) by (simp add: r'(3))
  ultimately show thesis using r'(1) that by blast
qed

text \<open>Consuming bytes of the current fragment.\<close>

lemma rec_consume:
  assumes r: "rec_rok avail r" and k: "k \<le> nat (fbtbc r)"
    and r1: "in_ok r1" "raw avail r1 = drop k (raw avail r)" "same_frag r r1"
  defines "r2 \<equiv> r1\<lparr>fbtbc := fbtbc r1 - int k\<rparr>"
  shows "rec_rok avail r2" "rec_ahead avail r2 = drop k (rec_ahead avail r)"
    "rec_next avail r2 = rec_next avail r" "raw avail r2 = drop k (raw avail r)"
proof -
  have f: "nat (fbtbc r2) = nat (fbtbc r) - k" "0 \<le> fbtbc r2" "last_frag r2 = last_frag r" "in_ok r2"
    and w: "raw avail r2 = drop k (raw avail r)"
    using r k r1 by (auto simp: r2_def same_frag_def rec_rok_def raw_def in_ok_def)
  have d: "drop (nat (fbtbc r2)) (raw avail r2) = drop (nat (fbtbc r)) (raw avail r)"
    unfolding w f(1) using k by simp
  show "rec_rok avail r2" using r f w d by (auto simp: rec_rok_def)
  have "take (nat (fbtbc r2)) (raw avail r2) = drop k (take (nat (fbtbc r)) (raw avail r))"
    unfolding w f(1) by (simp add: drop_take)
  moreover have "k \<le> length (take (nat (fbtbc r)) (raw avail r))" using k r by (simp add: rec_rok_def)
  ultimately show "rec_ahead avail r2 = drop k (rec_ahead avail r)"
    unfolding rec_ahead_def d f(3) by simp
  show "rec_next avail r2 = rec_next avail r" unfolding rec_next_def d f(3) by simp
  show "raw avail r2 = drop k (raw avail r)" by (rule w)
qed

lemma get_loop:
  assumes d: "delivers readit avail"
  shows "rec_rok avail r \<Longrightarrow>
    if n \<le> length (rec_ahead avail r) then
      \<exists>r'. xdrrec_getloop readit n r = Some (True, take n (rec_ahead avail r), r') \<and> rec_rok avail r' \<and>
        rec_ahead avail r' = drop n (rec_ahead avail r) \<and> rec_next avail r' = rec_next avail r
    else \<exists>bs r'. xdrrec_getloop readit n r = Some (False, bs, r') \<and> length bs \<le> n"
proof (induction "length (raw avail r)" arbitrary: n r rule: less_induct)
  case less
  let ?a = "rec_ahead avail r"
  have fb: "0 \<le> fbtbc r" "fbtbc r < 2147483648" using less.prems by (simp_all add: rec_rok_def)
  note wd = fbtbc_width [OF fb]
  show ?case
  proof (cases "n = 0")
    case True
    then show ?thesis using less.prems by (subst xdrrec_getloop.simps) simp
  next
    case n: False
    show ?thesis
    proof (cases "nat (fbtbc r) = 0")
      case c: True
      show ?thesis
      proof (cases "last_frag r")
        case True
        then have "?a = []" using c by (simp add: rec_ahead_def)
        moreover have "xdrrec_getloop readit n r = Some (False, [], r)"
          using True c n by (subst xdrrec_getloop.simps) (simp add: Let_def wd(1))
        ultimately show ?thesis using n by simp
      next
        case False
        obtain r' where r': "set_input_fragment readit r = Some (True, r')" "rec_rok avail r'"
          "rec_ahead avail r' = ?a" "rec_next avail r' = rec_next avail r"
          "length (raw avail r') < length (raw avail r)"
          by (rule next_fragment [OF d less.prems c False])
        have "xdrrec_getloop readit n r = xdrrec_getloop readit n r'"
          using False c n r'(1) by (subst xdrrec_getloop.simps) (simp add: Let_def wd(1))
        then show ?thesis using less.hyps [OF r'(5,2), of n] unfolding r'(3,4) by (simp only:)
      qed
    next
      case c: False
      define k where "k = (if n < nat (fbtbc r) then n else nat (fbtbc r))"
      have k: "0 < k" "k \<le> n" "k \<le> nat (fbtbc r)" using c n by (auto simp: k_def)
      have i: "in_ok r" and kl: "k \<le> length (raw avail r)"
        using less.prems k(3) by (auto simp: rec_rok_def)
      obtain r1 where r1: "get_input_bytes readit k r = Some (True, take k (raw avail r), r1)" "in_ok r1"
        "raw avail r1 = drop k (raw avail r)" "same_frag r r1"
        using get_input [OF d i, of k] kl by auto
      let ?r = "r1\<lparr>fbtbc := fbtbc r1 - int k\<rparr>"
      note t = rec_consume [OF less.prems k(3) r1(2-4)]
      have step: "xdrrec_getloop readit n r =
          Option.bind (xdrrec_getloop readit (n - k) ?r) (\<lambda>(ok, bs, r'). Some (ok, take k (raw avail r) @ bs, r'))"
      proof -
        have f1: "fbtbc r1 = fbtbc r" using r1(4) by (simp add: same_frag_def)
        have "\<not> k \<ge> 2147483648" using k(3) fb by linarith
        then show ?thesis
          using n c r1(1) by (subst xdrrec_getloop.simps) (simp add: Let_def k_def [symmetric] f1 wd(1) wd(2) [OF k(3)])
      qed
      have tk: "take k (raw avail r) = take k ?a"
        using k(3) kl by (simp add: rec_ahead_def min_absorb1)
      have ka: "k \<le> length ?a" using k(3) kl less.prems by (simp add: rec_ahead_def rec_rok_def)
      have sm: "length (raw avail ?r) < length (raw avail r)" using t(4) k(1) kl by simp
      note IH = less.hyps [OF sm t(1), of "n - k", unfolded t(2,3)]
      show ?thesis
      proof (cases "n \<le> length ?a")
        case True
        then have "n - k \<le> length (drop k ?a)" by simp
        with IH obtain r' where r': "xdrrec_getloop readit (n - k) ?r = Some (True, take (n - k) (drop k ?a), r')"
          "rec_rok avail r'" "rec_ahead avail r' = drop (n - k) (drop k ?a)" "rec_next avail r' = rec_next avail r"
          by auto
        have "take k ?a @ take (n - k) (drop k ?a) = take n ?a"
          using k(2) by (metis le_add_diff_inverse take_add)
        then show ?thesis using True r' k(2) unfolding step tk by simp
      next
        case False
        then have "\<not> n - k \<le> length (drop k ?a)" unfolding length_drop using k(2) ka by linarith
        with IH obtain bs r' where "xdrrec_getloop readit (n - k) ?r = Some (False, bs, r')" "length bs \<le> n - k"
          by auto
        then show ?thesis using False k(2) unfolding step by simp
      qed
    qed
  qed
qed

lemma get_long:
  assumes d: "delivers readit avail" and r: "rec_rok avail r"
  shows "if 4 \<le> length (rec_ahead avail r) then
      \<exists>r'. xdrrec_getlong readit r = Some (Some (of_be32 (take 4 (rec_ahead avail r))), r') \<and> rec_rok avail r' \<and>
        rec_ahead avail r' = drop 4 (rec_ahead avail r) \<and> rec_next avail r' = rec_next avail r
    else \<exists>r'. xdrrec_getlong readit r = Some (None, r')"
proof (cases "fbtbc r \<ge> 4 \<and> int (in_boundry r) - int (in_finger r) \<ge> 4")
  case True
  then have k: "4 \<le> nat (fbtbc r)" "4 \<le> in_boundry r - in_finger r" by linarith+
  have i: "in_ok r" using r by (simp add: rec_rok_def)
  let ?r1 = "r\<lparr>in_finger := in_finger r + 4\<rparr>"
  note t = take_raw(1,2,4) [OF i k(2), of avail] take_raw(3) [OF i k(2)]
  have "same_frag r ?r1" by (simp add: same_frag_def)
  note c = rec_consume [OF r k(1) t(4,2) this]
  have "in_finger r + 4 \<le> length (in_buf r)" using i k(2) unfolding in_ok_def by linarith
  from load32_be [OF this] have l: "map_option htonl (load32 (in_buf r) (in_finger r)) =
      Some (of_be32 (take 4 (raw avail r)))" by (simp add: t(1))
  have a: "take 4 (raw avail r) = take 4 (rec_ahead avail r)" "4 \<le> length (rec_ahead avail r)"
    using k(1) t(3) by (simp_all add: rec_ahead_def min_absorb1)
  let ?r2 = "r\<lparr>fbtbc := fbtbc r - 4, in_finger := in_finger r + 4\<rparr>"
  have e: "?r1\<lparr>fbtbc := fbtbc ?r1 - int 4\<rparr> = ?r2" by simp
  have c2: "rec_rok avail ?r2" "rec_ahead avail ?r2 = drop 4 (rec_ahead avail r)"
    "rec_next avail ?r2 = rec_next avail r" using c(1-3) unfolding e by simp_all
  have "xdrrec_getlong readit r = Some (Some (of_be32 (take 4 (rec_ahead avail r))), ?r2)"
    using True l a by (auto simp: xdrrec_getlong_def)
  then show ?thesis using a c2 by simp
next
  case False
  have u: "unat (4 :: u32) = 4" by simp
  have e: "xdrrec_getlong readit r = do {
        (ok, bs, r) \<leftarrow> xdrrec_getloop readit 4 r;
        if \<not> ok then Some (None, r)
        else do { mylong \<leftarrow> load32 bs 0; Some (Some (htonl mylong), r) }
      }"
    unfolding xdrrec_getlong_def xdrrec_getbytes_def u if_not_P [OF False] ..
  show ?thesis
  proof (cases "4 \<le> length (rec_ahead avail r)")
    case True
    with get_loop [OF d r, of 4] obtain r' where
      r': "xdrrec_getloop readit 4 r = Some (True, take 4 (rec_ahead avail r), r')" "rec_rok avail r'"
      "rec_ahead avail r' = drop 4 (rec_ahead avail r)" "rec_next avail r' = rec_next avail r" by auto
    have "map_option htonl (load32 (take 4 (rec_ahead avail r)) 0) = Some (of_be32 (take 4 (rec_ahead avail r)))"
      using True by (intro load32_4) simp
    then show ?thesis using True r' unfolding e by auto
  next
    case False
    with get_loop [OF d r, of 4] obtain bs r' where "xdrrec_getloop readit 4 r = Some (False, bs, r')" by auto
    then show ?thesis using False unfolding e by simp
  qed
qed

text \<open>Skipping.\<close>

lemma skip_input:
  assumes d: "delivers readit avail"
  shows "in_ok r \<Longrightarrow> n \<le> length (raw avail r) \<Longrightarrow>
    \<exists>r'. skip_input_bytes readit (int n) r = Some (True, r') \<and> in_ok r' \<and>
      raw avail r' = drop n (raw avail r) \<and> same_frag r r'"
proof (induction n arbitrary: r rule: less_induct)
  case (less n)
  have go: "\<exists>r'. skip_input_bytes readit (int n) r = Some (True, r') \<and> in_ok r' \<and>
      raw avail r' = drop n (raw avail r) \<and> same_frag r r'"
    if r: "in_ok r" "in_finger r < in_boundry r" and n: "0 < n" "n \<le> length (raw avail r)" for r
  proof -
    define k where "k = (if n < in_boundry r - in_finger r then n else in_boundry r - in_finger r)"
    have k: "0 < k" "k \<le> n" "k \<le> in_boundry r - in_finger r" using r n by (auto simp: k_def)
    let ?r = "r\<lparr>in_finger := in_finger r + k\<rparr>"
    note t = take_raw(2) [OF r(1) k(3), of avail] take_raw(3) [OF r(1) k(3)]
    have "skip_input_bytes readit (int n) r = skip_input_bytes readit (int n - int k) ?r"
      using n r by (subst skip_input_bytes.simps) (auto simp: k_def Let_def)
    also have "int n - int k = int (n - k)" using k(2) by simp
    finally have step: "skip_input_bytes readit (int n) r = skip_input_bytes readit (int (n - k)) ?r" .
    have "n - k < n" "n - k \<le> length (raw avail ?r)" unfolding t(1) using k n by auto
    from less.IH [OF this(1) t(2) this(2)] k(2) show ?thesis
      unfolding step t(1) by (auto simp: same_frag_def)
  qed
  show ?case
  proof (cases "n = 0")
    case True
    then show ?thesis using less.prems by (subst skip_input_bytes.simps) simp
  next
    case n: False
    show ?thesis
    proof (cases "in_finger r < in_boundry r")
      case True
      then show ?thesis using go [OF less.prems(1) True _ less.prems(2)] n by blast
    next
      case False
      then have e: "in_finger r = in_boundry r" using less.prems by (simp add: in_ok_def)
      have "raw avail r \<noteq> []" using less.prems(2) n by auto
      with fill_input [OF d less.prems(1) e] obtain r' where r': "fill_input_buf readit r = Some (True, r')"
        "in_ok r'" "raw avail r' = raw avail r" "same_frag r r'" "in_finger r' < in_boundry r'" by auto
      have "skip_input_bytes readit (int n) r = skip_input_bytes readit (int n) r'"
        using n e r'(1) by (subst skip_input_bytes.simps) (simp add: Let_def)
      then show ?thesis using go [OF r'(2,5)] n less.prems(2) r'(3) same_frag_trans [OF r'(4)] by auto
    qed
  qed
qed

lemma skip_all:
  assumes d: "delivers readit avail"
  shows "rec_rok avail r \<Longrightarrow>
    \<exists>r'. skip_fragments readit r = Some (True, r') \<and> in_ok r' \<and> raw avail r' = rec_next avail r \<and>
      fbtbc r' = 0 \<and> last_frag r'"
proof (induction "length (raw avail r)" arbitrary: r rule: less_induct)
  case less
  have i: "in_ok r" "0 \<le> fbtbc r" "nat (fbtbc r) \<le> length (raw avail r)" using less.prems by (auto simp: rec_rok_def)
  from skip_input [OF d i(1,3)] i(2) obtain r1 where r1: "skip_input_bytes readit (fbtbc r) r = Some (True, r1)"
    "in_ok r1" "raw avail r1 = drop (nat (fbtbc r)) (raw avail r)" "same_frag r r1" by auto
  let ?r = "r1\<lparr>fbtbc := 0\<rparr>"
  have z: "?r = r1\<lparr>fbtbc := fbtbc r1 - int (nat (fbtbc r))\<rparr>" using r1(4) i(2) by (simp add: same_frag_def)
  note c = rec_consume [OF less.prems order_refl r1(2-4), folded z]
  have l: "last_frag ?r = last_frag r" "in_ok ?r" using r1(2,4) by (simp_all add: same_frag_def in_ok_def)
  show ?case
  proof (cases "last_frag r")
    case True
    have stop: "skip_fragments readit ?r = Some (True, ?r)" using True l by (subst skip_fragments.simps) simp
    show ?thesis
    proof (cases "fbtbc r > 0")
      case True
      then have "skip_fragments readit r = Some (True, ?r)"
        using r1(1) stop l(1) \<open>last_frag r\<close> by (subst skip_fragments.simps) (simp add: Let_def)
      then show ?thesis using c(4) l \<open>last_frag r\<close> by (simp add: rec_next_def)
    next
      case False
      then have "skip_fragments readit r = Some (True, r)" using \<open>last_frag r\<close> by (subst skip_fragments.simps) simp
      then show ?thesis using False i \<open>last_frag r\<close> by (simp add: rec_next_def)
    qed
  next
    case False
    have "nat (fbtbc ?r) = 0" "\<not> last_frag ?r" using l(1) False by simp_all
    then obtain r3 where r3: "set_input_fragment readit ?r = Some (True, r3)" "rec_rok avail r3"
      "rec_ahead avail r3 = rec_ahead avail ?r" "rec_next avail r3 = rec_next avail ?r"
      "length (raw avail r3) < length (raw avail ?r)"
      by (rule next_fragment [OF d c(1)])
    have "skip_fragments readit r = skip_fragments readit r3"
      using False r1(1) r3(1) l(1) by (subst skip_fragments.simps) (simp add: Let_def)
    moreover have "length (raw avail r3) < length (raw avail r)" using r3(5) unfolding c(4) by simp
    ultimately show ?thesis using less.hyps [OF _ r3(2)] r3(4) c(3) by simp
  qed
qed

lemma skiprecord:
  assumes d: "delivers readit avail" and r: "rec_rok avail r" and f: "framing [] (rec_next avail r) (q # rs) c"
  shows "\<exists>r'. xdrrec_skiprecord readit r = Some (True, r') \<and> rec_rok avail r' \<and> rec_ahead avail r' = q \<and>
    framing [] (rec_next avail r') rs c"
proof -
  from skip_all [OF d r] obtain r1 where r1: "skip_fragments readit r = Some (True, r1)" "in_ok r1"
    "raw avail r1 = rec_next avail r" "fbtbc r1 = 0" by auto
  from framing_recfrag [OF f] obtain q' w' where w: "recfrag (rec_next avail r) = Some (q', w')" "q = q'"
    "framing [] w' rs c" by auto
  let ?r = "r1\<lparr>last_frag := False\<rparr>"
  define w where "w = rec_next avail r"
  have raw: "raw avail ?r = w" using r1(3) by (simp add: raw_def w_def)
  have w': "recfrag w = Some (q', w')" using w(1) by (simp add: w_def)
  have "rec_rok avail ?r \<and> rec_ahead avail ?r = q \<and> rec_next avail ?r = w'"
    unfolding rec_rok_def rec_ahead_def rec_next_def raw using r1(2,4) w(2) w' by (simp add: in_ok_def Let_def)
  moreover have "xdrrec_skiprecord readit r = Some (True, ?r)" using r1(1) by (simp add: xdrrec_skiprecord_def)
  ultimately show ?thesis using w(3) by metis
qed

text \<open>\<open>xdrrec_eof\<close> consumes the rest of the record and reports whether the buffer is then empty.\<close>

lemma eof_result:
  assumes d: "delivers readit avail" and r: "rec_rok avail r"
  shows "\<exists>r'. xdrrec_eof readit r = Some (in_finger r' = in_boundry r', r') \<and> raw avail r' = rec_next avail r \<and>
    fbtbc r' = 0 \<and> last_frag r'"
  using skip_all [OF d r] by (auto simp: xdrrec_eof_def)

section \<open>Writing\<close>

text \<open>The bytes of the wire before the open fragment: sent ones and complete fragments in the buffer. The
  records on it are \<open>rs\<close>, and the open record starts with \<open>c\<close> and goes on with the open
  fragment.\<close>

definition wire :: "('t \<Rightarrow> u8 list) \<Rightarrow> 't recstream \<Rightarrow> u8 list" where
  "wire sent r = sent (tcp_handle r) @ take (frag_header r) (out_buf r)"

definition open_frag :: "'t recstream \<Rightarrow> u8 list" where
  "open_frag r = seg (frag_header r + 4) (out_finger r - frag_header r - 4) (out_buf r)"

definition out_ok :: "'t recstream \<Rightarrow> bool" where
  "out_ok r \<longleftrightarrow> frag_header r + 4 \<le> out_finger r \<and> out_finger r \<le> sendsize r \<and>
     frag_header r + 4 < sendsize r \<and> 8 \<le> sendsize r \<and> sendsize r < 2147483648"

lemma length_open_frag: "out_ok r \<Longrightarrow> length (open_frag r) = out_finger r - frag_header r - 4"
  by (auto simp: open_frag_def out_ok_def)

lemma open_frag_small: "out_ok r \<Longrightarrow> length (open_frag r) < 2147483648"
  by (simp add: length_open_frag) (auto simp: out_ok_def)

lemma open_frag_not_Nil: "out_ok r \<Longrightarrow> frag_header r + 4 < out_finger r \<Longrightarrow> open_frag r \<noteq> []"
  using length_open_frag [of r] by fastforce

text \<open>Filling in the header turns the open fragment into a frame.\<close>

lemma close_frag:
  assumes r: "out_ok r"
  shows "store32 (out_buf r) (frag_header r)
      (htonl ((of_nat (out_finger r) - of_nat (frag_header r) - 4) OR (if eor then LAST_FRAG else 0))) =
    Some (patch (frag_header r) (be32 (header_of eor (length (open_frag r)))) (out_buf r))"
    and "take (out_finger r) (patch (frag_header r) (be32 (header_of eor (length (open_frag r)))) (out_buf r)) =
      take (frag_header r) (out_buf r) @ frame eor (open_frag r)"
proof -
  have b: "frag_header r + 4 \<le> out_finger r" "out_finger r \<le> sendsize r" using r by (auto simp: out_ok_def)
  have n: "of_nat (out_finger r) - of_nat (frag_header r) - 4 = (of_nat (length (open_frag r)) :: u32)"
    using b by (simp add: length_open_frag [OF r] of_nat_diff)
  show "store32 (out_buf r) (frag_header r)
      (htonl ((of_nat (out_finger r) - of_nat (frag_header r) - 4) OR (if eor then LAST_FRAG else 0))) =
    Some (patch (frag_header r) (be32 (header_of eor (length (open_frag r)))) (out_buf r))"
    unfolding n store32_be using b by (simp add: header_of_def)
  have o: "out_finger r = frag_header r + (4 + (out_finger r - frag_header r - 4))" using b by simp
  have "take (out_finger r) (take (frag_header r) (out_buf r) @ h @ drop (frag_header r + 4) (out_buf r)) =
      take (frag_header r) (out_buf r) @ h @ open_frag r" if "length h = 4" for h
    using b that by (simp add: open_frag_def seg_def min_absorb1)
  from this [of "be32 (header_of eor (length (open_frag r)))"]
  show "take (out_finger r) (patch (frag_header r) (be32 (header_of eor (length (open_frag r)))) (out_buf r)) =
      take (frag_header r) (out_buf r) @ frame eor (open_frag r)"
    by (simp add: patch_def frame_def)
qed

lemma flush:
  assumes a: "accepts writeit sent" and r: "out_ok r"
  shows "\<exists>r'. flush_out writeit eor r = Some (True, r') \<and> out_ok r' \<and> frag_header r' = 0 \<and> out_finger r' = 4 \<and>
    wire sent r' = wire sent r @ frame eor (open_frag r) \<and> open_frag r' = [] \<and> sendsize r' = sendsize r \<and>
    frag_sent r' = frag_sent r"
proof -
  let ?b = "patch (frag_header r) (be32 (header_of eor (length (open_frag r)))) (out_buf r)"
  let ?bs = "take (out_finger r) ?b"
  have b: "frag_header r + 4 \<le> out_finger r" "out_finger r \<le> sendsize r" "8 \<le> sendsize r"
    using r by (auto simp: out_ok_def)
  have l: "length ?b = sendsize r" using b by (simp add: length_patch)
  then have l': "length ?bs = out_finger r" using b by simp
  obtain t' where t: "writeit ?bs (tcp_handle r) = (int (length ?bs), t')" "sent t' = sent (tcp_handle r) @ ?bs"
    using a unfolding accepts_def by blast
  let ?r = "r\<lparr>out_buf := ?b, tcp_handle := t', frag_header := 0, out_finger := 4\<rparr>"
  have t1: "writeit ?bs (tcp_handle r) = (int (out_finger r), t')" using t(1) unfolding l' .
  have "flush_out writeit eor r = Some (True, ?r)"
    unfolding flush_out_def close_frag(1) [OF r] Let_def by (simp add: t1)
  moreover have "out_ok ?r" using r b l by (simp add: out_ok_def)
  moreover have "wire sent ?r = wire sent r @ frame eor (open_frag r)"
    using close_frag(2) [OF r, of eor] by (simp add: wire_def t(2))
  ultimately show ?thesis using l by (auto simp: open_frag_def)
qed

text \<open>Appending to the open fragment.\<close>

lemma append_frag:
  assumes r: "out_ok r" and l: "out_finger r + length bs \<le> sendsize r"
  defines "r' \<equiv> r\<lparr>out_buf := patch (out_finger r) bs (out_buf r), out_finger := out_finger r + length bs\<rparr>"
  shows "out_ok r'" "wire sent r' = wire sent r" "open_frag r' = open_frag r @ bs"
proof -
  have b: "frag_header r + 4 \<le> out_finger r" "out_finger r \<le> sendsize r" using r by (auto simp: out_ok_def)
  have lp: "length (patch (out_finger r) bs (out_buf r)) = sendsize r" using l by (rule length_patch)
  show "out_ok r'" using r l lp by (simp add: out_ok_def r'_def)
  show "wire sent r' = wire sent r" using b by (simp add: wire_def r'_def patch_def)
  have n: "out_finger r + length bs - frag_header r - 4 = (out_finger r - frag_header r - 4) + length bs"
    and m: "frag_header r + 4 + (out_finger r - frag_header r - 4) = out_finger r" using b by simp_all
  let ?k = "out_finger r - frag_header r - 4" and ?p = "patch (out_finger r) bs (out_buf r)"
  have k: "?k + (frag_header r + 4) \<le> out_finger r" using b by linarith
  have "seg (frag_header r + 4) (out_finger r + length bs - frag_header r - 4) ?p =
      seg (frag_header r + 4) ?k (out_buf r) @ bs"
    unfolding n seg_append m seg_before_patch [OF k l] seg_patch [OF l] ..
  then show "open_frag r' = open_frag r @ bs" by (simp add: r'_def open_frag_def)
qed

text \<open>The records completed so far and the record that is open.\<close>

definition recording :: "('t \<Rightarrow> u8 list) \<Rightarrow> 't recstream \<Rightarrow> u8 list list \<Rightarrow> u8 list \<Rightarrow> bool" where
  "recording sent r rs c \<longleftrightarrow> out_ok r \<and>
     (\<exists>c'. framing [] (wire sent r) rs c' \<and> c = c' @ open_frag r)"

lemma recording_append:
  assumes "recording sent r rs c" "out_finger r + length bs \<le> sendsize r"
  shows "recording sent (r\<lparr>out_buf := patch (out_finger r) bs (out_buf r), out_finger := out_finger r + length bs\<rparr>)
    rs (c @ bs)"
  using assms append_frag [of r bs] by (auto simp: recording_def)

lemma recording_flush:
  assumes a: "accepts writeit sent" and r: "recording sent r rs c" and n: "\<not> eor \<longrightarrow> open_frag r \<noteq> []"
  shows "\<exists>r'. flush_out writeit eor r = Some (True, r') \<and> out_finger r' = 4 \<and> sendsize r' = sendsize r \<and>
    (if eor then recording sent r' (rs @ [c]) [] else recording sent r' rs c) \<and>
    frag_header r' = 0 \<and> frag_sent r' = frag_sent r"
proof -
  have o: "out_ok r" using r by (simp add: recording_def)
  obtain c' where c: "framing [] (wire sent r) rs c'" "c = c' @ open_frag r" using r by (auto simp: recording_def)
  note s = framing_snoc [OF c(1) open_frag_small [OF o] n]
  from flush [OF a o, of eor] obtain r' where "flush_out writeit eor r = Some (True, r')" "out_ok r'"
    "frag_header r' = 0" "out_finger r' = 4" "wire sent r' = wire sent r @ frame eor (open_frag r)"
    "open_frag r' = []" "sendsize r' = sendsize r" "frag_sent r' = frag_sent r" by auto
  with s c(2) show ?thesis by (auto simp: recording_def split: if_splits)
qed

text \<open>The open fragment is empty and has no room for a long. The header is then flushed alone, as a
  fragment of length zero that is not the last of its record.\<close>

abbreviation cramped :: "'t recstream \<Rightarrow> bool" where
  "cramped r \<equiv> out_finger r = frag_header r + 4 \<and> sendsize r < out_finger r + 4"

abbreviation roomy :: "'t recstream \<Rightarrow> bool" where
  "roomy r \<equiv> frag_header r + 8 \<le> sendsize r"

lemma put_long_cramped:
  assumes a: "accepts writeit sent" and r: "recording sent r rs c" and cr: "cramped r"
  shows "\<exists>r'. xdrrec_putlong writeit w r = Some (True, r') \<and> wire sent r' = wire sent r @ frame False []"
proof -
  let ?r = "r\<lparr>frag_sent := True\<rparr>"
  have o: "out_ok ?r" using r by (simp add: recording_def out_ok_def)
  from flush [OF a o, of False] obtain q where q: "flush_out writeit False ?r = Some (True, q)"
    "frag_header q = 0" "out_finger q = 4" "sendsize q = sendsize r" "wire sent q = wire sent ?r @ frame False (open_frag ?r)"
    by auto
  have e: "open_frag ?r = []" "wire sent ?r = wire sent r" using cr by (simp_all add: open_frag_def wire_def)
  have s: "8 \<le> sendsize r" using o by (simp add: out_ok_def)
  have w: "wire sent (q\<lparr>out_buf := b, out_finger := n\<rparr>) = wire sent q" for b n
    by (simp add: wire_def q(2))
  show ?thesis using q e s cr by (simp add: xdrrec_putlong_def store32_be w)
qed

lemma put_long:
  assumes a: "accepts writeit sent" and r: "recording sent r rs c" and cr: "\<not> cramped r"
  shows "\<exists>r'. xdrrec_putlong writeit w r = Some (True, r') \<and> recording sent r' rs (c @ be32 w) \<and>
    sendsize r' = sendsize r \<and> (roomy r \<longrightarrow> roomy r')"
proof -
  have put: "\<exists>r'. do { b \<leftarrow> store32 (out_buf q) (out_finger q) (htonl w);
        Some (True, q\<lparr>out_buf := b, out_finger := out_finger q + 4\<rparr>) } = Some (True, r') \<and>
      recording sent r' rs (c @ be32 w) \<and> sendsize r' = sendsize q \<and> frag_header r' = frag_header q"
    if "recording sent q rs c" "out_finger q + 4 \<le> sendsize q" for q
    using recording_append [OF that(1), of "be32 w"] that(2) by (simp add: store32_be length_patch)
  show ?thesis
  proof (cases "out_finger r + 4 > sendsize r")
    case False
    with put [OF r] show ?thesis by (auto simp: xdrrec_putlong_def)
  next
    case True
    let ?r = "r\<lparr>frag_sent := True\<rparr>"
    have o: "out_ok r" using r by (simp add: recording_def)
    have r2: "recording sent ?r rs c" using r by (simp add: recording_def out_ok_def wire_def open_frag_def)
    have n: "open_frag ?r \<noteq> []"
      by (rule open_frag_not_Nil) (use r2 True o cr in \<open>auto simp: recording_def out_ok_def\<close>)
    from recording_flush [OF a r2, of False] n obtain r' where r': "flush_out writeit False ?r = Some (True, r')"
      "out_finger r' = 4" "sendsize r' = sendsize ?r" "recording sent r' rs c" "frag_header r' = 0" by auto
    have sz: "8 \<le> sendsize r" using o by (simp add: out_ok_def)
    show ?thesis using put [OF r'(4)] r' sz True by (auto simp: xdrrec_putlong_def)
  qed
qed

lemma put_loop:
  assumes a: "accepts writeit sent"
  shows "recording sent r rs c \<Longrightarrow> n \<le> length bs \<Longrightarrow>
    \<exists>r'. xdrrec_putloop writeit bs n r = Some (True, r') \<and> recording sent r' rs (c @ take n bs) \<and>
      sendsize r' = sendsize r \<and> (roomy r \<longrightarrow> roomy r')"
proof (induction n arbitrary: r c bs rule: less_induct)
  case (less n)
  have o: "out_ok r" using less.prems by (simp add: recording_def)
  then have b: "out_finger r \<le> sendsize r" "8 \<le> sendsize r" by (simp_all add: out_ok_def)
  show ?case
  proof (cases "n = 0")
    case True
    then show ?thesis using less.prems by (subst xdrrec_putloop.simps) simp
  next
    case n: False
    have go: "\<exists>r'. xdrrec_putloop writeit bs n q = Some (True, r') \<and> recording sent r' rs (c @ take n bs) \<and>
        sendsize r' = sendsize q \<and> (roomy q \<longrightarrow> roomy r')"
      if q: "recording sent q rs c" "8 \<le> sendsize q" "out_finger q < sendsize q" for q
    proof -
      define k where "k = (if n < sendsize q - out_finger q then n else sendsize q - out_finger q)"
      have k: "0 < k" "k \<le> n" "out_finger q + k \<le> sendsize q" "k \<le> length bs"
        using q(3) n less.prems(2) by (auto simp: k_def)
      let ?q = "q\<lparr>out_buf := patch (out_finger q) (take k bs) (out_buf q), out_finger := out_finger q + k\<rparr>"
      have lt: "length (take k bs) = k" using k(4) by simp
      have q1: "recording sent ?q rs (c @ take k bs)"
        using recording_append [OF q(1), of "take k bs"] k(3) unfolding lt by simp
      have s1: "sendsize ?q = sendsize q" using k(3) lt by (simp add: length_patch)
      have tk: "take k bs @ take (n - k) (drop k bs) = take n bs"
        using k(2) by (metis le_add_diff_inverse take_add)
      have nk: "n - k < n" "n - k \<le> length (drop k bs)" using k n less.prems(2) by auto
      have go_on: "\<exists>r'. xdrrec_putloop writeit (drop k bs) (n - k) q' = Some (True, r') \<and>
          recording sent r' rs (c @ take n bs) \<and> sendsize r' = sendsize q \<and> (roomy q \<longrightarrow> roomy r')"
        if "recording sent q' rs (c @ take k bs)" "sendsize q' = sendsize q" "frag_header q' \<in> {0, frag_header q}" for q'
        using less.IH [OF nk(1) that(1) nk(2)] that(2,3) q(2) tk by auto
      have nofault: "\<not> (length bs < k \<or> sendsize q < out_finger q)" using k(4) q(3) by simp
      have step: "xdrrec_putloop writeit bs n q =
          (if out_finger ?q = sendsize ?q then
             Option.bind (flush_out writeit False (?q\<lparr>frag_sent := True\<rparr>)) (\<lambda>(ok, r2).
               if \<not> ok then Some (False, r2) else xdrrec_putloop writeit (drop k bs) (n - k) r2)
           else xdrrec_putloop writeit (drop k bs) (n - k) ?q)"
        unfolding xdrrec_putloop.simps [of writeit bs n q] Let_def k_def [symmetric] using n nofault by simp
      show ?thesis
      proof (cases "out_finger ?q = sendsize ?q")
        case False
        then show ?thesis using go_on [OF q1 s1] unfolding step by simp
      next
        case True
        let ?q2 = "?q\<lparr>frag_sent := True\<rparr>"
        have q2: "recording sent ?q2 rs (c @ take k bs)"
          using q1 by (simp add: recording_def out_ok_def wire_def open_frag_def)
        have o2: "out_ok ?q2" using q2 by (simp add: recording_def)
        have ne: "open_frag ?q2 \<noteq> []"
          by (rule open_frag_not_Nil [OF o2]) (use True o2 in \<open>auto simp: out_ok_def\<close>)
        from recording_flush [OF a q2, of False] ne obtain r2 where
          r2: "flush_out writeit False ?q2 = Some (True, r2)" "recording sent r2 rs (c @ take k bs)"
            "sendsize r2 = sendsize ?q2" "frag_header r2 = 0" by auto
        have "sendsize r2 = sendsize q" using r2(3) s1 by simp
        from go_on [OF r2(2) this] r2(4) show ?thesis unfolding step using True r2(1) by simp
      qed
    qed
    show ?thesis
    proof (cases "out_finger r < sendsize r")
      case True
      with go [OF less.prems(1) b(2)] show ?thesis by blast
    next
      case False
      then have e: "out_finger r = sendsize r" using b(1) by simp
      let ?r = "r\<lparr>frag_sent := True\<rparr>"
      have r2: "recording sent ?r rs c"
        using less.prems(1) by (simp add: recording_def out_ok_def wire_def open_frag_def)
      have o2: "out_ok ?r" using r2 by (simp add: recording_def)
      have ne: "open_frag ?r \<noteq> []"
        by (rule open_frag_not_Nil [OF o2]) (use e o2 in \<open>auto simp: out_ok_def\<close>)
      from recording_flush [OF a r2, of False] ne obtain q where
        q: "flush_out writeit False ?r = Some (True, q)" "recording sent q rs c" "sendsize q = sendsize r"
          "out_finger q = 4" "frag_header q = 0" by auto
      have "xdrrec_putloop writeit bs n r = xdrrec_putloop writeit bs n q"
      proof -
        have same: "r\<lparr>out_finger := sendsize r, frag_sent := True\<rparr> = ?r" using e by (cases r) simp
        show ?thesis using n e q(1) by (subst xdrrec_putloop.simps) (simp add: Let_def same)
      qed
      then show ?thesis using go [OF q(2)] q(3-5) b(2) by auto
    qed
  qed
qed

lemma endofrecord:
  assumes a: "accepts writeit sent" and r: "recording sent r rs c"
  shows "\<exists>r'. xdrrec_endofrecord writeit sendnow r = Some (True, r') \<and> recording sent r' (rs @ [c]) [] \<and>
    sendsize r' = sendsize r \<and> (sendnow \<longrightarrow> frag_header r' = 0)"
proof (cases "sendnow \<or> frag_sent r \<or> out_finger r + 4 \<ge> sendsize r")
  case True
  have r2: "recording sent (r\<lparr>frag_sent := False\<rparr>) rs c"
    using r by (simp add: recording_def out_ok_def wire_def open_frag_def)
  from recording_flush [OF a r2, of True] True show ?thesis by (auto simp: xdrrec_endofrecord_def)
next
  case False
  have o: "out_ok r" using r by (simp add: recording_def)
  obtain c' where c: "framing [] (wire sent r) rs c'" "c = c' @ open_frag r" using r by (auto simp: recording_def)
  let ?b = "patch (frag_header r) (be32 (header_of True (length (open_frag r)))) (out_buf r)"
  let ?r = "r\<lparr>out_buf := ?b, frag_header := out_finger r, out_finger := out_finger r + 4\<rparr>"
  have b: "frag_header r + 4 \<le> out_finger r" "out_finger r \<le> sendsize r" using o by (auto simp: out_ok_def)
  then have l: "length ?b = sendsize r" by (simp add: length_patch)
  have "out_ok ?r" using o l False by (simp add: out_ok_def)
  moreover have "wire sent ?r = wire sent r @ frame True (open_frag r)"
    using close_frag(2) [OF o, of True] by (simp add: wire_def)
  moreover have "open_frag ?r = []" by (simp add: open_frag_def)
  ultimately have "recording sent ?r (rs @ [c]) []"
    using framing_snoc [OF c(1) open_frag_small [OF o], of True] c(2) by (auto simp: recording_def)
  moreover have "xdrrec_endofrecord writeit sendnow r = Some (True, ?r)"
    using False close_frag(1) [OF o, of True] by (simp add: xdrrec_endofrecord_def Let_def)
  ultimately show ?thesis using False l by simp
qed

section \<open>The contract\<close>

text \<open>The bytes of the record that is open after a wire, given those of the one open before it.\<close>

function open_record :: "u8 list \<Rightarrow> u8 list \<Rightarrow> u8 list" where
  "open_record cur w =
     (if length w < 4 then cur
      else let h = of_be32 (take 4 w); n = header_len h in
        open_record (if header_last h then [] else cur @ seg 4 n w) (drop (4 + n) w))"
  by pat_completeness auto
termination by (relation "measure (length \<circ> snd)") auto

declare open_record.simps [simp del]

lemma open_record_frame:
  assumes p: "length p < 2147483648"
  shows "open_record cur (frame eor p @ w) = open_record (if eor then [] else cur @ p) w"
proof -
  have s: "seg 4 (length p) (frame eor p @ w) = p" "drop (4 + length p) (frame eor p @ w) = w"
    "take 4 (frame eor p @ w) = be32 (header_of eor (length p))" "\<not> length (frame eor p @ w) < 4"
    by (simp_all add: seg_def frame_def)
  show ?thesis
    unfolding open_record.simps [of cur "frame eor p @ w"] s(3) of_be32_be32 Let_def header_of_frame [OF p] s(1,2)
    using s(4) by simp
qed

lemma framing_open: "framing cur w rs c \<Longrightarrow> open_record cur w = c"
proof (induction rule: framing.induct)
  case (nil cur)
  then show ?case by (simp add: open_record.simps [of cur "[]"])
next
  case (more cur p w rs c)
  then show ?case by (simp add: open_record_frame)
next
  case (eor w rs c p cur)
  then show ?case by (simp add: open_record_frame)
qed

definition rec_written :: "('t \<Rightarrow> u8 list) \<Rightarrow> 't recstream \<Rightarrow> u8 list" where
  "rec_written sent r = open_record [] (wire sent r) @ open_frag r"

lemma recording_written: "recording sent r rs c \<Longrightarrow> rec_written sent r = c"
  by (auto simp: recording_def rec_written_def dest: framing_open)

text \<open>Over a reliable transport every encoding fits. The records completed before are \<open>rs\<close>.\<close>

definition rec_view :: "('t \<Rightarrow> u8 list) \<Rightarrow> ('t \<Rightarrow> u8 list) \<Rightarrow> u8 list list \<Rightarrow> 't recstream xview" where
  "rec_view avail sent rs = \<lparr>
     wok = (\<lambda>r. roomy r \<and> (\<exists>c. recording sent r rs c)), rok = rec_rok avail, fits = (\<lambda>_ _. True),
     written = rec_written sent, ahead = rec_ahead avail\<rparr>"

lemma rec_stream:
  assumes d: "delivers readit avail" and a: "accepts writeit sent"
  shows "xdr_stream (xdrrec_ops readit writeit) (rec_view avail sent rs)"
proof
  let ?V = "rec_view avail sent rs" and ?ops = "xdrrec_ops readit writeit"
  fix r and w len :: u32 and bs :: "u8 list" and m n :: nat
  show "fits ?V r m" "fits ?V r 0" by (simp_all add: rec_view_def)
  { assume "wok ?V r"
    then obtain c where r: "roomy r" "recording sent r rs c" by (auto simp: rec_view_def)
    then have "\<not> cramped r" by simp
    from put_long [OF a r(2) this, of w] r(1) obtain r' where r': "xdrrec_putlong writeit w r = Some (True, r')"
      "recording sent r' rs (c @ be32 w)" "roomy r'" by blast
    then show "\<exists>r'. x_putlong ?ops w r = Some (True, r') \<and> wok ?V r' \<and> written ?V r' = written ?V r @ be32 w \<and>
        (\<forall>n. fits ?V r' n \<longleftrightarrow> fits ?V r (4 + n))"
      using r by (auto simp: xdrrec_ops_def rec_view_def recording_written) }
  { assume "\<not> fits ?V r 4"
    then show "\<exists>s'. x_putlong ?ops w r = Some (False, s')" by (simp add: rec_view_def) }
  { assume "wok ?V r" and l: "unat len \<le> length bs"
    then obtain c where r: "roomy r" "recording sent r rs c" by (auto simp: rec_view_def)
    from put_loop [OF a r(2) l] r(1) obtain r' where "xdrrec_putloop writeit bs (unat len) r = Some (True, r')"
      "recording sent r' rs (c @ take (unat len) bs)" "roomy r'" by blast
    then show "\<exists>r'. x_putbytes ?ops bs len r = Some (True, r') \<and> wok ?V r' \<and>
        written ?V r' = written ?V r @ take (unat len) bs \<and> (\<forall>n. fits ?V r' n \<longleftrightarrow> fits ?V r (unat len + n))"
      using r by (auto simp: xdrrec_ops_def xdrrec_putbytes_def rec_view_def recording_written) }
  { assume "\<not> fits ?V r (unat len)"
    then show "\<exists>s'. x_putbytes ?ops bs len r = Some (False, s')" by (simp add: rec_view_def) }
  { assume "rok ?V r" "4 \<le> length (ahead ?V r)"
    then show "\<exists>s'. x_getlong ?ops r = Some (Some (of_be32 (take 4 (ahead ?V r))), s') \<and> rok ?V s' \<and>
        ahead ?V s' = drop 4 (ahead ?V r)"
      using get_long [OF d, of r] by (auto simp: xdrrec_ops_def rec_view_def) }
  { assume "rok ?V r" "length (ahead ?V r) < 4"
    then show "\<exists>s'. x_getlong ?ops r = Some (None, s')"
      using get_long [OF d, of r] by (auto simp: xdrrec_ops_def rec_view_def) }
  { assume "rok ?V r" "unat len \<le> length (ahead ?V r)"
    then show "\<exists>s'. x_getbytes ?ops len r = Some (True, take (unat len) (ahead ?V r), s') \<and> rok ?V s' \<and>
        ahead ?V s' = drop (unat len) (ahead ?V r)"
      using get_loop [OF d, of r "unat len"] by (auto simp: xdrrec_ops_def xdrrec_getbytes_def rec_view_def) }
  { assume "rok ?V r" "length (ahead ?V r) < unat len"
    then show "\<exists>s' w. x_getbytes ?ops len r = Some (False, w, s') \<and> length w \<le> unat len"
      using get_loop [OF d, of r "unat len"] by (auto simp: xdrrec_ops_def xdrrec_getbytes_def rec_view_def) }
qed

section \<open>Fresh streams\<close>

lemma fix_buf_size_bounds:
  assumes "unat s < 2000000000"
  shows "100 \<le> unat (fix_buf_size s)" "unat (fix_buf_size s) < 2000000004" "unat (fix_buf_size s) mod 4 = 0"
proof -
  define t where "t = (if s < 100 then 4000 else s)"
  have t: "100 \<le> unat t" "unat t < 2000000000" using assms by (auto simp: t_def word_less_nat_alt)
  have u: "unat (t + 4 - 1) = unat t + 3"
  proof -
    have "t + 4 - 1 = t + 3" by simp
    moreover have "unat (t + 3) = unat t + 3" using t by (simp add: unat_word_ariths(1))
    ultimately show ?thesis by (simp only:)
  qed
  have f: "fix_buf_size s = push_bit 2 (drop_bit 2 (t + 4 - 1))"
    unfolding fix_buf_size_def Let_def t_def [symmetric]
  proof (rule bit_word_eqI)
    fix n assume "n < LENGTH(32)"
    have m: "(4 - 1 :: u32) = mask 2" by (simp add: mask_eq_exp_minus_1)
    show "bit ((t + 4 - 1) AND NOT (4 - 1)) n \<longleftrightarrow> bit (push_bit 2 (drop_bit 2 (t + 4 - 1))) n"
    proof (cases "n < 2")
      case True
      then show ?thesis unfolding m by (auto simp: bit_simps)
    next
      case False
      then obtain k where "n = k + 2" by (metis add.commute le_iff_add not_less)
      then show ?thesis using \<open>n < LENGTH(32)\<close> unfolding m by (auto simp: bit_simps)
    qed
  qed
  have q: "unat (fix_buf_size s) = (unat t + 3) div 4 * 4"
  proof -
    have "unat (drop_bit 2 w) = unat w div 4" for w :: u32
      by (simp only: unsigned_drop_bit_eq drop_bit_eq_div [where 'a = nat])
        (simp add: take_bit_nat_eq_self unat_u32)
    from this [of "t + 4 - 1"] have "unat (drop_bit 2 (t + 4 - 1)) = (unat t + 3) div 4" unfolding u .
    moreover have "push_bit 2 (drop_bit 2 (t + 4 - 1)) = drop_bit 2 (t + 4 - 1) * 4"
      by (simp add: push_bit_eq_mult)
    moreover have "(unat t + 3) div 4 * 4 < 4294967296" using t by linarith
    ultimately show ?thesis unfolding f by (simp add: unat_word_ariths(2))
  qed
  show "100 \<le> unat (fix_buf_size s)" "unat (fix_buf_size s) < 2000000004" "unat (fix_buf_size s) mod 4 = 0"
    unfolding q using t by (linarith, linarith, simp)
qed

lemma created:
  assumes c: "xdrrec_create alloc ss rsz t = Some r" and s: "unat ss < 2000000000" "unat rsz < 2000000000"
    and al: "\<forall>n b. alloc n = Some b \<longrightarrow> length b = n"
  shows "sent t = [] \<Longrightarrow> recording sent r [] []" "roomy r" "rec_rok avail r" "rec_next avail r = avail t"
    "sendsize r mod 4 = 0" "tcp_handle r = t" "out_finger r = 4"
proof -
  let ?s = "fix_buf_size ss" and ?r = "fix_buf_size rsz"
  note fs = fix_buf_size_bounds [OF s(1)] and fr = fix_buf_size_bounds [OF s(2)]
  have u: "unat (?s + ?r + 4) = unat ?s + unat ?r + 4" using fs fr by (simp add: unat_word_ariths(1))
  obtain b where b: "alloc (unat ?s + unat ?r + 4) = Some b"
    using c by (auto simp: xdrrec_create_def Let_def u split: option.splits)
  have l: "length b = unat ?s + unat ?r + 4" using al b by blast
  have r: "r = \<lparr>tcp_handle = t, out_buf = take (unat ?s) b, out_finger = 4, frag_header = 0, frag_sent = False,
      in_buf = seg (unat ?s) (unat ?r) b, in_finger = unat ?r, in_boundry = unat ?r, fbtbc = 0, last_frag = True\<rparr>"
    using c b by (simp add: xdrrec_create_def Let_def u)
  have z: "sendsize r = unat ?s" "length (in_buf r) = unat ?r" using l by (simp_all add: r)
  show "roomy r" "sendsize r mod 4 = 0" using z fs by (simp_all add: r)
  show "tcp_handle r = t" "out_finger r = 4" by (simp_all add: r)
  have f: "frag_header r = 0" "out_finger r = 4" "tcp_handle r = t" by (simp_all add: r)
  show "recording sent r [] []" if "sent t = []"
    using f z fs that by (auto simp: recording_def out_ok_def wire_def open_frag_def intro!: framing.nil)
  have g: "in_finger r = unat ?r" "in_boundry r = unat ?r" "fbtbc r = 0" "last_frag r" by (simp_all add: r)
  have w: "raw avail r = avail t" by (simp add: raw_def g f)
  show "rec_rok avail r" using g z fr by (simp add: rec_rok_def in_ok_def)
  show "rec_next avail r = avail t" by (simp add: rec_next_def g w)
qed

text \<open>One object sent as one record arrives.\<close>

lemma record_transfer:
  assumes d: "delivers readit avail" and a: "accepts writeit sent"
    and e: "emits (rec_view avail sent rs) f v bs" and y: "yields (rec_view avail sent []) f v0 v' bs"
    and w: "recording sent w0 rs []" "roomy w0"
  shows "\<exists>w1 w2. f XDR_ENCODE v w0 = Some (True, v, w1) \<and> xdrrec_endofrecord writeit True w1 = Some (True, w2) \<and>
    recording sent w2 (rs @ [bs]) [] \<and> framing [] (sent (tcp_handle w2)) (rs @ [bs]) [] \<and>
    (\<forall>r0 q c. rec_rok avail r0 \<longrightarrow> framing [] (rec_next avail r0) (bs # q) c \<longrightarrow>
       (\<exists>r1 r2. xdrrec_skiprecord readit r0 = Some (True, r1) \<and> f XDR_DECODE v0 r1 = Some (True, v', r2)))"
proof -
  let ?V = "rec_view avail sent rs"
  have "wok ?V w0" "fits ?V w0 (length bs)" using w by (auto simp: rec_view_def)
  from emitsD [OF e this] obtain w1 where w1: "f XDR_ENCODE v w0 = Some (True, v, w1)" "wok ?V w1"
    "written ?V w1 = written ?V w0 @ bs" by blast
  then obtain c where c: "recording sent w1 rs c" by (auto simp: rec_view_def)
  have "c = bs" using w1(3) recording_written [OF c] recording_written [OF w(1)] by (simp add: rec_view_def)
  have r1: "recording sent (w1\<lparr>frag_sent := False\<rparr>) rs bs"
    using c \<open>c = bs\<close> by (simp add: recording_def out_ok_def wire_def open_frag_def)
  from recording_flush [OF a r1, of True] obtain w2 where
    w2: "flush_out writeit True (w1\<lparr>frag_sent := False\<rparr>) = Some (True, w2)" "recording sent w2 (rs @ [bs]) []"
      "frag_header w2 = 0" by auto
  have "wire sent w2 = sent (tcp_handle w2)" by (simp add: wire_def w2(3))
  then have "framing [] (sent (tcp_handle w2)) (rs @ [bs]) []" using w2(2) by (auto simp: recording_def)
  moreover have "xdrrec_endofrecord writeit True w1 = Some (True, w2)" using w2(1) by (simp add: xdrrec_endofrecord_def)
  moreover have "\<exists>r1 r2. xdrrec_skiprecord readit r0 = Some (True, r1) \<and> f XDR_DECODE v0 r1 = Some (True, v', r2)"
    if r0: "rec_rok avail r0" "framing [] (rec_next avail r0) (bs # q) c" for r0 q c
  proof -
    from skiprecord [OF d r0] obtain r1 where r1: "xdrrec_skiprecord readit r0 = Some (True, r1)" "rec_rok avail r1"
      "rec_ahead avail r1 = bs" by blast
    have "rok (rec_view avail sent []) r1" "ahead (rec_view avail sent []) r1 = bs @ []"
      using r1 by (simp_all add: rec_view_def)
    from yieldsD [OF y this] r1(1) show ?thesis by blast
  qed
  ultimately show ?thesis using w1(1) w2(2) by blast
qed

end
