(* ===== verification/Xdr_Rec_Props.thy ===== *)
theory Xdr_Rec_Props
  imports Xdr_Rec_Correct
begin

text \<open>
  The properties of record streams: strings sent as records arrive, the operations refine appending to a
  sequence of records, the reader does not depend on how the transport cuts the bytes, and the
  behaviour when the transport delivers nothing.
\<close>

text \<open>A transport that is a queue of bytes: what is written is appended and reading takes up to \<open>k\<close> bytes.\<close>

definition pipe_read :: "nat \<Rightarrow> u8 list readit" where
  "pipe_read k n t = (if t = [] then (None, t) else (Some (take (min k n) t), drop (min k n) t))"

definition pipe_write :: "u8 list writeit" where
  "pipe_write bs t = (int (length bs), t @ bs)"

lemma pipe_delivers: "0 < k \<Longrightarrow> delivers (pipe_read k) (\<lambda>t. t)"
proof -
  assume k: "0 < k"
  have "\<exists>j t'. pipe_read k n t = (Some (take j t), t') \<and> 0 < j \<and> j \<le> n \<and> j \<le> length t \<and> t' = drop j t"
    if "0 < n" "t \<noteq> []" for n and t :: "u8 list"
    using k that by (intro exI [of _ "min (min k n) (length t)"] exI [of _ "drop (min k n) t"])
      (auto simp: pipe_read_def min_def)
  then show ?thesis by (auto simp: delivers_def pipe_read_def)
qed

lemma pipe_accepts: "accepts pipe_write (\<lambda>t. t)"
  by (auto simp: accepts_def pipe_write_def)

text \<open>C12: a string that \<open>xdr_string\<close> encodes into a fresh record stream and \<open>xdrrec_endofrecord\<close> sends is
  decoded at the other end of the transport, after \<open>xdrrec_skiprecord\<close>, as the same string,
  whatever the sizes of the two buffers and however the transport cuts the bytes.\<close>
theorem xdrrec_transfers_string:
  assumes d: "delivers readit avail" and a: "accepts writeit sent"
    and al: "\<And>n b. alloc n = Some b \<Longrightarrow> length b = n" and ok: "\<And>n. alloc n \<noteq> None"
    and cs: "0 \<notin> set cs" "length cs \<le> unat maxsize" "length cs < 4294967295"
    and s: "unat ss < 2000000000" "unat rs < 2000000000"
    and w0: "xdrrec_create alloc ss rs t = Some w0" "sent t = []"
  shows "\<exists>w1 w2. xdr_string (xdrrec_ops readit writeit) alloc maxsize XDR_ENCODE (Some (cs @ [0])) w0 =
      Some (True, Some (cs @ [0]), w1) \<and>
    xdrrec_endofrecord writeit True w1 = Some (True, w2) \<and>
    (\<forall>t' r0. avail t' = sent (tcp_handle w2) \<longrightarrow> xdrrec_create alloc ss rs t' = Some r0 \<longrightarrow>
      (\<exists>r1 r2. xdrrec_skiprecord readit r0 = Some (True, r1) \<and>
        xdr_string (xdrrec_ops readit writeit) alloc maxsize XDR_DECODE None r1 =
          Some (True, Some (cs @ [0]), r2)))"
proof -
  let ?bs = "be32 (of_nat (length cs)) @ padded cs"
  have al': "\<forall>n b. alloc n = Some b \<longrightarrow> length b = n" using al by blast
  obtain blk where blk: "alloc (Suc (length cs)) = Some blk" using ok by blast
  have "unat (of_nat (length cs) + 1 :: u32) = Suc (length cs)"
    using cs(3) by (simp add: unat_word_ariths(1) unat_of_nat)
  then have "sure_block alloc (of_nat (length cs) + 1) None = Some blk"
    using blk by (simp add: sure_block_def)
  from xdr_stream.string_yields [OF rec_stream [OF d a, of "[]"] cs(2,3) this] al [OF blk]
  have y: "yields (rec_view avail sent []) (xdr_string (xdrrec_ops readit writeit) alloc maxsize) None
      (Some (cs @ [0])) ?bs" by simp
  note e = xdr_stream.string_emits [OF rec_stream [OF d a, of "[]"] cs(1,2), where rest = "[]" and alloc = alloc]
  from record_transfer [OF d a e y created(1) [where sent = sent, OF w0(1) s al' w0(2)] created(2) [OF w0(1) s al']]
  obtain w1 w2 where w: "xdr_string (xdrrec_ops readit writeit) alloc maxsize XDR_ENCODE (Some (cs @ [0])) w0 =
      Some (True, Some (cs @ [0]), w1)" "xdrrec_endofrecord writeit True w1 = Some (True, w2)"
    "framing [] (sent (tcp_handle w2)) [?bs] []"
    and r: "\<And>r0 q c. rec_rok avail r0 \<Longrightarrow> framing [] (rec_next avail r0) (?bs # q) c \<Longrightarrow>
       \<exists>r1 r2. xdrrec_skiprecord readit r0 = Some (True, r1) \<and>
         xdr_string (xdrrec_ops readit writeit) alloc maxsize XDR_DECODE None r1 = Some (True, Some (cs @ [0]), r2)"
    unfolding append_Nil by blast
  have "\<exists>r1 r2. xdrrec_skiprecord readit r0 = Some (True, r1) \<and>
      xdr_string (xdrrec_ops readit writeit) alloc maxsize XDR_DECODE None r1 = Some (True, Some (cs @ [0]), r2)"
    if "avail t' = sent (tcp_handle w2)" "xdrrec_create alloc ss rs t' = Some r0" for t' r0
    using r [OF created(3) [OF that(2) s al']] created(4) [OF that(2) s al', of avail] that(1) w(3) by simp
  with w(1,2) show ?thesis by blast
qed

lemma xdrrec_transfers_string_witness:
  "\<exists>w0 w1 w2. xdrrec_create (\<lambda>n. Some (replicate n 0)) 0 100 [] = Some w0 \<and>
    xdr_string (xdrrec_ops (pipe_read 3) pipe_write) (\<lambda>n. Some (replicate n 0)) 9 XDR_ENCODE (Some ([72, 105] @ [0])) w0 =
      Some (True, Some ([72, 105] @ [0]), w1) \<and>
    xdrrec_endofrecord pipe_write True w1 = Some (True, w2) \<and>
    (\<forall>t' r0. t' = tcp_handle w2 \<longrightarrow> xdrrec_create (\<lambda>n. Some (replicate n 0)) 0 100 t' = Some r0 \<longrightarrow>
      (\<exists>r1 r2. xdrrec_skiprecord (pipe_read 3) r0 = Some (True, r1) \<and>
        xdr_string (xdrrec_ops (pipe_read 3) pipe_write) (\<lambda>n. Some (replicate n 0)) 9 XDR_DECODE None r1 =
          Some (True, Some ([72, 105] @ [0]), r2)))"
proof -
  obtain w0 :: "u8 list recstream" where w0: "xdrrec_create (\<lambda>n. Some (replicate n 0)) 0 100 [] = Some w0"
    by (simp add: xdrrec_create_def Let_def)
  from xdrrec_transfers_string [OF pipe_delivers [of 3] pipe_accepts _ _ _ _ _ _ _ w0, of "[72, 105]" 9]
  show ?thesis using w0 by simp
qed

text \<open>A fragment of length zero that is not the last one ends the stream for every reader: no wire that goes
  on with one is a sequence of records, and \<open>set_input_fragment\<close> refuses its header.\<close>

lemma frame_eq:
  assumes "frame b p @ w = frame b' p' @ w'" "length p < 2147483648" "length p' < 2147483648"
  shows "b = b' \<and> p = p' \<and> w = w'"
proof -
  have "take 4 (frame b p @ w) = be32 (header_of b (length p))" for b p w by (simp add: frame_def)
  then have "be32 (header_of b (length p)) = be32 (header_of b' (length p'))" using assms(1) by metis
  then have h: "header_of b (length p) = header_of b' (length p')" by (metis of_be32_be32)
  have "length p = length p'" "b = b'"
    using header_of_frame [OF assms(2), of b] header_of_frame [OF assms(3), of b'] h by simp_all
  then show ?thesis using assms(1) by (simp add: frame_def)
qed

lemma frame_not_Nil: "frame b p \<noteq> []"
  by (simp add: frame_def be32_def)

lemma no_record_after_zero:
  "framing cur w rs c \<Longrightarrow> \<not> framing cur' (w @ frame False [] @ z) rs' c'"
proof (induction arbitrary: cur' rs' rule: framing.induct)
  case (nil cur)
  show ?case
  proof
    assume "framing cur' ([] @ frame False [] @ z) rs' c'"
    then show False
      by (cases rule: framing.cases) (auto simp: frame_not_Nil dest: frame_eq [of False "[]"])
  qed
next
  case (more cur p w rs c)
  show ?case
  proof
    assume "framing cur' ((frame False p @ w) @ frame False [] @ z) rs' c'"
    then show False using more.IH more.hyps(2)
      by (cases rule: framing.cases) (auto simp: frame_not_Nil dest: frame_eq [of False p])
  qed
next
  case (eor w rs c p cur)
  show ?case
  proof
    assume "framing cur' ((frame True p @ w) @ frame False [] @ z) rs' c'"
    then show False using eor.IH eor.hyps(2)
      by (cases rule: framing.cases) (auto simp: frame_not_Nil dest: frame_eq [of True p])
  qed
qed

lemma zero_fragment_refused:
  assumes "delivers readit avail" "in_ok r" "raw avail r = frame False [] @ z"
  shows "\<exists>r'. set_input_fragment readit r = Some (False, r')"
proof -
  have "of_be32 (take 4 (raw avail r)) = 0" unfolding assms(3) by (simp add: frame_def header_of_def)
  with set_fragment [OF assms(1,2)] show ?thesis by simp
qed

text \<open>C13: on a reliable transport the writing operations refine a sequence of records. A fresh stream holds no
  record. \<open>xdrrec_putlong\<close> and \<open>xdrrec_putbytes\<close> append to the open record and \<open>xdrrec_endofrecord\<close>
  completes it, whether it sends the record at once or leaves it in the buffer, with one exception:
  \<open>xdrrec_putlong\<close> on an empty open fragment with fewer than four bytes of buffer behind its header
  sends a fragment of length zero, and then no continuation of what is on the wire is a sequence of
  records.\<close>
theorem xdrrec_writer_refines_records:
  assumes "accepts writeit sent" "recording sent r rs c" "unat len \<le> length bs"
  shows "(\<exists>r'. xdrrec_putlong writeit w r = Some (True, r') \<and>
      (if out_finger r = frag_header r + 4 \<and> sendsize r < out_finger r + 4
       then \<forall>z rs' c'. \<not> framing [] (wire sent r' @ z) rs' c'
       else recording sent r' rs (c @ be32 w))) \<and>
    (\<exists>r'. xdrrec_putbytes writeit bs len r = Some (True, r') \<and> recording sent r' rs (c @ take (unat len) bs)) \<and>
    (\<exists>r'. xdrrec_endofrecord writeit sendnow r = Some (True, r') \<and> recording sent r' (rs @ [c]) []) \<and>
    (\<forall>alloc ss rsz t r0. (\<forall>n b. alloc n = Some b \<longrightarrow> length b = n) \<longrightarrow> unat ss < 2000000000 \<longrightarrow>
      unat rsz < 2000000000 \<longrightarrow> sent t = [] \<longrightarrow> xdrrec_create alloc ss rsz t = Some r0 \<longrightarrow>
      recording sent r0 [] [])"
proof (intro conjI)
  obtain c0 where c0: "framing [] (wire sent r) rs c0" using assms(2) by (auto simp: recording_def)
  show "\<exists>r'. xdrrec_putlong writeit w r = Some (True, r') \<and>
      (if out_finger r = frag_header r + 4 \<and> sendsize r < out_finger r + 4
       then \<forall>z rs' c'. \<not> framing [] (wire sent r' @ z) rs' c' else recording sent r' rs (c @ be32 w))"
  proof (cases "cramped r")
    case True
    from put_long_cramped [OF assms(1,2) True, of w] no_record_after_zero [OF c0] True show ?thesis by auto
  next
    case False
    from put_long [OF assms(1,2) False, of w] False show ?thesis by auto
  qed
  show "\<exists>r'. xdrrec_putbytes writeit bs len r = Some (True, r') \<and> recording sent r' rs (c @ take (unat len) bs)"
    using put_loop [OF assms(1-3)] by (auto simp: xdrrec_putbytes_def)
  show "\<exists>r'. xdrrec_endofrecord writeit sendnow r = Some (True, r') \<and> recording sent r' (rs @ [c]) []"
    using endofrecord [OF assms(1,2), of sendnow] by auto
qed (use created(1) [where sent = sent] in blast)

text \<open>The exception is reached: after 91 bytes in a buffer of 100, a record that is left in the buffer puts
  the next header at byte 95.\<close>

lemma cramped_reached:
  assumes "length b = 204"
  shows "\<exists>r0 r1 r2. xdrrec_create (\<lambda>n. if n = 204 then Some b else None) 100 100 [] = Some r0 \<and>
    xdrrec_putbytes pipe_write (replicate 91 7) 91 r0 = Some (True, r1) \<and>
    xdrrec_endofrecord pipe_write False r1 = Some (True, r2) \<and>
    out_finger r2 = frag_header r2 + 4 \<and> sendsize r2 < out_finger r2 + 4"
proof -
  have f: "fix_buf_size 100 = 100" by (simp add: fix_buf_size_def)
  let ?r0 = "\<lparr>tcp_handle = [], out_buf = take 100 b, out_finger = 4, frag_header = 0, frag_sent = False,
    in_buf = seg 100 100 b, in_finger = 100, in_boundry = 100, fbtbc = 0, last_frag = True\<rparr> :: u8 list recstream"
  let ?r1 = "?r0\<lparr>out_buf := patch 4 (replicate 91 7) (take 100 b), out_finger := 95\<rparr>"
  have l: "length (patch 4 (replicate 91 7) (take 100 b)) = 100" using assms by (simp add: length_patch)
  have 0: "xdrrec_create (\<lambda>n. if n = 204 then Some b else None) 100 100 [] = Some ?r0"
    by (simp add: xdrrec_create_def f Let_def)
  have end1: "xdrrec_putloop pipe_write [] 0 ?r1 = Some (True, ?r1)" by (subst xdrrec_putloop.simps) simp
  have 1: "xdrrec_putbytes pipe_write (replicate 91 7) 91 ?r0 = Some (True, ?r1)"
    unfolding xdrrec_putbytes_def using assms l end1 by (subst xdrrec_putloop.simps) (simp add: Let_def)
  have "\<exists>r2. xdrrec_endofrecord pipe_write False ?r1 = Some (True, r2) \<and> out_finger r2 = 99 \<and> frag_header r2 = 95 \<and>
      sendsize r2 = 100"
    using l assms by (simp add: xdrrec_endofrecord_def store32_be length_patch)
  with 0 1 show ?thesis by fastforce
qed

lemma xdrrec_writer_refines_records_witness:
  "\<exists>r. xdrrec_create (\<lambda>n. Some (replicate n 0)) 0 100 [] = Some r \<and>
    (\<exists>r'. xdrrec_putlong pipe_write 7 r = Some (True, r') \<and> recording (\<lambda>t. t) r' [] ([] @ be32 7)) \<and>
    (\<exists>r'. xdrrec_putbytes pipe_write [1, 2, 3] 3 r = Some (True, r') \<and>
       recording (\<lambda>t. t) r' [] ([] @ take (unat (3 :: u32)) [1, 2, 3])) \<and>
    (\<exists>r'. xdrrec_endofrecord pipe_write False r = Some (True, r') \<and> recording (\<lambda>t. t) r' ([] @ [[]]) [])"
proof -
  obtain r :: "u8 list recstream" where r: "xdrrec_create (\<lambda>n. Some (replicate n 0)) 0 100 [] = Some r"
    by (simp add: xdrrec_create_def Let_def)
  have c: "recording (\<lambda>t. t) r [] []" "frag_header r + 8 \<le> sendsize r" "out_finger r = 4"
    by (rule created(1,2,7) [OF r]; simp)+
  from xdrrec_writer_refines_records [OF pipe_accepts c(1), of 3 "[1, 2, 3]" 7 False] c(2,3) r
  show ?thesis by auto
qed

text \<open>\<open>xdrrec_getbytes\<close> returns the next bytes of the record across fragment boundaries, buffer refills
  and short reads of the transport, and FALSE exactly when the record has fewer bytes left; the
  records after it are not touched.\<close>
theorem xdrrec_getbytes_any_cut:
  assumes "delivers readit avail" "rec_rok avail r"
  shows "if unat len \<le> length (rec_ahead avail r) then
      \<exists>r'. xdrrec_getbytes readit len r = Some (True, take (unat len) (rec_ahead avail r), r') \<and> rec_rok avail r' \<and>
        rec_ahead avail r' = drop (unat len) (rec_ahead avail r) \<and> rec_next avail r' = rec_next avail r
    else \<exists>bs r'. xdrrec_getbytes readit len r = Some (False, bs, r') \<and> length bs \<le> unat len"
  unfolding xdrrec_getbytes_def by (rule get_loop [OF assms])

lemma xdrrec_getbytes_any_cut_witness:
  "\<exists>r'. xdrrec_getbytes (pipe_read 2) 3 \<lparr>tcp_handle = [6, 7, 8, 9], out_buf = [], out_finger = 0, frag_header = 0,
      frag_sent = False, in_buf = [0, 0, 0, 5], in_finger = 3, in_boundry = 4, fbtbc = 3, last_frag = True\<rparr> =
    Some (True, [5, 6, 7], r')"
proof -
  let ?r = "\<lparr>tcp_handle = [6, 7, 8, 9], out_buf = [], out_finger = 0, frag_header = 0,
      frag_sent = False, in_buf = [0, 0, 0, 5], in_finger = 3, in_boundry = 4, fbtbc = 3, last_frag = True\<rparr> ::
      u8 list recstream"
  have a: "raw (\<lambda>t. t) ?r = [5, 6, 7, 8, 9]" by (simp add: raw_def seg_def)
  have h: "rec_ahead (\<lambda>t. t) ?r = [5, 6, 7]" unfolding rec_ahead_def a by simp
  have ok: "rec_rok (\<lambda>t. t) ?r" unfolding rec_rok_def a by (simp add: in_ok_def)
  from xdrrec_getbytes_any_cut [OF pipe_delivers ok, of 2 3, unfolded h] show ?thesis by auto
qed

text \<open>\<open>xdrrec_skiprecord\<close> skips what is left of the current record and its fragments and positions the
  stream at the start of the next one.\<close>
theorem xdrrec_skiprecord_next:
  assumes "delivers readit avail" "rec_rok avail r" "framing [] (rec_next avail r) (q # rs) c"
  shows "\<exists>r'. xdrrec_skiprecord readit r = Some (True, r') \<and> rec_rok avail r' \<and> rec_ahead avail r' = q \<and>
    framing [] (rec_next avail r') rs c"
  by (rule skiprecord [OF assms])

lemma xdrrec_skiprecord_next_witness:
  "\<exists>r'. xdrrec_skiprecord (pipe_read 5) \<lparr>tcp_handle = frame True [1, 2] @ [], out_buf = [], out_finger = 0,
      frag_header = 0, frag_sent = False, in_buf = [0, 0, 0, 5], in_finger = 3, in_boundry = 4, fbtbc = 1,
      last_frag = True\<rparr> = Some (True, r') \<and> rec_ahead (\<lambda>t. t) r' = [] @ [1, 2]"
proof -
  let ?r = "\<lparr>tcp_handle = frame True [1, 2] @ [], out_buf = [], out_finger = 0, frag_header = 0,
      frag_sent = False, in_buf = [0, 0, 0, 5], in_finger = 3, in_boundry = 4, fbtbc = 1, last_frag = True\<rparr> ::
      u8 list recstream"
  have a: "raw (\<lambda>t. t) ?r = 5 # frame True [1, 2] @ []" by (simp add: raw_def seg_def)
  have n: "rec_next (\<lambda>t. t) ?r = frame True [1, 2] @ []" unfolding rec_next_def a by simp
  have ok: "rec_rok (\<lambda>t. t) ?r" unfolding rec_rok_def a by (simp add: in_ok_def)
  have "framing [] (rec_next (\<lambda>t. t) ?r) [[] @ [1, 2]] []" unfolding n by (rule framing.eor [OF framing.nil]) simp
  from xdrrec_skiprecord_next [OF pipe_delivers ok this, of 5] show ?thesis by auto
qed

text \<open>C14: when the transport delivers no bytes and no error, as \<open>read\<close> does at the end of a file,
  \<open>get_input_bytes\<close> does not return.\<close>
theorem get_input_bytes_spins_at_eof:
  assumes "\<And>n t. readit n t = (Some [], t)" "0 < n" "in_finger r = in_boundry r"
  shows "get_input_bytes readit n r = None"
proof (rule ccontr)
  assume "get_input_bytes readit n r \<noteq> None"
  then obtain y where y: "get_input_bytes readit n r = Some y" by blast
  have "(\<forall>n t. readit n t = (Some [], t)) \<and> 0 < n \<and> in_finger r = in_boundry r \<longrightarrow> False"
  proof (rule get_input_bytes.raw_induct [where P = "\<lambda>readit n r y.
      (\<forall>n t. readit n t = (Some [], t)) \<and> 0 < n \<and> in_finger r = in_boundry r \<longrightarrow> False", OF _ y])
    fix f readit n and r :: "'a recstream" and y
    assume IH: "\<And>readit n r y. f readit n r = Some y \<Longrightarrow>
        (\<forall>n t. readit n t = (Some [], t)) \<and> 0 < n \<and> in_finger r = in_boundry r \<longrightarrow> False"
      and eq: "(if 0 < n then
          let current = in_boundry r - in_finger r in
          if current = 0 then
            Option.bind (fill_input_buf readit r) (\<lambda>(ok, r'). if \<not> ok then Some (False, [], r') else f readit n r')
          else
            let current = (if n < current then n else current) in
            Option.bind (f readit (n - current) (r\<lparr>in_finger := in_finger r + current\<rparr>))
              (\<lambda>(ok, bs, r'). Some (ok, seg (in_finger r) current (in_buf r) @ bs, r'))
        else Some (True, [], r)) = Some y"
    show "(\<forall>n t. readit n t = (Some [], t)) \<and> 0 < n \<and> in_finger r = in_boundry r \<longrightarrow> False"
    proof
      assume h: "(\<forall>n t. readit n t = (Some [], t)) \<and> 0 < n \<and> in_finger r = in_boundry r"
      then have "\<exists>r'. f readit n r' = Some y \<and> in_finger r' = in_boundry r'"
        using eq by (auto simp: fill_input_buf_def Let_def)
      then show False using IH h by blast
    qed
  qed
  with assms show False by blast
qed

lemma get_input_bytes_spins_at_eof_witness:
  "get_input_bytes (\<lambda>n t. (Some [], t)) 4 \<lparr>tcp_handle = (), out_buf = [], out_finger = 0, frag_header = 0,
      frag_sent = False, in_buf = [0, 0, 0, 0], in_finger = 4, in_boundry = 4, fbtbc = 0, last_frag = True\<rparr> = None"
  by (rule get_input_bytes_spins_at_eof) simp_all

text \<open>Moving a reading stream forward by \<open>xdrrec_setpos\<close> adds the distance to \<open>fbtbc\<close>, where the bytes
  passed over should be subtracted.\<close>

lemma xdrrec_setpos_forward:
  assumes "xdrrec_getpos tell XDR_DECODE r = 100" "fbtbc r = 20" "in_finger r + 8 \<le> in_boundry r"
  shows "xdrrec_setpos tell XDR_DECODE 108 r = (True, r\<lparr>in_finger := in_finger r + 8, fbtbc := 28\<rparr>)"
proof -
  have "sint (100 - 108 :: u32) = - 8" by (simp add: sint_cases)
  then show ?thesis using assms by (simp add: xdrrec_setpos_def Let_def)
qed

end
