(* ===== verification/Rand.thy ===== *)
theory Rand
  imports Prelude "HOL-Library.Signed_Division"
begin

text \<open>
  The random number generators of the C library: \<open>rand_r\<close> (\<open>src/lib/c/lib/rand_r.c\<close>) and the 48-bit
  generator (\<open>src/lib/c/lib/rand48.c\<close>) except for the functions that return a \<open>double\<close>.

  In \<open>rand_r\<close> the intermediate results are signed 32-bit integers and an overflow would be
  undefined (\<open>None\<close>). \<open>calc_next\<close> computes in 32-bit two's complement, as the processor does;
  in C its products overflow a signed \<open>int\<close> from \<open>0x8E36\<close> in the low word on.
\<close>

section \<open>rand_r\<close>

abbreviation "rand_M \<equiv> (2147483647 :: int)"
abbreviation "rand_A \<equiv> (48271 :: int)"
abbreviation "rand_Q \<equiv> (44488 :: int)"
abbreviation "rand_R \<equiv> (3399 :: int)"

definition rand_r :: "u32 \<Rightarrow> (int \<times> u32) option" where
  "rand_r seed = do {
     let X = sint seed;
     p \<leftarrow> i32 (rand_A * (X smod rand_Q));
     q \<leftarrow> i32 (rand_R * (X sdiv rand_Q));
     X \<leftarrow> i32 (p - q);
     X \<leftarrow> (if X < 0 then i32 (X + rand_M) else Some X);
     Some (X, word_of_int X)
   }"

text \<open>Schrage's decomposition.\<close>

lemma schrage:
  fixes x :: int
  assumes "0 \<le> x" "x < rand_M"
  shows "rand_A * (x mod rand_Q) - rand_R * (x div rand_Q) = rand_A * x - rand_M * (x div rand_Q)"
    "0 \<le> rand_A * (x mod rand_Q)" "rand_A * (x mod rand_Q) < rand_M"
    "0 \<le> rand_R * (x div rand_Q)" "rand_R * (x div rand_Q) < rand_M"
proof -
  have "x = rand_Q * (x div rand_Q) + x mod rand_Q" by simp
  then show "rand_A * (x mod rand_Q) - rand_R * (x div rand_Q) = rand_A * x - rand_M * (x div rand_Q)"
    by linarith
  have "0 \<le> x mod rand_Q" "x mod rand_Q \<le> 44487" by (simp_all add: pos_mod_bound zle_diff1_eq [symmetric])
  then show "0 \<le> rand_A * (x mod rand_Q)" "rand_A * (x mod rand_Q) < rand_M" by linarith+
  have "0 \<le> x div rand_Q" "x div rand_Q \<le> 48271" using assms by (simp_all add: pos_imp_zdiv_nonneg_iff)
  then show "0 \<le> rand_R * (x div rand_Q)" "rand_R * (x div rand_Q) < rand_M" by linarith+
qed

lemma sint_small: "uint (w :: u32) < 2147483648 \<Longrightarrow> sint w = uint w"
  by (simp add: sint_cases)

text \<open>C16: for every seed from 1 to \<open>M - 1\<close>, \<open>rand_r\<close> computes \<open>48271 * seed mod (2 ^ 31 - 1)\<close> without
  overflow, and the new seed is again in that range.\<close>
theorem rand_r_minimal_standard:
  assumes "0 < uint seed" "uint seed < rand_M"
  shows "rand_r seed = Some (rand_A * uint seed mod rand_M, word_of_int (rand_A * uint seed mod rand_M)) \<and>
    0 < rand_A * uint seed mod rand_M \<and>
    uint (word_of_int (rand_A * uint seed mod rand_M) :: u32) = rand_A * uint seed mod rand_M"
proof -
  let ?x = "uint seed" and ?d = "rand_A * uint seed - rand_M * (uint seed div rand_Q)"
  have x: "0 \<le> ?x" "?x < rand_M" using assms by auto
  note s = schrage [OF x]
  have si: "sint seed = ?x" using x(2) by (intro sint_small) simp
  have sm: "?x smod rand_Q = ?x mod rand_Q" "?x sdiv rand_Q = ?x div rand_Q"
    using assms(1) by (auto simp: signed_divide_int_def signed_modulo_int_def)
  have md: "?d mod rand_M = rand_A * ?x mod rand_M"
  proof -
    have "?d = rand_A * ?x + rand_M * (- (?x div rand_Q))" by simp
    then show ?thesis by (simp only: mod_mult_self2)
  qed
  have nz: "rand_A * ?x mod rand_M \<noteq> 0"
  proof
    assume "rand_A * ?x mod rand_M = 0"
    then have dv: "rand_M dvd rand_A * ?x" by presburger
    have "?x = rand_M * (-42704 * ?x) + rand_A * ?x * 1899818559" by simp
    then have "rand_M dvd ?x" using dv by (metis dvd_add dvd_mult2 dvd_triv_left)
    then show False using assms zdvd_imp_le by fastforce
  qed
  have d: "- rand_M < ?d" "?d < rand_M" using s by linarith+
  have ip: "i32 (rand_A * (?x mod rand_Q)) = Some (rand_A * (?x mod rand_Q))"
    and iq: "i32 (rand_R * (?x div rand_Q)) = Some (rand_R * (?x div rand_Q))"
    and id: "i32 ?d = Some ?d" using s d unfolding i32_def by auto
  have step: "rand_r seed = do { X \<leftarrow> (if ?d < 0 then i32 (?d + rand_M) else Some ?d); Some (X, word_of_int X) }"
    unfolding rand_r_def si Let_def sm ip iq s(1) [symmetric] using id unfolding s(1) [symmetric] by simp
  have res: "rand_r seed = Some (rand_A * ?x mod rand_M, word_of_int (rand_A * ?x mod rand_M))"
  proof (cases "?d < 0")
    case True
    have "(?d + rand_M) mod rand_M = ?d + rand_M" by (rule mod_pos_pos_trivial) (use True d in auto)
    then have "rand_A * ?x mod rand_M = ?d + rand_M" using md by simp
    moreover have "i32 (?d + rand_M) = Some (?d + rand_M)" using True d unfolding i32_def by auto
    ultimately show ?thesis using True unfolding step by simp
  next
    case False
    then have "rand_A * ?x mod rand_M = ?d" using d md by (metis linorder_not_less mod_pos_pos_trivial)
    then show ?thesis using False unfolding step by simp
  qed
  have b: "0 \<le> rand_A * ?x mod rand_M" "rand_A * ?x mod rand_M < rand_M" by simp_all
  then show ?thesis using res nz by (simp add: uint_word_of_int)
qed

lemma rand_r_minimal_standard_witness:
  "rand_r 1 = Some (rand_A * uint (1 :: u32) mod rand_M, word_of_int (rand_A * uint (1 :: u32) mod rand_M))"
  using rand_r_minimal_standard [of 1] by simp

text \<open>The seed 0 is a fixed point.\<close>

lemma rand_r_0: "rand_r 0 = Some (0, 0)"
  by (simp add: rand_r_def i32_def)

section \<open>The 48-bit generator\<close>

text \<open>A \<open>randbuf\<close> holds the 48 bits of the state, low word first.\<close>

type_synonym randbuf = "u16 \<times> u16 \<times> u16"

record rand48 =
  rand48buf :: randbuf
  mult :: randbuf
  addend :: u16

definition calc_next :: "randbuf \<Rightarrow> u16 \<Rightarrow> randbuf \<Rightarrow> randbuf" where
  "calc_next a c buf = (case (a, buf) of ((a0, a1, a2), (b0, b1, b2)) \<Rightarrow>
     let t = (ucast b0 * ucast a0 + ucast c :: u32);
         tmp0 = (ucast (t AND 0xffff) :: u16);
         tmp1 = (ucast (drop_bit 16 t AND 0xffff) :: u16);
         t = (ucast b1 * ucast a0 + ucast b0 * ucast a1 + ucast tmp1 :: u32);
         tmp1 = (ucast (t AND 0xffff) :: u16);
         tmp2 = (ucast (drop_bit 16 t AND 0xffff) :: u16);
         t = (ucast b2 * ucast a0 + ucast b1 * ucast a1 + ucast b0 * ucast a2 + ucast tmp2 :: u32);
         tmp2 = (ucast (t AND 0xffff) :: u16)
     in (tmp0, tmp1, tmp2))"

definition rand48_init :: "rand48 \<Rightarrow> rand48" where
  "rand48_init s = s\<lparr>mult := (0xE66D, 0xDEEC, 0x5), addend := 0xB\<rparr>"

definition srand48 :: "u32 \<Rightarrow> rand48 \<Rightarrow> rand48" where
  "srand48 seed s = rand48_init
     (s\<lparr>rand48buf := (0x330e, ucast (drop_bit 16 seed AND 0xffff), ucast (seed AND 0xffff))\<rparr>)"

definition seed48 :: "randbuf \<Rightarrow> rand48 \<Rightarrow> randbuf \<times> rand48" where
  "seed48 buf s = (rand48buf s, rand48_init (s\<lparr>rand48buf := buf\<rparr>))"

definition lcong48 :: "randbuf \<Rightarrow> randbuf \<Rightarrow> u16 \<Rightarrow> rand48 \<Rightarrow> rand48" where
  "lcong48 buf a c s = s\<lparr>rand48buf := buf, mult := a, addend := c\<rparr>"

definition jrand48 :: "rand48 \<Rightarrow> randbuf \<Rightarrow> u32 \<times> randbuf" where
  "jrand48 s buf = (case buf of (b0, b1, b2) \<Rightarrow>
     (push_bit 16 (ucast b2) OR ucast b1, calc_next (mult s) (addend s) buf))"

definition nrand48 :: "rand48 \<Rightarrow> randbuf \<Rightarrow> u32 \<times> randbuf" where
  "nrand48 s buf = (case jrand48 s buf of (r, b) \<Rightarrow> (r AND 0x7FFFFFFF, b))"

definition mrand48 :: "rand48 \<Rightarrow> u32 \<times> rand48" where
  "mrand48 s = (case jrand48 s (rand48buf s) of (r, b) \<Rightarrow> (r, s\<lparr>rand48buf := b\<rparr>))"

definition lrand48 :: "rand48 \<Rightarrow> u32 \<times> rand48" where
  "lrand48 s = (case nrand48 s (rand48buf s) of (r, b) \<Rightarrow> (r, s\<lparr>rand48buf := b\<rparr>))"

text \<open>The number a \<open>randbuf\<close> stands for.\<close>

definition val48 :: "randbuf \<Rightarrow> nat" where
  "val48 b = (case b of (b0, b1, b2) \<Rightarrow> unat b0 + 65536 * unat b1 + 4294967296 * unat b2)"

lemma unat_u16: "unat (w :: u16) < 65536"
  by (rule order.strict_trans2 [OF unsigned_less]) simp

lemma low16: "unat (ucast (t AND 0xffff) :: u16) = unat (t :: u32) mod 65536"
proof -
  have "t AND 0xffff = take_bit 16 t" by (simp add: take_bit_eq_mask mask_eq_exp_minus_1)
  then have "unat (ucast (t AND 0xffff) :: u16) = take_bit 16 (take_bit 16 (unat t))"
    by (simp only: unsigned_ucast_eq unsigned_take_bit_eq) simp
  then show ?thesis by (simp add: take_bit_eq_mod)
qed

lemma high16: "unat (ucast (drop_bit 16 t AND 0xffff) :: u16) = unat (t :: u32) div 65536 mod 65536"
proof -
  have "unat (drop_bit 16 t) = unat t div 65536"
    by (simp only: unsigned_drop_bit_eq drop_bit_eq_div [where 'a = nat]) (simp add: take_bit_nat_eq_self unat_u32)
  then show ?thesis by (simp add: low16)
qed

lemma unat_ucast16: "unat (ucast (w :: u16) :: u32) = unat w"
  by (simp add: unsigned_ucast_eq take_bit_nat_eq_self order.strict_trans [OF unat_u16])

text \<open>The carries that the 32-bit accumulator drops lie above the 48 bits.\<close>

lemma mod_div_low: "(x :: nat) mod 4294967296 mod 65536 = x mod 65536"
  "x mod 4294967296 div 65536 mod 65536 = x div 65536 mod 65536"
  using mod_mult2_eq [of x 65536 65536] by simp_all

lemma three_words:
  fixes x y z :: nat
  assumes "x < 4294967296"
  shows "x mod 65536 + 65536 * ((y + x div 65536 mod 65536) mod 65536) +
      4294967296 * ((z + (y + x div 65536 mod 65536) div 65536 mod 65536) mod 65536) =
    (x + 65536 * y + 4294967296 * z) mod 281474976710656"
proof -
  define h where "h = x div 65536"
  define y' where "y' = y + h"
  have h: "h mod 65536 = h" using assms by (simp add: h_def)
  have x: "x = x mod 65536 + 65536 * h" by (simp add: h_def)
  have "y' = y' mod 65536 + 65536 * (y' div 65536)" by simp
  then have y: "65536 * y' = 65536 * (y' mod 65536) + 4294967296 * (y' div 65536)" by linarith
  define z' where "z' = z + y' div 65536"
  have "x + 65536 * y + 4294967296 * z = x mod 65536 + 65536 * y' + 4294967296 * z"
    using x by (simp add: y'_def algebra_simps)
  also have "\<dots> = x mod 65536 + 65536 * (y' mod 65536) + 4294967296 * z'"
    unfolding y by (simp add: z'_def algebra_simps)
  finally have "(x + 65536 * y + 4294967296 * z) mod 281474976710656 =
      (x mod 65536 + 65536 * (y' mod 65536) + 4294967296 * z') mod 281474976710656" by simp
  also have "\<dots> = x mod 65536 + 65536 * (y' mod 65536) + 4294967296 * (z' mod 65536)"
  proof -
    have "z' = z' mod 65536 + 65536 * (z' div 65536)" by simp
    then have z: "4294967296 * z' = 4294967296 * (z' mod 65536) + 281474976710656 * (z' div 65536)" by linarith
    have "x mod 65536 + 65536 * (y' mod 65536) + 4294967296 * z' =
        x mod 65536 + 65536 * (y' mod 65536) + 4294967296 * (z' mod 65536) + 281474976710656 * (z' div 65536)"
      unfolding z by simp
    moreover have "a mod 65536 + 65536 * (b mod 65536) + 4294967296 * (c mod 65536) < 281474976710656"
      for a b c :: nat
    proof -
      have "a mod 65536 < 65536" "b mod 65536 < 65536" "c mod 65536 < 65536" by simp_all
      then show ?thesis by linarith
    qed
    note mod_less [OF this [of x y' z']]
    ultimately show ?thesis by (simp only: mod_mult_self2)
  qed
  finally show ?thesis by (simp add: h y'_def [symmetric] h_def [symmetric] z'_def mod_add_right_eq)
qed

text \<open>\<open>calc_next\<close>, which works in 16-bit words with a 32-bit accumulator, is the linear congruential step
  \<open>x * a + c mod 2 ^ 48\<close> on the numbers the words stand for.\<close>
theorem calc_next_lcg: "val48 (calc_next a c buf) = (val48 a * val48 buf + unat c) mod 281474976710656"
proof -
  obtain a0 a1 a2 b0 b1 b2 where ab: "a = (a0, a1, a2)" "buf = (b0, b1, b2)" by (cases a, cases buf) auto
  define x where "x = unat b0 * unat a0 + unat c"
  define y where "y = unat b1 * unat a0 + unat b0 * unat a1"
  define z where "z = unat b2 * unat a0 + unat b1 * unat a1 + unat b0 * unat a2"
  have "unat b0 * unat a0 \<le> 65535 * 65535"
    by (rule mult_le_mono) (use unat_u16 [of b0] unat_u16 [of a0] in auto)
  then have xb: "x < 4294967296" using unat_u16 [of c] by (simp add: x_def)
  let ?t = "ucast b0 * ucast a0 + ucast c :: u32"
  let ?w1 = "ucast (drop_bit 16 ?t AND 0xffff) :: u16"
  let ?t2 = "ucast b1 * ucast a0 + ucast b0 * ucast a1 + ucast ?w1 :: u32"
  let ?w2 = "ucast (drop_bit 16 ?t2 AND 0xffff) :: u16"
  let ?t3 = "ucast b2 * ucast a0 + ucast b1 * ucast a1 + ucast b0 * ucast a2 + ucast ?w2 :: u32"
  have n: "calc_next a c buf = (ucast (?t AND 0xffff), ucast (?t2 AND 0xffff), ucast (?t3 AND 0xffff))"
    by (simp add: calc_next_def ab Let_def)
  note u = unat_word_ariths(1,2) unat_ucast16 mod_add_left_eq mod_add_right_eq mod_mult_left_eq mod_mult_right_eq
  have t: "unat ?t = x mod 4294967296" by (simp add: u x_def)
  have w1: "unat ?w1 = x div 65536 mod 65536" unfolding high16 t by (rule mod_div_low(2))
  have t2: "unat ?t2 = (y + x div 65536 mod 65536) mod 4294967296"
    unfolding w1 [symmetric] y_def by (simp add: unat_word_ariths(1,2) unat_ucast16 mod_simps)
  have w2: "unat ?w2 = (y + x div 65536 mod 65536) div 65536 mod 65536" unfolding high16 t2 by (rule mod_div_low(2))
  have t3: "unat ?t3 = (z + (y + x div 65536 mod 65536) div 65536 mod 65536) mod 4294967296"
    unfolding w2 [symmetric] z_def by (simp add: unat_word_ariths(1,2) unat_ucast16 mod_simps)
  have "val48 (calc_next a c buf) = x mod 65536 + 65536 * ((y + x div 65536 mod 65536) mod 65536) +
      4294967296 * ((z + (y + x div 65536 mod 65536) div 65536 mod 65536) mod 65536)"
    unfolding n val48_def prod.case low16 t t2 t3 mod_div_low(1) ..
  also have "\<dots> = (x + 65536 * y + 4294967296 * z) mod 281474976710656" by (rule three_words [OF xb])
  also have "\<dots> = (val48 a * val48 buf + unat c) mod 281474976710656"
  proof -
    let ?r = "unat b2 * unat a1 + unat b1 * unat a2" and ?q = "unat b2 * unat a2"
    have "val48 a * val48 buf + unat c =
        (x + 65536 * y + 4294967296 * z) + 281474976710656 * (?r + 65536 * ?q)"
      by (simp add: val48_def ab x_def y_def z_def algebra_simps)
    then show ?thesis by (simp only: mod_mult_self2)
  qed
  finally show ?thesis .
qed

text \<open>\<open>srand48\<close> stores the halves of the seed in the opposite words from the 48-bit number
  \<open>2 ^ 16 * seed + 0x330E\<close> that POSIX prescribes.\<close>

lemma srand48_swaps: "val48 (rand48buf (srand48 0x12345678 s)) = 0x330E + 65536 * 0x1234 + 4294967296 * 0x5678"
  unfolding srand48_def rand48_init_def val48_def by (simp add: low16 high16)

end
