(* ===== verification/Inet.thy ===== *)
theory Inet
  imports Numconv Xdr_Mem
begin

text \<open>
  Internet addresses as text (\<open>src/lib/c/libcruft/inet_aton.c\<close>, \<open>inet_addr.c\<close>, \<open>inet_ntoa_r.c\<close>,
  \<open>inet_ntop.c\<close>, \<open>inet_pton.c\<close>). An IPv4 address is \<open>s_addr\<close>, a 32-bit number in network byte
  order; its bytes in memory are those of the little-endian word. An IPv6 address is a list of 16
  bytes. A string argument is the list of its bytes without the final NUL, and the functions that
  format return the string they store.
\<close>

section \<open>IPv4\<close>

definition i2a :: "u8 \<Rightarrow> u8 list" where
  "i2a b = (let x = unat b;
     h = (if x \<ge> 100 then [of_nat (x div 100) + 48] else []);
     tmp = (if x \<ge> 100 then x mod 100 else x);
     t = (if x \<ge> 10 then [of_nat (tmp div 10) + 48] else []);
     tmp = (if x \<ge> 10 then tmp mod 10 else tmp)
   in h @ t @ [of_nat tmp + 48])"

text \<open>The bytes of \<open>struct in_addr\<close> in memory.\<close>

definition in_bytes :: "u32 \<Rightarrow> u8 list" where
  "in_bytes ip = [ucast ip, ucast (drop_bit 8 ip), ucast (drop_bit 16 ip), ucast (drop_bit 24 ip)]"

definition ntoa_text :: "u8 list \<Rightarrow> u8 list" where
  "ntoa_text ip = i2a (ip ! 0) @ [46] @ i2a (ip ! 1) @ [46] @ i2a (ip ! 2) @ [46] @ i2a (ip ! 3)"

definition inet_ntoa_r :: "u32 \<Rightarrow> ram \<Rightarrow> addr \<Rightarrow> ram option" where
  "inet_ntoa_r ip m buf = (let t = ntoa_text (in_bytes ip) @ [0] in
     if buf + length t \<le> length m then Some (patch buf t m) else None)"

text \<open>The loop of \<open>inet_aton\<close> at offset \<open>tmp\<close>, shift \<open>i\<close> and the address so far. \<open>j\<close> is a \<open>long\<close>.\<close>

function inet_aton_loop :: "u8 list \<Rightarrow> nat \<Rightarrow> nat \<Rightarrow> u32 \<Rightarrow> u32 option" where
  "inet_aton_loop cp tmp i ip =
     (case strtoul (drop tmp cp) 0 of (j, e, err) \<Rightarrow>
        let t = tmp + (case e of None \<Rightarrow> 0 | Some k \<Rightarrow> k) in
        if at cp t = 0 then Some (ip OR j)
        else if at cp t = 46 then
          (if sint j > 255 then None
           else inet_aton_loop cp (t + 1) (if i > 0 then i - 8 else i) (ip OR push_bit i j))
        else None)"
  by pat_completeness auto
termination
  by (relation "measure (\<lambda>(cp, tmp, i, ip). length cp - tmp)") (auto simp: at_def split: if_splits)

declare inet_aton_loop.simps [simp del]

text \<open>The address stored through \<open>inp\<close>, or \<open>None\<close> for the result 0.\<close>

definition inet_aton :: "u8 list \<Rightarrow> u32 option" where
  "inet_aton cp = map_option htonl (inet_aton_loop cp 0 24 0)"

definition inet_addr :: "u8 list \<Rightarrow> u32" where
  "inet_addr cp = (case inet_aton cp of Some a \<Rightarrow> a | None \<Rightarrow> - 1)"

section \<open>IPv6\<close>

definition tohex :: "nat \<Rightarrow> u8" where
  "tohex hexdigit = (if hexdigit > 9 then of_nat hexdigit + 97 - 10 else of_nat hexdigit + 48)"

text \<open>Each digit is stored at \<open>s\<close>, and \<open>s\<close> moves on unless it is a leading zero.\<close>

definition fmt_xlong :: "nat \<Rightarrow> u8 list" where
  "fmt_xlong i = (let
     step = (\<lambda>d s. if s \<noteq> [] \<or> tohex d \<noteq> 48 then s @ [tohex d] else s);
     s = step (i div 4096 mod 16) [];
     s = step (i div 256 mod 16) s;
     s = step (i div 16 mod 16) s
   in s @ [tohex (i mod 16)])"

abbreviation V4mappedprefix :: "u8 list" where
  "V4mappedprefix \<equiv> [0, 0, 0, 0, 0, 0, 0, 0, 0, 0, 0xff, 0xff]"

text \<open>The loop at word \<open>j\<close> (the byte \<open>2 * j\<close> of the code), with \<open>n = 8 - j\<close> words left.\<close>

fun fmt_ip6_loop :: "u8 list \<Rightarrow> nat \<Rightarrow> bool \<Rightarrow> u8 list" where
  "fmt_ip6_loop ip 0 compressing = (if compressing then [58] else [])"
| "fmt_ip6_loop ip (Suc n) compressing =
     (let j = 2 * (7 - n) in
      if j = 12 \<and> take 12 ip = V4mappedprefix then ntoa_text (drop 12 ip)
      else
        let temp = unat (ip ! j) * 256 + unat (ip ! (j + 1)) in
        if temp = 0 then
          (if \<not> compressing \<and> j = 0 then [58] else []) @ fmt_ip6_loop ip n True
        else
          (if compressing then [58] else []) @ fmt_xlong temp @ (if j < 14 then [58] else []) @
            fmt_ip6_loop ip n False)"

definition fmt_ip6 :: "u8 list \<Rightarrow> u8 list" where
  "fmt_ip6 ip = fmt_ip6_loop ip 8 False"

datatype af = AF_INET | AF_INET6 | AF_OTHER

text \<open>The string copied to \<open>BUF\<close>, or NULL.\<close>

definition inet_ntop :: "af \<Rightarrow> u8 list \<Rightarrow> nat \<Rightarrow> u8 list option" where
  "inet_ntop AF CP LEN =
     (case (case AF of AF_INET \<Rightarrow> Some (ntoa_text CP) | AF_INET6 \<Rightarrow> Some (fmt_ip6 CP) | AF_OTHER \<Rightarrow> None) of
        None \<Rightarrow> None
      | Some buf \<Rightarrow> if length buf < LEN then Some buf else None)"

text \<open>\<open>scan_ip6\<close>: the two parts, before and after \<open>::\<close>. The state is the position \<open>s\<close>, \<open>len\<close> and the bytes of
  the prefix or suffix; the first part either returns or goes on to the second.\<close>

definition strtoul_at :: "u8 list \<Rightarrow> nat \<Rightarrow> u32 \<times> nat" where
  "strtoul_at s p = (case strtoul (drop p s) 16 of (u, e, err) \<Rightarrow> (u, case e of None \<Rightarrow> 0 | Some k \<Rightarrow> k))"

definition strtol_at :: "u8 list \<Rightarrow> nat \<Rightarrow> u32 \<times> nat" where
  "strtol_at s p = (case strtol (drop p s) 16 of (u, e, err) \<Rightarrow> (u, case e of None \<Rightarrow> 0 | Some k \<Rightarrow> k))"

datatype scan = Return nat "u8 list" | Part2 nat nat "u8 list"

function scan_prefix :: "u8 list \<Rightarrow> nat \<Rightarrow> nat \<Rightarrow> u8 list \<Rightarrow> scan" where
  "scan_prefix cp s len pre =
     (if at cp s = 58 \<and> at cp (s + 1) = 58 then Part2 (s + 2) (len + 2) pre
      else
        let len = (if at cp s = 58 then len + 1 else len);
            s = (if at cp s = 58 then s + 1 else s);
            (u, i) = strtoul_at cp s in
        if i = 0 then Return 0 pre
        else if length pre = 12 \<and> at cp (s + i) = 46 then
          (case inet_aton (drop s cp) of
             Some a \<Rightarrow> Return (i + len) (pre @ in_bytes a)
           | None \<Rightarrow> Return 0 pre)
        else
          let pre = pre @ [ucast (drop_bit 8 u), ucast (u AND 255)] in
          if length pre \<ge> 16 then Return (len + i) pre
          else scan_prefix cp (s + i) (len + i) pre)"
  by pat_completeness auto
termination
  by (relation "measure (\<lambda>(cp, s, len, pre). 16 - length pre)") auto

declare scan_prefix.simps [simp del]

text \<open>In the second part \<open>prefixlen\<close> may change; at most eight words fit.\<close>

fun scan_suffix :: "nat \<Rightarrow> u8 list \<Rightarrow> nat \<Rightarrow> nat \<Rightarrow> nat \<Rightarrow> u8 list \<Rightarrow> nat \<times> u8 list" where
  "scan_suffix 0 cp s len prefixlen suf = (len, suf)"
| "scan_suffix (Suc fuel) cp s len prefixlen suf =
     (if at cp s = 58 \<and> suf = [] \<or> at cp s \<noteq> 58 \<and> suf \<noteq> [] then (len, suf)
      else
        let len = (if at cp s = 58 then len + 1 else len);
            s = (if at cp s = 58 then s + 1 else s);
            (u, i) = strtol_at cp s in
        if i = 0 then (if at cp s \<noteq> 0 then len - 1 else len, suf)
        else
          let quad = (length suf + prefixlen \<le> 12 \<and> at cp (s + i) = 46) in
          case (if quad then inet_aton (drop s cp) else None) of
            Some a \<Rightarrow> (len + length (drop s cp), suf @ in_bytes a)
          | None \<Rightarrow>
              let prefixlen = (if quad then 12 - length suf else prefixlen);
                  suf = suf @ [ucast (drop_bit 8 u), ucast (u AND 255)] in
              if prefixlen + length suf = 16 then (len + i, suf)
              else scan_suffix fuel cp (s + i) (len + i) prefixlen suf)"

definition scan_ip6 :: "u8 list \<Rightarrow> nat \<times> u8 list" where
  "scan_ip6 cp =
     (case scan_prefix cp 0 0 [] of
        Return len pre \<Rightarrow> (len, pre @ replicate (16 - length pre) 0)
      | Part2 s len pre \<Rightarrow>
          (case scan_suffix 9 cp s len (length pre) [] of (len, suf) \<Rightarrow>
             (len, take (16 - length suf) (pre @ replicate (16 - length pre) 0) @ suf)))"

text \<open>The result, the error and the bytes stored in \<open>BUF\<close>.\<close>

definition inet_pton :: "af \<Rightarrow> u8 list \<Rightarrow> int \<times> bool \<times> u8 list" where
  "inet_pton AF CP =
     (case AF of
        AF_INET \<Rightarrow> (case inet_aton CP of None \<Rightarrow> (0, False, []) | Some a \<Rightarrow> (1, False, in_bytes a))
      | AF_INET6 \<Rightarrow>
          (case scan_ip6 CP of (len, ip) \<Rightarrow>
             (if at CP len \<noteq> 0 \<and> at CP len \<noteq> 37 then 0 else 1, False, ip))
      | AF_OTHER \<Rightarrow> (- 1, True, []))"

section \<open>Decimal octets\<close>

lemma unat_digit: "d < 10 \<Longrightarrow> unat (of_nat d :: u8) = d"
  by (simp add: unat_of_nat)

lemma digit_of: "d < 10 \<Longrightarrow> unat (of_nat d + 48 :: u8) = d + 48"
  using unat_digit [of d] by (simp add: unat_word_ariths(1))

lemma digit_val_of: "d < 10 \<Longrightarrow> unat (digit_val (of_nat d + 48)) = d"
  using digit_of [of d] unat_digit [of d] by (simp add: digit_val_def word_le_nat_alt unat_sub_if')

lemma decimal_split: "q * 10 + r = m \<Longrightarrow> p * 100 + m = x \<Longrightarrow> (p * 10 + q) * 10 + r = (x :: nat)"
  by simp

lemma i2a_digits:
  "i2a b = map (\<lambda>d. of_nat d + 48) (if unat b \<ge> 100 then [unat b div 100, unat b mod 100 div 10, unat b mod 100 mod 10]
     else if unat b \<ge> 10 then [unat b div 10, unat b mod 10] else [unat b])"
  by (auto simp: i2a_def Let_def)

lemma i2a_value:
  shows "horner 10 0 (i2a b) = unat b" "\<forall>c \<in> set (i2a b). is_digit 10 c" "i2a b \<noteq> []"
    "b \<noteq> 0 \<Longrightarrow> hd (i2a b) \<noteq> 48" "length (i2a b) \<le> 3"
proof -
  let ?x = "unat b"
  have x: "?x < 256" by (rule unat_u8)
  consider "?x < 10" | "10 \<le> ?x" "?x < 100" | "100 \<le> ?x" by linarith
  then have "horner 10 0 (i2a b) = ?x \<and> (\<forall>c \<in> set (i2a b). is_digit 10 c) \<and> i2a b \<noteq> [] \<and>
      (b \<noteq> 0 \<longrightarrow> hd (i2a b) \<noteq> 48) \<and> length (i2a b) \<le> 3"
  proof cases
    case 1
    then have "b \<noteq> 0 \<longrightarrow> (of_nat ?x + 48 :: u8) \<noteq> 48"
      using digit_of [of ?x] by (auto simp: word_unat_eq_iff)
    moreover have "unat (digit_val (b + 48)) = ?x" using digit_val_of [of ?x] 1 by simp
    ultimately show ?thesis using 1 by (auto simp: i2a_digits is_digit_def)
  next
    case 2
    then have d: "?x div 10 < 10" "?x mod 10 < 10" "0 < ?x div 10" by (auto simp: div_greater_zero_iff)
    then have "(of_nat (?x div 10) + 48 :: u8) \<noteq> 48"
      using digit_of [of "?x div 10"] by (auto simp: word_unat_eq_iff)
    then show ?thesis using 2 d by (auto simp: i2a_digits is_digit_def digit_val_of)
  next
    case 3
    then have d: "?x div 100 < 10" "?x mod 100 div 10 < 10" "?x mod 100 mod 10 < 10" "0 < ?x div 100"
      using x by (auto simp: div_greater_zero_iff)
    then have "(of_nat (?x div 100) + 48 :: u8) \<noteq> 48"
      using digit_of [of "?x div 100"] by (auto simp: word_unat_eq_iff)
    moreover have "(?x div 100 * 10 + ?x mod 100 div 10) * 10 + ?x mod 100 mod 10 = ?x"
      by (rule decimal_split; rule div_mult_mod_eq)
    moreover define p q r where "p = ?x div 100" and "q = ?x mod 100 div 10" and "r = ?x mod 100 mod 10"
    ultimately have "p < 10" "q < 10" "r < 10" "of_nat p + 48 \<noteq> (48 :: u8)" "(p * 10 + q) * 10 + r = ?x"
      using d by simp_all
    moreover have "i2a b = [of_nat p + 48, of_nat q + 48, of_nat r + 48]"
      using 3 by (simp add: i2a_digits p_def q_def r_def)
    ultimately show ?thesis by (simp add: is_digit_def digit_val_of)
  qed
  then show "horner 10 0 (i2a b) = ?x" "\<forall>c \<in> set (i2a b). is_digit 10 c" "i2a b \<noteq> []"
    "b \<noteq> 0 \<Longrightarrow> hd (i2a b) \<noteq> 48" "length (i2a b) \<le> 3" by auto
qed

text \<open>Base 0 reads an octet in base 10, or in base 8 when it is the single digit 0.\<close>

lemma strtoul_prefix_cong: "conv_prefix s a = conv_prefix s b \<Longrightarrow> strtoul s a = strtoul s b"
  by (simp add: strtoul_def)

lemma strtoul_octet:
  assumes rest: "rest = [] \<or> hd rest = 46"
  shows "strtoul (i2a b @ rest) 0 = (ucast b, Some (length (i2a b)), None)"
proof (cases "b = 0")
  case True
  then have i: "i2a b = [48]" by (simp add: i2a_def)
  have n: "number 8 [] [] [48] rest"
    using rest by (cases rest) (auto simp: number_def no_digit_def is_digit_def digit_val_def at_def)
  have sp: "skip_space (48 # rest) = 0"
    using number_first(1) [OF n] by (simp add: skip_space_def)
  have x: "at (48 # rest) 1 \<noteq> 120" "at (48 # rest) 1 \<noteq> 88"
    using rest by (cases rest; simp add: at_def)+
  have "conv_prefix ([48] @ rest) 0 = Some (False, 0, 0, 8)"
    using x by (simp add: conv_prefix_def Let_def sp at_def [of "_ # _" 0] skip0x_def)
  moreover have "conv_prefix ([48] @ rest) 8 = Some (False, 0, 0, 8)"
    using number_prefix [OF n refl] by simp
  ultimately have "strtoul ([48] @ rest) 0 = strtoul ([48] @ rest) 8" by (intro strtoul_prefix_cong) simp
  also have "\<dots> = (0, Some 1, None)" using strtoul_result [OF n refl] by (simp add: digit_val_def)
  finally show ?thesis using True i by simp
next
  case False
  note v = i2a_value [of b]
  have n: "number 10 [] [] (i2a b) rest"
    using rest v by (cases rest) (auto simp: number_def no_digit_def is_digit_def digit_val_def)
  have h: "at (i2a b @ rest) 0 = hd (i2a b)" by (rule number_first(2) [OF n])
  have sp: "skip_space (i2a b @ rest) = 0" using number_first(1) [OF n] by (simp add: skip_space_def)
  have "conv_prefix (i2a b @ rest) 0 = Some (False, 0, 0, 10)"
    using v(4) [OF False] number_first(3,4) [OF n] by (simp add: conv_prefix_def sp h)
  moreover have "conv_prefix (i2a b @ rest) 10 = Some (False, 0, 0, 10)"
    using number_prefix [OF n refl] by simp
  ultimately have "strtoul (i2a b @ rest) 0 = strtoul (i2a b @ rest) 10" by (intro strtoul_prefix_cong) simp
  also have "\<dots> = (of_nat (unat b), Some (length (i2a b)), None)"
    using strtoul_result [OF n refl] v(1) unat_u8 [of b] by simp
  also have "(of_nat (unat b) :: u32) = ucast b" by simp
  finally show ?thesis .
qed

lemma sint_octet: "\<not> sint (ucast (b :: u8) :: u32) > 255"
proof -
  have u: "uint (ucast b :: u32) = uint b"
    by (simp add: unsigned_ucast_eq take_bit_int_eq_self order.strict_trans [OF unsigned_less])
  have "uint b < 256" by (rule order.strict_trans2 [OF unsigned_less]) simp
  then show ?thesis by (simp add: sint_cases u)
qed

lemma aton_step:
  "inet_aton_loop (pre @ i2a b @ 46 # r) (length pre) i ip =
    inet_aton_loop ((pre @ i2a b @ [46]) @ r) (length (pre @ i2a b @ [46])) (if i > 0 then i - 8 else i)
      (ip OR push_bit i (ucast b))"
proof -
  have "at (pre @ i2a b @ 46 # r) (length pre + length (i2a b)) = 46"
    using at_append0 [of "pre @ i2a b" "46 # r"] by (simp add: at_Cons)
  then show ?thesis
    by (subst inet_aton_loop.simps) (simp add: strtoul_octet sint_octet [of b] not_less [symmetric] Let_def)
qed

lemma aton_last: "inet_aton_loop (pre @ i2a b) (length pre) i ip = Some (ip OR ucast b)"
proof -
  have "at (pre @ i2a b) (length pre + length (i2a b)) = 0" by (simp add: at_def)
  moreover have "strtoul (i2a b) 0 = (ucast b, Some (length (i2a b)), None)"
    using strtoul_octet [of "[]" b] by simp
  ultimately show ?thesis by (subst inet_aton_loop.simps) (simp add: Let_def)
qed

lemma htonl_assemble:
  "htonl ((((0 OR push_bit 24 (ucast (ucast ip :: u8))) OR push_bit 16 (ucast (ucast (drop_bit 8 ip) :: u8))) OR
     push_bit 8 (ucast (ucast (drop_bit 16 ip) :: u8))) OR ucast (ucast (drop_bit 24 ip) :: u8)) = ip"
proof (rule bit_word_eqI)
  fix n assume "n < LENGTH(32)"
  then consider "n < 8" | "8 \<le> n" "n < 16" | "16 \<le> n" "n < 24" | "24 \<le> n" "n < 32" by fastforce
  then show "bit (htonl ((((0 OR push_bit 24 (ucast (ucast ip :: u8))) OR push_bit 16 (ucast (ucast (drop_bit 8 ip) :: u8))) OR
     push_bit 8 (ucast (ucast (drop_bit 16 ip) :: u8))) OR ucast (ucast (drop_bit 24 ip) :: u8))) n \<longleftrightarrow> bit ip n"
    by cases (auto simp: htonl_def bit_simps bit_byte_masks simp del: bit_numeral_word_iff)
qed

lemma aton_ntoa_text: "inet_aton (ntoa_text (in_bytes ip)) = Some ip"
proof -
  let ?b0 = "ucast ip :: u8" and ?b1 = "ucast (drop_bit 8 ip) :: u8" and ?b2 = "ucast (drop_bit 16 ip) :: u8"
    and ?b3 = "ucast (drop_bit 24 ip) :: u8"
  have t: "ntoa_text (in_bytes ip) = i2a ?b0 @ 46 # i2a ?b1 @ 46 # i2a ?b2 @ 46 # i2a ?b3"
    by (simp add: ntoa_text_def in_bytes_def)
  have "inet_aton_loop (ntoa_text (in_bytes ip)) 0 24 0 = Some ((((0 OR push_bit 24 (ucast ?b0)) OR push_bit 16 (ucast ?b1)) OR
      push_bit 8 (ucast ?b2)) OR ucast ?b3)"
    using aton_step [of "[]" ?b0 "i2a ?b1 @ 46 # i2a ?b2 @ 46 # i2a ?b3" 24 0]
      aton_step [of "i2a ?b0 @ [46]" ?b1 "i2a ?b2 @ 46 # i2a ?b3" 16 "0 OR push_bit 24 (ucast ?b0)"]
      aton_step [of "i2a ?b0 @ [46] @ i2a ?b1 @ [46]" ?b2 "i2a ?b3" 8
        "(0 OR push_bit 24 (ucast ?b0)) OR push_bit 16 (ucast ?b1)"]
      aton_last [of "i2a ?b0 @ [46] @ i2a ?b1 @ [46] @ i2a ?b2 @ [46]" ?b3 0
        "((0 OR push_bit 24 (ucast ?b0)) OR push_bit 16 (ucast ?b1)) OR push_bit 8 (ucast ?b2)"]
    by (simp add: t)
  then show ?thesis using htonl_assemble [of ip] by (simp add: inet_aton_def)
qed

section \<open>Properties\<close>

text \<open>C17: the text \<open>inet_ntoa_r\<close> stores for an address has at most 15 characters and its NUL, touches no
  other byte, and \<open>inet_aton\<close> and \<open>inet_addr\<close> read it back as the same address.\<close>
theorem inet_aton_ntoa:
  assumes "buf + 16 \<le> length m"
  shows "\<exists>t m'. inet_ntoa_r ip m buf = Some m' \<and> cstr m' buf t \<and> length t \<le> 15 \<and>
    (\<forall>a. a < buf \<or> buf + 16 \<le> a \<longrightarrow> a < length m \<longrightarrow> m' ! a = m ! a) \<and>
    inet_aton t = Some ip \<and> inet_addr t = ip"
proof -
  let ?b0 = "ucast ip :: u8" and ?b1 = "ucast (drop_bit 8 ip) :: u8" and ?b2 = "ucast (drop_bit 16 ip) :: u8"
    and ?b3 = "ucast (drop_bit 24 ip) :: u8"
  define t where "t = ntoa_text (in_bytes ip)"
  have t: "t = i2a ?b0 @ 46 # i2a ?b1 @ 46 # i2a ?b2 @ 46 # i2a ?b3"
    by (simp add: t_def ntoa_text_def in_bytes_def)
  have l: "length t \<le> 15" using i2a_value(5) [of ?b0] i2a_value(5) [of ?b1] i2a_value(5) [of ?b2] i2a_value(5) [of ?b3]
    by (simp add: t)
  have nz: "0 \<notin> set t"
  proof -
    have "0 \<notin> set (i2a b)" for b
      using i2a_value(2) [of b] by (auto simp: is_digit_def digit_val_def)
    then show ?thesis by (simp add: t)
  qed
  have a: "inet_aton t = Some ip" unfolding t_def by (rule aton_ntoa_text)
  let ?m = "patch buf (t @ [0]) m"
  have fit: "buf + length (t @ [0]) \<le> length m" using l assms by simp
  have "inet_ntoa_r ip m buf = Some ?m" using fit by (simp add: inet_ntoa_r_def Let_def t_def)
  moreover have "cstr ?m buf t" using cstr_patch_self [OF nz fit] by simp
  moreover have "\<forall>a. a < buf \<or> buf + 16 \<le> a \<longrightarrow> a < length m \<longrightarrow> ?m ! a = m ! a"
    using fit l by (auto simp: nth_patch)
  ultimately show ?thesis using l a by (auto simp: inet_addr_def)
qed

lemma inet_aton_ntoa_witness:
  "\<exists>t m'. inet_ntoa_r 0x0100007f (replicate 20 7) 1 = Some m' \<and> cstr m' 1 t \<and> length t \<le> 15 \<and>
    (\<forall>a. a < 1 \<or> 17 \<le> a \<longrightarrow> a < 20 \<longrightarrow> m' ! a = replicate 20 7 ! a) \<and>
    inet_aton t = Some 0x0100007f \<and> inet_addr t = 0x0100007f"
  using inet_aton_ntoa [of 1 "replicate 20 7" "0x0100007f"] by simp

end
