(* ===== verification/Inet6.thy ===== *)
theory Inet6
  imports Inet
begin

text \<open>
  IPv6 addresses as text: the text \<open>inet_ntop\<close> writes for an address whose zero words are adjacent, or that is an IPv4-mapped
  address, and how \<open>scan_ip6\<close> reads it word by word.
\<close>

section \<open>Words\<close>

definition word_bytes :: "u16 \<Rightarrow> u8 list" where
  "word_bytes w = [ucast (drop_bit 8 w), ucast w]"

lemma length_word_bytes [simp]: "length (word_bytes w) = 2"
  by (simp add: word_bytes_def)

text \<open>The 16 bytes of an address of eight words.\<close>

definition ip6 :: "u16 list \<Rightarrow> u8 list" where
  "ip6 ws = concat (map word_bytes ws)"

abbreviation hex :: "u16 \<Rightarrow> u8 list" where
  "hex w \<equiv> fmt_xlong (unat w)"

lemma tohex_table:
  "\<forall>x \<in> set [0, 1, 2, 3, 4, 5, 6, 7, 8, 9, 10, 11, 12, 13, 14, 15]. unat (digit_val (tohex x)) = x \<and>
     (tohex x = 48 \<longleftrightarrow> x = 0) \<and> tohex x \<noteq> 58 \<and> tohex x \<noteq> 0"
  by (simp add: tohex_def digit_val_def)

lemma tohex_facts:
  assumes "x < 16"
  shows "is_digit 16 (tohex x)" "unat (digit_val (tohex x)) = x" "tohex x = 48 \<longleftrightarrow> x = 0" "tohex x \<noteq> 58" "tohex x \<noteq> 0"
proof -
  have "x \<in> set [0, 1, 2, 3, 4, 5, 6, 7, 8, 9, 10, 11, 12, 13, 14, 15]" using assms by simp arith
  note t = bspec [OF tohex_table this]
  show "unat (digit_val (tohex x)) = x" "tohex x = 48 \<longleftrightarrow> x = 0" "tohex x \<noteq> 58" "tohex x \<noteq> 0" using t by simp_all
  then show "is_digit 16 (tohex x)" using assms by (simp add: is_digit_def)
qed

lemma hex_value: "p * 16 + d = i \<Longrightarrow> q * 16 + c = p \<Longrightarrow> a * 16 + b = q \<Longrightarrow> ((a * 16 + b) * 16 + c) * 16 + d = (i :: nat)"
  by simp

lemma fmt_xlong_cases:
  "fmt_xlong i = map tohex (dropWhile (\<lambda>d. d = 0) [i div 4096 mod 16, i div 256 mod 16, i div 16 mod 16] @ [i mod 16])"
  by (simp add: fmt_xlong_def Let_def tohex_facts)

lemma hex_digits: "\<exists>ds. hex w = map tohex ds \<and> (\<forall>d \<in> set ds. d < 16) \<and> ds \<noteq> [] \<and> length ds \<le> 4 \<and> horner 16 0 (map tohex ds) = unat w"
proof -
  let ?i = "unat w"
  have i: "?i < 65536" using unsigned_less [of w] by simp
  define a b c d where "a = ?i div 4096 mod 16" and "b = ?i div 256 mod 16" and "c = ?i div 16 mod 16" and "d = ?i mod 16"
  have r: "a < 16" "b < 16" "c < 16" "d < 16" by (simp_all add: a_def b_def c_def d_def)
  have v: "((a * 16 + b) * 16 + c) * 16 + d = ?i"
  proof -
    have e: "?i div 256 = ?i div 16 div 16" "?i div 4096 = ?i div 16 div 16 div 16" by (simp_all add: div_mult2_eq [symmetric])
    have "?i div 16 div 16 div 16 < 16" using i unfolding e(2) [symmetric] by simp
    then have "a = ?i div 16 div 16 div 16" by (simp only: a_def e mod_less)
    then have "a * 16 + b = ?i div 16 div 16" unfolding b_def e by (simp only: div_mult_mod_eq)
    moreover have "?i div 16 div 16 * 16 + c = ?i div 16" "?i div 16 * 16 + d = ?i"
      unfolding c_def d_def by (rule div_mult_mod_eq)+
    ultimately show ?thesis by (intro hex_value)
  qed
  let ?ds = "dropWhile (\<lambda>d. d = 0) [a, b, c] @ [d]"
  have "hex w = map tohex ?ds" unfolding a_def b_def c_def d_def by (rule fmt_xlong_cases)
  moreover have "horner 16 0 (map tohex ?ds) = ?i"
    using r v by (auto simp: tohex_facts)
  ultimately show ?thesis using r by (intro exI [of _ ?ds]) auto
qed

lemma hex_facts:
  shows "\<forall>c \<in> set (hex w). is_digit 16 c \<and> c \<noteq> 58 \<and> c \<noteq> 0" "hex w \<noteq> []" "length (hex w) \<le> 4" "horner 16 0 (hex w) = unat w"
proof -
  obtain ds where "hex w = map tohex ds" "\<forall>d \<in> set ds. d < 16" "ds \<noteq> []" "length ds \<le> 4"
    "horner 16 0 (map tohex ds) = unat w" using hex_digits [of w] by blast
  then show "\<forall>c \<in> set (hex w). is_digit 16 c \<and> c \<noteq> 58 \<and> c \<noteq> 0" "hex w \<noteq> []" "length (hex w) \<le> 4"
    "horner 16 0 (hex w) = unat w" by (auto simp: tohex_facts)
qed

text \<open>What may follow a word or an octet.\<close>

lemma number_hex:
  assumes "rest = [] \<or> hd rest = 58"
  shows "number 16 [] [] (hex w) rest"
  using assms hex_facts [of w]
  by (cases rest) (auto simp: number_def no_digit_def is_digit_def digit_val_def at_def)

lemma strtoul_hex:
  assumes "rest = [] \<or> hd rest = 58"
  shows "strtoul_at (done @ hex w @ rest) (length done) = (ucast w, length (hex w))"
    "strtol_at (done @ hex w @ rest) (length done) = (ucast w, length (hex w))"
proof -
  note n = number_hex [OF assms, of w]
  have u: "unat w < 65536" using unsigned_less [of w] by simp
  have w: "(of_nat (unat w) :: u32) = ucast w" by simp
  show "strtoul_at (done @ hex w @ rest) (length done) = (ucast w, length (hex w))"
    using strtoul_result [OF n refl] hex_facts(4) [of w] u by (simp add: strtoul_at_def)
  have "\<exists>v. strtol ([] @ [] @ hex w @ rest) (int 16) =
      (v, Some (length ([] @ [] @ hex w)), signed_errno 32 (int (unat w))) \<and> sint v = saturate 32 (int (unat w))"
    using strtol_result [OF n refl] unfolding hex_facts(4) [of w] if_not_P [OF list.distinct(1)] .
  then obtain v where v: "strtol (hex w @ rest) 16 = (v, Some (length (hex w)), signed_errno 32 (int (unat w)))"
    "sint v = saturate 32 (int (unat w))" unfolding append.simps of_nat_numeral by blast
  have "sint v = int (unat w)" using v(2) u by (simp add: saturate_def del: of_nat_unat)
  then have "v = of_int (int (unat w))" by (metis of_int_sint scast_id)
  then have "v = ucast w" using w by simp
  then show "strtol_at (done @ hex w @ rest) (length done) = (ucast w, length (hex w))"
    using v(1) by (simp add: strtol_at_def)
qed

lemma word_bytes_scan: "[ucast (drop_bit 8 (ucast w :: u32)), ucast (ucast w AND 255 :: u32)] = word_bytes w"
  by (auto simp: word_bytes_def bit_simps bit_byte_masks simp del: bit_numeral_word_iff intro!: bit_word_eqI)

lemma word_bytes_value:
  "unat (ucast (drop_bit 8 w) :: u8) * 256 + unat (ucast w :: u8) = unat (w :: u16)"
proof -
  have u: "unat w < 65536" using unsigned_less [of w] by simp
  have "unat (ucast (drop_bit 8 w) :: u8) = unat w div 256"
    using u by (simp add: unsigned_ucast_eq unsigned_drop_bit_eq drop_bit_eq_div take_bit_eq_mod unat_div)
  moreover have "unat (ucast w :: u8) = unat w mod 256" by (simp add: unsigned_ucast_eq take_bit_eq_mod)
  ultimately show ?thesis by (simp only: div_mult_mod_eq)
qed

section \<open>Reading\<close>

lemma scan_prefix_word:
  assumes "rest = [] \<or> hd rest = 58" "sep = [] \<or> sep = [58]" "length pre < 16"
  shows "scan_prefix (done @ sep @ hex w @ rest) (length done) (length done) pre =
    (if length pre + 2 \<ge> 16 then Return (length (done @ sep @ hex w)) (pre @ word_bytes w)
     else scan_prefix (done @ sep @ hex w @ rest) (length (done @ sep @ hex w)) (length (done @ sep @ hex w)) (pre @ word_bytes w))"
proof -
  let ?cp = "done @ sep @ hex w @ rest" and ?h = "length (done @ sep)"
  have h: "at ?cp ?h = hd (hex w)" "hd (hex w) \<noteq> 58"
    using hex_facts(1,2) [of w] at_append0 [of "done @ sep" "hex w @ rest"]
    by (auto simp: at_def nth_append hd_conv_nth)
  have e: "at ?cp (?h + length (hex w)) \<noteq> 46"
    using assms(1) by (cases rest) (auto simp: at_def nth_append)
  have u: "strtoul_at ?cp ?h = (ucast w, length (hex w))"
    using strtoul_hex(1) [OF assms(1), of "done @ sep" w] by simp
  have ne: "hex w \<noteq> []" by (rule hex_facts(2))
  show ?thesis
  proof (cases "sep = []")
    case True
    then show ?thesis
      using h e u ne by (subst scan_prefix.simps) (simp add: Let_def word_bytes_scan)
  next
    case False
    then have "sep = [58]" "at ?cp (length done) = 58" using assms(2) at_append0 [of "done" "58 # hex w @ rest"]
      by (auto simp: at_Cons)
    then show ?thesis
      using h e u ne by (subst scan_prefix.simps) (simp add: Let_def word_bytes_scan)
  qed
qed

lemma scan_suffix_word:
  assumes "rest = [] \<or> hd rest = 58" "sep = (if suf = [] then [] else [58])"
  shows "scan_suffix (Suc fuel) (done @ sep @ hex w @ rest) (length done) (length done) plen suf =
    (if plen + length suf + 2 = 16 then (length (done @ sep @ hex w), suf @ word_bytes w)
     else scan_suffix fuel (done @ sep @ hex w @ rest) (length (done @ sep @ hex w)) (length (done @ sep @ hex w)) plen
       (suf @ word_bytes w))"
proof -
  let ?cp = "done @ sep @ hex w @ rest" and ?h = "length (done @ sep)"
  have h: "at ?cp ?h = hd (hex w)" "hd (hex w) \<noteq> 58"
    using hex_facts(1,2) [of w] at_append0 [of "done @ sep" "hex w @ rest"]
    by (auto simp: at_def nth_append hd_conv_nth)
  have e: "at ?cp (?h + length (hex w)) \<noteq> 46" using assms(1) by (cases rest) (auto simp: at_def nth_append)
  have u: "strtol_at ?cp ?h = (ucast w, length (hex w))"
    using strtoul_hex(2) [OF assms(1), of "done @ sep" w] by simp
  have ne: "hex w \<noteq> []" by (rule hex_facts(2))
  show ?thesis
  proof (cases "suf = []")
    case True
    then show ?thesis using h e u ne assms(2) by (simp add: Let_def word_bytes_scan del: scan_suffix.simps(1))
  next
    case False
    then have "sep = [58]" "at ?cp (length done) = 58" using assms(2) at_append0 [of "done" "58 # hex w @ rest"]
      by (auto simp: at_Cons)
    then show ?thesis using h e u ne False by (simp add: Let_def word_bytes_scan del: scan_suffix.simps(1))
  qed
qed

text \<open>Words after a colon each, and words with colons between them.\<close>

definition tail_text :: "u16 list \<Rightarrow> u8 list" where
  "tail_text ws = concat (map (\<lambda>w. 58 # hex w) ws)"

fun join :: "u16 list \<Rightarrow> u8 list" where
  "join [] = []"
| "join (w # ws) = hex w @ tail_text ws"

lemma tail_text_simps [simp]: "tail_text [] = []" "tail_text (w # ws) = 58 # hex w @ tail_text ws"
  by (simp_all add: tail_text_def)

lemma ip6_simps [simp]: "ip6 [] = []" "ip6 (w # ws) = word_bytes w @ ip6 ws" "length (ip6 ws) = 2 * length ws"
  by (simp_all add: ip6_def length_concat comp_def sum_list_triv)

lemma ip6_append: "ip6 (xs @ ys) = ip6 xs @ ip6 ys"
  by (simp add: ip6_def)

lemma ip6_zeros: "ip6 (replicate k 0) = replicate (2 * k) 0"
  by (induction k) (simp_all add: word_bytes_def)

lemma hd_tail_text: "rest = [] \<or> hd rest = 58 \<Longrightarrow> tail_text ws @ rest = [] \<or> hd (tail_text ws @ rest) = 58"
  by (cases ws) auto

lemma scan_prefix_words:
  assumes "rest = [] \<or> hd rest = 58" "length pre + 2 * length ws \<le> 16" "length pre < 16"
  shows "scan_prefix (done @ tail_text ws @ rest) (length done) (length done) pre =
    (if length pre + 2 * length ws = 16 then Return (length (done @ tail_text ws)) (pre @ ip6 ws)
     else scan_prefix (done @ tail_text ws @ rest) (length (done @ tail_text ws)) (length (done @ tail_text ws)) (pre @ ip6 ws))"
  using assms(2,3)
proof (induction ws arbitrary: "done" pre)
  case (Cons w ws)
  have w: "scan_prefix (done @ tail_text (w # ws) @ rest) (length done) (length done) pre =
      (if length pre + 2 \<ge> 16 then Return (length (done @ 58 # hex w)) (pre @ word_bytes w)
       else scan_prefix ((done @ 58 # hex w) @ tail_text ws @ rest) (length (done @ 58 # hex w)) (length (done @ 58 # hex w))
         (pre @ word_bytes w))"
    using scan_prefix_word [of "tail_text ws @ rest" "[58]" pre "done" w] hd_tail_text [OF assms(1), of ws] Cons.prems(2)
    by simp
  show ?case
  proof (cases "length pre + 2 \<ge> 16")
    case True
    then have "ws = []" using Cons.prems(1) by (cases ws) simp_all
    then show ?thesis using w Cons.prems by simp
  next
    case False
    then have "length (pre @ word_bytes w) < 16" "length (pre @ word_bytes w) + 2 * length ws \<le> 16"
      using Cons.prems by simp_all
    then show ?thesis using Cons.IH [of "pre @ word_bytes w" "done @ 58 # hex w"] w False by simp
  qed
qed simp

lemma scan_suffix_words:
  "plen + length suf + 2 * length ws < 16 \<Longrightarrow> length ws < fuel \<Longrightarrow> suf \<noteq> [] \<Longrightarrow>
   scan_suffix fuel (done @ tail_text ws) (length done) (length done) plen suf = (length (done @ tail_text ws), suf @ ip6 ws)"
proof (induction ws arbitrary: "done" suf fuel)
  case Nil
  then show ?case by (cases fuel) (simp_all add: at_def)
next
  case (Cons w ws)
  then obtain f where f: "fuel = Suc f" by (cases fuel) simp_all
  have "scan_suffix (Suc f) (done @ tail_text (w # ws)) (length done) (length done) plen suf =
      scan_suffix f ((done @ 58 # hex w) @ tail_text ws) (length (done @ 58 # hex w)) (length (done @ 58 # hex w)) plen
        (suf @ word_bytes w)"
    using scan_suffix_word [of "tail_text ws" "[58]" suf f "done" w plen] hd_tail_text [of "[]" ws] Cons.prems
    by (simp del: scan_suffix.simps)
  then show ?case
    using Cons.IH [of "suf @ word_bytes w" f "done @ 58 # hex w"] Cons.prems f by (simp del: scan_suffix.simps)
qed

text \<open>The suffix after \<open>::\<close>.\<close>

lemma strtol_at_end: "snd (strtol_at cp (length cp)) = 0"
  by (simp add: strtol_at_def strtol_def strtoul_def skip_space_def conv_prefix_def at_def Let_def)

lemma scan_suffix_join:
  assumes "plen + 2 * length ws < 16" "length ws < fuel"
  shows "scan_suffix fuel (done @ join ws) (length done) (length done) plen [] = (length (done @ join ws), ip6 ws)"
proof (cases ws)
  case Nil
  then obtain f where "fuel = Suc f" using assms(2) by (cases fuel) simp_all
  then show ?thesis using Nil strtol_at_end [of "done"] by (cases "strtol_at done (length done)") (simp add: at_def)
next
  case (Cons w ws')
  obtain f where f: "fuel = Suc f" using assms(2) by (cases fuel) simp_all
  have "scan_suffix (Suc f) (done @ join ws) (length done) (length done) plen [] =
      scan_suffix f ((done @ hex w) @ tail_text ws') (length (done @ hex w)) (length (done @ hex w)) plen (word_bytes w)"
    using scan_suffix_word [of "tail_text ws'" "[]" "[]" f "done" w plen] hd_tail_text [of "[]" ws'] assms Cons
    by (simp del: scan_suffix.simps)
  then show ?thesis
    using scan_suffix_words [of plen "word_bytes w" ws' f "done @ hex w"] assms f Cons
    by (simp add: word_bytes_def del: scan_suffix.simps)
qed

lemma scan_ip6_run:
  assumes "length pre + length post < 8"
  shows "scan_ip6 (join pre @ [58, 58] @ join post) =
    (length (join pre @ [58, 58] @ join post), ip6 (pre @ replicate (8 - length pre - length post) 0 @ post))"
proof -
  let ?cp = "join pre @ [58, 58] @ join post"
  have colons: "scan_prefix ?cp (length (join pre)) (length (join pre)) (ip6 pre) =
      Part2 (length (join pre) + 2) (length (join pre) + 2) (ip6 pre)"
    by (subst scan_prefix.simps) (simp add: at_def nth_append)
  have prefix: "scan_prefix ?cp 0 0 [] = Part2 (length (join pre @ [58, 58])) (length (join pre @ [58, 58])) (ip6 pre)"
  proof (cases pre)
    case Nil
    then show ?thesis using colons by simp
  next
    case (Cons w ws)
    have "scan_prefix ?cp 0 0 [] =
        scan_prefix (hex w @ tail_text ws @ [58, 58] @ join post) (length (hex w)) (length (hex w)) (word_bytes w)"
      using scan_prefix_word [of "tail_text ws @ [58, 58] @ join post" "[]" "[]" "[]" w] Cons
        hd_tail_text [of "[58, 58] @ join post" ws] by simp
    also have "\<dots> = scan_prefix ?cp (length (join pre)) (length (join pre)) (ip6 pre)"
      using scan_prefix_words [of "[58, 58] @ join post" "word_bytes w" ws "hex w"] Cons assms by simp
    finally show ?thesis using colons by simp
  qed
  have "scan_suffix 9 ?cp (length (join pre @ [58, 58])) (length (join pre @ [58, 58])) (length (ip6 pre)) [] =
      (length ?cp, ip6 post)"
    using scan_suffix_join [of "length (ip6 pre)" post 9 "join pre @ [58, 58]"] assms by (simp del: scan_suffix.simps)
  moreover have "take (16 - length (ip6 post)) (ip6 pre @ replicate (16 - length (ip6 pre)) 0) @ ip6 post =
      ip6 (pre @ replicate (8 - length pre - length post) 0 @ post)"
  proof -
    have "16 - 2 * length post = 2 * length pre + 2 * (8 - length pre - length post)"
      "16 - 2 * length pre = 2 * (8 - length pre - length post) + 2 * length post" using assms by simp_all
    then show ?thesis by (simp add: ip6_append ip6_zeros replicate_add)
  qed
  ultimately show ?thesis using prefix by (simp add: scan_ip6_def del: scan_suffix.simps)
qed

lemma scan_ip6_full:
  assumes "length ws = 8"
  shows "scan_ip6 (join ws) = (length (join ws), ip6 ws)"
proof -
  obtain w ws' where ws: "ws = w # ws'" "length ws' = 7" using assms by (cases ws) simp_all
  have "scan_prefix (join ws) 0 0 [] = scan_prefix (hex w @ tail_text ws') (length (hex w)) (length (hex w)) (word_bytes w)"
    using scan_prefix_word [of "tail_text ws'" "[]" "[]" "[]" w] hd_tail_text [of "[]" ws'] ws by simp
  also have "\<dots> = Return (length (join ws)) (ip6 ws)"
    using scan_prefix_words [of "[]" "word_bytes w" ws' "hex w"] ws by simp
  finally show ?thesis using assms by (simp add: scan_ip6_def)
qed

section \<open>Writing\<close>

lemma nth_ip6:
  "i < length ws \<Longrightarrow> ip6 ws ! (2 * i) = ucast (drop_bit 8 (ws ! i)) \<and> ip6 ws ! Suc (2 * i) = ucast (ws ! i)"
proof (induction ws arbitrary: i)
  case (Cons w ws)
  then show ?case by (cases i) (simp_all add: word_bytes_def)
qed simp

text \<open>The loop of \<open>fmt_ip6\<close> over the words that are left, when the address is not IPv4-mapped.\<close>

fun fmt_words :: "u16 list \<Rightarrow> bool \<Rightarrow> bool \<Rightarrow> u8 list" where
  "fmt_words [] first compressing = (if compressing then [58] else [])"
| "fmt_words (w # ws) first compressing =
     (if w = 0 then (if \<not> compressing \<and> first then [58] else []) @ fmt_words ws False True
      else (if compressing then [58] else []) @ hex w @ (if ws \<noteq> [] then [58] else []) @ fmt_words ws False False)"

lemma fmt_loop_words:
  assumes "length ws = 8" "take 12 (ip6 ws) \<noteq> V4mappedprefix"
  shows "n \<le> 8 \<Longrightarrow> fmt_ip6_loop (ip6 ws) n c = fmt_words (drop (8 - n) ws) (n = 8) c"
proof (induction n arbitrary: c)
  case 0
  then show ?case using assms(1) by simp
next
  case (Suc n)
  let ?i = "7 - n"
  have i: "?i < length ws" "8 - Suc n = ?i" "Suc ?i = 8 - n" using Suc.prems assms(1) by simp_all
  have d: "drop ?i ws = ws ! ?i # drop (8 - n) ws" using i by (metis Cons_nth_drop_Suc)
  have t: "unat (ip6 ws ! (2 * ?i)) * 256 + unat (ip6 ws ! (2 * ?i + 1)) = unat (ws ! ?i)"
    using nth_ip6 [OF i(1)] word_bytes_value [of "ws ! ?i"] by simp
  have z: "unat (ws ! ?i) = 0 \<longleftrightarrow> ws ! ?i = 0" by (simp add: unat_eq_0)
  have e: "drop (8 - n) ws \<noteq> [] \<longleftrightarrow> 2 * ?i < 14" "2 * ?i = 0 \<longleftrightarrow> Suc n = 8" using Suc.prems assms(1) by auto
  have n8: "(n = 8) = False" using Suc.prems by simp
  show ?case
    using Suc.IH Suc.prems assms(2)
    by (simp only: fmt_ip6_loop.simps Let_def i(2) d fmt_words.simps t z e n8 HOL.simp_thms if_False Suc_leD)
qed

lemma tail_text_join: "tail_text ws = (if ws = [] then [] else 58 # join ws)"
  by (cases ws) simp_all

lemma fmt_words_join: "0 \<notin> set ws \<Longrightarrow> fmt_words ws b False = join ws"
  by (induction ws arbitrary: b) (auto simp: tail_text_join)

lemma fmt_words_post: "0 \<notin> set ws \<Longrightarrow> fmt_words ws False True = 58 # join ws"
  by (cases ws) (auto simp: fmt_words_join tail_text_join)

lemma fmt_words_zeros: "fmt_words (replicate k 0 @ ws) False True = fmt_words ws False True"
  by (induction k) simp_all

lemma fmt_words_run:
  assumes "0 \<notin> set pre" "0 \<notin> set post"
  shows "fmt_words (pre @ 0 # replicate k 0 @ post) b False =
    (if b \<or> pre \<noteq> [] then join pre @ [58, 58] @ join post else 58 # join post)"
  using assms(1)
proof (induction pre arbitrary: b)
  case Nil
  then show ?case using assms(2) by (simp add: fmt_words_zeros fmt_words_post)
next
  case (Cons w pre)
  then show ?case using assms(2) by (cases pre) (auto simp: fmt_words_zeros fmt_words_post)
qed

lemma length_join: "length (join ws) \<le> 5 * length ws"
proof -
  have t: "length (tail_text ws) \<le> 5 * length ws" for ws
  proof (induction ws)
    case (Cons w ws)
    then show ?case using hex_facts(3) [of w] by simp
  qed simp
  show ?thesis
  proof (cases ws)
    case (Cons w ws')
    then show ?thesis using t [of ws'] hex_facts(3) [of w] by simp
  qed simp
qed

text \<open>The zero words are adjacent, if there are any.\<close>

definition one_run :: "u16 list \<Rightarrow> bool" where
  "one_run ws \<longleftrightarrow> 0 \<notin> set (dropWhile (\<lambda>w. w = 0) (dropWhile (\<lambda>w. w \<noteq> 0) ws))"

lemma one_run_split:
  assumes "one_run ws" "0 \<in> set ws"
  shows "\<exists>pre k post. ws = pre @ 0 # replicate k 0 @ post \<and> 0 \<notin> set pre \<and> 0 \<notin> set post"
proof -
  define pre rest where "pre = takeWhile (\<lambda>w. w \<noteq> 0) ws" and "rest = dropWhile (\<lambda>w. w \<noteq> 0) ws"
  define zs post where "zs = takeWhile (\<lambda>w. w = 0) rest" and "post = dropWhile (\<lambda>w. w = 0) rest"
  have ws: "ws = pre @ rest" "rest = zs @ post" by (simp_all add: pre_def rest_def zs_def post_def)
  have pre: "0 \<notin> set pre" unfolding pre_def by (auto dest: set_takeWhileD)
  have post: "0 \<notin> set post" using assms(1) by (simp add: one_run_def post_def rest_def)
  have zs: "zs = replicate (length zs) 0"
    unfolding zs_def by (metis (mono_tags, lifting) replicate_length_same set_takeWhileD)
  have "zs \<noteq> []" using assms(2) ws pre post by auto
  then obtain k where "length zs = Suc k" by (cases zs) simp_all
  then have "zs = 0 # replicate k 0" using zs by simp
  then show ?thesis using ws pre post by auto
qed

section \<open>IPv4-mapped addresses\<close>

abbreviation mapped :: "u16 list \<Rightarrow> bool" where
  "mapped ws \<equiv> take 6 ws = [0, 0, 0, 0, 0, 0xffff]"

lemma in_bytes_surj: "\<exists>a. in_bytes a = [b0, b1, b2, b3]"
  by (rule exI [of _ "ucast b0 OR push_bit 8 (ucast b1) OR push_bit 16 (ucast b2) OR push_bit 24 (ucast b3)"])
    (auto simp: in_bytes_def bit_simps intro!: bit_word_eqI)

lemma length_two: "length xs = 2 \<Longrightarrow> \<exists>x y. xs = [x, y]"
  by (auto simp: numeral_2_eq_2 length_Suc_conv)

lemma mapped_bytes:
  assumes "length ws = 8" "mapped ws"
  shows "\<exists>a. ip6 ws = V4mappedprefix @ in_bytes a"
proof -
  have ws: "ws = [0, 0, 0, 0, 0, 0xffff] @ drop 6 ws" using assms(2) by (metis append_take_drop_id)
  have "length (drop 6 ws) = 2" using assms(1) by simp
  then obtain x y where "drop 6 ws = [x, y]" using length_two by blast
  moreover obtain a where "in_bytes a = word_bytes x @ word_bytes y"
    using in_bytes_surj by (fastforce simp: word_bytes_def)
  ultimately show ?thesis by (subst ws) (simp add: word_bytes_def exI [of _ a])
qed

lemma ip6_inj: "ip6 xs = ip6 ys \<Longrightarrow> length xs = length ys \<Longrightarrow> xs = ys"
proof (induction xs arbitrary: ys)
  case (Cons x xs)
  then obtain y ys' where ys: "ys = y # ys'" by (cases ys) simp_all
  have "word_bytes x = word_bytes y" "ip6 xs = ip6 ys'" using Cons.prems ys by simp_all
  then show ?case using Cons ys word_bytes_value [of x] word_bytes_value [of y]
    by (simp add: word_bytes_def word_unat_eq_iff)
qed simp

lemma not_mapped:
  assumes "length ws = 8" "take 12 (ip6 ws) = V4mappedprefix"
  shows "mapped ws"
proof -
  have "ip6 ws = ip6 (take 6 ws) @ ip6 (drop 6 ws)" by (metis append_take_drop_id ip6_append)
  then have "take 12 (ip6 ws) = ip6 (take 6 ws)" using assms(1) by simp
  moreover have "V4mappedprefix = ip6 [0, 0, 0, 0, 0, 0xffff]" by (simp add: word_bytes_def)
  ultimately have "ip6 (take 6 ws) = ip6 [0, 0, 0, 0, 0, 0xffff]" using assms(2) by argo
  then show ?thesis using assms(1) by (intro ip6_inj) simp_all
qed

lemma fmt_mapped: "fmt_ip6 (V4mappedprefix @ in_bytes a) = 58 # 58 # fmt_xlong 65535 @ 58 # ntoa_text (in_bytes a)"
proof -
  define P where "P = V4mappedprefix @ in_bytes a"
  have p: "take 12 P = V4mappedprefix" "drop 12 P = in_bytes a" by (simp_all add: P_def)
  have w: "P ! 0 = 0" "P ! Suc 0 = 0" "P ! 2 = 0" "P ! 3 = 0" "P ! 4 = 0" "P ! 5 = 0" "P ! 6 = 0" "P ! 7 = 0" "P ! 8 = 0"
    "P ! 9 = 0" "P ! 10 = 255" "P ! 11 = 255" by (simp_all add: P_def)
  have "fmt_ip6_loop P 8 False = 58 # fmt_ip6_loop P 7 True"
    "fmt_ip6_loop P 7 True = fmt_ip6_loop P 6 True" "fmt_ip6_loop P 6 True = fmt_ip6_loop P 5 True"
    "fmt_ip6_loop P 5 True = fmt_ip6_loop P 4 True" "fmt_ip6_loop P 4 True = fmt_ip6_loop P 3 True"
    "fmt_ip6_loop P 3 True = 58 # fmt_xlong 65535 @ 58 # fmt_ip6_loop P 2 False"
    using fmt_ip6_loop.simps(2) [of P 7 False] fmt_ip6_loop.simps(2) [of P 6 True] fmt_ip6_loop.simps(2) [of P 5 True]
      fmt_ip6_loop.simps(2) [of P 4 True] fmt_ip6_loop.simps(2) [of P 3 True] fmt_ip6_loop.simps(2) [of P 2 True]
    by (simp_all add: w p del: fmt_ip6_loop.simps)
  moreover have "fmt_ip6_loop P 2 False = ntoa_text (in_bytes a)"
    unfolding numeral_2_eq_2 using fmt_ip6_loop.simps(2) [of P "Suc 0" False] by (simp add: p del: fmt_ip6_loop.simps)
  ultimately show ?thesis unfolding fmt_ip6_def P_def [symmetric] by simp
qed

lemma strtol_octet:
  assumes "rest = 46 # r"
  shows "snd (strtol_at (done @ i2a b @ rest) (length done)) = length (i2a b)"
proof -
  have "number 16 [] [] (i2a b) rest"
  proof -
    have "\<forall>c \<in> set (i2a b). is_digit 16 c" using i2a_value(2) [of b] by (auto simp: is_digit_def)
    moreover have "\<not> is_digit 16 46" by (simp add: is_digit_def digit_val_def)
    ultimately show ?thesis using i2a_value(3) [of b] assms by (simp add: number_def no_digit_def at_def)
  qed
  then show ?thesis using strtol_result [of 16 "[]" "[]" "i2a b" rest "i2a b @ rest"] by (auto simp: strtol_at_def)
qed

lemma scan_mapped:
  "scan_ip6 (58 # 58 # fmt_xlong 65535 @ 58 # ntoa_text (in_bytes a)) =
    (length (58 # 58 # fmt_xlong 65535 @ 58 # ntoa_text (in_bytes a)), V4mappedprefix @ in_bytes a)"
proof -
  let ?t = "ntoa_text (in_bytes a)" and ?d = "[58, 58] @ fmt_xlong 65535 @ [58]"
  let ?cp = "[58, 58] @ fmt_xlong 65535 @ 58 # ?t"
  obtain b r where t: "?t = i2a b @ 46 # r" by (simp add: ntoa_text_def)
  obtain u where u: "strtol_at ?cp (length ?d) = (u, length (i2a b))"
    using strtol_octet [of "46 # r" r ?d b] t by (cases "strtol_at ?cp (length ?d)") simp
  have q: "at ?cp (length ?d + length (i2a b)) = 46"
    using at_append0 [of "?d @ i2a b" "46 # r"] t by (simp add: at_Cons)
  have c: "at ?cp (Suc (Suc 0) + length (fmt_xlong 65535)) = 58"
    using at_append0 [of "[58, 58] @ fmt_xlong 65535" "58 # ?t"] by (simp add: at_Cons)
  have wb: "word_bytes 65535 = [255, 255]" by (simp add: word_bytes_def)
  have z: "replicate 10 (0 :: u8) = [0, 0, 0, 0, 0, 0, 0, 0, 0, 0]" by (simp add: eval_nat_numeral)
  have "scan_prefix ?cp 0 0 [] = Part2 (Suc (Suc 0)) (Suc (Suc 0)) []" by (subst scan_prefix.simps) (simp add: at_def)
  moreover have "scan_suffix 9 ?cp (Suc (Suc 0)) (Suc (Suc 0)) 0 [] = scan_suffix 8 ?cp (Suc (Suc 0) + length (fmt_xlong 65535)) (Suc (Suc 0) + length (fmt_xlong 65535)) 0 (word_bytes 0xffff)"
    using scan_suffix_word [of "58 # ?t" "[]" "[]" 8 "[58, 58]" "0xffff" 0] by (simp del: scan_suffix.simps)
  moreover have "\<dots> = (length ?cp, word_bytes 0xffff @ in_bytes a)"
    using scan_suffix.simps(2) [of 7 ?cp "Suc (Suc 0) + length (fmt_xlong 65535)" "Suc (Suc 0) + length (fmt_xlong 65535)" 0 "word_bytes 0xffff"]
      c u q i2a_value(3) [of b] aton_ntoa_text [of a]
    by (simp add: word_bytes_def del: scan_suffix.simps)
  ultimately show ?thesis 
    using scan_ip6_def [of ?cp] by (simp add: wb z in_bytes_def del: scan_suffix.simps)
qed

section \<open>Properties\<close>

text \<open>C18: for every IPv6 address whose zero words are adjacent and for every IPv4-mapped one, \<open>inet_ntop\<close> with a buffer of 46
  bytes returns a text, and \<open>inet_pton\<close> reads it back as the same 16 bytes.\<close>
theorem inet_pton_ntop6:
  assumes "length ws = 8" "one_run ws \<or> mapped ws" "46 \<le> n"
  shows "\<exists>t. inet_ntop AF_INET6 (ip6 ws) n = Some t \<and> inet_pton AF_INET6 t = (1, False, ip6 ws)"
proof -
  have "\<exists>t. fmt_ip6 (ip6 ws) = t \<and> length t < 46 \<and> scan_ip6 t = (length t, ip6 ws)"
  proof (cases "mapped ws")
    case True
    then obtain a where a: "ip6 ws = V4mappedprefix @ in_bytes a" using mapped_bytes [OF assms(1)] by blast
    have "length (ntoa_text (in_bytes a)) \<le> 15"
      using i2a_value(5) [of "in_bytes a ! 0"] i2a_value(5) [of "in_bytes a ! 1"] i2a_value(5) [of "in_bytes a ! 2"]
        i2a_value(5) [of "in_bytes a ! 3"] by (simp add: ntoa_text_def)
    moreover define t where "t = 58 # 58 # fmt_xlong 65535 @ 58 # ntoa_text (in_bytes a)"
    moreover have "length (fmt_xlong 65535) \<le> 4" using hex_facts(3) [of "0xffff"] by simp
    ultimately have "length t < 46" by simp
    moreover have "fmt_ip6 (ip6 ws) = t" unfolding a t_def by (rule fmt_mapped)
    moreover have "scan_ip6 t = (length t, ip6 ws)" unfolding a t_def by (rule scan_mapped)
    ultimately show ?thesis by blast
  next
    case False
    then have v4: "take 12 (ip6 ws) \<noteq> V4mappedprefix" using not_mapped [OF assms(1)] by blast
    have f: "fmt_ip6 (ip6 ws) = fmt_words ws True False"
      using fmt_loop_words [OF assms(1) v4, of 8 False] by (simp add: fmt_ip6_def)
    show ?thesis
    proof (cases "0 \<in> set ws")
      case True
      then obtain pre k post where ws: "ws = pre @ 0 # replicate k 0 @ post" "0 \<notin> set pre" "0 \<notin> set post"
        using one_run_split [of ws] assms(2) False by blast
      have l: "length pre + length post < 8" "8 - length pre - length post = Suc k" using assms(1) ws(1) by auto
      have "fmt_ip6 (ip6 ws) = join pre @ [58, 58] @ join post"
        unfolding f using fmt_words_run [OF ws(2,3), of k True] by (simp flip: ws(1))
      moreover have "length (join pre @ [58, 58] @ join post) < 46"
        using length_join [of pre] length_join [of post] l by simp
      moreover have "pre @ replicate (8 - length pre - length post) 0 @ post = ws" unfolding l(2) by (simp add: ws(1))
      ultimately show ?thesis using scan_ip6_run [OF l(1)] by metis
    next
      case False
      then have "fmt_ip6 (ip6 ws) = join ws" unfolding f by (rule fmt_words_join)
      then show ?thesis using scan_ip6_full [OF assms(1)] length_join [of ws] assms(1) by simp
    qed
  qed
  then show ?thesis using assms(3) by (auto simp: inet_ntop_def inet_pton_def at_def)
qed

lemma inet_pton_ntop6_witness:
  "\<exists>t. inet_ntop AF_INET6 (ip6 [0xfe80, 0, 0, 0, 0x220, 0xe0ff, 0xfe69, 0xad92]) 46 = Some t \<and>
    inet_pton AF_INET6 t = (1, False, ip6 [0xfe80, 0, 0, 0, 0x220, 0xe0ff, 0xfe69, 0xad92])"
  by (rule inet_pton_ntop6) (simp_all add: one_run_def)

end
