(* ===== verification/Time.thy ===== *)
theory Time
  imports Cstring "HOL-Library.Signed_Division"
begin

text \<open>
  Broken-down time (\<open>src/lib/c/libugly/gmtime_r.c\<close>, \<open>timegm.c\<close>, \<open>mktime.c\<close>, \<open>asctime_r.c\<close>, \<open>isleap.c\<close>,
  \<open>time_table_spd.c\<close>). \<open>time_t\<close> and \<open>int\<close> are signed 32-bit integers, modelled as \<open>int\<close>; an overflow or
  a table index out of range is undefined (\<open>None\<close>). Division and remainder truncate, as in C.
\<close>

section \<open>Definitions\<close>

record tm =
  tm_sec :: int
  tm_min :: int
  tm_hour :: int
  tm_mday :: int
  tm_mon :: int
  tm_year :: int
  tm_wday :: int
  tm_yday :: int

text \<open>Days before each month of a year that is not a leap year.\<close>

definition spm :: "int list" where
  "spm = [0, 31, 59, 90, 120, 151, 181, 212, 243, 273, 304, 334]"

definition isleap :: "int \<Rightarrow> bool" where
  "isleap year \<longleftrightarrow> year smod 4 = 0 \<and> (year smod 100 \<noteq> 0 \<or> year smod 400 = 0)"

text \<open>The loops of \<open>gmtime_r\<close>: over the years from \<open>i\<close> and over the months from \<open>i\<close> down.\<close>

function year_loop :: "int \<Rightarrow> int \<Rightarrow> int \<times> int" where
  "year_loop i work =
     (let k = (if isleap i then 366 else 365) in
      if work \<ge> k then year_loop (i + 1) (work - k) else (i, work))"
  by pat_completeness auto
termination
  by (relation "measure (\<lambda>(i, work). nat work)") (auto split: if_splits)

declare year_loop.simps [simp del]

primrec month_loop :: "nat \<Rightarrow> int \<Rightarrow> nat" where
  "month_loop 0 work = 0"
| "month_loop (Suc i) work = (if spm ! Suc i > work then month_loop i work else Suc i)"

definition gmtime_r :: "int \<Rightarrow> tm \<Rightarrow> tm" where
  "gmtime_r t r = (let
     work = t smod 86400;
     r = r\<lparr>tm_sec := work smod 60\<rparr>;
     work = work sdiv 60;
     r = r\<lparr>tm_min := work smod 60, tm_hour := work sdiv 60\<rparr>;
     work = t sdiv 86400;
     r = r\<lparr>tm_wday := (4 + work) smod 7\<rparr>;
     (i, work) = year_loop 1970 work;
     r = r\<lparr>tm_year := i - 1900, tm_yday := work, tm_mday := 1\<rparr>;
     r = (if isleap i \<and> work > 58 \<and> work = 59 then r\<lparr>tm_mday := 2\<rparr> else r);
     work = (if isleap i \<and> work > 58 then work - 1 else work);
     m = month_loop 11 work
   in r\<lparr>tm_mon := int m, tm_mday := tm_mday r + (work - spm ! m)\<rparr>)"

text \<open>\<open>timegm\<close> and \<open>mktime\<close> have the same body. The loop adds the days of the years from \<open>i\<close> on.\<close>

function day_loop :: "int \<Rightarrow> int \<Rightarrow> int \<Rightarrow> int option" where
  "day_loop i year day =
     (if i < year then
        (case i32 (day + (365 + (if isleap (i + 1900) then 1 else 0))) of
           None \<Rightarrow> None
         | Some day \<Rightarrow> day_loop (i + 1) year day)
      else Some day)"
  by pat_completeness auto
termination
  by (relation "measure (\<lambda>(i, year, day). nat (year - i))") auto

declare day_loop.simps [simp del]

definition spm_at :: "int \<Rightarrow> int option" where
  "spm_at m = (if 0 \<le> m \<and> m < 12 then Some (spm ! nat m) else None)"

definition timegm :: "tm \<Rightarrow> (int \<times> tm) option" where
  "timegm t =
     (if tm_year t < 70 then Some (- 1, t)
      else do {
        s \<leftarrow> spm_at (tm_mon t);
        day \<leftarrow> i32 (s + tm_mday t);
        day \<leftarrow> i32 (day - 1);
        year \<leftarrow> i32 (tm_year t + 1900);
        day \<leftarrow> i32 (day + (if isleap year \<and> tm_mon t > 1 then 1 else 0));
        let t = t\<lparr>tm_yday := day\<rparr>;
        day \<leftarrow> day_loop 70 (tm_year t) day;
        w \<leftarrow> i32 (day + 4);
        let t = t\<lparr>tm_wday := w smod 7\<rparr>;
        day \<leftarrow> i32 (day * 24);
        r \<leftarrow> i32 (day + tm_hour t);
        r \<leftarrow> i32 (r * 60);
        r \<leftarrow> i32 (r + tm_min t);
        r \<leftarrow> i32 (r * 60);
        r \<leftarrow> i32 (r + tm_sec t);
        Some (r, t)
      })"

definition mktime :: "tm \<Rightarrow> (int \<times> tm) option" where
  "mktime t = timegm t"

text \<open>\<open>asctime_r\<close>. \<open>char4\<close> is the 4-byte access at \<open>table + (k << 2)\<close>.\<close>

abbreviation lit :: "string \<Rightarrow> u8 list" where
  "lit s \<equiv> map of_char s"

definition days :: "u8 list" where
  "days = lit ''Sun Mon Tue Wed Thu Fri Sat '' @ [0]"

definition months :: "u8 list" where
  "months = lit ''Jan Feb Mar Apr May Jun Jul Aug Sep Oct Nov Dec '' @ [0]"

definition char4 :: "u8 list \<Rightarrow> int \<Rightarrow> u8 list option" where
  "char4 table k = (if 0 \<le> k \<and> 4 * nat k + 4 \<le> length table then Some (seg (4 * nat k) 4 table) else None)"

definition num2str :: "int \<Rightarrow> u8 list" where
  "num2str i = [of_int (i sdiv 10 + 48), of_int (i smod 10 + 48)]"

definition asctime_text :: "tm \<Rightarrow> u8 list option" where
  "asctime_text t = do {
     d \<leftarrow> char4 days (tm_wday t);
     m \<leftarrow> char4 months (tm_mon t);
     y \<leftarrow> i32 (tm_year t + 1900);
     let n = num2str (tm_mday t);
     let n = (if n ! 0 = 48 then n[0 := 32] else n);
     Some (d @ m @ n @ [32] @ num2str (tm_hour t) @ [58] @ num2str (tm_min t) @ [58] @ num2str (tm_sec t) @ [32] @
       num2str (y sdiv 100) @ num2str (y smod 100) @ [10])
   }"

definition asctime_r :: "tm \<Rightarrow> ram \<Rightarrow> addr \<Rightarrow> ram option" where
  "asctime_r t m buf = do {
     s \<leftarrow> asctime_text t;
     if buf + length s \<le> length m then Some (patch buf s m) else None
   }"

section \<open>Days and years\<close>

lemma month_loop_le: "month_loop i work \<le> i"
  by (induction i) auto

lemma month_loop_leap: "month_loop 11 work > 1 \<longleftrightarrow> work \<ge> 59"
  by (simp add: numeral_eq_Suc spm_def)

lemma spm_bounds: "m \<le> 11 \<Longrightarrow> 0 \<le> spm ! m \<and> spm ! m \<le> 334"
proof -
  assume "m \<le> 11"
  then have "spm ! m \<in> set spm" by (intro nth_mem) (simp add: spm_def)
  then show ?thesis by (auto simp: spm_def)
qed

lemma year_loop_days:
  "year_loop i work = (y, w) \<Longrightarrow>
     i \<le> y \<and> w \<le> work \<and> w < (if isleap y then 366 else 365) \<and> (0 \<le> work \<longrightarrow> 0 \<le> w \<and> 365 * (y - i) \<le> work) \<and>
     (work < 0 \<longrightarrow> y = i \<and> w = work) \<and>
     (\<forall>d. 0 \<le> d \<longrightarrow> d + (work - w) < 2147483648 \<longrightarrow>
        day_loop (i - 1900) (y - 1900) d = Some (d + (work - w)))"
proof (induction i work rule: year_loop.induct)
  case (1 i work)
  define k :: int where "k = (if isleap i then 366 else 365)"
  show ?case
  proof (cases "work \<ge> k")
    case True
    then have "year_loop (i + 1) (work - k) = (y, w)"
      using "1.prems" by (simp add: year_loop.simps [of i] k_def)
    note ih = "1.IH" [OF k_def True this]
    have kb: "365 \<le> k" "k \<le> 366" by (auto simp: k_def)
    have "day_loop (i - 1900) (y - 1900) d = Some (d + (work - w))"
      if d: "0 \<le> d" "d + (work - w) < 2147483648" for d
    proof -
      have "day_loop (i - 1900) (y - 1900) d = day_loop (i + 1 - 1900) (y - 1900) (d + k)"
        using ih d kb by (subst day_loop.simps) (auto simp: k_def i32_def algebra_simps)
      also have "\<dots> = Some (d + k + (work - k - w))" using ih d kb by auto
      finally show ?thesis by simp
    qed
    then show ?thesis using ih kb True by auto
  next
    case False
    then have "y = i" "w = work" using "1.prems" by (auto simp: year_loop.simps [of i] k_def)
    then show ?thesis using False by (auto simp: k_def day_loop.simps)
  qed
qed

section \<open>Truncating division\<close>

lemma trunc_eq: "a = (a sdiv b) * b + a smod (b :: int)"
  by (simp add: sdiv_mult_smod_eq)

lemma trunc_nonneg:
  "0 \<le> a \<Longrightarrow> 0 < b \<Longrightarrow> a sdiv b = a div b \<and> a smod b = a mod (b :: int)"
  by (cases "a = 0") (auto simp: signed_divide_int_def signed_modulo_int_def)

lemma trunc_neg:
  "a < 0 \<Longrightarrow> 0 < b \<Longrightarrow> a sdiv b = - ((- a) div b) \<and> a smod b = - ((- a) mod (b :: int))"
  by (auto simp: signed_divide_int_def signed_modulo_int_def minus_div_mult_eq_mod [symmetric])

lemma trunc_pos: "0 \<le> a \<Longrightarrow> 0 < b \<Longrightarrow> 0 \<le> a sdiv b \<and> 0 \<le> a smod b \<and> a smod b < (b :: int)"
  by (simp add: trunc_nonneg pos_imp_zdiv_nonneg_iff)

lemma trunc_npos:
  assumes "a \<le> 0" "0 < (b :: int)"
  shows "a sdiv b \<le> 0 \<and> a smod b \<le> 0 \<and> - b < a smod b"
proof (cases "a = 0")
  case True
  then show ?thesis using assms by (simp add: trunc_nonneg)
next
  case False
  then have "a < 0" using assms by simp
  moreover have "0 \<le> (- a) div b" "(- a) mod b < b" "0 \<le> (- a) mod b"
    using assms by (simp_all add: pos_imp_zdiv_nonneg_iff)
  ultimately show ?thesis using assms by (simp add: trunc_neg)
qed

section \<open>The fields of a time\<close>

lemma gmtime_fields:
  fixes r :: tm
  assumes "year_loop 1970 (t sdiv 86400) = (y, w)"
  defines "late \<equiv> isleap y \<and> w > 58" and "g \<equiv> gmtime_r t r"
  defines "v \<equiv> (if late then w - 1 else w)"
  shows "tm_sec g = t smod 86400 smod 60" "tm_min g = t smod 86400 sdiv 60 smod 60"
    "tm_hour g = t smod 86400 sdiv 60 sdiv 60" "tm_wday g = (4 + t sdiv 86400) smod 7"
    "tm_year g = y - 1900" "tm_yday g = w" "tm_mon g = int (month_loop 11 v)"
    "tm_mday g = (if late \<and> w = 59 then 2 else 1) + (v - spm ! month_loop 11 v)"
  using assms(1) by (auto simp: gmtime_r_def Let_def late_def g_def v_def)

lemma hms_arith:
  "t = D * 86400 + S \<Longrightarrow> S = q * 60 + s \<Longrightarrow> q = h * 60 + m \<Longrightarrow> t = ((D * 24 + h) * 60 + m) * 60 + (s :: int)"
  by simp

lemma hms_compose: "t = ((t sdiv 86400 * 24 + t smod 86400 sdiv 60 sdiv 60) * 60 + t smod 86400 sdiv 60 smod 60) * 60 + t smod 86400 smod (60 :: int)"
  by (rule hms_arith; rule trunc_eq)

text \<open>The parts have the sign of the whole, so that no partial result is larger than it.\<close>

lemma hms_signs:
  fixes t :: int
  defines "D \<equiv> t sdiv 86400" and "h \<equiv> t smod 86400 sdiv 60 sdiv 60"
    and "m \<equiv> t smod 86400 sdiv 60 smod 60" and "s \<equiv> t smod 86400 smod 60"
  shows "0 \<le> t \<Longrightarrow> 0 \<le> D \<and> 0 \<le> h \<and> 0 \<le> m \<and> 0 \<le> s" "t \<le> 0 \<Longrightarrow> D \<le> 0 \<and> h \<le> 0 \<and> m \<le> 0 \<and> s \<le> 0"
  unfolding D_def h_def m_def s_def
  using trunc_pos [of t 86400] trunc_pos [of "t smod 86400" 60] trunc_pos [of "t smod 86400 sdiv 60" 60]
    trunc_npos [of t 86400] trunc_npos [of "t smod 86400" 60] trunc_npos [of "t smod 86400 sdiv 60" 60]
  by auto

lemma seconds_bounds:
  fixes D h m s :: int
  assumes "t = ((D * 24 + h) * 60 + m) * 60 + s" "- 2147483648 \<le> t" "t < 2147483648"
    "(0 \<le> D \<and> 0 \<le> h \<and> 0 \<le> m \<and> 0 \<le> s) \<or> (D \<le> 0 \<and> h \<le> 0 \<and> m \<le> 0 \<and> s \<le> 0)"
  shows "i32 (D * 24) = Some (D * 24)" "i32 (D * 24 + h) = Some (D * 24 + h)"
    "i32 ((D * 24 + h) * 60) = Some ((D * 24 + h) * 60)"
    "i32 ((D * 24 + h) * 60 + m) = Some ((D * 24 + h) * 60 + m)"
    "i32 (((D * 24 + h) * 60 + m) * 60) = Some (((D * 24 + h) * 60 + m) * 60)"
    "i32 (((D * 24 + h) * 60 + m) * 60 + s) = Some (((D * 24 + h) * 60 + m) * 60 + s)"
  using assms by (auto intro!: i32_Some)

lemma tm_fields_id: "g\<lparr>tm_yday := tm_yday g\<rparr> = g" "g\<lparr>tm_wday := tm_wday g\<rparr> = (g :: tm)"
  by simp_all

text \<open>The day of the year from month and day, and the days since 1970.\<close>

lemma year_day:
  assumes "year_loop 1970 D = (y, w)"
  defines "late \<equiv> isleap y \<and> w > 58"
  defines "v \<equiv> (if late then w - 1 else w)"
  shows "spm ! month_loop 11 v + ((if late \<and> w = 59 then 2 else 1) + (v - spm ! month_loop 11 v)) - 1 +
      (if isleap y \<and> int (month_loop 11 v) > 1 then 1 else 0) = w"
proof -
  have "int (month_loop 11 v) > 1 \<longleftrightarrow> v \<ge> 59" using month_loop_leap [of v] by auto
  then show ?thesis by (auto simp: v_def late_def)
qed

section \<open>Ranges and text\<close>

lemma month_loop_spec:
  "0 \<le> work \<Longrightarrow> spm ! month_loop i work \<le> work \<and> (month_loop i work < i \<longrightarrow> work < spm ! Suc (month_loop i work))"
  by (induction i) (auto simp: spm_def [THEN arg_cong, of "\<lambda>s. s ! 0"] less_Suc_eq)

lemma month_days: "k < 11 \<Longrightarrow> spm ! Suc k - spm ! k \<le> 31"
  by (auto simp: spm_def less_Suc_eq numeral_eq_Suc)

lemma month_day:
  assumes "0 \<le> v" "v < 365"
  shows "0 \<le> v - spm ! month_loop 11 v" "v - spm ! month_loop 11 v \<le> 30"
proof -
  note m = month_loop_spec [OF assms(1), of 11] month_loop_le [of 11 v]
  show "0 \<le> v - spm ! month_loop 11 v" using m by simp
  show "v - spm ! month_loop 11 v \<le> 30"
  proof (cases "month_loop 11 v = 11")
    case True
    have "spm ! 11 = 334" by (simp add: spm_def)
    then show ?thesis using True assms by simp
  next
    case False
    then have "month_loop 11 v < 11" using m by linarith
    then show ?thesis using m month_days [of "month_loop 11 v"] by linarith
  qed
qed

lemma gmtime_ranges:
  fixes r :: tm
  assumes t: "0 \<le> t" "t < 2147483648"
  defines "g \<equiv> gmtime_r t r"
  shows "0 \<le> tm_sec g" "tm_sec g < 60" "0 \<le> tm_min g" "tm_min g < 60" "0 \<le> tm_hour g" "tm_hour g < 24"
    "1 \<le> tm_mday g" "tm_mday g \<le> 31" "0 \<le> tm_mon g" "tm_mon g < 12" "70 \<le> tm_year g" "tm_year g < 140"
    "0 \<le> tm_wday g" "tm_wday g < 7" "0 \<le> tm_yday g" "tm_yday g < 366"
proof -
  define D where "D = t sdiv 86400"
  have D: "0 \<le> D" "D < 24856" using t by (auto simp: D_def trunc_nonneg)
  obtain y w where yw: "year_loop 1970 D = (y, w)" by fastforce
  define late v where "late \<longleftrightarrow> isleap y \<and> w > 58" and "v = (if late then w - 1 else w)"
  note f = gmtime_fields [OF yw [unfolded D_def], folded D_def late_def, folded v_def, of r, folded g_def]
  note days = year_loop_days [OF yw]
  have w: "0 \<le> w" "w < (if isleap y then 366 else 365)" "1970 \<le> y" using days D by auto
  have v: "0 \<le> v" "v < 365" using w by (auto simp: v_def late_def split: if_splits)
  have S: "0 \<le> t smod 86400" "t smod 86400 < 86400" using trunc_pos [of t 86400] t by auto
  then have q: "0 \<le> t smod 86400 sdiv 60" "t smod 86400 sdiv 60 < 1440" by (auto simp: trunc_nonneg)
  show "0 \<le> tm_sec g" "tm_sec g < 60" using S trunc_pos [of "t smod 86400" 60] by (auto simp: f)
  show "0 \<le> tm_min g" "tm_min g < 60" using q trunc_pos [of "t smod 86400 sdiv 60" 60] by (auto simp: f)
  show "0 \<le> tm_hour g" "tm_hour g < 24" using q by (auto simp: f trunc_nonneg)
  have l: "w = 59 \<Longrightarrow> late \<Longrightarrow> v - spm ! month_loop 11 v = 27"
    by (simp add: v_def spm_def numeral_eq_Suc)
  show "1 \<le> tm_mday g" "tm_mday g \<le> 31" using month_day [OF v] l by (auto simp: f)
  show "0 \<le> tm_mon g" "tm_mon g < 12" using month_loop_le [of 11 v] by (auto simp: f)
  show "70 \<le> tm_year g" using w by (simp add: f)
  show "tm_year g < 140" using days D by (auto simp: f)
  show "0 \<le> tm_wday g" "tm_wday g < 7" using D trunc_pos [of "4 + D" 7] by (auto simp: f)
  show "0 \<le> tm_yday g" "tm_yday g < 366" using w by (auto simp: f split: if_splits)
qed

lemma two_digits:
  assumes "0 \<le> i" "i < 100"
  shows "0 \<notin> set (num2str i)"
proof -
  have z: "(of_int k :: u8) \<noteq> 0" if "48 \<le> k" "k < 58" for k
  proof -
    have "uint (of_int k :: u8) = k" using that by (simp add: uint_word_of_int)
    then show ?thesis using that by auto
  qed
  have "0 \<le> i sdiv 10" "i sdiv 10 < 10" "0 \<le> i smod 10" "i smod 10 < 10" using assms by (auto simp: trunc_nonneg)
  then show ?thesis using z [of "i sdiv 10 + 48"] z [of "i smod 10 + 48"] by (simp add: num2str_def)
qed

lemma char4_in:
  assumes "0 \<notin> set xs" "length xs = 4 * n" "0 \<le> k" "k < int n"
  shows "\<exists>s. char4 (xs @ [0]) k = Some s \<and> length s = 4 \<and> 0 \<notin> set s"
proof -
  have "4 * nat k + 4 \<le> length xs" using assms by auto
  then show ?thesis
    using assms by (auto simp: char4_def seg_def dest!: in_set_takeD in_set_dropD)
qed

lemma char4_days: "0 \<le> k \<Longrightarrow> k < 7 \<Longrightarrow> \<exists>s. char4 days k = Some s \<and> length s = 4 \<and> 0 \<notin> set s"
  unfolding days_def by (rule char4_in [where n = 7]) simp_all

lemma char4_months: "0 \<le> k \<Longrightarrow> k < 12 \<Longrightarrow> \<exists>s. char4 months k = Some s \<and> length s = 4 \<and> 0 \<notin> set s"
  unfolding months_def by (rule char4_in [where n = 12]) simp_all

section \<open>Properties\<close>

text \<open>C19: for every time of 32 bits, before 1970 too, \<open>timegm\<close> and \<open>mktime\<close> invert \<open>gmtime_r\<close> without
  overflow, and leave the fields as \<open>gmtime_r\<close> set them.\<close>
theorem timegm_gmtime_r:
  assumes "- 2147483648 \<le> t" "t < 2147483648"
  shows "timegm (gmtime_r t r) = Some (t, gmtime_r t r) \<and> mktime (gmtime_r t r) = Some (t, gmtime_r t r)"
proof -
  define D where "D = t sdiv 86400"
  obtain y w where yw: "year_loop 1970 D = (y, w)" by fastforce
  define late v where "late \<longleftrightarrow> isleap y \<and> w > 58" and "v = (if late then w - 1 else w)"
  define k where "k = month_loop 11 v"
  let ?g = "gmtime_r t r"
  note f = gmtime_fields [OF yw [unfolded D_def], folded D_def late_def, folded v_def, folded k_def]
  note days = year_loop_days [OF yw]
  have sg: "(0 \<le> D \<and> 0 \<le> tm_hour ?g \<and> 0 \<le> tm_min ?g \<and> 0 \<le> tm_sec ?g) \<or>
      (D \<le> 0 \<and> tm_hour ?g \<le> 0 \<and> tm_min ?g \<le> 0 \<and> tm_sec ?g \<le> 0)"
    using hms_signs [of t] unfolding f D_def by (cases "0 \<le> t") auto
  have t: "t = ((D * 24 + tm_hour ?g) * 60 + tm_min ?g) * 60 + tm_sec ?g"
    using hms_compose [of t] unfolding f D_def .
  have Db: "- 24856 < D" "D < 24856" using assms t sg by auto
  note sb = seconds_bounds [OF t assms sg]
  have y: "1970 \<le> y" "y < 30000" "- 24856 < w" "w < 366" using days Db by (auto split: if_splits)
  have m: "k \<le> 11" unfolding k_def by (rule month_loop_le)
  have s: "spm_at (int k) = Some (spm ! k)" using m by (simp add: spm_at_def)
  have yd: "spm ! k + tm_mday ?g - 1 + (if isleap y \<and> int k > 1 then 1 else 0) = w"
    using year_day [OF yw] unfolding f k_def v_def late_def .
  have vb: "- 24857 < v" "v < 366" using y by (auto simp: v_def)
  have i: "i32 (spm ! k + tm_mday ?g) = Some (spm ! k + tm_mday ?g)"
    "i32 (spm ! k + tm_mday ?g - 1) = Some (spm ! k + tm_mday ?g - 1)" "i32 w = Some w" "i32 y = Some y"
    "i32 (D + 4) = Some (D + 4)" using y vb Db unfolding f by (auto intro!: i32_Some)
  have dl: "day_loop 70 (y - 1900) w = Some D"
  proof (cases "0 \<le> D")
    case True
    then have "day_loop (1970 - 1900) (y - 1900) w = Some (w + (D - w))" using days Db by auto
    then show ?thesis by simp
  next
    case False
    then show ?thesis using days by (simp add: day_loop.simps)
  qed
  have id: "?g\<lparr>tm_yday := w\<rparr> = ?g" "?g\<lparr>tm_wday := (D + 4) smod 7\<rparr> = ?g"
    using tm_fields_id [of ?g] by (simp_all only: f(4,6) add.commute)
  have y70: "\<not> y - 1900 < 70" using y(1) by simp
  have "timegm ?g = Some (t, ?g)"
    unfolding timegm_def f(5,7) s if_not_P [OF y70] Option.bind.bind_lunit diff_add_cancel i yd Let_def id f(5,7) dl sb
    unfolding t [symmetric] ..
  then show ?thesis by (simp add: mktime_def)
qed


lemma timegm_gmtime_r_witness:
  "\<forall>r. timegm (gmtime_r (- 86401) r) = Some (- 86401, gmtime_r (- 86401) r) \<and>
    mktime (gmtime_r (- 86401) r) = Some (- 86401, gmtime_r (- 86401) r)"
  using timegm_gmtime_r [of "- 86401"] by simp

text \<open>For every time from 1970 on, \<open>asctime_r\<close> of the fields \<open>gmtime_r\<close> sets reads its tables in range and
  stores exactly 25 characters, the last a newline; no NUL follows, so the buffer holds a string only if the
  caller's next byte happens to be 0.\<close>
lemma asctime_r_gmtime_r:
  assumes "0 \<le> t" "t < 2147483648" "buf + 25 < length m"
  shows "\<exists>s. asctime_r (gmtime_r t r) m buf = Some (patch buf (s @ [10]) m) \<and> length s = 24 \<and> 0 \<notin> set s \<and>
    (cstr (patch buf (s @ [10]) m) buf (s @ [10]) \<longleftrightarrow> m ! (buf + 25) = 0)"
proof -
  let ?g = "gmtime_r t r"
  note g = gmtime_ranges [OF assms(1,2), of r]
  obtain d where d: "char4 days (tm_wday ?g) = Some d" "length d = 4" "0 \<notin> set d"
    using char4_days g by blast
  obtain mo where mo: "char4 months (tm_mon ?g) = Some mo" "length mo = 4" "0 \<notin> set mo"
    using char4_months g by blast
  define n where "n = (let n = num2str (tm_mday ?g) in if n ! 0 = 48 then n[0 := 32] else n)"
  define y where "y = tm_year ?g + 1900"
  have y: "1970 \<le> y" "y < 2040" "i32 (tm_year ?g + 1900) = Some y" using g by (auto simp: y_def i32_def)
  have yy: "0 \<le> y sdiv 100" "y sdiv 100 < 100" "0 \<le> y smod 100" "y smod 100 < 100"
    using y by (auto simp: trunc_nonneg)
  have n: "length n = 2" "0 \<notin> set n"
    using two_digits [of "tm_mday ?g"] g by (auto simp: n_def Let_def num2str_def)
  define s where "s = d @ mo @ n @ [32] @ num2str (tm_hour ?g) @ [58] @ num2str (tm_min ?g) @ [58] @
    num2str (tm_sec ?g) @ [32] @ num2str (y sdiv 100) @ num2str (y smod 100)"
  have s: "asctime_text ?g = Some (s @ [10])"
    by (simp add: asctime_text_def d(1) mo(1) y(3) s_def n_def Let_def)
  have l: "length s = 24" by (simp add: s_def d(2) mo(2) n(1) num2str_def)
  have z: "0 \<notin> set s"
    using two_digits [of "tm_hour ?g"] two_digits [of "tm_min ?g"] two_digits [of "tm_sec ?g"]
      two_digits [OF yy(1,2)] two_digits [OF yy(3,4)] g
    by (simp add: s_def d(3) mo(3) n(2))
  have fit: "buf + length (s @ [10]) \<le> length m" using l assms(3) by simp
  have "cstr (patch buf (s @ [10]) m) buf (s @ [10]) \<longleftrightarrow> bytes (patch buf (s @ [10]) m) (buf + length (s @ [10])) [0]"
    using z bytes_patch_self [OF fit] by (simp add: cstr_iff)
  also have "\<dots> \<longleftrightarrow> m ! (buf + 25) = 0"
    using assms(3) l fit by (simp add: load_def length_patch nth_patch)
  finally show ?thesis using fit l z s by (intro exI [of _ s]) (simp add: asctime_r_def)
qed

lemma asctime_r_gmtime_r_witness:
  "\<forall>r. \<exists>s. asctime_r (gmtime_r 0 r) (replicate 30 7) 2 = Some (patch 2 (s @ [10]) (replicate 30 7)) \<and>
    length s = 24 \<and> \<not> cstr (patch 2 (s @ [10]) (replicate 30 7)) 2 (s @ [10])"
proof
  fix r
  show "\<exists>s. asctime_r (gmtime_r 0 r) (replicate 30 7) 2 = Some (patch 2 (s @ [10]) (replicate 30 7)) \<and>
      length s = 24 \<and> \<not> cstr (patch 2 (s @ [10]) (replicate 30 7)) 2 (s @ [10])"
    using asctime_r_gmtime_r [of 0 2 "replicate 30 7" r] by auto
qed

end
