(* ===== verification/Timefmt.thy ===== *)
theory Timefmt
  imports Time Ctype
begin

text \<open>
  Formatting and reading broken-down time (\<open>src/lib/c/libugly/strftime.c\<close>, \<open>strptime.c\<close>). The time
  zone name \<open>tzname[0]\<close>, which \<open>tzset\<close> reads from a file, is the parameter \<open>tz\<close>. Formats and the text \<open>strptime\<close> reads are lists of bytes without
  the final NUL; a read beyond that NUL is undefined (\<open>None\<close>). A conversion whose expansion is another format calls
  the function again; those formats contain no such conversion, so a depth of 1 is enough.
\<close>

section \<open>strftime\<close>

abbreviation asc :: "char \<Rightarrow> u8" where
  "asc \<equiv> of_char"

definition weekdays :: "u8 list list" where
  "weekdays = map lit [''Sunday'', ''Monday'', ''Tuesday'', ''Wednesday'', ''Thursday'', ''Friday'', ''Saturday'']"

definition month_names :: "u8 list list" where
  "month_names = map lit [''January'', ''February'', ''March'', ''April'', ''May'', ''June'', ''July'', ''August'',
     ''September'', ''October'', ''November'', ''December'']"

definition row :: "'a list \<Rightarrow> int \<Rightarrow> 'a option" where
  "row xs k = (if 0 \<le> k \<and> k < int (length xs) then Some (xs ! nat k) else None)"

text \<open>\<open>i2a\<close> stores two characters and a NUL.\<close>

definition i2a2 :: "u32 \<Rightarrow> u8 list" where
  "i2a2 x = [ucast (x div 10 + 48), ucast (x mod 10 + 48)]"

text \<open>What a conversion does: store one character, format again, append a string.\<close>

datatype action = Skip | Put u8 | Sub "u8 list" | Str "u8 list"

definition no :: "int \<Rightarrow> action" where
  "no k = Str (i2a2 (of_int k))"

definition nos :: "int \<Rightarrow> action" where
  "nos k = (let b = i2a2 (of_int k) in Str (if b ! 0 = 48 then b[0 := 32] else b))"

text \<open>\<open>None\<close> for a table access out of range or an overflow.\<close>

definition conversions :: "u8 list \<Rightarrow> tm \<Rightarrow> (u8 \<times> action option) list" where
  "conversions tz tm = [
    (asc CHR ''n'', Some (Put 10)),
    (asc CHR ''t'', Some (Put 9)),
    (asc CHR ''c'', Some (Sub (lit ''%b %a %d %k:%M:%S %Z %Y''))),
    (asc CHR ''r'', Some (Sub (lit ''%I:%M:%S %p''))),
    (asc CHR ''R'', Some (Sub (lit ''%H:%M''))),
    (asc CHR ''x'', Some (Sub (lit ''%b %a %d''))),
    (asc CHR ''X'', Some (Sub (lit ''%k:%M:%S''))),
    (asc CHR ''D'', Some (Sub (lit ''%m/%d/%y''))),
    (asc CHR ''T'', Some (Sub (lit ''%H:%M:%S''))),
    (asc CHR ''a'', map_option (Str \<circ> take 3) (row weekdays (tm_wday tm))),
    (asc CHR ''A'', map_option Str (row weekdays (tm_wday tm))),
    (asc CHR ''h'', map_option (Str \<circ> take 3) (row month_names (tm_mon tm))),
    (asc CHR ''b'', map_option (Str \<circ> take 3) (row month_names (tm_mon tm))),
    (asc CHR ''B'', map_option Str (row month_names (tm_mon tm))),
    (asc CHR ''p'', Some (Str (lit (if tm_hour tm > 12 then ''PM'' else ''AM'')))),
    (asc CHR ''P'', Some (Str (lit (if tm_hour tm > 12 then ''pm'' else ''am'')))),
    (asc CHR ''C'', Some (no (tm_year tm sdiv 100 + 19))),
    (asc CHR ''d'', Some (no (tm_mday tm))),
    (asc CHR ''e'', Some (nos (tm_mday tm))),
    (asc CHR ''H'', Some (no (tm_hour tm))),
    (asc CHR ''I'', Some (no (tm_hour tm smod 12))),
    (asc CHR ''j'', Some (no (tm_yday tm))),
    (asc CHR ''k'', Some (nos (tm_hour tm))),
    (asc CHR ''l'', Some (nos (tm_hour tm smod 12))),
    (asc CHR ''m'', map_option no (i32 (tm_mon tm + 1))),
    (asc CHR ''M'', Some (no (tm_min tm))),
    (asc CHR ''S'', Some (no (tm_sec tm))),
    (asc CHR ''u'', Some (no (if tm_wday tm \<noteq> 0 then tm_wday tm else 7))),
    (asc CHR ''w'', Some (no (tm_wday tm))),
    (asc CHR ''U'', do { k \<leftarrow> i32 (tm_yday tm - tm_wday tm); k \<leftarrow> i32 (k + 7); Some (no (k sdiv 7)) }),
    (asc CHR ''W'', do { k \<leftarrow> i32 (tm_wday tm - 1); k \<leftarrow> i32 (k + 7); k \<leftarrow> i32 (tm_yday tm - k smod 7); k \<leftarrow> i32 (k + 7);
        Some (no (k sdiv 7)) }),
    (asc CHR ''Z'', Some (Str tz)),
    (asc CHR ''Y'', Some (Str (i2a2 (of_int (tm_year tm sdiv 100 + 19)) @ i2a2 (of_int (tm_year tm smod 100))))),
    (asc CHR ''y'', Some (no (tm_year tm smod 100)))]"

lemma dropWhile_shorter: "dropWhile P f = x # g \<Longrightarrow> length g < length f"
  by (metis length_Cons length_dropWhile_le not_less not_less_eq_eq order_refl)

text \<open>The conversion at \<open>c # f\<close> and the format after it. \<open>None\<close> if the format ends inside a conversion.\<close>

definition conversion :: "u8 list \<Rightarrow> tm \<Rightarrow> u8 \<Rightarrow> u8 list \<Rightarrow> (action option \<times> u8 list) option" where
  "conversion tz tm c f =
     (if c \<noteq> 37 then Some (Some (Put c), f)
      else if f \<noteq> [] \<and> hd f = 37 then Some (Some (Put 37), tl f)
      else case dropWhile (\<lambda>x. x = asc CHR ''O'' \<or> x = asc CHR ''E'') f of
          [] \<Rightarrow> None
        | x # f \<Rightarrow> Some (case map_of (conversions tz tm) x of None \<Rightarrow> Some Skip | Some a \<Rightarrow> a, f))"

lemma conversion_shorter: "conversion tz tm c f = Some (a, g) \<Longrightarrow> length g \<le> length f"
  by (auto simp: conversion_def split: if_splits list.splits dest!: dropWhile_shorter)

text \<open>What the conversion stores in \<open>n\<close> free bytes; \<open>sub\<close> formats again.\<close>

definition emit :: "(nat \<Rightarrow> u8 list \<Rightarrow> u8 list option) \<Rightarrow> nat \<Rightarrow> action option \<Rightarrow> u8 list option" where
  "emit sub n a =
     (case a of
        None \<Rightarrow> None
      | Some Skip \<Rightarrow> Some []
      | Some (Put y) \<Rightarrow> Some [y]
      | Some (Str s) \<Rightarrow> Some (take n (takeWhile (\<lambda>y. y \<noteq> 0) s))
      | Some (Sub h) \<Rightarrow> sub n h)"

text \<open>The loop over the format. \<open>out\<close> is what has been stored from \<open>dst\<close> on, and \<open>siz\<close> the size of the buffer.
  After a format that ends inside a conversion, the loop reads beyond its NUL unless the buffer is full.\<close>

function strftime_loop :: "u8 list \<Rightarrow> (nat \<Rightarrow> u8 list \<Rightarrow> u8 list option) \<Rightarrow> nat \<Rightarrow> tm \<Rightarrow> u8 list \<Rightarrow> u8 list \<Rightarrow> u8 list option" where
  "strftime_loop tz sub siz tm [] out = Some out"
| "strftime_loop tz sub siz tm (c # f) out =
     (case conversion tz tm c f of
        None \<Rightarrow> (if length out \<ge> siz then Some out else None)
      | Some (a, g) \<Rightarrow>
          (case emit sub (siz - length out) a of
             None \<Rightarrow> None
           | Some s \<Rightarrow>
               if length (out @ s) \<ge> siz then Some (out @ s) else strftime_loop tz sub siz tm g (out @ s)))"
  by pat_completeness auto
termination
  by (relation "measure (\<lambda>(tz, sub, siz, tm, f, out). length f)") (auto simp: less_Suc_eq_le dest: conversion_shorter)

text \<open>The text for a format, with calls nested at most \<open>d\<close> deep.\<close>

primrec strftime_text :: "nat \<Rightarrow> u8 list \<Rightarrow> tm \<Rightarrow> nat \<Rightarrow> u8 list \<Rightarrow> u8 list option" where
  "strftime_text 0 tz tm siz f = strftime_loop tz (\<lambda>n h. None) siz tm f []"
| "strftime_text (Suc d) tz tm siz f = strftime_loop tz (strftime_text d tz tm) siz tm f []"

text \<open>The number of characters and the memory after it.\<close>

definition strftime :: "u8 list \<Rightarrow> ram \<Rightarrow> addr \<Rightarrow> nat \<Rightarrow> u8 list \<Rightarrow> tm \<Rightarrow> (nat \<times> ram) option" where
  "strftime tz m dst siz format tm = do {
     out \<leftarrow> strftime_text 1 tz tm siz format;
     if dst + length (out @ [0]) \<le> length m then Some (length out, patch dst (out @ [0]) m) else None
   }"

section \<open>strptime\<close>

text \<open>The character at position \<open>p\<close> of the text.\<close>

definition peek :: "u8 list \<Rightarrow> nat \<Rightarrow> u8 option" where
  "peek s p = (if p < length s then Some (s ! p) else if p = length s then Some 0 else None)"

text \<open>The digits left to read, whether none has been read, and the last digit. The result and the new position.\<close>

primrec getint_loop :: "u8 list \<Rightarrow> nat \<Rightarrow> bool \<Rightarrow> int \<Rightarrow> nat \<Rightarrow> (int \<times> nat) option" where
  "getint_loop s 0 first i p = Some (i, p)"
| "getint_loop s (Suc n) first i p = do {
     c \<leftarrow> peek s p;
     if \<not> isdigit (scast c) then Some (if first then - 1 else i, p)
     else getint_loop s n False (sint c - 48) (Suc p)
   }"

definition getint :: "u8 list \<Rightarrow> nat \<Rightarrow> nat \<Rightarrow> (int \<times> nat) option" where
  "getint s p n = getint_loop s n True 0 p"

definition skip_blanks :: "u8 list \<Rightarrow> nat \<Rightarrow> nat option" where
  "skip_blanks s p = (if p \<le> length s then Some (p + length (takeWhile (\<lambda>c. isblank (scast c)) (drop p s))) else None)"

text \<open>\<open>strncasecmp\<close> of the text at \<open>p\<close> with a literal, both laid out in memory.\<close>

definition casecmp_at :: "u8 list \<Rightarrow> nat \<Rightarrow> u8 list \<Rightarrow> nat \<Rightarrow> int option" where
  "casecmp_at s p l n = (if p \<le> length s then strncasecmp (drop p s @ [0] @ l @ [0]) 0 (Suc (length s - p)) n else None)"

text \<open>The month at \<open>p\<close> and the length of its name, or of its abbreviation; 12 and 0 if there is none.\<close>

primrec find_month :: "u8 list \<Rightarrow> nat \<Rightarrow> u8 list list \<Rightarrow> nat \<Rightarrow> (nat \<times> nat) option" where
  "find_month s p [] i = Some (i, 0)"
| "find_month s p (l # ls) i = do {
     r \<leftarrow> casecmp_at s p l (length l);
     if r = 0 then Some (i, length l)
     else do {
       r \<leftarrow> casecmp_at s p l 3;
       if r = 0 then Some (i, 3) else find_month s p ls (Suc i)
     }
   }"

text \<open>The result of a directive: return, or go on, at a position with the fields so far.\<close>

datatype reading = Stop nat tm | Go nat tm

definition number_field :: "u8 list \<Rightarrow> nat \<Rightarrow> nat \<Rightarrow> (int \<Rightarrow> bool) \<Rightarrow> (int \<Rightarrow> tm) \<Rightarrow> tm \<Rightarrow> reading option" where
  "number_field s p n bad upd t = do {
     (i, p) \<leftarrow> getint s p n;
     Some (if i = - 1 \<or> bad i then Stop p t else Go p (upd i))
   }"

definition skip_alpha :: "u8 list \<Rightarrow> nat \<Rightarrow> nat option" where
  "skip_alpha s p = do { c \<leftarrow> peek s p; Some (if isalpha (scast c) then Suc p else p) }"

text \<open>The formats some directives stand for.\<close>

definition sub_formats :: "(u8 \<times> u8 list) list" where
  "sub_formats = [
    (asc CHR ''c'', lit ''%b %a %d %k:%M:%S %Z %Y''),
    (asc CHR ''D'', lit ''%m/%d/%y''),
    (asc CHR ''r'', lit ''%I:%M:%S %p''),
    (asc CHR ''R'', lit ''%H:%M''),
    (asc CHR ''T'', lit ''%H:%M:%S''),
    (asc CHR ''x'', lit ''%b %a %d''),
    (asc CHR ''X'', lit ''%k:%M:%S'')]"

definition directive :: "u8 \<Rightarrow> u8 list \<Rightarrow> nat \<Rightarrow> tm \<Rightarrow> reading option" where
  "directive c s p t =
     (if c = 37 then do { x \<leftarrow> peek s p; Some (if x = 37 then Go (p + 1) t else Stop p t) }
      else if c = asc CHR ''a'' \<or> c = asc CHR ''A'' then do {
        p \<leftarrow> skip_alpha s p; p \<leftarrow> skip_alpha s p; p \<leftarrow> skip_alpha s p; Some (Go p t) }
      else if c = asc CHR ''b'' \<or> c = asc CHR ''B'' \<or> c = asc CHR ''h'' then do {
        (i, j) \<leftarrow> find_month s p month_names 0;
        Some (if j = 0 then Stop p t else Go (p + j) (t\<lparr>tm_mon := int i\<rparr>)) }
      else if c = asc CHR ''C'' then
        number_field s p 2 (\<lambda>i. False) (\<lambda>i. t\<lparr>tm_year := tm_year t smod 100 + i * 100\<rparr>) t
      else if c = asc CHR ''d'' \<or> c = asc CHR ''e'' then
        number_field s p 2 (\<lambda>i. i > 31) (\<lambda>i. t\<lparr>tm_mday := i\<rparr>) t
      else if c = asc CHR ''H'' \<or> c = asc CHR ''k'' then
        number_field s p 2 (\<lambda>i. i > 23) (\<lambda>i. t\<lparr>tm_hour := i\<rparr>) t
      else if c = asc CHR ''I'' \<or> c = asc CHR ''l'' then
        number_field s p 2 (\<lambda>i. i > 12) (\<lambda>i. t\<lparr>tm_hour := tm_hour t sdiv 12 * 12 + i\<rparr>) t
      else if c = asc CHR ''j'' then do { (i, p) \<leftarrow> getint s p 3; Some (Go p t) }
      else if c = asc CHR ''m'' then
        number_field s p 2 (\<lambda>i. i > 12) (\<lambda>i. t\<lparr>tm_mon := i\<rparr>) t
      else if c = asc CHR ''M'' then
        number_field s p 2 (\<lambda>i. i > 59) (\<lambda>i. t\<lparr>tm_min := i\<rparr>) t
      else if c = asc CHR ''n'' \<or> c = asc CHR ''t'' then do { p \<leftarrow> skip_blanks s p; Some (Go p t) }
      else if c = asc CHR ''p'' \<or> c = asc CHR ''P'' then do {
        x \<leftarrow> peek s p;
        Some (Go (p + 2) (if x = 112 \<or> x = 80 then t\<lparr>tm_hour := tm_hour t smod 12 + 12\<rparr> else t)) }
      else if c = asc CHR ''S'' then
        number_field s p 2 (\<lambda>i. i > 60) (\<lambda>i. t\<lparr>tm_sec := i\<rparr>) t
      else if c = asc CHR ''U'' \<or> c = asc CHR ''W'' then
        number_field s p 2 (\<lambda>i. False) (\<lambda>i. t) t
      else if c = asc CHR ''w'' then do {
        x \<leftarrow> peek s p; Some (if sint x < 48 \<or> sint x > 54 then Stop p t else Go (p + 1) t) }
      else if c = asc CHR ''y'' then
        number_field s p 2 (\<lambda>i. False) (\<lambda>i. t\<lparr>tm_year := tm_year t sdiv 100 * 100 + i\<rparr>) t
      else if c = asc CHR ''Y'' then
        number_field s p 5 (\<lambda>i. False) (\<lambda>i. t\<lparr>tm_year := i\<rparr>) t
      else Some (Go p t))"

text \<open>The loop over the format; \<open>sub\<close> reads the formats some directives stand for.\<close>

fun strptime_loop ::
  "(u8 list \<Rightarrow> nat \<Rightarrow> tm \<Rightarrow> (nat \<times> tm) option) \<Rightarrow> u8 list \<Rightarrow> u8 list \<Rightarrow> nat \<Rightarrow> tm \<Rightarrow> (nat \<times> tm) option" where
  "strptime_loop sub s [] p t = Some (p, t)"
| "strptime_loop sub s [c] p t =
     (if c = 32 \<or> c = 9 then do { p \<leftarrow> skip_blanks s p; Some (p, t) }
      else if c = 37 then None
      else do { x \<leftarrow> peek s p; Some (if x \<noteq> c then p else p + 1, t) })"
| "strptime_loop sub s (c # d # f) p t =
     (if c = 32 \<or> c = 9 then do { p \<leftarrow> skip_blanks s p; strptime_loop sub s (d # f) p t }
      else if c = 37 then
        (case map_of sub_formats d of
           Some h \<Rightarrow> do { (p, t) \<leftarrow> sub h p t; strptime_loop sub s f p t }
         | None \<Rightarrow> do {
             r \<leftarrow> directive d s p t;
             case r of Stop p t \<Rightarrow> Some (p, t) | Go p t \<Rightarrow> strptime_loop sub s f p t
           })
      else do { x \<leftarrow> peek s p; if x \<noteq> c then Some (p, t) else strptime_loop sub s (d # f) (p + 1) t })"

primrec strptime_at :: "nat \<Rightarrow> u8 list \<Rightarrow> u8 list \<Rightarrow> nat \<Rightarrow> tm \<Rightarrow> (nat \<times> tm) option" where
  "strptime_at 0 s f p t = strptime_loop (\<lambda>h p t. None) s f p t"
| "strptime_at (Suc d) s f p t = strptime_loop (strptime_at d s) s f p t"

text \<open>The returned position in \<open>s\<close>.\<close>

definition strptime :: "u8 list \<Rightarrow> u8 list \<Rightarrow> tm \<Rightarrow> (nat \<times> tm) option" where
  "strptime s format t = strptime_at 1 s format 0 t"

section \<open>Formats\<close>

text \<open>A format that does not end inside a conversion and whose conversions satisfy \<open>P\<close>.\<close>

function fmt_ok :: "(u8 \<Rightarrow> bool) \<Rightarrow> u8 list \<Rightarrow> bool" where
  "fmt_ok P [] \<longleftrightarrow> True"
| "fmt_ok P (c # f) \<longleftrightarrow>
     (if c \<noteq> 37 then fmt_ok P f
      else if f \<noteq> [] \<and> hd f = 37 then fmt_ok P (tl f)
      else case dropWhile (\<lambda>x. x = asc CHR ''O'' \<or> x = asc CHR ''E'') f of
          [] \<Rightarrow> False
        | x # g \<Rightarrow> P x \<and> fmt_ok P g)"
  by pat_completeness auto
termination
  by (relation "measure (\<lambda>(P, f). length f)") (auto dest!: dropWhile_shorter)

abbreviation flat :: "u8 \<Rightarrow> bool" where
  "flat x \<equiv> x \<notin> set (lit ''crRxXDT'')"

definition fields_ok :: "tm \<Rightarrow> bool" where
  "fields_ok t \<longleftrightarrow> 0 \<le> tm_wday t \<and> tm_wday t < 7 \<and> 0 \<le> tm_mon t \<and> tm_mon t < 12 \<and> 0 \<le> tm_yday t \<and> tm_yday t < 366"

lemma row_in: "0 \<le> k \<Longrightarrow> k < int (length xs) \<Longrightarrow> \<exists>x. row xs k = Some x"
  by (simp add: row_def)

text \<open>What the entries of the table are.\<close>

lemma conversion_action:
  assumes "fields_ok t" "(x, a) \<in> set (conversions tz t)"
  shows "(\<exists>s. a = Some (Str s)) \<or> (\<exists>y. a = Some (Put y) \<and> y \<noteq> 0) \<or>
    (\<exists>h. a = Some (Sub h) \<and> \<not> flat x \<and> fmt_ok flat h \<and> 0 \<notin> set h)"
proof -
  have r: "\<exists>s. row weekdays (tm_wday t) = Some s" "\<exists>s. row month_names (tm_mon t) = Some s"
    using assms(1) by (auto intro!: row_in simp: fields_ok_def weekdays_def month_names_def)
  have u: "\<exists>s. i32 (tm_mon t + 1) = Some s" "\<exists>k. i32 (tm_yday t - tm_wday t) = Some k \<and> (\<exists>l. i32 (k + 7) = Some l)"
    using assms(1) by (auto simp: i32_def fields_ok_def)
  have w: "i32 (tm_wday t - 1) = Some (tm_wday t - 1)" "i32 (tm_wday t - 1 + 7) = Some (tm_wday t + 6)"
    "\<exists>k. i32 (tm_yday t - (tm_wday t + 6) smod 7) = Some k \<and> (\<exists>l. i32 (k + 7) = Some l)"
    using assms(1) trunc_pos [of "tm_wday t + 6" 7] by (auto simp: i32_def fields_ok_def)
  show ?thesis
    using assms(2) r u w unfolding conversions_def by (auto simp: no_def nos_def Let_def)
qed

text \<open>Conversions that satisfy \<open>P\<close> store at most the free bytes, and no NUL.\<close>

definition emits_ok :: "u8 list \<Rightarrow> (nat \<Rightarrow> u8 list \<Rightarrow> u8 list option) \<Rightarrow> (u8 \<Rightarrow> bool) \<Rightarrow> tm \<Rightarrow> bool" where
  "emits_ok tz sub P t \<longleftrightarrow> (\<forall>x a n. P x \<longrightarrow> map_of (conversions tz t) x = Some a \<longrightarrow> 0 < n \<longrightarrow>
     (\<exists>s. emit sub n a = Some s \<and> length s \<le> n \<and> 0 \<notin> set s))"

lemma emit_Str: "\<exists>s. emit sub n (Some (Str l)) = Some s \<and> length s \<le> n \<and> 0 \<notin> set s"
  by (auto simp: emit_def dest!: in_set_takeD dest: set_takeWhileD)

lemma loop_ok:
  assumes "emits_ok tz sub P t" "fmt_ok P f" "0 \<notin> set f" "length out < n" "0 \<notin> set out"
  shows "\<exists>r. strftime_loop tz sub n t f out = Some r \<and> length r \<le> n \<and> 0 \<notin> set r"
  using assms
proof (induction tz sub n t f out rule: strftime_loop.induct)
  case (2 tz sub n t c f out)
  have "\<exists>a g s. conversion tz t c f = Some (a, g) \<and> emit sub (n - length out) a = Some s \<and> length s \<le> n - length out \<and>
      0 \<notin> set s \<and> fmt_ok P g \<and> 0 \<notin> set g"
  proof (cases "c = 37 \<and> \<not> (f \<noteq> [] \<and> hd f = 37)")
    case False
    then show ?thesis using "2.prems" by (auto simp: conversion_def emit_def dest: list.set_sel(2))
  next
    case True
    then obtain x g where g: "dropWhile (\<lambda>x. x = asc CHR ''O'' \<or> x = asc CHR ''E'') f = x # g" "P x" "fmt_ok P g"
      using "2.prems"(2) by (auto split: list.splits)
    then have "set g \<subseteq> set f" by (metis set_dropWhileD set_subset_Cons subset_iff)
    then have z: "0 \<notin> set g" using "2.prems"(3) by auto
    show ?thesis
    proof (cases "map_of (conversions tz t) x")
      case None
      then show ?thesis using True g z by (auto simp: conversion_def emit_def)
    next
      case (Some a)
      then have "\<exists>s. emit sub (n - length out) a = Some s \<and> length s \<le> n - length out \<and> 0 \<notin> set s"
        using "2.prems"(1,4) g(2) by (simp add: emits_ok_def)
      then show ?thesis using True g z Some by (auto simp: conversion_def)
    qed
  qed
  then obtain a g s where c: "conversion tz t c f = Some (a, g)" "emit sub (n - length out) a = Some s"
    "length s \<le> n - length out" "0 \<notin> set s" "fmt_ok P g" "0 \<notin> set g" by blast
  show ?case
  proof (cases "n \<le> length (out @ s)")
    case True
    then show ?thesis using c "2.prems" by auto
  next
    case False
    then show ?thesis using "2.IH" [OF c(1) refl c(2) False "2.prems"(1) c(5,6)] c(1,2,4) "2.prems" by auto
  qed
qed auto

lemma emits_flat:
  assumes "fields_ok t"
  shows "emits_ok tz (\<lambda>n h. None) flat t"
  unfolding emits_ok_def
proof (intro allI impI)
  fix x a n assume a: "flat x" "map_of (conversions tz t) x = Some a" "0 < (n :: nat)"
  then show "\<exists>s. emit (\<lambda>n h. None) n a = Some s \<and> length s \<le> n \<and> 0 \<notin> set s"
    using conversion_action [OF assms map_of_SomeD [OF a(2)]] emit_Str
    by (elim disjE exE) (auto simp: emit_def)
qed

lemma emits_all:
  assumes "fields_ok t"
  shows "emits_ok tz (strftime_text 0 tz t) (\<lambda>x. True) t"
  unfolding emits_ok_def
proof (intro allI impI)
  fix x a n assume a: "map_of (conversions tz t) x = Some a" "0 < (n :: nat)"
  then show "\<exists>s. emit (strftime_text 0 tz t) n a = Some s \<and> length s \<le> n \<and> 0 \<notin> set s"
    using conversion_action [OF assms map_of_SomeD [OF a(1)]] emit_Str loop_ok [OF emits_flat [OF assms]]
    by (elim disjE exE) (auto simp: emit_def)
qed

section \<open>Two digits\<close>

definition dig :: "int \<Rightarrow> u8" where
  "dig d = word_of_int (d + 48)"

lemma digit_cases:
  assumes "0 \<le> d" "d < (10 :: int)"
  shows "d \<in> set [0, 1, 2, 3, 4, 5, 6, 7, 8, 9]"
  using assms by simp arith

lemma dig_facts:
  assumes "0 \<le> d" "d < 10"
  shows "dig d \<noteq> 0" "isdigit (scast (dig d))" "sint (dig d) - 48 = d" "ucast (word_of_int d + 48 :: u32) = dig d"
  using digit_cases [OF assms] by (auto simp: dig_def isdigit_def)

lemma i2a2_digits:
  assumes "0 \<le> k" "k < 100"
  shows "i2a2 (word_of_int k) = [dig (k div 10), dig (k mod 10)]"
proof -
  have u: "uint (word_of_int k :: u32) = k" using assms by (simp add: uint_word_of_int)
  have d: "0 \<le> k div 10" "k div 10 < 10" using assms by auto
  have "uint (word_of_int k div 10 :: u32) = k div 10" using u by (simp add: uint_div_distrib)
  then have "word_of_int k div (10 :: u32) = word_of_int (k div 10)" by (metis word_of_int_uint)
  moreover have "uint (word_of_int k mod 10 :: u32) = k mod 10" using u by (simp add: uint_mod_distrib)
  then have "word_of_int k mod (10 :: u32) = word_of_int (k mod 10)" by (metis word_of_int_uint)
  ultimately show ?thesis using d by (simp add: i2a2_def dig_facts(4))
qed

text \<open>\<open>getint\<close> keeps only the last digit it reads.\<close>

lemma getint_two:
  assumes "0 \<le> a" "a < 10" "0 \<le> b" "b < 10" "p + 1 < length s" "s ! p = dig a" "s ! Suc p = dig b"
  shows "getint s p 2 = Some (b, p + 2)"
  using assms dig_facts [OF assms(1,2)] dig_facts [OF assms(3,4)]
  by (simp add: getint_def numeral_2_eq_2 peek_def)

section \<open>Properties\<close>

text \<open>For fields in range and a format that does not end inside a conversion, \<open>strftime\<close> with a buffer size
  that is not 0 stores a string of at most that many characters and touches nothing else; the NUL is not counted,
  so that it may be stored right behind the buffer.\<close>
theorem strftime_bounded:
  assumes "fields_ok t" "fmt_ok (\<lambda>x. True) f" "0 \<notin> set f" "0 < n" "dst + n < length m"
  shows "\<exists>s m'. strftime tz m dst n f t = Some (length s, m') \<and> length s \<le> n \<and> cstr m' dst s \<and>
    (\<forall>a. a < dst \<or> dst + n < a \<longrightarrow> a < length m \<longrightarrow> m' ! a = m ! a)"
proof -
  obtain s where s: "strftime_text 1 tz t n f = Some s" "length s \<le> n" "0 \<notin> set s"
    using loop_ok [OF emits_all [OF assms(1)] assms(2,3), of "[]" n] assms(4) by auto
  have fit: "dst + length (s @ [0]) \<le> length m" using s(2) assms(5) by simp
  have "strftime tz m dst n f t = Some (length s, patch dst (s @ [0]) m)" using fit s(1) by (simp add: strftime_def)
  moreover have "\<forall>a. a < dst \<or> dst + n < a \<longrightarrow> a < length m \<longrightarrow> patch dst (s @ [0]) m ! a = m ! a"
    using fit s(2) by (auto simp: nth_patch)
  ultimately show ?thesis using s cstr_patch_self [OF s(3) fit] by blast
qed

lemma strftime_bounded_witness:
  "\<exists>s m'. strftime (lit ''UTC'') (replicate 9 7) 0 5 (lit ''%A%%'') (gmtime_r 0 \<lparr>tm_sec = 0, tm_min = 0, tm_hour = 0, tm_mday = 0,
      tm_mon = 0, tm_year = 0, tm_wday = 0, tm_yday = 0\<rparr>) = Some (length s, m') \<and> length s \<le> 5 \<and> cstr m' 0 s"
proof -
  let ?t = "gmtime_r 0 \<lparr>tm_sec = 0, tm_min = 0, tm_hour = 0, tm_mday = 0,
      tm_mon = 0, tm_year = 0, tm_wday = 0, tm_yday = 0\<rparr>"
  have "fields_ok ?t" using gmtime_ranges [of 0] by (simp add: fields_ok_def)
  moreover have "fmt_ok (\<lambda>x. True) (lit ''%A%%'')" "0 \<notin> set (lit ''%A%%'')" by simp_all
  ultimately show ?thesis using strftime_bounded [of ?t "lit ''%A%%''" 5 0 "replicate 9 7" "lit ''UTC''"] by fastforce
qed

text \<open>The NUL behind a full buffer.\<close>

lemma strftime_nul_outside: "strftime tz [7, 7, 7, 7] 0 2 (lit ''abc'') t = Some (2, [97, 98, 0, 7])"
  by (simp add: strftime_def conversion_def emit_def patch_def)

text \<open>\<open>strptime\<close> accepts the time \<open>strftime\<close> writes for \<open>%T\<close> and consumes all of it, but sets each field to its last
  digit: only a time whose fields are below 10 is read back.\<close>
theorem strptime_strftime_T:
  assumes "0 \<le> tm_hour t" "tm_hour t < 24" "0 \<le> tm_min t" "tm_min t < 60" "0 \<le> tm_sec t" "tm_sec t < 60" "8 < n"
  shows "\<exists>s. strftime_text 1 tz t n (lit ''%T'') = Some s \<and> length s = 8 \<and>
    strptime s (lit ''%T'') u =
      Some (8, u\<lparr>tm_hour := tm_hour t mod 10, tm_min := tm_min t mod 10, tm_sec := tm_sec t mod 10\<rparr>)"
proof -
  let ?h = "tm_hour t" and ?m = "tm_min t" and ?s = "tm_sec t"
  define s where "s = [dig (?h div 10), dig (?h mod 10), 58, dig (?m div 10), dig (?m mod 10), 58,
    dig (?s div 10), dig (?s mod 10)]"
  have d: "0 \<le> k div 10" "k div 10 < 10" "0 \<le> k mod 10" "k mod 10 < 10" "k < 100" if "0 \<le> k" "k < 60" for k :: int
    using that by auto
  have i: "i2a2 (word_of_int k) = [dig (k div 10), dig (k mod 10)]" "dig (k div 10) \<noteq> 0" "dig (k mod 10) \<noteq> 0"
    if "0 \<le> k" "k < 60" for k
    using d [OF that] that by (auto simp: i2a2_digits dig_facts(1))
  have c: "map_of (conversions tz t) 84 = Some (Some (Sub (lit ''%H:%M:%S'')))"
    "map_of (conversions tz t) 72 = Some (Some (no ?h))" "map_of (conversions tz t) 77 = Some (Some (no ?m))"
    "map_of (conversions tz t) 83 = Some (Some (no ?s))"
    by (simp_all add: conversions_def)
  have "strftime_text 1 tz t n (lit ''%T'') = Some s"
    using assms by (simp add: conversion_def emit_def c no_def i s_def)
  moreover have "strptime s (lit ''%T'') u =
      Some (8, u\<lparr>tm_hour := ?h mod 10, tm_min := ?m mod 10, tm_sec := ?s mod 10\<rparr>)"
  proof -
    have h: "0 \<le> ?h" "?h < 60" using assms by simp_all
    have g: "getint s 0 2 = Some (?h mod 10, 2)" "getint s 3 2 = Some (?m mod 10, 5)" "getint s 6 2 = Some (?s mod 10, 8)"
      using getint_two [OF d(1) [OF h] d(2) [OF h] d(3) [OF h] d(4) [OF h], of 0 s]
        getint_two [OF d(1) [OF assms(3,4)] d(2) [OF assms(3,4)] d(3) [OF assms(3,4)] d(4) [OF assms(3,4)], of 3 s]
        getint_two [OF d(1) [OF assms(5,6)] d(2) [OF assms(5,6)] d(3) [OF assms(5,6)] d(4) [OF assms(5,6)], of 6 s]
      by (simp_all add: s_def)
    have b: "\<not> ?h mod 10 > 23" "?h mod 10 \<noteq> - 1" "\<not> ?m mod 10 > 59" "?m mod 10 \<noteq> - 1"
      "\<not> ?s mod 10 > 60" "?s mod 10 \<noteq> - 1"
      using d [of ?h] d [of ?m] d [of ?s] assms by auto
    have k: "peek s 2 = Some 58" "peek s 5 = Some 58" by (simp_all add: s_def peek_def)
    show ?thesis
      by (simp add: strptime_def sub_formats_def directive_def number_field_def g k b)
  qed
  ultimately show ?thesis by (simp add: s_def)
qed

lemma strptime_strftime_T_witness:
  "\<forall>u. \<exists>s. strftime_text 1 (lit ''UTC'') \<lparr>tm_sec = 5, tm_min = 30, tm_hour = 17, tm_mday = 1, tm_mon = 0, tm_year = 70, tm_wday = 4,
      tm_yday = 0\<rparr> 9 (lit ''%T'') = Some s \<and> length s = 8 \<and>
    strptime s (lit ''%T'') u = Some (8, u\<lparr>tm_hour := 7, tm_min := 0, tm_sec := 5\<rparr>)"
  using strptime_strftime_T [of "\<lparr>tm_sec = 5, tm_min = 30, tm_hour = 17, tm_mday = 1, tm_mon = 0, tm_year = 70,
      tm_wday = 4, tm_yday = 0\<rparr>" 9 "lit ''UTC''"]
  by simp

end
