(* ===== verification/Fnmatch.thy ===== *)
theory Fnmatch
  imports Ctype
begin

text \<open>
  Shell patterns (\<open>src/lib/c/libshell/fnmatch.c\<close>). Pattern and string are lists of bytes without the final NUL; \<open>prev\<close> is
  the byte before the string. A read beyond the NUL of the pattern is undefined (\<open>None\<close>). The flags are the bits of a
  word: \<open>FNM_NOESCAPE\<close> 0, \<open>FNM_PATHNAME\<close> 1, \<open>FNM_PERIOD\<close> 2, \<open>FNM_LEADING_DIR\<close> 3, \<open>FNM_CASEFOLD\<close> 4 and \<open>NOTFIRST\<close> 7.
\<close>

section \<open>Definitions\<close>

definition lower :: "u8 \<Rightarrow> int" where
  "lower c = sint (tolower (cint c))"

definition match_char :: "u8 \<Rightarrow> u8 \<Rightarrow> u32 \<Rightarrow> bool" where
  "match_char c d flags = (if bit flags 4 then lower c = lower d else c = d)"

definition in_char_range :: "u8 \<Rightarrow> u8 \<Rightarrow> u8 \<Rightarrow> u32 \<Rightarrow> bool" where
  "in_char_range lo hi c flags \<longleftrightarrow> (sint lo \<le> sint c \<and> sint c \<le> sint hi) \<or>
     (bit flags 4 \<and> lower lo \<le> lower c \<and> lower c \<le> lower hi)"

text \<open>The rest of the pattern after the \<open>]\<close>, which must be there.\<close>

definition after_set :: "u8 list \<Rightarrow> u8 list option" where
  "after_set p = (case dropWhile (\<lambda>x. x \<noteq> 93) p of [] \<Rightarrow> None | x # q \<Rightarrow> Some q)"

text \<open>The loop over the elements of a set: \<open>Some None\<close> when no element decides, and otherwise the rest of the pattern.\<close>

function set_loop :: "u8 \<Rightarrow> bool \<Rightarrow> u32 \<Rightarrow> u8 list \<Rightarrow> u8 list option option" where
  "set_loop c neg flags [] = Some None"
| "set_loop c neg flags (x # p) =
     (if x = 93 then Some None
      else if p \<noteq> [] \<and> hd p = 45 then
        (case tl p of
           [] \<Rightarrow> None
         | hi # p \<Rightarrow>
             if in_char_range x hi c flags \<noteq> neg then map_option Some (after_set p) else set_loop c neg flags p)
      else if match_char x c flags \<noteq> neg then map_option Some (after_set p)
      else set_loop c neg flags p)"
  by pat_completeness auto
termination
  by (relation "measure (\<lambda>(c, neg, flags, p). length p)") (auto simp: neq_Nil_conv)

declare set_loop.simps(2) [simp del]

lemma after_set_shorter: "after_set p = Some q \<Longrightarrow> length q < length p"
  using length_dropWhile_le [of "\<lambda>x. x \<noteq> 93" p] by (auto simp: after_set_def split: list.splits)

lemma set_loop_shorter: "set_loop c neg flags p = Some (Some q) \<Longrightarrow> length q < length p"
proof (induction p rule: length_induct)
  case (1 p)
  then have ih: "length g < length p \<Longrightarrow> set_loop c neg flags g = Some (Some q) \<Longrightarrow> length q < length g" for g by blast
  from "1.prems" obtain x f where p: "p = x # f" by (cases p) auto
  show ?case
  proof (cases "f \<noteq> [] \<and> hd f = 45")
    case True
    then obtain hi g where f: "f = 45 # hi # g"
      using "1.prems" p by (cases f; cases "tl f") (auto simp: set_loop.simps(2) split: if_splits)
    show ?thesis using "1.prems" ih [of g] after_set_shorter [of g q] p f
      by (auto simp: set_loop.simps(2) [of c neg flags x "45 # hi # g"] split: if_splits)
  next
    case False
    then show ?thesis using "1.prems" ih [of f] after_set_shorter [of f q] p
      by (auto simp: set_loop.simps(2) [of c neg flags x f] split: if_splits)
  qed
qed

definition set_neg :: "u8 list \<Rightarrow> bool \<times> u8 list" where
  "set_neg p = (if p \<noteq> [] \<and> hd p = 33 then (True, tl p) else (False, p))"

function fnmatch :: "u8 list \<Rightarrow> u8 \<Rightarrow> u8 list \<Rightarrow> u32 \<Rightarrow> int option" where
  "fnmatch p prev [] flags = Some (if dropWhile (\<lambda>x. x = 42) p = [] then 0 else 1)"
| "fnmatch p prev (c # s) flags =
     (if c = 46 \<and> \<not> (p \<noteq> [] \<and> hd p = 46) \<and> bit flags 2 \<and> (\<not> bit flags 7 \<or> prev = 47) then Some 1
      else let flags = set_bit 7 flags in
        case p of
          [] \<Rightarrow> Some (if c = 47 \<and> bit flags 3 then 0 else 1)
        | x # q \<Rightarrow>
            if x = 91 then
              (if c = 47 \<and> bit flags 1 then Some 1
               else case set_neg q of (neg, q) \<Rightarrow>
                 (case set_loop c neg flags q of
                    None \<Rightarrow> None
                  | Some None \<Rightarrow> Some 1
                  | Some (Some q) \<Rightarrow> fnmatch q c s flags))
            else if x = 92 then
              (if bit flags 0 then (if c = 92 then fnmatch q c s flags else Some 1)
               else if q \<noteq> [] \<and> c = hd q then fnmatch (tl q) c s flags
               else Some 1)
            else if x = 42 then
              (if c = 47 \<and> bit flags 1 then fnmatch q prev (c # s) flags
               else (case fnmatch p c s flags of
                       None \<Rightarrow> None
                     | Some r \<Rightarrow> if r \<noteq> 0 then fnmatch q prev (c # s) flags else Some 0))
            else if match_char x c flags then fnmatch q c s flags
            else Some 1)"
  by pat_completeness auto
termination
  by (relation "measure (\<lambda>(p, prev, s, flags). length p + length s)")
    (auto simp: set_neg_def length_tl split: if_splits dest!: set_loop_shorter)

declare fnmatch.simps(2) [simp del]

section \<open>Patterns as sequences of items\<close>

datatype elem = One u8 | Range u8 u8
datatype item = Lit u8 | Star | Set bool "elem list"

fun elem_text :: "elem \<Rightarrow> u8 list" where
  "elem_text (One x) = [x]"
| "elem_text (Range lo hi) = [lo, 45, hi]"

fun item_text :: "item \<Rightarrow> u8 list" where
  "item_text (Lit x) = (if x \<in> {42, 91, 92} then [92, x] else [x])"
| "item_text Star = [42]"
| "item_text (Set neg es) = 91 # (if neg then [33] else []) @ concat (map elem_text es) @ [93]"

definition pattern_text :: "item list \<Rightarrow> u8 list" where
  "pattern_text is = concat (map item_text is)"

text \<open>Characters that need no special position: an element is not \<open>]\<close> or \<open>-\<close>, and the first one of a set is not \<open>!\<close>.\<close>

fun elem_ok :: "elem \<Rightarrow> bool" where
  "elem_ok (One x) \<longleftrightarrow> x \<notin> {45, 93}"
| "elem_ok (Range lo hi) \<longleftrightarrow> lo \<notin> {45, 93} \<and> hi \<noteq> 93"

fun item_ok :: "item \<Rightarrow> bool" where
  "item_ok (Set neg es) \<longleftrightarrow> list_all elem_ok es \<and> (es \<noteq> [] \<longrightarrow> hd (elem_text (hd es)) \<noteq> 33)"
| "item_ok _ \<longleftrightarrow> True"

text \<open>The strings an item stands for. A set takes a character when some element differs from \<open>neg\<close> on it, which for a
  negated set of more than one element is not the complement.\<close>

fun elem_has :: "elem \<Rightarrow> u8 \<Rightarrow> bool" where
  "elem_has (One x) c \<longleftrightarrow> x = c"
| "elem_has (Range lo hi) c \<longleftrightarrow> sint lo \<le> sint c \<and> sint c \<le> sint hi"

fun stands_for :: "bool \<Rightarrow> item \<Rightarrow> u8 list \<Rightarrow> bool" where
  "stands_for path (Lit x) w \<longleftrightarrow> w = [x]"
| "stands_for path Star w \<longleftrightarrow> (path \<longrightarrow> 47 \<notin> set w)"
| "stands_for path (Set neg es) w \<longleftrightarrow> (\<exists>c. w = [c] \<and> \<not> (path \<and> c = 47) \<and> (\<exists>e \<in> set es. elem_has e c \<noteq> neg))"

definition accepts :: "bool \<Rightarrow> item list \<Rightarrow> u8 list \<Rightarrow> bool" where
  "accepts path is s \<longleftrightarrow> (\<exists>ws. list_all2 (stands_for path) is ws \<and> concat ws = s)"

lemma accepts_Nil [simp]: "accepts path [] s \<longleftrightarrow> s = []"
  by (auto simp: accepts_def)

lemma accepts_Cons: "accepts path (i # is) s \<longleftrightarrow> (\<exists>u v. s = u @ v \<and> stands_for path i u \<and> accepts path is v)"
  unfolding accepts_def list_all2_Cons1 by (metis concat.simps(2))

lemma accepts_Lit [simp]: "accepts path (Lit x # is) s \<longleftrightarrow> (\<exists>v. s = x # v \<and> accepts path is v)"
  by (simp add: accepts_Cons)

lemma accepts_Set:
  "accepts path (Set neg es # is) (c # s) \<longleftrightarrow>
     \<not> (path \<and> c = 47) \<and> (\<exists>e \<in> set es. elem_has e c \<noteq> neg) \<and> accepts path is s"
  "\<not> accepts path (Set neg es # is) []"
proof -
  have "accepts path (Set neg es # is) t \<longleftrightarrow> (\<exists>d v. t = d # v \<and> \<not> (path \<and> d = 47) \<and>
      (\<exists>e \<in> set es. elem_has e d \<noteq> neg) \<and> accepts path is v)" for t
    unfolding accepts_Cons stands_for.simps by (metis append_Cons append_Nil)
  then show "accepts path (Set neg es # is) (c # s) \<longleftrightarrow>
      \<not> (path \<and> c = 47) \<and> (\<exists>e \<in> set es. elem_has e c \<noteq> neg) \<and> accepts path is s"
    "\<not> accepts path (Set neg es # is) []" by simp_all
qed

lemma accepts_Star:
  "accepts path (Star # is) [] \<longleftrightarrow> accepts path is []"
  "accepts path (Star # is) (c # s) \<longleftrightarrow>
     accepts path is (c # s) \<or> (\<not> (path \<and> c = 47) \<and> accepts path (Star # is) s)"
proof -
  show "accepts path (Star # is) [] \<longleftrightarrow> accepts path is []" by (simp add: accepts_Cons)
  show "accepts path (Star # is) (c # s) \<longleftrightarrow>
     accepts path is (c # s) \<or> (\<not> (path \<and> c = 47) \<and> accepts path (Star # is) s)"
  proof
    assume "accepts path (Star # is) (c # s)"
    then obtain u v where u: "c # s = u @ v" "path \<longrightarrow> 47 \<notin> set u" "accepts path is v" by (auto simp: accepts_Cons)
    show "accepts path is (c # s) \<or> (\<not> (path \<and> c = 47) \<and> accepts path (Star # is) s)"
      using u by (cases u) (auto simp: accepts_Cons)
  next
    assume "accepts path is (c # s) \<or> (\<not> (path \<and> c = 47) \<and> accepts path (Star # is) s)"
    then show "accepts path (Star # is) (c # s)"
    proof
      assume "accepts path is (c # s)"
      then show ?thesis unfolding accepts_Cons by (intro exI [of _ "[]"] exI [of _ "c # s"]) simp
    next
      assume "\<not> (path \<and> c = 47) \<and> accepts path (Star # is) s"
      then obtain u v where "s = u @ v" "path \<longrightarrow> 47 \<notin> set (c # u)" "accepts path is v" by (auto simp: accepts_Cons)
      then show ?thesis unfolding accepts_Cons by (intro exI [of _ "c # u"] exI [of _ v]) simp
    qed
  qed
qed

lemma accepts_empty: "accepts path is [] \<longleftrightarrow> dropWhile (\<lambda>x. x = 42) (pattern_text is) = []"
proof (induction "is")
  case (Cons i "is")
  then show ?case
    by (cases i) (auto simp: accepts_Set(2) accepts_Star(1) pattern_text_def)
qed (simp add: pattern_text_def)

section \<open>Sets\<close>

definition elems_text :: "elem list \<Rightarrow> u8 list" where
  "elems_text es = concat (map elem_text es)"

lemma elems_no_end: "list_all elem_ok es \<Longrightarrow> 93 \<notin> set (elems_text es)"
proof (induction es)
  case (Cons e es)
  then show ?case by (cases e) (auto simp: elems_text_def)
qed (simp add: elems_text_def)

lemma after_elems: "list_all elem_ok es \<Longrightarrow> after_set (elems_text es @ 93 # r) = Some r"
proof -
  assume "list_all elem_ok es"
  then have "dropWhile (\<lambda>x. x \<noteq> 93) (elems_text es @ 93 # r) = 93 # r"
    using elems_no_end [of es] by (subst dropWhile_append2) auto
  then show ?thesis by (simp add: after_set_def)
qed

lemma set_loop_elems:
  assumes "\<not> bit flags 4"
  shows "list_all elem_ok es \<Longrightarrow> set_loop c neg flags (elems_text es @ 93 # r) =
    Some (if \<exists>e \<in> set es. elem_has e c \<noteq> neg then Some r else None)"
proof (induction es)
  case Nil
  then show ?case by (simp add: elems_text_def set_loop.simps(2))
next
  case (Cons e es)
  have t: "elems_text (f # es) = elem_text f @ elems_text es" for f by (simp add: elems_text_def)
  have first: "hd (elems_text es @ 93 # r) \<noteq> 45" using Cons.prems
    by (cases es; cases "hd es") (auto simp: elems_text_def)
  have ih: "set_loop c neg flags (elems_text es @ 93 # r) =
      Some (if \<exists>e \<in> set es. elem_has e c \<noteq> neg then Some r else None)"
    and after: "after_set (elems_text es @ 93 # r) = Some r"
    using Cons after_elems [of es] by simp_all
  show ?case
  proof (cases e)
    case (One x)
    then show ?thesis
      using Cons.prems assms first ih after by (simp add: t set_loop.simps(2) match_char_def)
  next
    case (Range lo hi)
    then show ?thesis
      using Cons.prems assms ih after by (simp add: t set_loop.simps(2) in_char_range_def)
  qed
qed

section \<open>Properties\<close>

text \<open>The flags that the reference covers: all off but \<open>FNM_PATHNAME\<close> and the internal one.\<close>

definition plain :: "bool \<Rightarrow> u32 \<Rightarrow> bool" where
  "plain path flags \<longleftrightarrow> \<not> bit flags 0 \<and> bit flags 1 = path \<and> \<not> bit flags 2 \<and> \<not> bit flags 3 \<and> \<not> bit flags 4"

lemma plain_notfirst: "plain path flags \<Longrightarrow> plain path (set_bit 7 flags)"
  by (simp add: plain_def bit_simps)

lemma fnmatch_Set:
  assumes "plain path flags" "item_ok (Set neg es)"
  shows "fnmatch (item_text (Set neg es) @ r) prev (c # s) flags =
    (if \<not> (path \<and> c = 47) \<and> (\<exists>e \<in> set es. elem_has e c \<noteq> neg) then fnmatch r c s (set_bit 7 flags) else Some 1)"
proof -
  have p: "\<not> bit flags 2" "bit (set_bit 7 flags) 1 = path" "\<not> bit (set_bit 7 flags) 4"
    using assms(1) plain_notfirst [OF assms(1)] by (auto simp: plain_def)
  have n: "set_neg ((if neg then [33] else []) @ elems_text es @ 93 # r) = (neg, elems_text es @ 93 # r)"
  proof (cases neg)
    case False
    have "hd (elems_text es @ 93 # r) \<noteq> 33"
      using assms(2) by (cases es; cases "hd es") (auto simp: elems_text_def)
    then show ?thesis using False by (simp add: set_neg_def)
  qed (simp add: set_neg_def)
  have t: "item_text (Set neg es) @ r = 91 # (if neg then [33] else []) @ elems_text es @ 93 # r"
    by (simp add: elems_text_def)
  show ?thesis
    unfolding t using assms(2) p set_loop_elems [OF p(3), of es c neg r]
    by (simp add: fnmatch.simps(2) Let_def n del: append_Cons)
qed

text \<open>C22: without \<open>FNM_PERIOD\<close>, \<open>FNM_LEADING_DIR\<close>, \<open>FNM_CASEFOLD\<close> and \<open>FNM_NOESCAPE\<close>, \<open>fnmatch\<close> on the text of a sequence of items
  returns 0 exactly when the string is a concatenation of strings the items stand for, and 1 otherwise; it always
  returns and never reads beyond the pattern.\<close>
theorem fnmatch_accepts:
  assumes "plain path flags" "list_all item_ok is"
  shows "fnmatch (pattern_text is) prev s flags = Some (if accepts path is s then 0 else 1)"
  using assms
proof (induction "is" arbitrary: prev s flags)
  case Nil
  then show ?case by (cases s) (auto simp: pattern_text_def fnmatch.simps(2) plain_def bit_simps)
next
  case (Cons i "is")
  have t: "pattern_text (i # is) = item_text i @ pattern_text is" by (simp add: pattern_text_def)
  have ih: "fnmatch (pattern_text is) prev s flags = Some (if accepts path is s then 0 else 1)"
    if "plain path flags" for prev s flags
    using Cons that by simp
  show ?case
  proof (cases s)
    case Nil
    then show ?thesis by (simp add: accepts_empty)
  next
    case s: (Cons c s')
    show ?thesis
    proof (cases i)
      case (Lit x)
      have "fnmatch (item_text (Lit x) @ pattern_text is) prev (c # s') flags =
          (if x = c then fnmatch (pattern_text is) c s' (set_bit 7 flags) else Some 1)"
        using plain_notfirst [OF Cons.prems(1)] Cons.prems(1)
        by (auto simp: fnmatch.simps(2) Let_def plain_def match_char_def)
      then show ?thesis using Lit s t ih [OF plain_notfirst [OF Cons.prems(1)]] by simp
    next
      case (Set neg es)
      then show ?thesis
        using fnmatch_Set [OF Cons.prems(1), of neg es "pattern_text is" prev c s'] Cons.prems(2) s t
          ih [OF plain_notfirst [OF Cons.prems(1)]]
        by (simp add: accepts_Set del: item_text.simps)
    next
      case Star
      have "fnmatch (42 # pattern_text is) prev u flags = Some (if accepts path (Star # is) u then 0 else 1)"
        if "plain path flags" for prev u flags
        using that
      proof (induction u arbitrary: prev flags)
        case Nil
        then show ?case using accepts_empty [of path "Star # is"] by (simp add: pattern_text_def)
      next
        case (Cons d u)
        note pn = plain_notfirst [OF Cons.prems]
        have p: "\<not> bit flags 2" "bit (set_bit 7 flags) 1 = path" using Cons.prems pn by (auto simp: plain_def)
        show ?case
          using p Cons.IH [OF pn] ih [OF pn]
          by (auto simp: fnmatch.simps(2) [of "42 # pattern_text is"] Let_def accepts_Star)
      qed
      then show ?thesis using Star t Cons.prems(1) by simp
    qed
  qed
qed

lemma fnmatch_accepts_witness:
  "fnmatch (pattern_text [Lit 97, Star, Set True [One 98, One 99]]) 0 [97, 120, 98] 2 = Some 0"
proof -
  have "plain True 2" "list_all item_ok [Lit 97, Star, Set True [One 98, One 99]]"
    by (simp_all add: plain_def bit_numeral_rec)
  moreover have "accepts True [Lit 97, Star, Set True [One 98, One 99]] [97, 120, 98]"
    by (simp add: accepts_Star accepts_Set)
  ultimately show ?thesis
    using fnmatch_accepts [of True 2 "[Lit 97, Star, Set True [One 98, One 99]]" 0 "[97, 120, 98]"] by simp
qed

text \<open>A question mark is an ordinary character, and a negated set of two characters excludes neither.\<close>

lemma fnmatch_question: "fnmatch [63] 0 [97] 0 = Some 1"
  by (simp add: fnmatch.simps(2) match_char_def Let_def)

lemma fnmatch_negated: "accepts False [Set True [One 97, One 98]] [97]"
  by (simp add: accepts_Set)

end
