(* ===== verification/Printf.thy ===== *)
theory Printf
  imports Numconv
begin

text \<open>
  Formatted output (\<open>src/lib/c/lib/__v_printf.c\<close>, \<open>vsnprintf.c\<close>, \<open>vsprintf.c\<close>, \<open>snprintf.c\<close>, \<open>sprintf.c\<close>). The format is
  the list of its bytes without the NUL. The arguments are a list: \<open>int\<close>, \<open>long\<close>, pointers and characters are 32-bit
  words, \<open>long long\<close> is a 64-bit word, and a string argument is the list of its bytes, or NULL. An argument that is
  missing or of the wrong type, the overflow of a signed integer and of the count of characters are undefined
  (\<open>None\<close>). The conversions of \<open>double\<close> are outside the model, which is \<open>None\<close> for them too. The output is the list
  of the blocks handed to \<open>put\<close>.
\<close>

section \<open>Arguments and flags\<close>

datatype vararg = AInt u32 | ALong u64 | AStr "u8 list option"

fun arg_int :: "vararg list \<Rightarrow> (u32 \<times> vararg list) option" where
  "arg_int (AInt v # args) = Some (v, args)"
| "arg_int _ = None"

fun arg_long :: "vararg list \<Rightarrow> (u64 \<times> vararg list) option" where
  "arg_long (ALong v # args) = Some (v, args)"
| "arg_long _ = None"

fun arg_str :: "vararg list \<Rightarrow> (u8 list option \<times> vararg list) option" where
  "arg_str (AStr v # args) = Some (v, args)"
| "arg_str _ = None"

text \<open>The variables a directive sets before its conversion: \<open>padwith\<close>, \<open>width\<close>, \<open>preci\<close> and the flags.\<close>

record spec =
  padwith :: u8
  hash :: int
  left :: bool
  space :: bool
  plus :: bool
  dot :: bool
  longs :: u8
  width :: u32
  preci :: u32

definition spec0 :: spec where
  "spec0 = \<lparr>padwith = 32, hash = 0, left = False, space = False, plus = False, dot = False, longs = 0,
     width = 0, preci = 0\<rparr>"

text \<open>The case of a digit: \<open>ch\<close> has been read, \<open>f\<close> is the rest of the format.\<close>

definition read_width :: "spec \<Rightarrow> u8 \<Rightarrow> u8 list \<Rightarrow> spec \<times> u8 list" where
  "read_width p ch f =
     (case strtoul (ch # f) 10 of (v, e, err) \<Rightarrow>
        (p\<lparr>width := v, padwith := (if ch = 48 \<and> \<not> left p then 48 else padwith p)\<rparr>, drop (the e - 1) f))"

text \<open>The case of a point.\<close>

definition read_preci :: "spec \<Rightarrow> vararg list \<Rightarrow> u8 list \<Rightarrow> (spec \<times> vararg list \<times> u8 list) option" where
  "read_preci p args f =
     (let clamp = \<lambda>v :: u32. if sint v < 0 then 0 else v in
      if f \<noteq> [] \<and> hd f = 42 then
        map_option (\<lambda>(v, args). (p\<lparr>dot := True, preci := clamp v\<rparr>, args, tl f)) (arg_int args)
      else (case strtol f 10 of (v, e, err) \<Rightarrow> Some (p\<lparr>dot := True, preci := clamp v\<rparr>, args, drop (the e) f)))"

lemma read_width_shorter: "length (snd (read_width p ch f)) \<le> length f"
  by (auto simp: read_width_def split: prod.splits)

lemma read_preci_shorter: "read_preci p args f = Some (p', args', f') \<Longrightarrow> length f' \<le> length f"
  by (auto simp: read_preci_def Let_def split: if_splits prod.splits)

text \<open>The label \<open>inn_printf\<close>: read flags up to the character of a conversion. \<open>Stop\<close> is the return of -1.\<close>

datatype parsed = Stop | Conversion spec u8 "vararg list" "u8 list"

function inn_printf :: "spec \<Rightarrow> vararg list \<Rightarrow> u8 list \<Rightarrow> parsed option" where
  "inn_printf p args [] = Some Stop"
| "inn_printf p args (ch # f) =
     (if ch = of_char CHR ''#'' then inn_printf (p\<lparr>hash := - 1\<rparr>) args f
      else if ch = of_char CHR ''z'' then inn_printf p args f
      else if ch = of_char CHR ''h'' then inn_printf (p\<lparr>longs := longs p - 1\<rparr>) args f
      else if ch = of_char CHR ''q'' \<or> ch = of_char CHR ''L'' then inn_printf (p\<lparr>longs := longs p + 2\<rparr>) args f
      else if ch = of_char CHR ''l'' then inn_printf (p\<lparr>longs := longs p + 1\<rparr>) args f
      else if ch = of_char CHR ''-'' then inn_printf (p\<lparr>left := True\<rparr>) args f
      else if ch = of_char CHR '' '' then inn_printf (p\<lparr>space := True\<rparr>) args f
      else if ch = of_char CHR ''+'' then inn_printf (p\<lparr>plus := True\<rparr>) args f
      else if 48 \<le> ch \<and> ch \<le> 57 then
        (if dot p then Some Stop
         else inn_printf (fst (read_width p ch f)) args (snd (read_width p ch f)))
      else if ch = of_char CHR ''*'' then
        (case arg_int args of None \<Rightarrow> None | Some (v, args) \<Rightarrow> inn_printf (p\<lparr>width := v\<rparr>) args f)
      else if ch = of_char CHR ''.'' then
        (case read_preci p args f of None \<Rightarrow> None | Some (p, args, f) \<Rightarrow> inn_printf p args f)
      else Some (Conversion p ch args f))"
  by pat_completeness auto

termination
  by (relation "measure (\<lambda>(p, args, f). length f)")
    (auto simp: le_imp_less_Suc read_width_shorter dest: read_preci_shorter)

declare inn_printf.simps(2) [simp del]

section \<open>Conversions\<close>

function write_pad :: "int \<Rightarrow> u8 \<Rightarrow> u8 list list" where
  "write_pad n c =
     (let z = (if c = 48 then 48 else 32) in
      if n > 15 then replicate 16 z # write_pad (n - 16) c
      else if n > 0 then [replicate (nat n) z] else [])"
  by pat_completeness auto
termination
  by (relation "measure (\<lambda>(n, c). nat n)") auto

declare write_pad.simps [simp del]

text \<open>Padding for the difference of two widths, as signed integers.\<close>

definition pad :: "u32 \<Rightarrow> u32 \<Rightarrow> u8 \<Rightarrow> u8 list list option" where
  "pad a b c = map_option (\<lambda>n. write_pad n c) (i32 (sint a - sint b))"

text \<open>The label \<open>print_out\<close>: \<open>sz\<close> bytes of \<open>s\<close> are to be printed. \<open>in_sign\<close> is \<open>flag_in_sign\<close>.\<close>

definition print_out :: "spec \<Rightarrow> nat \<Rightarrow> u8 list \<Rightarrow> nat \<Rightarrow> u8 list list option" where
  "print_out p in_sign s0 sz0 =
     (if width p = 0 \<and> preci p = 0 then Some [take sz0 s0]
      else
        let todo = (if hash p > 0 then nat (hash p) else if in_sign \<noteq> 0 then 1 else 0);
            sgn = (if todo \<noteq> 0 then [take todo s0] else []);
            s = drop todo s0;
            sz = sz0 - todo;
            w = width p - of_nat todo;
            vs = max (preci p) (of_nat sz)
        in if left p then do {
             zeros \<leftarrow> pad (preci p) (of_nat sz) 48;
             fill \<leftarrow> pad w vs 32;
             Some (sgn @ zeros @ [take sz s] @ fill)
           } else if dot p then do {
             fill \<leftarrow> pad w vs 32;
             zeros \<leftarrow> pad (preci p) (of_nat sz) 48;
             Some (fill @ sgn @ zeros @ [take sz s])
           } else do {
             fill \<leftarrow> pad w (of_nat sz) (padwith p);
             Some ((if padwith p = 48 then sgn @ fill else fill @ sgn) @ [take sz s])
           })"

text \<open>The label \<open>num_printf\<close>. Negating the least integer is undefined.\<close>

definition negate :: "'a::len word \<Rightarrow> 'a word option" where
  "negate v = (if sint v = - (2 ^ (LENGTH('a) - 1)) then None else Some (- v))"

definition take_number :: "spec \<Rightarrow> vararg list \<Rightarrow> (u32 \<times> u64 \<times> vararg list) option" where
  "take_number p args =
     (if sint (longs p) > 1 then map_option (\<lambda>(v, args). (0, v, args)) (arg_long args)
      else map_option (\<lambda>(v, args). (v, 0, args)) (arg_int args))"

definition strip_sign :: "spec \<Rightarrow> bool \<Rightarrow> u32 \<Rightarrow> u64 \<Rightarrow> (u32 \<times> u64 \<times> nat) option" where
  "strip_sign p in_sign num llnum =
     (if \<not> in_sign then Some (num, llnum, 0)
      else if sint (longs p) > 1 \<and> sint llnum < 0 then map_option (\<lambda>v. (num, v, 2)) (negate llnum)
      else if sint num < 0 then map_option (\<lambda>v. (v, llnum, 2)) (negate num)
      else Some (num, llnum, 1))"

text \<open>The digits that \<open>__ltostr\<close> or \<open>__lltostr\<close> writes into \<open>buf\<close> after the prefix of \<open>off\<close> characters.\<close>

definition num_digits :: "spec \<Rightarrow> u32 \<Rightarrow> u64 \<Rightarrow> nat \<Rightarrow> nat \<Rightarrow> bool \<Rightarrow> u8 list option" where
  "num_digits p num llnum base off up =
     map_option (\<lambda>(retval, buf). seg (1 + off) retval buf)
       (if sint (longs p) > 1 then lltostr (replicate 128 0) (1 + off) 123 llnum base up
        else ltostr (replicate 128 0) (1 + off) 123 num base up)"

definition num_printf :: "spec \<Rightarrow> bool \<Rightarrow> nat \<Rightarrow> u8 list \<Rightarrow> bool \<Rightarrow> vararg list \<Rightarrow>
    (u8 list list \<times> vararg list) option" where
  "num_printf p in_sign base pre up args = do {
     (num, llnum, args) \<leftarrow> take_number p args;
     (num, llnum, flag) \<leftarrow> strip_sign p in_sign num llnum;
     let num = (if sint (longs p) < 0 then num AND 0xffff else num);
     let num = (if sint (longs p) < - 1 then num AND 0xff else num);
     ds \<leftarrow> num_digits p num llnum base (length pre) up;
     let zero = (dot p \<and> ds = [48]);
     let sz = (if zero then (if preci p = 0 \<or> hash p > 0 then 0 else length pre)
       else length pre + length ds);
     let p = (if zero then p\<lparr>hash := 0\<rparr> else p);
     let sign = (if flag = 2 then [45] else if flag = 1 \<and> (plus p \<or> space p) then [if plus p then 43 else 32] else []);
     out \<leftarrow> print_out p (if sign = [] then 0 else flag) (sign @ pre @ ds) (length sign + sz);
     Some (out, args)
   }"

text \<open>The switch on the character of a conversion.\<close>

definition hex_printf :: "spec \<Rightarrow> u8 \<Rightarrow> vararg list \<Rightarrow> (u8 list list \<times> vararg list) option" where
  "hex_printf p ch args =
     (let pre = (if hash p \<noteq> 0 then [48, ch] else []);
          p = (if hash p \<noteq> 0 then p\<lparr>hash := 2\<rparr> else p);
          p = (if preci p > width p then p\<lparr>width := preci p\<rparr> else p)
      in num_printf p False 16 pre (ch = of_char CHR ''X'') args)"

definition str_printf :: "spec \<Rightarrow> vararg list \<Rightarrow> (u8 list list \<times> vararg list) option" where
  "str_printf p args = do {
     (s, args) \<leftarrow> arg_str args;
     let s = (case s of None \<Rightarrow> map of_char ''(null)'' | Some s \<Rightarrow> s);
     let sz = (if dot p \<and> length s > unat (preci p) then unat (preci p) else length s);
     out \<leftarrow> print_out (p\<lparr>preci := 0, dot := False, padwith := 32\<rparr>) 0 s sz;
     Some (out, args)
   }"

definition convert :: "spec \<Rightarrow> u8 \<Rightarrow> vararg list \<Rightarrow> (u8 list list \<times> vararg list) option" where
  "convert p ch args =
     (if ch = of_char CHR ''c'' then map_option (\<lambda>(v, args). ([[ucast v]], args)) (arg_int args)
      else if ch = of_char CHR ''%'' then Some ([[ch]], args)
      else if ch = of_char CHR ''s'' then str_printf p args
      else if ch = of_char CHR ''b'' then num_printf p False 2 [] False args
      else if ch = of_char CHR ''p'' then hex_printf (p\<lparr>hash := 2, longs := 1\<rparr>) (of_char CHR ''x'') args
      else if ch = of_char CHR ''X'' \<or> ch = of_char CHR ''x'' then hex_printf p ch args
      else if ch = of_char CHR ''d'' \<or> ch = of_char CHR ''i'' then num_printf p True 10 [] False args
      else if ch = of_char CHR ''u'' then num_printf p False 10 [] False args
      else if ch = of_char CHR ''o'' then
        (if hash p \<noteq> 0 then num_printf (p\<lparr>hash := 1\<rparr>) False 8 [48] False args
         else num_printf p False 8 [] False args)
      else if ch = of_char CHR ''f'' \<or> ch = of_char CHR ''g'' then None
      else Some ([], args))"

lemma inn_printf_shorter: "inn_printf p args f = Some (Conversion p' ch' args' f') \<Longrightarrow> length f' < length f"
proof (induction "length f" arbitrary: p args f rule: less_induct)
  case less
  show ?case
  proof (cases f)
    case (Cons ch g)
    have ih: "length f' < Suc (length g)"
      if "inn_printf q a h = Some (Conversion p' ch' args' f')" "length h \<le> length g" for q a h
      using less.hyps [OF _ that(1)] that(2) Cons by simp
    show ?thesis
      using less.prems unfolding Cons
      by (subst (asm) inn_printf.simps(2))
        (auto split: if_split_asm option.split_asm elim!: ih simp: read_width_shorter dest: read_preci_shorter)
  qed (use less.prems in simp)
qed

text \<open>The loop over the format. It returns the result of the function and the blocks put.\<close>

function v_printf :: "int \<Rightarrow> vararg list \<Rightarrow> u8 list \<Rightarrow> (int \<times> u8 list list) option" where
  "v_printf len args [] = Some (len, [])"
| "v_printf len args (c # f) =
     (if c \<noteq> 37 then
        (case i32 (len + int (length (takeWhile (\<lambda>x. x \<noteq> 37) (c # f)))) of
           None \<Rightarrow> None
         | Some len \<Rightarrow> map_option (\<lambda>(n, out). (n, takeWhile (\<lambda>x. x \<noteq> 37) (c # f) # out))
             (v_printf len args (dropWhile (\<lambda>x. x \<noteq> 37) f)))
      else (case inn_printf spec0 args f of
           None \<Rightarrow> None
         | Some Stop \<Rightarrow> Some (- 1, [])
         | Some (Conversion p ch args f) \<Rightarrow>
             (case convert p ch args of
                None \<Rightarrow> None
              | Some (out, args) \<Rightarrow>
                  (case i32 (len + int (length (concat out))) of
                     None \<Rightarrow> None
                   | Some len \<Rightarrow> map_option (\<lambda>(n, out'). (n, out @ out')) (v_printf len args f)))))"
  by pat_completeness auto

termination
  by (relation "measure (\<lambda>(len, args, f). length f)")
    (auto simp: le_imp_less_Suc length_dropWhile_le less_SucI dest: inn_printf_shorter)

declare v_printf.simps(2) [simp del]

section \<open>Printing into a string\<close>

text \<open>\<open>size_t\<close> values are natural numbers below \<open>2 ^ 32\<close>. The fields \<open>str\<close> and \<open>size\<close> of \<open>str_data\<close> are arguments,
  \<open>len\<close> and RAM are threaded. The blocks are not read from RAM, so they must not lie in the destination.\<close>

definition store_bytes :: "ram \<Rightarrow> addr \<Rightarrow> u8 list \<Rightarrow> ram option" where
  "store_bytes m a xs = (if xs = [] \<or> a + length xs \<le> length m then Some (patch a xs m) else None)"

definition swrite :: "addr option \<Rightarrow> nat \<Rightarrow> u8 list \<Rightarrow> nat \<times> ram \<Rightarrow> (nat \<times> ram) option" where
  "swrite str sz ptr = (\<lambda>(len, m).
     let tmp = sz - len;
         k = min (length ptr) tmp
     in if tmp > 0 then
          (case str of
             None \<Rightarrow> Some (len + k, m)
           | Some a \<Rightarrow> do {
               m \<leftarrow> store_bytes m (a + len) (take k ptr);
               m \<leftarrow> store m (a + len + k) 0;
               Some (len + k, m)
             })
        else Some (len, m))"

fun swrites :: "addr option \<Rightarrow> nat \<Rightarrow> u8 list list \<Rightarrow> nat \<times> ram \<Rightarrow> (nat \<times> ram) option" where
  "swrites str sz [] st = Some st"
| "swrites str sz (x # xs) st = do { st \<leftarrow> swrite str sz x st; swrites str sz xs st }"

definition vsnprintf :: "addr option \<Rightarrow> u32 \<Rightarrow> u8 list \<Rightarrow> vararg list \<Rightarrow> ram \<Rightarrow> (int \<times> ram) option" where
  "vsnprintf str sz fmt args m = do {
     (n, out) \<leftarrow> v_printf 0 args fmt;
     (len, m) \<leftarrow> swrites str (if sz = 0 then 0 else unat sz - 1) out (0, m);
     (case str of
        None \<Rightarrow> Some (n, m)
      | Some a \<Rightarrow>
          (let e = (if sz \<noteq> - 1 \<and> n > sint sz \<and> sz > 0 then int a + uint sz else int a + n) in
           if e < 0 then None else map_option (Pair n) (store m (nat e) 0)))
   }"

definition vsprintf :: "addr \<Rightarrow> u8 list \<Rightarrow> vararg list \<Rightarrow> ram \<Rightarrow> (int \<times> ram) option" where
  "vsprintf dest fmt args m = vsnprintf (Some dest) (- 1) fmt args m"

definition snprintf :: "addr option \<Rightarrow> u32 \<Rightarrow> u8 list \<Rightarrow> vararg list \<Rightarrow> ram \<Rightarrow> (int \<times> ram) option" where
  "snprintf str sz fmt args m = vsnprintf str sz fmt args m"

definition sprintf :: "addr \<Rightarrow> u8 list \<Rightarrow> vararg list \<Rightarrow> ram \<Rightarrow> (int \<times> ram) option" where
  "sprintf dest fmt args m = vsprintf dest fmt args m"

section \<open>The count and the stored string\<close>

lemma concat_write_pad: "concat (write_pad n c) = replicate (nat n) (if c = 48 then 48 else 32)"
proof (induction n c rule: write_pad.induct)
  case (1 n c)
  show ?case
  proof (cases "n > 15")
    case True
    then have "nat n = 16 + nat (n - 16)" by simp
    with True 1 [OF refl] show ?thesis
      by (subst write_pad.simps) (simp only: replicate_add, simp)
  qed (simp add: write_pad.simps)
qed

text \<open>The count is the number of bytes put, unless the format ends in the middle of a directive.\<close>

lemma v_printf_count:
  "v_printf len args f = Some (n, out) \<Longrightarrow> n = - 1 \<or> n = len + int (length (concat out)) \<and> (len < 2147483648 \<longrightarrow> n < 2147483648)"
proof (induction len args f arbitrary: n out rule: v_printf.induct)
  case (2 len args c f)
  show ?case
  proof (cases "c = 37")
    case False
    let ?t = "takeWhile (\<lambda>x. x \<noteq> 37) (c # f)"
    obtain l o' where r: "i32 (len + int (length ?t)) = Some l" "out = ?t # o'"
        "v_printf l args (dropWhile (\<lambda>x. x \<noteq> 37) f) = Some (n, o')"
      using 2(3) False by (subst (asm) v_printf.simps(2)) (auto split: option.splits)
    show ?thesis using 2(1) [OF False r(1) r(3)] r(1,2)
      by (auto simp: i32_def split: if_splits)
  next
    case True
    show ?thesis
    proof (cases "inn_printf spec0 args f")
      case (Some q)
      show ?thesis
      proof (cases q)
        case Stop
        with Some True 2(3) show ?thesis by (subst (asm) v_printf.simps(2)) simp
      next
        case (Conversion p ch a g)
        obtain o1 a' l o' where r: "convert p ch a = Some (o1, a')" "i32 (len + int (length (concat o1))) = Some l"
            "out = o1 @ o'" "v_printf l a' g = Some (n, o')"
          using 2(3) Some Conversion True by (subst (asm) v_printf.simps(2)) (auto split: option.splits)
        show ?thesis using 2(2) [OF _ Some Conversion r(1) refl r(2) r(4)] True r(2,3)
          by (auto simp: i32_def split: if_splits)
      qed
    qed (use True 2(3) in \<open>simp add: v_printf.simps(2)\<close>)
  qed
qed simp

lemma patch_put:
  assumes "a + length xs + length zs < length m"
  shows "(patch (a + length xs) zs (patch a (xs @ [0]) m))[a + length xs + length zs := 0] = patch a ((xs @ zs) @ [0]) m"
proof -
  have "drop (length zs) (0 # drop (Suc (a + length xs)) m) \<noteq> []" using assms by simp
  then obtain v vs where v: "drop (length zs) (0 # drop (Suc (a + length xs)) m) = v # vs" by (metis neq_Nil_conv)
  then have "vs = drop (Suc (length zs)) (0 # drop (Suc (a + length xs)) m)" by (metis drop_Suc list.sel(3) tl_drop)
  then have vs: "vs = drop (Suc (a + length xs + length zs)) m" by (simp add: add_ac)
  have "patch (a + length xs) zs (patch a (xs @ [0]) m) = take a m @ xs @ zs @ v # vs"
    using assms v by (simp add: patch_def min_def)
  with assms show ?thesis by (simp add: patch_def list_update_append vs min_def add_ac)
qed

lemma swrite_str:
  assumes "swrites (Some a) sz out (length xs, patch a (xs @ [0]) m) = r" "length xs \<le> sz" "a + sz < length m"
  shows "r = Some (length (take sz (xs @ concat out)), patch a (take sz (xs @ concat out) @ [0]) m)"
proof -
  show ?thesis
    using assms
  proof (induction out arbitrary: xs r)
    case (Cons y out)
    show ?case
    proof (cases "length xs = sz")
      case True
      then show ?thesis using Cons.IH [OF refl Cons.prems(2,3)] Cons.prems(1) by (simp add: swrite_def)
    next
      case False
      define k where "k = min (length y) (sz - length xs)"
      let ?ys = "xs @ take k y"
      have k: "length ?ys \<le> sz" "length (take k y) = k" using False Cons.prems(2) by (auto simp: k_def)
      have b: "a + length xs + k < length m" using k Cons.prems(2,3) by simp
      have s1: "store_bytes (patch a (xs @ [0]) m) (a + length xs) (take k y) =
          Some (patch (a + length xs) (take k y) (patch a (xs @ [0]) m))"
        using b k by (simp add: store_bytes_def length_patch)
      have "(patch (a + length xs) (take k y) (patch a (xs @ [0]) m))[a + length xs + k := 0] = patch a (?ys @ [0]) m"
        using patch_put [of a xs "take k y" m] b k(2) by simp
      moreover have "length (patch (a + length xs) (take k y) (patch a (xs @ [0]) m)) = length m"
        using b k by (simp add: length_patch)
      ultimately have "swrite (Some a) sz y (length xs, patch a (xs @ [0]) m) = Some (length ?ys, patch a (?ys @ [0]) m)"
        using False Cons.prems(2) k b s1 by (simp add: swrite_def k_def [symmetric] store_def add.assoc)
      then have "r = swrites (Some a) sz out (length ?ys, patch a (?ys @ [0]) m)" using Cons.prems(1) by simp
      from Cons.IH [OF this [symmetric] k(1) Cons.prems(3)]
      have r: "r = Some (length (take sz (?ys @ concat out)), patch a (take sz (?ys @ concat out) @ [0]) m)" .
      have "take sz (?ys @ concat out) = take sz (xs @ concat (y # out))"
        using False Cons.prems(2) by (auto simp: k_def min_def)
      with r show ?thesis by (simp only:)
    qed
  qed simp
qed

lemma patch_single: "a < length m \<Longrightarrow> patch a [v] m = m[a := v]"
  by (simp add: patch_def upd_conv_take_nth_drop)

lemma patch_over: "ys \<noteq> [] \<Longrightarrow> patch a ys (m[a := v]) = patch a ys m"
  by (cases ys) (simp_all add: patch_def)

lemma swrite_fresh:
  assumes "0 < sz" "a + sz < length m"
  shows "swrite (Some a) sz y (0, m) = swrite (Some a) sz y (0, patch a [0] m)"
proof -
  define k where "k = min (length y) sz"
  have k: "k \<le> sz" "min (length y) sz = k" by (simp_all add: k_def)
  have l: "length (take k y) = k" by (simp add: k_def)
  show ?thesis
  proof (cases "k = 0")
    case True
    then show ?thesis using assms by (simp add: swrite_def k(2) store_bytes_def store_def patch_single Let_def)
  next
    case False
    then have n: "take k y \<noteq> []" using l by auto
    have s: "store_bytes m (a + 0) (take k y) = Some (patch a (take k y) m)"
        "store_bytes (patch a [0] m) (a + 0) (take k y) = Some (patch a (take k y) m)"
      using assms k(1) l n by (simp_all add: store_bytes_def patch_single patch_over del: length_take)
    show ?thesis using assms(1) by (simp only: swrite_def k(2) Let_def s prod.case diff_zero option.case if_True)
  qed
qed

lemma vsnprintf_stores:
  assumes "v_printf 0 args fmt = Some (n, out)" "n \<noteq> - 1" "2 \<le> unat sz" "unat sz < 2 ^ 31" "a + unat sz < length m"
  shows "vsnprintf (Some a) sz fmt args m = Some (int (length (concat out)),
    (patch a (take (unat sz - 1) (concat out) @ [0]) m)[a + min (length (concat out)) (unat sz) := 0])"
proof -
  let ?xs = "concat out" and ?k = "unat sz - 1"
  have n: "n = int (length ?xs)" using v_printf_count [OF assms(1)] assms(2) by simp
  have sz: "sz \<noteq> 0" "sz \<noteq> - 1" "sint sz = int (unat sz)" "uint sz = int (unat sz)"
  proof -
    show u: "uint sz = int (unat sz)" by simp
    have "unat sz < 2147483648" using assms(4) by simp
    then have "int (unat sz) < int 2147483648" by (simp only: of_nat_less_iff)
    then have "uint sz < 2147483648" by simp
    then show s: "sint sz = int (unat sz)" by (simp add: sint_cases)
    show "sz \<noteq> 0" using assms(3) by auto
    show "sz \<noteq> - 1"
    proof
      assume "sz = - 1"
      then have "sint sz = - 1" by simp
      with s show False by linarith
    qed
  qed
  obtain l m1 where w: "swrites (Some a) ?k out (0, m) = Some (l, m1)"
      "m1[a + min (length ?xs) (unat sz) := 0] = (patch a (take ?k ?xs @ [0]) m)[a + min (length ?xs) (unat sz) := 0]"
      "length m1 = length m"
  proof (cases out)
    case Nil
    have "m[a := 0] = (patch a [0] m)[a := 0]" using assms(5) by (simp add: patch_single)
    with Nil show thesis using that [of 0 m] by simp
  next
    case (Cons y ys)
    have "swrites (Some a) ?k out (0, m) = swrites (Some a) ?k out (length ([] :: u8 list), patch a ([] @ [0]) m)"
      using swrite_fresh [of ?k a m y] assms(3,5) by (simp add: Cons)
    from swrite_str [OF this [symmetric]] assms(3,5) have
      "swrites (Some a) ?k out (0, m) = Some (length (take ?k ?xs), patch a (take ?k ?xs @ [0]) m)" by simp
    then show thesis by (rule that) (use assms(3,5) in \<open>auto simp: length_patch\<close>)
  qed
  have e: "(if sz \<noteq> - 1 \<and> n > sint sz \<and> sz > 0 then int a + uint sz else int a + n) = int (a + min (length ?xs) (unat sz))"
  proof -
    have "n > sint sz \<longleftrightarrow> \<not> length ?xs \<le> unat sz" unfolding n sz(3) by (simp only: of_nat_less_iff not_le)
    then show ?thesis using sz(1,2) by (simp add: n word_gt_0 min_def)
  qed
  have b: "a + min (length ?xs) (unat sz) < length m1" using assms(5) w(3) by simp
  show ?thesis
  proof -
    let ?e = "int (a + min (length ?xs) (unat sz))"
    have "vsnprintf (Some a) sz fmt args m = (if ?e < 0 then None else map_option (Pair n) (store m1 (nat ?e) 0))"
      by (simp only: vsnprintf_def assms(1) w(1) sz(1) if_False e bind.bind_lunit prod.case option.case Let_def)
    also have "\<dots> = map_option (Pair n) (store m1 (a + min (length ?xs) (unat sz)) 0)"
      by (simp only: nat_int of_nat_less_0_iff if_False)
    finally show ?thesis using b by (simp add: store_def w(2) n)
  qed
qed

section \<open>The fields of integers\<close>

lemma sint_sub_todo: "w < 2 ^ 31 \<Longrightarrow> t \<le> 1 \<Longrightarrow> sint (of_nat w - of_nat t :: u32) = int w - int t"
proof -
  assume a: "w < 2 ^ 31" "t \<le> 1"
  have "sint (of_int (int w - int t) :: u32) = int w - int t"
    using a by (simp add: signed_of_int signed_take_bit_int_eq_self_iff del: of_int_diff)
  then show ?thesis by simp
qed

lemma sint_nat: "w < 2 ^ 31 \<Longrightarrow> sint (of_nat w :: u32) = int w"
  using sint_sub_todo [of w 0] by simp

lemma pad_nat:
  assumes "w < 2 ^ 31" "t \<le> 1" "y < 2 ^ 31"
  shows "pad (of_nat w - of_nat t) (of_nat y) c = Some (write_pad (int w - int t - int y) c)"
  using assms by (simp add: pad_def sint_sub_todo sint_nat i32_def)

lemma pad_nat0: "w < 2 ^ 31 \<Longrightarrow> y < 2 ^ 31 \<Longrightarrow> pad (of_nat w) (of_nat y) c = Some (write_pad (int w - int y) c)"
  using pad_nat [of w 0 y c] by simp

lemma print_out_field:
  assumes "hash p = 0" "width p = of_nat w" "preci p = of_nat k" "w < 2 ^ 31" "k < 2 ^ 31" "length ds < 2 ^ 31"
    and "length sg \<le> 1" "fl = 0 \<longleftrightarrow> sg = []" "dot p \<or> k = 0"
  shows "\<exists>out. print_out p fl (sg @ ds @ junk) (length sg + length ds) = Some out \<and> concat out =
    (let z = replicate (k - length ds) 48; fill = w - (length sg + max k (length ds)) in
     if left p then sg @ z @ ds @ replicate fill 32
     else if dot p then replicate fill 32 @ sg @ z @ ds
     else if padwith p = 48 then sg @ replicate fill 48 @ ds
     else replicate fill 32 @ sg @ ds)"
proof (cases "width p = 0 \<and> preci p = 0")
  case True
  have "w = 0" "k = 0" using True assms(2-5) by (simp_all add: word_unat_eq_iff unat_of_nat)
  then show ?thesis using True by (auto simp: print_out_def)
next
  case False
  define t where "t = length sg"
  have t: "t \<le> 1" "(if hash p > 0 then nat (hash p) else if fl \<noteq> 0 then 1 else 0) = t"
    using assms(1,7,8) by (cases sg; simp add: t_def)+
  have mx: "max (of_nat k) (of_nat (length ds)) = (of_nat (max k (length ds)) :: u32)"
    using assms(5,6) by (auto simp: max_def word_le_nat_alt unat_of_nat)
  have tk: "take t (sg @ ds @ junk) = sg" "drop t (sg @ ds @ junk) = ds @ junk" "length sg + length ds - t = length ds"
    "(if t \<noteq> 0 then [sg] else []) = (if sg = [] then [] else [sg])" "concat (if sg = [] then [] else [sg]) = sg"
    by (simp_all add: t_def)
  note pd = pad_nat [OF assms(4) t(1)] pad_nat0 [OF assms(5,6)]
  have ml: "max k (length ds) < 2 ^ 31" using assms(5,6) by simp
  have nt: "nat (int w - int t - int x) = w - (t + x)" "nat (int x - int y) = x - y" for x y by linarith+
  have r: "print_out p fl (sg @ ds @ junk) (length sg + length ds) =
    (let sgn = (if sg = [] then [] else [sg]); zeros = write_pad (int k - int (length ds)) 48;
         fill = write_pad (int w - int t - int (max k (length ds))) 32 in
     if left p then Some (sgn @ zeros @ [ds] @ fill)
     else if dot p then Some (fill @ sgn @ zeros @ [ds])
     else Some ((if padwith p = 48 then sgn @ write_pad (int w - int t - int (length ds)) (padwith p)
       else write_pad (int w - int t - int (length ds)) (padwith p) @ sgn) @ [ds]))"
    unfolding print_out_def Let_def t(2) tk
    using False by (simp only: if_False assms(2,3) mx pd ml assms(6) tk bind.bind_lunit Let_def if_cancel) simp
  have mk: "\<not> dot p \<Longrightarrow> max k (length ds) = length ds" using assms(9) by simp
  show ?thesis unfolding r Let_def
    using mk by (auto simp: concat_write_pad nt t_def)
qed

text \<open>What the standard asks of \<open>%d\<close>: flags, least width, least number of digits, value.\<close>

definition int_field :: "bool \<Rightarrow> bool \<Rightarrow> bool \<Rightarrow> bool \<Rightarrow> nat \<Rightarrow> nat option \<Rightarrow> int \<Rightarrow> u8 list" where
  "int_field lft pls spc zero w prec x =
     (let ds = (if prec = Some 0 \<and> x = 0 then [] else digs 10 False (nat \<bar>x\<bar>));
          ds = (case prec of None \<Rightarrow> ds | Some k \<Rightarrow> replicate (k - length ds) 48 @ ds);
          sg = (if x < 0 then [45] else if pls then [43] else if spc then [32] else []);
          fill = w - length (sg @ ds)
      in if lft then sg @ ds @ replicate fill 32
         else if zero \<and> prec = None then sg @ replicate fill 48 @ ds
         else replicate fill 32 @ sg @ ds)"

lemma length_digs: "i < base ^ Suc k \<Longrightarrow> 2 \<le> base \<Longrightarrow> length (digs base up i) \<le> Suc k"
proof (induction k arbitrary: i)
  case (Suc k)
  then have "i div base < base ^ Suc k" by (simp add: div_less_iff_less_mult mult.commute)
  from Suc.IH [OF this Suc.prems(2)] show ?case by (subst digs.simps) auto
qed (simp add: digs.simps)

lemma length_digs_u32: "length (digs 10 up (unat (v :: u32))) \<le> 10"
  using length_digs [of "unat v" 10 9 up] unat_u32 [of v] by simp

lemma num_digits_10:
  assumes "\<not> sint (longs p) > 1"
  shows "num_digits p num llnum 10 0 False = Some (digs 10 False (unat num))"
proof -
  have "length (digs 10 False (unat num)) < 123" using length_digs_u32 [of False num] by linarith
  from tostr_result [OF _ _ this, of 1 "replicate 128 0"]
  obtain m' where m: "tostr (replicate 128 0) 1 123 (unat num) 10 False = Some (length (digs 10 False (unat num)), m')"
      "cstr m' 1 (digs 10 False (unat num))" by auto
  have "seg 1 n m' = take n (seg 1 (Suc n) m')" for n by (simp add: seg_def)
  from this [of "length (digs 10 False (unat num))"] m assms show ?thesis by (simp add: num_digits_def ltostr_def cstr_iff bytes_iff)
qed

lemma unat_negate:
  assumes "sint v < 0"
  shows "unat (- v) = nat \<bar>sint (v :: u32)\<bar>"
proof -
  have b: "0 \<le> uint v" "uint v < 4294967296" using unsigned_less [of v, where 'a = int] by simp_all
  have u: "sint v = uint v - 4294967296" "0 < uint v"
    using assms sint_cases [of v] b by (auto split: if_splits)
  have "uint (- v) = (4294967296 - uint v) mod 4294967296" by (simp add: uint_word_ariths)
  also have "\<dots> = 4294967296 - uint v" using u(2) b by (intro mod_pos_pos_trivial) auto
  finally have "uint (- v) = - sint v" using u(1) by simp
  then show ?thesis using assms by (simp flip: nat_uint_eq)
qed

lemma digs_hd: "0 < i \<Longrightarrow> hd (digs 10 up i) \<noteq> 48"
proof (induction "10 :: nat" up i rule: digs.induct)
  case (1 up i)
  then show ?case
    by (cases "10 \<le> i") (auto simp: digs.simps [of 10 up i] digit_char_def hd_append word_unat_eq_iff unat_word_ariths unat_of_nat)
qed

lemma unat_nonneg: "\<not> sint v < 0 \<Longrightarrow> unat v = nat \<bar>sint (v :: u32)\<bar>"
  using sint_cases [of v] unsigned_less [of v] by (auto simp flip: nat_uint_eq split: if_splits)

lemma bind_pair: "(x \<bind> (\<lambda>out. Some (out, c))) = map_option (\<lambda>out. (out, c)) x"
  by (cases x) auto

lemma num_printf_d:
  assumes "hash p = 0" "longs p \<in> {0, 1}" "width p = of_nat w" "w < 2 ^ 31"
    and "preci p = (case prec of None \<Rightarrow> 0 | Some k \<Rightarrow> of_nat k)" "\<forall>k. prec = Some k \<longrightarrow> k < 2 ^ 31"
    and "dot p \<longleftrightarrow> prec \<noteq> None" "sint v \<noteq> - (2 ^ 31)"
  shows "\<exists>out. num_printf p True 10 [] False (AInt v # args) = Some (out, args) \<and>
    concat out = int_field (left p) (plus p) (space p) (padwith p = 48) w prec (sint v)"
proof -
  define k where "k = (case prec of None \<Rightarrow> 0 | Some k \<Rightarrow> k)"
  have k: "preci p = of_nat k" "k < 2 ^ 31" "dot p \<or> k = 0"
    using assms(5-7) by (auto simp: k_def split: option.splits)
  have lg: "\<not> sint (longs p) > 1" "\<not> sint (longs p) < 0" "\<not> sint (longs p) < - 1"
    using assms(2) by auto
  define i where "i = nat \<bar>sint v\<bar>"
  let ?ds = "digs 10 False i"
  define sg :: "u8 list" where "sg = (if sint v < 0 then [45] else if plus p then [43] else if space p then [32] else [])"
  obtain num flag where st: "strip_sign p True v 0 = Some (num, 0, flag)" "unat num = i"
      "flag = (if sint v < 0 then 2 else 1)"
    using lg(1) assms(8) unat_negate [of v] unat_nonneg [of v]
    by (cases "sint v < 0") (auto simp: strip_sign_def negate_def i_def)
  define z where "z = (dot p \<and> ?ds = [48])"
  have zi: "z \<longleftrightarrow> prec \<noteq> None \<and> i = 0"
    using digs_hd [of i False] by (cases "i = 0") (auto simp: z_def assms(7) digs.simps [of 10 False 0] digit_char_def)
  define ds where "ds = (if z then [] else ?ds)"
  define junk :: "u8 list" where "junk = (if z then [48] else [])"
  have dj: "sg @ ?ds = sg @ ds @ junk" by (auto simp: ds_def junk_def z_def)
  have fl: "(if sg = [] then 0 else flag) = 0 \<longleftrightarrow> sg = []" by (auto simp: st(3))
  have len: "length ds < 2 ^ 31" "length sg \<le> 1"
    using length_digs_u32 [of False num] by (auto simp: ds_def sg_def st(2) zi)
  have sign: "(if flag = 2 then [45] else if flag = 1 \<and> (plus p \<or> space p) then [if plus p then 43 else 32] else []) = sg"
    by (simp add: st(3) sg_def)
  have ph: "(if c then p\<lparr>hash := 0\<rparr> else p) = p" for c using assms(1) by (cases p) simp
  have r: "num_printf p True 10 [] False (AInt v # args) =
      map_option (\<lambda>out. (out, args)) (print_out p (if sg = [] then 0 else flag) (sg @ ds @ junk) (length sg + length ds))"
    unfolding num_printf_def take_number_def
    using num_digits_10 [OF lg(1), of num 0] st(1) assms(1)
    by (cases z) (auto simp: lg st(2) ph sign Let_def z_def ds_def junk_def bind_pair)
  have zk: "ds = (if prec = Some 0 \<and> i = 0 then [] else if z then [] else ?ds)"
    "z \<Longrightarrow> ?ds = [48]" "prec = None \<Longrightarrow> k = 0" by (auto simp: ds_def zi k_def digs.simps [of 10 False 0] digit_char_def)
  obtain out where o: "print_out p (if sg = [] then 0 else flag) (sg @ ds @ junk) (length sg + length ds) = Some out"
    "concat out = (let z = replicate (k - length ds) 48; fill = w - (length sg + max k (length ds)) in
     if left p then sg @ z @ ds @ replicate fill 32
     else if dot p then replicate fill 32 @ sg @ z @ ds
     else if padwith p = 48 then sg @ replicate fill 48 @ ds
     else replicate fill 32 @ sg @ ds)"
    using print_out_field [OF assms(1,3) k(1) assms(4) k(2) len fl k(3), of junk] by blast
  have f: "int_field (left p) (plus p) (space p) (padwith p = 48) w prec (sint v) =
    (let ds' = (if prec = Some 0 \<and> i = 0 then [] else ?ds);
         ds'' = (case prec of None \<Rightarrow> ds' | Some k \<Rightarrow> replicate (k - length ds') 48 @ ds');
         fill = w - length (sg @ ds'')
     in if left p then sg @ ds'' @ replicate fill 32
        else if padwith p = 48 \<and> prec = None then sg @ replicate fill 48 @ ds''
        else replicate fill 32 @ sg @ ds'')"
  proof -
    have vi: "sint v = 0 \<longleftrightarrow> i = 0" by (simp add: i_def)
    show ?thesis by (simp only: int_field_def i_def [symmetric] sg_def [symmetric] vi Let_def)
  qed
  have "concat out = int_field (left p) (plus p) (space p) (padwith p = 48) w prec (sint v)"
  proof (cases prec)
    case None
    then show ?thesis unfolding o(2) f using assms(7) zi zk(3) by (simp add: Let_def ds_def)
  next
    case (Some j)
    have j: "j = k" "dot p" using Some assms(7) by (simp_all add: k_def)
    have d: "replicate (k - length ds) 48 @ ds =
        replicate (k - length (if k = 0 \<and> i = 0 then [] else ?ds)) 48 @ (if k = 0 \<and> i = 0 then [] else ?ds)"
    proof (cases "i = 0 \<and> k \<noteq> 0")
      case True
      then have "z" using zi Some by simp
      with True show ?thesis using zk(2) by (cases k) (simp_all add: ds_def replicate_append_same)
    qed (use zi Some in \<open>auto simp: ds_def\<close>)
    have "length (replicate (k - length ds) 48 @ ds) = max k (length ds)" by simp
    then show ?thesis unfolding o(2) f using j Some d by (simp add: Let_def del: append_assoc)
  qed
  with r o(1) show ?thesis by simp
qed

section \<open>The text of a directive\<close>

text \<open>\<open>%\<close>, flags out of \<open>-\<close>, \<open>+\<close> and the space, \<open>0\<close>, least width, precision, \<open>d\<close>.\<close>

definition d_directive :: "u8 list \<Rightarrow> bool \<Rightarrow> nat \<Rightarrow> nat option \<Rightarrow> u8 list" where
  "d_directive fl zero w prec = 37 # fl @ (if zero then [48] else []) @ (if w = 0 then [] else digs 10 False w) @
     (case prec of None \<Rightarrow> [] | Some k \<Rightarrow> 46 # digs 10 False k) @ [100]"

lemma inn_flags:
  "set fl \<subseteq> {45, 43, 32} \<Longrightarrow> inn_printf p args (fl @ f) =
     inn_printf (p\<lparr>left := left p \<or> 45 \<in> set fl, plus := plus p \<or> 43 \<in> set fl, space := space p \<or> 32 \<in> set fl\<rparr>) args f"
proof (induction fl arbitrary: p)
  case (Cons c fl)
  then have "c = 45 \<or> c = 43 \<or> c = 32" by auto
  with Cons show ?case by (elim disjE) (simp_all add: inn_printf.simps(2))
qed simp

lemma read_width_digits:
  assumes "ds = ch # ds'" "\<forall>c \<in> set ds. is_digit 10 c" "no_digit 10 f" "horner 10 0 ds < 2 ^ 32"
  shows "read_width p ch (ds' @ f) =
    (p\<lparr>width := of_nat (horner 10 0 ds), padwith := (if ch = 48 \<and> \<not> left p then 48 else padwith p)\<rparr>, f)"
proof -
  have "number 10 [] [] ds f" using assms by (simp add: number_def)
  from strtoul_result [OF this refl] assms(4)
  have "strtoul (ds @ f) 10 = (of_nat (horner 10 0 ds), Some (length ds), None)" by simp
  then show ?thesis by (simp add: read_width_def assms(1))
qed

lemma read_preci_digits:
  assumes "\<forall>c \<in> set ds. is_digit 10 c" "ds \<noteq> []" "no_digit 10 f" "horner 10 0 ds < 2 ^ 31"
  shows "read_preci p args (ds @ f) = Some (p\<lparr>dot := True, preci := of_nat (horner 10 0 ds)\<rparr>, args, f)"
proof -
  have "number 10 [] [] ds f" using assms by (simp add: number_def)
  from strtol_result [OF this refl] assms(4)
  have s: "\<exists>v. strtol (ds @ f) 10 = (v, Some (length ds), None) \<and> sint v = int (horner 10 0 ds)"
    by (simp add: saturate_def signed_errno_def)
  have "hd (ds @ f) \<noteq> 42" using assms(1,2) by (cases ds) (auto simp: is_digit_def digit_val_def)
  moreover obtain v where v: "strtol (ds @ f) 10 = (v, Some (length ds), None)" "sint v = int (horner 10 0 ds)"
    using s by blast
  moreover have "v = of_nat (horner 10 0 ds)"
    by (rule signed_word_eqI [where 'a = int]) (simp only: v(2) sint_nat [OF assms(4)])
  ultimately show ?thesis by (simp add: read_preci_def Let_def assms(2))
qed

text \<open>The flags after reading a directive.\<close>

definition d_spec :: "u8 list \<Rightarrow> bool \<Rightarrow> nat \<Rightarrow> nat option \<Rightarrow> spec" where
  "d_spec fl zero w prec = spec0\<lparr>left := 45 \<in> set fl, plus := 43 \<in> set fl, space := 32 \<in> set fl,
     padwith := (if zero \<and> 45 \<notin> set fl then 48 else 32), width := of_nat w, dot := prec \<noteq> None,
     preci := (case prec of None \<Rightarrow> 0 | Some k \<Rightarrow> of_nat k)\<rparr>"

lemma inn_precision:
  assumes "\<forall>k. prec = Some k \<longrightarrow> k < 2 ^ 31" "\<not> dot p" "preci p = 0"
  shows "inn_printf p args ((case prec of None \<Rightarrow> [] | Some k \<Rightarrow> 46 # digs 10 False k) @ 100 # f) =
    Some (Conversion (p\<lparr>dot := prec \<noteq> None, preci := (case prec of None \<Rightarrow> 0 | Some k \<Rightarrow> of_nat k)\<rparr>) 100 args f)"
proof (cases prec)
  case None
  have "p\<lparr>dot := False, preci := 0\<rparr> = p" using assms(2,3) by (cases p) simp
  with None show ?thesis by (simp add: inn_printf.simps(2))
next
  case (Some k)
  have "no_digit 10 (100 # f)" by (simp add: no_digit_def is_digit_def digit_val_def)
  then have "read_preci p args (digs 10 False k @ 100 # f) = Some (p\<lparr>dot := True, preci := of_nat k\<rparr>, args, 100 # f)"
    using read_preci_digits [of "digs 10 False k" "100 # f" p args] digs_value [of 10 False k] assms(1) Some by simp
  with Some show ?thesis by (simp add: inn_printf.simps(2))
qed

lemma is_digit_10: "is_digit 10 c \<longleftrightarrow> 48 \<le> c \<and> c \<le> 57"
  using unat_u8 [of c] by (auto simp: is_digit_def digit_val_def word_le_nat_alt unat_word_ariths unat_sub_if')

lemma inn_directive:
  assumes "set fl \<subseteq> {45, 43, 32}" "w < 2 ^ 31" "\<forall>k. prec = Some k \<longrightarrow> k < 2 ^ 31"
  shows "inn_printf spec0 args (tl (d_directive fl zero w prec) @ f) =
    Some (Conversion (d_spec fl zero w prec) 100 args f)"
proof -
  define wd where "wd = (if zero then [48] else []) @ (if w = 0 then [] else digs 10 False w)"
  define r where "r = (case prec of None \<Rightarrow> [] | Some k \<Rightarrow> 46 # digs 10 False k) @ 100 # f"
  define q where "q = spec0\<lparr>left := 45 \<in> set fl, plus := 43 \<in> set fl, space := 32 \<in> set fl\<rparr>"
  have t: "tl (d_directive fl zero w prec) @ f = fl @ wd @ r" by (simp add: d_directive_def wd_def r_def)
  have q: "inn_printf spec0 args (fl @ wd @ r) = inn_printf q args (wd @ r)"
    using inn_flags [OF assms(1), of spec0 args "wd @ r"] by (simp add: q_def spec0_def)
  have nd: "no_digit 10 r" by (cases prec) (simp_all add: r_def no_digit_def is_digit_def digit_val_def)
  have wv: "horner 10 0 wd = w" "\<forall>c \<in> set wd. is_digit 10 c"
  proof -
    have "is_digit 10 48" by (simp add: is_digit_def digit_val_def)
    then show "\<forall>c \<in> set wd. is_digit 10 c" using digs_value(2) [of 10 False w] by (auto simp: wd_def)
    show "horner 10 0 wd = w" using digs_value(1) [of 10 False w] by (auto simp: wd_def digit_val_def)
  qed
  have step: "inn_printf q args (wd @ r) =
      inn_printf (q\<lparr>width := of_nat w, padwith := (if zero \<and> 45 \<notin> set fl then 48 else 32)\<rparr>) args r"
  proof (cases wd)
    case Nil
    then have "w = 0" "\<not> zero" by (auto simp: wd_def split: if_splits)
    with Nil show ?thesis by (simp add: q_def spec0_def)
  next
    case (Cons c cs)
    have c: "c = 48 \<longleftrightarrow> zero"
      using Cons digs_hd [of w False] by (cases "digs 10 False w") (auto simp: wd_def split: if_splits)
    have d: "48 \<le> c" "c \<le> 57" using wv(2) Cons by (simp_all add: is_digit_10)
    have "read_width q c (cs @ r) = (q\<lparr>width := of_nat w, padwith := (if zero \<and> 45 \<notin> set fl then 48 else 32)\<rparr>, r)"
      using read_width_digits [OF Cons wv(2) nd] wv(1) assms(2) c by (simp add: q_def spec0_def)
    moreover have "inn_printf q args (c # cs @ r) =
        inn_printf (fst (read_width q c (cs @ r))) args (snd (read_width q c (cs @ r)))"
      using d by (subst inn_printf.simps(2)) (auto simp: q_def spec0_def)
    ultimately show ?thesis using Cons by simp
  qed
  have "inn_printf (q\<lparr>width := of_nat w, padwith := (if zero \<and> 45 \<notin> set fl then 48 else 32)\<rparr>) args r =
      Some (Conversion (d_spec fl zero w prec) 100 args f)"
    unfolding r_def by (subst inn_precision [OF assms(3)]) (simp_all add: q_def spec0_def d_spec_def)
  with t q step show ?thesis by simp
qed

lemma v_printf_d_field:
  fixes zero :: bool
  assumes "set fl \<subseteq> {45, 43, 32}" "w < 2 ^ 31" "\<forall>k. prec = Some k \<longrightarrow> k < 2 ^ 31" "sint v \<noteq> - (2 ^ 31)"
  defines "xs \<equiv> int_field (45 \<in> set fl) (43 \<in> set fl) (32 \<in> set fl) zero w prec (sint v)"
  assumes "len + int (length xs) < 2 ^ 31" "0 \<le> len"
  shows "\<exists>out. concat out = xs \<and> v_printf len (AInt v # args) (d_directive fl zero w prec @ f) =
    map_option (\<lambda>(n, out'). (n, out @ out')) (v_printf (len + int (length xs)) args f)"
proof -
  let ?p = "d_spec fl zero w prec"
  have i: "inn_printf spec0 (AInt v # args) (tl (d_directive fl zero w prec) @ f) = Some (Conversion ?p 100 (AInt v # args) f)"
    by (rule inn_directive [OF assms(1-3)])
  have "int_field (left ?p) (plus ?p) (space ?p) (padwith ?p = 48) w prec (sint v) = xs"
    by (simp add: d_spec_def xs_def int_field_def)
  then obtain out where o: "num_printf ?p True 10 [] False (AInt v # args) = Some (out, args)" "concat out = xs"
    using num_printf_d [of ?p w prec v args] assms(2-4) by (auto simp: d_spec_def spec0_def)
  have "convert ?p 100 (AInt v # args) = Some (out, args)" using o(1) by (simp add: convert_def)
  moreover have "i32 (len + int (length (concat out))) = Some (len + int (length xs))"
    using assms(6,7) o(2) by (simp add: i32_def)
  moreover have "d_directive fl zero w prec = 37 # tl (d_directive fl zero w prec)" by (simp add: d_directive_def)
  ultimately have "v_printf len (AInt v # args) (37 # tl (d_directive fl zero w prec) @ f) =
      map_option (\<lambda>(n, out'). (n, out @ out')) (v_printf (len + int (length xs)) args f)"
    using i by (simp add: v_printf.simps(2))
  moreover have "d_directive fl zero w prec @ f = 37 # tl (d_directive fl zero w prec) @ f" by (simp add: d_directive_def)
  ultimately show ?thesis using o(2) by metis
qed

lemma int_field_plain:
  "int_field False False False False 0 None x = (if x < 0 then [45] else []) @ digs 10 False (nat \<bar>x\<bar>)"
  by (simp add: int_field_def Let_def)

lemma d_text_number:
  assumes "x \<noteq> - (2 ^ 31)"
  shows "number 10 [] (if x < 0 then [45] else []) (digs 10 False (nat \<bar>x\<bar>)) []"
  using digs_value(2) [of 10 False "nat \<bar>x\<bar>"] by (simp add: number_def no_digit_def at_def)

lemma strtol_d_text:
  assumes "sint v \<noteq> - (2 ^ 31)" "xs = int_field False False False False 0 None (sint v)"
  shows "strtol xs 10 = (v, Some (length xs), None)"
proof -
  let ?sg = "if sint v < 0 then [45] else [] :: u8 list" and ?ds = "digs 10 False (nat \<bar>sint v\<bar>)"
  have x: "xs = [] @ ?sg @ ?ds @ []" using assms(2) by (simp add: int_field_plain)
  have h: "(if ?sg = [45] then - int (horner 10 0 ?ds) else int (horner 10 0 ?ds)) = sint v"
    using digs_value(1) [of 10 False "nat \<bar>sint v\<bar>"] by simp
  obtain w where w: "strtol xs 10 = (w, Some (length xs), signed_errno 32 (sint v))" "sint w = saturate 32 (sint v)"
    using strtol_result [OF d_text_number [OF assms(1)] x] x unfolding h by auto
  have b: "- (2 ^ 31) < sint v" "sint v < 2 ^ 31"
    using assms(1) sint_greater_eq [of v] sint_less [of v] by simp_all
  have "sint w = sint v" using w(2) b by (simp add: saturate_def)
  then have "w = v" by (rule signed_word_eqI [where 'a = int])
  moreover have "signed_errno 32 (sint v) = None" using b by (simp add: signed_errno_def)
  ultimately show ?thesis using w(1) by simp
qed

lemma demo_digits: "digs 10 False 42 = [52, 50]" "digs 10 False 5 = [53]"
  by (simp_all add: digs.simps [of 10 False 42] digs.simps [of 10 False 4] digs.simps [of 10 False 5] digit_char_def)

lemma demo_field: "int_field False True False True 5 None 42 = [43, 48, 48, 52, 50]"
proof -
  have "replicate 2 (48 :: u8) = [48, 48]" by (simp add: numeral_2_eq_2)
  then show ?thesis by (simp add: int_field_def Let_def demo_digits)
qed

lemma demo_directive: "d_directive [43] True 5 None = [37, 43, 48, 53, 100]"
  by (simp add: d_directive_def demo_digits)

section \<open>Properties\<close>

text \<open>C23: a \<open>%d\<close> directive with any flags out of \<open>-\<close>, \<open>+\<close>, space and \<open>0\<close>, any width and any precision puts the field the
  C standard prescribes for its argument, advances the count by its length and goes on with the rest of the format and of
  the arguments. The least integer is excluded, which the code negates.\<close>

theorem printf_d_field:
  fixes zero :: bool
  assumes "set fl \<subseteq> {45, 43, 32}" "w < 2 ^ 31" "\<forall>k. prec = Some k \<longrightarrow> k < 2 ^ 31" "sint v \<noteq> - (2 ^ 31)"
    and "xs = int_field (45 \<in> set fl) (43 \<in> set fl) (32 \<in> set fl) zero w prec (sint v)"
    and "len + int (length xs) < 2 ^ 31" "0 \<le> len"
  shows "\<exists>out. concat out = xs \<and> v_printf len (AInt v # args) (d_directive fl zero w prec @ f) =
    map_option (\<lambda>(n, out'). (n, out @ out')) (v_printf (len + int (length xs)) args f)"
  using v_printf_d_field [of fl w prec v len zero] assms by simp

theorem printf_d_field_witness:
  "\<exists>out. concat out = [43, 48, 48, 52, 50] \<and> v_printf 0 [AInt 42] [37, 43, 48, 53, 100] = Some (5, out)"
  using printf_d_field [of "[43]" 5 None 42 "[43, 48, 48, 52, 50]" True 0 "[]" "[]"]
  by (simp add: demo_field demo_directive)

text \<open>C24: \<open>vsnprintf\<close> with a size of at least 2 returns the number of bytes of the whole output and stores its first
  \<open>size - 1\<close> bytes with a NUL, touching no other RAM than one byte: when the output has \<open>size\<close> bytes or more it stores a
  second NUL at \<open>str[size]\<close>, one byte past the buffer.\<close>

theorem vsnprintf_memory:
  assumes "v_printf 0 args fmt = Some (n, out)" "n \<noteq> - 1" "2 \<le> unat sz" "unat sz < 2 ^ 31" "a + unat sz < length m"
  shows "vsnprintf (Some a) sz fmt args m = Some (int (length (concat out)),
    (patch a (take (unat sz - 1) (concat out) @ [0]) m)[a + min (length (concat out)) (unat sz) := 0])"
  by (rule vsnprintf_stores [OF assms])

theorem vsnprintf_memory_witness:
  "vsnprintf (Some 0) 2 [97, 98, 99] [] [7, 7, 7, 7, 7] = Some (3, [97, 0, 0, 7, 7])"
  using vsnprintf_memory [of "[]" "[97, 98, 99]" 3 "[[97, 98, 99]]" 2 0 "[7, 7, 7, 7, 7]"]
  by (simp add: v_printf.simps(2) i32_def patch_def)

text \<open>What \<open>snprintf\<close> stores for the format \<open>%d\<close> in a buffer large enough is a string inside that buffer, and
  \<open>strtol\<close> reads the argument back from it, for every \<open>int\<close> but the least.\<close>

theorem snprintf_d_strtol:
  assumes "sint v \<noteq> - (2 ^ 31)" "12 \<le> unat sz" "unat sz < 2 ^ 31" "a + unat sz < length m"
  shows "\<exists>xs m'. snprintf (Some a) sz [37, 100] [AInt v] m = Some (int (length xs), m') \<and> cstr m' a xs \<and>
    (\<forall>i < length m. i < a \<or> a + unat sz \<le> i \<longrightarrow> m' ! i = m ! i) \<and> strtol xs 10 = (v, Some (length xs), None)"
proof -
  let ?xs = "int_field False False False False 0 None (sint v)"
  have "nat \<bar>sint v\<bar> < 10 ^ Suc 9" using sint_greater_eq [of v] sint_less [of v] by simp
  then have "length (digs 10 False (nat \<bar>sint v\<bar>)) \<le> Suc 9" by (rule length_digs) simp
  then have l: "length ?xs \<le> 11" by (cases "sint v < 0") (simp_all add: int_field_plain)
  have "d_directive [] False 0 None = [37, 100]" by (simp add: d_directive_def)
  then obtain out where o: "concat out = ?xs" "v_printf 0 [AInt v] [37, 100] = Some (int (length ?xs), out)"
    using v_printf_d_field [of "[]" 0 None v 0 False "[]" "[]"] assms(1) l by auto
  have z: "0 \<notin> set ?xs" using digs_value(2) [of 10 False "nat \<bar>sint v\<bar>"] by (auto simp: int_field_plain)
  let ?m = "patch a (?xs @ [0]) m"
  have r: "snprintf (Some a) sz [37, 100] [AInt v] m = Some (int (length ?xs), ?m[a + length ?xs := 0])"
    unfolding snprintf_def using vsnprintf_stores [OF o(2) _ _ assms(3,4)] assms(2) l by (simp add: o(1))
  have "?m ! (a + length ?xs) = 0" using assms(2,4) l by (simp add: nth_patch nth_append)
  then have e: "?m[a + length ?xs := 0] = ?m" by (metis list_update_id)
  have "cstr ?m a ?xs" using cstr_patch_self [OF z, of a m] assms(2,4) l by simp
  moreover have "\<forall>i < length m. i < a \<or> a + unat sz \<le> i \<longrightarrow> ?m ! i = m ! i"
    using assms(2,4) l by (auto simp: nth_patch)
  ultimately show ?thesis using r e strtol_d_text [OF assms(1) refl] by auto
qed

theorem snprintf_d_strtol_witness:
  "\<exists>xs m'. snprintf (Some 0) 12 [37, 100] [AInt 42] (replicate 16 7) = Some (int (length xs), m') \<and> cstr m' 0 xs \<and>
    strtol xs 10 = (42, Some (length xs), None)"
  using snprintf_d_strtol [of 42 12 0 "replicate 16 7"] by auto

end
