(* ===== verification/Stdio.thy ===== *)
theory Stdio
  imports Memfs Printf
begin

text \<open>
  Buffered files (\<open>src/lib/c/libstdio\<close>). The kernel calls below are the parameter \<open>sys\<close> over an environment \<open>'e\<close>; the
  descriptor layer of \<open>Memfs\<close> is one instance. A \<open>FILE\<close> is a record, and a pointer to one an index into the list of all
  that were ever allocated, \<open>stdin\<close>, \<open>stdout\<close> and \<open>stderr\<close> first; an entry is \<open>None\<close> once it is freed, and using it is
  undefined. The list \<open>root\<close> holds the streams linked from \<open>__stdio_root\<close>. A buffer belongs to its stream; the data of
  the caller are lists of bytes.
\<close>

section \<open>State\<close>

record 'e sys =
  sys_read :: "int \<Rightarrow> nat \<Rightarrow> 'e \<Rightarrow> (int \<times> u8 list \<times> 'e) option"
  sys_write :: "int \<Rightarrow> u8 list \<Rightarrow> 'e \<Rightarrow> (int \<times> 'e) option"
  sys_lseek :: "int \<Rightarrow> int \<Rightarrow> int \<Rightarrow> 'e \<Rightarrow> (int \<times> 'e) option"
  sys_open :: "u8 list \<Rightarrow> u32 \<Rightarrow> 'e \<Rightarrow> (int \<times> 'e) option"
  sys_close :: "int \<Rightarrow> 'e \<Rightarrow> (int \<times> 'e) option"
  sys_isfifo :: "int \<Rightarrow> 'e \<Rightarrow> (bool \<times> 'e) option"
  sys_eintr :: "'e \<Rightarrow> bool"
  sys_malloc :: "nat \<Rightarrow> 'e \<Rightarrow> bool \<times> 'e"

datatype sflag = ERRORINDICATOR | EOFINDICATOR | BUFINPUT | BUFLINEWISE | NOBUF | STATICBUF | FDPIPE
  | CANREAD | CANWRITE

text \<open>\<open>heap_buf\<close> says whether \<open>buf\<close> came from \<open>malloc\<close>, which \<open>free\<close> relies on.\<close>

record FILE =
  fileno_of :: int
  flags :: "sflag set"
  bs :: nat
  bm :: nat
  buflen :: nat
  buf :: "u8 list"
  heap_buf :: bool
  ungetbuf :: u8
  ungotten :: bool

record 'e stdio =
  files :: "FILE option list"
  root :: "nat list"
  at_exit :: bool
  env :: 'e

definition BUFSIZE :: nat where
  "BUFSIZE = 2048"

abbreviation (input) STDIN :: nat where "STDIN \<equiv> 0"
abbreviation (input) STDOUT :: nat where "STDOUT \<equiv> 1"
abbreviation (input) STDERR :: nat where "STDERR \<equiv> 2"

definition stdin0 :: FILE where
  "stdin0 = \<lparr>fileno_of = 0, flags = {BUFINPUT, BUFLINEWISE, STATICBUF, CANREAD}, bs = 0, bm = 0, buflen = BUFSIZE,
     buf = replicate BUFSIZE 0, heap_buf = False, ungetbuf = 0, ungotten = False\<rparr>"

definition stdout0 :: FILE where
  "stdout0 = \<lparr>fileno_of = 1, flags = {BUFLINEWISE, STATICBUF, CANWRITE}, bs = 0, bm = 0, buflen = BUFSIZE,
     buf = replicate BUFSIZE 0, heap_buf = False, ungetbuf = 0, ungotten = False\<rparr>"

definition stderr0 :: FILE where
  "stderr0 = \<lparr>fileno_of = 2, flags = {NOBUF, CANWRITE}, bs = 0, bm = 0, buflen = 0, buf = [], heap_buf = False,
     ungetbuf = 0, ungotten = False\<rparr>"

definition stdio0 :: "'e \<Rightarrow> 'e stdio" where
  "stdio0 e = \<lparr>files = [Some stdin0, Some stdout0, Some stderr0], root = [], at_exit = False, env = e\<rparr>"

definition get :: "nat \<Rightarrow> 'e stdio \<Rightarrow> FILE option" where
  "get i st = (if i < length (files st) then files st ! i else None)"

definition put :: "nat \<Rightarrow> FILE \<Rightarrow> 'e stdio \<Rightarrow> 'e stdio" where
  "put i f st = st\<lparr>files := (files st)[i := Some f]\<rparr>"

section \<open>Flushing\<close>

text \<open>\<open>fflush_unlocked\<close> on a stream.\<close>

definition fflush1 :: "'e sys \<Rightarrow> nat \<Rightarrow> 'e stdio \<Rightarrow> (int \<times> 'e stdio) option" where
  "fflush1 sys i st = do {
     f \<leftarrow> get i st;
     if BUFINPUT \<in> flags f then do {
       e \<leftarrow> (if bm f \<noteq> bs f then map_option snd (sys_lseek sys (fileno_of f) (int (bm f) - int (bs f)) 1 (env st))
         else Some (env st));
       Some (0, put i (f\<lparr>bs := 0, bm := 0\<rparr>) (st\<lparr>env := e\<rparr>))
     } else if bm f = 0 then Some (0, st)
     else if length (buf f) < bm f then None
     else do {
       (r, e) \<leftarrow> sys_write sys (fileno_of f) (take (bm f) (buf f)) (env st);
       (if r \<noteq> int (bm f) then Some (- 1, put i (f\<lparr>flags := insert ERRORINDICATOR (flags f)\<rparr>) (st\<lparr>env := e\<rparr>))
        else Some (0, put i (f\<lparr>bm := 0\<rparr>) (st\<lparr>env := e\<rparr>)))
     }
   }"

fun flush_list :: "'e sys \<Rightarrow> nat list \<Rightarrow> int \<Rightarrow> 'e stdio \<Rightarrow> (int \<times> 'e stdio) option" where
  "flush_list sys [] res st = Some (res, st)"
| "flush_list sys (i # is) res st = do {
     (r, st) \<leftarrow> fflush1 sys i st;
     flush_list sys is (if r \<noteq> 0 then - 1 else res) st
   }"

text \<open>\<open>fflush\<close>; \<open>None\<close> is the NULL pointer.\<close>

definition fflush :: "'e sys \<Rightarrow> nat option \<Rightarrow> 'e stdio \<Rightarrow> (int \<times> 'e stdio) option" where
  "fflush sys p st = (case p of
     Some i \<Rightarrow> fflush1 sys i st
   | None \<Rightarrow> do {
       (r, st) \<leftarrow> fflush1 sys STDIN st;
       (r, st) \<leftarrow> fflush1 sys STDOUT st;
       (r, st) \<leftarrow> fflush1 sys STDERR st;
       flush_list sys (root st) 0 st
     })"

definition fflush4 :: "'e sys \<Rightarrow> nat \<Rightarrow> sflag set \<Rightarrow> 'e stdio \<Rightarrow> (int \<times> 'e stdio) option" where
  "fflush4 sys i next st0 = do {
     let st = st0\<lparr>at_exit := True\<rparr>;
     f \<leftarrow> get i st;
     if flags f \<inter> {BUFINPUT} \<noteq> next then do {
       (res, st) \<leftarrow> fflush1 sys i st;
       f \<leftarrow> get i st;
       Some (res, put i (f\<lparr>flags := (flags f - {BUFINPUT}) \<union> next\<rparr>) st)
     } else if fileno_of f = 0 then do {
       (r, st) \<leftarrow> fflush1 sys STDOUT st;
       Some (0, st)
     } else Some (0, st)
   }"

definition set_error :: "sflag \<Rightarrow> nat \<Rightarrow> 'e stdio \<Rightarrow> 'e stdio option" where
  "set_error x i st = map_option (\<lambda>f. put i (f\<lparr>flags := insert x (flags f)\<rparr>) st) (get i st)"

section \<open>Single characters\<close>

definition EOF :: int where
  "EOF = - 1"

definition feof :: "nat \<Rightarrow> 'e stdio \<Rightarrow> bool option" where
  "feof i st = map_option (\<lambda>f. \<not> ungotten f \<and> EOFINDICATOR \<in> flags f) (get i st)"

definition ferror :: "nat \<Rightarrow> 'e stdio \<Rightarrow> bool option" where
  "ferror i st = map_option (\<lambda>f. ERRORINDICATOR \<in> flags f) (get i st)"

definition clearerr :: "nat \<Rightarrow> 'e stdio \<Rightarrow> 'e stdio option" where
  "clearerr i st = map_option (\<lambda>f. put i (f\<lparr>flags := flags f - {ERRORINDICATOR, EOFINDICATOR}\<rparr>) st) (get i st)"

definition fileno :: "nat \<Rightarrow> 'e stdio \<Rightarrow> int option" where
  "fileno i st = map_option fileno_of (get i st)"

text \<open>The refill of \<open>fgetc\<close>: whether the buffer holds a character now.\<close>

definition refill :: "'e sys \<Rightarrow> nat \<Rightarrow> 'e stdio \<Rightarrow> (bool \<times> 'e stdio) option" where
  "refill sys i st = do {
     f \<leftarrow> get i st;
     if bm f < bs f then Some (True, st)
     else do {
       (len, bytes, e) \<leftarrow> sys_read sys (fileno_of f) (buflen f) (env st);
       if length (buf f) < length bytes then None
       else (let f = f\<lparr>buf := patch 0 bytes (buf f)\<rparr>; st = put i f (st\<lparr>env := e\<rparr>) in
         if len = 0 then Some (False, put i (f\<lparr>flags := insert EOFINDICATOR (flags f)\<rparr>) st)
         else if len < 0 then Some (False, put i (f\<lparr>flags := insert ERRORINDICATOR (flags f)\<rparr>) st)
         else Some (True, put i (f\<lparr>bm := 0, bs := nat len\<rparr>) st))
     }
   }"

definition fgetc :: "'e sys \<Rightarrow> nat \<Rightarrow> 'e stdio \<Rightarrow> (int \<times> 'e stdio) option" where
  "fgetc sys i st = do {
     f \<leftarrow> get i st;
     if CANREAD \<notin> flags f then map_option (Pair EOF) (set_error ERRORINDICATOR i st)
     else if ungotten f then Some (uint (ungetbuf f), put i (f\<lparr>ungotten := False\<rparr>) st)
     else if EOFINDICATOR \<in> flags f then Some (EOF, st)
     else do {
       (r, st) \<leftarrow> fflush4 sys i {BUFINPUT} st;
       if r \<noteq> 0 then Some (EOF, st)
       else do {
         (ok, st) \<leftarrow> refill sys i st;
         if \<not> ok then Some (EOF, st)
         else do {
           f \<leftarrow> get i st;
           c \<leftarrow> load (buf f) (bm f);
           Some (uint c, put i (f\<lparr>bm := Suc (bm f)\<rparr>) st)
         }
       }
     }
   }"

definition ungetc :: "int \<Rightarrow> nat \<Rightarrow> 'e stdio \<Rightarrow> (int \<times> 'e stdio) option" where
  "ungetc c i st = do {
     f \<leftarrow> get i st;
     if ungotten f \<or> c < 0 \<or> 255 < c then Some (EOF, st)
     else Some (c, put i (f\<lparr>ungotten := True, ungetbuf := of_int c,
       flags := flags f - {ERRORINDICATOR, EOFINDICATOR}\<rparr>) st)
   }"

text \<open>The label \<open>kaputt\<close> of \<open>fputc\<close>.\<close>

definition kaputt :: "nat \<Rightarrow> 'e stdio \<Rightarrow> (int \<times> 'e stdio) option" where
  "kaputt i st = map_option (Pair EOF) (set_error ERRORINDICATOR i st)"

text \<open>The last step of \<open>fputc\<close>: a line-buffered stream is flushed after a newline.\<close>

definition end_of_line :: "'e sys \<Rightarrow> int \<Rightarrow> nat \<Rightarrow> 'e stdio \<Rightarrow> (int \<times> 'e stdio) option" where
  "end_of_line sys c i st = do {
     f \<leftarrow> get i st;
     if BUFLINEWISE \<in> flags f \<and> c = 10 then do {
       (r, st) \<leftarrow> fflush1 sys i st;
       if r \<noteq> 0 then kaputt i st else Some (0, st)
     } else Some (0, st)
   }"

text \<open>\<open>buflen - 1\<close> is computed in 32 unsigned bits.\<close>

definition fputc :: "'e sys \<Rightarrow> int \<Rightarrow> nat \<Rightarrow> 'e stdio \<Rightarrow> (int \<times> 'e stdio) option" where
  "fputc sys c i st = do {
     f \<leftarrow> get i st;
     if CANWRITE \<notin> flags f then kaputt i st
     else do {
       (r, st) \<leftarrow> fflush4 sys i {} st;
       if r \<noteq> 0 then kaputt i st
       else do {
         f \<leftarrow> get i st;
         (r, st) \<leftarrow> (if unat (of_nat (buflen f) - 1 :: u32) \<le> bm f then fflush1 sys i st else Some (0, st));
         if r \<noteq> 0 then kaputt i st
         else do {
           f \<leftarrow> get i st;
           if NOBUF \<in> flags f then do {
             (r, e) \<leftarrow> sys_write sys (fileno_of f) [of_int c] (env st);
             (if r \<noteq> 1 then kaputt i (st\<lparr>env := e\<rparr>) else Some (0, st\<lparr>env := e\<rparr>))
           } else do {
             b \<leftarrow> store (buf f) (bm f) (of_int c);
             end_of_line sys c i (put i (f\<lparr>buf := b, bm := Suc (bm f)\<rparr>) st)
           }
         }
       }
     }
   }"

section \<open>Blocks\<close>

text \<open>The loop of \<open>fread\<close> that reads past the buffer: the bytes read, and whether all \<open>tmp\<close> came. A result below -1
  is outside what \<open>read\<close> documents.\<close>

function read_direct :: "'e sys \<Rightarrow> nat \<Rightarrow> nat \<Rightarrow> u8 list \<Rightarrow> 'e stdio \<Rightarrow> (bool \<times> u8 list \<times> 'e stdio) option" where
  "read_direct sys i tmp acc st =
     (case get i st of None \<Rightarrow> None | Some f \<Rightarrow>
       (case sys_read sys (fileno_of f) tmp (env st) of None \<Rightarrow> None | Some (res, data, e) \<Rightarrow>
         (let st = st\<lparr>env := e\<rparr> in
          if sint (of_nat tmp :: u32) \<le> res then Some (True, acc @ take (nat res) data, st)
          else if res = - 1 then map_option (\<lambda>st. (False, acc, st)) (set_error ERRORINDICATOR i st)
          else if res = 0 then map_option (\<lambda>st. (False, acc, st)) (set_error EOFINDICATOR i st)
          else if res < 0 \<or> tmp < nat res then None
          else read_direct sys i (tmp - nat res) (acc @ take (nat res) data) st)))"
  by pat_completeness auto
termination
  by (relation "measure (\<lambda>(sys, i, tmp, acc, st). tmp)") auto

declare read_direct.simps [simp del]

text \<open>The loop over \<open>fgetc\<close>, for \<open>n\<close> bytes.\<close>

fun read_chars :: "'e sys \<Rightarrow> nat \<Rightarrow> nat \<Rightarrow> u8 list \<Rightarrow> 'e stdio \<Rightarrow> (bool \<times> u8 list \<times> 'e stdio) option" where
  "read_chars sys i 0 acc st = Some (True, acc, st)"
| "read_chars sys i (Suc n) acc st = do {
     (c, st) \<leftarrow> fgetc sys i st;
     if c = EOF then Some (False, acc, st) else read_chars sys i n (acc @ [of_int c]) st
   }"

text \<open>\<open>fread\<close> returns the number of elements, and the bytes stored at \<open>ptr\<close>.\<close>

definition fread :: "'e sys \<Rightarrow> u32 \<Rightarrow> u32 \<Rightarrow> nat \<Rightarrow> 'e stdio \<Rightarrow> (nat \<times> u8 list \<times> 'e stdio) option" where
  "fread sys sz nmemb i st = do {
     f \<leftarrow> get i st;
     let j = sz * nmemb;
     if CANREAD \<notin> flags f then map_option (\<lambda>st. (0, [], st)) (set_error ERRORINDICATOR i st)
     else if j = 0 \<or> j div nmemb \<noteq> sz then Some (0, [], st)
     else do {
       let acc = (if ungotten f then [ungetbuf f] else []);
       let st = (if ungotten f then put i (f\<lparr>ungotten := False\<rparr>) st else st);
       let n = unat j - length acc;
       if FDPIPE \<notin> flags f \<and> buflen f < unat j then do {
         (r, st) \<leftarrow> fflush1 sys i st;
         if r \<noteq> 0 then Some (0, acc, st)
         else do {
           (all, xs, st) \<leftarrow> read_direct sys i n acc st;
           Some (if all then unat nmemb else length xs div unat sz, xs, st)
         }
       } else do {
         (all, xs, st) \<leftarrow> read_chars sys i n acc st;
         Some (if all then unat nmemb else length xs div unat sz, xs, st)
       }
     }
   }"

text \<open>The loop of \<open>fwrite\<close> around an interrupted call. It may go on for ever, which is \<open>None\<close>.\<close>

partial_function (option) write_again :: "'e sys \<Rightarrow> int \<Rightarrow> u8 list \<Rightarrow> 'e \<Rightarrow> (int \<times> 'e) option" where
  "write_again sys fd xs e = do {
     (r, e) \<leftarrow> sys_write sys fd xs e;
     if r = - 1 \<and> sys_eintr sys e then write_again sys fd xs e else Some (r, e)
   }"

fun write_chars :: "'e sys \<Rightarrow> nat \<Rightarrow> nat \<Rightarrow> u8 list \<Rightarrow> 'e stdio \<Rightarrow> (nat \<times> 'e stdio) option" where
  "write_chars sys i done [] st = Some (done, st)"
| "write_chars sys i done (c # cs) st = do {
     (r, st) \<leftarrow> fputc sys (uint c) i st;
     if r \<noteq> 0 then Some (done, st) else write_chars sys i (Suc done) cs st
   }"

text \<open>\<open>xs\<close> are the \<open>sz * nmemb\<close> bytes at \<open>ptr\<close>; their number is that product modulo \<open>2 ^ 32\<close>.\<close>

definition fwrite :: "'e sys \<Rightarrow> u8 list \<Rightarrow> u32 \<Rightarrow> u32 \<Rightarrow> nat \<Rightarrow> 'e stdio \<Rightarrow> (nat \<times> 'e stdio) option" where
  "fwrite sys xs sz nmemb i st = do {
     f \<leftarrow> get i st;
     let len = sz * nmemb;
     if CANWRITE \<notin> flags f then map_option (Pair 0) (set_error ERRORINDICATOR i st)
     else if nmemb = 0 \<or> len div nmemb \<noteq> sz then Some (0, st)
     else if buflen f < unat len \<or> NOBUF \<in> flags f then do {
       (r, st) \<leftarrow> fflush1 sys i st;
       if r \<noteq> 0 then Some (0, st)
       else do {
         (res, e) \<leftarrow> write_again sys (fileno_of f) xs (env st);
         let st = st\<lparr>env := e\<rparr>;
         if res < 0 then map_option (Pair 0) (set_error ERRORINDICATOR i st)
         else Some (if sz \<noteq> 0 then unat ((of_int res :: u32) div sz) else 0, st)
       }
     } else do {
       (res, st) \<leftarrow> write_chars sys i 0 xs st;
       Some (if sz \<noteq> 0 then res div unat sz else 0, st)
     }
   }"

section \<open>Lines and strings\<close>

text \<open>The loop of \<open>fgets\<close> for at most \<open>n\<close> characters.\<close>

fun gets_loop :: "'e sys \<Rightarrow> nat \<Rightarrow> nat \<Rightarrow> u8 list \<Rightarrow> 'e stdio \<Rightarrow> (u8 list \<times> 'e stdio) option" where
  "gets_loop sys i 0 acc st = Some (acc, st)"
| "gets_loop sys i (Suc n) acc st = do {
     (c, st) \<leftarrow> fgetc sys i st;
     if c = EOF then Some (acc, st)
     else if c = 10 then Some (acc @ [of_int c], st)
     else gets_loop sys i n (acc @ [of_int c]) st
   }"

text \<open>The result is whether \<open>fgets\<close> returns \<open>s\<close> (not NULL), and the bytes it stored there.\<close>

definition fgets :: "'e sys \<Rightarrow> int \<Rightarrow> nat \<Rightarrow> 'e stdio \<Rightarrow> (bool \<times> u8 list \<times> 'e stdio) option" where
  "fgets sys sz i st = do {
     (xs, st) \<leftarrow> gets_loop sys i (nat (sz - 1)) [] st;
     (if xs = [] then Some (False, [], st)
      else do {
        err \<leftarrow> ferror i st;
        Some (if err then (False, xs, st) else (True, xs @ [0], st))
      })
   }"

definition fputs :: "'e sys \<Rightarrow> u8 list \<Rightarrow> nat \<Rightarrow> 'e stdio \<Rightarrow> (nat \<times> 'e stdio) option" where
  "fputs sys s i st = fwrite sys s (of_nat (length s)) 1 i st"

definition stdio_outs :: "'e sys \<Rightarrow> u8 list \<Rightarrow> 'e stdio \<Rightarrow> (int \<times> 'e stdio) option" where
  "stdio_outs sys s st =
     map_option (\<lambda>(r, st). (if r = length s then 1 else 0, st)) (fwrite sys s 1 (of_nat (length s)) STDOUT st)"

definition puts :: "'e sys \<Rightarrow> u8 list \<Rightarrow> 'e stdio \<Rightarrow> (int \<times> 'e stdio) option" where
  "puts sys s st = do {
     (r, st) \<leftarrow> stdio_outs sys s st;
     if r = 0 then Some (- 1, st)
     else do {
       (r, st) \<leftarrow> stdio_outs sys [10] st;
       Some (if r = 0 then - 1 else 0, st)
     }
   }"

definition putchar :: "'e sys \<Rightarrow> int \<Rightarrow> 'e stdio \<Rightarrow> (int \<times> 'e stdio) option" where
  "putchar sys c st = fputc sys c STDOUT st"

text \<open>The functions of the \<open>printf\<close> family hand every block to \<open>fwrite\<close> and ignore what it returns.\<close>

fun put_blocks :: "(u8 list \<Rightarrow> 's \<Rightarrow> ('r \<times> 's) option) \<Rightarrow> u8 list list \<Rightarrow> 's \<Rightarrow> 's option" where
  "put_blocks wr [] st = Some st"
| "put_blocks wr (x # xs) st = do { (r, st) \<leftarrow> wr x st; put_blocks wr xs st }"

definition vfprintf :: "'e sys \<Rightarrow> nat \<Rightarrow> u8 list \<Rightarrow> vararg list \<Rightarrow> 'e stdio \<Rightarrow> (int \<times> 'e stdio) option" where
  "vfprintf sys i fmt args st = do {
     (n, out) \<leftarrow> v_printf 0 args fmt;
     st \<leftarrow> put_blocks (\<lambda>x. fwrite sys x 1 (of_nat (length x)) i) out st;
     Some (n, st)
   }"

definition fprintf :: "'e sys \<Rightarrow> nat \<Rightarrow> u8 list \<Rightarrow> vararg list \<Rightarrow> 'e stdio \<Rightarrow> (int \<times> 'e stdio) option" where
  "fprintf sys i fmt args st = vfprintf sys i fmt args st"

definition vprintf :: "'e sys \<Rightarrow> u8 list \<Rightarrow> vararg list \<Rightarrow> 'e stdio \<Rightarrow> (int \<times> 'e stdio) option" where
  "vprintf sys fmt args st = do {
     (n, out) \<leftarrow> v_printf 0 args fmt;
     st \<leftarrow> put_blocks (stdio_outs sys) out st;
     Some (n, st)
   }"

definition vfdprintf :: "'e sys \<Rightarrow> int \<Rightarrow> u8 list \<Rightarrow> vararg list \<Rightarrow> 'e \<Rightarrow> (int \<times> 'e) option" where
  "vfdprintf sys fd fmt args e = do {
     (n, out) \<leftarrow> v_printf 0 args fmt;
     e \<leftarrow> put_blocks (sys_write sys fd) out e;
     Some (n, e)
   }"

section \<open>Positions\<close>

definition fseek :: "'e sys \<Rightarrow> nat \<Rightarrow> int \<Rightarrow> int \<Rightarrow> 'e stdio \<Rightarrow> (int \<times> 'e stdio) option" where
  "fseek sys i off wh st = do {
     (r, st) \<leftarrow> fflush1 sys i st;
     f \<leftarrow> get i st;
     let st = put i (f\<lparr>bm := 0, bs := 0, flags := flags f - {ERRORINDICATOR, EOFINDICATOR}, ungotten := False\<rparr>) st;
     (r, e) \<leftarrow> sys_lseek sys (fileno_of f) off wh (env st);
     Some (if r \<noteq> - 1 then 0 else - 1, st\<lparr>env := e\<rparr>)
   }"

definition ftell :: "'e sys \<Rightarrow> nat \<Rightarrow> 'e stdio \<Rightarrow> (int \<times> 'e stdio) option" where
  "ftell sys i st = do {
     (r, st) \<leftarrow> fflush1 sys i st;
     if r \<noteq> 0 then Some (- 1, st)
     else do {
       f \<leftarrow> get i st;
       (l, e) \<leftarrow> sys_lseek sys (fileno_of f) 0 1 (env st);
       Some (if l = - 1 then - 1 else l - (if ungotten f then 1 else 0), st\<lparr>env := e\<rparr>)
     }
   }"

text \<open>\<open>fgetpos\<close> returns its result and the position stored (if it was), \<open>fsetpos\<close> its result.\<close>

definition fgetpos :: "'e sys \<Rightarrow> nat \<Rightarrow> 'e stdio \<Rightarrow> (int \<times> int option \<times> 'e stdio) option" where
  "fgetpos sys i st = map_option (\<lambda>(l, st). if l = - 1 then (- 1, None, st) else (0, Some l, st)) (ftell sys i st)"

definition fsetpos :: "'e sys \<Rightarrow> nat \<Rightarrow> int \<Rightarrow> 'e stdio \<Rightarrow> (int \<times> 'e stdio) option" where
  "fsetpos sys i p st = map_option (\<lambda>(r, st). (if r = - 1 then - 1 else 0, st)) (fseek sys i p 0 st)"

section \<open>Opening, closing, buffers\<close>

fun parse_mode :: "u8 list \<Rightarrow> u32 \<Rightarrow> u32" where
  "parse_mode [] f = f"
| "parse_mode (c # cs) f = parse_mode cs
     (if c = of_char CHR ''r'' then O_RDONLY
      else if c = of_char CHR ''w'' then O_WRONLY OR O_CREAT OR O_TRUNC
      else if c = of_char CHR ''a'' then O_WRONLY OR O_CREAT OR O_APPEND
      else if c = of_char CHR ''+'' then (f AND NOT O_WRONLY) OR O_RDWR
      else f)"

definition mode_flags :: "bool \<Rightarrow> u32 \<Rightarrow> sflag set" where
  "mode_flags fifo mode =
     (let m = mode AND 3 in
      (if fifo then {FDPIPE} else {}) \<union>
      (if m = O_RDWR then {CANWRITE, CANREAD} else if m = O_RDONLY then {CANREAD}
       else if m = O_WRONLY then {CANWRITE} else {}))"

text \<open>\<open>__stdio_init_file\<close>: the new stream, or \<open>None\<close> for NULL. \<open>fstat\<close> is asked for the kind of the file.\<close>

definition init_file :: "'e sys \<Rightarrow> int \<Rightarrow> bool \<Rightarrow> u32 \<Rightarrow> 'e stdio \<Rightarrow> (nat option \<times> 'e stdio) option" where
  "init_file sys fd closeonerror mode st =
     (let (ok1, e) = sys_malloc sys 48 (env st);
          (ok2, e) = (if ok1 then sys_malloc sys BUFSIZE e else (False, e))
      in if \<not> ok2 then
           (if closeonerror then map_option (\<lambda>(r, e). (None, st\<lparr>env := e\<rparr>)) (sys_close sys fd e)
            else Some (None, st\<lparr>env := e\<rparr>))
         else do {
           (fifo, e) \<leftarrow> sys_isfifo sys fd e;
           let f = \<lparr>fileno_of = fd, flags = mode_flags fifo mode, bs = 0, bm = 0, buflen = BUFSIZE,
             buf = replicate BUFSIZE 0, heap_buf = True, ungetbuf = 0, ungotten = False\<rparr>;
           let i = length (files st);
           Some (Some i, st\<lparr>files := files st @ [Some f], root := i # root st, at_exit := True, env := e\<rparr>)
         })"

definition fopen :: "'e sys \<Rightarrow> u8 list \<Rightarrow> u8 list \<Rightarrow> 'e stdio \<Rightarrow> (nat option \<times> 'e stdio) option" where
  "fopen sys path mode st = do {
     let f = parse_mode mode 0;
     (fd, e) \<leftarrow> sys_open sys path f (env st);
     let st = st\<lparr>env := e\<rparr>;
     if fd < 0 then Some (None, st) else init_file sys fd True f st
   }"

definition fdopen :: "'e sys \<Rightarrow> int \<Rightarrow> u8 list \<Rightarrow> 'e stdio \<Rightarrow> (nat option \<times> 'e stdio) option" where
  "fdopen sys fd mode st =
     (if fd < 0 then Some (None, st) else init_file sys fd False (parse_mode mode 0) st)"

text \<open>\<open>freopen\<close> returns its argument whatever happens. It leaves the buffer as it is after the flush.\<close>

definition freopen :: "'e sys \<Rightarrow> u8 list \<Rightarrow> u8 list \<Rightarrow> nat option \<Rightarrow> 'e stdio \<Rightarrow> (nat option \<times> 'e stdio) option" where
  "freopen sys path mode p st = (case p of
     None \<Rightarrow> Some (None, st)
   | Some i \<Rightarrow> do {
       let m = parse_mode mode 0;
       (r, st) \<leftarrow> fflush1 sys i st;
       f \<leftarrow> get i st;
       (r, e) \<leftarrow> sys_close sys (fileno_of f) (env st);
       (fd, e) \<leftarrow> sys_open sys path m e;
       let st = put i (f\<lparr>fileno_of := fd\<rparr>) (st\<lparr>env := e\<rparr>);
       if fd = - 1 then Some (Some i, st)
       else do {
         (fifo, e) \<leftarrow> sys_isfifo sys fd e;
         Some (Some i, put i (f\<lparr>fileno_of := fd, flags := mode_flags fifo m\<rparr>) (st\<lparr>env := e\<rparr>))
       }
     })"

text \<open>\<open>free\<close> of a buffer or a \<open>FILE\<close> that \<open>malloc\<close> did not return is undefined; the three standard streams are static.
  A stream without a buffer has the NULL pointer, here the empty list that is not from the heap.\<close>

definition free_buf :: "FILE \<Rightarrow> unit option" where
  "free_buf f = (if STATICBUF \<in> flags f \<or> heap_buf f \<or> buf f = [] then Some () else None)"

definition fclose :: "'e sys \<Rightarrow> nat \<Rightarrow> 'e stdio \<Rightarrow> (int \<times> 'e stdio) option" where
  "fclose sys i st = do {
     (r1, st) \<leftarrow> fflush1 sys i st;
     f \<leftarrow> get i st;
     (r2, e) \<leftarrow> sys_close sys (fileno_of f) (env st);
     _ \<leftarrow> free_buf f;
     if i \<le> STDERR then None
     else Some (if r1 = 0 then r2 else - 1, st\<lparr>files := (files st)[i := None], root := remove1 i (root st), env := e\<rparr>)
   }"

datatype bufmode = IOFBF | IOLBF | IONBF | OtherMode

definition set_flags :: "bufmode \<Rightarrow> sflag set \<Rightarrow> sflag set option" where
  "set_flags m fl = (case m of
     IONBF \<Rightarrow> Some ((fl - {BUFLINEWISE}) \<union> {NOBUF})
   | IOLBF \<Rightarrow> Some ((fl - {NOBUF}) \<union> {BUFLINEWISE})
   | IOFBF \<Rightarrow> Some (fl - {NOBUF, BUFLINEWISE})
   | OtherMode \<Rightarrow> None)"

text \<open>\<open>setvbuf\<close> with the bytes at the buffer of the caller, or \<open>None\<close> for NULL. A buffer of the caller counts as not
  from the heap.\<close>

definition setvbuf :: "'e sys \<Rightarrow> nat \<Rightarrow> u8 list option \<Rightarrow> bufmode \<Rightarrow> u32 \<Rightarrow> 'e stdio \<Rightarrow> (int \<times> 'e stdio) option" where
  "setvbuf sys i p m sz st = do {
     f \<leftarrow> get i st;
     let finish = (\<lambda>f st. case set_flags m (flags f) of
         Some fl \<Rightarrow> (0 :: int, put i (f\<lparr>flags := fl\<rparr>) st) | None \<Rightarrow> (- 1, put i f st));
     case p of
       Some b \<Rightarrow> do {
         _ \<leftarrow> free_buf f;
         Some (finish (f\<lparr>buf := b, heap_buf := False, buflen := unat sz, bm := 0, bs := 0\<rparr>) st)
       }
     | None \<Rightarrow>
         if sz = 0 then Some (finish f st)
         else (case sys_malloc sys (unat sz) (env st) of (ok, e) \<Rightarrow>
           if \<not> ok then Some (- 1, st\<lparr>env := e\<rparr>)
           else do {
             _ \<leftarrow> free_buf f;
             Some (finish (f\<lparr>buf := replicate (unat sz) 0, heap_buf := True, buflen := unat sz, bm := 0, bs := 0\<rparr>)
               (st\<lparr>env := e\<rparr>))
           })
   }"

end
