(* ===== verification/Stdio_Correct.thy ===== *)
theory Stdio_Correct
  imports Stdio Ramfs
begin

text \<open>
  A buffered file is a file. The locale \<open>seekable_fd\<close> is the contract of a descriptor open for reading and writing: reads
  may be short, but not empty before the end of the file. A stream on such a descriptor refines the unbuffered file
  \<open>afile\<close>: every sequence of operations has the results it has there. The descriptor layer on the ramfs meets the contract.
\<close>

section \<open>The file as its user sees it\<close>

text \<open>\<open>a_direct\<close> is the length of the buffer: a read of more bytes goes past it and past a sticky end of file.\<close>

record afile =
  a_content :: "u8 list"
  a_pos :: nat
  a_unget :: "u8 option"
  a_eof :: bool
  a_direct :: nat

definition avail :: "bool \<Rightarrow> afile \<Rightarrow> u8 list" where
  "avail blocked a = (case a_unget a of None \<Rightarrow> [] | Some c \<Rightarrow> [c]) @ (if blocked then [] else drop (a_pos a) (a_content a))"

definition consume :: "nat \<Rightarrow> afile \<Rightarrow> afile" where
  "consume n a = (if n = 0 then a else
     a\<lparr>a_unget := None, a_pos := a_pos a + (n - (case a_unget a of None \<Rightarrow> 0 | Some _ \<Rightarrow> 1))\<rparr>)"

definition hit_end :: "bool \<Rightarrow> afile \<Rightarrow> afile" where
  "hit_end h a = a\<lparr>a_eof := a_eof a \<or> h\<rparr>"

definition a_getc :: "afile \<Rightarrow> int \<times> afile" where
  "a_getc a = (case avail (a_eof a) a of [] \<Rightarrow> (- 1, hit_end True a) | c # _ \<Rightarrow> (uint c, consume 1 a))"

definition a_take :: "bool \<Rightarrow> nat \<Rightarrow> afile \<Rightarrow> u8 list \<times> afile" where
  "a_take blocked n a = (let xs = take n (avail blocked a) in (xs, hit_end (length xs < n) (consume (length xs) a)))"

fun line :: "nat \<Rightarrow> u8 list \<Rightarrow> u8 list" where
  "line 0 xs = []"
| "line (Suc n) [] = []"
| "line (Suc n) (c # cs) = (if c = 10 then [c] else c # line n cs)"

definition a_gets :: "nat \<Rightarrow> afile \<Rightarrow> u8 list \<times> afile" where
  "a_gets n a = (let xs = line n (avail (a_eof a) a) in
     (xs, hit_end (length xs < n \<and> (xs = [] \<or> last xs \<noteq> 10)) (consume (length xs) a)))"

lemma avail_consume: "avail b (consume k a) = drop k (avail b a)"
  by (cases "a_unget a"; cases k) (simp_all add: avail_def consume_def add.commute)

lemma consume_consume: "consume k (consume l a) = consume (l + k) a"
  by (cases "a_unget a"; cases l; cases k) (simp_all add: consume_def)

lemma consume_0 [simp]: "consume 0 a = a"
  and hit_end_False [simp]: "hit_end False a = a"
  and hit_end_eof [simp]: "a_eof (hit_end h a) = (a_eof a \<or> h)"
  and consume_eof [simp]: "a_eof (consume k a) = a_eof a"
  by (simp_all add: consume_def hit_end_def)

lemma consume_pos: "a_pos (consume k a) \<le> a_pos a + k"
  by (simp add: consume_def)

lemma a_getc_char: "avail (a_eof a) a = c # cs \<Longrightarrow> a_getc a = (uint c, consume 1 a)"
  and a_getc_end: "avail (a_eof a) a = [] \<Longrightarrow> a_getc a = (- 1, hit_end True a)"
  by (simp_all add: a_getc_def)

definition splice :: "nat \<Rightarrow> u8 list \<Rightarrow> u8 list \<Rightarrow> u8 list" where
  "splice p xs c = (if xs = [] then c else overwrite p xs c)"

definition a_write :: "u8 list \<Rightarrow> afile \<Rightarrow> afile" where
  "a_write xs a = a\<lparr>a_content := splice (a_pos a) xs (a_content a), a_pos := a_pos a + length xs\<rparr>"

lemma splice_Nil [simp]: "splice p [] c = c"
  by (simp add: splice_def)

lemma splice_append: "splice (p + length xs) ys (splice p xs c) = splice p (xs @ ys) c"
proof (cases "p \<le> length c")
  case True
  then show ?thesis by (simp add: splice_def overwrite_def add_ac)
next
  case False
  then show ?thesis by (simp add: splice_def overwrite_def)
qed

lemma a_write_append: "a_write ys (a_write xs a) = a_write (xs @ ys) a"
  by (simp add: a_write_def splice_append add.assoc)

lemma product_fits:
  fixes x y :: u32
  assumes "y \<noteq> 0" "x * y div y = x"
  shows "unat (x * y) = unat x * unat y"
proof -
  have u: "unat (x * y) = unat x * unat y mod 2 ^ 32" by (simp add: unat_word_ariths)
  have "unat (x * y) div unat y = unat x" using arg_cong [OF assms(2), of unat] by (simp add: unat_div_distrib)
  then have "unat x * unat y \<le> unat (x * y)" by (metis div_times_less_eq_dividend)
  moreover have "unat (x * y) \<le> unat x * unat y" unfolding u by (rule mod_less_eq_dividend)
  ultimately show ?thesis by simp
qed

section \<open>The contract\<close>

locale seekable_fd =
  fixes sys :: "'e sys" and fd :: int and live :: "'e \<Rightarrow> bool" and content :: "'e \<Rightarrow> u8 list" and pos :: "'e \<Rightarrow> nat"
  assumes fd_file: "live e \<Longrightarrow> fd \<noteq> 0"
    and read_law: "live e \<Longrightarrow> n < 2 ^ 31 \<Longrightarrow> \<exists>k e'. sys_read sys fd n e = Some (int k, take k (drop (pos e) (content e)), e') \<and> live e' \<and>
      content e' = content e \<and> pos e' = pos e + k \<and> k \<le> n \<and> k \<le> length (content e) - pos e \<and>
      (k = 0 \<longrightarrow> n = 0 \<or> length (content e) \<le> pos e)"
    and write_law: "live e \<Longrightarrow> length xs < 2 ^ 31 \<Longrightarrow> \<exists>e'. sys_write sys fd xs e = Some (int (length xs), e') \<and> live e' \<and>
      content e' = overwrite (pos e) xs (content e) \<and> pos e' = pos e + length xs"
    and seek_law: "live e \<Longrightarrow> p < 2 ^ 31 \<Longrightarrow> \<exists>e'. sys_lseek sys fd (int p) 0 e = Some (int p, e') \<and> live e' \<and>
      content e' = content e \<and> pos e' = p"
    and skip_law: "live e \<Longrightarrow> 0 \<le> int (pos e) + d \<Longrightarrow> int (pos e) + d < 2 ^ 31 \<Longrightarrow>
      \<exists>e'. sys_lseek sys fd d 1 e = Some (int (pos e) + d, e') \<and> live e' \<and>
      content e' = content e \<and> pos e' = nat (int (pos e) + d)"
begin

definition usable :: "FILE \<Rightarrow> bool" where
  "usable f \<longleftrightarrow> fileno_of f = fd \<and> {CANREAD, CANWRITE} \<subseteq> flags f \<and> NOBUF \<notin> flags f \<and> FDPIPE \<notin> flags f \<and>
     ERRORINDICATOR \<notin> flags f \<and> heap_buf f \<and> length (buf f) = buflen f \<and> 0 < buflen f \<and> buflen f < 2 ^ 31"

definition view :: "FILE \<Rightarrow> 'e \<Rightarrow> afile \<Rightarrow> bool" where
  "view f e a \<longleftrightarrow> live e \<and> a_unget a = (if ungotten f then Some (ungetbuf f) else None) \<and>
     a_eof a = (EOFINDICATOR \<in> flags f) \<and> a_direct a = buflen f \<and>
     (if BUFINPUT \<in> flags f then
        bm f \<le> bs f \<and> bs f \<le> buflen f \<and> bs f \<le> pos e \<and>
        (bm f < bs f \<longrightarrow> pos e \<le> length (content e)) \<and>
        drop (bm f) (take (bs f) (buf f)) = take (bs f - bm f) (drop (pos e - (bs f - bm f)) (content e)) \<and>
        a_content a = content e \<and> a_pos a = pos e - (bs f - bm f)
      else bs f = 0 \<and> bm f \<le> buflen f \<and>
        a_content a = splice (pos e) (take (bm f) (buf f)) (content e) \<and> a_pos a = pos e + bm f)"

definition related :: "nat \<Rightarrow> 'e stdio \<Rightarrow> afile \<Rightarrow> bool" where
  "related i st a \<longleftrightarrow> (\<exists>f. get i st = Some f \<and> usable f \<and> view f (env st) a)"

lemma get_put [simp]: "get i st = Some f \<Longrightarrow> get i (put i g (st\<lparr>env := e\<rparr>)) = Some g"
  and get_put_same [simp]: "get i st = Some f \<Longrightarrow> get i (put i g st) = Some g"
  and env_put [simp]: "env (put i g st) = env st"
  by (auto simp: get_def put_def split: if_splits)

text \<open>A flush leaves the user's file alone and empties the buffer.\<close>

lemma flush_clean:
  assumes "get i st = Some f" "usable f" "view f (env st) a" "BUFINPUT \<in> flags f \<longrightarrow> a_pos a < 2 ^ 31"
  shows "\<exists>st' f'. fflush1 sys i st = Some (0, st') \<and> get i st' = Some f' \<and> f' = f\<lparr>bs := 0, bm := 0\<rparr> \<and> usable f' \<and>
    view f' (env st') a \<and> content (env st') = a_content a \<and> pos (env st') = a_pos a"
proof (cases "BUFINPUT \<in> flags f")
  case True
  let ?d = "int (bm f) - int (bs f)"
  have v: "live (env st)" "bm f \<le> bs f" "bs f \<le> pos (env st)" "a_content a = content (env st)"
    "a_pos a = pos (env st) - (bs f - bm f)" using assms(3) True by (simp_all add: view_def)
  obtain e' where e': "(if bm f \<noteq> bs f then map_option snd (sys_lseek sys (fileno_of f) ?d 1 (env st)) else Some (env st)) = Some e'"
      "live e'" "content e' = a_content a" "pos e' = a_pos a"
  proof (cases "bm f = bs f")
    case eq: True
    then show thesis using that [of "env st"] v by simp
  next
    case ne: False
    have d: "int (pos (env st)) + ?d = int (a_pos a)" using v by simp
    from skip_law [OF v(1), of ?d] obtain e' where "sys_lseek sys fd ?d 1 (env st) = Some (int (a_pos a), e')" "live e'"
        "content e' = content (env st)" "pos e' = a_pos a"
      unfolding d using assms(4) True by auto
    then show thesis using that [of e'] v(4) ne assms(2) by (simp add: usable_def)
  qed
  then show ?thesis
    using assms(1-3) True v(4,5) by (auto simp: fflush1_def usable_def view_def)
next
  case False
  have v: "live (env st)" "bm f \<le> buflen f" "bs f = 0" "length (take (bm f) (buf f)) = bm f"
      "a_content a = splice (pos (env st)) (take (bm f) (buf f)) (content (env st))" "a_pos a = pos (env st) + bm f"
    using assms(2,3) False by (simp_all add: view_def usable_def)
  show ?thesis
  proof (cases "bm f = 0")
    case True
    then have "a_content a = content (env st)" "a_pos a = pos (env st)" using v by simp_all
    moreover have "f\<lparr>bs := 0, bm := 0\<rparr> = f" using True v(3) by (cases f) simp
    ultimately show ?thesis using assms(1-3) True False by (simp add: fflush1_def)
  next
    case n: False
    have "length (take (bm f) (buf f)) < 2 ^ 31" using v(2,4) assms(2) by (simp add: usable_def)
    from write_law [OF v(1) this] v(4) obtain e' where e': "sys_write sys fd (take (bm f) (buf f)) (env st) = Some (int (bm f), e')"
        "live e'" "content e' = overwrite (pos (env st)) (take (bm f) (buf f)) (content (env st))" "pos e' = pos (env st) + bm f"
      by auto
    have "take (bm f) (buf f) \<noteq> []" using n v(4) by auto
    then have a: "a_content a = content e'" "a_pos a = pos e'" using v(5,6) e'(3,4) by (simp_all add: splice_def)
    show ?thesis
      using assms(1-3) False n e'(1,2) a v(3,4) by (auto simp: fflush1_def usable_def view_def)
  qed
qed

lemma get_env [simp]: "get i (st\<lparr>env := e\<rparr>) = get i st"
  by (simp add: get_def)

lemma get_at_exit [simp]: "get i (st\<lparr>at_exit := b\<rparr>) = get i st"
  by (simp add: get_def)

lemma mode_in:
  assumes "get i st = Some f" "usable f" "view f (env st) a" "a_pos a < 2 ^ 31"
  shows "\<exists>st' f'. fflush4 sys i {BUFINPUT} st = Some (0, st') \<and> get i st' = Some f' \<and> usable f' \<and>
    view f' (env st') a \<and> BUFINPUT \<in> flags f'"
proof (cases "BUFINPUT \<in> flags f")
  case True
  have "fd \<noteq> 0" using assms(3) fd_file by (auto simp: view_def)
  then show ?thesis using assms True by (simp add: fflush4_def usable_def)
next
  case False
  from flush_clean [of i "st\<lparr>at_exit := True\<rparr>" f a] assms obtain st' f' where
    s: "fflush1 sys i (st\<lparr>at_exit := True\<rparr>) = Some (0, st')" "get i st' = Some f'" "f' = f\<lparr>bs := 0, bm := 0\<rparr>"
      "usable f'" "view f' (env st') a" "content (env st') = a_content a" "pos (env st') = a_pos a" by auto
  let ?g = "f'\<lparr>flags := flags f' - {BUFINPUT} \<union> {BUFINPUT}\<rparr>"
  have "fflush4 sys i {BUFINPUT} st = Some (0, put i ?g st')"
    using assms(1) False s by (simp add: fflush4_def)
  moreover have "usable ?g" "view ?g (env st') a" using s(3-7) by (auto simp: usable_def view_def)
  ultimately show ?thesis using s(2) by (metis env_put get_put_same insertI1 Un_insert_right FILE.select_convs(2) FILE.surjective FILE.update_convs(2))
qed

lemma mode_out:
  assumes "get i st = Some f" "usable f" "view f (env st) a" "a_pos a < 2 ^ 31"
  shows "\<exists>st' f'. fflush4 sys i {} st = Some (0, st') \<and> get i st' = Some f' \<and> usable f' \<and>
    view f' (env st') a \<and> BUFINPUT \<notin> flags f'"
proof (cases "BUFINPUT \<in> flags f")
  case False
  have "fd \<noteq> 0" using assms(3) fd_file by (auto simp: view_def)
  then show ?thesis using assms False by (simp add: fflush4_def usable_def)
next
  case True
  from flush_clean [of i "st\<lparr>at_exit := True\<rparr>" f a] assms obtain st' f' where
    s: "fflush1 sys i (st\<lparr>at_exit := True\<rparr>) = Some (0, st')" "get i st' = Some f'" "f' = f\<lparr>bs := 0, bm := 0\<rparr>"
      "usable f'" "view f' (env st') a" "content (env st') = a_content a" "pos (env st') = a_pos a" by auto
  let ?g = "f'\<lparr>flags := flags f' - {BUFINPUT} \<union> {}\<rparr>"
  have "fflush4 sys i {} st = Some (0, put i ?g st')"
    using assms(1) True s by (simp add: fflush4_def)
  moreover have "usable ?g" "view ?g (env st') a" using s(3-7) by (auto simp: usable_def view_def)
  moreover have "BUFINPUT \<notin> flags ?g" by simp
  ultimately show ?thesis using s(2) by (metis env_put get_put_same)
qed

lemma refill_view:
  assumes "get i st = Some f" "usable f" "view f (env st) a" "BUFINPUT \<in> flags f"
  shows "\<exists>st' f'. refill sys i st = Some (a_pos a < length (a_content a), st') \<and> get i st' = Some f' \<and> usable f' \<and>
    BUFINPUT \<in> flags f' \<and>
    (if a_pos a < length (a_content a) then view f' (env st') a \<and> bm f' < bs f' else view f' (env st') (hit_end True a))"
proof -
  have v: "live (env st)" "bm f \<le> bs f" "bs f \<le> pos (env st)" "a_content a = content (env st)"
    "a_pos a = pos (env st) - (bs f - bm f)" "bm f < bs f \<longrightarrow> pos (env st) \<le> length (content (env st))"
    "bs f \<le> buflen f" "length (buf f) = buflen f" "0 < buflen f" "fileno_of f = fd"
    using assms(2-4) by (simp_all add: view_def usable_def)
  show ?thesis
  proof (cases "bm f < bs f")
    case True
    then have "a_pos a < length (a_content a)" using v by auto
    then show ?thesis using assms True by (simp add: refill_def)
  next
    case False
    then have p: "a_pos a = pos (env st)" "bm f = bs f" using v by simp_all
    have "buflen f < 2 ^ 31" using assms(2) by (simp add: usable_def)
    from read_law [OF v(1) this] obtain k e' where
      r: "sys_read sys fd (buflen f) (env st) = Some (int k, take k (drop (pos (env st)) (content (env st))), e')"
        "live e'" "content e' = content (env st)" "pos e' = pos (env st) + k" "k \<le> buflen f"
        "k \<le> length (content (env st)) - pos (env st)"
        "k = 0 \<longrightarrow> length (content (env st)) \<le> pos (env st)" using v(9) by auto
    let ?xs = "take k (drop (pos (env st)) (content (env st)))"
    let ?f = "f\<lparr>buf := patch 0 ?xs (buf f)\<rparr>"
    have l: "length ?xs = k" "length (patch 0 ?xs (buf f)) = buflen f" using r(5,6) v(8) by (simp_all add: length_patch)
    show ?thesis
    proof (cases "k = 0")
      case True
      then have "refill sys i st = Some (False, put i (?f\<lparr>flags := insert EOFINDICATOR (flags f)\<rparr>) (put i ?f (st\<lparr>env := e'\<rparr>)))"
        using assms(1) False r(1) v(10) by (simp add: refill_def Let_def)
      moreover have "\<not> a_pos a < length (a_content a)" using True r(7) p v(4) by simp
      moreover have "usable (?f\<lparr>flags := insert EOFINDICATOR (flags f)\<rparr>)" using assms(2) l by (simp add: usable_def)
      moreover have "view (?f\<lparr>flags := insert EOFINDICATOR (flags f)\<rparr>) e' (hit_end True a)"
        using assms(3,4) r p True v by (simp add: view_def hit_end_def)
      ultimately show ?thesis using assms(1,4) by simp
    next
      case k: False
      let ?g = "?f\<lparr>bm := 0, bs := k\<rparr>"
      have "refill sys i st = Some (True, put i ?g (put i ?f (st\<lparr>env := e'\<rparr>)))"
        using assms(1) False r(1,5,6) v(8,10) k l by (simp add: refill_def Let_def)
      moreover have "a_pos a < length (a_content a)" using k r(6) p v(4) by simp
      moreover have "usable ?g" using assms(2) l by (simp add: usable_def)
      moreover have "take k (patch 0 ?xs (buf f)) = ?xs" using l(1) by (simp add: patch_def)
      then have "view ?g e' a"
        using assms(3,4) r p v k l by (simp add: view_def)
      ultimately show ?thesis using assms(1,4) k by simp
    qed
  qed
qed

lemma next_char:
  assumes "view f e a" "usable f" "BUFINPUT \<in> flags f" "bm f < bs f" "\<not> ungotten f"
  shows "load (buf f) (bm f) = Some (a_content a ! a_pos a)" "view (f\<lparr>bm := Suc (bm f)\<rparr>) e (a\<lparr>a_pos := Suc (a_pos a)\<rparr>)"
    "a_pos a < length (a_content a)"
proof -
  have v: "bs f \<le> pos e" "a_content a = content e" "a_pos a = pos e - (bs f - bm f)" "pos e \<le> length (content e)"
    "bs f \<le> buflen f" "length (buf f) = buflen f"
    "drop (bm f) (take (bs f) (buf f)) = take (bs f - bm f) (drop (pos e - (bs f - bm f)) (content e))"
    using assms by (simp_all add: view_def usable_def)
  show p: "a_pos a < length (a_content a)" using v assms(4) by simp
  have "drop (bm f) (take (bs f) (buf f)) = buf f ! bm f # drop (Suc (bm f)) (take (bs f) (buf f))"
    using assms(4) v by (subst Cons_nth_drop_Suc [symmetric]) auto
  moreover have "take (bs f - bm f) (drop (pos e - (bs f - bm f)) (content e)) =
      content e ! (pos e - (bs f - bm f)) # take (bs f - Suc (bm f)) (drop (Suc (pos e - (bs f - bm f))) (content e))"
    using p v(2,3) assms(4) by (subst Cons_nth_drop_Suc [symmetric]) (simp_all add: take_Cons' Suc_diff_Suc)
  ultimately have c: "buf f ! bm f = content e ! (pos e - (bs f - bm f))"
    "drop (Suc (bm f)) (take (bs f) (buf f)) = take (bs f - Suc (bm f)) (drop (Suc (pos e - (bs f - bm f))) (content e))"
    using v(7) by simp_all
  show "load (buf f) (bm f) = Some (a_content a ! a_pos a)"
    using c(1) v assms(4) by (simp add: load_def)
  have "Suc (pos e - (bs f - bm f)) = pos e - (bs f - Suc (bm f))" using v assms(4) by simp
  then show "view (f\<lparr>bm := Suc (bm f)\<rparr>) e (a\<lparr>a_pos := Suc (a_pos a)\<rparr>)"
    using assms(1,3,4) c(2) v by (simp add: view_def)
qed

lemma fgetc_refines:
  assumes "related i st a" "a_pos a < 2 ^ 31"
  shows "\<exists>st'. fgetc sys i st = Some (fst (a_getc a), st') \<and> related i st' (snd (a_getc a))"
proof -
  obtain f where f: "get i st = Some f" "usable f" "view f (env st) a" using assms(1) by (auto simp: related_def)
  have w: "CANREAD \<in> flags f" using f(2) by (simp add: usable_def)
  show ?thesis
  proof (cases "ungotten f")
    case True
    then have "a_getc a = (uint (ungetbuf f), a\<lparr>a_unget := None\<rparr>)"
      using f(3) by (simp add: a_getc_def avail_def view_def consume_def)
    moreover have "fgetc sys i st = Some (uint (ungetbuf f), put i (f\<lparr>ungotten := False\<rparr>) st)"
      using f(1) w True by (simp add: fgetc_def)
    moreover have "usable (f\<lparr>ungotten := False\<rparr>)" "view (f\<lparr>ungotten := False\<rparr>) (env st) (a\<lparr>a_unget := None\<rparr>)"
      using f(2,3) by (auto simp: usable_def view_def split: if_splits)
    ultimately show ?thesis using f(1) by (auto simp: related_def)
  next
    case nu: False
    then have u: "a_unget a = None" using f(3) by (simp add: view_def)
    have e: "a_eof a = (EOFINDICATOR \<in> flags f)" using f(3) by (simp add: view_def)
    show ?thesis
    proof (cases "a_eof a")
      case True
      then have "a_getc a = (- 1, a)" using u by (cases a) (simp add: a_getc_def avail_def hit_end_def)
      then show ?thesis using f w nu True e by (simp add: fgetc_def EOF_def related_def)
    next
      case False
      from mode_in [OF f assms(2)] obtain st1 f1 where s1: "fflush4 sys i {BUFINPUT} st = Some (0, st1)"
        "get i st1 = Some f1" "usable f1" "view f1 (env st1) a" "BUFINPUT \<in> flags f1" by blast
      from refill_view [OF s1(2-5)] obtain st2 f2 where s2: "refill sys i st1 = Some (a_pos a < length (a_content a), st2)"
        "get i st2 = Some f2" "usable f2" "BUFINPUT \<in> flags f2"
        "if a_pos a < length (a_content a) then view f2 (env st2) a \<and> bm f2 < bs f2 else view f2 (env st2) (hit_end True a)" by blast
      have g: "fgetc sys i st = (if a_pos a < length (a_content a)
          then load (buf f2) (bm f2) \<bind> (\<lambda>c. Some (uint c, put i (f2\<lparr>bm := Suc (bm f2)\<rparr>) st2)) else Some (- 1, st2))"
        using f(1) w nu False e s1(1) s2(1,2) by (simp add: fgetc_def EOF_def)
      show ?thesis
      proof (cases "a_pos a < length (a_content a)")
        case True
        have nu2: "\<not> ungotten f2" using s2(5) True u by (auto simp: view_def split: if_splits)
        note nc = next_char [OF _ s2(3,4) _ nu2, of "env st2" a]
        have "drop (a_pos a) (a_content a) = a_content a ! a_pos a # drop (Suc (a_pos a)) (a_content a)"
          using True by (simp add: Cons_nth_drop_Suc)
        then have "a_getc a = (uint (a_content a ! a_pos a), a\<lparr>a_pos := Suc (a_pos a)\<rparr>)"
          using False u by (cases a) (simp add: a_getc_def avail_def consume_def)
        moreover have "usable (f2\<lparr>bm := Suc (bm f2)\<rparr>)" using s2(3) by (simp add: usable_def)
        ultimately show ?thesis using g nc s2(2,5) True by (auto simp: related_def)
      next
        case end_: False
        then have "a_getc a = (- 1, hit_end True a)" using False u by (simp add: a_getc_def avail_def)
        then show ?thesis using g end_ s2 by (auto simp: related_def)
      qed
    qed
  qed
qed

lemma put_char:
  assumes "view f e a" "usable f" "BUFINPUT \<notin> flags f" "bm f < buflen f"
  shows "view (f\<lparr>buf := (buf f)[bm f := c], bm := Suc (bm f)\<rparr>) e (a_write [c] a)"
    "usable (f\<lparr>buf := (buf f)[bm f := c], bm := Suc (bm f)\<rparr>)"
proof -
  have v: "length (take (bm f) (buf f)) = bm f" "bm f < length (buf f)" "a_pos a = pos e + bm f"
      "a_content a = splice (pos e) (take (bm f) (buf f)) (content e)"
    using assms by (simp_all add: view_def usable_def)
  have "splice (a_pos a) [c] (a_content a) = splice (pos e) (take (Suc (bm f)) ((buf f)[bm f := c])) (content e)"
    using splice_append [of "pos e" "take (bm f) (buf f)" "[c]" "content e"] v
    by (simp add: take_Suc_conv_app_nth)
  then show "view (f\<lparr>buf := (buf f)[bm f := c], bm := Suc (bm f)\<rparr>) e (a_write [c] a)"
    using assms v(3) by (simp add: view_def a_write_def)
  show "usable (f\<lparr>buf := (buf f)[bm f := c], bm := Suc (bm f)\<rparr>)" using assms(2) by (simp add: usable_def)
qed

lemma end_of_line_refines:
  assumes "get i st = Some f" "usable f" "view f (env st) a" "BUFINPUT \<notin> flags f"
  shows "\<exists>st'. end_of_line sys c i st = Some (0, st') \<and> related i st' a"
  using assms flush_clean [OF assms(1-3)] by (auto simp: end_of_line_def related_def)

lemma fputc_refines:
  assumes "related i st a" "a_pos a < 2 ^ 31"
  shows "\<exists>st'. fputc sys c i st = Some (0, st') \<and> related i st' (a_write [of_int c] a)"
proof -
  obtain f where f: "get i st = Some f" "usable f" "view f (env st) a" using assms(1) by (auto simp: related_def)
  from mode_out [OF f assms(2)] obtain st1 f1 where s1: "fflush4 sys i {} st = Some (0, st1)"
    "get i st1 = Some f1" "usable f1" "view f1 (env st1) a" "BUFINPUT \<notin> flags f1" by blast
  have bl: "unat (of_nat (buflen f1) - 1 :: u32) = buflen f1 - 1"
    using s1(3) by (simp add: usable_def unat_sub_if' unat_of_nat)
  obtain st2 f2 where s2: "(if unat (of_nat (buflen f1) - 1 :: u32) \<le> bm f1 then fflush1 sys i st1 else Some (0, st1)) = Some (0, st2)"
    "get i st2 = Some f2" "usable f2" "view f2 (env st2) a" "BUFINPUT \<notin> flags f2" "bm f2 < buflen f2"
  proof (cases "buflen f1 - 1 \<le> bm f1")
    case True
    from flush_clean [OF s1(2-4)] s1(5) obtain st' where "fflush1 sys i st1 = Some (0, st')"
      "get i st' = Some (f1\<lparr>bs := 0, bm := 0\<rparr>)" "usable (f1\<lparr>bs := 0, bm := 0\<rparr>)"
      "view (f1\<lparr>bs := 0, bm := 0\<rparr>) (env st') a" by auto
    then show thesis using that [of st' "f1\<lparr>bs := 0, bm := 0\<rparr>"] True s1(3,5) bl by (simp add: usable_def)
  next
    case False
    then show thesis using that [of st1 f1] s1 bl by simp
  qed
  let ?f = "f2\<lparr>buf := (buf f2)[bm f2 := of_int c], bm := Suc (bm f2)\<rparr>"
  note pc = put_char [OF s2(4,3,5,6), of "of_int c"]
  have "store (buf f2) (bm f2) (of_int c) = Some ((buf f2)[bm f2 := of_int c])"
    using s2(3,6) by (simp add: store_def usable_def)
  then have "fputc sys c i st = end_of_line sys c i (put i ?f st2)"
    using f(1,2) s1(1,2) s2(1-3) by (simp add: fputc_def usable_def)
  moreover have "\<exists>st'. end_of_line sys c i (put i ?f st2) = Some (0, st') \<and> related i st' (a_write [of_int c] a)"
    by (rule end_of_line_refines [where f = ?f]) (use s2(2,5) pc in simp_all)
  ultimately show ?thesis by simp
qed

lemma write_chars_refines:
  "related i st a \<Longrightarrow> a_pos a + length xs \<le> 2 ^ 31 \<Longrightarrow>
     \<exists>st'. write_chars sys i n xs st = Some (n + length xs, st') \<and> related i st' (a_write xs a)"
proof (induction xs arbitrary: st a n)
  case Nil
  then show ?case by (simp add: a_write_def)
next
  case (Cons x xs)
  from fputc_refines [OF Cons.prems(1), of "uint x"] Cons.prems(2) obtain st1 where
    s: "fputc sys (uint x) i st = Some (0, st1)" "related i st1 (a_write [x] a)" by auto
  have "a_pos (a_write [x] a) + length xs \<le> 2 ^ 31" using Cons.prems(2) by (simp add: a_write_def)
  from Cons.IH [OF s(2) this, of "Suc n"] s(1) show ?case by (simp add: a_write_append)
qed

lemma fwrite_refines:
  assumes "related i st a" "a_pos a + length xs < 2 ^ 31" "length xs = unat (sz * nmemb)" "nmemb \<noteq> 0"
    and "sz \<noteq> 0" "sz * nmemb div nmemb = sz"
  shows "\<exists>st'. fwrite sys xs sz nmemb i st = Some (unat nmemb, st') \<and> related i st' (a_write xs a)"
proof -
  obtain f where f: "get i st = Some f" "usable f" "view f (env st) a" using assms(1) by (auto simp: related_def)
  have fl: "CANWRITE \<in> flags f" "NOBUF \<notin> flags f" "fileno_of f = fd" using f(2) by (simp_all add: usable_def)
  have pf: "unat (sz * nmemb) = unat sz * unat nmemb" by (rule product_fits [OF assms(4,6)])
  have "unat (sz * nmemb div sz) = unat nmemb" using assms(5) by (simp add: unat_div_distrib pf word_unat_eq_iff)
  then have q: "sz * nmemb div sz = nmemb" by (simp only: word_unat_eq_iff)
  show ?thesis
  proof (cases "buflen f < unat (sz * nmemb)")
    case True
    from flush_clean [OF f] assms(2) obtain st1 where s1: "fflush1 sys i st = Some (0, st1)"
      "get i st1 = Some (f\<lparr>bs := 0, bm := 0\<rparr>)" "usable (f\<lparr>bs := 0, bm := 0\<rparr>)" "view (f\<lparr>bs := 0, bm := 0\<rparr>) (env st1) a"
      "content (env st1) = a_content a" "pos (env st1) = a_pos a" by auto
    have "live (env st1)" using s1(4) by (simp add: view_def)
    from write_law [OF this, of xs] assms(2) obtain e' where e': "sys_write sys fd xs (env st1) = Some (int (length xs), e')"
      "live e'" "content e' = overwrite (a_pos a) xs (a_content a)" "pos e' = a_pos a + length xs" using s1(5,6) by auto
    have "write_again sys fd xs (env st1) = Some (int (length xs), e')"
      by (subst write_again.simps) (simp add: e'(1))
    then have "fwrite sys xs sz nmemb i st = Some (unat nmemb, st1\<lparr>env := e'\<rparr>)"
      using f(1) fl True s1(1) assms(3-6) q by (simp add: fwrite_def)
    moreover have "xs \<noteq> []" using True assms(3) by auto
    then have "view (f\<lparr>bs := 0, bm := 0\<rparr>) e' (a_write xs a)"
      using s1(4) e' by (simp add: view_def a_write_def splice_def)
    ultimately show ?thesis using s1(2,3) by (auto simp: related_def)
  next
    case False
    from write_chars_refines [OF assms(1), of xs 0] assms(2) obtain st' where
      s: "write_chars sys i 0 xs st = Some (length xs, st')" "related i st' (a_write xs a)" by auto
    have "length xs div unat sz = unat nmemb" using assms(3,5) pf by (simp add: word_unat_eq_iff)
    then have "fwrite sys xs sz nmemb i st = Some (unat nmemb, st')"
      using f(1) fl False s(1) assms(4-6) by (simp add: fwrite_def)
    then show ?thesis using s(2) by blast
  qed
qed

lemma read_chars_refines:
  "related i st a \<Longrightarrow> a_pos a + n \<le> 2 ^ 31 \<Longrightarrow>
     \<exists>st'. read_chars sys i n acc st = Some (length (fst (a_take (a_eof a) n a)) = n, acc @ fst (a_take (a_eof a) n a), st') \<and>
       related i st' (snd (a_take (a_eof a) n a))"
proof (induction n arbitrary: st a acc)
  case 0
  then show ?case by (simp add: a_take_def)
next
  case (Suc n)
  from fgetc_refines [OF Suc.prems(1)] Suc.prems(2) obtain st1 where
    g: "fgetc sys i st = Some (fst (a_getc a), st1)" "related i st1 (snd (a_getc a))" by auto
  show ?case
  proof (cases "avail (a_eof a) a")
    case Nil
    then show ?thesis using g a_getc_end [OF Nil] by (simp add: EOF_def a_take_def)
  next
    case (Cons c cs)
    note gc = a_getc_char [OF Cons]
    have "a_pos (consume 1 a) + n \<le> 2 ^ 31" using Suc.prems(2) consume_pos [of 1 a] by simp
    moreover have "related i st1 (consume 1 a)" using g(2) gc by simp
    ultimately obtain st' where "read_chars sys i n (acc @ [c]) st1 = Some (length (take n cs) = n, (acc @ [c]) @ take n cs, st')"
      "related i st' (hit_end (length (take n cs) < n) (consume (Suc (length (take n cs))) a))"
      using Suc.IH [of st1 "consume 1 a" "acc @ [c]"] Cons
      by (auto simp: a_take_def avail_consume consume_consume Let_def)
    moreover have "uint c \<noteq> - 1" using uint_nonnegative [of c] by linarith
    ultimately show ?thesis using g(1) gc Cons by (simp add: EOF_def a_take_def Let_def)
  qed
qed

lemma gets_loop_refines:
  "related i st a \<Longrightarrow> a_pos a + n \<le> 2 ^ 31 \<Longrightarrow>
     \<exists>st'. gets_loop sys i n acc st = Some (acc @ fst (a_gets n a), st') \<and> related i st' (snd (a_gets n a))"
proof (induction n arbitrary: st a acc)
  case 0
  then show ?case by (simp add: a_gets_def)
next
  case (Suc n)
  from fgetc_refines [OF Suc.prems(1)] Suc.prems(2) obtain st1 where
    g: "fgetc sys i st = Some (fst (a_getc a), st1)" "related i st1 (snd (a_getc a))" by auto
  show ?case
  proof (cases "avail (a_eof a) a")
    case Nil
    then show ?thesis using g a_getc_end [OF Nil] by (simp add: EOF_def a_gets_def)
  next
    case (Cons c cs)
    note gc = a_getc_char [OF Cons]
    have ne: "uint c \<noteq> - 1" using uint_nonnegative [of c] by linarith
    have u10: "uint c = 10 \<longleftrightarrow> c = 10" using word_uint_eq_iff [of c 10] by simp
    show ?thesis
    proof (cases "c = 10")
      case True
      then show ?thesis using g gc Cons ne by (simp add: EOF_def a_gets_def)
    next
      case False
      have "a_pos (consume 1 a) + n \<le> 2 ^ 31" using Suc.prems(2) consume_pos [of 1 a] by simp
      moreover have "related i st1 (consume 1 a)" using g(2) gc by simp
      ultimately obtain st' where "gets_loop sys i n (acc @ [c]) st1 = Some ((acc @ [c]) @ line n cs, st')"
        "related i st' (hit_end (length (line n cs) < n \<and> (line n cs = [] \<or> last (line n cs) \<noteq> 10)) (consume (Suc (length (line n cs))) a))"
        using Suc.IH [of st1 "consume 1 a" "acc @ [c]"] Cons
        by (auto simp: a_gets_def avail_consume consume_consume Let_def)
      then show ?thesis using g(1) gc Cons False ne u10
        by (cases "line n cs = []") (simp_all add: EOF_def a_gets_def Let_def)
    qed
  qed
qed

lemma read_direct_refines:
  assumes "get i st = Some f" "usable f" "view f (env st) a" "bm f = 0" "bs f = 0" "\<not> ungotten f"
    and "0 < n" "n < 2 ^ 31"
  shows "\<exists>st'. read_direct sys i n acc st = Some (length (fst (a_take False n a)) = n, acc @ fst (a_take False n a), st') \<and>
    related i st' (snd (a_take False n a))"
  using assms
proof (induction n arbitrary: st f a acc rule: less_induct)
  case (less n)
  have v: "live (env st)" "content (env st) = a_content a" "pos (env st) = a_pos a" "a_unget a = None" "fileno_of f = fd"
    using less.prems by (auto simp: view_def usable_def split: if_splits)
  from read_law [OF v(1) less.prems(8)] obtain k e' where
    r: "sys_read sys fd n (env st) = Some (int k, take k (drop (a_pos a) (a_content a)), e')"
      "live e'" "content e' = a_content a" "pos e' = a_pos a + k" "k \<le> n" "k \<le> length (a_content a) - a_pos a"
      "k = 0 \<longrightarrow> length (a_content a) \<le> a_pos a" using v less.prems(7) by auto
  let ?st = "st\<lparr>env := e'\<rparr>" and ?xs = "take k (drop (a_pos a) (a_content a))"
  have av: "avail False a = drop (a_pos a) (a_content a)" using v(4) by (simp add: avail_def)
  have lx: "length ?xs = k" using r(6) by simp
  have sn: "sint (of_nat n :: u32) = int n" using less.prems(8) by (rule sint_nat)
  have st1: "get i ?st = Some f" using less.prems(1) by simp
  have "consume k a = a\<lparr>a_pos := a_pos a + k\<rparr>" using v(4) by (cases a) (simp add: consume_def)
  then have vk: "view f (env ?st) (consume k a)"
    using less.prems(3-5) v(4) r(2-4) by (simp add: view_def)
  show ?case
  proof (cases "k = n")
    case True
    then have "read_direct sys i n acc st = Some (True, acc @ ?xs, ?st)"
      using less.prems(1) v(5) r(1) sn by (subst read_direct.simps) (simp add: Let_def)
    moreover have "a_take False n a = (?xs, consume k a)" using True lx av by (simp add: a_take_def Let_def)
    ultimately show ?thesis using vk st1 less.prems(2) lx True by (auto simp: related_def)
  next
    case False
    then have kn: "k < n" using r(5) by simp
    show ?thesis
    proof (cases "k = 0")
      case True
      let ?g = "f\<lparr>flags := insert EOFINDICATOR (flags f)\<rparr>"
      have "read_direct sys i n acc st = Some (False, acc, put i ?g ?st)"
        using less.prems(1) v(5) r(1) sn True kn by (subst read_direct.simps) (simp add: Let_def set_error_def)
      moreover have "a_take False n a = ([], hit_end True a)" using r(7) True av kn by (simp add: a_take_def)
      moreover have "usable ?g" "view ?g e' (hit_end True a)"
        using less.prems(2) vk True by (auto simp: usable_def view_def hit_end_def)
      ultimately show ?thesis using less.prems(1,7) by (auto simp: related_def)
    next
      case k: False
      have b: "n - k < n" "0 < n - k" "n - k < 2 ^ 31" using k kn less.prems(8) by simp_all
      have "read_direct sys i n acc st = read_direct sys i (n - k) (acc @ ?xs) ?st"
        using less.prems(1) v(5) r(1) sn kn k lx by (subst read_direct.simps) (simp add: Let_def)
      moreover obtain st' where "read_direct sys i (n - k) (acc @ ?xs) ?st =
          Some (length (fst (a_take False (n - k) (consume k a))) = n - k, (acc @ ?xs) @ fst (a_take False (n - k) (consume k a)), st')"
        "related i st' (snd (a_take False (n - k) (consume k a)))"
        using less.IH [OF b(1) st1 less.prems(2) vk less.prems(4-6) b(2,3), of "acc @ ?xs"] by blast
      moreover have "a_take False n a = (?xs @ fst (a_take False (n - k) (consume k a)), snd (a_take False (n - k) (consume k a)))"
      proof -
        have "take n (drop (a_pos a) (a_content a)) = ?xs @ take (n - k) (drop k (drop (a_pos a) (a_content a)))"
          using kn by (metis le_add_diff_inverse less_or_eq_imp_le take_add)
        then show ?thesis using lx av kn
          by (auto simp: a_take_def Let_def avail_consume consume_consume less_diff_conv add.commute)
      qed
      ultimately show ?thesis using lx kn by auto
    qed
  qed
qed

lemma fread_refines:
  assumes "related i st a" "sz * nmemb \<noteq> 0" "sz * nmemb div nmemb = sz" "a_pos a + unat (sz * nmemb) < 2 ^ 31"
  defines "r \<equiv> a_take (a_eof a \<and> unat (sz * nmemb) \<le> a_direct a) (unat (sz * nmemb)) a"
  shows "\<exists>st'. fread sys sz nmemb i st = Some (length (fst r) div unat sz, fst r, st') \<and> related i st' (snd r)"
proof -
  define n where "n = unat (sz * nmemb)"
  obtain f where f: "get i st = Some f" "usable f" "view f (env st) a" using assms(1) by (auto simp: related_def)
  have fl: "CANREAD \<in> flags f" "FDPIPE \<notin> flags f" "a_direct a = buflen f" "0 < buflen f" "0 < n"
    using f(2,3) assms(2) by (simp_all add: usable_def view_def n_def unat_gt_0)
  have nz: "nmemb \<noteq> 0" "sz \<noteq> 0" using assms(2) by auto
  have q: "n div unat sz = unat nmemb"
    using product_fits [OF nz(1) assms(3)] nz(2) by (simp add: n_def word_unat_eq_iff)
  define st0 where "st0 = (if ungotten f then put i (f\<lparr>ungotten := False\<rparr>) st else st)"
  define f0 where "f0 = f\<lparr>ungotten := False\<rparr>"
  define acc where "acc = (if ungotten f then [ungetbuf f] else [])"
  define a0 where "a0 = a\<lparr>a_unget := None\<rparr>"
  have "f0 = f" if "\<not> ungotten f" using that by (cases f) (simp add: f0_def)
  then have s0: "get i st0 = Some f0" "usable f0" "view f0 (env st0) a0" "\<not> ungotten f0"
    using f by (auto simp: st0_def f0_def usable_def view_def a0_def split: if_splits)
  have u: "a_unget a = (if ungotten f then Some (ungetbuf f) else None)" using f(3) by (simp add: view_def)
  have la: "length acc \<le> 1" "length acc \<le> n" "acc \<noteq> [] \<longleftrightarrow> ungotten f" using fl(5) by (auto simp: acc_def)
  have tk: "a_take b n a = (acc @ fst (a_take b (n - length acc) a0), snd (a_take b (n - length acc) a0))" for b
  proof -
    have av: "avail b a = acc @ avail b a0" using u by (simp add: avail_def acc_def a0_def)
    then have xs: "take n (avail b a) = acc @ take (n - length acc) (avail b a0)" using la by simp
    have c: "consume (length acc + k) a = consume k a0" for k
      using u by (cases a; cases k) (auto simp: consume_def acc_def a0_def)
    show ?thesis using la xs c [of "min (length (avail b a0)) (n - length acc)"]
      by (auto simp: a_take_def Let_def less_diff_conv add.commute)
  qed
  have b0: "a_pos a0 + (n - length acc) \<le> 2 ^ 31" "a_eof a0 = a_eof a" "a_pos a0 < 2 ^ 31" "n - length acc < 2 ^ 31"
    using assms(4) by (simp_all add: a0_def n_def)
  define res :: "bool \<times> u8 list \<times> 'e stdio \<Rightarrow> nat \<times> u8 list \<times> 'e stdio" where "res = (\<lambda>(all, xs, st'). (if all then unat nmemb else length xs div unat sz, xs, st'))"
  have fr: "fread sys sz nmemb i st = (if buflen f < n then
      fflush1 sys i st0 \<bind> (\<lambda>(r, st). if r \<noteq> 0 then Some (0, acc, st)
        else map_option res (read_direct sys i (n - length acc) acc st))
      else map_option res (read_chars sys i (n - length acc) acc st0))"
  proof -
    have m: "map_option res x = x \<bind> (\<lambda>(all, xs, st'). Some (if all then unat nmemb else length xs div unat sz, xs, st'))" for x
      by (cases x) (auto simp: res_def)
    have "j div nmemb \<noteq> sz \<longleftrightarrow> False" if "j = sz * nmemb" for j using that assms(3) by simp
    then show ?thesis
      using f(1) fl(1,2) assms(2,3) nz unfolding fread_def m
      by (simp add: Let_def flip: n_def acc_def st0_def)
  qed
  show ?thesis
  proof (cases "buflen f < n")
    case True
    from flush_clean [OF s0(1-3)] b0(3) obtain st1 where s1: "fflush1 sys i st0 = Some (0, st1)"
      "get i st1 = Some (f0\<lparr>bs := 0, bm := 0\<rparr>)" "usable (f0\<lparr>bs := 0, bm := 0\<rparr>)" "view (f0\<lparr>bs := 0, bm := 0\<rparr>) (env st1) a0" by auto
    have "0 < n - length acc" using True fl(4) la(1) by simp
    from read_direct_refines [OF s1(2-4) _ _ _ this b0(4), of acc] s0(4) obtain st' where
      d: "read_direct sys i (n - length acc) acc st1 = Some (length (fst (a_take False (n - length acc) a0)) = n - length acc,
          acc @ fst (a_take False (n - length acc) a0), st')"
        "related i st' (snd (a_take False (n - length acc) a0))" by auto
    have r: "r = a_take False n a" using True fl(3) by (simp add: r_def flip: n_def)
    show ?thesis
      unfolding fr r tk using True s1(1) d la(2) q by (auto simp: res_def)
  next
    case False
    have "related i st0 a0" using s0 by (auto simp: related_def)
    from read_chars_refines [OF this b0(1), of acc] obtain st' where
      d: "read_chars sys i (n - length acc) acc st0 = Some (length (fst (a_take (a_eof a) (n - length acc) a0)) = n - length acc,
          acc @ fst (a_take (a_eof a) (n - length acc) a0), st')"
        "related i st' (snd (a_take (a_eof a) (n - length acc) a0))" unfolding b0(2) by blast
    have r: "r = a_take (a_eof a) n a" using False fl(3) by (simp add: r_def flip: n_def)
    show ?thesis
      unfolding fr r tk using False d la(2) q by (auto simp: res_def)
  qed
qed

lemma ungetc_refines:
  assumes "related i st a"
  shows "\<exists>st'. ungetc c i st = Some (if a_unget a \<noteq> None \<or> c < 0 \<or> 255 < c then - 1 else c, st') \<and>
    related i st' (if a_unget a \<noteq> None \<or> c < 0 \<or> 255 < c then a else a\<lparr>a_unget := Some (of_int c), a_eof := False\<rparr>)"
proof -
  obtain f where f: "get i st = Some f" "usable f" "view f (env st) a" using assms by (auto simp: related_def)
  have u: "ungotten f \<longleftrightarrow> a_unget a \<noteq> None" using f(3) by (simp add: view_def)
  let ?g = "f\<lparr>ungotten := True, ungetbuf := of_int c, flags := flags f - {ERRORINDICATOR, EOFINDICATOR}\<rparr>"
  have "usable ?g" "view ?g (env st) (a\<lparr>a_unget := Some (of_int c), a_eof := False\<rparr>)"
    using f(2,3) by (auto simp: usable_def view_def split: if_splits)
  then show ?thesis using f u assms by (auto simp: ungetc_def EOF_def related_def)
qed

lemma fflush_refines:
  assumes "related i st a" "a_pos a < 2 ^ 31"
  shows "\<exists>st'. fflush sys (Some i) st = Some (0, st') \<and> related i st' a \<and> content (env st') = a_content a"
  using assms flush_clean by (force simp: related_def fflush_def)

lemma fseek_refines:
  assumes "related i st a" "a_pos a < 2 ^ 31" "p < 2 ^ 31"
  shows "\<exists>st'. fseek sys i (int p) 0 st = Some (0, st') \<and> related i st' (a\<lparr>a_pos := p, a_unget := None, a_eof := False\<rparr>)"
proof -
  obtain f where f: "get i st = Some f" "usable f" "view f (env st) a" using assms(1) by (auto simp: related_def)
  from flush_clean [OF f] assms(2) obtain st1 where s1: "fflush1 sys i st = Some (0, st1)"
    "get i st1 = Some (f\<lparr>bs := 0, bm := 0\<rparr>)" "usable (f\<lparr>bs := 0, bm := 0\<rparr>)" "view (f\<lparr>bs := 0, bm := 0\<rparr>) (env st1) a"
    "content (env st1) = a_content a" by auto
  let ?g = "f\<lparr>bm := 0, bs := 0, flags := flags f - {ERRORINDICATOR, EOFINDICATOR}, ungotten := False\<rparr>"
  have "live (env st1)" using s1(4) by (simp add: view_def)
  from seek_law [OF this assms(3)] obtain e' where e': "sys_lseek sys fd (int p) 0 (env st1) = Some (int p, e')" "live e'"
    "content e' = content (env st1)" "pos e' = p" by blast
  have "fseek sys i (int p) 0 st = Some (0, put i ?g st1\<lparr>env := e'\<rparr>)"
    using s1(1,2) e'(1) f(2) by (simp add: fseek_def usable_def Let_def)
  moreover have "usable ?g" "view ?g e' (a\<lparr>a_pos := p, a_unget := None, a_eof := False\<rparr>)"
    using s1(3,4) e'(2-4) by (auto simp: usable_def view_def split: if_splits)
  ultimately show ?thesis using s1(2) by (auto simp: related_def)
qed

lemma ftell_refines:
  assumes "related i st a" "a_pos a < 2 ^ 31"
  shows "\<exists>st'. ftell sys i st = Some (int (a_pos a) - (if a_unget a = None then 0 else 1), st') \<and> related i st' a"
proof -
  obtain f where f: "get i st = Some f" "usable f" "view f (env st) a" using assms(1) by (auto simp: related_def)
  from flush_clean [OF f] assms(2) obtain st1 where s1: "fflush1 sys i st = Some (0, st1)"
    "get i st1 = Some (f\<lparr>bs := 0, bm := 0\<rparr>)" "usable (f\<lparr>bs := 0, bm := 0\<rparr>)" "view (f\<lparr>bs := 0, bm := 0\<rparr>) (env st1) a"
    "content (env st1) = a_content a" "pos (env st1) = a_pos a" by auto
  have "live (env st1)" using s1(4) by (simp add: view_def)
  from skip_law [OF this, of 0] s1(6) assms(2) obtain e' where e': "sys_lseek sys fd 0 1 (env st1) = Some (int (a_pos a), e')"
    "live e'" "content e' = content (env st1)" "pos e' = pos (env st1)" by auto
  have "ungotten f \<longleftrightarrow> a_unget a \<noteq> None" using f(3) by (simp add: view_def)
  then have "ftell sys i st = Some (int (a_pos a) - (if a_unget a = None then 0 else 1), st1\<lparr>env := e'\<rparr>)"
    using s1(1,2) e'(1) f(2) by (simp add: ftell_def usable_def)
  moreover have "view (f\<lparr>bs := 0, bm := 0\<rparr>) e' a" using s1(4) e'(2-4) by (simp add: view_def)
  ultimately show ?thesis using s1(2,3) by (auto simp: related_def)
qed

end

section \<open>Runs\<close>

datatype fop = Getc | Ungetc int | Putc int | Read u32 u32 | Write "u8 list" u32 u32 | Gets int | Flush | Seek nat | Tell

text \<open>The result of an operation: a number and the bytes it delivers.\<close>

fun f_op :: "'e sys \<Rightarrow> nat \<Rightarrow> fop \<Rightarrow> 'e stdio \<Rightarrow> ((int \<times> u8 list) \<times> 'e stdio) option" where
  "f_op sys i Getc st = map_option (\<lambda>(c, st). ((c, []), st)) (fgetc sys i st)"
| "f_op sys i (Ungetc c) st = map_option (\<lambda>(c, st). ((c, []), st)) (ungetc c i st)"
| "f_op sys i (Putc c) st = map_option (\<lambda>(r, st). ((r, []), st)) (fputc sys c i st)"
| "f_op sys i (Read sz n) st = map_option (\<lambda>(r, xs, st). ((int r, xs), st)) (fread sys sz n i st)"
| "f_op sys i (Write xs sz n) st = map_option (\<lambda>(r, st). ((int r, []), st)) (fwrite sys xs sz n i st)"
| "f_op sys i (Gets sz) st = map_option (\<lambda>(ok, xs, st). ((if ok then 1 else 0, xs), st)) (fgets sys sz i st)"
| "f_op sys i Flush st = map_option (\<lambda>(r, st). ((r, []), st)) (fflush sys (Some i) st)"
| "f_op sys i (Seek p) st = map_option (\<lambda>(r, st). ((r, []), st)) (fseek sys i (int p) 0 st)"
| "f_op sys i Tell st = map_option (\<lambda>(r, st). ((r, []), st)) (ftell sys i st)"

fun a_op :: "fop \<Rightarrow> afile \<Rightarrow> (int \<times> u8 list) \<times> afile" where
  "a_op Getc a = (case a_getc a of (c, a) \<Rightarrow> ((c, []), a))"
| "a_op (Ungetc c) a = (if a_unget a \<noteq> None \<or> c < 0 \<or> 255 < c then ((- 1, []), a)
     else ((c, []), a\<lparr>a_unget := Some (of_int c), a_eof := False\<rparr>))"
| "a_op (Putc c) a = ((0, []), a_write [of_int c] a)"
| "a_op (Read sz n) a =
     (case a_take (a_eof a \<and> unat (sz * n) \<le> a_direct a) (unat (sz * n)) a of
        (xs, a) \<Rightarrow> ((int (length xs div unat sz), xs), a))"
| "a_op (Write xs sz n) a = ((uint n, []), a_write xs a)"
| "a_op (Gets sz) a = (case a_gets (nat (sz - 1)) a of
     (xs, a) \<Rightarrow> ((if xs = [] then 0 else 1, if xs = [] then [] else xs @ [0]), a))"
| "a_op Flush a = ((0, []), a)"
| "a_op (Seek p) a = ((0, []), a\<lparr>a_pos := p, a_unget := None, a_eof := False\<rparr>)"
| "a_op Tell a = ((int (a_pos a) - (if a_unget a = None then 0 else 1), []), a)"

text \<open>Calls whose byte counts do not overflow, on a file whose positions fit in a \<open>long\<close>.\<close>

fun op_ok :: "fop \<Rightarrow> afile \<Rightarrow> bool" where
  "op_ok (Read sz n) a \<longleftrightarrow> sz * n \<noteq> 0 \<and> sz * n div n = sz \<and> a_pos a + unat (sz * n) < 2 ^ 31"
| "op_ok (Write xs sz n) a \<longleftrightarrow> sz * n \<noteq> 0 \<and> sz * n div n = sz \<and> length xs = unat (sz * n) \<and> a_pos a + length xs < 2 ^ 31"
| "op_ok (Gets sz) a \<longleftrightarrow> a_pos a + nat sz < 2 ^ 31"
| "op_ok (Seek p) a \<longleftrightarrow> a_pos a < 2 ^ 31 \<and> p < 2 ^ 31"
| "op_ok _ a \<longleftrightarrow> a_pos a < 2 ^ 31"

fun f_run :: "'e sys \<Rightarrow> nat \<Rightarrow> fop list \<Rightarrow> 'e stdio \<Rightarrow> ((int \<times> u8 list) list \<times> 'e stdio) option" where
  "f_run sys i [] st = Some ([], st)"
| "f_run sys i (x # xs) st = do {
     (r, st) \<leftarrow> f_op sys i x st;
     (rs, st) \<leftarrow> f_run sys i xs st;
     Some (r # rs, st)
   }"

fun a_run :: "fop list \<Rightarrow> afile \<Rightarrow> (int \<times> u8 list) list \<times> afile" where
  "a_run [] a = ([], a)"
| "a_run (x # xs) a = (case a_op x a of (r, a) \<Rightarrow> (case a_run xs a of (rs, a) \<Rightarrow> (r # rs, a)))"

fun run_ok :: "fop list \<Rightarrow> afile \<Rightarrow> bool" where
  "run_ok [] a \<longleftrightarrow> True"
| "run_ok (x # xs) a \<longleftrightarrow> op_ok x a \<and> run_ok xs (snd (a_op x a))"

context seekable_fd
begin

text \<open>The blocks of a formatted output, each handed to \<open>fwrite\<close>.\<close>

lemma blocks_refine:
  "related i st a \<Longrightarrow> a_pos a + length (concat out) < 2 ^ 31 \<Longrightarrow>
     \<exists>st'. put_blocks (\<lambda>x. fwrite sys x 1 (of_nat (length x)) i) out st = Some st' \<and> related i st' (a_write (concat out) a)"
proof (induction out arbitrary: st a)
  case Nil
  then show ?case by (simp add: a_write_def)
next
  case (Cons x out)
  let ?n = "of_nat (length x) :: u32"
  have n: "unat ?n = length x" using Cons.prems(2) by (simp add: unat_of_nat)
  obtain r st1 where s1: "fwrite sys x 1 ?n i st = Some (r, st1)" "related i st1 (a_write x a)"
  proof (cases "x = []")
    case True
    obtain f where f: "get i st = Some f" "usable f" using Cons.prems(1) by (auto simp: related_def)
    then have "fwrite sys x 1 ?n i st = Some (0, st)" using True by (simp add: fwrite_def usable_def)
    then show thesis using that Cons.prems(1) True by (simp add: a_write_def)
  next
    case False
    then have nz: "?n \<noteq> 0" using n by (metis length_0_conv unat_0)
    have "1 * ?n div ?n = 1" using nz by (simp add: word_unat_eq_iff unat_div_distrib)
    then show thesis
      using fwrite_refines [OF Cons.prems(1), of x 1 ?n] that nz n Cons.prems(2) by auto
  qed
  have "a_pos (a_write x a) + length (concat out) < 2 ^ 31" using Cons.prems(2) by (simp add: a_write_def)
  from Cons.IH [OF s1(2) this] s1(1) show ?case by (simp add: a_write_append)
qed

lemma related_no_error: "related i st a \<Longrightarrow> ferror i st = Some False"
  by (auto simp: related_def usable_def ferror_def)

lemma op_refines:
  assumes "related i st a" "op_ok x a"
  shows "\<exists>st'. f_op sys i x st = Some (fst (a_op x a), st') \<and> related i st' (snd (a_op x a))"
proof (cases x)
  case Getc
  then show ?thesis using fgetc_refines [OF assms(1)] assms(2) by (cases "a_getc a") auto
next
  case (Ungetc c)
  then show ?thesis using ungetc_refines [OF assms(1), of c] by (auto split: if_splits)
next
  case (Putc c)
  then show ?thesis using fputc_refines [OF assms(1), of c] assms(2) by auto
next
  case (Read sz n)
  then show ?thesis using fread_refines [OF assms(1), of sz n] assms(2)
    by (cases "a_take (a_eof a \<and> unat (sz * n) \<le> a_direct a) (unat (sz * n)) a") auto
next
  case (Write xs sz n)
  then have "n \<noteq> 0" "sz \<noteq> 0" using assms(2) by auto
  then show ?thesis using fwrite_refines [OF assms(1), of xs sz n] assms(2) Write by auto
next
  case (Gets sz)
  have "a_pos a + nat (sz - 1) \<le> 2 ^ 31" using assms(2) Gets by simp
  from gets_loop_refines [OF assms(1) this, of "[]"] obtain st' where
    g: "gets_loop sys i (nat (sz - 1)) [] st = Some (fst (a_gets (nat (sz - 1)) a), st')"
      "related i st' (snd (a_gets (nat (sz - 1)) a))" by auto
  then show ?thesis using Gets related_no_error [OF g(2)]
    by (cases "a_gets (nat (sz - 1)) a") (auto simp: fgets_def)
next
  case Flush
  then show ?thesis using fflush_refines [OF assms(1)] assms(2) by auto
next
  case (Seek p)
  then show ?thesis using fseek_refines [OF assms(1), of p] assms(2) by auto
next
  case Tell
  then show ?thesis using ftell_refines [OF assms(1)] assms(2) by auto
qed

lemma run_refines:
  "related i st a \<Longrightarrow> run_ok xs a \<Longrightarrow>
     \<exists>st'. f_run sys i xs st = Some (fst (a_run xs a), st') \<and> related i st' (snd (a_run xs a))"
proof (induction xs arbitrary: st a)
  case (Cons x xs)
  from op_refines [OF Cons.prems(1), of x] Cons.prems(2) obtain st1 where
    s1: "f_op sys i x st = Some (fst (a_op x a), st1)" "related i st1 (snd (a_op x a))" by auto
  from Cons.IH [OF s1(2)] Cons.prems(2) obtain st2 where
    "f_run sys i xs st1 = Some (fst (a_run xs (snd (a_op x a))), st2)" "related i st2 (snd (a_run xs (snd (a_op x a))))" by auto
  with s1(1) show ?case by (auto simp: prod.case_eq_if)
qed simp

end

section \<open>Behaviour outside the contract\<close>

text \<open>After a short write the whole buffer is kept, so the next flush writes its beginning again.\<close>

lemma fflush_short_write:
  assumes "get i st = Some f" "BUFINPUT \<notin> flags f" "0 < bm f" "bm f \<le> length (buf f)"
    and "sys_write sys (fileno_of f) (take (bm f) (buf f)) (env st) = Some (r, e)" "r \<noteq> int (bm f)"
  shows "\<exists>st'. fflush1 sys i st = Some (- 1, st') \<and> get i st' = Some (f\<lparr>flags := insert ERRORINDICATOR (flags f)\<rparr>)"
proof -
  have "get i (put i g (st\<lparr>env := e\<rparr>)) = Some g" for g
    using assms(1) by (auto simp: get_def put_def split: if_splits)
  with assms show ?thesis by (simp add: fflush1_def)
qed

text \<open>The three standard streams are static objects, which \<open>fclose\<close> frees.\<close>

lemma fclose_static: "i \<le> STDERR \<Longrightarrow> fclose sys i st = None"
  by (auto simp: fclose_def split: Option.bind_splits)

end
