(* ===== verification/Stdio_Kernel.thy ===== *)
theory Stdio_Kernel
  imports Stdio_Correct Memfs_Correct
begin

text \<open>
  Streams on the descriptor layer of the kernel and the ramfs: the layer meets the contract of \<open>seekable_fd\<close>, so a session
  of a program with a buffered file acts on the bytes of the file on the ramfs like the unbuffered file \<open>afile\<close>.
\<close>

section \<open>Streams on the kernel\<close>

text \<open>The calls of the descriptor layer. Its \<open>errno\<close> is never EINTR; \<open>alloc\<close> says whether the memory manager has memory. \<open>fstat\<close> leaves the
  structure uninitialised on an unused descriptor.\<close>

definition memfs_sys :: "(nat \<Rightarrow> ('f, 'w) kst \<Rightarrow> bool) \<Rightarrow> ('f, 'n, 'w) vfs \<Rightarrow> ('f, 'w) kst sys" where
  "memfs_sys alloc api = \<lparr>sys_read = (\<lambda>fd n. memfs_read api fd (of_nat n)), sys_write = memfs_write api, sys_lseek = memfs_lseek api,
     sys_open = (\<lambda>path fl. memfs_open api path fl 438), sys_close = memfs_close api,
     sys_isfifo = (\<lambda>fd s. case memfs_fstat api fd s of
       Some (r, Some b, s) \<Rightarrow> Some (st_mode b AND 61440 = 4096, s) | _ \<Rightarrow> None),
     sys_eintr = (\<lambda>s. False), sys_malloc = (\<lambda>n s. (alloc n s, s))\<rparr>"

text \<open>The same file class as a service that says which node a file is on.\<close>

definition rf_on :: "nat \<Rightarrow> ramworld \<Rightarrow> nat \<Rightarrow> bool" where
  "rf_on node w f \<longleftrightarrow> rf_readable w f \<and> rf_writable w f \<and> rf_node (rw_files w f) = node"

interpretation rnode: file_service ramfs_api rf_content rf_position "rf_on node" "rf_on node"
proof (unfold_locales, goal_cases)
  case (1 w f n)
  then show ?case
    by (simp add: ramfs_api_def rf_do_read_def rf_on_def rf_view set_pos_def py_slice_def Let_def nat_add_distrib)
next
  case (2 w f bs)
  then have "nat (rf_pos (rw_files w f) - int n) = nat (rf_pos (rw_files w f)) - n" for n
    by (simp add: rf_on_def rf_view nat_diff_distrib')
  with 2 show ?case
    by (simp add: ramfs_api_def rf_do_write_def rf_on_def rf_view set_pos_def overwrite_def Let_def nat_add_distrib)
qed (auto simp: ramfs_api_def rf_seek_def rf_tell_def rf_on_def rf_view set_pos_def Let_def)

interpretation kfd: seekable_fd "memfs_sys alloc ramfs_api" fd
  "\<lambda>s. opened s fd f \<and> rf_on node (world s) f"
  "\<lambda>s. rf_content (world s) f" "\<lambda>s. rf_position (world s) f"
proof (unfold_locales, goal_cases)
  case (1 s)
  then show ?case by (auto simp: opened_def)
next
  case (2 s n)
  let ?xs = "take n (drop (rf_position (world s) f) (rf_content (world s) f))"
  from 2 rnode.read_opened [where s = s and fd = fd and f = f and node = node and n = n] obtain s' where
    "memfs_read ramfs_api fd (of_nat n) s = Some (int (length ?xs), ?xs, s')" "opened s' fd f"
    "rf_content (world s') f = rf_content (world s) f"
    "rf_position (world s') f = rf_position (world s) f + length ?xs"
    "rf_on node (world s') f" by blast
  then show ?case using 2
    by (intro exI [of _ "length ?xs"] exI [of _ s']) (auto simp: memfs_sys_def min_def)
next
  case (3 s xs)
  then show ?case using rnode.write_opened [where s = s and fd = fd and f = f and node = node and bs = xs] by (auto simp: memfs_sys_def)
next
  case (4 s p)
  then show ?case using rnode.lseek_opened [where s = s and fd = fd and f = f and node = node and p = p] by (auto simp: memfs_sys_def)
next
  case (5 s d)
  then show ?case using rnode.lseek_cur_opened [where s = s and fd = fd and f = f and node = node and d = d] by (auto simp: memfs_sys_def)
qed

text \<open>The stream \<open>i\<close> is on descriptor \<open>fd\<close> and the open file \<open>f\<close> of the node, and its user sees \<open>a\<close>.\<close>

definition stream_on :: "nat \<Rightarrow> int \<Rightarrow> nat \<Rightarrow> nat \<Rightarrow> (nat, ramworld) kst stdio \<Rightarrow> afile \<Rightarrow> bool" where
  "stream_on node fd f i st a \<longleftrightarrow>
     seekable_fd.related fd (\<lambda>s. opened s fd f \<and> rf_on node (world s) f) (\<lambda>s. rf_content (world s) f)
       (\<lambda>s. rf_position (world s) f) i st a"

lemma stream_run:
  "stream_on node fd f i st a \<Longrightarrow> run_ok xs a \<Longrightarrow>
     \<exists>st'. f_run (memfs_sys alloc ramfs_api) i xs st = Some (fst (a_run xs a), st') \<and> stream_on node fd f i st' (snd (a_run xs a))"
  unfolding stream_on_def by (rule kfd.run_refines)

lemma stream_blocks:
  "stream_on node fd f i st a \<Longrightarrow> a_pos a + length (concat out) < 2 ^ 31 \<Longrightarrow>
     \<exists>st'. put_blocks (\<lambda>x. fwrite (memfs_sys alloc ramfs_api) x 1 (of_nat (length x)) i) out st = Some st' \<and>
       stream_on node fd f i st' (a_write (concat out) a)"
  unfolding stream_on_def by (rule kfd.blocks_refine)

section \<open>Opening and closing\<close>

lemma open_update:
  assumes "memfs_open ramfs_api path 2 m s = Some (r, s')" "rw_dir (world s) path = Some node"
  shows "r < 0 \<or> (\<exists>f. opened s' r f \<and> rf_on node (world s') f \<and> rf_content (world s') f = rw_data (world s) node \<and>
    rf_position (world s') f = 0)"
proof -
  define f where "f = rw_next (world s)"
  define w where "w = (world s)\<lparr>rw_data := rw_data (world s), rw_files := (rw_files (world s))(f := \<lparr>rf_node = node,
     rf_pos = 0, rf_read = True, rf_write = True, rf_closed = False\<rparr>), rw_next := Suc f\<rparr>"
  have o: "uuu_open ramfs_api path ((2 :: u32) AND O_ACCMODE = O_RDONLY \<or> (2 :: u32) AND O_ACCMODE = O_RDWR)
      ((2 :: u32) AND O_ACCMODE = O_WRONLY \<or> (2 :: u32) AND O_ACCMODE = O_RDWR)
      (2 AND O_CREAT) (2 AND O_TRUNC) (2 AND O_APPEND) m (s\<lparr>pyerr := None\<rparr>) = (Some f, s\<lparr>pyerr := None, world := w\<rparr>)"
    using assms(2) by (simp add: uuu_open_def ramfs_api_def rf_open_path_def rf_open_node_def py_call_def Let_def f_def w_def
        O_ACCMODE_def O_RDONLY_def O_WRONLY_def O_RDWR_def O_TRUNC_def)
  have w: "rf_on node w f" "rf_content w f = rw_data (world s) node" "rf_position w f = 0"
    by (simp_all add: w_def rf_on_def rf_view)
  have "r = - 1 \<or> (\<exists>k. find_fd (fds s) 3 = Some (Inr k) \<and> r = int k \<and> fds s' = (fds s)[k := \<lparr>fd_file = Some f, in_use = True\<rparr>] \<and> world s' = w)"
    using assms(1) o by (auto simp: memfs_open_def Let_def set_fd_def split: sum.splits Option.bind_splits)
  then show ?thesis
  proof
    assume "\<exists>k. find_fd (fds s) 3 = Some (Inr k) \<and> r = int k \<and> fds s' = (fds s)[k := \<lparr>fd_file = Some f, in_use = True\<rparr>] \<and> world s' = w"
    then obtain k where k: "find_fd (fds s) 3 = Some (Inr k)" "r = int k"
      "fds s' = (fds s)[k := \<lparr>fd_file = Some f, in_use = True\<rparr>]" "world s' = w" by blast
    from find_fd_Inr [OF k(1)] have "3 \<le> k" "k < length (fds s)" by simp_all
    then have "opened s' r f" using k(2,3) by (simp add: opened_def)
    with w k(4) show ?thesis by auto
  qed simp
qed

lemma fstat_keeps:
  assumes "memfs_fstat ramfs_api fd s = Some (r, Some b, s')"
  shows "fds s' = fds s" "world s' = world s" "st_mode b = 0"
  using assms
  by (auto simp: memfs_fstat_def ramfs_api_def rf_stat_def py_call_def fill_stat_def zero_stat_def int_member_def Let_def
      split: if_splits Option.bind_splits option.splits)

lemma fopen_update:
  assumes "fopen (memfs_sys alloc ramfs_api) path [114, 43] st = Some (Some i, st1)" "rw_dir (world (env st)) path = Some node"
  shows "\<exists>fd f. stream_on node fd f i st1
      \<lparr>a_content = rw_data (world (env st)) node, a_pos = 0, a_unget = None, a_eof = False, a_direct = BUFSIZE\<rparr> \<and>
    i = length (files st)"
proof -
  have pm: "parse_mode [114, 43] 0 = 2" by (simp add: O_RDONLY_def O_WRONLY_def O_RDWR_def)
  obtain fd e1 b r e2 where o: "memfs_open ramfs_api path 2 438 (env st) = Some (fd, e1)" "0 \<le> fd"
      "memfs_fstat ramfs_api fd e1 = Some (r, Some b, e2)"
    and st1: "i = length (files st)" "files st1 = files st @ [Some \<lparr>fileno_of = fd, flags = mode_flags (st_mode b AND 61440 = 4096) 2,
      bs = 0, bm = 0, buflen = BUFSIZE, buf = replicate BUFSIZE 0, heap_buf = True, ungetbuf = 0, ungotten = False\<rparr>]" "env st1 = e2"
    using assms(1) unfolding fopen_def pm Let_def
    by (auto simp: memfs_sys_def init_file_def Let_def split: if_splits Option.bind_splits option.splits prod.splits)
  from open_update [OF o(1) assms(2)] o(2) obtain f where f: "opened e1 fd f" "rf_on node (world e1) f"
    "rf_content (world e1) f = rw_data (world (env st)) node" "rf_position (world e1) f = 0" by auto
  note k = fstat_keeps [OF o(3)]
  have fl: "mode_flags (st_mode b AND 61440 = 4096) 2 = {CANWRITE, CANREAD}"
    by (simp add: mode_flags_def k(3) O_RDWR_def O_RDONLY_def O_WRONLY_def)
  have "opened e2 fd f" using f(1) k(1) by (simp add: opened_def)
  then have "stream_on node fd f i st1
      \<lparr>a_content = rw_data (world (env st)) node, a_pos = 0, a_unget = None, a_eof = False, a_direct = BUFSIZE\<rparr>"
    using st1 f k(2)
    by (simp add: stream_on_def kfd.related_def kfd.usable_def kfd.view_def get_def fl BUFSIZE_def)
  with st1(1) show ?thesis by blast
qed

lemma fclose_stream:
  assumes "stream_on node fd f i st a" "a_pos a < 2 ^ 31" "STDERR < i"
  shows "\<exists>st'. fclose (memfs_sys alloc ramfs_api) i st = Some (0, st') \<and> rw_data (world (env st')) node = a_content a"
proof -
  from kfd.fflush_refines [OF assms(1) [unfolded stream_on_def] assms(2), of alloc] obtain st1 where
    s1: "fflush1 (memfs_sys alloc ramfs_api) i st = Some (0, st1)" "stream_on node fd f i st1 a"
      "rf_content (world (env st1)) f = a_content a"
    by (auto simp: fflush_def stream_on_def)
  then obtain F where F: "get i st1 = Some F" "fileno_of F = fd" "heap_buf F" "opened (env st1) fd f" "rf_on node (world (env st1)) f"
    by (auto simp: stream_on_def kfd.related_def kfd.usable_def kfd.view_def)
  have c: "\<exists>s'. memfs_close ramfs_api fd (env st1) = Some (0, s') \<and> rw_data (world s') = rw_data (world (env st1))"
    using opened_entry [OF F(4)] by (auto simp: memfs_close_def ramfs_api_def rf_close_def py_call_def set_fd_def Let_def)
  have "rw_data (world (env st1)) node = a_content a" using s1(3) F(5) by (simp add: rf_on_def rf_content_def)
  then show ?thesis
    using c s1(1) F(1-3) assms(3) by (auto simp: fclose_def free_buf_def memfs_sys_def)
qed

section \<open>A file of the ramfs\<close>

abbreviation demo_sys :: "(nat, ramworld) kst sys" where
  "demo_sys \<equiv> memfs_sys (\<lambda>n s. True) ramfs_api"

lemma demo_open_438: "memfs_open ramfs_api [97] 2 438 (init_kst demo_world) = Some (3, demo_open)"
  by (simp add: memfs_open_def uuu_open_def ramfs_api_def rf_open_path_def rf_open_node_def
      init_kst_def demo_open_def demo_world_def demo_file_def py_call_def set_fd_def find_fd_init
      O_ACCMODE_def O_RDONLY_def O_WRONLY_def O_RDWR_def O_TRUNC_def Let_def)

lemma demo_fstat: "\<exists>b s. memfs_fstat ramfs_api 3 demo_open = Some (0, Some b, s)"
  by (simp add: memfs_fstat_def demo_fd ramfs_api_def rf_stat_def py_call_def demo_open_def demo_file_def
      memfs_limit_fds_def init_kst_def set_fd_def fd_entry_def Let_def)

lemma demo_fopen: "\<exists>st1. fopen demo_sys [97] [114, 43] (stdio0 (init_kst demo_world)) = Some (Some 3, st1)"
proof -
  have pm: "parse_mode [114, 43] 0 = 2" by (simp add: O_RDONLY_def O_WRONLY_def O_RDWR_def)
  show ?thesis
    using demo_open_438 demo_fstat
    by (auto simp: fopen_def pm Let_def memfs_sys_def init_file_def stdio0_def simp del: parse_mode.simps)
qed

lemma demo_node: "rw_dir (world (env (stdio0 (init_kst demo_world)))) [97] = Some 0"
  "rw_data (world (env (stdio0 (init_kst demo_world)))) 0 = [7, 8]"
  "length (files (stdio0 (init_kst demo_world))) = 3"
  by (simp_all add: stdio0_def init_kst_def demo_world_def)

section \<open>Properties\<close>

text \<open>C25: a session with a file of the ramfs opened for update: every sequence of reads, writes, pushed-back
  characters, lines, seeks and flushes through the buffer returns what it returns on the plain file, and \<open>fclose\<close> leaves
  the bytes of the plain file on the ramfs. Byte counts must not overflow and positions must fit in a \<open>long\<close>.\<close>

theorem file_session:
  assumes "fopen (memfs_sys alloc ramfs_api) path [114, 43] st = Some (Some i, st1)"
    and "rw_dir (world (env st)) path = Some node" "3 \<le> length (files st)"
    and "a = \<lparr>a_content = rw_data (world (env st)) node, a_pos = 0, a_unget = None, a_eof = False, a_direct = BUFSIZE\<rparr>"
    and "run_ok (xs @ [Flush]) a"
  shows "\<exists>st2 st3. f_run (memfs_sys alloc ramfs_api) i xs st1 = Some (fst (a_run xs a), st2) \<and>
    fclose (memfs_sys alloc ramfs_api) i st2 = Some (0, st3) \<and>
    rw_data (world (env st3)) node = a_content (snd (a_run xs a))"
proof -
  from fopen_update [OF assms(1,2)] obtain fd f where s: "stream_on node fd f i st1 a" "STDERR < i"
    using assms(3,4) by auto
  have ok: "run_ok xs a \<and> a_pos (snd (a_run xs a)) < 2 ^ 31" using assms(5)
    by (induction xs arbitrary: a) (auto simp: prod.case_eq_if)
  from stream_run [OF s(1), of xs alloc] ok obtain st2 where
    s2: "f_run (memfs_sys alloc ramfs_api) i xs st1 = Some (fst (a_run xs a), st2)" "stream_on node fd f i st2 (snd (a_run xs a))"
    by auto
  from fclose_stream [OF s2(2) _ s(2), of alloc] ok s2(1) show ?thesis by blast
qed

theorem file_session_witness:
  "\<exists>st1 st2 st3. fopen demo_sys [97] [114, 43] (stdio0 (init_kst demo_world)) = Some (Some 3, st1) \<and>
    f_run demo_sys 3 [Getc, Putc 9] st1 = Some ([(7, []), (0, [])], st2) \<and>
    fclose demo_sys 3 st2 = Some (0, st3) \<and> rw_data (world (env st3)) 0 = [7, 9]"
proof -
  obtain st1 where o: "fopen demo_sys [97] [114, 43] (stdio0 (init_kst demo_world)) = Some (Some 3, st1)"
    using demo_fopen by blast
  show ?thesis
    using file_session [OF o demo_node(1) _ refl, of "[Getc, Putc 9]"] o
    by (auto simp: demo_node(2,3) a_getc_def avail_def consume_def a_write_def splice_def overwrite_def)
qed

text \<open>C26: \<open>fprintf\<close> to a file of the ramfs opened for update returns the length of its output, and after \<open>fclose\<close> the file
  starts with the output, followed by what it held beyond.\<close>

theorem fprintf_file:
  assumes "fopen (memfs_sys alloc ramfs_api) path [114, 43] st = Some (Some i, st1)"
    and "rw_dir (world (env st)) path = Some node" "3 \<le> length (files st)"
    and "v_printf 0 args fmt = Some (n, out)" "n \<noteq> - 1"
  shows "\<exists>st2 st3. fprintf (memfs_sys alloc ramfs_api) i fmt args st1 = Some (n, st2) \<and> n = int (length (concat out)) \<and>
    fclose (memfs_sys alloc ramfs_api) i st2 = Some (0, st3) \<and>
    rw_data (world (env st3)) node = concat out @ drop (length (concat out)) (rw_data (world (env st)) node)"
proof -
  let ?a = "\<lparr>a_content = rw_data (world (env st)) node, a_pos = 0, a_unget = None, a_eof = False, a_direct = BUFSIZE\<rparr>"
  from fopen_update [OF assms(1,2)] obtain fd f where s: "stream_on node fd f i st1 ?a" "STDERR < i"
    using assms(3) by auto
  have n: "n = int (length (concat out))" "n < 2147483648" using v_printf_count [OF assms(4)] assms(5) by auto
  then have l: "length (concat out) < 2 ^ 31" by simp
  from stream_blocks [OF s(1), of out alloc] l obtain st2 where
    s2: "put_blocks (\<lambda>x. fwrite (memfs_sys alloc ramfs_api) x 1 (of_nat (length x)) i) out st1 = Some st2"
      "stream_on node fd f i st2 (a_write (concat out) ?a)" by auto
  have "a_pos (a_write (concat out) ?a) < 2 ^ 31" using l by (simp add: a_write_def del: length_concat)
  from fclose_stream [OF s2(2) this s(2), of alloc] obtain st3 where
    s3: "fclose (memfs_sys alloc ramfs_api) i st2 = Some (0, st3)"
      "rw_data (world (env st3)) node = a_content (a_write (concat out) ?a)" by blast
  have "a_content (a_write (concat out) ?a) = concat out @ drop (length (concat out)) (rw_data (world (env st)) node)"
    by (simp add: a_write_def splice_def overwrite_def del: concat_eq_Nil_conv)
  with s2(1) s3 n(1) assms(4) show ?thesis
    by (simp add: fprintf_def vfprintf_def del: length_concat)
qed

theorem fprintf_file_witness:
  "\<exists>st1 st2 st3. fopen demo_sys [97] [114, 43] (stdio0 (init_kst demo_world)) = Some (Some 3, st1) \<and>
    fprintf demo_sys 3 [104] [] st1 = Some (1, st2) \<and>
    fclose demo_sys 3 st2 = Some (0, st3) \<and> rw_data (world (env st3)) 0 = [104, 8]"
proof -
  obtain st1 where o: "fopen demo_sys [97] [114, 43] (stdio0 (init_kst demo_world)) = Some (Some 3, st1)"
    using demo_fopen by blast
  have "v_printf 0 [] [104] = Some (1, [[104]])" by (simp add: v_printf.simps(2) i32_def)
  from fprintf_file [OF o demo_node(1) _ this] show ?thesis using o by (auto simp: demo_node(2,3))
qed

end
