(* ===== verification/Dns.thy ===== *)
theory Dns
  imports Prelude
begin

text \<open>
  Names in DNS packets: \<open>__dns_decodename\<close> (\<open>src/lib/c/libcruft/dnscruft.c\<close>), \<open>dn_expand\<close> and \<open>res_mkquery\<close>. A packet is the list
  of the bytes of its buffer, \<open>behind\<close> the offset where its data end; positions are offsets. A read outside the buffer is a
  fault. The loop of \<open>__dns_decodename\<close> follows compression pointers and may go on for ever, so it is given fuel.
\<close>

section \<open>Decoding\<close>

text \<open>How the loop ends: out of fuel, a read outside the buffer, the return of -1, or the end of the name with the
  position \<open>after\<close> it and the flag \<open>ok\<close>; each with all bytes stored from the start of \<open>dest\<close> on until then. The stores
  are consecutive.\<close>

datatype decoded = Running "u8 list" | Fault "u8 list" | Malformed "u8 list" | Name nat bool "u8 list"

fun decode_loop :: "nat \<Rightarrow> u8 list \<Rightarrow> nat \<Rightarrow> nat \<Rightarrow> nat \<Rightarrow> nat \<Rightarrow> nat \<Rightarrow> bool \<Rightarrow> u8 list \<Rightarrow> decoded" where
  "decode_loop 0 pkt offset maxlen behind tmp after ok out = Running out"
| "decode_loop (Suc n) pkt offset maxlen behind tmp after ok out =
     (if maxlen = 0 then Name after ok out
      else case load pkt tmp of None \<Rightarrow> Fault out | Some b \<Rightarrow>
        if b = 0 then Name after ok out
        else if behind \<le> tmp then Malformed out
        else if drop_bit 6 b = 3 then
          (case load pkt (tmp + 1) of None \<Rightarrow> Fault out | Some b2 \<Rightarrow>
            let ofs = unat ((push_bit 8 (ucast (b AND 0x3f)) OR ucast b2) :: u32) in
            if offset \<le> ofs then Malformed out
            else decode_loop n pkt offset maxlen behind ofs (max after (tmp + 2)) False out)
        else if maxlen < length out + unat b + 1 then Malformed out
        else if behind \<le> tmp + unat b + 1 then Malformed out
        else if length pkt < tmp + 1 + unat b then Fault (out @ drop (tmp + 1) pkt)
        else (let tmp' = tmp + 1 + unat b; out' = out @ seg (tmp + 1) (unat b) pkt @ [46] in
          if after < tmp' then
            (case load pkt tmp' of None \<Rightarrow> Fault out' | Some b' \<Rightarrow>
              decode_loop n pkt offset maxlen behind tmp' (if b' = 0 then tmp' + 1 else tmp') True out')
          else decode_loop n pkt offset maxlen behind tmp' after True out'))"

text \<open>\<open>__dns_decodename\<close>: its result and what it has stored at \<open>dest\<close>; -1 and the results that are none keep what was
  stored before. The final NUL is stored over the last dot, or behind the bytes.\<close>

datatype decode_result = Timeout "u8 list" | Undefined "u8 list" | Minus_one "u8 list" | Decoded nat "u8 list"

definition dns_decodename :: "nat \<Rightarrow> u8 list \<Rightarrow> nat \<Rightarrow> nat \<Rightarrow> nat \<Rightarrow> decode_result" where
  "dns_decodename fuel pkt offset maxlen behind =
     (case decode_loop fuel pkt offset maxlen behind offset offset False [] of
        Running out \<Rightarrow> Timeout out
      | Fault out \<Rightarrow> Undefined out
      | Malformed out \<Rightarrow> Minus_one out
      | Name after ok out \<Rightarrow> Decoded after ((if ok then butlast out else out) @ [0]))"

text \<open>\<open>dn_expand\<close> subtracts the position also from -1. \<open>None\<close> is undefined or out of fuel.\<close>

definition dn_expand :: "nat \<Rightarrow> u8 list \<Rightarrow> nat \<Rightarrow> nat \<Rightarrow> nat \<Rightarrow> (int \<times> u8 list) option" where
  "dn_expand fuel msg eom comp_dn len =
     (case dns_decodename fuel msg comp_dn len eom of
        Decoded after out \<Rightarrow> Some (int after - int comp_dn, out)
      | Minus_one out \<Rightarrow> Some (- 1 - int comp_dn, out)
      | _ \<Rightarrow> None)"

section \<open>Queries\<close>

text \<open>The loop over the labels of a name. \<open>body\<close> is what was stored in the packet of 512 bytes from byte 12 on, without
  the final 0; \<open>Inl\<close> is the return of -1.\<close>

function mkquery_loop :: "u8 list \<Rightarrow> u8 list \<Rightarrow> (unit + u8 list) option" where
  "mkquery_loop body y =
     (let y1 = dropWhile (\<lambda>c. c = 46) y; l = takeWhile (\<lambda>c. c \<noteq> 46) y1; tmp = dropWhile (\<lambda>c. c \<noteq> 46) y1 in
      if 512 \<le> 12 + length body then None
      else if l = [] then Some (Inr body)
      else if 510 \<le> 12 + length body + 1 + length l then Some (Inl ())
      else if tmp = [] then Some (Inr (body @ of_nat (length l) # l))
      else mkquery_loop (body @ of_nat (length l) # l) tmp)"
  by pat_completeness auto
termination
proof (relation "measure (\<lambda>(body, y). length y)", goal_cases)
  case (2 body y y1 l tmp)
  have "length y1 = length l + length tmp"
    unfolding 2(2,3) by (metis length_append takeWhile_dropWhile_id)
  moreover have "length y1 \<le> length y" unfolding 2(1) by (rule length_dropWhile_le)
  moreover have "0 < length l" using 2(5) by simp
  ultimately have "length tmp < length y" by linarith
  then show ?case by simp
qed simp

declare mkquery_loop.simps [simp del]

text \<open>\<open>res_mkquery\<close> with the low half of \<open>rand()\<close> and the option RES_RECURSE: its result and the bytes it stores at
  \<open>buf\<close>. It is undefined when the packet of 512 bytes overflows, and for an empty name, whose first byte is not set.\<close>

definition res_mkquery :: "u16 \<Rightarrow> bool \<Rightarrow> u8 list \<Rightarrow> u8 \<Rightarrow> u8 \<Rightarrow> int \<Rightarrow> (int \<times> u8 list) option" where
  "res_mkquery rnd recurse dname cls typ buflen =
     (if dname = [] then None
      else case mkquery_loop [] dname of
        None \<Rightarrow> None
      | Some (Inl _) \<Rightarrow> Some (- 1, [])
      | Some (Inr body) \<Rightarrow>
          (let x = [ucast rnd, ucast (drop_bit 8 rnd), if recurse then 1 else 0, 0, 0, 1, 0, 0, 0, 0, 0, 0] @ body @
             [0, 0, typ, 0, cls] in
           if 512 < length x then None
           else if int (length x) > buflen then Some (- 1, [])
           else Some (int (length x), x)))"

section \<open>Names as lists of labels\<close>

definition wire :: "u8 list list \<Rightarrow> u8 list" where
  "wire ls = concat (map (\<lambda>l. of_nat (length l) # l) ls)"

fun dotted :: "u8 list list \<Rightarrow> u8 list" where
  "dotted [] = []"
| "dotted [l] = l"
| "dotted (l # ls) = l @ 46 # dotted ls"

definition label :: "u8 list \<Rightarrow> bool" where
  "label l \<longleftrightarrow> l \<noteq> [] \<and> length l \<le> 63 \<and> 46 \<notin> set l"

lemma wire_simps [simp]: "wire [] = []" "wire (l # ls) = of_nat (length l) # l @ wire ls"
  by (simp_all add: wire_def)

lemma dotted_Cons: "ls \<noteq> [] \<Longrightarrow> dotted (l # ls) = l @ 46 # dotted ls"
  by (cases ls) simp_all

lemma length_wire: "ls \<noteq> [] \<Longrightarrow> length (wire ls) = length (dotted ls) + 1"
  by (induction ls rule: dotted.induct) simp_all

lemma label_first: "label l \<Longrightarrow> dropWhile (\<lambda>c. c = 46) (l @ ys) = l @ ys"
  by (cases l) (auto simp: label_def)

lemma label_take:
  "label l \<Longrightarrow> takeWhile (\<lambda>c. c \<noteq> 46) (l @ 46 # ys) = l \<and> dropWhile (\<lambda>c. c \<noteq> 46) (l @ 46 # ys) = 46 # ys"
  "label l \<Longrightarrow> takeWhile (\<lambda>c. c \<noteq> 46) l = l \<and> dropWhile (\<lambda>c. c \<noteq> 46) l = []"
  by (auto simp: label_def takeWhile_append dropWhile_append)

lemma mkquery_loop_labels:
  "ls \<noteq> [] \<Longrightarrow> list_all label ls \<Longrightarrow> 12 + length body + length (wire ls) < 510 \<Longrightarrow>
     y = dotted ls \<or> y = 46 # dotted ls \<Longrightarrow> mkquery_loop body y = Some (Inr (body @ wire ls))"
proof (induction ls arbitrary: body y)
  case (Cons l ls)
  have l: "label l" "l \<noteq> []" using Cons.prems(2) by (auto simp: label_def)
  show ?case
  proof (cases "ls = []")
    case True
    then have y: "dropWhile (\<lambda>c. c = 46) y = l" using Cons.prems(4) label_first [OF l(1), of "[]"] by auto
    have tw: "takeWhile (\<lambda>c. c \<noteq> 46) l = l" "dropWhile (\<lambda>c. c \<noteq> 46) l = []" using label_take(2) [OF l(1)] by blast+
    show ?thesis using True Cons.prems(3) l
      by (subst mkquery_loop.simps) (simp add: y Let_def tw del: dropWhile_eq_Nil_conv)
  next
    case False
    then have y: "dropWhile (\<lambda>c. c = 46) y = l @ 46 # dotted ls"
      using Cons.prems(4) label_first [OF l(1), of "46 # dotted ls"] by (auto simp: dotted_Cons)
    have "mkquery_loop (body @ of_nat (length l) # l) (46 # dotted ls) = Some (Inr ((body @ of_nat (length l) # l) @ wire ls))"
      by (rule Cons.IH) (use False Cons.prems in auto)
    then show ?thesis using Cons.prems(3) l label_take(1) [OF l(1), of "dotted ls"]
      by (subst mkquery_loop.simps) (simp add: y Let_def)
  qed
qed simp

lemma decode_loop_labels:
  assumes "list_all label ls" "pkt = pre @ wire ls @ 0 # post" "length pre + length (wire ls) < behind" "behind \<le> length pkt"
    and "length out + length (wire ls) \<le> maxlen" "0 < maxlen" "ls \<noteq> [] \<longrightarrow> after \<le> length pre" "length ls < n"
  shows "decode_loop n pkt offset maxlen behind (length pre) after ok out =
    Name (if ls = [] then after else length pre + length (wire ls) + 1) (if ls = [] then ok else True)
      (out @ concat (map (\<lambda>l. l @ [46]) ls))"
  using assms
proof (induction ls arbitrary: pre after ok out n)
  case Nil
  then show ?case by (cases n) (auto simp: load_def nth_append)
next
  case (Cons l ls)
  obtain n' where n: "n = Suc n'" using Cons.prems(8) by (cases n) auto
  have l: "0 < length l" "length l \<le> 63" using Cons.prems(1) by (auto simp: label_def)
  let ?b = "of_nat (length l) :: u8"
  have b: "unat ?b = length l" using l by (simp add: unat_of_nat)
  have "unat (drop_bit 6 ?b) = 0" using b l by (simp add: unat_drop_bit_eq drop_bit_eq_div unat_div_distrib)
  then have d: "?b \<noteq> 0" "drop_bit 6 ?b \<noteq> 3" using b l by auto
  let ?tmp = "length pre + 1 + length l"
  have pkt: "pkt = (pre @ ?b # l) @ wire ls @ 0 # post" using Cons.prems(2) by simp
  have ld: "load pkt (length pre) = Some ?b" by (simp add: pkt load_def nth_append)
  have sg: "seg (length pre + 1) (length l) pkt = l" by (simp add: pkt seg_def)
  have len: "?tmp + length (wire ls) < behind" using Cons.prems(3) by simp
  have nx: "\<exists>c. load pkt ?tmp = Some c \<and> (c = 0 \<longleftrightarrow> ls = [])"
  proof (cases ls)
    case Nil
    then show ?thesis by (simp add: pkt load_def nth_append)
  next
    case (Cons l' ls')
    then have "0 < length l'" "length l' \<le> 63" using Cons.prems(1) by (auto simp: label_def)
    then have "unat (of_nat (length l') :: u8) \<noteq> 0" by (simp add: unat_of_nat)
    then have "(of_nat (length l') :: u8) \<noteq> 0" by auto
    with Cons show ?thesis by (simp add: pkt load_def nth_append)
  qed
  have lo: "length out + length l + 1 + length (wire ls) \<le> maxlen" using Cons.prems(5) by simp
  obtain c where c: "load pkt ?tmp = Some c" "c = 0 \<longleftrightarrow> ls = []" using nx by blast
  have ih: "decode_loop n' pkt offset maxlen behind (length (pre @ ?b # l)) (if c = 0 then ?tmp + 1 else ?tmp) True (out @ l @ [46]) =
    Name (if ls = [] then (if c = 0 then ?tmp + 1 else ?tmp) else length (pre @ ?b # l) + length (wire ls) + 1)
      (if ls = [] then True else True) ((out @ l @ [46]) @ concat (map (\<lambda>l. l @ [46]) ls))"
    by (rule Cons.IH) (use Cons.prems pkt len lo c n in auto)
  show ?case
    using ih l(1) lo len c Cons.prems(4,6,7) ld d
    by (cases "ls = []") (simp_all add: n b sg [simplified])
qed

lemma dotted_concat: "ls \<noteq> [] \<Longrightarrow> concat (map (\<lambda>l. l @ [46]) ls) = dotted ls @ [46]"
  by (induction ls rule: dotted.induct) simp_all

section \<open>Bounds and termination of decoding\<close>

fun stored :: "decoded \<Rightarrow> u8 list" where
  "stored (Running out) = out"
| "stored (Fault out) = out"
| "stored (Malformed out) = out"
| "stored (Name after ok out) = out"

fun bytes_stored :: "decode_result \<Rightarrow> u8 list" where
  "bytes_stored (Timeout out) = out"
| "bytes_stored (Undefined out) = out"
| "bytes_stored (Minus_one out) = out"
| "bytes_stored (Decoded after out) = out"

lemma decode_loop_bound:
  "length out \<le> maxlen \<Longrightarrow> length (stored (decode_loop n pkt offset maxlen behind tmp after ok out)) \<le> maxlen"
proof (induction n arbitrary: tmp after ok out)
  case (Suc n)
  then show ?case by (auto simp: Let_def split: option.split)
qed simp

lemma decode_loop_dot:
  "decode_loop n pkt offset maxlen behind tmp after ok out = Name a k xs \<Longrightarrow> ok \<longrightarrow> out \<noteq> [] \<Longrightarrow> k \<longrightarrow> xs \<noteq> []"
proof (induction n arbitrary: tmp after ok out)
  case (Suc n)
  show ?case
    using Suc.prems Suc.IH
    by (fastforce simp: Let_def split: if_split_asm option.split_asm)
qed simp

text \<open>A compression pointer at position \<open>p\<close>, and where it points.\<close>

definition points_to :: "u8 list \<Rightarrow> nat \<Rightarrow> nat \<Rightarrow> bool" where
  "points_to pkt p q \<longleftrightarrow> p + 1 < length pkt \<and> drop_bit 6 (pkt ! p) = 3 \<and>
     q = unat ((push_bit 8 (ucast (pkt ! p AND 0x3f)) OR ucast (pkt ! (p + 1))) :: u32)"

lemma decode_loop_pointer:
  assumes "points_to pkt tmp q" "0 < maxlen" "tmp < behind" "q < offset"
  shows "decode_loop (Suc n) pkt offset maxlen behind tmp after ok out =
    decode_loop n pkt offset maxlen behind q (max after (tmp + 2)) False out"
proof -
  have "pkt ! tmp \<noteq> 0" using assms(1) by (auto simp: points_to_def)
  with assms show ?thesis by (simp add: points_to_def load_def Let_def)
qed

lemma decode_loop_cycle:
  assumes "points_to pkt q q" "0 < maxlen" "q < behind" "q < offset"
  shows "decode_loop n pkt offset maxlen behind q after ok out = Running out"
  by (induction n arbitrary: after ok) (simp_all add: decode_loop_pointer [OF assms(1-4)] del: decode_loop.simps(2))

text \<open>The positions that the loop comes to when it has room for the labels.\<close>

inductive visits :: "u8 list \<Rightarrow> nat \<Rightarrow> nat \<Rightarrow> nat \<Rightarrow> bool" for pkt offset behind where
  start: "visits pkt offset behind offset"
| label: "visits pkt offset behind p \<Longrightarrow> p < behind \<Longrightarrow> pkt ! p \<noteq> 0 \<Longrightarrow> drop_bit 6 (pkt ! p) \<noteq> 3 \<Longrightarrow>
    p + 1 + unat (pkt ! p) < behind \<Longrightarrow> visits pkt offset behind (p + 1 + unat (pkt ! p))"
| pointer: "visits pkt offset behind p \<Longrightarrow> p < behind \<Longrightarrow> points_to pkt p q \<Longrightarrow> q < offset \<Longrightarrow>
    visits pkt offset behind q"

fun returned :: "decoded \<Rightarrow> bool" where
  "returned (Malformed out) = True"
| "returned (Name after ok out) = True"
| "returned _ = False"

lemma measure_less: "i * (l + 2) + t' < j * (l + 2) + t" if "i < j" "t' \<le> l" for i j l t t' :: nat
proof -
  have "(i + 1) * (l + 2) \<le> j * (l + 2)" using that(1) by (intro mult_le_mono1) simp
  then have "i * (l + 2) + (l + 2) \<le> j * (l + 2)" by (simp only: add_mult_distrib mult_1)
  with that(2) show ?thesis by linarith
qed

lemma decode_loop_ends:
  assumes prior: "\<forall>p q. visits pkt offset behind p \<and> p < behind \<and> points_to pkt p q \<and> q < offset \<longrightarrow> q < p"
    and len: "offset \<le> behind" "behind < length pkt"
  shows "visits pkt offset behind tmp \<Longrightarrow> tmp \<le> behind \<Longrightarrow>
    \<exists>n. \<forall>k \<ge> n. returned (decode_loop k pkt offset maxlen behind tmp after ok out)"
proof (induction "(Suc maxlen - length out) * (length pkt + 2) + tmp" arbitrary: tmp after ok out rule: less_induct)
  case (less tmp out after ok)
  let ?run = "\<lambda>k tmp after ok out. decode_loop k pkt offset maxlen behind tmp after ok out"
  let ?m = "\<lambda>out tmp. (Suc maxlen - length out) * (length pkt + 2) + tmp"
  have in_pkt: "tmp < length pkt" using less.prems(2) len(2) by simp
  have step: "(\<exists>r. returned r \<and> (\<forall>k. ?run (Suc k) tmp after ok out = r)) \<or>
      (\<exists>tmp' after' ok' out'. ?m out' tmp' < ?m out tmp \<and> visits pkt offset behind tmp' \<and> tmp' \<le> behind \<and>
        (\<forall>k. ?run (Suc k) tmp after ok out = ?run k tmp' after' ok' out'))"
  proof (cases "maxlen \<noteq> 0 \<and> pkt ! tmp \<noteq> 0 \<and> tmp < behind")
    case False
    then consider "maxlen = 0 \<or> pkt ! tmp = 0" | "maxlen \<noteq> 0" "pkt ! tmp \<noteq> 0" "behind \<le> tmp" by force
    then show ?thesis
    proof cases
      case 1
      then show ?thesis using in_pkt by (intro disjI1 exI [of _ "Name after ok out"]) (auto simp: load_def)
    next
      case 2
      then show ?thesis using in_pkt by (intro disjI1 exI [of _ "Malformed out"]) (simp add: load_def)
    qed
  next
    case True
    define b where "b = pkt ! tmp"
    have ld: "load pkt tmp = Some b" "b \<noteq> 0" "maxlen \<noteq> 0" "\<not> behind \<le> tmp"
      using True in_pkt by (auto simp: load_def b_def)
    show ?thesis
    proof (cases "drop_bit 6 b = 3")
      case pointer: True
      have l2: "tmp + 1 < length pkt" using True len(2) by simp
      define q where "q = unat ((push_bit 8 (ucast (b AND 0x3f)) OR ucast (pkt ! (tmp + 1))) :: u32)"
      have pt: "points_to pkt tmp q" using l2 pointer by (simp add: points_to_def q_def b_def)
      show ?thesis
      proof (cases "offset \<le> q")
        case True
        moreover have "load pkt (Suc tmp) = Some (pkt ! (tmp + 1))" using l2 by (simp add: load_def)
        ultimately show ?thesis using ld pointer by (intro disjI1 exI [of _ "Malformed out"]) (simp add: q_def Let_def)
      next
        case False
        then have "?m out q < ?m out tmp" using prior pt less.prems(1) ld(4) by simp
        moreover have "visits pkt offset behind q" "q \<le> behind"
          using visits.pointer [OF less.prems(1) _ pt] False ld(4) len(1) by simp_all
        ultimately show ?thesis using decode_loop_pointer [OF pt] ld False by (metis not_le not_gr_zero)
      qed
    next
      case lab: False
      let ?tmp' = "tmp + 1 + unat b" and ?out' = "out @ seg (tmp + 1) (unat b) pkt @ [46]"
      show ?thesis
      proof (cases "maxlen < length out + unat b + 1 \<or> behind \<le> tmp + unat b + 1")
        case True
        then show ?thesis using ld lab by (intro disjI1 exI [of _ "Malformed out"]) auto
      next
        case False
        have "unat b \<le> length pkt - Suc tmp" using False len(2) by linarith
        then have "length ?out' = length out + unat b + 1" by (simp add: min_absorb1)
        then have less: "Suc maxlen - length ?out' < Suc maxlen - length out" using False by linarith
        have "?m ?out' ?tmp' < ?m out tmp"
          by (rule measure_less [OF less]) (use False len(2) in linarith)
        moreover have "visits pkt offset behind ?tmp'" "?tmp' \<le> behind"
          using visits.label [OF less.prems(1)] False ld lab by (simp_all add: b_def)
        moreover have "\<exists>after'. \<forall>k. ?run (Suc k) tmp after ok out = ?run k ?tmp' after' True ?out'"
        proof -
          have "load pkt ?tmp' = Some (pkt ! ?tmp')" using False len(2) by (simp add: load_def)
          then show ?thesis using False ld lab len(2) by (auto simp: Let_def)
        qed
        ultimately show ?thesis by blast
      qed
    qed
  qed
  then show ?case
  proof
    assume "\<exists>r. returned r \<and> (\<forall>k. ?run (Suc k) tmp after ok out = r)"
    then have "\<forall>k \<ge> 1. returned (?run k tmp after ok out)" by (metis Suc_le_D One_nat_def)
    then show ?case by blast
  next
    assume "\<exists>tmp' after' ok' out'. ?m out' tmp' < ?m out tmp \<and> visits pkt offset behind tmp' \<and> tmp' \<le> behind \<and>
      (\<forall>k. ?run (Suc k) tmp after ok out = ?run k tmp' after' ok' out')"
    then obtain tmp' after' ok' out' where s: "?m out' tmp' < ?m out tmp" "visits pkt offset behind tmp'" "tmp' \<le> behind"
      "\<forall>k. ?run (Suc k) tmp after ok out = ?run k tmp' after' ok' out'" by blast
    from less.hyps [OF s(1-3)] obtain n where "\<forall>k \<ge> n. returned (?run k tmp' after' ok' out')" by blast
    then have "\<forall>k \<ge> Suc n. returned (?run k tmp after ok out)" using s(4) by (metis Suc_le_D Suc_le_mono)
    then show ?case by blast
  qed
qed

section \<open>Properties\<close>

text \<open>C27: \<open>res_mkquery\<close> for a name of labels of 1 to 63 characters whose query fits in 512 bytes and in the buffer
  stores a query from which \<open>__dns_decodename\<close> reads the name back, and the position behind it.\<close>

theorem mkquery_decode:
  assumes "ls \<noteq> []" "list_all label ls" "17 + length (wire ls) \<le> 512" "17 + int (length (wire ls)) \<le> buflen"
    and "length (dotted ls) < maxlen"
  shows "\<exists>q. res_mkquery rnd recurse (dotted ls) cls typ buflen = Some (int (length q), q) \<and>
    dns_decodename (Suc (length ls)) q 12 maxlen (length q) = Decoded (13 + length (wire ls)) (dotted ls @ [0])"
proof -
  let ?h = "[ucast rnd, ucast (drop_bit 8 rnd), if recurse then 1 else 0, 0, 0, 1, 0, 0, 0, 0, 0, 0] :: u8 list"
  let ?q = "?h @ wire ls @ 0 # [0, typ, 0, cls]"
  have "mkquery_loop [] (dotted ls) = Some (Inr ([] @ wire ls))"
    by (rule mkquery_loop_labels) (use assms(1-3) in auto)
  moreover have "dotted ls \<noteq> []"
    using assms(1,2) by (cases ls rule: dotted.cases) (auto simp: label_def)
  ultimately have "res_mkquery rnd recurse (dotted ls) cls typ buflen = Some (int (length ?q), ?q)"
    using assms(3,4) by (simp add: res_mkquery_def Let_def)
  moreover have "dns_decodename (Suc (length ls)) ?q 12 maxlen (length ?q) = Decoded (13 + length (wire ls)) (dotted ls @ [0])"
  proof -
    have h: "length ?h = 12" by simp
    have "decode_loop (Suc (length ls)) ?q 12 maxlen (length ?q) (length ?h) (length ?h) False [] =
        Name (length ?h + length (wire ls) + 1) True (dotted ls @ [46])"
      using decode_loop_labels [OF assms(2), of ?q ?h "[0, typ, 0, cls]" "length ?q" "[]" maxlen "length ?h" "Suc (length ls)" 12 False]
        assms(1,5) length_wire [OF assms(1)] dotted_concat [OF assms(1)] by simp
    then show ?thesis unfolding dns_decodename_def h by simp
  qed
  ultimately show ?thesis by blast
qed

theorem mkquery_decode_witness:
  "\<exists>q. res_mkquery 7 True [97, 98, 46, 99] 1 1 512 = Some (int (length q), q) \<and>
    dns_decodename 3 q 12 256 (length q) = Decoded 18 [97, 98, 46, 99, 0]"
proof -
  have l: "list_all label [[97, 98], [99]]" by (simp add: label_def)
  show ?thesis
    using mkquery_decode [of "[[97, 98], [99]]" 512 256 7 True 1 1] l
    by (simp add: numeral_3_eq_3 del: decode_loop.simps)
qed

text \<open>C29: whatever the packet and the result, also when it returns -1, and however long it runs, \<open>__dns_decodename\<close> has stored
  at most \<open>maxlen\<close> bytes, and one more when it returns a position: the final NUL, one byte past the buffer, when the
  labels fill it and a compression pointer to an empty name follows.\<close>

theorem decodename_bound:
  "length (bytes_stored (dns_decodename n pkt offset maxlen behind)) \<le>
    maxlen + (case dns_decodename n pkt offset maxlen behind of Decoded _ _ \<Rightarrow> 1 | _ \<Rightarrow> 0)"
  using decode_loop_bound [of "[]" maxlen n pkt offset behind offset offset False]
  by (auto simp: dns_decodename_def split: decoded.splits)

theorem decodename_bound_witness:
  "dns_decodename 4 [0, 0, 1, 97, 0xc0, 0, 0] 2 2 7 = Decoded 6 [97, 46, 0] \<and> length [97, 46, 0 :: u8] \<le> 2 + 1 \<and>
   dns_decodename 4 [1, 97, 0xc0, 9] 0 2 4 = Minus_one [97, 46] \<and> length [97, 46 :: u8] \<le> 2 + 0"
proof -
  have d: "dns_decodename 4 [0, 0, 1, 97, 0xc0, 0, 0] 2 2 7 = Decoded 6 [97, 46, 0]"
    and m: "dns_decodename 4 [1, 97, 0xc0, 9] 0 2 4 = Minus_one [97, 46]" by code_simp+
  from d m decodename_bound [of 4 "[0, 0, 1, 97, 0xc0, 0, 0]" 2 2 7, unfolded d]
    decodename_bound [of 4 "[1, 97, 0xc0, 9]" 0 2 4, unfolded m]
  show ?thesis by simp
qed

text \<open>C28: \<open>__dns_decodename\<close> returns a position or -1, without a read outside the buffer, when the buffer goes on for at
  least one byte behind the data and each compression pointer that is followed on the way points to before itself. The code
  only asks that pointers point to before the name it was called for: it never returns for a name that starts with a
  pointer to a pointer to itself. Without the byte behind the data it reads the second byte of a pointer outside the
  buffer.\<close>

theorem decodename_termination:
  "(offset \<le> behind \<and> behind < length pkt \<and>
      (\<forall>p q. visits pkt offset behind p \<and> p < behind \<and> points_to pkt p q \<and> q < offset \<longrightarrow> q < p) \<longrightarrow>
      (\<exists>n. \<forall>k \<ge> n. \<exists>after out. dns_decodename k pkt offset maxlen behind \<in> {Minus_one out, Decoded after out})) \<and>
   (points_to pkt offset r \<and> points_to pkt r r \<and> r < offset \<and> offset < behind \<and> 0 < maxlen \<longrightarrow>
      (\<forall>k. dns_decodename k pkt offset maxlen behind = Timeout [])) \<and>
   (0 < maxlen \<and> 192 \<le> b \<longrightarrow> dns_decodename (Suc k) (xs @ [b]) (length xs) maxlen (length xs + 1) = Undefined [])"
proof (intro conjI impI)
  assume "offset \<le> behind \<and> behind < length pkt \<and>
      (\<forall>p q. visits pkt offset behind p \<and> p < behind \<and> points_to pkt p q \<and> q < offset \<longrightarrow> q < p)"
  then obtain n where n: "\<forall>k \<ge> n. returned (decode_loop k pkt offset maxlen behind offset offset False [])"
    using decode_loop_ends [of pkt offset behind offset maxlen offset False "[]"] visits.start by blast
  have "\<exists>after out. dns_decodename k pkt offset maxlen behind \<in> {Minus_one out, Decoded after out}" if "k \<ge> n" for k
    using n that by (cases "decode_loop k pkt offset maxlen behind offset offset False []") (auto simp: dns_decodename_def)
  then show "\<exists>n. \<forall>k \<ge> n. \<exists>after out. dns_decodename k pkt offset maxlen behind \<in> {Minus_one out, Decoded after out}"
    by blast
next
  assume a: "points_to pkt offset r \<and> points_to pkt r r \<and> r < offset \<and> offset < behind \<and> 0 < maxlen"
  then have p: "points_to pkt offset r" "0 < maxlen" "offset < behind" "r < offset" "points_to pkt r r" "r < behind" by auto
  have "dns_decodename k pkt offset maxlen behind = Timeout []" for k
  proof (cases k)
    case (Suc m)
    then show ?thesis
      by (simp add: dns_decodename_def decode_loop_pointer [OF p(1-4)] decode_loop_cycle [OF p(5,2,6,4)] del: decode_loop.simps)
  qed (simp add: dns_decodename_def)
  then show "\<forall>k. dns_decodename k pkt offset maxlen behind = Timeout []" by blast
next
  assume a: "0 < maxlen \<and> 192 \<le> b"
  then have "192 \<le> unat b" by (simp add: word_le_nat_alt)
  then have "unat b div 64 = 3" using unsigned_less [of b, where 'a = nat] by simp
  then have "unat (drop_bit 6 b) = unat (3 :: u8)" by (simp add: unat_drop_bit_eq drop_bit_eq_div unat_div_distrib)
  then have "drop_bit 6 b = 3" by (simp only: word_unat_eq_iff)
  moreover have "b \<noteq> 0" using a by auto
  ultimately show "dns_decodename (Suc k) (xs @ [b]) (length xs) maxlen (length xs + 1) = Undefined []"
    using a by (simp add: dns_decodename_def load_def)
qed

theorem decodename_termination_witness:
  "(\<exists>n. \<forall>k \<ge> n. \<exists>after out. dns_decodename k [1, 97, 0, 0xc0, 0, 7] 3 256 5 \<in> {Minus_one out, Decoded after out}) \<and>
   (\<forall>k. dns_decodename k [0xc0, 0, 0xc0, 0] 2 256 4 = Timeout []) \<and>
   dns_decodename (Suc 0) ([0] @ [0xc0]) (length [0 :: u8]) 256 (length [0 :: u8] + 1) = Undefined []"
proof -
  let ?pkt = "[1, 97, 0, 0xc0, 0, 7] :: u8 list"
  have v: "p \<in> {0, 2, 3}" if "visits ?pkt 3 5 p" for p
    using that by induction (auto simp: points_to_def)
  have *: "q < p" if "visits ?pkt 3 5 p" "points_to ?pkt p q" for p q
    using v [OF that(1)] that(2) by (auto simp: points_to_def)
  have c: "points_to [0xc0, 0, 0xc0, 0] 2 0 \<and> points_to [0xc0, 0, 0xc0, 0] 0 0 \<and> (0::nat) < 2 \<and> (2::nat) < 4 \<and> (0::nat) < 256"
    by (simp add: points_to_def)
  have l: "(3 :: nat) \<le> 5 \<and> 5 < length ?pkt \<and>
      (\<forall>p q. visits ?pkt 3 5 p \<and> p < 5 \<and> points_to ?pkt p q \<and> q < 3 \<longrightarrow> q < p)"
    using * by simp
  have u: "(0 :: nat) < 256 \<and> (192 :: u8) \<le> 0xc0" by simp
  show ?thesis
    using decodename_termination [where offset = 3 and behind = 5 and pkt = ?pkt and maxlen = 256, THEN conjunct1, THEN mp, OF l]
      decodename_termination [where pkt = "[0xc0, 0, 0xc0, 0]" and offset = 2 and maxlen = 256 and behind = 4 and r = 0,
        THEN conjunct2, THEN conjunct1, THEN mp, OF c]
      decodename_termination [where maxlen = 256 and b = "0xc0" and k = 0 and xs = "[0]", THEN conjunct2, THEN conjunct2, THEN mp, OF u]
    by (intro conjI)
qed

end
