(* ===== verification/Md5.thy ===== *)
theory Md5
  imports Prelude
begin

text \<open>
  The digest MD5 (\<open>src/lib/c/libcrypt/md5.c\<close>) against RFC 1321, and the password hash made from it
  (\<open>src/lib/c/libcrypt/md5crypt.c\<close>). The C text of \<open>MD5Init\<close>, \<open>__MD5Transform\<close> and \<open>MD5Update\<close> is compiled for targets
  without an assembler version. Words are stored with the lowest byte first, the byte order of the target.
\<close>

section \<open>The context and the transformation\<close>

type_synonym md5_state = "u32 \<times> u32 \<times> u32 \<times> u32"

record MD5_CTX =
  state :: md5_state
  count :: "u32 \<times> u32"
  buffer :: "u8 list"

definition rotate_left :: "u32 \<Rightarrow> nat \<Rightarrow> u32" where
  "rotate_left x n = push_bit n x OR drop_bit (32 - n) x"

definition mF :: "u32 \<Rightarrow> u32 \<Rightarrow> u32 \<Rightarrow> u32" where "mF x y z = z XOR (x AND (y XOR z))"
definition mG :: "u32 \<Rightarrow> u32 \<Rightarrow> u32 \<Rightarrow> u32" where "mG x y z = y XOR (z AND (x XOR y))"
definition mH :: "u32 \<Rightarrow> u32 \<Rightarrow> u32 \<Rightarrow> u32" where "mH x y z = x XOR y XOR z"
definition mI :: "u32 \<Rightarrow> u32 \<Rightarrow> u32 \<Rightarrow> u32" where "mI x y z = y XOR (x OR NOT z)"

definition FF :: "u32 \<Rightarrow> u32 \<Rightarrow> u32 \<Rightarrow> u32 \<Rightarrow> u32 \<Rightarrow> nat \<Rightarrow> u32 \<Rightarrow> u32" where
  "FF a b c d x s ac = rotate_left (a + (mF b c d + x + ac)) s + b"

definition GG :: "u32 \<Rightarrow> u32 \<Rightarrow> u32 \<Rightarrow> u32 \<Rightarrow> u32 \<Rightarrow> nat \<Rightarrow> u32 \<Rightarrow> u32" where
  "GG a b c d x s ac = rotate_left (a + (mG b c d + x + ac)) s + b"

definition HH :: "u32 \<Rightarrow> u32 \<Rightarrow> u32 \<Rightarrow> u32 \<Rightarrow> u32 \<Rightarrow> nat \<Rightarrow> u32 \<Rightarrow> u32" where
  "HH a b c d x s ac = rotate_left (a + (mH b c d + x + ac)) s + b"

definition II :: "u32 \<Rightarrow> u32 \<Rightarrow> u32 \<Rightarrow> u32 \<Rightarrow> u32 \<Rightarrow> nat \<Rightarrow> u32 \<Rightarrow> u32" where
  "II a b c d x s ac = rotate_left (a + (mI b c d + x + ac)) s + b"

definition round_one :: "(nat \<Rightarrow> u32) \<Rightarrow> md5_state \<Rightarrow> md5_state" where
  "round_one x = (\<lambda>(a, b, c, d).
     let a = FF a b c d (x 0) 7 0xd76aa478 in
     let d = FF d a b c (x 1) 12 0xe8c7b756 in
     let c = FF c d a b (x 2) 17 0x242070db in
     let b = FF b c d a (x 3) 22 0xc1bdceee in
     let a = FF a b c d (x 4) 7 0xf57c0faf in
     let d = FF d a b c (x 5) 12 0x4787c62a in
     let c = FF c d a b (x 6) 17 0xa8304613 in
     let b = FF b c d a (x 7) 22 0xfd469501 in
     let a = FF a b c d (x 8) 7 0x698098d8 in
     let d = FF d a b c (x 9) 12 0x8b44f7af in
     let c = FF c d a b (x 10) 17 0xffff5bb1 in
     let b = FF b c d a (x 11) 22 0x895cd7be in
     let a = FF a b c d (x 12) 7 0x6b901122 in
     let d = FF d a b c (x 13) 12 0xfd987193 in
     let c = FF c d a b (x 14) 17 0xa679438e in
     let b = FF b c d a (x 15) 22 0x49b40821 in
     (a, b, c, d))"

definition round_two :: "(nat \<Rightarrow> u32) \<Rightarrow> md5_state \<Rightarrow> md5_state" where
  "round_two x = (\<lambda>(a, b, c, d).
     let a = GG a b c d (x 1) 5 0xf61e2562 in
     let d = GG d a b c (x 6) 9 0xc040b340 in
     let c = GG c d a b (x 11) 14 0x265e5a51 in
     let b = GG b c d a (x 0) 20 0xe9b6c7aa in
     let a = GG a b c d (x 5) 5 0xd62f105d in
     let d = GG d a b c (x 10) 9 0x02441453 in
     let c = GG c d a b (x 15) 14 0xd8a1e681 in
     let b = GG b c d a (x 4) 20 0xe7d3fbc8 in
     let a = GG a b c d (x 9) 5 0x21e1cde6 in
     let d = GG d a b c (x 14) 9 0xc33707d6 in
     let c = GG c d a b (x 3) 14 0xf4d50d87 in
     let b = GG b c d a (x 8) 20 0x455a14ed in
     let a = GG a b c d (x 13) 5 0xa9e3e905 in
     let d = GG d a b c (x 2) 9 0xfcefa3f8 in
     let c = GG c d a b (x 7) 14 0x676f02d9 in
     let b = GG b c d a (x 12) 20 0x8d2a4c8a in
     (a, b, c, d))"

definition round_three :: "(nat \<Rightarrow> u32) \<Rightarrow> md5_state \<Rightarrow> md5_state" where
  "round_three x = (\<lambda>(a, b, c, d).
     let a = HH a b c d (x 5) 4 0xfffa3942 in
     let d = HH d a b c (x 8) 11 0x8771f681 in
     let c = HH c d a b (x 11) 16 0x6d9d6122 in
     let b = HH b c d a (x 14) 23 0xfde5380c in
     let a = HH a b c d (x 1) 4 0xa4beea44 in
     let d = HH d a b c (x 4) 11 0x4bdecfa9 in
     let c = HH c d a b (x 7) 16 0xf6bb4b60 in
     let b = HH b c d a (x 10) 23 0xbebfbc70 in
     let a = HH a b c d (x 13) 4 0x289b7ec6 in
     let d = HH d a b c (x 0) 11 0xeaa127fa in
     let c = HH c d a b (x 3) 16 0xd4ef3085 in
     let b = HH b c d a (x 6) 23 0x04881d05 in
     let a = HH a b c d (x 9) 4 0xd9d4d039 in
     let d = HH d a b c (x 12) 11 0xe6db99e5 in
     let c = HH c d a b (x 15) 16 0x1fa27cf8 in
     let b = HH b c d a (x 2) 23 0xc4ac5665 in
     (a, b, c, d))"

definition round_four :: "(nat \<Rightarrow> u32) \<Rightarrow> md5_state \<Rightarrow> md5_state" where
  "round_four x = (\<lambda>(a, b, c, d).
     let a = II a b c d (x 0) 6 0xf4292244 in
     let d = II d a b c (x 7) 10 0x432aff97 in
     let c = II c d a b (x 14) 15 0xab9423a7 in
     let b = II b c d a (x 5) 21 0xfc93a039 in
     let a = II a b c d (x 12) 6 0x655b59c3 in
     let d = II d a b c (x 3) 10 0x8f0ccc92 in
     let c = II c d a b (x 10) 15 0xffeff47d in
     let b = II b c d a (x 1) 21 0x85845dd1 in
     let a = II a b c d (x 8) 6 0x6fa87e4f in
     let d = II d a b c (x 15) 10 0xfe2ce6e0 in
     let c = II c d a b (x 6) 15 0xa3014314 in
     let b = II b c d a (x 13) 21 0x4e0811a1 in
     let a = II a b c d (x 4) 6 0xf7537e82 in
     let d = II d a b c (x 11) 10 0xbd3af235 in
     let c = II c d a b (x 2) 15 0x2ad7d2bb in
     let b = II b c d a (x 9) 21 0xeb86d391 in
     (a, b, c, d))"

text \<open>The word \<open>k\<close> of a block.\<close>

definition block_word :: "u8 list \<Rightarrow> nat \<Rightarrow> u32" where
  "block_word bs k = ucast (bs ! (4 * k)) OR push_bit 8 (ucast (bs ! (4 * k + 1))) OR
     push_bit 16 (ucast (bs ! (4 * k + 2))) OR push_bit 24 (ucast (bs ! (4 * k + 3)))"

definition md5_block :: "u8 list \<Rightarrow> md5_state \<Rightarrow> md5_state" where
  "md5_block bs st = (let x = block_word bs in
     case (st, round_four x (round_three x (round_two x (round_one x st)))) of
       ((s0, s1, s2, s3), (a, b, c, d)) \<Rightarrow> (a + s0, b + s1, c + s2, d + s3))"

text \<open>\<open>__MD5Transform\<close>: \<open>None\<close> when the input is shorter than \<open>repeat\<close> blocks.\<close>

fun md5_transform :: "md5_state \<Rightarrow> u8 list \<Rightarrow> nat \<Rightarrow> md5_state option" where
  "md5_transform st inp 0 = Some st"
| "md5_transform st inp (Suc n) =
     (if length inp < 64 then None else md5_transform (md5_block (take 64 inp) st) (drop 64 inp) n)"

section \<open>The operations\<close>

definition md5_init :: "MD5_CTX \<Rightarrow> MD5_CTX" where
  "md5_init ctx = ctx\<lparr>count := (0, 0), state := (0x67452301, 0xefcdab89, 0x98badcfe, 0x10325476)\<rparr>"

text \<open>\<open>MD5Update\<close>: undefined when \<open>int i\<close> does not hold the number of bytes transformed.\<close>

definition md5_update :: "MD5_CTX \<Rightarrow> u8 list \<Rightarrow> MD5_CTX option" where
  "md5_update ctx input =
     (let inputBytes = of_nat (length input) :: u32; byteIndex = unat (drop_bit 3 (fst (count ctx)) AND 0x3f);
          c0 = fst (count ctx) + push_bit 3 inputBytes;
          c1 = (if c0 < push_bit 3 inputBytes then snd (count ctx) + 1 else snd (count ctx)) + drop_bit 29 inputBytes;
          partLen = 64 - byteIndex in
      if partLen \<le> length input then do {
        st \<leftarrow> md5_transform (state ctx) (patch byteIndex (take partLen input) (buffer ctx)) 1;
        st \<leftarrow> md5_transform st (drop partLen input) ((length input - partLen) div 64);
        i \<leftarrow> i32 (int partLen + 64 * int ((length input - partLen) div 64));
        Some (ctx\<lparr>count := (c0, c1), state := st,
          buffer := patch 0 (drop (nat i) input) (patch byteIndex (take partLen input) (buffer ctx))\<rparr>)
      } else Some (ctx\<lparr>count := (c0, c1), buffer := patch byteIndex input (buffer ctx)\<rparr>))"

definition word_bytes :: "u32 \<Rightarrow> u8 list" where
  "word_bytes w = [ucast w, ucast (drop_bit 8 w), ucast (drop_bit 16 w), ucast (drop_bit 24 w)]"

text \<open>\<open>MD5Final\<close>: the digest and the cleared context.\<close>

definition md5_final :: "MD5_CTX \<Rightarrow> (u8 list \<times> MD5_CTX) option" where
  "md5_final ctx =
     (let byteIndex = unat (drop_bit 3 (fst (count ctx)) AND 0x3f);
          finalBlock = 0x80 # replicate 63 0; finalBlockLength = (if byteIndex < 56 then 56 else 120) - byteIndex in do {
      ctx1 \<leftarrow> md5_update ctx (take finalBlockLength finalBlock);
      ctx2 \<leftarrow> md5_update ctx1 (word_bytes (fst (count ctx)) @ word_bytes (snd (count ctx)));
      Some (case state ctx2 of (a, b, c, d) \<Rightarrow> word_bytes a @ word_bytes b @ word_bytes c @ word_bytes d,
        ctx2\<lparr>state := (0, 0, 0, 0), count := (0, 0), buffer := replicate 64 0\<rparr>)
     })"

section \<open>RFC 1321\<close>

text \<open>The RFC gives the four rounds as one loop over tables: operation \<open>i\<close> adds to one register a function of the three
  others, a word of the block and an entry of the table, rotates, and the registers change places.\<close>

definition rfc_T :: "u32 list" where
  "rfc_T = [0xd76aa478, 0xe8c7b756, 0x242070db, 0xc1bdceee, 0xf57c0faf, 0x4787c62a, 0xa8304613, 0xfd469501,
     0x698098d8, 0x8b44f7af, 0xffff5bb1, 0x895cd7be, 0x6b901122, 0xfd987193, 0xa679438e, 0x49b40821,
     0xf61e2562, 0xc040b340, 0x265e5a51, 0xe9b6c7aa, 0xd62f105d, 0x02441453, 0xd8a1e681, 0xe7d3fbc8,
     0x21e1cde6, 0xc33707d6, 0xf4d50d87, 0x455a14ed, 0xa9e3e905, 0xfcefa3f8, 0x676f02d9, 0x8d2a4c8a,
     0xfffa3942, 0x8771f681, 0x6d9d6122, 0xfde5380c, 0xa4beea44, 0x4bdecfa9, 0xf6bb4b60, 0xbebfbc70,
     0x289b7ec6, 0xeaa127fa, 0xd4ef3085, 0x04881d05, 0xd9d4d039, 0xe6db99e5, 0x1fa27cf8, 0xc4ac5665,
     0xf4292244, 0x432aff97, 0xab9423a7, 0xfc93a039, 0x655b59c3, 0x8f0ccc92, 0xffeff47d, 0x85845dd1,
     0x6fa87e4f, 0xfe2ce6e0, 0xa3014314, 0x4e0811a1, 0xf7537e82, 0xbd3af235, 0x2ad7d2bb, 0xeb86d391]"

definition rfc_f :: "nat \<Rightarrow> u32 \<Rightarrow> u32 \<Rightarrow> u32 \<Rightarrow> u32" where
  "rfc_f i x y z =
     (if i < 16 then (x AND y) OR (NOT x AND z)
      else if i < 32 then (x AND z) OR (y AND NOT z)
      else if i < 48 then x XOR y XOR z
      else y XOR (x OR NOT z))"

definition rfc_k :: "nat \<Rightarrow> nat" where
  "rfc_k i = (if i < 16 then i else if i < 32 then 5 * i + 1 else if i < 48 then 3 * i + 5 else 7 * i) mod 16"

definition rfc_s :: "nat \<Rightarrow> nat" where
  "rfc_s i = [7, 12, 17, 22, 5, 9, 14, 20, 4, 11, 16, 23, 6, 10, 15, 21] ! (4 * (i div 16) + i mod 4)"

definition rfc_step :: "(nat \<Rightarrow> u32) \<Rightarrow> nat \<Rightarrow> md5_state \<Rightarrow> md5_state" where
  "rfc_step x i = (\<lambda>(a, b, c, d). (d, b + word_rotl (rfc_s i) (a + rfc_f i b c d + x (rfc_k i) + rfc_T ! i), b, c))"

definition rfc_compress :: "(nat \<Rightarrow> u32) \<Rightarrow> md5_state \<Rightarrow> md5_state" where
  "rfc_compress x st =
     (case (st, fold (rfc_step x) [0..<64] st) of ((s0, s1, s2, s3), (a, b, c, d)) \<Rightarrow> (s0 + a, s1 + b, s2 + c, s3 + d))"

function rfc_blocks :: "md5_state \<Rightarrow> u8 list \<Rightarrow> md5_state" where
  "rfc_blocks st bs =
     (if length bs < 64 then st else rfc_blocks (rfc_compress (block_word (take 64 bs)) st) (drop 64 bs))"
  by pat_completeness auto
termination by (relation "measure (\<lambda>(st, bs). length bs)") auto

definition rfc_pad :: "nat \<Rightarrow> u8 list" where
  "rfc_pad n = 0x80 # replicate ((119 - n mod 64) mod 64) 0 @
     word_bytes (ucast (of_nat (8 * n) :: u64)) @ word_bytes (ucast (drop_bit 32 (of_nat (8 * n) :: u64)))"

definition rfc_md5 :: "u8 list \<Rightarrow> u8 list" where
  "rfc_md5 msg = (case rfc_blocks (0x67452301, 0xefcdab89, 0x98badcfe, 0x10325476) (msg @ rfc_pad (length msg)) of
     (a, b, c, d) \<Rightarrow> word_bytes a @ word_bytes b @ word_bytes c @ word_bytes d)"

declare rfc_blocks.simps [simp del]

section \<open>One block\<close>

lemma rotate_left_rotl:
  assumes "0 < n" "n < 32"
  shows "rotate_left x n = word_rotl n x"
proof (rule bit_eqI)
  fix k
  assume "possible_bit TYPE(u32) k"
  then have k: "k < 32" by simp
  have out: "\<not> bit x j" if "32 \<le> j" for j using bit_imp_le_length [of x j] that by auto
  have "(k + 32 - n) mod 32 = (if n \<le> k then k - n else 32 + k - n)"
  proof (cases "n \<le> k")
    case True
    then have "k + 32 - n = (k - n) + 32" by simp
    then have "(k + 32 - n) mod 32 = (k - n) mod 32" by (simp only: mod_add_self2)
    with True k show ?thesis by simp
  qed (use assms k in simp)
  with k assms out show "bit (rotate_left x n) k = bit (word_rotl n x) k"
    by (auto simp: rotate_left_def bit_simps)
qed

lemma mF_rfc: "mF x y z = (x AND y) OR (NOT x AND z)"
  and mG_rfc: "mG x y z = (x AND z) OR (y AND NOT z)"
  by (auto simp: mF_def mG_def bit_simps intro!: bit_eqI)

lemma rfc_s_bounds: "i < 64 \<Longrightarrow> 0 < rfc_s i \<and> rfc_s i < 32"
proof -
  assume "i < 64"
  have "\<forall>i \<in> set [0..<64]. 0 < rfc_s i \<and> rfc_s i < 32" by code_simp
  with \<open>i < 64\<close> show ?thesis by simp
qed

lemma rfc_step_round:
  "i < 16 \<Longrightarrow> rfc_step x i (a, b, c, d) = (d, FF a b c d (x (rfc_k i)) (rfc_s i) (rfc_T ! i), b, c)"
  "16 \<le> i \<Longrightarrow> i < 32 \<Longrightarrow> rfc_step x i (a, b, c, d) = (d, GG a b c d (x (rfc_k i)) (rfc_s i) (rfc_T ! i), b, c)"
  "32 \<le> i \<Longrightarrow> i < 48 \<Longrightarrow> rfc_step x i (a, b, c, d) = (d, HH a b c d (x (rfc_k i)) (rfc_s i) (rfc_T ! i), b, c)"
  "48 \<le> i \<Longrightarrow> i < 64 \<Longrightarrow> rfc_step x i (a, b, c, d) = (d, II a b c d (x (rfc_k i)) (rfc_s i) (rfc_T ! i), b, c)"
  using rfc_s_bounds [of i]
  by (simp_all add: rfc_step_def FF_def GG_def HH_def II_def mH_def mI_def mF_rfc mG_rfc rfc_f_def rotate_left_rotl ac_simps)

text \<open>The operations of a round, one after the other.\<close>

lemma fold_round:
  "i < 16 \<Longrightarrow> fold (rfc_step x) (i # is) (a, b, c, d) =
     (let a' = FF a b c d (x (rfc_k i)) (rfc_s i) (rfc_T ! i) in fold (rfc_step x) is (d, a', b, c))"
  "16 \<le> i \<Longrightarrow> i < 32 \<Longrightarrow> fold (rfc_step x) (i # is) (a, b, c, d) =
     (let a' = GG a b c d (x (rfc_k i)) (rfc_s i) (rfc_T ! i) in fold (rfc_step x) is (d, a', b, c))"
  "32 \<le> i \<Longrightarrow> i < 48 \<Longrightarrow> fold (rfc_step x) (i # is) (a, b, c, d) =
     (let a' = HH a b c d (x (rfc_k i)) (rfc_s i) (rfc_T ! i) in fold (rfc_step x) is (d, a', b, c))"
  "48 \<le> i \<Longrightarrow> i < 64 \<Longrightarrow> fold (rfc_step x) (i # is) (a, b, c, d) =
     (let a' = II a b c d (x (rfc_k i)) (rfc_s i) (rfc_T ! i) in fold (rfc_step x) is (d, a', b, c))"
  by (simp_all add: rfc_step_round Let_def)

text \<open>The tables of a round, entry by entry.\<close>

definition rfc_rows :: "nat list \<Rightarrow> (nat \<times> nat \<times> u32) list" where
  "rfc_rows = map (\<lambda>i. (rfc_k i, rfc_s i, rfc_T ! i))"

lemma rfc_rows_simps: "rfc_rows [] = []" "rfc_rows (i # is) = (rfc_k i, rfc_s i, rfc_T ! i) # rfc_rows is"
  by (simp_all add: rfc_rows_def)

lemma upt_unroll: "[n..<n + 16] = [n, n + 1, n + 2, n + 3, n + 4, n + 5, n + 6, n + 7, n + 8, n + 9, n + 10, n + 11, n + 12, n + 13, n + 14, n + 15]"
  by (simp add: upt_rec numeral_eq_Suc)



lemma round_one_rfc: "round_one x st = fold (rfc_step x) [0..<16] st"
proof -
  obtain a b c d where st: "st = (a, b, c, d)" by (metis surj_pair)
  have up: "[0..<16] = [0, 1, 2, 3, 4, 5, 6, 7, 8, 9, 10, 11, 12, 13, 14, 15]"
    using upt_unroll [of 0] by simp
  have rows: "rfc_rows [0, 1, 2, 3, 4, 5, 6, 7, 8, 9, 10, 11, 12, 13, 14, 15] =
    [(0, 7, 0xd76aa478), (1, 12, 0xe8c7b756), (2, 17, 0x242070db), (3, 22, 0xc1bdceee),
     (4, 7, 0xf57c0faf), (5, 12, 0x4787c62a), (6, 17, 0xa8304613), (7, 22, 0xfd469501),
     (8, 7, 0x698098d8), (9, 12, 0x8b44f7af), (10, 17, 0xffff5bb1), (11, 22, 0x895cd7be),
     (12, 7, 0x6b901122), (13, 12, 0xfd987193), (14, 17, 0xa679438e), (15, 22, 0x49b40821)]"
    by (simp add: rfc_rows_def rfc_k_def rfc_s_def rfc_T_def)
  have e: "fold (rfc_step x) [0, 1, 2, 3, 4, 5, 6, 7, 8, 9, 10, 11, 12, 13, 14, 15] (a, b, c, d) = round_one x (a, b, c, d)"
    using rows unfolding rfc_rows_simps list.inject prod.inject round_one_def prod.case
    by (simp only: fold_round fold_simps(1) rel_simps)
  show ?thesis unfolding st up e ..
qed

lemma round_two_rfc: "round_two x st = fold (rfc_step x) [16..<32] st"
proof -
  obtain a b c d where st: "st = (a, b, c, d)" by (metis surj_pair)
  have up: "[16..<32] = [16, 17, 18, 19, 20, 21, 22, 23, 24, 25, 26, 27, 28, 29, 30, 31]"
    using upt_unroll [of 16] by simp
  have rows: "rfc_rows [16, 17, 18, 19, 20, 21, 22, 23, 24, 25, 26, 27, 28, 29, 30, 31] =
    [(1, 5, 0xf61e2562), (6, 9, 0xc040b340), (11, 14, 0x265e5a51), (0, 20, 0xe9b6c7aa),
     (5, 5, 0xd62f105d), (10, 9, 0x02441453), (15, 14, 0xd8a1e681), (4, 20, 0xe7d3fbc8),
     (9, 5, 0x21e1cde6), (14, 9, 0xc33707d6), (3, 14, 0xf4d50d87), (8, 20, 0x455a14ed),
     (13, 5, 0xa9e3e905), (2, 9, 0xfcefa3f8), (7, 14, 0x676f02d9), (12, 20, 0x8d2a4c8a)]"
    by (simp add: rfc_rows_def rfc_k_def rfc_s_def rfc_T_def)
  have e: "fold (rfc_step x) [16, 17, 18, 19, 20, 21, 22, 23, 24, 25, 26, 27, 28, 29, 30, 31] (a, b, c, d) = round_two x (a, b, c, d)"
    using rows unfolding rfc_rows_simps list.inject prod.inject round_two_def prod.case
    by (simp only: fold_round fold_simps(1) rel_simps)
  show ?thesis unfolding st up e ..
qed

lemma round_three_rfc: "round_three x st = fold (rfc_step x) [32..<48] st"
proof -
  obtain a b c d where st: "st = (a, b, c, d)" by (metis surj_pair)
  have up: "[32..<48] = [32, 33, 34, 35, 36, 37, 38, 39, 40, 41, 42, 43, 44, 45, 46, 47]"
    using upt_unroll [of 32] by simp
  have rows: "rfc_rows [32, 33, 34, 35, 36, 37, 38, 39, 40, 41, 42, 43, 44, 45, 46, 47] =
    [(5, 4, 0xfffa3942), (8, 11, 0x8771f681), (11, 16, 0x6d9d6122), (14, 23, 0xfde5380c),
     (1, 4, 0xa4beea44), (4, 11, 0x4bdecfa9), (7, 16, 0xf6bb4b60), (10, 23, 0xbebfbc70),
     (13, 4, 0x289b7ec6), (0, 11, 0xeaa127fa), (3, 16, 0xd4ef3085), (6, 23, 0x04881d05),
     (9, 4, 0xd9d4d039), (12, 11, 0xe6db99e5), (15, 16, 0x1fa27cf8), (2, 23, 0xc4ac5665)]"
    by (simp add: rfc_rows_def rfc_k_def rfc_s_def rfc_T_def)
  have e: "fold (rfc_step x) [32, 33, 34, 35, 36, 37, 38, 39, 40, 41, 42, 43, 44, 45, 46, 47] (a, b, c, d) = round_three x (a, b, c, d)"
    using rows unfolding rfc_rows_simps list.inject prod.inject round_three_def prod.case
    by (simp only: fold_round fold_simps(1) rel_simps)
  show ?thesis unfolding st up e ..
qed

lemma round_four_rfc: "round_four x st = fold (rfc_step x) [48..<64] st"
proof -
  obtain a b c d where st: "st = (a, b, c, d)" by (metis surj_pair)
  have up: "[48..<64] = [48, 49, 50, 51, 52, 53, 54, 55, 56, 57, 58, 59, 60, 61, 62, 63]"
    using upt_unroll [of 48] by simp
  have rows: "rfc_rows [48, 49, 50, 51, 52, 53, 54, 55, 56, 57, 58, 59, 60, 61, 62, 63] =
    [(0, 6, 0xf4292244), (7, 10, 0x432aff97), (14, 15, 0xab9423a7), (5, 21, 0xfc93a039),
     (12, 6, 0x655b59c3), (3, 10, 0x8f0ccc92), (10, 15, 0xffeff47d), (1, 21, 0x85845dd1),
     (8, 6, 0x6fa87e4f), (15, 10, 0xfe2ce6e0), (6, 15, 0xa3014314), (13, 21, 0x4e0811a1),
     (4, 6, 0xf7537e82), (11, 10, 0xbd3af235), (2, 15, 0x2ad7d2bb), (9, 21, 0xeb86d391)]"
    by (simp add: rfc_rows_def rfc_k_def rfc_s_def rfc_T_def)
  have e: "fold (rfc_step x) [48, 49, 50, 51, 52, 53, 54, 55, 56, 57, 58, 59, 60, 61, 62, 63] (a, b, c, d) = round_four x (a, b, c, d)"
    using rows unfolding rfc_rows_simps list.inject prod.inject round_four_def prod.case
    by (simp only: fold_round fold_simps(1) rel_simps)
  show ?thesis unfolding st up e ..
qed

lemma md5_block_rfc: "md5_block bs st = rfc_compress (block_word bs) st"
proof -
  have "[0..<64] = [0..<16] @ [16..<32] @ [32..<48] @ [48..<64::nat]"
    using upt_add_eq_append [of 0 16 48] upt_add_eq_append [of 16 32 32] upt_add_eq_append [of 32 48 16] by simp
  then show ?thesis
    by (simp add: md5_block_def rfc_compress_def Let_def round_one_rfc round_two_rfc round_three_rfc round_four_rfc
        add.commute del: upt_rec_numeral split: prod.splits)
qed

section \<open>Streams of blocks\<close>

lemma rfc_blocks_short: "length bs < 64 \<Longrightarrow> rfc_blocks st bs = st"
  by (simp add: rfc_blocks.simps)

lemma rfc_blocks_append: "64 dvd length xs \<Longrightarrow> rfc_blocks st (xs @ ys) = rfc_blocks (rfc_blocks st xs) ys"
proof (induction "length xs" arbitrary: xs st rule: less_induct)
  case less
  show ?case
  proof (cases "xs = []")
    case True
    then show ?thesis by (simp add: rfc_blocks_short)
  next
    case False
    then have l: "64 \<le> length xs" using less.prems by (auto dest: dvd_imp_le)
    have "64 dvd length (drop 64 xs)" using less.prems l by (simp add: dvd_diff_nat)
    then have "rfc_blocks s (drop 64 xs @ ys) = rfc_blocks (rfc_blocks s (drop 64 xs)) ys" for s
      by (intro less.hyps) (use l in auto)
    with l show ?thesis by (simp add: rfc_blocks.simps [of _ xs] rfc_blocks.simps [of _ "xs @ ys"])
  qed
qed

lemma md5_transform_rfc:
  "64 * n \<le> length inp \<Longrightarrow> md5_transform st inp n = Some (rfc_blocks st (take (64 * n) inp))"
proof (induction n arbitrary: st inp)
  case 0
  then show ?case by (simp add: rfc_blocks_short)
next
  case (Suc n)
  have "take (64 * Suc n) inp = take 64 inp @ take (64 * n) (drop 64 inp)"
    by (simp add: take_add [symmetric])
  moreover have "rfc_blocks st (take 64 inp) = rfc_compress (block_word (take 64 inp)) st"
    using Suc.prems by (simp add: rfc_blocks.simps [of st "take 64 inp"] rfc_blocks_short)
  ultimately show ?case
    using Suc.prems Suc.IH [of "drop 64 inp"] by (simp add: rfc_blocks_append md5_block_rfc)
qed

section \<open>The count of bits\<close>

definition bits :: "u32 \<times> u32 \<Rightarrow> nat" where
  "bits c = unat (snd c) * 2 ^ 32 + unat (fst c)"

lemma pair_mod: "x < P \<Longrightarrow> (y mod P) * P + x = (y * P + x) mod (P * P)" for x y P :: nat
  using mod_mult2_eq [of "y * P + x" P P] by simp

lemma count_update:
  assumes n: "n < 2 ^ 32"
    and c0: "c0 = fst c + push_bit 3 (of_nat n :: u32)"
    and c1: "c1 = (if c0 < push_bit 3 (of_nat n) then snd c + 1 else snd c) + drop_bit 29 (of_nat n)"
  shows "bits (c0, c1) = (bits c + 8 * n) mod 2 ^ 64"
proof -
  define a b h where "a = unat (fst c)" and "b = 8 * n mod 2 ^ 32" and "h = n div 2 ^ 29"
  have un: "unat (of_nat n :: u32) = n" using n by (simp add: unat_of_nat)
  have sh: "unat (push_bit 3 (of_nat n :: u32)) = b"
    using n by (simp add: b_def push_bit_eq_mult unat_word_ariths un mult.commute)
  have hi: "unat (drop_bit 29 (of_nat n :: u32)) = h"
    using n by (simp add: unsigned_drop_bit_eq drop_bit_eq_div h_def unat_div_distrib un)
  have ab: "a < 2 ^ 32" "b < 2 ^ 32" using unat_u32 [of "fst c"] by (simp_all add: a_def b_def)
  have split: "8 * n = h * 2 ^ 32 + b"
  proof -
    have "n = h * 536870912 + n mod 536870912" by (simp add: h_def)
    moreover have "8 * (n mod 536870912) = b" using mult_mod_right [of 8 n "2 ^ 29"] by (simp add: b_def)
    ultimately show ?thesis by simp
  qed
  have u0: "unat c0 = (if a + b < 2 ^ 32 then a + b else a + b - 2 ^ 32)"
    unfolding c0 by (simp add: unat_plus_if' sh a_def)
  have carry: "c0 < push_bit 3 (of_nat n) \<longleftrightarrow> 2 ^ 32 \<le> a + b"
    unfolding word_less_nat_alt sh u0 using ab by auto
  have u1: "unat c1 = (unat (snd c) + (if 2 ^ 32 \<le> a + b then 1 else 0) + h) mod 2 ^ 32"
    unfolding c1 carry by (simp add: unat_word_ariths hi mod_simps)
  show ?thesis
  proof (cases "2 ^ 32 \<le> a + b")
    case False
    then have "bits (c0, c1) = (unat (snd c) + h) mod 2 ^ 32 * 2 ^ 32 + (a + b)" using u0 u1 by (simp add: bits_def)
    also have "\<dots> = ((unat (snd c) + h) * 2 ^ 32 + (a + b)) mod (2 ^ 32 * 2 ^ 32)"
      by (rule pair_mod) (use False in simp)
    also have "(unat (snd c) + h) * 2 ^ 32 + (a + b) = bits c + 8 * n" using split by (simp add: bits_def a_def)
    finally show ?thesis by simp
  next
    case True
    then have "bits (c0, c1) = (unat (snd c) + 1 + h) mod 2 ^ 32 * 2 ^ 32 + (a + b - 2 ^ 32)"
      using u0 u1 by (simp add: bits_def)
    also have "\<dots> = ((unat (snd c) + 1 + h) * 2 ^ 32 + (a + b - 2 ^ 32)) mod (2 ^ 32 * 2 ^ 32)"
      by (rule pair_mod) (use ab in simp)
    also have "(unat (snd c) + 1 + h) * 2 ^ 32 + (a + b - 2 ^ 32) = bits c + 8 * n"
      using split True by (simp add: bits_def a_def)
    finally show ?thesis by simp
  qed
qed

section \<open>The digest of a stream\<close>

definition md5_start :: md5_state where
  "md5_start = (0x67452301, 0xefcdab89, 0x98badcfe, 0x10325476)"

text \<open>A context holds the digest of the whole blocks of the bytes given to it, the bytes after them, and their number.\<close>

definition md5_inv :: "u8 list \<Rightarrow> MD5_CTX \<Rightarrow> bool" where
  "md5_inv bs ctx \<longleftrightarrow> (\<exists>full part. bs = full @ part \<and> 64 dvd length full \<and> length part < 64 \<and>
     state ctx = rfc_blocks md5_start full \<and> take (length part) (buffer ctx) = part \<and> length (buffer ctx) = 64 \<and>
     bits (count ctx) = 8 * length bs mod 2 ^ 64)"

lemma byte_index:
  assumes "bits c = 8 * n mod 2 ^ 64"
  shows "unat (drop_bit 3 (fst c) AND 0x3f) = n mod 64"
proof -
  have "unat (fst c) = bits c mod 2 ^ 32" using unat_u32 [of "fst c"] by (simp add: bits_def)
  also have "\<dots> = 8 * n mod 2 ^ 32" unfolding assms by (simp add: mod_mod_cancel)
  finally have f: "unat (fst c) = 8 * n mod 2 ^ 32" .
  have "unat (drop_bit 3 (fst c) AND 0x3f) = unat (take_bit 6 (drop_bit 3 (fst c)))"
    by (simp add: take_bit_eq_mask mask_eq_exp_minus_1)
  also have "\<dots> = unat (fst c) div 8 mod 64"
    by (simp add: unsigned_take_bit_eq unsigned_drop_bit_eq take_bit_eq_mod [where 'a = nat] drop_bit_eq_div unat_div_distrib)
  also have "\<dots> = n mod 2 ^ 29 mod 64" 
  proof -
    have "8 * n mod 2 ^ 32 = 8 * (n mod 2 ^ 29)" using mult_mod_right [of 8 n "2 ^ 29"] by simp
    then show ?thesis unfolding f by (simp only: nonzero_mult_div_cancel_left)
  qed
  also have "\<dots> = n mod 64" by (rule mod_mod_cancel) (simp add: dvd_power_le [of 2 2 6 29, simplified])
  finally show ?thesis .
qed

lemma md5_init_inv: "length (buffer ctx) = 64 \<Longrightarrow> md5_inv [] (md5_init ctx)"
  by (simp add: md5_inv_def md5_init_def md5_start_def rfc_blocks_short bits_def)

lemma md5_update_inv:
  assumes inv: "md5_inv bs ctx" and len: "length input < 2 ^ 31 - 64"
  obtains ctx' where "md5_update ctx input = Some ctx'" "md5_inv (bs @ input) ctx'"
proof -
  from inv obtain full part where bs: "bs = full @ part" "64 dvd length full" "length part < 64"
    and st: "state ctx = rfc_blocks md5_start full"
    and buf: "take (length part) (buffer ctx) = part" "length (buffer ctx) = 64"
    and cnt: "bits (count ctx) = 8 * length bs mod 2 ^ 64" by (auto simp: md5_inv_def)
  let ?p = "length part" and ?n = "of_nat (length input) :: u32"
  have idx: "unat (drop_bit 3 (fst (count ctx)) AND 0x3f) = ?p"
    unfolding byte_index [OF cnt] using bs by (auto elim!: dvdE)
  define c0 where "c0 = fst (count ctx) + push_bit 3 ?n"
  define c1 where "c1 = (if c0 < push_bit 3 ?n then snd (count ctx) + 1 else snd (count ctx)) + drop_bit 29 ?n"
  have "bits (c0, c1) = (bits (count ctx) + 8 * length input) mod 2 ^ 64"
    by (rule count_update [OF _ c0_def c1_def]) (use len in simp)
  then have cnt': "bits (c0, c1) = 8 * length (bs @ input) mod 2 ^ 64"
    unfolding cnt by (simp add: mod_simps distrib_left)
  have "md5_update ctx input = (let partLen = 64 - ?p in
     if partLen \<le> length input then do {
        st \<leftarrow> md5_transform (state ctx) (patch ?p (take partLen input) (buffer ctx)) 1;
        st \<leftarrow> md5_transform st (drop partLen input) ((length input - partLen) div 64);
        i \<leftarrow> i32 (int partLen + 64 * int ((length input - partLen) div 64));
        Some (ctx\<lparr>count := (c0, c1), state := st, buffer := patch 0 (drop (nat i) input) (patch ?p (take partLen input) (buffer ctx))\<rparr>)
      } else Some (ctx\<lparr>count := (c0, c1), buffer := patch ?p input (buffer ctx)\<rparr>))" (is "_ = ?upd")
    by (simp only: md5_update_def Let_def idx c0_def c1_def)
  show thesis
  proof (cases "64 - ?p \<le> length input")
    case False
    have "md5_inv (bs @ input) (ctx\<lparr>count := (c0, c1), buffer := patch ?p input (buffer ctx)\<rparr>)"
      unfolding md5_inv_def
      by (rule exI [of _ full], rule exI [of _ "part @ input"]) (use False bs st buf cnt' in \<open>auto simp: patch_def\<close>)
    with False show thesis using that \<open>md5_update ctx input = ?upd\<close> by simp
  next
    case True
    define l where "l = (length input - (64 - ?p)) div 64"
    define i1 i2 i3 where "i1 = take (64 - ?p) input" and "i2 = take (64 * l) (drop (64 - ?p) input)"
      and "i3 = drop (64 - ?p + 64 * l) input"
    have l: "64 * l \<le> length input - (64 - ?p)" "length input - (64 - ?p) < 64 * l + 64"
      using mult_div_mod_eq [of 64 "length input - (64 - ?p)"] mod_less_divisor [of 64 "length input - (64 - ?p)"] unfolding l_def by linarith+
    have input: "input = i1 @ i2 @ i3"
      unfolding i1_def i2_def i3_def by (simp flip: drop_drop add: add.commute [of "64 - ?p"])
    have len': "length i1 = 64 - ?p" "length i2 = 64 * l" "length i3 < 64"
      using l True by (simp_all add: i1_def i2_def i3_def)
    have b1: "patch ?p i1 (buffer ctx) = part @ i1" using buf len'(1) bs(3) by (simp add: patch_def)
    have t1: "md5_transform (state ctx) (part @ i1) 1 = Some (rfc_blocks (state ctx) (part @ i1))"
      using md5_transform_rfc [of 1 "part @ i1" "state ctx"] len'(1) bs(3) by simp
    have t2: "md5_transform s (drop (64 - ?p) input) l = Some (rfc_blocks s i2)" for s
      unfolding i2_def by (rule md5_transform_rfc) (use l in simp)
    have i: "i32 (int (64 - ?p) + 64 * int l) = Some (int (64 - ?p + 64 * l))"
    proof -
      have "i32 (int (64 - ?p + 64 * l)) = Some (int (64 - ?p + 64 * l))" 
      proof (rule i32_Some)
        have "64 - ?p + 64 * l < 2147483648" using l(1) True len by simp
        then show "int (64 - ?p + 64 * l) < 2147483648" by linarith
      qed simp
      then show ?thesis by simp
    qed
    let ?ctx' = "ctx\<lparr>count := (c0, c1), state := rfc_blocks (rfc_blocks (state ctx) (part @ i1)) i2,
      buffer := patch 0 i3 (part @ i1)\<rparr>"
    have "md5_update ctx input = Some ?ctx'"
      unfolding \<open>md5_update ctx input = ?upd\<close> Let_def
      using True by (simp add: i1_def [symmetric] l_def [symmetric] b1 t1 t2 i i3_def
          del: of_nat_add of_nat_diff md5_transform.simps One_nat_def)
    moreover have "md5_inv (bs @ input) ?ctx'"
      unfolding md5_inv_def
    proof (intro exI conjI)
      show "bs @ input = (full @ (part @ i1) @ i2) @ i3" unfolding bs(1) by (subst input) simp
      show "64 dvd length (full @ (part @ i1) @ i2)" using bs(2,3) len' by simp
      have d: "64 dvd length (part @ i1)" using bs(3) len' by simp
      show "state ?ctx' = rfc_blocks md5_start (full @ (part @ i1) @ i2)"
        using rfc_blocks_append [OF bs(2)] rfc_blocks_append [OF d, of _ i2] by (simp add: st)
      show "bits (count ?ctx') = 8 * length (bs @ input) mod 2 ^ 64" using cnt' by simp
    qed (use len' bs(3) in \<open>auto simp: patch_def\<close>)
    ultimately show thesis using that by blast
  qed
qed

text \<open>What \<open>MD5Final\<close> appends is the padding of the RFC.\<close>

lemma count_bytes:
  assumes "bits c = 8 * n mod 2 ^ 64"
  shows "word_bytes (fst c) @ word_bytes (snd c) =
    word_bytes (ucast (of_nat (8 * n) :: u64)) @ word_bytes (ucast (drop_bit 32 (of_nat (8 * n) :: u64)))"
proof -
  have f: "unat (fst c) < 2 ^ 32" "unat (snd c) < 2 ^ 32" using unat_u32 [of "fst c"] unat_u32 [of "snd c"] by simp_all
  have w: "unat (of_nat (8 * n) :: u64) = bits c" unfolding assms by (simp only: unat_of_nat) simp
  have 1: "fst c = ucast (of_nat (8 * n) :: u64)"
    by (rule word_unat_eq_iff [THEN iffD2]) (use f in \<open>simp only: unsigned_ucast_eq w, simp add: bits_def take_bit_eq_mod\<close>)
  have "bits c div 2 ^ 32 = unat (snd c)" using f by (simp add: bits_def)
  then have "unat (drop_bit 32 (of_nat (8 * n) :: u64)) = unat (snd c)"
    by (simp only: unat_drop_bit_eq w drop_bit_eq_div [where 'a = nat])
  then have 2: "snd c = ucast (drop_bit 32 (of_nat (8 * n) :: u64))"
    by (intro word_unat_eq_iff [THEN iffD2]) (use f(2) in \<open>simp only: unsigned_ucast_eq, simp add: take_bit_nat_eq_self\<close>)
  from 1 2 show ?thesis by simp
qed

lemma pad_zeros: "(119 - n mod 64) mod 64 = (if n mod 64 < 56 then 56 else 120) - n mod 64 - (1 :: nat)"
proof (cases "n mod 64 < 56")
  case True
  then have "119 - n mod 64 = (55 - n mod 64) + 64" by simp
  then have "(119 - n mod 64) mod 64 = (55 - n mod 64) mod 64" by (simp only: mod_add_self2)
  with True show ?thesis by simp
qed simp

lemma pad_length: "64 dvd n + 9 + (119 - n mod 64) mod (64 :: nat)"
proof -
  obtain q r where n: "n = 64 * q + r" "r < 64" by (metis mult_div_mod_eq mod_less_divisor zero_less_numeral)
  then have "n + 9 + (119 - n mod 64) mod 64 = 64 * (q + (if r < 56 then 1 else 2))"
    unfolding pad_zeros by auto
  then show ?thesis by simp
qed

lemma md5_final_inv:
  assumes "md5_inv bs ctx"
  shows "\<exists>ctx'. md5_final ctx = Some (rfc_md5 bs, ctx')"
proof -
  from assms have cnt: "bits (count ctx) = 8 * length bs mod 2 ^ 64" by (auto simp: md5_inv_def)
  let ?fl = "(if length bs mod 64 < 56 then 56 else 120) - length bs mod 64"
  let ?z = "(119 - length bs mod 64) mod 64"
  have fl: "?fl = Suc ?z" "?z < 64" unfolding pad_zeros by (auto simp: less_diff_conv)
  then have fb: "take ?fl (0x80 # replicate 63 (0 :: u8)) = 0x80 # replicate ?z 0" by (simp add: min_def)
  obtain ctx1 where c1: "md5_update ctx (0x80 # replicate ?z 0) = Some ctx1" "md5_inv (bs @ 0x80 # replicate ?z 0) ctx1"
    by (rule md5_update_inv [OF assms, of "0x80 # replicate ?z 0"]) (use fl(2) in auto)
  let ?len = "word_bytes (fst (count ctx)) @ word_bytes (snd (count ctx))"
  obtain ctx2 where c2: "md5_update ctx1 ?len = Some ctx2" "md5_inv ((bs @ 0x80 # replicate ?z 0) @ ?len) ctx2"
    by (rule md5_update_inv [OF c1(2), of ?len]) (auto simp: word_bytes_def)
  let ?all = "bs @ rfc_pad (length bs)"
  have all: "(bs @ 0x80 # replicate ?z 0) @ ?len = ?all"
    unfolding rfc_pad_def count_bytes [OF cnt] by simp
  from c2(2) [unfolded all] obtain full part where fp: "?all = full @ part" "64 dvd length full" "length part < 64"
    "state ctx2 = rfc_blocks md5_start full" by (auto simp: md5_inv_def)
  have "length ?all = length bs + 9 + ?z" by (simp add: rfc_pad_def word_bytes_def)
  then have "64 dvd length ?all" using pad_length [of "length bs"] by (simp only:)
  then have "part = []" using fp(1-3) by (auto simp: dvd_add_right_iff dest: dvd_imp_le)
  with fp have "state ctx2 = rfc_blocks md5_start ?all" by simp
  with c1(1) c2(1) fb show ?thesis
    by (simp add: md5_final_def Let_def byte_index [OF cnt] rfc_md5_def md5_start_def split: prod.splits)
qed

text \<open>A digest of a list of inputs: \<open>MD5Init\<close>, one \<open>MD5Update\<close> per input, \<open>MD5Final\<close>.\<close>

fun md5_updates :: "MD5_CTX \<Rightarrow> u8 list list \<Rightarrow> MD5_CTX option" where
  "md5_updates ctx [] = Some ctx"
| "md5_updates ctx (x # xs) = do { ctx' \<leftarrow> md5_update ctx x; md5_updates ctx' xs }"

lemma md5_updates_inv:
  "md5_inv bs ctx \<Longrightarrow> list_all (\<lambda>x. length x < 2 ^ 31 - 64) xs \<Longrightarrow>
     \<exists>ctx'. md5_updates ctx xs = Some ctx' \<and> md5_inv (bs @ concat xs) ctx'"
proof (induction xs arbitrary: bs ctx)
  case (Cons x xs)
  obtain ctx1 where "md5_update ctx x = Some ctx1" "md5_inv (bs @ x) ctx1"
    by (rule md5_update_inv [OF Cons.prems(1), of x]) (use Cons.prems(2) in auto)
  with Cons.IH [OF this(2)] Cons.prems(2) show ?case by simp
qed simp

text \<open>C30: whatever cut of a message into inputs is given to \<open>MD5Update\<close>, \<open>MD5Final\<close> stores the digest that RFC 1321
  defines for the message; the code's unrolled rounds, its buffering and its count of bits implement the RFC.\<close>

theorem md5_rfc:
  assumes "length (buffer ctx) = 64" "list_all (\<lambda>x. length x < 2 ^ 31 - 64) xs"
  shows "\<exists>ctx'. (do { ctx1 \<leftarrow> md5_updates (md5_init ctx) xs; md5_final ctx1 }) = Some (rfc_md5 (concat xs), ctx')"
proof -
  from md5_updates_inv [OF md5_init_inv [OF assms(1)] assms(2)]
  obtain ctx1 where "md5_updates (md5_init ctx) xs = Some ctx1" "md5_inv (concat xs) ctx1" by auto
  with md5_final_inv show ?thesis by fastforce
qed

theorem md5_rfc_witness:
  "\<exists>ctx'. (do { ctx1 \<leftarrow> md5_updates (md5_init \<lparr>state = (0, 0, 0, 0), count = (7, 9), buffer = replicate 64 1\<rparr>) [[97], [], [98, 99]];
     md5_final ctx1 }) = Some (rfc_md5 [97, 98, 99], ctx')"
  using md5_rfc [of "\<lparr>state = (0, 0, 0, 0), count = (7, 9), buffer = replicate 64 1\<rparr>" "[[97], [], [98, 99]]"] by simp

end
