(* ===== verification/Md5crypt.thy ===== *)
theory Md5crypt
  imports Md5
begin

text \<open>
  The password hash made from MD5 (\<open>src/lib/c/libcrypt/md5crypt.c\<close>). Passwords and salts are the bytes of the strings before
  their NUL; the two contexts and the array \<open>final\<close> are locals whose first contents are arguments.
\<close>

section \<open>The code\<close>

definition itoa64 :: "u8 list" where
  "itoa64 = map of_char ''./0123456789ABCDEFGHIJKLMNOPQRSTUVWXYZabcdefghijklmnopqrstuvwxyz''"

primrec to64 :: "u32 \<Rightarrow> nat \<Rightarrow> u8 list" where
  "to64 v 0 = []"
| "to64 v (Suc n) = itoa64 ! unat (v AND 0x3f) # to64 (drop_bit 6 v) n"

definition magic :: "u8 list" where "magic = [36, 49, 36]"

text \<open>The salt without the magic string, up to 8 characters and to the first dollar sign.\<close>

definition refine_salt :: "u8 list \<Rightarrow> u8 list" where
  "refine_salt salt = takeWhile (\<lambda>c. c \<noteq> 36) (take 8 (if take 3 salt = magic then drop 3 salt else salt))"

text \<open>The inputs of the loops over the length of the password.\<close>

function final_inputs :: "u8 list \<Rightarrow> int \<Rightarrow> u8 list list" where
  "final_inputs final pl = (if pl > 0 then take (if pl > 16 then 16 else nat pl) final # final_inputs final (pl - 16) else [])"
  by pat_completeness auto
termination by (relation "measure (\<lambda>(f, pl). nat pl)") auto

function weird_inputs :: "u8 list \<Rightarrow> u8 list \<Rightarrow> nat \<Rightarrow> u8 list list" where
  "weird_inputs final pw i =
     (if i = 0 then [] else take 1 (if odd i then final else pw) # weird_inputs final pw (i div 2))"
  by pat_completeness auto
termination by (relation "measure (\<lambda>(f, p, i). i)") auto

declare final_inputs.simps [simp del] weird_inputs.simps [simp del]

text \<open>One of the thousand rounds, and the rounds.\<close>

definition crypt_round :: "u8 list \<Rightarrow> u8 list \<Rightarrow> nat \<Rightarrow> u8 list \<times> MD5_CTX \<Rightarrow> (u8 list \<times> MD5_CTX) option" where
  "crypt_round pw sp i = (\<lambda>(final, ctx1). do {
     ctx1 \<leftarrow> md5_update (md5_init ctx1) (if odd i then pw else final);
     ctx1 \<leftarrow> (if i mod 3 \<noteq> 0 then md5_update ctx1 sp else Some ctx1);
     ctx1 \<leftarrow> (if i mod 7 \<noteq> 0 then md5_update ctx1 pw else Some ctx1);
     ctx1 \<leftarrow> md5_update ctx1 (if odd i then final else pw);
     md5_final ctx1 })"

fun crypt_rounds :: "u8 list \<Rightarrow> u8 list \<Rightarrow> nat list \<Rightarrow> u8 list \<times> MD5_CTX \<Rightarrow> (u8 list \<times> MD5_CTX) option" where
  "crypt_rounds pw sp [] r = Some r"
| "crypt_rounds pw sp (i # is) r = do { r' \<leftarrow> crypt_round pw sp i r; crypt_rounds pw sp is r' }"

definition triple :: "u8 list \<Rightarrow> nat \<Rightarrow> nat \<Rightarrow> nat \<Rightarrow> u8 list" where
  "triple final i j k = to64 (push_bit 16 (ucast (final ! i)) OR push_bit 8 (ucast (final ! j)) OR ucast (final ! k)) 4"

definition encode_final :: "u8 list \<Rightarrow> u8 list" where
  "encode_final final = triple final 0 6 12 @ triple final 1 7 13 @ triple final 2 8 14 @ triple final 3 9 15 @
     triple final 4 10 5 @ to64 (ucast (final ! 11)) 2"

text \<open>\<open>md5crypt\<close>: the string at \<open>passwd\<close>.\<close>

definition md5crypt :: "MD5_CTX \<Rightarrow> MD5_CTX \<Rightarrow> u8 list \<Rightarrow> u8 list \<Rightarrow> u8 list option" where
  "md5crypt ctx ctx1 pw salt =
     (let sp = refine_salt salt in do {
      ctx \<leftarrow> md5_updates (md5_init ctx) [pw, magic, sp];
      ctx1 \<leftarrow> md5_updates (md5_init ctx1) [pw, sp, pw];
      (final, ctx1) \<leftarrow> md5_final ctx1;
      ctx \<leftarrow> md5_updates ctx (final_inputs final (int (length pw)));
      ctx \<leftarrow> md5_updates ctx (weird_inputs (replicate 16 0) pw (length pw));
      (final, ctx) \<leftarrow> md5_final ctx;
      (final, ctx1) \<leftarrow> crypt_rounds pw sp [0..<1000] (final, ctx1);
      Some (magic @ sp @ 36 # encode_final final) })"

section \<open>The hash as a function of password and salt\<close>

definition alternate :: "u8 list \<Rightarrow> u8 list \<Rightarrow> u8 list" where
  "alternate pw s = rfc_md5 (pw @ s @ pw)"

definition first_final :: "u8 list \<Rightarrow> u8 list \<Rightarrow> u8 list" where
  "first_final pw s = rfc_md5 (pw @ magic @ s @ concat (final_inputs (alternate pw s) (int (length pw))) @
     concat (weird_inputs (replicate 16 0) pw (length pw)))"

definition next_final :: "u8 list \<Rightarrow> u8 list \<Rightarrow> nat \<Rightarrow> u8 list \<Rightarrow> u8 list" where
  "next_final pw s i f = rfc_md5 ((if odd i then pw else f) @ (if i mod 3 \<noteq> 0 then s else []) @
     (if i mod 7 \<noteq> 0 then pw else []) @ (if odd i then f else pw))"

definition md5_password :: "u8 list \<Rightarrow> u8 list \<Rightarrow> u8 list" where
  "md5_password pw s = magic @ s @ 36 # encode_final (fold (next_final pw s) [0..<1000] (first_final pw s))"

definition short :: "u8 list \<Rightarrow> bool" where "short xs \<longleftrightarrow> length xs < 2 ^ 31 - 64"

lemma length_rfc_md5 [simp]: "length (rfc_md5 bs) = 16"
  by (simp add: rfc_md5_def word_bytes_def split: prod.split)

lemma short_simps [simp]: "short magic" "short (rfc_md5 bs)" "short (refine_salt s)"
proof -
  have "length (refine_salt s) \<le> 8"
    unfolding refine_salt_def by (rule order.trans [OF length_takeWhile_le]) simp
  then show "short (refine_salt s)" by (simp add: short_def)
qed (simp_all add: short_def magic_def)

lemma short_take [simp]: "short (take (Suc 0) xs)" "length f = 16 \<Longrightarrow> short (take n f)"
  by (simp_all add: short_def)

lemma final_inputs_short: "list_all short (final_inputs f pl)" if "length f = 16"
  using that by (induction f pl rule: final_inputs.induct) (subst final_inputs.simps, simp)

lemma weird_inputs_short: "list_all short (weird_inputs f pw i)"
  by (induction f pw i rule: weird_inputs.induct) (subst weird_inputs.simps, simp)

text \<open>The digests of the code through the invariant of a context.\<close>

lemma final_value:
  assumes "md5_inv bs ctx"
  obtains ctx' where "md5_final ctx = Some (rfc_md5 bs, ctx')" "length (buffer ctx') = 64"
proof -
  from md5_final_inv [OF assms] obtain ctx' where f: "md5_final ctx = Some (rfc_md5 bs, ctx')" by blast
  then have "length (buffer ctx') = 64" by (auto simp: md5_final_def Let_def split: Option.bind_splits)
  with f that show thesis by blast
qed

lemma update_value:
  assumes "md5_inv bs ctx" "short xs"
  obtains ctx' where "md5_update ctx xs = Some ctx'" "md5_inv (bs @ xs) ctx'"
  using md5_update_inv [OF assms(1), of xs] assms(2) by (auto simp: short_def)

lemma update_if_value:
  assumes "md5_inv bs ctx" "short xs"
  obtains ctx' where "(if p then md5_update ctx xs else Some ctx) = Some ctx'" "md5_inv (bs @ (if p then xs else [])) ctx'"
  by (cases p) (use assms update_value [OF assms] in \<open>auto\<close>)

lemma updates_value:
  assumes "md5_inv bs ctx" "list_all short xs"
  obtains ctx' where "md5_updates ctx xs = Some ctx'" "md5_inv (bs @ concat xs) ctx'"
  using md5_updates_inv [OF assms(1), of xs] assms(2) by (auto simp: short_def [abs_def])

lemma crypt_round_value:
  assumes "short pw" "short s" "short f" "length (buffer ctx) = 64"
  shows "\<exists>ctx'. crypt_round pw s i (f, ctx) = Some (next_final pw s i f, ctx') \<and> length (buffer ctx') = 64"
proof -
  let ?a = "if odd i then pw else f" and ?b = "if i mod 3 \<noteq> 0 then s else []" and ?c = "if i mod 7 \<noteq> 0 then pw else []"
    and ?d = "if odd i then f else pw"
  obtain c1 where c1: "md5_update (md5_init ctx) ?a = Some c1" "md5_inv ([] @ ?a) c1"
    by (rule update_value [OF md5_init_inv [OF assms(4)], of ?a]) (use assms in auto)
  obtain c2 where c2: "(if i mod 3 \<noteq> 0 then md5_update c1 s else Some c1) = Some c2" "md5_inv (([] @ ?a) @ ?b) c2"
    by (rule update_if_value [OF c1(2) assms(2)])
  obtain c3 where c3: "(if i mod 7 \<noteq> 0 then md5_update c2 pw else Some c2) = Some c3" "md5_inv ((([] @ ?a) @ ?b) @ ?c) c3"
    by (rule update_if_value [OF c2(2) assms(1)])
  obtain c4 where c4: "md5_update c3 ?d = Some c4" "md5_inv (((([] @ ?a) @ ?b) @ ?c) @ ?d) c4"
    by (rule update_value [OF c3(2), of ?d]) (use assms in auto)
  obtain c5 where "md5_final c4 = Some (rfc_md5 (((([] @ ?a) @ ?b) @ ?c) @ ?d), c5)" "length (buffer c5) = 64"
    by (rule final_value [OF c4(2)])
  with c1(1) c2(1) c3(1) c4(1) show ?thesis by (simp add: crypt_round_def next_final_def)
qed

lemma crypt_rounds_value:
  assumes "short pw" "short s"
  shows "short f \<Longrightarrow> length (buffer ctx) = 64 \<Longrightarrow>
    \<exists>ctx'. crypt_rounds pw s is (f, ctx) = Some (fold (next_final pw s) is f, ctx')"
proof (induction "is" arbitrary: f ctx)
  case (Cons i "is")
  obtain ctx' where "crypt_round pw s i (f, ctx) = Some (next_final pw s i f, ctx')" "length (buffer ctx') = 64"
    using crypt_round_value [OF assms Cons.prems] by blast
  moreover have "short (next_final pw s i f)" by (simp add: next_final_def)
  ultimately show ?case using Cons.IH [of "next_final pw s i f" ctx'] by simp
qed simp

lemma md5crypt_value:
  assumes "short pw" "length (buffer ctx) = 64" "length (buffer ctx1) = 64"
  shows "md5crypt ctx ctx1 pw salt = Some (md5_password pw (refine_salt salt))"
proof -
  let ?s = "refine_salt salt"
  obtain c where c: "md5_updates (md5_init ctx) [pw, magic, ?s] = Some c" "md5_inv ([] @ concat [pw, magic, ?s]) c"
    by (rule updates_value [OF md5_init_inv [OF assms(2)], of "[pw, magic, ?s]"]) (use assms in auto)
  obtain d where d: "md5_updates (md5_init ctx1) [pw, ?s, pw] = Some d" "md5_inv ([] @ concat [pw, ?s, pw]) d"
    by (rule updates_value [OF md5_init_inv [OF assms(3)], of "[pw, ?s, pw]"]) (use assms in auto)
  obtain e where "md5_final d = Some (rfc_md5 ([] @ concat [pw, ?s, pw]), e)" and e2: "length (buffer e) = 64"
    by (rule final_value [OF d(2)])
  then have e: "md5_final d = Some (alternate pw ?s, e)" by (simp add: alternate_def)
  let ?fi = "final_inputs (alternate pw ?s) (int (length pw))" and ?wi = "weird_inputs (replicate 16 0) pw (length pw)"
  obtain c' where c': "md5_updates c ?fi = Some c'" "md5_inv (([] @ concat [pw, magic, ?s]) @ concat ?fi) c'"
    by (rule updates_value [OF c(2), of ?fi]) (use final_inputs_short [of "alternate pw ?s"] in \<open>auto simp: alternate_def\<close>)
  obtain c'' where c'': "md5_updates c' ?wi = Some c''" "md5_inv ((([] @ concat [pw, magic, ?s]) @ concat ?fi) @ concat ?wi) c''"
    by (rule updates_value [OF c'(2), of ?wi]) (rule weird_inputs_short)
  obtain g where "md5_final c'' = Some (rfc_md5 ((([] @ concat [pw, magic, ?s]) @ concat ?fi) @ concat ?wi), g)"
    by (rule final_value [OF c''(2)])
  then have g: "md5_final c'' = Some (first_final pw ?s, g)" by (simp add: first_final_def)
  obtain h where "crypt_rounds pw ?s [0..<1000] (first_final pw ?s, e) = Some (fold (next_final pw ?s) [0..<1000] (first_final pw ?s), h)"
    using crypt_rounds_value [OF assms(1), of ?s "first_final pw ?s" e "[0..<1000]"] e2 by (auto simp: first_final_def)
  with c(1) d(1) e c'(1) c''(1) g show ?thesis
    by (simp add: md5crypt_def md5_password_def Let_def del: md5_updates.simps upt_rec_numeral)
qed

section \<open>The string\<close>

lemma to64_chars: "length (to64 v n) = n \<and> set (to64 v n) \<subseteq> set itoa64"
proof (induction n arbitrary: v)
  case (Suc n)
  have "unat (v AND 0x3f) = unat (take_bit 6 v)" by (simp add: take_bit_eq_mask mask_eq_exp_minus_1)
  then have "unat (v AND 0x3f) < 64"
    using take_bit_nat_less_exp [of 6 "unat v"] by (simp only: unsigned_take_bit_eq) simp
  then have "itoa64 ! unat (v AND 0x3f) \<in> set itoa64" by (intro nth_mem) (simp add: itoa64_def)
  with Suc show ?case by simp
qed simp

lemma encode_final_chars: "length (encode_final f) = 22 \<and> set (encode_final f) \<subseteq> set itoa64"
  using to64_chars by (simp add: encode_final_def triple_def)

lemma refine_salt_again: "refine_salt (magic @ refine_salt salt @ 36 # xs) = refine_salt salt"
proof -
  let ?s = "refine_salt salt"
  have l: "length ?s \<le> 8" unfolding refine_salt_def by (rule order.trans [OF length_takeWhile_le]) simp
  have n: "\<forall>c \<in> set ?s. c \<noteq> 36" unfolding refine_salt_def by (auto dest: set_takeWhileD)
  have "take 8 (?s @ 36 # xs) = ?s @ take (8 - length ?s) (36 # xs)" using l by simp
  moreover have "takeWhile (\<lambda>c. c \<noteq> 36) (?s @ take (8 - length ?s) (36 # xs)) = ?s"
    using n by (simp add: takeWhile_append takeWhile_eq_all_conv take_Cons')
  ultimately show ?thesis
    unfolding refine_salt_def [of "magic @ refine_salt salt @ 36 # xs"] by (simp add: magic_def)
qed

text \<open>\<open>md5crypt\<close> always returns, whatever its contexts held, with a string of the magic, the salt, a dollar sign and 22
  characters of the alphabet, which fits in the 120 bytes of \<open>passwd\<close>; and given that string as the salt, it returns the
  same string for the same password, so that comparing the two accepts the password.\<close>

lemma md5crypt_verifies:
  assumes "length pw < 2 ^ 31 - 64" "length (buffer ctx) = 64" "length (buffer ctx1) = 64"
    and "length (buffer ctx') = 64" "length (buffer ctx1') = 64"
  shows "\<exists>h x. md5crypt ctx ctx1 pw salt = Some h \<and> md5crypt ctx' ctx1' pw h = Some h \<and>
    h = magic @ refine_salt salt @ 36 # x \<and> length x = 22 \<and> set x \<subseteq> set itoa64 \<and> length h < 120"
proof -
  have s: "short pw" using assms(1) by (simp add: short_def)
  let ?x = "encode_final (fold (next_final pw (refine_salt salt)) [0..<1000] (first_final pw (refine_salt salt)))"
  let ?h = "md5_password pw (refine_salt salt)"
  have h: "?h = magic @ refine_salt salt @ 36 # ?x" by (simp add: md5_password_def del: upt_rec_numeral)
  have "refine_salt ?h = refine_salt salt" unfolding h by (rule refine_salt_again)
  then have "md5crypt ctx' ctx1' pw ?h = Some ?h" using md5crypt_value [OF s assms(4,5), of ?h] by simp
  moreover have "length (refine_salt salt) \<le> 8"
    unfolding refine_salt_def by (rule order.trans [OF length_takeWhile_le]) simp
  then have "length ?h < 120" unfolding h using encode_final_chars by (simp add: magic_def)
  ultimately show ?thesis
    using md5crypt_value [OF s assms(2,3), of salt] h encode_final_chars by blast
qed

end
