(* ===== verification/Crypt.thy ===== *)
theory Crypt
  imports Md5crypt
begin

text \<open>
  \<open>setkey\<close>, \<open>encrypt\<close> and \<open>crypt\<close> (\<open>src/lib/c/libcrypt/crypt.c\<close>): DES on arrays with one bit per \<open>char\<close>, and the two kinds
  of password hashes. The static arrays that the functions only read after writing them (\<open>C\<close>, \<open>D\<close>, \<open>tempL\<close>, \<open>preS\<close>, \<open>f\<close>,
  \<open>block\<close>) are values here; \<open>KS\<close> and \<open>E\<close> are the state. The code reads \<open>R\<close> as the second half of \<open>L\<close>, so the two are one array.
\<close>

section \<open>Tables\<close>

definition IP :: "nat list" where
  "IP = [57, 49, 41, 33, 25, 17, 9, 1, 59, 51, 43, 35, 27, 19, 11, 3, 61, 53, 45, 37, 29, 21, 13, 5,
     63, 55, 47, 39, 31, 23, 15, 7, 56, 48, 40, 32, 24, 16, 8, 0, 58, 50, 42, 34, 26, 18, 10, 2,
     60, 52, 44, 36, 28, 20, 12, 4, 62, 54, 46, 38, 30, 22, 14, 6]"

definition FP :: "nat list" where
  "FP = [39, 7, 47, 15, 55, 23, 63, 31, 38, 6, 46, 14, 54, 22, 62, 30, 37, 5, 45, 13, 53, 21, 61, 29,
     36, 4, 44, 12, 52, 20, 60, 28, 35, 3, 43, 11, 51, 19, 59, 27, 34, 2, 42, 10, 50, 18, 58, 26,
     33, 1, 41, 9, 49, 17, 57, 25, 32, 0, 40, 8, 48, 16, 56, 24]"

definition PC1_C :: "nat list" where
  "PC1_C = [56, 48, 40, 32, 24, 16, 8, 0, 57, 49, 41, 33, 25, 17, 9, 1, 58, 50, 42, 34, 26, 18, 10, 2,
     59, 51, 43, 35]"

definition PC1_D :: "nat list" where
  "PC1_D = [62, 54, 46, 38, 30, 22, 14, 6, 61, 53, 45, 37, 29, 21, 13, 5, 60, 52, 44, 36, 28, 20, 12, 4,
     27, 19, 11, 3]"

definition shifts :: "nat list" where
  "shifts = [1, 1, 2, 2, 2, 2, 2, 2, 1, 2, 2, 2, 2, 2, 2, 1]"

definition PC2_C :: "nat list" where
  "PC2_C = [13, 16, 10, 23, 0, 4, 2, 27, 14, 5, 20, 9, 22, 18, 11, 3, 25, 7, 15, 6, 26, 19, 12, 1]"

definition PC2_D :: "nat list" where
  "PC2_D = [12, 23, 2, 8, 18, 26, 1, 11, 22, 16, 4, 19, 15, 20, 10, 27, 5, 24, 17, 13, 21, 7, 0, 3]"

definition e2 :: "u8 list" where
  "e2 = [32, 1, 2, 3, 4, 5, 4, 5, 6, 7, 8, 9, 8, 9, 10, 11, 12, 13, 12, 13, 14, 15, 16, 17,
     16, 17, 18, 19, 20, 21, 20, 21, 22, 23, 24, 25, 24, 25, 26, 27, 28, 29, 28, 29, 30, 31, 32, 1]"

definition P_perm :: "nat list" where
  "P_perm = [15, 6, 19, 20, 28, 11, 27, 16, 0, 14, 22, 25, 4, 17, 30, 9, 1, 7, 23, 13, 31, 26, 2, 8,
     18, 12, 29, 5, 21, 10, 3, 24]"

definition S_boxes :: "nat list list" where
  "S_boxes = [
     [14, 4, 13, 1, 2, 15, 11, 8, 3, 10, 6, 12, 5, 9, 0, 7, 0, 15, 7, 4, 14, 2, 13, 1, 10, 6, 12, 11, 9, 5, 3, 8,
      4, 1, 14, 8, 13, 6, 2, 11, 15, 12, 9, 7, 3, 10, 5, 0, 15, 12, 8, 2, 4, 9, 1, 7, 5, 11, 3, 14, 10, 0, 6, 13],
     [15, 1, 8, 14, 6, 11, 3, 4, 9, 7, 2, 13, 12, 0, 5, 10, 3, 13, 4, 7, 15, 2, 8, 14, 12, 0, 1, 10, 6, 9, 11, 5,
      0, 14, 7, 11, 10, 4, 13, 1, 5, 8, 12, 6, 9, 3, 2, 15, 13, 8, 10, 1, 3, 15, 4, 2, 11, 6, 7, 12, 0, 5, 14, 9],
     [10, 0, 9, 14, 6, 3, 15, 5, 1, 13, 12, 7, 11, 4, 2, 8, 13, 7, 0, 9, 3, 4, 6, 10, 2, 8, 5, 14, 12, 11, 15, 1,
      13, 6, 4, 9, 8, 15, 3, 0, 11, 1, 2, 12, 5, 10, 14, 7, 1, 10, 13, 0, 6, 9, 8, 7, 4, 15, 14, 3, 11, 5, 2, 12],
     [7, 13, 14, 3, 0, 6, 9, 10, 1, 2, 8, 5, 11, 12, 4, 15, 13, 8, 11, 5, 6, 15, 0, 3, 4, 7, 2, 12, 1, 10, 14, 9,
      10, 6, 9, 0, 12, 11, 7, 13, 15, 1, 3, 14, 5, 2, 8, 4, 3, 15, 0, 6, 10, 1, 13, 8, 9, 4, 5, 11, 12, 7, 2, 14],
     [2, 12, 4, 1, 7, 10, 11, 6, 8, 5, 3, 15, 13, 0, 14, 9, 14, 11, 2, 12, 4, 7, 13, 1, 5, 0, 15, 10, 3, 9, 8, 6,
      4, 2, 1, 11, 10, 13, 7, 8, 15, 9, 12, 5, 6, 3, 0, 14, 11, 8, 12, 7, 1, 14, 2, 13, 6, 15, 0, 9, 10, 4, 5, 3],
     [12, 1, 10, 15, 9, 2, 6, 8, 0, 13, 3, 4, 14, 7, 5, 11, 10, 15, 4, 2, 7, 12, 9, 5, 6, 1, 13, 14, 0, 11, 3, 8,
      9, 14, 15, 5, 2, 8, 12, 3, 7, 0, 4, 10, 1, 13, 11, 6, 4, 3, 2, 12, 9, 5, 15, 10, 11, 14, 1, 7, 6, 0, 8, 13],
     [4, 11, 2, 14, 15, 0, 8, 13, 3, 12, 9, 7, 5, 10, 6, 1, 13, 0, 11, 7, 4, 9, 1, 10, 14, 3, 5, 12, 2, 15, 8, 6,
      1, 4, 11, 13, 12, 3, 7, 14, 10, 15, 6, 8, 0, 5, 9, 2, 6, 11, 13, 8, 1, 4, 10, 7, 9, 5, 0, 15, 14, 2, 3, 12],
     [13, 2, 8, 4, 6, 15, 11, 1, 10, 9, 3, 14, 5, 0, 12, 7, 1, 15, 13, 8, 10, 3, 7, 4, 12, 5, 6, 11, 0, 14, 9, 2,
      7, 11, 4, 1, 9, 12, 14, 2, 0, 6, 10, 13, 15, 3, 5, 8, 2, 1, 14, 7, 4, 10, 8, 13, 15, 12, 9, 0, 3, 5, 6, 11]]"

section \<open>Keys\<close>

record des =
  KS :: "u8 list list"
  E :: "u8 list"

text \<open>The elements of an array at the indices of a table; \<open>None\<close> outside the array.\<close>

definition pick :: "'a list \<Rightarrow> nat list \<Rightarrow> 'a list option" where
  "pick xs is = (if \<forall>i \<in> set is. i < length xs then Some (map ((!) xs) is) else None)"

fun key_schedule :: "nat list \<Rightarrow> u8 list \<Rightarrow> u8 list \<Rightarrow> u8 list list option" where
  "key_schedule [] C D = Some []"
| "key_schedule (s # ss) C D =
     (let C' = rotate s C; D' = rotate s D in do {
      k1 \<leftarrow> pick C' PC2_C;
      k2 \<leftarrow> pick D' PC2_D;
      ks \<leftarrow> key_schedule ss C' D';
      Some ((k1 @ k2) # ks) })"

definition setkey :: "u8 list \<Rightarrow> des option" where
  "setkey key = do {
     C \<leftarrow> pick key PC1_C;
     D \<leftarrow> pick key PC1_D;
     ks \<leftarrow> key_schedule shifts C D;
     Some \<lparr>KS = ks, E = e2\<rparr> }"

section \<open>Encryption\<close>

text \<open>One selection function on six bits; the index is an \<open>int\<close> sum.\<close>

definition select :: "nat \<Rightarrow> u8 list \<Rightarrow> u8 list option" where
  "select j b =
     (let idx = push_bit 5 (sint (b ! 0)) + push_bit 3 (sint (b ! 1)) + push_bit 2 (sint (b ! 2)) +
        push_bit 1 (sint (b ! 3)) + sint (b ! 4) + push_bit 4 (sint (b ! 5)) in
      if 0 \<le> idx \<and> idx < 64 then
        (let k = of_nat (S_boxes ! j ! nat idx) :: u8 in
         Some [drop_bit 3 k AND 1, drop_bit 2 k AND 1, drop_bit 1 k AND 1, k AND 1])
      else None)"

fun selects :: "nat \<Rightarrow> u8 list \<Rightarrow> u8 list option" where
  "selects j [] = Some []"
| "selects j (b0 # b1 # b2 # b3 # b4 # b5 # bs) = do {
     f \<leftarrow> select j [b0, b1, b2, b3, b4, b5];
     fs \<leftarrow> selects (j + 1) bs;
     Some (f @ fs) }"
| "selects j _ = None"

abbreviation xors :: "u8 list \<Rightarrow> u8 list \<Rightarrow> u8 list" where
  "xors \<equiv> map2 (XOR)"

text \<open>What a round adds to the left half.\<close>

definition des_f :: "u8 list \<Rightarrow> u8 list \<Rightarrow> u8 list \<Rightarrow> u8 list option" where
  "des_f e k R = do {
     x \<leftarrow> pick R (map (\<lambda>i. nat (sint i - 1)) e);
     f \<leftarrow> selects 0 (xors x k);
     pick f P_perm }"

fun des_rounds :: "u8 list \<Rightarrow> u8 list list \<Rightarrow> u8 list \<times> u8 list \<Rightarrow> (u8 list \<times> u8 list) option" where
  "des_rounds e [] (L, R) = Some (L, R)"
| "des_rounds e (k # ks) (L, R) = do { f \<leftarrow> des_f e k R; des_rounds e ks (R, xors L f) }"

text \<open>\<open>encrypt\<close>, which ignores \<open>edflag\<close>; the two halves change places by three exclusive ors.\<close>

definition encrypt :: "des \<Rightarrow> u8 list \<Rightarrow> int \<Rightarrow> u8 list option" where
  "encrypt st block edflag = do {
     LR \<leftarrow> pick block IP;
     (L, R) \<leftarrow> des_rounds (E st) (KS st) (take 32 LR, drop 32 LR);
     let L1 = xors L R; R1 = xors R L1; L2 = xors L1 R1 in
     do { out \<leftarrow> pick (L2 @ R1) FP; Some (out @ drop 64 block) } }"

section \<open>Passwords\<close>

definition key_bits :: "u8 \<Rightarrow> u8 list" where
  "key_bits c = map (\<lambda>j. drop_bit (6 - j) c AND 1) [0..<7] @ [0]"

text \<open>The first 8 characters of the password give the key.\<close>

definition key_block :: "u8 list \<Rightarrow> u8 list" where
  "key_block pw = (let b = concat (map key_bits (take 8 pw)) in b @ replicate (66 - length b) 0)"

definition salt_value :: "u8 \<Rightarrow> int" where
  "salt_value ch = (let c = sint ch; c = (if c > 90 then c - 6 else c); c = (if c > 57 then c - 7 else c) in c - 46)"

definition swap_E :: "nat \<Rightarrow> nat \<Rightarrow> u8 list \<Rightarrow> u8 list" where
  "swap_E i1 i2 e =
     (let e = e[i1 := e ! i1 XOR e ! i2]; e = e[i2 := e ! i2 XOR e ! i1] in e[i1 := e ! i1 XOR e ! i2])"

definition salt_E :: "nat \<Rightarrow> u8 \<Rightarrow> u8 list \<Rightarrow> u8 list" where
  "salt_E i ch e = fold (\<lambda>j e. if bit (salt_value ch) j then swap_E (6 * i + j) (6 * i + j + 24) e else e) [0..<6] e"

definition out_char :: "u8 list \<Rightarrow> nat \<Rightarrow> u8" where
  "out_char block i =
     (let c = fold (\<lambda>j c. push_bit 1 c OR sint (block ! (6 * i + j))) [0..<6] 0 + 46;
          c = (if c > 57 then c + 7 else c); c = (if c > 90 then c + 6 else c) in word_of_int c)"

fun encrypts :: "nat \<Rightarrow> des \<Rightarrow> u8 list \<Rightarrow> u8 list option" where
  "encrypts 0 st block = Some block"
| "encrypts (Suc n) st block = do { b \<leftarrow> encrypt st block 0; encrypts n st b }"

text \<open>\<open>crypt\<close>: the string it returns. For an empty salt it reads past the end of the salt.\<close>

definition crypt :: "MD5_CTX \<Rightarrow> MD5_CTX \<Rightarrow> u8 list \<Rightarrow> u8 list \<Rightarrow> u8 list option" where
  "crypt ctx ctx1 pw salt =
     (if take 3 salt = [36, 49, 36] then md5crypt ctx ctx1 pw salt
      else if salt = [] then None
      else do {
        st \<leftarrow> setkey (key_block pw);
        let s0 = salt ! 0; s1 = (if length salt = 1 then 0 else salt ! 1) in
        do { block \<leftarrow> encrypts 25 (st\<lparr>E := salt_E 1 s1 (salt_E 0 s0 (E st))\<rparr>) (replicate 66 0);
             Some ([s0, if s1 = 0 then s0 else s1] @ map (out_char block) [0..<11]) } })"

section \<open>Arrays of bits\<close>

definition bits01 :: "u8 list \<Rightarrow> bool" where
  "bits01 xs \<longleftrightarrow> set xs \<subseteq> {0, 1}"

lemma bits01_simps [simp]: "bits01 []" "bits01 (x # xs) \<longleftrightarrow> (x = 0 \<or> x = 1) \<and> bits01 xs"
  "bits01 (xs @ ys) \<longleftrightarrow> bits01 xs \<and> bits01 ys"
  by (auto simp: bits01_def)

lemma bits01_take_drop: "bits01 xs \<Longrightarrow> bits01 (take n xs)" "bits01 xs \<Longrightarrow> bits01 (drop n xs)"
  by (auto simp: bits01_def dest: in_set_takeD in_set_dropD)

lemma bits01_xor: "x = 0 \<or> x = 1 \<Longrightarrow> y = 0 \<or> y = 1 \<Longrightarrow> x XOR y = 0 \<or> x XOR y = (1 :: u8)"
  by (elim disjE) simp_all

lemma bits01_xors: "bits01 xs \<Longrightarrow> bits01 ys \<Longrightarrow> bits01 (xors xs ys)"
proof (induction xs arbitrary: ys)
  case (Cons x xs)
  then show ?case by (cases ys) (simp_all add: bits01_xor)
qed simp

lemma xors_xors: "length xs = length ys \<Longrightarrow> xors (xors xs ys) ys = xs" "length xs = length ys \<Longrightarrow> xors ys (xors xs ys) = xs"
  by (induction xs ys rule: list_induct2) (simp_all add: xor.assoc xor.left_commute)

lemma xors_commute: "xors xs ys = xors ys xs"
proof (induction xs arbitrary: ys)
  case (Cons x xs)
  then show ?case by (cases ys) (simp_all add: xor.commute)
qed simp

text \<open>Reading an array through two tables whose composition is the identity.\<close>

lemma perm_inverse:
  assumes "map ((!) is) js = [0..<64]" "length xs = 64" "\<forall>j \<in> set js. j < length is"
  shows "map ((!) (map ((!) xs) is)) js = xs"
proof -
  have "map ((!) (map ((!) xs) is)) js = map ((!) xs) (map ((!) is) js)" using assms(3) by simp
  with assms(1,2) show ?thesis by (metis map_nth)
qed

lemma pick_ok: "\<forall>i \<in> set is. i < length xs \<Longrightarrow> pick xs is = Some (map ((!) xs) is)"
  by (simp add: pick_def)

lemma pick_bits:
  assumes "\<forall>i \<in> set is. i < length xs" "bits01 xs"
  obtains ys where "pick xs is = Some ys" "length ys = length is" "bits01 ys"
proof -
  have "set (map ((!) xs) is) \<subseteq> set xs" using assms(1) by auto
  with assms that show thesis by (auto simp: pick_def bits01_def)
qed

lemma and_one: "(w :: u8) AND 1 = 0 \<or> w AND 1 = 1"
  by (simp add: and_one_eq mod_2_eq_odd)

text \<open>The tables stay inside the arrays, and the two permutations of a block are inverse.\<close>

lemma tables:
  "\<forall>i \<in> set IP. i < 64" "\<forall>i \<in> set FP. i < 64" "\<forall>i \<in> set PC1_C. i < 63" "\<forall>i \<in> set PC1_D. i < 63"
  "\<forall>i \<in> set PC2_C. i < 28" "\<forall>i \<in> set PC2_D. i < 28" "\<forall>i \<in> set P_perm. i < 32"
  "length IP = 64" "length FP = 64" "length PC1_C = 28" "length PC1_D = 28" "length PC2_C = 24" "length PC2_D = 24"
  "length P_perm = 32" "length shifts = 16" "length e2 = 48"
  by (simp_all add: IP_def FP_def PC1_C_def PC1_D_def PC2_C_def PC2_D_def P_perm_def shifts_def e2_def)

lemma IP_FP: "map ((!) IP) FP = [0..<64]" and FP_IP: "map ((!) FP) IP = [0..<64]"
  by (simp_all add: IP_def FP_def upt_rec_numeral upt_rec)

section \<open>The rounds\<close>

definition wf_key :: "u8 list \<Rightarrow> bool" where
  "wf_key k \<longleftrightarrow> length k = 48 \<and> bits01 k"

definition wf_E :: "u8 list \<Rightarrow> bool" where
  "wf_E e \<longleftrightarrow> length e = 48 \<and> (\<forall>x \<in> set e. 1 \<le> sint x \<and> sint x \<le> 32)"

definition wf_half :: "u8 list \<Rightarrow> bool" where
  "wf_half h \<longleftrightarrow> length h = 32 \<and> bits01 h"

lemma select_ok:
  assumes "length b = 6" "bits01 b"
  obtains f where "select j b = Some f" "length f = 4" "bits01 f"
proof -
  have s: "0 \<le> sint (b ! i) \<and> sint (b ! i) \<le> 1" if "i < 6" for i
  proof -
    have "b ! i \<in> set b" using assms(1) that by simp
    then have "b ! i \<in> {0, 1}" using assms(2) unfolding bits01_def by blast
    then show ?thesis by auto
  qed
  define idx where "idx = push_bit 5 (sint (b ! 0)) + push_bit 3 (sint (b ! 1)) + push_bit 2 (sint (b ! 2)) +
        push_bit 1 (sint (b ! 3)) + sint (b ! 4) + push_bit 4 (sint (b ! 5))"
  have "0 \<le> idx \<and> idx < 64"
    unfolding idx_def using s [of 0] s [of 1] s [of 2] s [of 3] s [of 4] s [of 5] by (simp add: push_bit_eq_mult)
  then show thesis
    using that and_one unfolding select_def Let_def idx_def [symmetric] by simp
qed

lemma selects_ok: "length bs = 6 * n \<Longrightarrow> bits01 bs \<Longrightarrow> \<exists>f. selects j bs = Some f \<and> length f = 4 * n \<and> bits01 f"
proof (induction j bs arbitrary: n rule: selects.induct)
  case (2 j b0 b1 b2 b3 b4 b5 bs)
  obtain f where f: "select j [b0, b1, b2, b3, b4, b5] = Some f" "length f = 4" "bits01 f"
    by (rule select_ok [of "[b0, b1, b2, b3, b4, b5]"]) (use "2.prems" in auto)
  moreover have "\<exists>fs. selects (j + 1) bs = Some fs \<and> length fs = 4 * (n - 1) \<and> bits01 fs"
    by (rule "2.IH" [OF f(1)]) (use "2.prems" in auto)
  moreover have "0 < n" using "2.prems"(1) by (cases n) auto
  ultimately show ?case by fastforce
qed (simp_all, presburger+)

lemma des_f_ok:
  assumes "wf_E e" "wf_key k" "wf_half R"
  obtains f where "des_f e k R = Some f" "wf_half f"
proof -
  have "\<forall>i \<in> set (map (\<lambda>i. nat (sint i - 1)) e). i < length R" using assms by (force simp: wf_E_def wf_half_def)
  then obtain x where x: "pick R (map (\<lambda>i. nat (sint i - 1)) e) = Some x" "length x = length e" "bits01 x"
    using assms(3) by (elim pick_bits) (auto simp: wf_half_def)
  obtain f where f: "selects 0 (xors x k) = Some f" "length f = 32" "bits01 f"
    using selects_ok [of "xors x k" 8 0] x assms(1,2) bits01_xors by (auto simp: wf_E_def wf_key_def)
  obtain g where "pick f P_perm = Some g" "length g = length P_perm" "bits01 g"
    by (rule pick_bits [OF _ f(3), of P_perm]) (use tables f in auto)
  with x f tables that show thesis by (simp add: des_f_def wf_half_def)
qed

lemma wf_half_xors: "wf_half a \<Longrightarrow> wf_half b \<Longrightarrow> wf_half (xors a b)"
  by (simp add: wf_half_def bits01_xors)

lemma des_rounds_ok:
  "wf_E e \<Longrightarrow> list_all wf_key ks \<Longrightarrow> wf_half L \<Longrightarrow> wf_half R \<Longrightarrow>
     \<exists>L' R'. des_rounds e ks (L, R) = Some (L', R') \<and> wf_half L' \<and> wf_half R'"
proof (induction ks arbitrary: L R)
  case (Cons k ks)
  obtain f where f: "des_f e k R = Some f" "wf_half f" by (rule des_f_ok [of e k R]) (use Cons.prems in auto)
  from Cons.IH [of R "xors L f"] f Cons.prems wf_half_xors show ?case by simp
qed simp

lemma des_rounds_append:
  "des_rounds e (ks @ ks') s = do { s' \<leftarrow> des_rounds e ks s; des_rounds e ks' s' }"
proof (induction ks arbitrary: s)
  case (Cons k ks)
  then show ?case by (cases s) (auto split: Option.bind_splits)
next
  case Nil
  then show ?case by (cases s) simp
qed

text \<open>The rounds undo themselves when the keys are taken in the reverse order and the halves change places.\<close>

lemma des_rounds_reverse:
  "wf_E e \<Longrightarrow> list_all wf_key ks \<Longrightarrow> wf_half L \<Longrightarrow> wf_half R \<Longrightarrow> des_rounds e ks (L, R) = Some (L', R') \<Longrightarrow>
     des_rounds e (rev ks) (R', L') = Some (R, L)"
proof (induction ks arbitrary: L R)
  case (Cons k ks)
  obtain f where f: "des_f e k R = Some f" "wf_half f" by (rule des_f_ok [of e k R]) (use Cons.prems in auto)
  have "des_rounds e (rev ks) (R', L') = Some (xors L f, R)"
    by (rule Cons.IH) (use f Cons.prems wf_half_xors in auto)
  moreover have "length L = length f" using f Cons.prems by (simp add: wf_half_def)
  ultimately show ?case using f by (simp add: des_rounds_append xors_xors)
qed simp

section \<open>Keys and blocks\<close>

lemma key_schedule_ok:
  "length C = 28 \<Longrightarrow> length D = 28 \<Longrightarrow> bits01 C \<Longrightarrow> bits01 D \<Longrightarrow>
     \<exists>ks. key_schedule ss C D = Some ks \<and> list_all wf_key ks"
proof (induction ss arbitrary: C D)
  case (Cons s ss)
  have r: "bits01 (rotate s C)" "bits01 (rotate s D)" using Cons.prems by (simp_all add: bits01_def)
  obtain k1 where k1: "pick (rotate s C) PC2_C = Some k1" "length k1 = 24" "bits01 k1"
    by (rule pick_bits [OF _ r(1), of PC2_C]) (use Cons.prems tables in auto)
  obtain k2 where k2: "pick (rotate s D) PC2_D = Some k2" "length k2 = 24" "bits01 k2"
    by (rule pick_bits [OF _ r(2), of PC2_D]) (use Cons.prems tables in auto)
  obtain ks where "key_schedule ss (rotate s C) (rotate s D) = Some ks" "list_all wf_key ks"
    using Cons.IH [of "rotate s C" "rotate s D"] Cons.prems r by auto
  moreover have "wf_key (k1 @ k2)" using k1 k2 by (simp add: wf_key_def)
  ultimately show ?case using k1 k2 by (simp add: Let_def)
qed simp

lemma wf_e2: "wf_E e2"
  unfolding wf_E_def e2_def by simp

lemma setkey_ok:
  assumes "63 \<le> length key" "bits01 key"
  obtains st where "setkey key = Some st" "list_all wf_key (KS st)" "wf_E (E st)"
proof -
  obtain C where C: "pick key PC1_C = Some C" "length C = 28" "bits01 C"
    by (rule pick_bits [OF _ assms(2), of PC1_C]) (use assms tables in auto)
  obtain D where D: "pick key PC1_D = Some D" "length D = 28" "bits01 D"
    by (rule pick_bits [OF _ assms(2), of PC1_D]) (use assms tables in auto)
  obtain ks where "key_schedule shifts C D = Some ks" "list_all wf_key ks"
    using key_schedule_ok C D by blast
  with C D wf_e2 that show thesis by (simp add: setkey_def)
qed

definition wf_des :: "des \<Rightarrow> bool" where
  "wf_des st \<longleftrightarrow> list_all wf_key (KS st) \<and> wf_E (E st)"

text \<open>A block goes through the first permutation, the rounds and the last permutation.\<close>

lemma encrypt_value:
  assumes "wf_des st" "64 \<le> length block" "bits01 block"
  obtains L R L' R' where "map ((!) block) IP = L @ R" "wf_half L" "wf_half R"
    "des_rounds (E st) (KS st) (L, R) = Some (L', R')" "wf_half L'" "wf_half R'"
    "encrypt st block edflag = Some (map ((!) (R' @ L')) FP @ drop 64 block)"
proof -
  let ?x = "map ((!) block) IP"
  have p: "pick block IP = Some ?x" by (rule pick_ok) (use tables assms in auto)
  then have x: "length ?x = 64" "bits01 ?x"
    using pick_bits [OF _ assms(3), of IP] tables assms(2) by (auto simp: pick_def split: if_splits)
  have h: "wf_half (take 32 ?x)" "wf_half (drop 32 ?x)" using x by (simp_all add: wf_half_def bits01_take_drop)
  obtain L' R' where r: "des_rounds (E st) (KS st) (take 32 ?x, drop 32 ?x) = Some (L', R')" "wf_half L'" "wf_half R'"
    using des_rounds_ok [OF _ _ h, of "E st" "KS st"] assms(1) by (auto simp: wf_des_def)
  have l: "length L' = length R'" using r by (simp add: wf_half_def)
  then have sw: "xors R' (xors L' R') = L'" "xors (xors L' R') L' = R'"
    using xors_xors(2) [OF l] xors_xors(1) [of R' L'] by (simp_all add: xors_commute)
  have "pick (R' @ L') FP = Some (map ((!) (R' @ L')) FP)"
    by (rule pick_ok) (use tables r in \<open>auto simp: wf_half_def\<close>)
  then have "encrypt st block edflag = Some (map ((!) (R' @ L')) FP @ drop 64 block)"
    using p r(1) sw by (simp add: encrypt_def Let_def)
  with that h r show thesis by (metis append_take_drop_id)
qed

lemma wf_halves: "wf_half L \<Longrightarrow> wf_half R \<Longrightarrow> length (map ((!) (L @ R)) FP) = 64 \<and> bits01 (map ((!) (L @ R)) FP)"
  using pick_bits [of FP "L @ R"] tables by (auto simp: wf_half_def pick_def split: if_splits)

text \<open>C32: for a key and a block of 64 bits \<open>setkey\<close> and \<open>encrypt\<close> return, with a block of 64 bits, from which
  \<open>encrypt\<close> with the keys of the rounds in the reverse order makes the first block again. The flag that should ask for
  this has no effect.\<close>

theorem encrypt_reverse:
  assumes "length key = 64" "set key \<subseteq> {0, 1}" "length block = 64" "set block \<subseteq> {0, 1}"
  shows "\<exists>st c. setkey key = Some st \<and> (\<forall>edflag. encrypt st block edflag = Some c) \<and> length c = 64 \<and> set c \<subseteq> {0, 1} \<and>
    (\<forall>edflag. encrypt (st\<lparr>KS := rev (KS st)\<rparr>) c edflag = Some block)"
proof -
  obtain st where st: "setkey key = Some st" "wf_des st"
    using setkey_ok [of key] assms(1,2) by (auto simp: bits01_def wf_des_def)
  obtain L R L' R' where b: "map ((!) block) IP = L @ R" "wf_half L" "wf_half R"
    "des_rounds (E st) (KS st) (L, R) = Some (L', R')" "wf_half L'" "wf_half R'"
    by (rule encrypt_value [OF st(2), of block 0]) (use assms(3,4) in \<open>auto simp: bits01_def\<close>)
  have e: "encrypt st block edflag = Some (map ((!) (R' @ L')) FP)" for edflag
  proof -
    obtain L1 R1 L2 R2 where c: "map ((!) block) IP = L1 @ R1" "wf_half L1"
        "des_rounds (E st) (KS st) (L1, R1) = Some (L2, R2)" "encrypt st block edflag = Some (map ((!) (R2 @ L2)) FP @ drop 64 block)"
      by (rule encrypt_value [OF st(2), of block edflag]) (use assms(3,4) in \<open>auto simp: bits01_def\<close>)
    then have "L1 = L \<and> R1 = R" using b(1-2) by (simp add: wf_half_def)
    with c b(4) assms(3) show ?thesis by simp
  qed
  let ?c = "map ((!) (R' @ L')) FP" and ?st = "st\<lparr>KS := rev (KS st)\<rparr>"
  have c: "length ?c = 64" "bits01 ?c" using wf_halves [OF b(6,5)] by auto
  have wf: "wf_des ?st" using st(2) by (simp add: wf_des_def)
  have "map ((!) ?c) IP = R' @ L'"
    using perm_inverse [OF FP_IP, of "R' @ L'"] b(5,6) tables by (simp add: wf_half_def)
  moreover have "des_rounds (E st) (rev (KS st)) (R', L') = Some (R, L)"
    by (rule des_rounds_reverse) (use b st(2) in \<open>auto simp: wf_des_def\<close>)
  moreover have "map ((!) (L @ R)) FP = block"
    unfolding b(1) [symmetric] using perm_inverse [OF IP_FP, of block] assms(3) tables by simp
  ultimately have d: "encrypt ?st ?c edflag = Some block" for edflag
  proof -
    obtain L1 R1 L2 R2 where x: "map ((!) ?c) IP = L1 @ R1" "wf_half L1"
        "des_rounds (E ?st) (KS ?st) (L1, R1) = Some (L2, R2)" "encrypt ?st ?c edflag = Some (map ((!) (R2 @ L2)) FP @ drop 64 ?c)"
      by (rule encrypt_value [OF wf _ c(2), of edflag]) (use c in auto)
    then have "L1 = R' \<and> R1 = L'" using \<open>map ((!) ?c) IP = R' @ L'\<close> b(6) by (simp add: wf_half_def)
    with x c \<open>des_rounds (E st) (rev (KS st)) (R', L') = Some (R, L)\<close> \<open>map ((!) (L @ R)) FP = block\<close> show ?thesis by simp
  qed
  from st(1) e c d show ?thesis unfolding bits01_def by blast
qed

theorem encrypt_reverse_witness:
  "\<exists>st c. setkey (replicate 64 1) = Some st \<and> (\<forall>edflag. encrypt st (replicate 64 0) edflag = Some c) \<and> length c = 64 \<and> set c \<subseteq> {0, 1} \<and>
    (\<forall>edflag. encrypt (st\<lparr>KS := rev (KS st)\<rparr>) c edflag = Some (replicate 64 0))"
  by (rule encrypt_reverse) simp_all

section \<open>Password hashes\<close>

lemma key_bits_ok: "length (key_bits c) = 8" "bits01 (key_bits c)"
  using and_one by (auto simp: key_bits_def bits01_def)

lemma key_block_ok: "length (key_block pw) = 66 \<and> bits01 (key_block pw)"
proof -
  have l: "length (concat (map key_bits ps)) = 8 * length ps \<and> bits01 (concat (map key_bits ps))" for ps
    by (induction ps) (simp_all add: key_bits_ok)
  have "8 * length (take 8 pw) \<le> 66" by simp
  then show ?thesis using l [of "take 8 pw"] by (auto simp: key_block_def Let_def bits01_def)
qed

lemma swap_E_swaps:
  assumes "i1 < length e" "i2 < length e" "i1 \<noteq> i2"
  shows "swap_E i1 i2 e = e[i1 := e ! i2, i2 := e ! i1]"
proof -
  have x: "a XOR b XOR a = b" for a b :: u8 by (rule bit_eqI) (auto simp: bit_simps)
  show ?thesis using assms
    by (intro nth_equalityI) (auto simp: swap_E_def Let_def nth_list_update xor.assoc xor.left_commute x [unfolded xor.assoc])
qed

lemma wf_E_swap: "wf_E e \<Longrightarrow> i1 < 48 \<Longrightarrow> i2 < 48 \<Longrightarrow> i1 \<noteq> i2 \<Longrightarrow> wf_E (swap_E i1 i2 e)"
proof -
  assume a: "wf_E e" "i1 < 48" "i2 < 48" "i1 \<noteq> i2"
  then have l: "i1 < length e" "i2 < length e" by (simp_all add: wf_E_def)
  have "set (e[i1 := e ! i2, i2 := e ! i1]) \<subseteq> set e"
    using l set_update_subset_insert by (fastforce simp: set_update_subsetI)
  with a show "wf_E (swap_E i1 i2 e)" unfolding swap_E_swaps [OF l a(4)] by (auto simp: wf_E_def)
qed

lemma wf_E_salt: "i < 2 \<Longrightarrow> wf_E e \<Longrightarrow> wf_E (salt_E i ch e)"
proof -
  assume i: "i < 2"
  have *: "wf_E e \<Longrightarrow> set js \<subseteq> {..<6} \<Longrightarrow>
      wf_E (fold (\<lambda>j e. if bit (salt_value ch) j then swap_E (6 * i + j) (6 * i + j + 24) e else e) js e)" for js e
  proof (induction js arbitrary: e)
    case (Cons j js)
    have "wf_E (if bit (salt_value ch) j then swap_E (6 * i + j) (6 * i + j + 24) e else e)"
      using Cons.prems i wf_E_swap [of e "6 * i + j" "6 * i + j + 24"] by auto
    with Cons.IH Cons.prems(2) show ?case by simp
  qed simp
  assume "wf_E e"
  then show "wf_E (salt_E i ch e)" unfolding salt_E_def by (rule *) auto
qed

lemma encrypts_ok:
  "wf_des st \<Longrightarrow> length block = 66 \<Longrightarrow> bits01 block \<Longrightarrow>
     \<exists>c. encrypts n st block = Some c \<and> length c = 66 \<and> bits01 c"
proof (induction n arbitrary: block)
  case (Suc n)
  obtain L R L' R' where e: "wf_half L'" "wf_half R'" "encrypt st block 0 = Some (map ((!) (R' @ L')) FP @ drop 64 block)"
    by (rule encrypt_value [OF Suc.prems(1) _ Suc.prems(3), of 0]) (use Suc.prems in auto)
  let ?b = "map ((!) (R' @ L')) FP @ drop 64 block"
  have "length ?b = 66" "bits01 ?b" using wf_halves [OF e(2,1)] Suc.prems by (auto simp: bits01_take_drop)
  from Suc.IH [OF Suc.prems(1) this] e(3) show ?case by simp
qed simp

text \<open>The characters of the hash: six bits give an entry of the alphabet.\<close>

lemma out_value:
  "0 \<le> v \<Longrightarrow> v < 64 \<Longrightarrow> word_of_int (let c = v + 46; c = (if c > 57 then c + 7 else c) in if c > 90 then c + 6 else c) = itoa64 ! nat v"
  for v :: int
proof -
  have "\<forall>v \<in> set [0..63]. (word_of_int (let c = v + 46; c = (if c > 57 then c + 7 else c) in if c > 90 then c + 6 else c) :: u8) =
      itoa64 ! nat v" by code_simp
  then show "0 \<le> v \<Longrightarrow> v < 64 \<Longrightarrow> ?thesis" by simp
qed

lemma out_char_alphabet:
  assumes "length block = 66" "bits01 block" "i < 11"
  shows "out_char block i \<in> set itoa64"
proof -
  have s: "sint (block ! (6 * i + j)) \<in> {0, 1}" if "j < 6" for j
  proof -
    have "block ! (6 * i + j) \<in> set block" using assms that by simp
    then have "block ! (6 * i + j) \<in> {0, 1}" using assms(2) unfolding bits01_def by blast
    then show ?thesis by auto
  qed
  define v where "v = fold (\<lambda>j c. push_bit 1 c OR sint (block ! (6 * i + j))) [0..<6] (0 :: int)"
  have step: "0 \<le> push_bit 1 c OR b \<and> push_bit 1 c OR b < 2 * n" if "0 \<le> c" "c < n" "b \<in> {0, 1}" for c b n :: int
    using that by (auto simp: push_bit_eq_mult or_one_eq)
  have bound: "set js \<subseteq> {..<6} \<Longrightarrow> 0 \<le> c \<Longrightarrow> c < n \<Longrightarrow>
      0 \<le> fold (\<lambda>j c. push_bit 1 c OR sint (block ! (6 * i + j))) js c \<and>
      fold (\<lambda>j c. push_bit 1 c OR sint (block ! (6 * i + j))) js c < n * 2 ^ length js" for js c n
  proof (induction js arbitrary: c n)
    case (Cons j js)
    have "0 \<le> push_bit 1 c OR sint (block ! (6 * i + j)) \<and> push_bit 1 c OR sint (block ! (6 * i + j)) < 2 * n"
      by (rule step) (use Cons.prems s in auto)
    with Cons.IH [of "push_bit 1 c OR sint (block ! (6 * i + j))" "2 * n"] Cons.prems(1) show ?case by (simp add: ac_simps)
  qed simp
  have "0 \<le> v \<and> v < 1 * 2 ^ length [0..<6]" unfolding v_def by (rule bound) auto
  then have v: "0 \<le> v" "v < 64" by simp_all
  have "out_char block i = itoa64 ! nat v"
    unfolding out_char_def v_def [symmetric] using out_value [OF v] by (simp only: Let_def)
  also have "\<dots> \<in> set itoa64" by (rule nth_mem) (use v in \<open>simp add: itoa64_def nat_less_iff\<close>)
  finally show ?thesis .
qed

text \<open>DES hashes: a salt of two characters that are not NUL, of which the first two are used.\<close>

lemma des_crypt_value:
  "\<exists>x. length x = 11 \<and> set x \<subseteq> set itoa64 \<and> (\<forall>ctx ctx1 rest. take 3 (s0 # s1 # rest) \<noteq> [36, 49, 36] \<longrightarrow> s1 \<noteq> 0 \<longrightarrow>
      crypt ctx ctx1 pw (s0 # s1 # rest) = Some (s0 # s1 # x))"
proof -
  obtain st where st: "setkey (key_block pw) = Some st" "list_all wf_key (KS st)" "wf_E (E st)"
    by (rule setkey_ok [of "key_block pw"]) (use key_block_ok in auto)
  let ?st = "st\<lparr>E := salt_E 1 s1 (salt_E 0 s0 (E st))\<rparr>"
  have "wf_des ?st" using st wf_E_salt by (simp add: wf_des_def)
  then obtain block where b: "encrypts 25 ?st (replicate 66 0) = Some block" "length block = 66" "bits01 block"
    using encrypts_ok [of ?st "replicate 66 0" 25] by (auto simp: bits01_def)
  have c: "crypt ctx ctx1 pw (s0 # s1 # rest) = Some (s0 # s1 # map (out_char block) [0..<11])"
      if "take 3 (s0 # s1 # rest) \<noteq> [36, 49, 36]" "s1 \<noteq> 0" for ctx ctx1 rest
    unfolding crypt_def if_not_P [OF that(1)]
    using that(2) st(1) b(1) by (simp add: Let_def del: upt_rec_numeral)
  have "set (map (out_char block) [0..<11]) \<subseteq> set itoa64" using out_char_alphabet [OF b(2,3)] by auto
  with c show ?thesis by (intro exI [of _ "map (out_char block) [0..<11]"]) (simp del: upt_rec_numeral take_Suc_Cons)
qed

text \<open>C31: \<open>crypt\<close> returns for every password and every salt of at least two characters, with a string that begins with the
  salt it used and goes on with characters of the alphabet; and given that string as the salt it returns it again, so that
  a stored hash accepts its password.\<close>

theorem crypt_verifies:
  assumes "length pw < 2 ^ 31 - 64" "length (buffer ctx) = 64" "length (buffer ctx1) = 64"
    and "length (buffer ctx') = 64" "length (buffer ctx1') = 64" "2 \<le> length salt" "0 \<notin> set salt"
  shows "\<exists>h x. crypt ctx ctx1 pw salt = Some h \<and> crypt ctx' ctx1' pw h = Some h \<and> set x \<subseteq> set itoa64 \<and>
    h = (if take 3 salt = magic then magic @ refine_salt salt @ 36 # x else take 2 salt @ x) \<and>
    length x = (if take 3 salt = magic then 22 else 11)"
proof (cases "take 3 salt = magic")
  case True
  from md5crypt_verifies [OF assms(1-5), of salt] obtain h x where h: "md5crypt ctx ctx1 pw salt = Some h"
    "md5crypt ctx' ctx1' pw h = Some h" "h = magic @ refine_salt salt @ 36 # x" "length x = 22" "set x \<subseteq> set itoa64" by blast
  moreover have "take 3 h = [36, 49, 36]" unfolding h(3) by (simp add: magic_def)
  ultimately show ?thesis using True by (auto simp: crypt_def magic_def)
next
  case False
  obtain s0 s1 rest where salt: "salt = s0 # s1 # rest" using assms(6) by (metis Suc_le_length_iff numeral_2_eq_2)
  have s1: "s1 \<noteq> 0" using assms(7) salt by auto
  obtain x where x: "length x = 11" "set x \<subseteq> set itoa64" "\<forall>ctx ctx1 rest. take 3 (s0 # s1 # rest) \<noteq> [36, 49, 36] \<longrightarrow>
      s1 \<noteq> 0 \<longrightarrow> crypt ctx ctx1 pw (s0 # s1 # rest) = Some (s0 # s1 # x)"
    using des_crypt_value [of s0 s1 pw] by blast
  have "crypt ctx ctx1 pw salt = Some (s0 # s1 # x)" unfolding salt
    by (rule x(3) [rule_format]) (use False salt s1 in \<open>auto simp: magic_def\<close>)
  moreover have "take 3 (s0 # s1 # x) \<noteq> [36, 49, 36]"
  proof -
    have "36 \<notin> set itoa64" by (simp add: itoa64_def)
    with x(1,2) show ?thesis by (cases x) auto
  qed
  then have "crypt ctx' ctx1' pw (s0 # s1 # x) = Some (s0 # s1 # x)" by (rule x(3) [rule_format]) (rule s1)
  ultimately show ?thesis using x(1,2) False salt by (intro exI [of _ "s0 # s1 # x"] exI [of _ x]) simp
qed

theorem crypt_verifies_witness:
  "\<exists>h x. crypt \<lparr>state = (0, 0, 0, 0), count = (7, 9), buffer = replicate 64 1\<rparr>
      \<lparr>state = (0, 0, 0, 0), count = (7, 9), buffer = replicate 64 1\<rparr> [112, 119] [97, 98] = Some h \<and>
    crypt \<lparr>state = (0, 0, 0, 0), count = (0, 0), buffer = replicate 64 0\<rparr>
      \<lparr>state = (0, 0, 0, 0), count = (7, 9), buffer = replicate 64 1\<rparr> [112, 119] h = Some h \<and> set x \<subseteq> set itoa64 \<and>
    h = [97, 98] @ x \<and> length x = 11"
  using crypt_verifies [of "[112, 119]" "\<lparr>state = (0, 0, 0, 0), count = (7, 9), buffer = replicate 64 1\<rparr>"
      "\<lparr>state = (0, 0, 0, 0), count = (7, 9), buffer = replicate 64 1\<rparr>"
      "\<lparr>state = (0, 0, 0, 0), count = (0, 0), buffer = replicate 64 0\<rparr>"
      "\<lparr>state = (0, 0, 0, 0), count = (7, 9), buffer = replicate 64 1\<rparr>" "[97, 98]"] by (simp add: magic_def)

end
