(* ===== verification/Rpc.thy ===== *)
theory Rpc
  imports Xdr_Mem
begin

text \<open>
  The messages of remote procedure calls (\<open>rpc_prot.c\<close>, \<open>rpc_callmsg.c\<close>, \<open>authunix_prot.c\<close>, \<open>pmap_prot.c\<close> of
  \<open>src/lib/c/librpc\<close>) and what the server does with UNIX credentials (\<open>svc_auth_unix.c\<close>), over the XDR filters.

  A filter for a structure is a chain of filters for its fields. The members of a union are kept apart: the code reads no
  member but the one that the discriminant it has read or stored selects. \<open>long\<close> and enumerations have 32 bits, \<open>uid_t\<close> and
  \<open>gid_t\<close> 16. The procedure for the results of a reply is a parameter, and so is \<open>mem_alloc\<close>.
\<close>

section \<open>Chains\<close>

text \<open>\<open>f && g && ...\<close> for filters called on the same object, a filter called on a field of the object, and a test.\<close>

fun xdr_all :: "('s, 'v) xdrproc list \<Rightarrow> ('s, 'v) xdrproc" where
  "xdr_all [] x_op v s = Some (True, v, s)"
| "xdr_all (f # fs) x_op v s = do {
     (ok, v1, s1) \<leftarrow> f x_op v s;
     if \<not> ok then Some (False, v1, s1) else xdr_all fs x_op v1 s1 }"

definition on :: "('v \<Rightarrow> 'a) \<Rightarrow> ('a \<Rightarrow> 'v \<Rightarrow> 'v) \<Rightarrow> ('s, 'a) xdrproc \<Rightarrow> ('s, 'v) xdrproc" where
  "on get put f x_op v s = do { (ok, a, s') \<leftarrow> f x_op (get v) s; Some (ok, put a v, s') }"

definition holds :: "('v \<Rightarrow> bool) \<Rightarrow> ('s, 'v) xdrproc" where
  "holds p x_op v s = Some (p v, v, s)"

section \<open>Messages\<close>

abbreviation (input) MAX_AUTH_BYTES :: u32 where "MAX_AUTH_BYTES \<equiv> 400"

record opaque_auth =
  oa_flavor :: u32
  oa_base :: "u8 list option"
  oa_length :: u32

record 'r accepted_reply =
  ar_verf :: opaque_auth
  ar_stat :: u32
  ar_low :: u32
  ar_high :: u32
  ar_where :: 'r

record rejected_reply =
  rj_stat :: u32
  rj_low :: u32
  rj_high :: u32
  rj_why :: u32

record call_body =
  cb_rpcvers :: u32
  cb_prog :: u32
  cb_vers :: u32
  cb_proc :: u32
  cb_cred :: opaque_auth
  cb_verf :: opaque_auth

record 'r rpc_msg =
  rm_xid :: u32
  rm_direction :: u32
  rm_call :: call_body
  rp_stat :: u32
  rp_acpt :: "'r accepted_reply"
  rp_rjct :: rejected_reply

abbreviation (input) CALL :: u32 where "CALL \<equiv> 0"
abbreviation (input) REPLY :: u32 where "REPLY \<equiv> 1"
abbreviation (input) RPC_MSG_VERSION :: u32 where "RPC_MSG_VERSION \<equiv> 2"

definition xdr_opaque_auth :: "'s xdr_ops \<Rightarrow> (nat \<Rightarrow> u8 list option) \<Rightarrow> ('s, opaque_auth) xdrproc" where
  "xdr_opaque_auth ops alloc = xdr_all
     [on oa_flavor (\<lambda>x a. a\<lparr>oa_flavor := x\<rparr>) (xdr_enum ops),
      on (\<lambda>a. (oa_base a, oa_length a)) (\<lambda>(b, n) a. a\<lparr>oa_base := b, oa_length := n\<rparr>)
        (xdr_bytes ops alloc MAX_AUTH_BYTES)]"

definition xdr_des_block :: "'s xdr_ops \<Rightarrow> ('s, u8 list) xdrproc" where
  "xdr_des_block ops = xdr_opaque ops 8"

definition xdr_accepted_reply :: "'s xdr_ops \<Rightarrow> (nat \<Rightarrow> u8 list option) \<Rightarrow> ('s, 'r) xdrproc \<Rightarrow> ('s, 'r accepted_reply) xdrproc" where
  "xdr_accepted_reply ops alloc proc = xdr_all
     [on ar_verf (\<lambda>x a. a\<lparr>ar_verf := x\<rparr>) (xdr_opaque_auth ops alloc),
      on ar_stat (\<lambda>x a. a\<lparr>ar_stat := x\<rparr>) (xdr_enum ops),
      \<lambda>x_op ar s.
        if ar_stat ar = 0 then on ar_where (\<lambda>x a. a\<lparr>ar_where := x\<rparr>) proc x_op ar s
        else if ar_stat ar = 2 then xdr_all
          [on ar_low (\<lambda>x a. a\<lparr>ar_low := x\<rparr>) (xdr_u_long ops), on ar_high (\<lambda>x a. a\<lparr>ar_high := x\<rparr>) (xdr_u_long ops)] x_op ar s
        else Some (True, ar, s)]"

definition xdr_rejected_reply :: "'s xdr_ops \<Rightarrow> ('s, rejected_reply) xdrproc" where
  "xdr_rejected_reply ops = xdr_all
     [on rj_stat (\<lambda>x a. a\<lparr>rj_stat := x\<rparr>) (xdr_enum ops),
      \<lambda>x_op rr s.
        if rj_stat rr = 0 then xdr_all
          [on rj_low (\<lambda>x a. a\<lparr>rj_low := x\<rparr>) (xdr_u_long ops), on rj_high (\<lambda>x a. a\<lparr>rj_high := x\<rparr>) (xdr_u_long ops)] x_op rr s
        else if rj_stat rr = 1 then on rj_why (\<lambda>x a. a\<lparr>rj_why := x\<rparr>) (xdr_enum ops) x_op rr s
        else Some (False, rr, s)]"

definition reply_dscrm :: "'s xdr_ops \<Rightarrow> (nat \<Rightarrow> u8 list option) \<Rightarrow> ('s, 'r) xdrproc \<Rightarrow>
    (u32 \<times> ('s, 'r accepted_reply \<times> rejected_reply) xdrproc) list" where
  "reply_dscrm ops alloc proc =
     [(0, on fst (\<lambda>x (a, r). (x, r)) (xdr_accepted_reply ops alloc proc)),
      (1, on snd (\<lambda>x (a, r). (a, x)) (xdr_rejected_reply ops))]"

definition xdr_replymsg :: "'s xdr_ops \<Rightarrow> (nat \<Rightarrow> u8 list option) \<Rightarrow> ('s, 'r) xdrproc \<Rightarrow> ('s, 'r rpc_msg) xdrproc" where
  "xdr_replymsg ops alloc proc = xdr_all
     [on rm_xid (\<lambda>x m. m\<lparr>rm_xid := x\<rparr>) (xdr_u_long ops),
      on rm_direction (\<lambda>x m. m\<lparr>rm_direction := x\<rparr>) (xdr_enum ops),
      holds (\<lambda>m. rm_direction m = REPLY),
      on (\<lambda>m. (rp_stat m, (rp_acpt m, rp_rjct m))) (\<lambda>(d, (a, r)) m. m\<lparr>rp_stat := d, rp_acpt := a, rp_rjct := r\<rparr>)
        (xdr_union ops (reply_dscrm ops alloc proc) None)]"

text \<open>A field of the call, and the static part of a call.\<close>

definition in_call :: "('s, call_body) xdrproc \<Rightarrow> ('s, 'r rpc_msg) xdrproc" where
  "in_call = on rm_call (\<lambda>x m. m\<lparr>rm_call := x\<rparr>)"

definition xdr_callhdr :: "'s xdr_ops \<Rightarrow> ('s, 'r rpc_msg) xdrproc" where
  "xdr_callhdr ops x_op cmsg s =
     (let cmsg = cmsg\<lparr>rm_direction := CALL, rm_call := (rm_call cmsg)\<lparr>cb_rpcvers := RPC_MSG_VERSION\<rparr>\<rparr> in
      if x_op \<noteq> XDR_ENCODE then Some (False, cmsg, s)
      else xdr_all
        [on rm_xid (\<lambda>x m. m\<lparr>rm_xid := x\<rparr>) (xdr_u_long ops),
         on rm_direction (\<lambda>x m. m\<lparr>rm_direction := x\<rparr>) (xdr_enum ops),
         in_call (on cb_rpcvers (\<lambda>x c. c\<lparr>cb_rpcvers := x\<rparr>) (xdr_u_long ops)),
         in_call (on cb_prog (\<lambda>x c. c\<lparr>cb_prog := x\<rparr>) (xdr_u_long ops)),
         in_call (on cb_vers (\<lambda>x c. c\<lparr>cb_vers := x\<rparr>) (xdr_u_long ops))] x_op cmsg s)"

section \<open>Errors of a reply\<close>

text \<open>\<open>struct rpc_err\<close>: the two words of its union, which \<open>re_why\<close>, \<open>re_vers\<close> and \<open>re_lb\<close> share.\<close>

record rpc_err =
  re_status :: u32
  re_ru :: "u32 \<times> u32"

definition accepted :: "u32 \<Rightarrow> rpc_err \<Rightarrow> rpc_err" where
  "accepted acpt_stat e =
     (if acpt_stat = 1 then e\<lparr>re_status := 8\<rparr>
      else if acpt_stat = 2 then e\<lparr>re_status := 9\<rparr>
      else if acpt_stat = 3 then e\<lparr>re_status := 10\<rparr>
      else if acpt_stat = 4 then e\<lparr>re_status := 11\<rparr>
      else if acpt_stat = 5 then e\<lparr>re_status := 12\<rparr>
      else if acpt_stat = 0 then e\<lparr>re_status := 0\<rparr>
      else e\<lparr>re_status := 16, re_ru := (0, acpt_stat)\<rparr>)"

text \<open>The first case compares with \<open>RPC_VERSMISMATCH\<close>, which is 6, where \<open>RPC_MISMATCH\<close>, which is 0, is meant.\<close>

definition rejected :: "u32 \<Rightarrow> rpc_err \<Rightarrow> rpc_err" where
  "rejected rjct_stat e =
     (if rjct_stat = 6 then e\<lparr>re_status := 6\<rparr>
      else if rjct_stat = 1 then e\<lparr>re_status := 7\<rparr>
      else e\<lparr>re_status := 16, re_ru := (1, rjct_stat)\<rparr>)"

definition seterr_reply :: "'r rpc_msg \<Rightarrow> rpc_err \<Rightarrow> rpc_err" where
  "seterr_reply msg e =
     (if rp_stat msg = 0 \<and> ar_stat (rp_acpt msg) = 0 then e\<lparr>re_status := 0\<rparr>
      else
        let e = (if rp_stat msg = 0 then accepted (ar_stat (rp_acpt msg)) e
          else if rp_stat msg = 1 then rejected (rj_stat (rp_rjct msg)) e
          else e\<lparr>re_status := 16, re_ru := (rp_stat msg, snd (re_ru e))\<rparr>) in
        if re_status e = 6 then e\<lparr>re_ru := (rj_low (rp_rjct msg), rj_high (rp_rjct msg))\<rparr>
        else if re_status e = 7 then e\<lparr>re_ru := (rj_why (rp_rjct msg), snd (re_ru e))\<rparr>
        else if re_status e = 9 then e\<lparr>re_ru := (ar_low (rp_acpt msg), ar_high (rp_acpt msg))\<rparr>
        else e)"

section \<open>Calls\<close>

text \<open>The filter for a call without \<open>XDR_INLINE\<close>.\<close>

definition xdr_callmsg_fields :: "'s xdr_ops \<Rightarrow> (nat \<Rightarrow> u8 list option) \<Rightarrow> ('s, 'r rpc_msg) xdrproc" where
  "xdr_callmsg_fields ops alloc = xdr_all
     [on rm_xid (\<lambda>x m. m\<lparr>rm_xid := x\<rparr>) (xdr_u_long ops),
      on rm_direction (\<lambda>x m. m\<lparr>rm_direction := x\<rparr>) (xdr_enum ops),
      holds (\<lambda>m. rm_direction m = CALL),
      in_call (on cb_rpcvers (\<lambda>x c. c\<lparr>cb_rpcvers := x\<rparr>) (xdr_u_long ops)),
      holds (\<lambda>m. cb_rpcvers (rm_call m) = RPC_MSG_VERSION),
      in_call (on cb_prog (\<lambda>x c. c\<lparr>cb_prog := x\<rparr>) (xdr_u_long ops)),
      in_call (on cb_vers (\<lambda>x c. c\<lparr>cb_vers := x\<rparr>) (xdr_u_long ops)),
      in_call (on cb_proc (\<lambda>x c. c\<lparr>cb_proc := x\<rparr>) (xdr_u_long ops)),
      in_call (on cb_cred (\<lambda>x c. c\<lparr>cb_cred := x\<rparr>) (xdr_opaque_auth ops alloc)),
      in_call (on cb_verf (\<lambda>x c. c\<lparr>cb_verf := x\<rparr>) (xdr_opaque_auth ops alloc))]"

text \<open>The buffer of a stream: \<open>in_line\<close> reserves bytes at the position and returns their address, \<open>in_ram\<close> is the memory.\<close>

record 's xdr_buf =
  in_line :: "u32 \<Rightarrow> 's \<Rightarrow> addr option \<times> 's"
  in_ram :: "'s \<Rightarrow> ram"
  in_set :: "ram \<Rightarrow> 's \<Rightarrow> 's"

definition xdrmem_buf :: "xdrmem xdr_buf" where
  "xdrmem_buf = \<lparr>in_line = xdrmem_inline, in_ram = x_ram, in_set = (\<lambda>m x. x\<lparr>x_ram := m\<rparr>)\<rparr>"

definition rndup :: "u32 \<Rightarrow> u32" where
  "rndup x = (x + 4 - 1) AND NOT (4 - 1)"

text \<open>\<open>IXDR_PUT_LONG\<close> and \<open>IXDR_GET_LONG\<close> at an address.\<close>

definition put_long :: "ram \<Rightarrow> addr \<Rightarrow> u32 \<Rightarrow> ram option" where
  "put_long m buf w = store32 m buf (htonl w)"

definition get_long :: "ram \<Rightarrow> addr \<Rightarrow> u32 option" where
  "get_long m buf = map_option htonl (load32 m buf)"

text \<open>Authentication data to the buffer; the bytes of the rounding are left as they are.\<close>

definition put_auth :: "ram \<Rightarrow> addr \<Rightarrow> opaque_auth \<Rightarrow> (ram \<times> addr) option" where
  "put_auth m buf oa = do {
     m \<leftarrow> put_long m buf (oa_flavor oa);
     m \<leftarrow> put_long m (buf + 4) (oa_length oa);
     if oa_length oa \<noteq> 0 then
       (let n = unat (oa_length oa) in
        if n \<le> length (block (oa_base oa)) \<and> buf + 8 + n \<le> length m
        then Some (patch (buf + 8) (take n (block (oa_base oa))) m, buf + 8 + unat (rndup (oa_length oa)))
        else None)
     else Some (m, buf + 8) }"

definition put_call :: "'r rpc_msg \<Rightarrow> ram \<Rightarrow> addr \<Rightarrow> (bool \<times> ram) option" where
  "put_call cmsg m buf = do {
     m \<leftarrow> put_long m buf (rm_xid cmsg);
     m \<leftarrow> put_long m (buf + 4) (rm_direction cmsg);
     if rm_direction cmsg \<noteq> CALL then Some (False, m)
     else do {
       m \<leftarrow> put_long m (buf + 8) (cb_rpcvers (rm_call cmsg));
       if cb_rpcvers (rm_call cmsg) \<noteq> RPC_MSG_VERSION then Some (False, m)
       else do {
         m \<leftarrow> put_long m (buf + 12) (cb_prog (rm_call cmsg));
         m \<leftarrow> put_long m (buf + 16) (cb_vers (rm_call cmsg));
         m \<leftarrow> put_long m (buf + 20) (cb_proc (rm_call cmsg));
         (m, buf) \<leftarrow> put_auth m (buf + 24) (cb_cred (rm_call cmsg));
         (m, buf) \<leftarrow> put_auth m buf (cb_verf (rm_call cmsg));
         Some (True, m) } } }"

text \<open>The bytes of authentication data whose flavor and length are known; \<open>mem_alloc\<close> is not tested for NULL, and storing
  to NULL is undefined.\<close>

definition get_auth_body :: "'s xdr_ops \<Rightarrow> 's xdr_buf \<Rightarrow> (nat \<Rightarrow> u8 list option) \<Rightarrow> opaque_auth \<Rightarrow> 's \<Rightarrow>
    (bool \<times> opaque_auth \<times> 's) option" where
  "get_auth_body ops ib alloc oa s =
     (if oa_length oa = 0 then Some (True, oa, s)
      else if oa_length oa > MAX_AUTH_BYTES then Some (False, oa, s)
      else do {
        base \<leftarrow> sure_block alloc (oa_length oa) (oa_base oa);
        case in_line ib (rndup (oa_length oa)) s of
          (None, s1) \<Rightarrow> do {
            (ok, base', s2) \<leftarrow> xdr_opaque ops (oa_length oa) XDR_DECODE base s1;
            Some (ok, oa\<lparr>oa_base := Some base'\<rparr>, s2) }
        | (Some buf, s1) \<Rightarrow>
            if buf + unat (oa_length oa) \<le> length (in_ram ib s1) then do {
              base' \<leftarrow> store_bytes (seg buf (unat (oa_length oa)) (in_ram ib s1)) base;
              Some (True, oa\<lparr>oa_base := Some base'\<rparr>, s1) }
            else None })"

definition get_verf_head :: "'s xdr_ops \<Rightarrow> 's xdr_buf \<Rightarrow> opaque_auth \<Rightarrow> 's \<Rightarrow> (bool \<times> opaque_auth \<times> 's) option" where
  "get_verf_head ops ib oa s =
     (case in_line ib 8 s of
        (None, s1) \<Rightarrow> xdr_all [on oa_flavor (\<lambda>x a. a\<lparr>oa_flavor := x\<rparr>) (xdr_enum ops),
          on oa_length (\<lambda>x a. a\<lparr>oa_length := x\<rparr>) (xdr_u_int ops)] XDR_DECODE oa s1
      | (Some buf, s1) \<Rightarrow> do {
          f \<leftarrow> get_long (in_ram ib s1) buf;
          n \<leftarrow> get_long (in_ram ib s1) (buf + 4);
          Some (True, oa\<lparr>oa_flavor := f, oa_length := n\<rparr>, s1) })"

definition get_call :: "'s xdr_ops \<Rightarrow> 's xdr_buf \<Rightarrow> (nat \<Rightarrow> u8 list option) \<Rightarrow> 'r rpc_msg \<Rightarrow> 's \<Rightarrow> addr \<Rightarrow>
    (bool \<times> 'r rpc_msg \<times> 's) option" where
  "get_call ops ib alloc cmsg s buf =
     (let m = in_ram ib s; set = (\<lambda>c cmsg. cmsg\<lparr>rm_call := c\<rparr>) in do {
      x \<leftarrow> get_long m buf;
      d \<leftarrow> get_long m (buf + 4);
      let cmsg = cmsg\<lparr>rm_xid := x, rm_direction := d\<rparr>;
      if d \<noteq> CALL then Some (False, cmsg, s)
      else do {
        v \<leftarrow> get_long m (buf + 8);
        let c = (rm_call cmsg)\<lparr>cb_rpcvers := v\<rparr>;
        if v \<noteq> RPC_MSG_VERSION then Some (False, set c cmsg, s)
        else do {
          pg \<leftarrow> get_long m (buf + 12);
          vs \<leftarrow> get_long m (buf + 16);
          pc \<leftarrow> get_long m (buf + 20);
          f \<leftarrow> get_long m (buf + 24);
          n \<leftarrow> get_long m (buf + 28);
          let c = c\<lparr>cb_prog := pg, cb_vers := vs, cb_proc := pc\<rparr>;
          (ok, cred, s1) \<leftarrow> get_auth_body ops ib alloc ((cb_cred c)\<lparr>oa_flavor := f, oa_length := n\<rparr>) s;
          let c = c\<lparr>cb_cred := cred\<rparr>;
          if \<not> ok then Some (False, set c cmsg, s1)
          else do {
            (ok, verf, s2) \<leftarrow> get_verf_head ops ib (cb_verf c) s1;
            if \<not> ok then Some (False, set (c\<lparr>cb_verf := verf\<rparr>) cmsg, s2)
            else do {
              (ok, verf, s3) \<leftarrow> get_auth_body ops ib alloc verf s2;
              Some (ok, set (c\<lparr>cb_verf := verf\<rparr>) cmsg, s3) } } } } })"

definition xdr_callmsg :: "'s xdr_ops \<Rightarrow> 's xdr_buf \<Rightarrow> (nat \<Rightarrow> u8 list option) \<Rightarrow> ('s, 'r rpc_msg) xdrproc" where
  "xdr_callmsg ops ib alloc x_op cmsg s =
     (let cl = oa_length (cb_cred (rm_call cmsg)); vl = oa_length (cb_verf (rm_call cmsg)) in
      if x_op = XDR_ENCODE \<and> cl > MAX_AUTH_BYTES then Some (False, cmsg, s)
      else if x_op = XDR_ENCODE \<and> vl > MAX_AUTH_BYTES then Some (False, cmsg, s)
      else
        case (if x_op = XDR_ENCODE then in_line ib (8 * 4 + rndup cl + 2 * 4 + rndup vl) s
              else if x_op = XDR_DECODE then in_line ib (8 * 4) s else (None, s)) of
          (None, s1) \<Rightarrow> xdr_callmsg_fields ops alloc x_op cmsg s1
        | (Some buf, s1) \<Rightarrow>
            (if x_op = XDR_ENCODE then do {
               (ok, m) \<leftarrow> put_call cmsg (in_ram ib s1) buf;
               Some (ok, cmsg, in_set ib m s1) }
             else get_call ops ib alloc cmsg s1 buf))"

section \<open>UNIX credentials\<close>

record authunix_parms =
  aup_time :: u32
  aup_machname :: "u8 list option"
  aup_uid :: u16
  aup_gid :: u16
  aup_len :: u32
  aup_gids :: "u16 list option"

text \<open>\<open>gid_t\<close> has 16 bits on i386, but \<open>xdr_authunix_parms\<close> has \<open>xdr_array\<close> access the groups as an array of \<open>int\<close>:
  each \<open>int\<close> is two groups, and a last single group is not a whole \<open>int\<close>. \<open>set_ints\<close> stores the integers over the
  groups and leaves what lies behind them.\<close>

definition int_of_gids :: "u16 \<Rightarrow> u16 \<Rightarrow> u32" where
  "int_of_gids g h = ucast g OR push_bit 16 (ucast h)"

fun ints_of :: "u16 list \<Rightarrow> u32 list" where
  "ints_of (g # h # gs) = int_of_gids g h # ints_of gs"
| "ints_of gs = []"

definition gids_of :: "u32 list \<Rightarrow> u16 list" where
  "gids_of xs = concat (map (\<lambda>x. [ucast x, ucast (drop_bit 16 x)]) xs)"

definition set_ints :: "u32 list option \<Rightarrow> u16 list option \<Rightarrow> u16 list option" where
  "set_ints xs gids = map_option (\<lambda>xs. gids_of xs @
     (case gids of None \<Rightarrow> [] | Some gs \<Rightarrow> drop (2 * length xs) gs)) xs"

text \<open>\<open>a\<close> and \<open>b\<close> are the uninitialized locals of \<open>xdr_authunix_parms\<close>.\<close>

definition xdr_authunix_parms :: "'s xdr_ops \<Rightarrow> (nat \<Rightarrow> u8 list option) \<Rightarrow> u32 \<Rightarrow> u32 \<Rightarrow> ('s, authunix_parms) xdrproc" where
  "xdr_authunix_parms ops alloc a b x_op p s = do {
     (ok, (p', a', b'), s') \<leftarrow> xdr_all
       [on (\<lambda>(p, a, b). aup_time p) (\<lambda>x (p, a, b). (p\<lparr>aup_time := x\<rparr>, a, b)) (xdr_u_long ops),
        on (\<lambda>(p, a, b). aup_machname p) (\<lambda>x (p, a, b). (p\<lparr>aup_machname := x\<rparr>, a, b)) (xdr_string ops alloc 255),
        on (\<lambda>(p, a, b). a) (\<lambda>x (p, a, b). (p, x, b)) (xdr_int ops),
        on (\<lambda>(p, a, b). b) (\<lambda>x (p, a, b). (p, a, x)) (xdr_int ops),
        on (\<lambda>(p, a, b). (map_option ints_of (aup_gids p), aup_len p))
          (\<lambda>(g, n) (p, a, b). (p\<lparr>aup_gids := set_ints g (aup_gids p), aup_len := n\<rparr>, a, b))
          (xdr_array ops alloc 4 0 16 4 (xdr_int ops))] x_op (p, a, b) s;
     Some (ok, if ok then p'\<lparr>aup_uid := ucast a', aup_gid := ucast b'\<rparr> else p', s') }"

text \<open>\<open>struct pmap\<close> of the port mapper.\<close>

record pmap =
  pm_prog :: u32
  pm_vers :: u32
  pm_prot :: u32
  pm_port :: u32

definition xdr_pmap :: "'s xdr_ops \<Rightarrow> ('s, pmap) xdrproc" where
  "xdr_pmap ops = xdr_all
     [on pm_prog (\<lambda>x p. p\<lparr>pm_prog := x\<rparr>) (xdr_u_long ops), on pm_vers (\<lambda>x p. p\<lparr>pm_vers := x\<rparr>) (xdr_u_long ops),
      on pm_prot (\<lambda>x p. p\<lparr>pm_prot := x\<rparr>) (xdr_u_long ops), on pm_port (\<lambda>x p. p\<lparr>pm_port := x\<rparr>) (xdr_u_long ops)]"

text \<open>The server's side: the area behind \<open>rq_clntcred\<close> has 256 bytes for the name and 16 groups.\<close>

record area =
  ar_time :: u32
  ar_machname :: "u8 list"
  ar_uid :: u16
  ar_gid :: u16
  ar_len :: u32
  ar_gids :: "u16 list"

datatype auth_stat = AUTH_OK | AUTH_BADCRED | AUTH_REJECTEDCRED | AUTH_BADVERF | AUTH_REJECTEDVERF | AUTH_TOOWEAK |
  AUTH_INVALIDRESP | AUTH_FAILED

text \<open>\<open>for (i = 0; i < gid_len; i++)\<close> for \<open>n\<close> groups from group \<open>i\<close> on.\<close>

fun get_gids :: "ram \<Rightarrow> addr \<Rightarrow> nat \<Rightarrow> nat \<Rightarrow> u16 list \<Rightarrow> u16 list option" where
  "get_gids m buf i 0 gids = Some gids"
| "get_gids m buf i (Suc n) gids = do {
     g \<leftarrow> get_long m buf;
     if i < length gids then get_gids m (buf + 4) (i + 1) n (gids[i := ucast g]) else None }"

text \<open>\<open>_svcauth_unix\<close>: \<open>cred\<close> is the block at \<open>oa_base\<close>, \<open>auth_len\<close> its length as the call gives it. \<open>XDR_INLINE\<close> asks for
  exactly the bytes of the stream and always succeeds. \<open>verf\<close> is
  \<open>xp_verf\<close> of the transport. \<open>str_len\<close> and \<open>gid_len\<close> are signed.\<close>

definition svcauth_unix :: "u8 list \<Rightarrow> u32 \<Rightarrow> area \<Rightarrow> opaque_auth \<Rightarrow> (auth_stat \<times> area \<times> opaque_auth) option" where
  "svcauth_unix cred auth_len aup verf = do {
     t \<leftarrow> get_long cred 0;
     str_len \<leftarrow> get_long cred 4;
     let aup = aup\<lparr>ar_time := t\<rparr>;
     if sint str_len > 255 then Some (AUTH_BADCRED, aup, verf)
     else if unat str_len > 256 \<or> 8 + unat str_len > length cred then None
     else do {
       let name = patch 0 (seg 8 (unat str_len) cred) (ar_machname aup);
       name \<leftarrow> store name (unat str_len) 0;
       let aup = aup\<lparr>ar_machname := name\<rparr>;
       let buf = 8 + unat (rndup str_len);
       u \<leftarrow> get_long cred buf;
       g \<leftarrow> get_long cred (buf + 4);
       gid_len \<leftarrow> get_long cred (buf + 8);
       let aup = aup\<lparr>ar_uid := ucast u, ar_gid := ucast g\<rparr>;
       if sint gid_len > 16 then Some (AUTH_BADCRED, aup, verf)
       else do {
         gids \<leftarrow> get_gids cred (buf + 12) 0 (nat (sint gid_len)) (ar_gids aup);
         let aup = aup\<lparr>ar_len := gid_len, ar_gids := gids\<rparr>;
         k \<leftarrow> i32 ((5 + sint gid_len) * 4);
         k \<leftarrow> i32 (k + sint (rndup str_len));
         if (word_of_int k :: u32) > auth_len then Some (AUTH_BADCRED, aup, verf)
         else Some (AUTH_OK, aup, verf\<lparr>oa_flavor := 0, oa_length := 0\<rparr>) } } }"

end
