(* ===== verification/Svc.thy ===== *)
theory Svc
  imports Rpc
begin

text \<open>
  The server of remote procedure calls: the services and their dispatcher (\<open>svc.c\<close>), its authenticators (\<open>svc_auth.c\<close>),
  the dispatch routine of the simple interface (\<open>svc_simple.c\<close>), datagram transports (\<open>svc_udp.c\<close>) and \<open>ffs\<close>.

  A transport is a handle \<open>'h\<close>; its operations, the \<open>struct xp_ops\<close> behind it, work on the world \<open>'w\<close> that holds all
  transports, the network and the static variables of \<open>svc.c\<close>. Dispatch routines, procedures and filters are addresses of
  functions, \<open>'d\<close>, \<open>'f\<close> and \<open>'p\<close>, with what these functions do as parameters. A reply is a local that is not
  initialized, given as an argument.
\<close>

section \<open>ffs\<close>

definition ffs :: "u32 \<Rightarrow> nat" where
  "ffs i =
     (let (plus, i) = (if i AND 0xffff = 0 then (16, signed_drop_bit 16 i) else (0, i));
          (plus, i) = (if i AND 0xff = 0 then (plus + 8, signed_drop_bit 8 i) else (plus, i));
          (plus, i) = (if i AND 0xf = 0 then (plus + 4, signed_drop_bit 4 i) else (plus, i)) in
      if i AND 1 \<noteq> 0 then plus + 1 else if i AND 2 \<noteq> 0 then plus + 2
      else if i AND 4 \<noteq> 0 then plus + 3 else if i AND 8 \<noteq> 0 then plus + 4 else 0)"

section \<open>Types\<close>

text \<open>\<open>ar_results\<close>: what is sent and the filter for it.\<close>

record ('v, 'p) results =
  rs_where :: 'v
  rs_proc :: 'p

definition xdr_results :: "('p \<Rightarrow> ('s, 'v) xdrproc) \<Rightarrow> ('s, ('v, 'p) results) xdrproc" where
  "xdr_results procs x_op r s = do {
     (ok, v, s') \<leftarrow> procs (rs_proc r) x_op (rs_where r) s;
     Some (ok, r\<lparr>rs_where := v\<rparr>, s') }"

type_synonym ('v, 'p) msg = "('v, 'p) results rpc_msg"

datatype xprt_stat = XPRT_DIED | XPRT_MOREREQS | XPRT_IDLE

record 'd svc_callout =
  sc_prog :: u32
  sc_vers :: u32
  sc_dispatch :: 'd

record 'h svc_req =
  rq_prog :: u32
  rq_vers :: u32
  rq_proc :: u32
  rq_cred :: opaque_auth
  rq_clntcred :: area
  rq_xprt :: 'h

record ('v, 'p, 'h, 'w) xp_ops =
  xp_recv :: "'h \<Rightarrow> ('v, 'p) msg \<Rightarrow> 'w \<Rightarrow> (bool \<times> ('v, 'p) msg \<times> 'w) option"
  xp_stat :: "'h \<Rightarrow> 'w \<Rightarrow> xprt_stat"
  xp_getargs :: "'h \<Rightarrow> 'p \<Rightarrow> 'v \<Rightarrow> 'w \<Rightarrow> (bool \<times> 'v \<times> 'w) option"
  xp_reply :: "'h \<Rightarrow> ('v, 'p) msg \<Rightarrow> 'w \<Rightarrow> (bool \<times> 'w) option"
  xp_freeargs :: "'h \<Rightarrow> 'p \<Rightarrow> 'v \<Rightarrow> 'w \<Rightarrow> (bool \<times> 'v \<times> 'w) option"
  xp_destroy :: "'h \<Rightarrow> 'w \<Rightarrow> 'w option"
  xp_verf :: "'h \<Rightarrow> 'w \<Rightarrow> opaque_auth"
  xp_set_verf :: "'h \<Rightarrow> opaque_auth \<Rightarrow> 'w \<Rightarrow> 'w"

section \<open>Transports and services\<close>

text \<open>\<open>xports\<close> and \<open>svc_fdset\<close>. \<open>fresh\<close> is what \<open>mem_alloc\<close> returns for the table, which is not cleared.\<close>

definition xprt_register :: "'h option list option \<Rightarrow> int \<Rightarrow> int \<Rightarrow> 'h \<Rightarrow> 'h option list option \<times> u32 list \<Rightarrow>
    ('h option list option \<times> u32 list) option" where
  "xprt_register fresh dtablesize sock xprt st =
     (let (xports, fdset) = st; xports = (if xports = None then fresh else xports); i = nat sock in
      if sock < dtablesize then
        (case xports of
           None \<Rightarrow> None
         | Some xs \<Rightarrow>
             if 0 \<le> sock \<and> i < length xs \<and> i div 32 < length fdset then
               Some (Some (xs[i := Some xprt]), fdset[i div 32 := fdset ! (i div 32) OR push_bit (i mod 32) 1])
             else None)
      else Some (xports, fdset))"

definition xprt_unregister :: "int \<Rightarrow> int \<Rightarrow> 'h \<Rightarrow> 'h option list option \<times> u32 list \<Rightarrow>
    ('h option list option \<times> u32 list) option" where
  "xprt_unregister dtablesize sock xprt st =
     (let (xports, fdset) = st; i = nat sock in
      if sock < dtablesize then
        (case xports of
           None \<Rightarrow> None
         | Some xs \<Rightarrow>
             if 0 \<le> sock \<and> i < length xs \<and> i div 32 < length fdset then
               if xs ! i = Some xprt then
                 Some (Some (xs[i := None]), fdset[i div 32 := fdset ! (i div 32) AND NOT (push_bit (i mod 32) 1)])
               else Some (xports, fdset)
             else None)
      else Some (xports, fdset))"

text \<open>The callout list is linked through \<open>sc_next\<close>; an element is named by its position in it.\<close>

fun svc_find_loop :: "'d svc_callout list \<Rightarrow> u32 \<Rightarrow> u32 \<Rightarrow> nat \<Rightarrow> nat option \<Rightarrow> nat option \<times> nat option" where
  "svc_find_loop [] prog vers i p = (None, p)"
| "svc_find_loop (s # ss) prog vers i p =
     (if sc_prog s = prog \<and> sc_vers s = vers then (Some i, p) else svc_find_loop ss prog vers (i + 1) (Some i))"

definition svc_find :: "'d svc_callout list \<Rightarrow> u32 \<Rightarrow> u32 \<Rightarrow> nat option \<times> nat option" where
  "svc_find svc_head prog vers = svc_find_loop svc_head prog vers 0 None"

text \<open>\<open>mem\<close>: whether memory can be allocated; \<open>pmap_set\<close> asks the port mapper.\<close>

definition svc_register :: "bool \<Rightarrow> (u32 \<Rightarrow> u32 \<Rightarrow> u32 \<Rightarrow> u16 \<Rightarrow> 'n \<Rightarrow> bool \<times> 'n) \<Rightarrow> u16 \<Rightarrow> u32 \<Rightarrow> u32 \<Rightarrow> 'd \<Rightarrow> u32 \<Rightarrow>
    'd svc_callout list \<Rightarrow> 'n \<Rightarrow> bool \<times> 'd svc_callout list \<times> 'n" where
  "svc_register mem pmap_set xp_port prog vers dispatch protocol svc_head n =
     (let pmap_it = (\<lambda>hd. if protocol \<noteq> 0 then (let (ok, n') = pmap_set prog vers protocol xp_port n in (ok, hd, n'))
            else (True, hd, n)) in
      case svc_find svc_head prog vers of
        (Some i, prev) \<Rightarrow> if sc_dispatch (svc_head ! i) = dispatch then pmap_it svc_head else (False, svc_head, n)
      | (None, prev) \<Rightarrow>
          if \<not> mem then (False, svc_head, n)
          else pmap_it (\<lparr>sc_prog = prog, sc_vers = vers, sc_dispatch = dispatch\<rparr> # svc_head))"

definition svc_unregister :: "(u32 \<Rightarrow> u32 \<Rightarrow> 'n \<Rightarrow> bool \<times> 'n) \<Rightarrow> u32 \<Rightarrow> u32 \<Rightarrow>
    'd svc_callout list \<Rightarrow> 'n \<Rightarrow> 'd svc_callout list \<times> 'n" where
  "svc_unregister pmap_unset prog vers svc_head n =
     (case svc_find svc_head prog vers of
        (None, prev) \<Rightarrow> (svc_head, n)
      | (Some s, prev) \<Rightarrow>
          (case prev of None \<Rightarrow> drop (s + 1) svc_head | Some p \<Rightarrow> take (p + 1) svc_head @ drop (s + 1) svc_head,
           snd (pmap_unset prog vers n)))"

section \<open>Replies\<close>

definition svc_sendreply :: "('v, 'p, 'h, 'w) xp_ops \<Rightarrow> ('v, 'p) msg \<Rightarrow> 'h \<Rightarrow> 'p \<Rightarrow> 'v \<Rightarrow> 'w \<Rightarrow> (bool \<times> 'w) option" where
  "svc_sendreply X rply xprt proc xdr_location w = xp_reply X xprt
     (rply\<lparr>rm_direction := REPLY, rp_stat := 0, rp_acpt := (rp_acpt rply)\<lparr>ar_verf := xp_verf X xprt w, ar_stat := 0,
        ar_where := \<lparr>rs_where = xdr_location, rs_proc = proc\<rparr>\<rparr>\<rparr>) w"

definition svcerr_noproc :: "('v, 'p, 'h, 'w) xp_ops \<Rightarrow> ('v, 'p) msg \<Rightarrow> 'h \<Rightarrow> 'w \<Rightarrow> (bool \<times> 'w) option" where
  "svcerr_noproc X rply xprt w = xp_reply X xprt (rply\<lparr>rm_direction := REPLY, rp_stat := 0,
     rp_acpt := (rp_acpt rply)\<lparr>ar_verf := xp_verf X xprt w, ar_stat := 3\<rparr>\<rparr>) w"

definition svcerr_decode :: "('v, 'p, 'h, 'w) xp_ops \<Rightarrow> ('v, 'p) msg \<Rightarrow> 'h \<Rightarrow> 'w \<Rightarrow> (bool \<times> 'w) option" where
  "svcerr_decode X rply xprt w = xp_reply X xprt (rply\<lparr>rm_direction := REPLY, rp_stat := 0,
     rp_acpt := (rp_acpt rply)\<lparr>ar_verf := xp_verf X xprt w, ar_stat := 4\<rparr>\<rparr>) w"

definition svcerr_systemerr :: "('v, 'p, 'h, 'w) xp_ops \<Rightarrow> ('v, 'p) msg \<Rightarrow> 'h \<Rightarrow> 'w \<Rightarrow> (bool \<times> 'w) option" where
  "svcerr_systemerr X rply xprt w = xp_reply X xprt (rply\<lparr>rm_direction := REPLY, rp_stat := 0,
     rp_acpt := (rp_acpt rply)\<lparr>ar_verf := xp_verf X xprt w, ar_stat := 5\<rparr>\<rparr>) w"

fun auth_number :: "auth_stat \<Rightarrow> u32" where
  "auth_number AUTH_OK = 0"
| "auth_number AUTH_BADCRED = 1"
| "auth_number AUTH_REJECTEDCRED = 2"
| "auth_number AUTH_BADVERF = 3"
| "auth_number AUTH_REJECTEDVERF = 4"
| "auth_number AUTH_TOOWEAK = 5"
| "auth_number AUTH_INVALIDRESP = 6"
| "auth_number AUTH_FAILED = 7"

definition svcerr_auth :: "('v, 'p, 'h, 'w) xp_ops \<Rightarrow> ('v, 'p) msg \<Rightarrow> 'h \<Rightarrow> auth_stat \<Rightarrow> 'w \<Rightarrow> (bool \<times> 'w) option" where
  "svcerr_auth X rply xprt why w = xp_reply X xprt (rply\<lparr>rm_direction := REPLY, rp_stat := 1,
     rp_rjct := (rp_rjct rply)\<lparr>rj_stat := 1, rj_why := auth_number why\<rparr>\<rparr>) w"

definition svcerr_weakauth :: "('v, 'p, 'h, 'w) xp_ops \<Rightarrow> ('v, 'p) msg \<Rightarrow> 'h \<Rightarrow> 'w \<Rightarrow> (bool \<times> 'w) option" where
  "svcerr_weakauth X rply xprt w = svcerr_auth X rply xprt AUTH_TOOWEAK w"

definition svcerr_noprog :: "('v, 'p, 'h, 'w) xp_ops \<Rightarrow> ('v, 'p) msg \<Rightarrow> 'h \<Rightarrow> 'w \<Rightarrow> (bool \<times> 'w) option" where
  "svcerr_noprog X rply xprt w = xp_reply X xprt (rply\<lparr>rm_direction := REPLY, rp_stat := 0,
     rp_acpt := (rp_acpt rply)\<lparr>ar_verf := xp_verf X xprt w, ar_stat := 1\<rparr>\<rparr>) w"

definition svcerr_progvers :: "('v, 'p, 'h, 'w) xp_ops \<Rightarrow> ('v, 'p) msg \<Rightarrow> 'h \<Rightarrow> u32 \<Rightarrow> u32 \<Rightarrow> 'w \<Rightarrow> (bool \<times> 'w) option" where
  "svcerr_progvers X rply xprt low_vers high_vers w = xp_reply X xprt (rply\<lparr>rm_direction := REPLY, rp_stat := 0,
     rp_acpt := (rp_acpt rply)\<lparr>ar_verf := xp_verf X xprt w, ar_stat := 2, ar_low := low_vers, ar_high := high_vers\<rparr>\<rparr>) w"

section \<open>Authentication\<close>

definition authenticate :: "('v, 'p, 'h, 'w) xp_ops \<Rightarrow> 'h svc_req \<Rightarrow> ('v, 'p) msg \<Rightarrow> 'w \<Rightarrow>
    (auth_stat \<times> 'h svc_req \<times> 'w) option" where
  "authenticate X rqst msg w =
     (let cred = cb_cred (rm_call msg); xprt = rq_xprt rqst; rqst = rqst\<lparr>rq_cred := cred\<rparr>;
          verf = (xp_verf X xprt w)\<lparr>oa_flavor := 0, oa_length := 0\<rparr>; w = xp_set_verf X xprt verf w;
          cred_flavor = sint (oa_flavor cred) in
      if cred_flavor \<le> 2 \<and> cred_flavor \<ge> 0 then
        if cred_flavor = 0 then Some (AUTH_OK, rqst, w)
        else if cred_flavor = 1 then do {
          (why, aup, verf) \<leftarrow> svcauth_unix (block (oa_base cred)) (oa_length cred) (rq_clntcred rqst) verf;
          Some (why, rqst\<lparr>rq_clntcred := aup\<rparr>, xp_set_verf X xprt verf w) }
        else Some (AUTH_REJECTEDCRED, rqst, w)
      else Some (AUTH_REJECTEDCRED, rqst, w))"

section \<open>The dispatcher\<close>

text \<open>The search for the service: its dispatch routine, or whether the program was found and its versions.\<close>

fun svc_scan :: "'d svc_callout list \<Rightarrow> u32 \<Rightarrow> u32 \<Rightarrow> bool \<Rightarrow> u32 \<Rightarrow> u32 \<Rightarrow> 'd + bool \<times> u32 \<times> u32" where
  "svc_scan [] prog vers prog_found low high = Inr (prog_found, low, high)"
| "svc_scan (s # ss) prog vers prog_found low high =
     (if sc_prog s = prog then
        if sc_vers s = vers then Inl (sc_dispatch s)
        else svc_scan ss prog vers True (if sc_vers s < low then sc_vers s else low) (if sc_vers s > high then sc_vers s else high)
      else svc_scan ss prog vers prog_found low high)"

text \<open>What \<open>svc.c\<close> keeps: \<open>svc_head\<close> and \<open>xports\<close>; the function a dispatch routine is, whose result says whether it has
  called \<open>exit\<close>; and the locals \<open>msg\<close>, \<open>r.rq_clntcred\<close> and the reply that is not initialized.\<close>

record ('v, 'p, 'h, 'w, 'd) server =
  sv_ops :: "('v, 'p, 'h, 'w) xp_ops"
  sv_head :: "'w \<Rightarrow> 'd svc_callout list"
  sv_xports :: "'w \<Rightarrow> 'h option list option"
  sv_dispatch :: "'d \<Rightarrow> 'h svc_req \<Rightarrow> 'w \<Rightarrow> (bool \<times> 'w) option"
  sv_rply :: "('v, 'p) msg"

text \<open>One message of a transport.\<close>

definition svc_message :: "('v, 'p, 'h, 'w, 'd) server \<Rightarrow> 'h \<Rightarrow> ('v, 'p) msg \<times> area \<Rightarrow> 'w \<Rightarrow>
    (bool \<times> (('v, 'p) msg \<times> area) \<times> 'w) option" where
  "svc_message S xprt l w = do {
     let X = sv_ops S;
     (ok, msg, w) \<leftarrow> xp_recv X xprt (fst l) w;
     if \<not> ok then Some (False, (msg, snd l), w)
     else do {
       let c = rm_call msg;
       let r = \<lparr>rq_prog = cb_prog c, rq_vers = cb_vers c, rq_proc = cb_proc c, rq_cred = cb_cred c, rq_clntcred = snd l, rq_xprt = xprt\<rparr>;
       (why, r, w) \<leftarrow> authenticate X r msg w;
       let l = (msg, rq_clntcred r);
       if why \<noteq> AUTH_OK then do {
         (ok, w) \<leftarrow> svcerr_auth X (sv_rply S) xprt why w;
         Some (False, l, w) }
       else
         (case svc_scan (sv_head S w) (rq_prog r) (rq_vers r) False (0 - 1) 0 of
            Inl d \<Rightarrow> do { (exited, w) \<leftarrow> sv_dispatch S d r w; Some (exited, l, w) }
          | Inr (prog_found, low, high) \<Rightarrow> do {
              (ok, w) \<leftarrow> (if prog_found then svcerr_progvers X (sv_rply S) xprt low high w
                else svcerr_noprog X (sv_rply S) xprt w);
              Some (False, l, w) }) } }"

text \<open>The messages of a transport, which may go on for ever.\<close>

partial_function (option) svc_serve :: "('v, 'p, 'h, 'w, 'd) server \<Rightarrow> 'h \<Rightarrow> ('v, 'p) msg \<times> area \<Rightarrow> 'w \<Rightarrow>
    (bool \<times> (('v, 'p) msg \<times> area) \<times> 'w) option" where
  "svc_serve S xprt l w = do {
     (exited, l, w) \<leftarrow> svc_message S xprt l w;
     if exited then Some (True, l, w)
     else (case xp_stat (sv_ops S) xprt w of
         XPRT_DIED \<Rightarrow> do { w \<leftarrow> xp_destroy (sv_ops S) xprt w; Some (False, l, w) }
       | XPRT_MOREREQS \<Rightarrow> svc_serve S xprt l w
       | XPRT_IDLE \<Rightarrow> Some (False, l, w)) }"

lemma and_mask_zero: "n \<le> 32 \<Longrightarrow> (i :: u32) AND mask n = 0 \<longleftrightarrow> (\<forall>k<n. \<not> bit i k)"
proof
  assume n: "n \<le> 32" and z: "i AND mask n = 0"
  show "\<forall>k<n. \<not> bit i k"
  proof (intro allI impI notI)
    fix k assume "k < n" "bit i k"
    then have "bit (i AND mask n) k" using n by (simp add: bit_simps)
    with z show False by simp
  qed
next
  assume "\<forall>k<n. \<not> bit i k"
  then show "i AND mask n = 0" by (intro bit_eqI) (auto simp: bit_simps)
qed

lemma and_zero_low: "(i :: u32) AND 0xffff = 0 \<longleftrightarrow> (\<forall>k<16. \<not> bit i k)" "(i :: u32) AND 0xff = 0 \<longleftrightarrow> (\<forall>k<8. \<not> bit i k)"
  "(i :: u32) AND 0xf = 0 \<longleftrightarrow> (\<forall>k<4. \<not> bit i k)"
  using and_mask_zero [of 16 i] and_mask_zero [of 8 i] and_mask_zero [of 4 i] by (simp_all add: mask_eq_exp_minus_1)

lemma and_one_bit: "(i :: u32) AND 1 \<noteq> 0 \<longleftrightarrow> bit i 0" "(i :: u32) AND 2 \<noteq> 0 \<longleftrightarrow> bit i 1"
  "(i :: u32) AND 4 \<noteq> 0 \<longleftrightarrow> bit i 2" "(i :: u32) AND 8 \<noteq> 0 \<longleftrightarrow> bit i 3"
proof -
  have a: "(i AND push_bit n 1 \<noteq> 0) \<longleftrightarrow> bit i n" if "n < 32" for n
  proof -
    have "i AND push_bit n 1 = (if bit i n then push_bit n 1 else 0)" by (rule bit_word_eqI) (auto simp: bit_simps)
    moreover have b: "bit (push_bit n 1 :: u32) n" using that by (simp add: bit_simps)
    have "(push_bit n 1 :: u32) \<noteq> 0"
    proof
      assume "(push_bit n 1 :: u32) = 0"
      from b [unfolded this] show False by simp
    qed
    ultimately show ?thesis by simp
  qed
  show "i AND 1 \<noteq> 0 \<longleftrightarrow> bit i 0" "i AND 2 \<noteq> 0 \<longleftrightarrow> bit i 1" "i AND 4 \<noteq> 0 \<longleftrightarrow> bit i 2" "i AND 8 \<noteq> 0 \<longleftrightarrow> bit i 3"
    using a [of 0] a [of 1] a [of 2] a [of 3] by (simp_all add: push_bit_eq_mult)
qed

text \<open>What the tests of \<open>ffs\<close> keep: \<open>i\<close> is the number from bit \<open>p\<close> on, below there is no bit, and one of the next \<open>n\<close> is set.\<close>

definition ffs_inv :: "u32 \<Rightarrow> nat \<Rightarrow> nat \<times> u32 \<Rightarrow> bool" where
  "ffs_inv w n pi \<longleftrightarrow> (\<forall>k. fst pi + k < 32 \<longrightarrow> bit (snd pi) k = bit w (fst pi + k)) \<and> (\<forall>k<fst pi. \<not> bit w k) \<and>
     (\<exists>k<n. bit (snd pi) k) \<and> fst pi + n \<le> 32"

lemma ffs_inv_step:
  assumes "ffs_inv w (n + n) (p, i)" "0 < n"
  shows "ffs_inv w n (if \<forall>k<n. \<not> bit i k then (p + n, signed_drop_bit n i) else (p, i))"
proof (cases "\<forall>k<n. \<not> bit i k")
  case True
  have a: "bit i k = bit w (p + k)" if "p + k < 32" for k using assms(1) that by (simp add: ffs_inv_def)
  have b: "\<not> bit w k" if "k < p" for k using assms(1) that by (simp add: ffs_inv_def)
  have c: "p + (n + n) \<le> 32" using assms(1) by (simp add: ffs_inv_def)
  obtain j where j: "j < n + n" "bit i j" using assms(1) by (auto simp: ffs_inv_def)
  have s: "bit (signed_drop_bit n i) k = bit i (n + k)" if "n + k < 32" for k
  proof -
    have "\<not> LENGTH(32) - n \<le> k" using that assms(2) by simp
    then show ?thesis unfolding bit_signed_drop_bit_iff by simp
  qed
  have "n \<le> j" using True j by (meson not_le)
  then have "bit (signed_drop_bit n i) (j - n)" "j - n < n" using s [of "j - n"] j c by simp_all
  moreover have "\<not> bit w k" if "k < p + n" for k
  proof (cases "k < p")
    case False
    then have "bit w k = bit i (k - p)" using a [of "k - p"] that c by simp
    then show ?thesis using True False that by auto
  qed (use b in simp)
  moreover have "bit (signed_drop_bit n i) k = bit w (p + n + k)" if "p + n + k < 32" for k
    using s [of k] a [of "n + k"] that by (simp add: add.assoc)
  ultimately show ?thesis using True c by (auto simp: ffs_inv_def)
next
  case False
  then show ?thesis using assms by (auto simp: ffs_inv_def)
qed

lemma ffs_0 [simp]: "ffs 0 = 0"
  by (simp add: ffs_def)

lemma ffs_lowest:
  assumes "w \<noteq> 0"
  shows "\<exists>k. ffs w = Suc k \<and> k < 32 \<and> bit w k \<and> (\<forall>j<k. \<not> bit w j)"
proof -
  obtain k where "bit w k" using assms by (auto simp: bit_eq_iff)
  then have "ffs_inv w (16 + 16) (0, w)" using bit_imp_le_length [of w k] by (auto simp: ffs_inv_def)
  from ffs_inv_step [OF this, unfolded add_0] obtain p1 i1 where
    1: "(if w AND 0xffff = 0 then (16, signed_drop_bit 16 w) else (0, w)) = (p1, i1)" "ffs_inv w (8 + 8) (p1, i1)"
    by (cases "if w AND 0xffff = 0 then (16 :: nat, signed_drop_bit 16 w) else (0, w)") (auto simp: and_zero_low)
  from ffs_inv_step [OF 1(2)] obtain p2 i2 where
    2: "(if i1 AND 0xff = 0 then (p1 + 8, signed_drop_bit 8 i1) else (p1, i1)) = (p2, i2)" "ffs_inv w (4 + 4) (p2, i2)"
    by (cases "if i1 AND 0xff = 0 then (p1 + 8, signed_drop_bit 8 i1) else (p1, i1)") (auto simp: and_zero_low)
  from ffs_inv_step [OF 2(2)] obtain p3 i3 where
    3: "(if i2 AND 0xf = 0 then (p2 + 4, signed_drop_bit 4 i2) else (p2, i2)) = (p3, i3)" "ffs_inv w 4 (p3, i3)"
    by (cases "if i2 AND 0xf = 0 then (p2 + 4, signed_drop_bit 4 i2) else (p2, i2)") (auto simp: and_zero_low)
  have f: "ffs w = (if bit i3 0 then p3 + 1 else if bit i3 1 then p3 + 2 else if bit i3 2 then p3 + 3 else if bit i3 3 then p3 + 4 else 0)"
    unfolding ffs_def Let_def 1(1) 2(1) 3(1) prod.case and_one_bit ..
  have a: "bit i3 k = bit w (p3 + k)" if "p3 + k < 32" for k using 3(2) that by (simp add: ffs_inv_def)
  have b: "\<not> bit w k" if "k < p3" for k using 3(2) that by (simp add: ffs_inv_def)
  have c: "p3 + 4 \<le> 32" using 3(2) by (simp add: ffs_inv_def)
  obtain m where m: "m < 4" "bit i3 m" using 3(2) by (auto simp: ffs_inv_def)
  define l where "l = (LEAST m. bit i3 m)"
  have l: "bit i3 l" "l \<le> m" "\<And>j. j < l \<Longrightarrow> \<not> bit i3 j" unfolding l_def using m by (auto intro: LeastI Least_le dest: not_less_Least)
  then have "l = 0 \<or> l = 1 \<or> l = 2 \<or> l = 3" using m by linarith
  then have "ffs w = Suc (p3 + l)" using l(1,3) unfolding f by (elim disjE) (simp_all add: numeral_eq_Suc)
  moreover have "\<not> bit w j" if "j < p3 + l" for j
    using b [of j] a [of "j - p3"] l(3) [of "j - p3"] that c l(2) m(1) by (cases "j < p3") auto
  ultimately show ?thesis using l(1,2) a [of l] c m(1) by auto
qed

lemma ffs_clears: "ffs m \<noteq> 0 \<Longrightarrow> card {k. k < 32 \<and> bit (m XOR push_bit (ffs m - Suc 0) 1) k} < card {k. k < 32 \<and> bit m k}"
proof -
  assume "ffs m \<noteq> 0"
  then have "m \<noteq> 0" by auto
  then obtain k where k: "ffs m = Suc k" "k < 32" "bit m k" using ffs_lowest by blast
  then have "{j. j < 32 \<and> bit (m XOR push_bit (ffs m - Suc 0) 1) j} = {j. j < 32 \<and> bit m j} - {k}"
    by (auto simp: bit_simps)
  moreover have "card ({j. j < 32 \<and> bit m j} - {k}) < card {j. j < 32 \<and> bit m j}"
    by (rule card_Diff1_less) (use k in auto)
  ultimately show ?thesis by (simp only:)
qed

text \<open>The transports of one word of the set.\<close>

function svc_bits :: "('v, 'p, 'h, 'w, 'd) server \<Rightarrow> nat \<Rightarrow> u32 \<Rightarrow> ('v, 'p) msg \<times> area \<Rightarrow> 'w \<Rightarrow>
    (bool \<times> (('v, 'p) msg \<times> area) \<times> 'w) option" where
  "svc_bits S sock msk l w =
     (let b = ffs msk in
      if b = 0 then Some (False, l, w)
      else
        (case sv_xports S w of
           None \<Rightarrow> None
         | Some xs \<Rightarrow>
             if sock + b - 1 < length xs then
               (case xs ! (sock + b - 1) of
                  None \<Rightarrow> None
                | Some xprt \<Rightarrow> do {
                    (exited, l, w) \<leftarrow> svc_serve S xprt l w;
                    if exited then Some (True, l, w)
                    else svc_bits S sock (msk XOR push_bit (b - 1) 1) l w })
             else None))"
  by pat_completeness auto
termination
  by (relation "measure (\<lambda>(S, sock, msk, l, w). card {k. k < 32 \<and> bit msk k})") (simp_all add: ffs_clears [simplified])

text \<open>The words of the set: \<open>setsize\<close> is what \<open>_rpc_dtablesize\<close> returns.\<close>

fun svc_words :: "('v, 'p, 'h, 'w, 'd) server \<Rightarrow> nat \<Rightarrow> nat \<Rightarrow> u32 list \<Rightarrow> ('v, 'p) msg \<times> area \<Rightarrow> 'w \<Rightarrow>
    (bool \<times> (('v, 'p) msg \<times> area) \<times> 'w) option" where
  "svc_words S setsize sock [] l w = (if sock < setsize then None else Some (False, l, w))"
| "svc_words S setsize sock (m # ms) l w =
     (if sock < setsize then do {
        (exited, l, w) \<leftarrow> svc_bits S sock m l w;
        if exited then Some (True, l, w) else svc_words S setsize (sock + 32) ms l w }
      else Some (False, l, w))"

text \<open>\<open>l\<close>: the locals \<open>msg\<close> and \<open>cred_area\<close> as they are on entry; the pointers to the credentials are set here.\<close>

definition svc_getreqset :: "('v, 'p, 'h, 'w, 'd) server \<Rightarrow> int \<Rightarrow> u8 list \<Rightarrow> u8 list \<Rightarrow> ('v, 'p) msg \<times> area \<Rightarrow> u32 list \<Rightarrow> 'w \<Rightarrow>
    (bool \<times> 'w) option" where
  "svc_getreqset S dtablesize cred_area verf_area l readfds w =
     (let msg = fst l; c = rm_call msg;
          msg = msg\<lparr>rm_call := c\<lparr>cb_cred := (cb_cred c)\<lparr>oa_base := Some cred_area\<rparr>, cb_verf := (cb_verf c)\<lparr>oa_base := Some verf_area\<rparr>\<rparr>\<rparr> in
      do { (exited, l, w) \<leftarrow> svc_words S (nat dtablesize) 0 readfds (msg, snd l) w; Some (exited, w) })"

definition svc_getreq :: "('v, 'p, 'h, 'w, 'd) server \<Rightarrow> int \<Rightarrow> u8 list \<Rightarrow> u8 list \<Rightarrow> ('v, 'p) msg \<times> area \<Rightarrow> u32 \<Rightarrow> 'w \<Rightarrow>
    (bool \<times> 'w) option" where
  "svc_getreq S dtablesize cred_area verf_area l rdfds w =
     svc_getreqset S dtablesize cred_area verf_area l ((replicate 32 0)[0 := rdfds]) w"

section \<open>The simple interface\<close>

record ('p, 'f) proglst =
  p_progname :: 'f
  p_prognum :: u32
  p_procnum :: u32
  p_inproc :: 'p
  p_outproc :: 'p

text \<open>The addresses of \<open>xdr_void\<close> and NULL, the cleared buffer for the arguments, and what a registered procedure does.\<close>

record ('v, 'p, 'f, 'w) simple =
  sm_void :: 'p
  sm_null :: 'v
  sm_clean :: 'v
  sm_proglst :: "'w \<Rightarrow> ('p, 'f) proglst list"
  sm_run :: "'f \<Rightarrow> 'v \<Rightarrow> 'w \<Rightarrow> ('v \<times> 'w) option"

fun find_proc :: "('p, 'f) proglst list \<Rightarrow> u32 \<Rightarrow> u32 \<Rightarrow> ('p, 'f) proglst option" where
  "find_proc [] prog proc = None"
| "find_proc (pl # pls) prog proc = (if p_prognum pl = prog \<and> p_procnum pl = proc then Some pl else find_proc pls prog proc)"

text \<open>The result says whether \<open>exit\<close> is called.\<close>

definition universal :: "('v, 'p, 'h, 'w) xp_ops \<Rightarrow> ('v, 'p, 'f, 'w) simple \<Rightarrow> ('v, 'p) msg \<Rightarrow> 'h svc_req \<Rightarrow> 'h \<Rightarrow> 'w \<Rightarrow> (bool \<times> 'w) option" where
  "universal X M rply rqstp xprt w =
     (if rq_proc rqstp = 0 then do {
        (ok, w) \<leftarrow> svc_sendreply X rply xprt (sm_void M) (sm_null M) w;
        Some (\<not> ok, w) }
      else
        (case find_proc (sm_proglst M w) (rq_prog rqstp) (rq_proc rqstp) of
           None \<Rightarrow> Some (True, w)
         | Some pl \<Rightarrow> do {
             (ok, xdrbuf, w) \<leftarrow> xp_getargs X xprt (p_inproc pl) (sm_clean M) w;
             if \<not> ok then do { (ok, w) \<leftarrow> svcerr_decode X rply xprt w; Some (False, w) }
             else do {
               (outdata, w) \<leftarrow> sm_run M (p_progname pl) xdrbuf w;
               if outdata = sm_null M \<and> p_outproc pl \<noteq> sm_void M then Some (False, w)
               else do {
                 (ok, w) \<leftarrow> svc_sendreply X rply xprt (p_outproc pl) outdata w;
                 if \<not> ok then Some (True, w)
                 else do { (ok, v, w) \<leftarrow> xp_freeargs X xprt (p_inproc pl) xdrbuf w; Some (False, w) } } } }))"

section \<open>Datagram transports\<close>

text \<open>The kernel's sockets: \<open>recvfrom\<close> on a socket for at most so many bytes returns the bytes and the sender, or whether it
  was interrupted; \<open>sendto\<close> returns how many bytes were sent.\<close>

record ('a, 'n) sock_ops =
  so_recvfrom :: "int \<Rightarrow> nat \<Rightarrow> 'n \<Rightarrow> (bool + u8 list \<times> 'a) \<times> 'n"
  so_sendto :: "int \<Rightarrow> u8 list \<Rightarrow> 'a \<Rightarrow> 'n \<Rightarrow> int \<times> 'n"

text \<open>A \<open>SVCXPRT\<close> with its \<open>struct svcudp_data\<close>; the stream's memory holds \<open>rpc_buffer\<close> at its base. The cache of replies
  cannot be enabled (\<open>svcudp_enablecache\<close> is static and has no caller), so that \<open>su_cache\<close> is always NULL.\<close>

record 'a svcudp =
  xp_sock :: int
  xp_raddr :: 'a
  ud_verf :: opaque_auth
  su_iosz :: u32
  su_xid :: u32
  su_op :: xdr_op
  su_xdrs :: xdrmem

record ('a, 'n, 'd, 'p, 'f) world =
  wd_xprts :: "'a svcudp list"
  wd_net :: 'n
  wd_head :: "'d svc_callout list"
  wd_xports :: "nat option list option"
  wd_proglst :: "('p, 'f) proglst list"

definition get_xprt :: "('a, 'n, 'd, 'p, 'f) world \<Rightarrow> nat \<Rightarrow> 'a svcudp option" where
  "get_xprt w h = (if h < length (wd_xprts w) then Some (wd_xprts w ! h) else None)"

definition set_xprt :: "nat \<Rightarrow> 'a svcudp \<Rightarrow> ('a, 'n, 'd, 'p, 'f) world \<Rightarrow> ('a, 'n, 'd, 'p, 'f) world" where
  "set_xprt h x w = w\<lparr>wd_xprts := (wd_xprts w)[h := x]\<rparr>"

partial_function (option) svcudp_recv :: "('a, 'n) sock_ops \<Rightarrow> (nat \<Rightarrow> u8 list option) \<Rightarrow> nat \<Rightarrow> ('v, 'p) msg \<Rightarrow>
    ('a, 'n, 'd, 'p, 'f) world \<Rightarrow> (bool \<times> ('v, 'p) msg \<times> ('a, 'n, 'd, 'p, 'f) world) option" where
  "svcudp_recv K alloc h msg w = do {
     x \<leftarrow> get_xprt w h;
     case so_recvfrom K (xp_sock x) (unat (su_iosz x)) (wd_net w) of
       (Inl intr, n) \<Rightarrow>
         if intr then svcudp_recv K alloc h msg (w\<lparr>wd_net := n\<rparr>) else Some (False, msg, w\<lparr>wd_net := n\<rparr>)
     | (Inr (data, raddr), n) \<Rightarrow>
         if length data \<le> unat (su_iosz x) \<and> x_base (su_xdrs x) + length data \<le> length (x_ram (su_xdrs x)) then
           (let xdrs = (su_xdrs x)\<lparr>x_ram := patch (x_base (su_xdrs x)) data (x_ram (su_xdrs x))\<rparr>;
                x = x\<lparr>xp_raddr := raddr, su_xdrs := xdrs\<rparr>; w = w\<lparr>wd_net := n\<rparr> in
            if length data < 16 then Some (False, msg, set_xprt h x w)
            else do {
              let xdrs = snd (xdrmem_setpos 0 xdrs);
              (ok, msg, xdrs) \<leftarrow> xdr_callmsg xdrmem_ops xdrmem_buf alloc XDR_DECODE msg xdrs;
              let x = x\<lparr>su_op := XDR_DECODE, su_xdrs := xdrs\<rparr>;
              if \<not> ok then Some (False, msg, set_xprt h x w)
              else Some (True, msg, set_xprt h (x\<lparr>su_xid := rm_xid msg\<rparr>) w) })
         else None }"

definition svcudp_stat :: "nat \<Rightarrow> ('a, 'n, 'd, 'p, 'f) world \<Rightarrow> xprt_stat" where
  "svcudp_stat h w = XPRT_IDLE"

definition svcudp_reply :: "('a, 'n) sock_ops \<Rightarrow> (nat \<Rightarrow> u8 list option) \<Rightarrow> ('p \<Rightarrow> (xdrmem, 'v) xdrproc) \<Rightarrow> nat \<Rightarrow> ('v, 'p) msg \<Rightarrow>
    ('a, 'n, 'd, 'p, 'f) world \<Rightarrow> (bool \<times> ('a, 'n, 'd, 'p, 'f) world) option" where
  "svcudp_reply K alloc procs h msg w = do {
     x \<leftarrow> get_xprt w h;
     let msg = msg\<lparr>rm_xid := su_xid x\<rparr>;
     (ok, msg, xdrs) \<leftarrow> xdr_replymsg xdrmem_ops alloc (xdr_results procs) XDR_ENCODE msg (snd (xdrmem_setpos 0 (su_xdrs x)));
     let w = set_xprt h (x\<lparr>su_op := XDR_ENCODE, su_xdrs := xdrs\<rparr>) w;
     if \<not> ok then Some (False, w)
     else do {
       let slen = xdrmem_getpos xdrs;
       if x_base xdrs + unat slen \<le> length (x_ram xdrs) then
         (let (r, n) = so_sendto K (xp_sock x) (seg (x_base xdrs) (unat slen) (x_ram xdrs)) (xp_raddr x) (wd_net w) in
          Some (r = sint slen, w\<lparr>wd_net := n\<rparr>))
       else None } }"

definition svcudp_args :: "('p \<Rightarrow> (xdrmem, 'v) xdrproc) \<Rightarrow> nat \<Rightarrow> xdr_op \<Rightarrow> 'p \<Rightarrow> 'v \<Rightarrow> ('a, 'n, 'd, 'p, 'f) world \<Rightarrow>
    (bool \<times> 'v \<times> ('a, 'n, 'd, 'p, 'f) world) option" where
  "svcudp_args procs h x_op xdr_args v w = do {
     x \<leftarrow> get_xprt w h;
     (ok, v, xdrs) \<leftarrow> procs xdr_args x_op v (su_xdrs x);
     Some (ok, v, set_xprt h (x\<lparr>su_op := x_op, su_xdrs := xdrs\<rparr>) w) }"

definition svcudp_getargs :: "('p \<Rightarrow> (xdrmem, 'v) xdrproc) \<Rightarrow> nat \<Rightarrow> 'p \<Rightarrow> 'v \<Rightarrow> ('a, 'n, 'd, 'p, 'f) world \<Rightarrow>
    (bool \<times> 'v \<times> ('a, 'n, 'd, 'p, 'f) world) option" where
  "svcudp_getargs procs h xdr_args v w = do { x \<leftarrow> get_xprt w h; svcudp_args procs h (su_op x) xdr_args v w }"

definition svcudp_freeargs :: "('p \<Rightarrow> (xdrmem, 'v) xdrproc) \<Rightarrow> nat \<Rightarrow> 'p \<Rightarrow> 'v \<Rightarrow> ('a, 'n, 'd, 'p, 'f) world \<Rightarrow>
    (bool \<times> 'v \<times> ('a, 'n, 'd, 'p, 'f) world) option" where
  "svcudp_freeargs procs h xdr_args v w = svcudp_args procs h XDR_FREE xdr_args v w"

text \<open>Operations of a datagram transport. \<open>SVC_DESTROY\<close> is never reached, since \<open>svcudp_stat\<close> reports no death.\<close>

definition svcudp_op :: "('a, 'n) sock_ops \<Rightarrow> (nat \<Rightarrow> u8 list option) \<Rightarrow> ('p \<Rightarrow> (xdrmem, 'v) xdrproc) \<Rightarrow>
    ('v, 'p, nat, ('a, 'n, 'd, 'p, 'f) world) xp_ops" where
  "svcudp_op K alloc procs = \<lparr>xp_recv = svcudp_recv K alloc, xp_stat = svcudp_stat, xp_getargs = svcudp_getargs procs,
     xp_reply = svcudp_reply K alloc procs, xp_freeargs = svcudp_freeargs procs, xp_destroy = (\<lambda>h w. None),
     xp_verf = (\<lambda>h w. ud_verf (wd_xprts w ! h)),
     xp_set_verf = (\<lambda>h v w. w\<lparr>wd_xprts := (wd_xprts w)[h := (wd_xprts w ! h)\<lparr>ud_verf := v\<rparr>]\<rparr>)\<rparr>"

text \<open>A server whose services are dispatched by \<open>universal\<close>.\<close>

definition simple_server :: "('a, 'n) sock_ops \<Rightarrow> (nat \<Rightarrow> u8 list option) \<Rightarrow> ('p \<Rightarrow> (xdrmem, 'v) xdrproc) \<Rightarrow>
    ('v, 'p, 'f, ('a, 'n, unit, 'p, 'f) world) simple \<Rightarrow> ('v, 'p) msg \<Rightarrow> ('v, 'p, nat, ('a, 'n, unit, 'p, 'f) world, unit) server" where
  "simple_server K alloc procs M rply = \<lparr>sv_ops = svcudp_op K alloc procs, sv_head = wd_head, sv_xports = wd_xports,
     sv_dispatch = (\<lambda>d r w. universal (svcudp_op K alloc procs) M rply r (rq_xprt r) w), sv_rply = rply\<rparr>"

end
