(* ===== verification/Rpc_Correct.thy ===== *)
theory Rpc_Correct
  imports Rpc
begin

text \<open>
  What the filters of \<open>Rpc\<close> transfer, from the contract of a stream: replies and UNIX credentials between any two ends,
  calls through the buffer of a memory stream, and what the server makes of credentials from the network.
\<close>

section \<open>Chains of filters\<close>

context xdr_stream
begin

lemma emits_cong: "(\<And>s. f XDR_ENCODE v s = g XDR_ENCODE v s) \<Longrightarrow> emits V g v bs \<Longrightarrow> emits V f v bs"
  by (simp add: emits_def)

lemma yields_cong: "(\<And>s. f XDR_DECODE v0 s = g XDR_DECODE v0 s) \<Longrightarrow> yields V g v0 v bs \<Longrightarrow> yields V f v0 v bs"
  by (simp add: yields_def)

lemma all_emits_Nil: "emits V (xdr_all []) v []"
  by (auto simp: emits_def fits_0)

lemma all_emits_Cons: "emits V f v as \<Longrightarrow> emits V (xdr_all fs) v bs \<Longrightarrow> emits V (xdr_all (f # fs)) v (as @ bs)"
  by (rule emits_seq [where mk = "\<lambda>v. v" and F = "\<lambda>v. v" and K = "\<lambda>a s1. xdr_all fs XDR_ENCODE a s1"])
    (auto simp: fits_add)

lemma all_yields_Nil: "yields V (xdr_all []) v v []"
  by (auto simp: yields_def)

lemma all_yields_Cons:
  "yields V f v0 v1 as \<Longrightarrow> yields V (xdr_all fs) v1 v bs \<Longrightarrow> yields V (xdr_all (f # fs)) v0 v (as @ bs)"
  by (rule yields_seq [where mk = "\<lambda>v. v" and F = "\<lambda>v. v" and K = "\<lambda>a s1. xdr_all fs XDR_DECODE a s1"]) auto

lemma on_emits:
  assumes "emits V f a bs" "get v = a" "put a v = v"
  shows "emits V (on get put f) v bs"
  unfolding emits_def
proof (intro allI impI)
  fix s assume "wok V s"
  with assms(1) have "if fits V s (length bs) then
        \<exists>s'. f XDR_ENCODE a s = Some (True, a, s') \<and> wok V s' \<and> written V s' = written V s @ bs \<and>
          (\<forall>n. fits V s' n \<longleftrightarrow> fits V s (length bs + n))
      else \<exists>v' s'. f XDR_ENCODE a s = Some (False, v', s')" unfolding emits_def by blast
  then show "if fits V s (length bs) then
        \<exists>s'. on get put f XDR_ENCODE v s = Some (True, v, s') \<and> wok V s' \<and> written V s' = written V s @ bs \<and>
          (\<forall>n. fits V s' n \<longleftrightarrow> fits V s (length bs + n))
      else \<exists>v' s'. on get put f XDR_ENCODE v s = Some (False, v', s')"
    using assms(2,3) by (auto simp: on_def split: if_splits)
qed

lemma on_yields:
  assumes "yields V f a0 a bs" "get v0 = a0" "put a v0 = v1"
  shows "yields V (on get put f) v0 v1 bs"
  using assms unfolding yields_def by (fastforce simp: on_def)

lemma holds_emits: "p v \<Longrightarrow> emits V (holds p) v []"
  by (auto simp: emits_def holds_def fits_0)

lemma holds_yields: "p v \<Longrightarrow> yields V (holds p) v v []"
  by (auto simp: yields_def holds_def)

lemma number_u_long: "number (xdr_u_long ops) id id"
  by (auto simp: number_def xdr_u_long_def split: option.split intro!: Option.bind_cong)

lemmas emits_u_long = number_emits [OF number_u_long, unfolded id_apply]
  and yields_u_long = number_yields [OF number_u_long, unfolded id_apply]
  and emits_int = number_emits [OF number_int, unfolded id_apply]
  and yields_int = number_yields [OF number_int, unfolded id_apply]

lemma bytes_yields_0: "yields V (xdr_bytes ops alloc maxsize) (sp, n0) (sp, 0) (be32 0)"
proof -
  have "yields V (xdr_bytes ops alloc maxsize) (sp, n0) (sp, 0) (be32 0 @ [])"
    by (rule yields_seq [OF yields_u_int [of n0 0] all_yields_Nil, where mk = "\<lambda>b. b" and F = "\<lambda>a. (sp, a)" and
          K = "\<lambda>a s1. if a > maxsize then Some (False, (sp, a), s1) else if a = 0 then Some (True, (sp, a), s1)
            else (case sure_block alloc a sp of None \<Rightarrow> Some (False, (None, a), s1)
              | Some buf \<Rightarrow> do { (ok, b', s2) \<leftarrow> xdr_opaque ops a XDR_DECODE buf s1; Some (ok, (Some b', a), s2) })"])
      (auto simp: xdr_bytes_def not_less split: Option.bind_split)
  then show ?thesis by simp
qed

end

section \<open>Authentication data\<close>

definition auth_ok :: "opaque_auth \<Rightarrow> bool" where
  "auth_ok a \<longleftrightarrow> oa_length a \<le> 400 \<and> unat (oa_length a) \<le> length (block (oa_base a))"

definition auth_data :: "opaque_auth \<Rightarrow> u8 list" where
  "auth_data a = take (unat (oa_length a)) (block (oa_base a))"

definition auth_bytes :: "opaque_auth \<Rightarrow> u8 list" where
  "auth_bytes a = be32 (oa_flavor a) @ be32 (oa_length a) @ padded (auth_data a)"

definition same_auth :: "opaque_auth \<Rightarrow> opaque_auth \<Rightarrow> bool" where
  "same_auth a b \<longleftrightarrow> oa_flavor a = oa_flavor b \<and> oa_length a = oa_length b \<and> auth_data a = auth_data b"

text \<open>An allocator that does not fail for the sizes of authentication data.\<close>

definition allocates :: "(nat \<Rightarrow> u8 list option) \<Rightarrow> bool" where
  "allocates alloc \<longleftrightarrow> (\<forall>n \<le> 400. \<exists>b. alloc n = Some b \<and> length b = n)"

lemma length_auth_data: "auth_ok a \<Longrightarrow> length (auth_data a) = unat (oa_length a)"
  by (simp add: auth_ok_def auth_data_def)

lemma sure_allocates:
  assumes "allocates alloc" "n \<le> 400"
  obtains b where "sure_block alloc n None = Some b" "length b = unat n"
proof -
  have "unat n \<le> 400" using assms(2) by (simp add: word_le_nat_alt)
  with assms(1) that show thesis by (auto simp: allocates_def sure_block_def)
qed

context xdr_stream
begin

lemma auth_emits: "auth_ok a \<Longrightarrow> emits V (xdr_opaque_auth ops alloc) a (auth_bytes a)"
  unfolding xdr_opaque_auth_def auth_bytes_def auth_data_def
  by (rule all_emits_Cons [OF on_emits [OF emits_enum] all_emits_Cons [OF on_emits [OF bytes_emits] all_emits_Nil], unfolded append_Nil2])
    (auto simp: auth_ok_def)

lemma auth_yields:
  assumes "auth_ok a" "allocates alloc" "oa_base a0 = None"
  shows "\<exists>a'. yields V (xdr_opaque_auth ops alloc) a0 a' (auth_bytes a) \<and> same_auth a' a"
proof -
  let ?n = "oa_length a" and ?d = "auth_data a"
  obtain b where b: "sure_block alloc ?n None = Some b" "length b = unat ?n"
    by (rule sure_allocates [OF assms(2), of ?n]) (use assms(1) in \<open>simp add: auth_ok_def\<close>)
  have d: "length ?d = unat ?n" by (rule length_auth_data [OF assms(1)])
  obtain sp where sp: "yields V (xdr_bytes ops alloc 400) (None, oa_length a0) (sp, ?n) (be32 ?n @ padded ?d)"
    "take (unat ?n) (block sp) = ?d"
  proof (cases "?n = 0")
    case True
    then have "?d = []" using d by simp
    with that [of None] bytes_yields_0 True show thesis by (simp add: padded_def pad_def block_def)
  next
    case False
    have "yields V (xdr_bytes ops alloc 400) (None, oa_length a0) (Some (?d @ drop (length ?d) b), ?n) (be32 ?n @ padded ?d)"
      by (rule bytes_yields) (use assms(1) False b d in \<open>auto simp: auth_ok_def\<close>)
    with that d show thesis by (simp add: block_def)
  qed
  let ?a1 = "a0\<lparr>oa_flavor := oa_flavor a\<rparr>"
  let ?a' = "?a1\<lparr>oa_base := sp, oa_length := ?n\<rparr>"
  have 1: "yields V (on oa_flavor (\<lambda>x a. a\<lparr>oa_flavor := x\<rparr>) (xdr_enum ops)) a0 ?a1 (be32 (oa_flavor a))"
    by (rule on_yields [OF yields_enum]) auto
  have 2: "yields V (on (\<lambda>a. (oa_base a, oa_length a)) (\<lambda>(b, n) a. a\<lparr>oa_base := b, oa_length := n\<rparr>)
      (xdr_bytes ops alloc 400)) ?a1 ?a' (be32 ?n @ padded ?d)"
    by (rule on_yields [OF sp(1)]) (use assms(3) in auto)
  have "yields V (xdr_opaque_auth ops alloc) a0 ?a' (auth_bytes a)"
    unfolding xdr_opaque_auth_def auth_bytes_def
    using all_yields_Cons [OF 1 all_yields_Cons [OF 2 all_yields_Nil]] by simp
  moreover have "same_auth ?a' a" using sp(2) by (simp add: same_auth_def auth_data_def)
  ultimately show ?thesis by blast
qed

end

section \<open>Replies\<close>

text \<open>The bytes of a reply, where \<open>rb\<close> are the bytes of the results.\<close>

definition acpt_bytes :: "'r accepted_reply \<Rightarrow> u8 list \<Rightarrow> u8 list" where
  "acpt_bytes a rb = auth_bytes (ar_verf a) @ be32 (ar_stat a) @
     (if ar_stat a = 0 then rb else if ar_stat a = 2 then be32 (ar_low a) @ be32 (ar_high a) else [])"

definition rjct_bytes :: "rejected_reply \<Rightarrow> u8 list" where
  "rjct_bytes r = be32 (rj_stat r) @ (if rj_stat r = 0 then be32 (rj_low r) @ be32 (rj_high r) else be32 (rj_why r))"

definition reply_bytes :: "'r rpc_msg \<Rightarrow> u8 list \<Rightarrow> u8 list" where
  "reply_bytes m rb = be32 (rm_xid m) @ be32 1 @ be32 (rp_stat m) @
     (if rp_stat m = 0 then acpt_bytes (rp_acpt m) rb else rjct_bytes (rp_rjct m))"

definition reply_ok :: "'r rpc_msg \<Rightarrow> bool" where
  "reply_ok m \<longleftrightarrow> rm_direction m = 1 \<and>
     (rp_stat m = 0 \<and> auth_ok (ar_verf (rp_acpt m)) \<or> rp_stat m = 1 \<and> (rj_stat (rp_rjct m) = 0 \<or> rj_stat (rp_rjct m) = 1))"

text \<open>Two accepted replies, and two replies, that say the same.\<close>

definition same_acpt :: "'r accepted_reply \<Rightarrow> 'r accepted_reply \<Rightarrow> bool" where
  "same_acpt a b \<longleftrightarrow> same_auth (ar_verf a) (ar_verf b) \<and> ar_stat a = ar_stat b \<and> (ar_stat b = 0 \<longrightarrow> ar_where a = ar_where b) \<and>
     (ar_stat b = 2 \<longrightarrow> ar_low a = ar_low b \<and> ar_high a = ar_high b)"

definition same_rjct :: "rejected_reply \<Rightarrow> rejected_reply \<Rightarrow> bool" where
  "same_rjct a b \<longleftrightarrow> rj_stat a = rj_stat b \<and> (rj_stat b = 0 \<longrightarrow> rj_low a = rj_low b \<and> rj_high a = rj_high b) \<and>
     (rj_stat b = 1 \<longrightarrow> rj_why a = rj_why b)"

definition same_reply :: "'r rpc_msg \<Rightarrow> 'r rpc_msg \<Rightarrow> bool" where
  "same_reply a b \<longleftrightarrow> rm_xid a = rm_xid b \<and> rm_direction a = rm_direction b \<and> rp_stat a = rp_stat b \<and>
     (rp_stat b = 0 \<longrightarrow> same_acpt (rp_acpt a) (rp_acpt b)) \<and> (rp_stat b = 1 \<longrightarrow> same_rjct (rp_rjct a) (rp_rjct b))"

context xdr_stream
begin

lemma acpt_emits:
  assumes "auth_ok (ar_verf a)" "ar_stat a = 0 \<Longrightarrow> emits V proc (ar_where a) rb"
  shows "emits V (xdr_accepted_reply ops alloc proc) a (acpt_bytes a rb)"
proof -
  let ?ow = "on ar_where (\<lambda>x a. a\<lparr>ar_where := x\<rparr>) proc"
    and ?lh = "xdr_all [on ar_low (\<lambda>x a. a\<lparr>ar_low := x\<rparr>) (xdr_u_long ops), on ar_high (\<lambda>x a. a\<lparr>ar_high := x\<rparr>) (xdr_u_long ops)]"
  have lh: "emits V ?lh a (be32 (ar_low a) @ be32 (ar_high a))"
    by (rule all_emits_Cons [OF on_emits [OF emits_u_long] all_emits_Cons [OF on_emits [OF emits_u_long] all_emits_Nil],
        unfolded append_Nil2]) simp_all
  have b: "emits V (\<lambda>x_op ar s. if ar_stat ar = 0 then ?ow x_op ar s else if ar_stat ar = 2 then ?lh x_op ar s else Some (True, ar, s)) a
      (if ar_stat a = 0 then rb else if ar_stat a = 2 then be32 (ar_low a) @ be32 (ar_high a) else [])"
  proof (cases "ar_stat a = 0")
    case True
    have "emits V ?ow a rb" by (rule on_emits [OF assms(2)]) (use True in auto)
    then have "emits V (\<lambda>x_op ar s. if ar_stat ar = 0 then ?ow x_op ar s else if ar_stat ar = 2 then ?lh x_op ar s else Some (True, ar, s)) a rb"
      by (rule emits_cong [rotated]) (use True in simp)
    with True show ?thesis by simp
  next
    case False
    show ?thesis
    proof (cases "ar_stat a = 2")
      case True
      from lh have "emits V (\<lambda>x_op ar s. if ar_stat ar = 0 then ?ow x_op ar s else if ar_stat ar = 2 then ?lh x_op ar s else Some (True, ar, s)) a
          (be32 (ar_low a) @ be32 (ar_high a))"
        by (rule emits_cong [rotated]) (use True in simp)
      with True show ?thesis by simp
    next
      case no: False
      with False show ?thesis by (auto simp: emits_def fits_0)
    qed
  qed
  show ?thesis unfolding xdr_accepted_reply_def acpt_bytes_def
    by (rule all_emits_Cons [OF on_emits [OF auth_emits [OF assms(1)]] all_emits_Cons [OF on_emits [OF emits_enum]
          all_emits_Cons [OF b all_emits_Nil]], unfolded append_Nil2]) simp_all
qed

lemma rjct_emits:
  assumes "rj_stat r = 0 \<or> rj_stat r = 1"
  shows "emits V (xdr_rejected_reply ops) r (rjct_bytes r)"
proof -
  let ?why = "on rj_why (\<lambda>x a. a\<lparr>rj_why := x\<rparr>) (xdr_enum ops)"
    and ?lh = "xdr_all [on rj_low (\<lambda>x a. a\<lparr>rj_low := x\<rparr>) (xdr_u_long ops), on rj_high (\<lambda>x a. a\<lparr>rj_high := x\<rparr>) (xdr_u_long ops)]"
  have lh: "emits V ?lh r (be32 (rj_low r) @ be32 (rj_high r))"
    by (rule all_emits_Cons [OF on_emits [OF emits_u_long] all_emits_Cons [OF on_emits [OF emits_u_long] all_emits_Nil],
        unfolded append_Nil2]) simp_all
  have w: "emits V ?why r (be32 (rj_why r))" by (rule on_emits [OF emits_enum]) simp_all
  let ?b = "\<lambda>x_op rr s. if rj_stat rr = 0 then ?lh x_op rr s else if rj_stat rr = 1 then ?why x_op rr s else Some (False, rr, s)"
  have b: "emits V ?b r (if rj_stat r = 0 then be32 (rj_low r) @ be32 (rj_high r) else be32 (rj_why r))"
  proof (cases "rj_stat r = 0")
    case True
    from lh have "emits V ?b r (be32 (rj_low r) @ be32 (rj_high r))" by (rule emits_cong [rotated]) (use True in simp)
    with True show ?thesis by simp
  next
    case False
    from w have "emits V ?b r (be32 (rj_why r))" by (rule emits_cong [rotated]) (use False assms in simp)
    with False show ?thesis by simp
  qed
  show ?thesis unfolding xdr_rejected_reply_def rjct_bytes_def
    by (rule all_emits_Cons [OF on_emits [OF emits_enum] all_emits_Cons [OF b all_emits_Nil], unfolded append_Nil2]) simp_all
qed

lemma reply_emits:
  assumes "reply_ok m" "rp_stat m = 0 \<and> ar_stat (rp_acpt m) = 0 \<Longrightarrow> emits V proc (ar_where (rp_acpt m)) rb"
  shows "emits V (xdr_replymsg ops alloc proc) m (reply_bytes m rb)"
proof -
  let ?body = "if rp_stat m = 0 then acpt_bytes (rp_acpt m) rb else rjct_bytes (rp_rjct m)"
  let ?u = "(rp_acpt m, rp_rjct m)"
  have u: "emits V (xdr_union ops (reply_dscrm ops alloc proc) None) (rp_stat m, ?u) (be32 (rp_stat m) @ ?body)"
  proof (cases "rp_stat m = 0")
    case True
    have "emits V (xdr_accepted_reply ops alloc proc) (rp_acpt m) (acpt_bytes (rp_acpt m) rb)"
      by (rule acpt_emits) (use assms True in \<open>auto simp: reply_ok_def\<close>)
    then show ?thesis
      by (intro union_emits [where prc = "on fst (\<lambda>x (a, r). (x, r)) (xdr_accepted_reply ops alloc proc)"])
        (auto simp: True arm_def reply_dscrm_def intro!: on_emits)
  next
    case False
    then have "rp_stat m = 1" using assms(1) by (auto simp: reply_ok_def)
    then show ?thesis
      by (intro union_emits [where prc = "on snd (\<lambda>x (a, r). (a, x)) (xdr_rejected_reply ops)"])
        (use assms(1) in \<open>auto simp: arm_def reply_dscrm_def reply_ok_def intro!: on_emits [OF rjct_emits]\<close>)
  qed
  have d: "rm_direction m = 1" using assms(1) by (simp add: reply_ok_def)
  have "emits V (xdr_replymsg ops alloc proc) m (be32 (rm_xid m) @ be32 (rm_direction m) @ [] @ (be32 (rp_stat m) @ ?body) @ [])"
    unfolding xdr_replymsg_def
    by (rule all_emits_Cons [OF on_emits [OF emits_u_long] all_emits_Cons [OF on_emits [OF emits_enum]
          all_emits_Cons [OF holds_emits all_emits_Cons [OF on_emits [OF u] all_emits_Nil]]]]) (simp_all add: d)
  then show ?thesis unfolding reply_bytes_def by (simp add: d)
qed

lemma acpt_yields:
  assumes "auth_ok (ar_verf a)" "allocates alloc" "oa_base (ar_verf a0) = None"
    and "ar_stat a = 0 \<Longrightarrow> yields V proc (ar_where a0) (ar_where a) rb"
  shows "\<exists>a'. yields V (xdr_accepted_reply ops alloc proc) a0 a' (acpt_bytes a rb) \<and> same_acpt a' a"
proof -
  obtain v where v: "yields V (xdr_opaque_auth ops alloc) (ar_verf a0) v (auth_bytes (ar_verf a))" "same_auth v (ar_verf a)"
    using auth_yields [OF assms(1,2,3)] by blast
  let ?a1 = "a0\<lparr>ar_verf := v\<rparr>" and ?a2 = "a0\<lparr>ar_verf := v, ar_stat := ar_stat a\<rparr>"
  let ?ow = "on ar_where (\<lambda>x a. a\<lparr>ar_where := x\<rparr>) proc"
    and ?lh = "xdr_all [on ar_low (\<lambda>x a. a\<lparr>ar_low := x\<rparr>) (xdr_u_long ops), on ar_high (\<lambda>x a. a\<lparr>ar_high := x\<rparr>) (xdr_u_long ops)]"
  let ?b = "\<lambda>x_op ar s. if ar_stat ar = 0 then ?ow x_op ar s else if ar_stat ar = 2 then ?lh x_op ar s else Some (True, ar, s)"
  have lh: "yields V ?lh ?a2 (?a2\<lparr>ar_low := ar_low a, ar_high := ar_high a\<rparr>) (be32 (ar_low a) @ be32 (ar_high a))"
    by (rule all_yields_Cons [OF on_yields [OF yields_u_long _ refl] all_yields_Cons [OF on_yields [OF yields_u_long] all_yields_Nil],
        unfolded append_Nil2]) simp_all
  obtain a' where b: "yields V ?b ?a2 a' (if ar_stat a = 0 then rb else if ar_stat a = 2 then be32 (ar_low a) @ be32 (ar_high a) else [])"
    "same_acpt a' a"
  proof (cases "ar_stat a = 0")
    case True
    have "yields V ?ow ?a2 (?a2\<lparr>ar_where := ar_where a\<rparr>) rb" by (rule on_yields [OF assms(4)]) (use True in auto)
    then have "yields V ?b ?a2 (?a2\<lparr>ar_where := ar_where a\<rparr>) rb" by (rule yields_cong [rotated]) (use True in simp)
    with that True v(2) show thesis by (simp add: same_acpt_def)
  next
    case False
    show thesis
    proof (cases "ar_stat a = 2")
      case True
      have "yields V ?b ?a2 (?a2\<lparr>ar_low := ar_low a, ar_high := ar_high a\<rparr>) (be32 (ar_low a) @ be32 (ar_high a))"
        by (rule yields_cong [OF _ lh]) (use True in simp)
      with that True v(2) show thesis by (simp add: same_acpt_def)
    next
      case no: False
      have "yields V ?b ?a2 ?a2 []" using False no by (auto simp: yields_def)
      with that False no v(2) show thesis by (simp add: same_acpt_def)
    qed
  qed
  have "yields V (xdr_accepted_reply ops alloc proc) a0 a' (acpt_bytes a rb)"
    unfolding xdr_accepted_reply_def acpt_bytes_def
    by (rule all_yields_Cons [OF on_yields [OF v(1) _ refl] all_yields_Cons [OF on_yields [OF yields_enum]
          all_yields_Cons [OF b(1) all_yields_Nil]], unfolded append_Nil2]) simp_all
  with b(2) show ?thesis by blast
qed

lemma rjct_yields:
  assumes "rj_stat r = 0 \<or> rj_stat r = 1"
  shows "\<exists>r'. yields V (xdr_rejected_reply ops) r0 r' (rjct_bytes r) \<and> same_rjct r' r"
proof -
  let ?why = "on rj_why (\<lambda>x a. a\<lparr>rj_why := x\<rparr>) (xdr_enum ops)"
    and ?lh = "xdr_all [on rj_low (\<lambda>x a. a\<lparr>rj_low := x\<rparr>) (xdr_u_long ops), on rj_high (\<lambda>x a. a\<lparr>rj_high := x\<rparr>) (xdr_u_long ops)]"
  let ?r1 = "r0\<lparr>rj_stat := rj_stat r\<rparr>"
  let ?b = "\<lambda>x_op rr s. if rj_stat rr = 0 then ?lh x_op rr s else if rj_stat rr = 1 then ?why x_op rr s else Some (False, rr, s)"
  have lh: "yields V ?lh ?r1 (?r1\<lparr>rj_low := rj_low r, rj_high := rj_high r\<rparr>) (be32 (rj_low r) @ be32 (rj_high r))"
    by (rule all_yields_Cons [OF on_yields [OF yields_u_long _ refl] all_yields_Cons [OF on_yields [OF yields_u_long] all_yields_Nil],
        unfolded append_Nil2]) simp_all
  have w: "yields V ?why ?r1 (?r1\<lparr>rj_why := rj_why r\<rparr>) (be32 (rj_why r))" by (rule on_yields [OF yields_enum]) simp_all
  obtain r' where b: "yields V ?b ?r1 r' (if rj_stat r = 0 then be32 (rj_low r) @ be32 (rj_high r) else be32 (rj_why r))"
    "same_rjct r' r"
  proof (cases "rj_stat r = 0")
    case True
    have "yields V ?b ?r1 (?r1\<lparr>rj_low := rj_low r, rj_high := rj_high r\<rparr>) (be32 (rj_low r) @ be32 (rj_high r))"
      by (rule yields_cong [OF _ lh]) (use True in simp)
    with that True show thesis by (simp add: same_rjct_def)
  next
    case False
    have "yields V ?b ?r1 (?r1\<lparr>rj_why := rj_why r\<rparr>) (be32 (rj_why r))"
      by (rule yields_cong [OF _ w]) (use False assms in simp)
    with that False assms show thesis by (simp add: same_rjct_def)
  qed
  have "yields V (xdr_rejected_reply ops) r0 r' (rjct_bytes r)"
    unfolding xdr_rejected_reply_def rjct_bytes_def
    by (rule all_yields_Cons [OF on_yields [OF yields_enum] all_yields_Cons [OF b(1) all_yields_Nil], unfolded append_Nil2]) simp_all
  with b(2) show ?thesis by blast
qed

lemma reply_yields:
  assumes "reply_ok m" "allocates alloc" "oa_base (ar_verf (rp_acpt m0)) = None"
    and "rp_stat m = 0 \<and> ar_stat (rp_acpt m) = 0 \<Longrightarrow> yields V proc (ar_where (rp_acpt m0)) (ar_where (rp_acpt m)) rb"
  shows "\<exists>m'. yields V (xdr_replymsg ops alloc proc) m0 m' (reply_bytes m rb) \<and> same_reply m' m"
proof -
  let ?body = "if rp_stat m = 0 then acpt_bytes (rp_acpt m) rb else rjct_bytes (rp_rjct m)"
  let ?m2 = "m0\<lparr>rm_xid := rm_xid m, rm_direction := 1\<rparr>"
  have d: "rm_direction m = 1" using assms(1) by (simp add: reply_ok_def)
  obtain a r where u: "yields V (xdr_union ops (reply_dscrm ops alloc proc) None) (rp_stat m0, (rp_acpt m0, rp_rjct m0))
      (rp_stat m, (a, r)) (be32 (rp_stat m) @ ?body)"
    "rp_stat m = 0 \<longrightarrow> same_acpt a (rp_acpt m)" "rp_stat m = 1 \<longrightarrow> same_rjct r (rp_rjct m)"
  proof (cases "rp_stat m = 0")
    case True
    obtain a where a: "yields V (xdr_accepted_reply ops alloc proc) (rp_acpt m0) a (acpt_bytes (rp_acpt m) rb)"
      "same_acpt a (rp_acpt m)"
      using acpt_yields [of "rp_acpt m" alloc "rp_acpt m0" proc rb] assms True by (auto simp: reply_ok_def)
    have "yields V (xdr_union ops (reply_dscrm ops alloc proc) None) (rp_stat m0, (rp_acpt m0, rp_rjct m0))
      (rp_stat m, (a, rp_rjct m0)) (be32 (rp_stat m) @ acpt_bytes (rp_acpt m) rb)"
      by (rule union_yields [where prc = "on fst (\<lambda>x (a, r). (x, r)) (xdr_accepted_reply ops alloc proc)"])
        (simp add: True arm_def reply_dscrm_def, rule on_yields [OF a(1)], simp_all)
    with that a(2) True show thesis by simp
  next
    case False
    then have 1: "rp_stat m = 1" "rj_stat (rp_rjct m) = 0 \<or> rj_stat (rp_rjct m) = 1" using assms(1) by (auto simp: reply_ok_def)
    obtain r where r: "yields V (xdr_rejected_reply ops) (rp_rjct m0) r (rjct_bytes (rp_rjct m))" "same_rjct r (rp_rjct m)"
      using rjct_yields [OF 1(2)] by blast
    have "yields V (xdr_union ops (reply_dscrm ops alloc proc) None) (rp_stat m0, (rp_acpt m0, rp_rjct m0))
      (rp_stat m, (rp_acpt m0, r)) (be32 (rp_stat m) @ rjct_bytes (rp_rjct m))"
      by (rule union_yields [where prc = "on snd (\<lambda>x (a, r). (a, x)) (xdr_rejected_reply ops)"])
        (simp add: 1 arm_def reply_dscrm_def, rule on_yields [OF r(1)], simp_all)
    with that r(2) 1 show thesis by simp
  qed
  let ?m' = "?m2\<lparr>rp_stat := rp_stat m, rp_acpt := a, rp_rjct := r\<rparr>"
  have "yields V (xdr_replymsg ops alloc proc) m0 ?m' (be32 (rm_xid m) @ be32 1 @ [] @ (be32 (rp_stat m) @ ?body) @ [])"
    unfolding xdr_replymsg_def
    by (rule all_yields_Cons [OF on_yields [OF yields_u_long _ refl] all_yields_Cons [OF on_yields [OF yields_enum _ refl]
          all_yields_Cons [OF holds_yields all_yields_Cons [OF on_yields [OF u(1)] all_yields_Nil]]]]) simp_all
  then have "yields V (xdr_replymsg ops alloc proc) m0 ?m' (reply_bytes m rb)" by (simp add: reply_bytes_def)
  moreover have "same_reply ?m' m" using u(2,3) d by (simp add: same_reply_def)
  ultimately show ?thesis by blast
qed

end

section \<open>What the client learns\<close>

text \<open>The status of a call for a reply.\<close>

definition reply_status :: "'r rpc_msg \<Rightarrow> u32" where
  "reply_status m =
     (if rp_stat m = 0 then
        (if ar_stat (rp_acpt m) \<le> 5 then [0, 8, 9, 10, 11, 12] ! unat (ar_stat (rp_acpt m)) else 16)
      else if rj_stat (rp_rjct m) = 1 then 7 else 16)"

lemma upto_five: "(w :: u32) \<le> 5 \<longleftrightarrow> w = 0 \<or> w = 1 \<or> w = 2 \<or> w = 3 \<or> w = 4 \<or> w = 5"
proof
  assume "w \<le> 5"
  then have "unat w \<le> 5" by (simp add: word_le_nat_alt)
  then have "unat w = 0 \<or> unat w = 1 \<or> unat w = 2 \<or> unat w = 3 \<or> unat w = 4 \<or> unat w = 5" by linarith
  then show "w = 0 \<or> w = 1 \<or> w = 2 \<or> w = 3 \<or> w = 4 \<or> w = 5"
    by (simp add: word_unat_eq_iff)
qed auto

definition known_reply :: "'r rpc_msg \<Rightarrow> bool" where
  "known_reply m \<longleftrightarrow> rp_stat m = 0 \<or> rp_stat m = 1 \<and> (rj_stat (rp_rjct m) = 0 \<or> rj_stat (rp_rjct m) = 1)"

lemma seterr_status: "known_reply m \<Longrightarrow> re_status (seterr_reply m e) = reply_status m"
proof -
  assume "known_reply m"
  then consider "rp_stat m = 0" "ar_stat (rp_acpt m) \<le> 5" | "rp_stat m = 0" "\<not> ar_stat (rp_acpt m) \<le> 5"
    | "rp_stat m = 1" "rj_stat (rp_rjct m) = 0" | "rp_stat m = 1" "rj_stat (rp_rjct m) = 1"
    by (auto simp: known_reply_def)
  then show ?thesis
  proof cases
    case 1
    then show ?thesis unfolding upto_five by (elim disjE) (simp_all add: seterr_reply_def reply_status_def accepted_def)
  next
    case 2
    then show ?thesis unfolding upto_five by (simp add: seterr_reply_def reply_status_def accepted_def upto_five)
  qed (simp_all add: seterr_reply_def reply_status_def rejected_def)
qed

lemma same_reply_status: "same_reply m' m \<Longrightarrow> reply_ok m \<Longrightarrow> known_reply m' \<and> reply_status m' = reply_status m"
  by (auto simp: same_reply_def same_acpt_def same_rjct_def reply_ok_def known_reply_def reply_status_def)

lemma seterr_details:
  "rp_stat m = 0 \<Longrightarrow> ar_stat (rp_acpt m) = 2 \<Longrightarrow> re_ru (seterr_reply m e) = (ar_low (rp_acpt m), ar_high (rp_acpt m))"
  "rp_stat m = 1 \<Longrightarrow> rj_stat (rp_rjct m) = 1 \<Longrightarrow> fst (re_ru (seterr_reply m e)) = rj_why (rp_rjct m)"
  by (simp_all add: seterr_reply_def accepted_def rejected_def)

lemma seterr_same:
  assumes "same_reply m' m" "reply_ok m"
  shows "re_status (seterr_reply m' e) = reply_status m"
    "rp_stat m = 0 \<and> ar_stat (rp_acpt m) = 2 \<longrightarrow> re_ru (seterr_reply m' e) = (ar_low (rp_acpt m), ar_high (rp_acpt m))"
    "rp_stat m = 1 \<and> rj_stat (rp_rjct m) = 1 \<longrightarrow> fst (re_ru (seterr_reply m' e)) = rj_why (rp_rjct m)"
proof -
  show "re_status (seterr_reply m' e) = reply_status m"
    using same_reply_status [OF assms] seterr_status [of m' e] by simp
qed (use assms(1) seterr_details [of m' e] in \<open>auto simp: same_reply_def same_acpt_def same_rjct_def\<close>)

text \<open>C34: a reply that the server encodes into a memory stream with room for it is decoded by the client: it finds the
  results of a successful call, and \<open>_seterr_reply\<close> gives the status that belongs to the reply, the versions of a version
  mismatch of the program and the reason of a refused authentication. For a refused RPC version it gives \<open>RPC_FAILED\<close>.\<close>

theorem reply_transfer:
  assumes "reply_ok m" "allocates alloc" "oa_base (ar_verf (rp_acpt m0)) = None"
    and "rp_stat m = 0 \<and> ar_stat (rp_acpt m) = 0 \<Longrightarrow> emits mem_view proc (ar_where (rp_acpt m)) rb"
    and "rp_stat m = 0 \<and> ar_stat (rp_acpt m) = 0 \<Longrightarrow> yields mem_view proc (ar_where (rp_acpt m0)) (ar_where (rp_acpt m)) rb"
    and "a + unat sz \<le> length ram" "length (reply_bytes m rb) \<le> unat sz"
  shows "\<exists>x m' y. xdr_replymsg xdrmem_ops alloc proc XDR_ENCODE m (xdrmem_create a sz ram) = Some (True, m, x) \<and>
    xdr_replymsg xdrmem_ops alloc proc XDR_DECODE m0
      (xdrmem_create (x_base x) (of_nat (length (reply_bytes m rb))) (x_ram x)) = Some (True, m', y) \<and>
    rm_xid m' = rm_xid m \<and> re_status (seterr_reply m' e) = reply_status m \<and>
    (rp_stat m = 0 \<and> ar_stat (rp_acpt m) = 0 \<longrightarrow> ar_where (rp_acpt m') = ar_where (rp_acpt m)) \<and>
    (rp_stat m = 0 \<and> ar_stat (rp_acpt m) = 2 \<longrightarrow> re_ru (seterr_reply m' e) = (ar_low (rp_acpt m), ar_high (rp_acpt m))) \<and>
    (rp_stat m = 1 \<and> rj_stat (rp_rjct m) = 1 \<longrightarrow> fst (re_ru (seterr_reply m' e)) = rj_why (rp_rjct m))"
proof -
  obtain m' where m': "yields mem_view (xdr_replymsg xdrmem_ops alloc proc) m0 m' (reply_bytes m rb)" "same_reply m' m"
    using mem.reply_yields [OF assms(1-3,5)] by blast
  from mem_roundtrip [OF mem.reply_emits [OF assms(1,4)] m'(1) assms(6,7)] obtain x y where
    "xdr_replymsg xdrmem_ops alloc proc XDR_ENCODE m (xdrmem_create a sz ram) = Some (True, m, x)"
    "xdr_replymsg xdrmem_ops alloc proc XDR_DECODE m0
      (xdrmem_create (x_base x) (of_nat (length (reply_bytes m rb))) (x_ram x)) = Some (True, m', y)" by blast
  moreover have "rm_xid m' = rm_xid m" "rp_stat m = 0 \<and> ar_stat (rp_acpt m) = 0 \<longrightarrow> ar_where (rp_acpt m') = ar_where (rp_acpt m)"
    using m'(2) by (auto simp: same_reply_def same_acpt_def)
  ultimately show ?thesis using seterr_same [OF m'(2) assms(1), of e] by (intro exI conjI) assumption+
qed

theorem reply_transfer_witness:
  "\<exists>m m0 x m' y. rp_stat m = 0 \<and> ar_stat (rp_acpt m) = 0 \<and> ar_where (rp_acpt m) = (42 :: u32) \<and> ar_where (rp_acpt m0) = 0 \<and>
    xdr_replymsg xdrmem_ops (\<lambda>n. Some (replicate n 0)) (xdr_u_long xdrmem_ops) XDR_ENCODE m (xdrmem_create 4 60 (replicate 64 9)) = Some (True, m, x) \<and>
    xdr_replymsg xdrmem_ops (\<lambda>n. Some (replicate n 0)) (xdr_u_long xdrmem_ops) XDR_DECODE m0
      (xdrmem_create (x_base x) 32 (x_ram x)) = Some (True, m', y) \<and>
    re_status (seterr_reply m' \<lparr>re_status = 5, re_ru = (0, 0)\<rparr>) = 0 \<and> ar_where (rp_acpt m') = 42"
proof -
  define c where "c = \<lparr>cb_rpcvers = 0, cb_prog = 0, cb_vers = 0, cb_proc = 0,
    cb_cred = \<lparr>oa_flavor = 0, oa_base = None, oa_length = 0\<rparr>, cb_verf = \<lparr>oa_flavor = 0, oa_base = None, oa_length = 0\<rparr>\<rparr>"
  define r where "r = \<lparr>rj_stat = 0, rj_low = 0, rj_high = 0, rj_why = 0\<rparr>"
  define m where "m = \<lparr>rm_xid = 7, rm_direction = 1, rm_call = c, rp_stat = 0, rp_acpt =
    \<lparr>ar_verf = \<lparr>oa_flavor = 1, oa_base = Some [1, 2, 3], oa_length = 3\<rparr>, ar_stat = 0, ar_low = 0, ar_high = 0, ar_where = 42 :: u32\<rparr>, rp_rjct = r\<rparr>"
  define m0 where "m0 = \<lparr>rm_xid = 0, rm_direction = 0, rm_call = c, rp_stat = 0, rp_acpt =
    \<lparr>ar_verf = \<lparr>oa_flavor = 0, oa_base = None, oa_length = 0\<rparr>, ar_stat = 0, ar_low = 0, ar_high = 0, ar_where = 0 :: u32\<rparr>, rp_rjct = r\<rparr>"
  have ok: "reply_ok m" "allocates (\<lambda>n. Some (replicate n 0))" "oa_base (ar_verf (rp_acpt m0)) = None"
    by (simp_all add: m_def m0_def reply_ok_def auth_ok_def block_def allocates_def)
  have len: "length (reply_bytes m (be32 42)) = 32"
    by (simp add: reply_bytes_def acpt_bytes_def auth_bytes_def m_def auth_data_def block_def padded_def pad_def)
  have st: "reply_status m = 0" "ar_where (rp_acpt m) = 42" "rp_stat m = 0" "ar_stat (rp_acpt m) = 0" "ar_where (rp_acpt m0) = 0"
    by (simp_all add: m_def m0_def reply_status_def)
  have p: "emits mem_view (xdr_u_long xdrmem_ops) (ar_where (rp_acpt m)) (be32 42)"
    "yields mem_view (xdr_u_long xdrmem_ops) (ar_where (rp_acpt m0)) (ar_where (rp_acpt m)) (be32 42)"
    using mem.emits_u_long [of 42] mem.yields_u_long [of 0 42] by (simp_all add: st)
  have "length (reply_bytes m (be32 42)) \<le> unat (60 :: u32)" unfolding len by simp
  from reply_transfer [OF ok p, of 4 60 "replicate 64 9" "\<lparr>re_status = 5, re_ru = (0, 0)\<rparr>", OF _ this] st show ?thesis
    unfolding len by (intro exI [of _ m] exI [of _ m0]) auto
qed

end
