(* ===== verification/Rpc_Auth.thy ===== *)
theory Rpc_Auth
  imports Rpc_Correct
begin

text \<open>UNIX credentials from the client to the server: \<open>xdr_authunix_parms\<close> and \<open>_svcauth_unix\<close> of theory \<open>Rpc\<close>.\<close>

section \<open>Numbers in a buffer\<close>

lemma get_long_seg: "buf + 4 \<le> length m \<Longrightarrow> get_long m buf = Some (of_be32 (seg buf 4 m))"
  unfolding get_long_def by (rule load32_be)

lemma get_long_None: "length m < buf + 4 \<Longrightarrow> get_long m buf = None"
  by (simp add: get_long_def load32_def)

lemma get_long_at: "m = pre @ be32 w @ post \<Longrightarrow> length pre = buf \<Longrightarrow> get_long m buf = Some w"
  by (auto simp: get_long_seg seg_def)

lemma sint_of_small: "unat w < 2147483648 \<Longrightarrow> sint (w :: u32) = int (unat w)"
proof -
  assume "unat w < 2147483648"
  then have "int (unat w) < int 2147483648" by (simp only: of_nat_less_iff)
  then show "sint w = int (unat w)" using sint_cases [of w] by simp
qed

lemma and_not_3: "(w :: u32) AND NOT 3 = push_bit 2 (drop_bit 2 w)"
proof -
  have m: "(3 :: u32) = mask 2" by (simp add: mask_eq_exp_minus_1)
  have s: "2 \<le> n \<Longrightarrow> Suc (Suc (n - 2)) = n" for n :: nat by simp
  show ?thesis unfolding m by (rule bit_eqI) (auto simp: bit_simps not_less s)
qed

lemma unat_rndup_pad: "unat x < 4294967292 \<Longrightarrow> unat (rndup x) = unat x + pad (unat x)"
proof -
  assume x: "unat x < 4294967292"
  have x3: "unat (x + 3) = unat x + 3" using x by (simp add: unat_word_ariths(1))
  have d: "unat (drop_bit 2 (x + 3)) = (unat x + 3) div 4"
    by (simp add: unat_drop_bit_eq x3 drop_bit_eq_div unat_div_distrib)
  have lt: "(unat x + 3) div 4 * 4 < 4294967296" using x by linarith
  have "x + 4 - 1 = x + 3" "(4 - 1 :: u32) = 3" by simp_all
  then have "unat (rndup x) = unat (push_bit 2 (drop_bit 2 (x + 3)))" by (simp only: rndup_def and_not_3)
  also have "\<dots> = (unat x + 3) div 4 * 4 mod 4294967296"
    by (simp add: push_bit_eq_mult unat_word_ariths d del: unat_drop_bit_eq)
  also have "\<dots> = (unat x + 3) div 4 * 4" using lt by (rule mod_less)
  also have "\<dots> = unat x + pad (unat x)" unfolding pad_def by presburger
  finally show ?thesis .
qed

lemma get_gids_run:
  "m = pre @ concat (map be32 gs) @ post \<Longrightarrow> length pre = buf \<Longrightarrow> i + length gs \<le> length gids \<Longrightarrow>
     get_gids m buf i (length gs) gids = Some (take i gids @ map ucast gs @ drop (i + length gs) gids)"
proof (induction gs arbitrary: pre buf i gids)
  case (Cons g gs)
  have g: "get_long m buf = Some g"
    by (rule get_long_at [of m pre g "concat (map be32 gs) @ post"]) (use Cons.prems in auto)
  have "get_gids m (buf + 4) (i + 1) (length gs) (gids[i := ucast g]) =
      Some (take (i + 1) (gids[i := ucast g]) @ map ucast gs @ drop (i + 1 + length gs) (gids[i := ucast g]))"
    by (rule Cons.IH [of "pre @ be32 g"]) (use Cons.prems in auto)
  moreover have "take (i + 1) (gids[i := ucast g]) = take i gids @ [ucast g]"
    using Cons.prems(3) by (simp add: take_Suc_conv_app_nth)
  ultimately show ?case using Cons.prems(3) g by simp
qed simp

lemma get_gids_defined:
  "buf + 4 * n \<le> length m \<Longrightarrow> i + n \<le> length gids \<Longrightarrow> get_gids m buf i n gids \<noteq> None"
proof (induction n arbitrary: buf i gids)
  case (Suc n)
  then show ?case by (simp add: get_long_seg)
qed simp

section \<open>Encoding\<close>

definition authunix_bytes :: "u32 \<Rightarrow> u8 list \<Rightarrow> u32 \<Rightarrow> u32 \<Rightarrow> u32 list \<Rightarrow> u8 list" where
  "authunix_bytes t name a b gs = be32 t @ be32 (of_nat (length name)) @ padded name @ be32 a @ be32 b @
     be32 (of_nat (length gs)) @ concat (map be32 gs)"

text \<open>The structure that the client encodes: \<open>gids\<close> is what lies at \<open>aup_gids\<close> and \<open>n\<close> the number of groups.\<close>

definition parms_ok :: "authunix_parms \<Rightarrow> u8 list \<Rightarrow> u16 list \<Rightarrow> nat \<Rightarrow> bool" where
  "parms_ok p name gids n \<longleftrightarrow> aup_machname p = Some (name @ [0]) \<and> 0 \<notin> set name \<and> length name \<le> 255 \<and>
     aup_gids p = Some gids \<and> aup_len p = of_nat n \<and> n \<le> 16"

lemma length_ints_of: "length (ints_of gids) = length gids div 2"
  by (induction gids rule: ints_of.induct) auto

lemma int_halves:
  "ucast (int_of_gids g h) = g" "ucast (drop_bit 16 (int_of_gids g h)) = h"
  unfolding int_of_gids_def by (rule bit_word_eqI, auto simp: bit_simps dest: bit_imp_le_length)+

lemma gids_of_ints_of: "gids_of (ints_of gids) @ drop (2 * length (ints_of gids)) gids = gids"
  by (induction gids rule: ints_of.induct) (auto simp: gids_of_def int_halves)

lemma set_ints_same: "set_ints (Some (ints_of gids)) (Some gids) = Some gids"
  using gids_of_ints_of [of gids] by (simp add: set_ints_def)

lemma ints_of_nth: "i < length (ints_of gids) \<Longrightarrow> ucast (ints_of gids ! i) = gids ! (2 * i)"
proof (induction gids arbitrary: i rule: ints_of.induct)
  case (1 g h gs)
  then show ?case by (cases i) (auto simp: int_halves)
qed auto

lemma every_second:
  assumes "2 * n \<le> length gids"
  shows "map ucast (take n (ints_of gids)) = map (\<lambda>i. gids ! (2 * i)) [0..<n]"
proof -
  have l: "n \<le> length (ints_of gids)" using assms by (simp add: length_ints_of)
  then show ?thesis by (intro nth_equalityI) (simp_all add: min_absorb2 ints_of_nth)
qed

lemma all_append: "xdr_all (fs @ gs) x_op v s = do {
    (ok, v1, s1) \<leftarrow> xdr_all fs x_op v s; if \<not> ok then Some (False, v1, s1) else xdr_all gs x_op v1 s1 }"
proof (induction fs arbitrary: v s)
  case (Cons f fs)
  then show ?case by (auto split: Option.bind_split)
qed simp

context xdr_stream
begin

lemma authunix_heads:
  assumes "parms_ok p name gids n"
  shows "emits V (xdr_all
      [on (\<lambda>(p, a, b). aup_time p) (\<lambda>x (p, a, b). (p\<lparr>aup_time := x\<rparr>, a, b)) (xdr_u_long ops),
       on (\<lambda>(p, a, b). aup_machname p) (\<lambda>x (p, a, b). (p\<lparr>aup_machname := x\<rparr>, a, b)) (xdr_string ops alloc 255),
       on (\<lambda>(p, a, b). a) (\<lambda>x (p, a, b). (p, x, b)) (xdr_int ops),
       on (\<lambda>(p, a, b). b) (\<lambda>x (p, a, b). (p, a, x)) (xdr_int ops)]) (p, a, b)
    (be32 (aup_time p) @ (be32 (of_nat (length name)) @ padded name) @ be32 a @ be32 b)"
proof -
  have p: "aup_machname p = Some (name @ [0])" "0 \<notin> set name" "length name \<le> 255" using assms by (auto simp: parms_ok_def)
  have st: "emits V (xdr_string ops alloc 255) (Some (name @ [0])) (be32 (of_nat (length name)) @ padded name)"
    by (rule string_emits) (use p in simp_all)
  show ?thesis
    by (rule all_emits_Cons [OF on_emits [OF emits_u_long] all_emits_Cons [OF on_emits [OF st] all_emits_Cons [OF on_emits [OF emits_int]
          all_emits_Cons [OF on_emits [OF emits_int] all_emits_Nil]]], unfolded append_Nil2])
      (use p in simp_all)
qed

text \<open>Encoding is defined when every group is followed by another one, which makes up an \<open>int\<close> with it, and reads
  past the groups when there are fewer.\<close>

lemma authunix_encode:
  assumes "parms_ok p name gids n" "wok V s"
    and "fits V s (length (authunix_bytes (aup_time p) name a b (take n (ints_of gids))))"
  shows "if length gids < 2 * n then xdr_authunix_parms ops alloc a b XDR_ENCODE p s = None
    else \<exists>s'. xdr_authunix_parms ops alloc a b XDR_ENCODE p s = Some (True, p\<lparr>aup_uid := ucast a, aup_gid := ucast b\<rparr>, s') \<and>
      wok V s' \<and> written V s' = written V s @ authunix_bytes (aup_time p) name a b (take n (ints_of gids))"
proof -
  let ?xs = "ints_of gids" and ?n = "of_nat n :: u32"
  have p: "aup_gids p = Some gids" "aup_len p = ?n" "n \<le> 16" using assms(1) by (auto simp: parms_ok_def)
  have n: "unat ?n = n" "?n \<le> 16" using p(3) by (simp_all add: unat_of_nat word_le_nat_alt)
  let ?ar = "on (\<lambda>(p, a, b). (map_option ints_of (aup_gids p), aup_len p))
      (\<lambda>(g, n) (p, a, b). (p\<lparr>aup_gids := set_ints g (aup_gids p), aup_len := n\<rparr>, a, b))
      (xdr_array ops alloc 4 0 16 4 (xdr_int ops)) :: ('s, authunix_parms \<times> u32 \<times> u32) xdrproc"
  let ?hd = "be32 (aup_time p) @ (be32 (of_nat (length name)) @ padded name) @ be32 a @ be32 b"
  have bytes: "authunix_bytes (aup_time p) name a b gs = ?hd @ be32 (of_nat (length gs)) @ concat (map be32 gs)" for gs
    by (simp add: authunix_bytes_def)
  have hf: "fits V s (length ?hd)" by (rule fits_less [OF assms(2,3)]) (simp add: bytes)
  note h = authunix_heads [OF assms(1), of alloc a b]
  from emitsD [OF h assms(2) hf] obtain s1 where
    s1: "xdr_all [on (\<lambda>(p, a, b). aup_time p) (\<lambda>x (p, a, b). (p\<lparr>aup_time := x\<rparr>, a, b)) (xdr_u_long ops),
        on (\<lambda>(p, a, b). aup_machname p) (\<lambda>x (p, a, b). (p\<lparr>aup_machname := x\<rparr>, a, b)) (xdr_string ops alloc 255),
        on (\<lambda>(p, a, b). a) (\<lambda>x (p, a, b). (p, x, b)) (xdr_int ops),
        on (\<lambda>(p, a, b). b) (\<lambda>x (p, a, b). (p, a, x)) (xdr_int ops)] XDR_ENCODE (p, a, b) s = Some (True, (p, a, b), s1)"
      "wok V s1" "written V s1 = written V s @ ?hd" "\<And>k. fits V s1 k \<longleftrightarrow> fits V s (length ?hd + k)" by auto
  have e: "xdr_authunix_parms ops alloc a b XDR_ENCODE p s = do {
      (ok, (p', a', b'), s') \<leftarrow> xdr_all [?ar] XDR_ENCODE (p, a, b) s1;
      Some (ok, if ok then p'\<lparr>aup_uid := ucast a', aup_gid := ucast b'\<rparr> else p', s') }"
    unfolding xdr_authunix_parms_def
    using s1(1) all_append [where fs = "[on (\<lambda>(p, a, b). aup_time p) (\<lambda>x (p, a, b). (p\<lparr>aup_time := x\<rparr>, a, b)) (xdr_u_long ops),
        on (\<lambda>(p, a, b). aup_machname p) (\<lambda>x (p, a, b). (p\<lparr>aup_machname := x\<rparr>, a, b)) (xdr_string ops alloc 255),
        on (\<lambda>(p, a, b). a) (\<lambda>x (p, a, b). (p, x, b)) (xdr_int ops),
        on (\<lambda>(p, a, b). b) (\<lambda>x (p, a, b). (p, a, x)) (xdr_int ops)]" and gs = "[?ar]" and x_op = XDR_ENCODE and v = "(p, a, b)" and s = s]
    by (simp del: xdr_all.simps)
  have room: "fits V s1 (4 + length (concat (map be32 (take n ?xs))))"
    unfolding s1(4) by (rule fits_less [OF assms(2,3)]) (simp add: bytes)
  show ?thesis
  proof (cases "length gids < 2 * n")
    case True
    then have l: "length ?xs < n" by (simp add: length_ints_of)
    have "xdr_array ops alloc 4 0 16 4 (xdr_int ops) XDR_ENCODE (Some ?xs, ?n) s1 = None"
      by (rule array_past [where enc = be32]) (use l n p(3) s1(2) room emits_int in auto)
    then have "xdr_all [?ar] XDR_ENCODE (p, a, b) s1 = None" using p by (simp add: on_def)
    then show ?thesis using True unfolding e by simp
  next
    case False
    then have l: "length (take n ?xs) = n" by (simp add: length_ints_of)
    have "emits V (xdr_array ops alloc 4 0 16 4 (xdr_int ops)) (Some (take n ?xs @ drop n ?xs), ?n)
        (be32 ?n @ concat (map be32 (take n ?xs)))"
      by (rule array_emits [OF _ _ _ emits_int]) (use l n p(3) in simp_all)
    then have ar: "emits V (xdr_array ops alloc 4 0 16 4 (xdr_int ops)) (Some ?xs, ?n) (be32 ?n @ concat (map be32 (take n ?xs)))"
      by simp
    have "emits V (xdr_all [?ar]) (p, a, b) (be32 ?n @ concat (map be32 (take n ?xs)))"
      by (rule all_emits_Cons [OF on_emits [OF ar] all_emits_Nil, unfolded append_Nil2]) (use p in \<open>simp_all add: set_ints_same\<close>)
    from emitsD [OF this s1(2)] room obtain s' where "xdr_all [?ar] XDR_ENCODE (p, a, b) s1 = Some (True, (p, a, b), s')"
      "wok V s'" "written V s' = written V s1 @ be32 ?n @ concat (map be32 (take n ?xs))" by auto
    then show ?thesis using False s1(3) l unfolding e bytes by simp
  qed
qed

end

section \<open>The server\<close>

definition area_ok :: "area \<Rightarrow> bool" where
  "area_ok r \<longleftrightarrow> length (ar_machname r) = 256 \<and> length (ar_gids r) = 16"

lemma svcauth_unix_accepts:
  assumes "area_ok r" "length name \<le> 255" "length gs \<le> 16"
    and cred: "cred = authunix_bytes t name a b gs @ rest"
    and len: "auth_len = of_nat (length (authunix_bytes t name a b gs))"
  shows "\<exists>r'. svcauth_unix cred auth_len r vf = Some (AUTH_OK, r', vf\<lparr>oa_flavor := 0, oa_length := 0\<rparr>) \<and> ar_time r' = t \<and>
    take (length name + 1) (ar_machname r') = name @ [0] \<and> ar_uid r' = ucast a \<and> ar_gid r' = ucast b \<and>
    ar_len r' = of_nat (length gs) \<and> take (length gs) (ar_gids r') = map ucast gs"
proof -
  let ?n = "of_nat (length name) :: u32" and ?g = "of_nat (length gs) :: u32"
  have n: "unat ?n = length name" "sint ?n = int (length name)"
  proof -
    show "unat ?n = length name" using assms(2) by (simp add: unat_of_nat)
    then show "sint ?n = int (length name)" using sint_of_small [of ?n] assms(2) by simp
  qed
  have g: "unat ?g = length gs" "sint ?g = int (length gs)"
  proof -
    show "unat ?g = length gs" using assms(3) by (simp add: unat_of_nat)
    then show "sint ?g = int (length gs)" using sint_of_small [of ?g] assms(3) by simp
  qed
  let ?p = "padded name"
  have lp: "length ?p = length name + pad (length name)" by (rule length_padded)
  have rn: "unat (rndup ?n) = length ?p" unfolding lp using unat_rndup_pad [of ?n] n(1) assms(2) by simp
  have pl: "length ?p \<le> 258" unfolding lp using assms(2) pad_less [of "length name"] by simp
  have rs: "sint (rndup ?n) = int (length ?p)"
    using sint_of_small [of "rndup ?n"] rn pl by simp
  have c: "cred = be32 t @ be32 ?n @ ?p @ be32 a @ be32 b @ be32 ?g @ concat (map be32 gs) @ rest"
    unfolding cred authunix_bytes_def by simp
  have 1: "get_long cred 0 = Some t" by (rule get_long_at [of _ "[]"]) (use c in auto)
  have 2: "get_long cred 4 = Some ?n" by (rule get_long_at [of _ "be32 t"]) (use c in auto)
  have 3: "get_long cred (8 + length ?p) = Some a"
    by (rule get_long_at [of _ "be32 t @ be32 ?n @ ?p"]) (use c in auto)
  have 4: "get_long cred (8 + length ?p + 4) = Some b"
    by (rule get_long_at [of _ "be32 t @ be32 ?n @ ?p @ be32 a"]) (use c in auto)
  have 5: "get_long cred (8 + length ?p + 8) = Some ?g"
    by (rule get_long_at [of _ "be32 t @ be32 ?n @ ?p @ be32 a @ be32 b"]) (use c in auto)
  have 6: "get_gids cred (8 + length ?p + 12) 0 (length gs) (ar_gids r) = Some (map ucast gs @ drop (length gs) (ar_gids r))"
    using get_gids_run [of cred "be32 t @ be32 ?n @ ?p @ be32 a @ be32 b @ be32 ?g" gs rest "8 + length ?p + 12" 0 "ar_gids r"]
      c assms(1,3) by (simp add: area_ok_def)
  have sg: "seg 8 (length name) cred = name" unfolding c by (simp add: seg_def padded_def)
  have lc: "8 + length name \<le> length cred" unfolding c by (simp add: length_padded)
  let ?nm = "patch 0 name (ar_machname r)"
  have st: "store ?nm (length name) 0 = Some (?nm[length name := 0])"
    using assms(1,2) by (simp add: store_def area_ok_def length_patch)
  have nm: "take (length name + 1) (?nm[length name := 0]) = name @ [0]"
  proof -
    have "?nm = name @ drop (length name) (ar_machname r)" by (simp add: patch_def)
    moreover have "drop (length name) (ar_machname r) = ar_machname r ! length name # drop (length name + 1) (ar_machname r)"
      using assms(1,2) by (simp add: area_ok_def Cons_nth_drop_Suc)
    ultimately show ?thesis by (simp add: list_update_append)
  qed
  let ?k = "(5 + int (length gs)) * 4"
  have k1: "i32 ?k = Some ?k" by (rule i32_Some) (use assms(3) in simp_all)
  have k2: "i32 (?k + int (length ?p)) = Some (?k + int (length ?p))" by (rule i32_Some) (use assms(3) pl in simp_all)
  have lb: "length (authunix_bytes t name a b gs) = (5 + length gs) * 4 + length ?p"
    by (simp add: authunix_bytes_def length_concat comp_def sum_list_triv)
  have "(word_of_int (?k + int (length ?p)) :: u32) = auth_len" unfolding len lb by simp
  then have ok: "\<not> (word_of_int (?k + int (length ?p)) :: u32) > auth_len" by simp
  show ?thesis
    unfolding svcauth_unix_def
    using n g rn rs 1 2 3 4 5 6 sg lc st nm k1 k2 ok assms(1,2,3)
    by (simp add: area_ok_def del: of_nat_add)
qed

text \<open>C35: the server accepts the UNIX credentials that the client encodes, with the time and the machine name, but the
  groups are not those of the caller. The encoder reads the 16-bit groups as 32-bit integers: for \<open>n\<close> groups it reads
  \<open>2 * n\<close>, past the end of an array with fewer, and the server finds every second one. The user and the
  group that it finds are the locals that \<open>xdr_authunix_parms\<close> never sets, whatever the caller's are, and the client's
  own structure is overwritten with them.\<close>

theorem authunix_credentials:
  assumes "parms_ok p name gids n" "area_ok r" "k + 400 \<le> length ram"
  shows "if length gids < 2 * n then xdr_authunix_parms xdrmem_ops alloc a b XDR_ENCODE p (xdrmem_create k 400 ram) = None
    else \<exists>x r'. xdr_authunix_parms xdrmem_ops alloc a b XDR_ENCODE p (xdrmem_create k 400 ram) =
        Some (True, p\<lparr>aup_uid := ucast a, aup_gid := ucast b\<rparr>, x) \<and>
      svcauth_unix (written mem_view x) (of_nat (length (written mem_view x))) r vf =
        Some (AUTH_OK, r', vf\<lparr>oa_flavor := 0, oa_length := 0\<rparr>) \<and>
      ar_time r' = aup_time p \<and> take (length name + 1) (ar_machname r') = name @ [0] \<and>
      ar_uid r' = ucast a \<and> ar_gid r' = ucast b \<and> ar_len r' = aup_len p \<and>
      take n (ar_gids r') = map (\<lambda>i. gids ! (2 * i)) [0..<n]"
proof -
  let ?gs = "take n (ints_of gids)" let ?bs = "authunix_bytes (aup_time p) name a b ?gs" let ?x = "xdrmem_create k 400 ram"
  have ok: "length name \<le> 255" "n \<le> 16" "aup_len p = of_nat n" using assms(1) by (auto simp: parms_ok_def)
  then have gs: "length ?gs \<le> 16" by simp
  have "length ?bs \<le> 342"
    using ok gs pad_less [of "length name"]
    by (simp add: authunix_bytes_def length_concat comp_def sum_list_triv length_padded)
  then have "fits mem_view ?x (length ?bs)" by (simp add: xdrmem_create_def)
  from mem.authunix_encode [OF assms(1) _ this, of alloc] mem_ok_create [of k 400 ram] assms(3)
  have e: "if length gids < 2 * n then xdr_authunix_parms xdrmem_ops alloc a b XDR_ENCODE p ?x = None
    else \<exists>x. xdr_authunix_parms xdrmem_ops alloc a b XDR_ENCODE p ?x = Some (True, p\<lparr>aup_uid := ucast a, aup_gid := ucast b\<rparr>, x) \<and>
      written mem_view x = ?bs" by (auto simp del: mem_view_simps(4))
  show ?thesis
  proof (cases "length gids < 2 * n")
    case False
    with e obtain x where x: "xdr_authunix_parms xdrmem_ops alloc a b XDR_ENCODE p ?x =
      Some (True, p\<lparr>aup_uid := ucast a, aup_gid := ucast b\<rparr>, x)" "written mem_view x = ?bs" by auto
    have ln: "length ?gs = n" and ev: "map ucast ?gs = map (\<lambda>i. gids ! (2 * i)) [0..<n]"
      using False every_second [of n gids] by (simp_all add: length_ints_of)
    have "?bs = ?bs @ []" by simp
    from svcauth_unix_accepts [OF assms(2) ok(1) gs this refl] obtain r' where
      "svcauth_unix ?bs (of_nat (length ?bs)) r vf = Some (AUTH_OK, r', vf\<lparr>oa_flavor := 0, oa_length := 0\<rparr>)" "ar_time r' = aup_time p"
      "take (length name + 1) (ar_machname r') = name @ [0]" "ar_uid r' = ucast a" "ar_gid r' = ucast b"
      "ar_len r' = aup_len p" "take n (ar_gids r') = map (\<lambda>i. gids ! (2 * i)) [0..<n]"
      unfolding ok(3) ln ev by blast
    note r' = this
    have "\<exists>x r'. xdr_authunix_parms xdrmem_ops alloc a b XDR_ENCODE p ?x =
        Some (True, p\<lparr>aup_uid := ucast a, aup_gid := ucast b\<rparr>, x) \<and>
      svcauth_unix (written mem_view x) (of_nat (length (written mem_view x))) r vf =
        Some (AUTH_OK, r', vf\<lparr>oa_flavor := 0, oa_length := 0\<rparr>) \<and>
      ar_time r' = aup_time p \<and> take (length name + 1) (ar_machname r') = name @ [0] \<and>
      ar_uid r' = ucast a \<and> ar_gid r' = ucast b \<and> ar_len r' = aup_len p \<and>
      take n (ar_gids r') = map (\<lambda>i. gids ! (2 * i)) [0..<n]"
      by (rule exI [of _ x], rule exI [of _ r'], unfold x(2)) (intro conjI x(1) r')
    with False show ?thesis by (simp only: if_False)
  qed (use e in simp)
qed

text \<open>Two groups in an array of four: the server finds the first and the third. In an array of two the encoder reads
  past the end.\<close>

theorem authunix_credentials_witness:
  "(\<exists>x r'. xdr_authunix_parms xdrmem_ops (\<lambda>n. None) 1234 5678 XDR_ENCODE
      \<lparr>aup_time = 9, aup_machname = Some ([117, 117] @ [0]), aup_uid = 0, aup_gid = 0, aup_len = of_nat 2, aup_gids = Some [7, 8, 9, 10]\<rparr>
      (xdrmem_create 0 400 (replicate 400 0)) =
      Some (True, \<lparr>aup_time = 9, aup_machname = Some ([117, 117] @ [0]), aup_uid = 1234, aup_gid = 5678,
        aup_len = of_nat 2, aup_gids = Some [7, 8, 9, 10]\<rparr>, x) \<and>
    svcauth_unix (written mem_view x) (of_nat (length (written mem_view x)))
      \<lparr>ar_time = 0, ar_machname = replicate 256 0, ar_uid = 0, ar_gid = 0, ar_len = 0, ar_gids = replicate 16 0\<rparr> \<lparr>oa_flavor = 1, oa_base = None, oa_length = 7\<rparr> = Some (AUTH_OK, r', \<lparr>oa_flavor = 0, oa_base = None, oa_length = 0\<rparr>) \<and>
    ar_uid r' = 1234 \<and> ar_gid r' = 5678 \<and> take 2 (ar_gids r') = [7, 9]) \<and>
   xdr_authunix_parms xdrmem_ops (\<lambda>n. None) 1234 5678 XDR_ENCODE
      \<lparr>aup_time = 9, aup_machname = Some ([117, 117] @ [0]), aup_uid = 0, aup_gid = 0, aup_len = of_nat 2, aup_gids = Some [7, 8]\<rparr>
      (xdrmem_create 0 400 (replicate 400 0)) = None"
proof -
  have u: "[0..<2] = [0, 1 :: nat]" by (simp add: upt_rec)
  let ?r = "\<lparr>ar_time = 0, ar_machname = replicate 256 0, ar_uid = 0, ar_gid = 0, ar_len = 0, ar_gids = replicate 16 0\<rparr> :: area"
  let ?p = "\<lambda>g. \<lparr>aup_time = 9, aup_machname = Some ([117, 117] @ [0]), aup_uid = 0, aup_gid = 0, aup_len = of_nat 2, aup_gids = Some g\<rparr>"
  have "parms_ok (?p g) [117, 117] g 2" "area_ok ?r" for g
    by (simp_all add: parms_ok_def area_ok_def)
  note t = authunix_credentials [OF this, of 0 "replicate 400 0" _ "\<lambda>n. None" 1234 5678 "\<lparr>oa_flavor = 1, oa_base = None, oa_length = 7\<rparr>"]
  show ?thesis using t [of "[7, 8, 9, 10]"] t [of "[7, 8]"] unfolding u
    by (simp del: mem_view_simps(4)) blast
qed

section \<open>Credentials from the network\<close>

text \<open>C36: for credentials in the server's block of 400 bytes \<open>_svcauth_unix\<close> is defined except when the length of the
  name is negative as an \<open>int\<close>, which the code takes for short enough before it copies that many bytes over the stack, or
  when the number of groups is so negative that the product overflows.\<close>

theorem svcauth_unix_undefined_iff:
  assumes "area_ok r" "400 \<le> length cred"
    and str: "str = of_be32 (seg 4 4 cred)" and gid: "gid = of_be32 (seg (16 + unat (rndup str)) 4 cred)"
  shows "svcauth_unix cred auth_len r vf = None \<longleftrightarrow> sint str < 0 \<or> sint str \<le> 255 \<and> sint gid < - 536870917"
proof -
  have g: "get_long cred i = Some (of_be32 (seg i 4 cred))" if "i + 4 \<le> 400" for i
    by (rule get_long_seg) (use assms(2) that in simp)
  consider "sint str < 0" | "255 < sint str" | "0 \<le> sint str" "sint str \<le> 255" by linarith
  then show ?thesis
  proof cases
    case 1
    have "256 < unat str"
    proof (rule ccontr)
      assume "\<not> 256 < unat str"
      then have "sint str = int (unat str)" by (intro sint_of_small) simp
      with 1 show False by simp
    qed
    with 1 show ?thesis unfolding svcauth_unix_def g [of 0, simplified] g [of 4, simplified] str [symmetric] by simp
  next
    case 2
    then show ?thesis unfolding svcauth_unix_def g [of 0, simplified] g [of 4, simplified] str [symmetric] by simp
  next
    case 3
    have u: "unat str \<le> 255"
    proof -
      have "sint str = int (unat str)"
      proof (rule ccontr)
        assume ne: "sint str \<noteq> int (unat str)"
        then have "\<not> unat str < 2147483648" using sint_of_small by blast
        then have "\<not> int (unat str) < int 2147483648" by (simp only: of_nat_less_iff not_False_eq_True)
        then have "sint str < 0" using sint_cases [of str] uint_lt2p [of str] by simp
        with 3(1) show False by simp
      qed
      with 3(2) have "int (unat str) \<le> int 255" by (simp only: of_nat_numeral)
      then show ?thesis by (simp only: of_nat_le_iff)
    qed
    have rp: "unat (rndup str) = unat str + pad (unat str)" using unat_rndup_pad [of str] u by simp
    have r8: "unat (rndup str) \<le> 258" unfolding rp using u pad_less [of "unat str"] by simp
    have rs: "sint (rndup str) = int (unat (rndup str))" by (rule sint_of_small) (use r8 in simp)
    let ?buf = "8 + unat (rndup str)"
    have gl: "get_long cred ?buf \<noteq> None" "get_long cred (?buf + 4) \<noteq> None" "get_long cred (?buf + 8) = Some gid"
      using g [of ?buf] g [of "?buf + 4"] g [of "?buf + 8"] r8 by (simp_all add: gid)
    obtain u v where uv: "get_long cred ?buf = Some u" "get_long cred (?buf + 4) = Some v" using gl by blast
    have st: "store (patch 0 (seg 8 (unat str) cred) (ar_machname r)) (unat str) 0 \<noteq> None"
      using assms(1,2) u by (simp add: store_def area_ok_def length_patch)
    then obtain nm where nm: "store (patch 0 (seg 8 (unat str) cred) (ar_machname r)) (unat str) 0 = Some nm" by blast
    have gi: "get_gids cred (?buf + 12) 0 (nat (sint gid)) (ar_gids r) \<noteq> None" if "sint gid \<le> 16"
      by (rule get_gids_defined) (use that r8 assms in \<open>auto simp: area_ok_def\<close>)
    have s: "svcauth_unix cred auth_len r vf = None \<longleftrightarrow> sint gid \<le> 16 \<and>
        do { k \<leftarrow> i32 ((5 + sint gid) * 4); i32 (k + sint (rndup str)) } = None"
    proof (cases "sint gid \<le> 16")
      case True
      then obtain gs where "get_gids cred (?buf + 12) 0 (nat (sint gid)) (ar_gids r) = Some gs" using gi by blast
      with True show ?thesis
        unfolding svcauth_unix_def g [of 0, simplified] g [of 4, simplified] str [symmetric]
        using 3 u uv gl(3) nm assms(2) by (auto simp: Let_def split: Option.bind_split if_splits)
    next
      case False
      then show ?thesis
        unfolding svcauth_unix_def g [of 0, simplified] g [of 4, simplified] str [symmetric]
        using 3 u uv gl(3) nm assms(2) by simp
    qed
    have sm: "0 \<le> sint (rndup str)" "sint (rndup str) \<le> 258"
    proof -
      have "int (unat (rndup str)) \<le> int 258" using r8 by (simp only: of_nat_le_iff)
      then show "0 \<le> sint (rndup str)" "sint (rndup str) \<le> 258" unfolding rs by simp_all
    qed
    have "sint gid \<le> 16 \<Longrightarrow> (do { k \<leftarrow> i32 ((5 + sint gid) * 4); i32 (k + sint (rndup str)) } = None) \<longleftrightarrow> sint gid < - 536870917"
      using sm by (auto simp: i32_def split: if_splits)
    with s 3 show ?thesis by auto
  qed
qed

theorem svcauth_unix_undefined_iff_witness:
  "svcauth_unix ([0, 0, 0, 0, 128, 0, 0, 0] @ replicate 392 0) 400
      \<lparr>ar_time = 0, ar_machname = replicate 256 0, ar_uid = 0, ar_gid = 0, ar_len = 0, ar_gids = replicate 16 0\<rparr> \<lparr>oa_flavor = 1, oa_base = None, oa_length = 7\<rparr> = None"
proof -
  have s: "of_be32 (seg 4 4 ([0, 0, 0, 0, 128, 0, 0, 0] @ replicate 392 0)) = 0x80000000"
    by (simp add: of_be32_def seg_def)
  show ?thesis
    by (rule svcauth_unix_undefined_iff [THEN iffD2, OF _ _ s [symmetric] refl]) (simp_all add: area_ok_def)
qed

end
