(* ===== verification/Rpc_Call.thy ===== *)
theory Rpc_Call
  imports Rpc_Auth
begin

text \<open>Calls from the client to the server through a memory stream: the path of \<open>xdr_callmsg\<close> that \<open>XDR_INLINE\<close> opens.\<close>

section \<open>Reserving a part of the buffer\<close>

lemma inline_ok:
  assumes "unat len \<le> unat (x_handy x)"
  shows "\<exists>x'. in_line xdrmem_buf len x = (Some (x_private x), x') \<and> x_private x' = x_private x + unat len \<and>
    unat (x_handy x') = unat (x_handy x) - unat len \<and> in_ram xdrmem_buf x' = x_ram x \<and> x_base x' = x_base x \<and> x_ram x' = x_ram x"
  using assms by (simp add: xdrmem_buf_def xdrmem_inline_def word_le_nat_alt unat_sub Let_def)

section \<open>Encoding\<close>

definition auth_size :: "opaque_auth \<Rightarrow> nat" where
  "auth_size oa = unat (oa_length oa) + pad (unat (oa_length oa))"

text \<open>The bytes of authentication data: \<open>st\<close> is what the rounding leaves as it was.\<close>

definition auth_wire :: "opaque_auth \<Rightarrow> u8 list \<Rightarrow> u8 list" where
  "auth_wire oa st = be32 (oa_flavor oa) @ be32 (oa_length oa) @ auth_data oa @ st"

definition call_wire :: "'r rpc_msg \<Rightarrow> u8 list \<Rightarrow> u8 list \<Rightarrow> u8 list" where
  "call_wire m s1 s2 = be32 (rm_xid m) @ be32 0 @ be32 2 @ be32 (cb_prog (rm_call m)) @ be32 (cb_vers (rm_call m)) @
     be32 (cb_proc (rm_call m)) @ auth_wire (cb_cred (rm_call m)) s1 @ auth_wire (cb_verf (rm_call m)) s2"

definition call_size :: "'r rpc_msg \<Rightarrow> nat" where
  "call_size m = 40 + auth_size (cb_cred (rm_call m)) + auth_size (cb_verf (rm_call m))"

definition call_ok :: "'r rpc_msg \<Rightarrow> bool" where
  "call_ok m \<longleftrightarrow> rm_direction m = 0 \<and> cb_rpcvers (rm_call m) = 2 \<and> auth_ok (cb_cred (rm_call m)) \<and> auth_ok (cb_verf (rm_call m))"

lemma auth_size_rndup: "auth_ok oa \<Longrightarrow> unat (rndup (oa_length oa)) = auth_size oa"
  unfolding auth_size_def by (rule unat_rndup_pad) (simp add: auth_ok_def word_le_nat_alt)

lemma auth_size_le: "auth_ok oa \<Longrightarrow> auth_size oa \<le> 403"
  using pad_less [of "unat (oa_length oa)"] by (simp add: auth_size_def auth_ok_def word_le_nat_alt)

lemma length_auth_wire: "auth_ok oa \<Longrightarrow> length st = pad (unat (oa_length oa)) \<Longrightarrow> length (auth_wire oa st) = 8 + auth_size oa"
  by (simp add: auth_wire_def auth_size_def length_auth_data)

lemma put_long_next: "length p = buf \<Longrightarrow> 4 \<le> length q \<Longrightarrow> put_long (p @ q) buf w = Some ((p @ be32 w) @ drop 4 q)"
  by (auto simp: put_long_def store32_be patch_def)

lemma put_auth_next:
  assumes "auth_ok oa" "length p = buf" "8 + auth_size oa \<le> length q"
  shows "\<exists>st. put_auth (p @ q) buf oa = Some ((p @ auth_wire oa st) @ drop (8 + auth_size oa) q, buf + 8 + auth_size oa) \<and>
    length st = pad (unat (oa_length oa))"
proof -
  let ?n = "unat (oa_length oa)"
  let ?p = "(p @ be32 (oa_flavor oa)) @ be32 (oa_length oa)"
  have 1: "put_long (p @ q) buf (oa_flavor oa) = Some ((p @ be32 (oa_flavor oa)) @ drop 4 q)"
    by (rule put_long_next) (use assms in auto)
  have 2: "put_long ((p @ be32 (oa_flavor oa)) @ drop 4 q) (buf + 4) (oa_length oa) = Some (?p @ drop 4 (drop 4 q))"
    by (rule put_long_next) (use assms in auto)
  show ?thesis
  proof (cases "oa_length oa = 0")
    case True
    then show ?thesis using 1 2 by (simp add: put_auth_def auth_wire_def auth_data_def auth_size_def pad_def)
  next
    case False
    have n: "?n \<le> length (block (oa_base oa))" using assms(1) by (simp add: auth_ok_def)
    have l: "length ?p = buf + 8" using assms(2) by simp
    have "patch (buf + 8) (auth_data oa) (?p @ drop 8 q) = ?p @ auth_data oa @ drop (8 + ?n) q"
      unfolding l [symmetric] by (simp add: patch_def length_auth_data assms(1) add.commute)
    also have "drop (8 + ?n) q = take (pad ?n) (drop (8 + ?n) q) @ drop (8 + auth_size oa) q"
      using append_take_drop_id [of "pad ?n" "drop (8 + ?n) q", symmetric] by (simp only: drop_drop auth_size_def add_ac)
    finally have "patch (buf + 8) (auth_data oa) (?p @ drop 8 q) =
        (p @ auth_wire oa (take (pad ?n) (drop (8 + ?n) q))) @ drop (8 + auth_size oa) q" by (simp add: auth_wire_def)
    moreover have "length (take (pad ?n) (drop (8 + ?n) q)) = pad ?n" using assms(3) by (simp add: auth_size_def)
    ultimately show ?thesis
      using 1 2 False n assms(2,3) by (auto simp: put_auth_def auth_size_rndup [OF assms(1)] Let_def auth_data_def auth_size_def)
  qed
qed

lemma put_call_next:
  assumes "call_ok m" "length p = buf" "call_size m \<le> length q"
  shows "\<exists>s1 s2. put_call m (p @ q) buf = Some (True, p @ call_wire m s1 s2 @ drop (call_size m) q) \<and>
    length s1 = pad (unat (oa_length (cb_cred (rm_call m)))) \<and> length s2 = pad (unat (oa_length (cb_verf (rm_call m))))"
proof -
  let ?c = "rm_call m"
  note ok = assms(1) [unfolded call_ok_def]
  have len: "40 + auth_size (cb_cred ?c) + auth_size (cb_verf ?c) \<le> length q" using assms(3) by (simp add: call_size_def)
  let ?h = "(((((p @ be32 (rm_xid m)) @ be32 (rm_direction m)) @ be32 (cb_rpcvers ?c)) @ be32 (cb_prog ?c)) @ be32 (cb_vers ?c)) @ be32 (cb_proc ?c)"
  have head: "put_call m (p @ q) buf = do { (m, buf) \<leftarrow> put_auth (?h @ drop 24 q) (buf + 24) (cb_cred ?c);
      (m, buf) \<leftarrow> put_auth m buf (cb_verf ?c); Some (True, m) }"
    using ok len assms(2) by (simp add: put_call_def put_long_next del: append_assoc)
  have "\<exists>s1. put_auth (?h @ drop 24 q) (buf + 24) (cb_cred ?c) =
      Some ((?h @ auth_wire (cb_cred ?c) s1) @ drop (8 + auth_size (cb_cred ?c)) (drop 24 q), buf + 24 + 8 + auth_size (cb_cred ?c)) \<and>
    length s1 = pad (unat (oa_length (cb_cred ?c)))"
    by (rule put_auth_next) (use ok len assms(2) in simp_all)
  then obtain s1 where s1: "put_auth (?h @ drop 24 q) (buf + 24) (cb_cred ?c) =
      Some ((?h @ auth_wire (cb_cred ?c) s1) @ drop (8 + auth_size (cb_cred ?c)) (drop 24 q), buf + 24 + 8 + auth_size (cb_cred ?c))"
    "length s1 = pad (unat (oa_length (cb_cred ?c)))" by blast
  have "\<exists>s2. put_auth ((?h @ auth_wire (cb_cred ?c) s1) @ drop (8 + auth_size (cb_cred ?c)) (drop 24 q))
        (buf + 24 + 8 + auth_size (cb_cred ?c)) (cb_verf ?c) =
      Some (((?h @ auth_wire (cb_cred ?c) s1) @ auth_wire (cb_verf ?c) s2) @
        drop (8 + auth_size (cb_verf ?c)) (drop (8 + auth_size (cb_cred ?c)) (drop 24 q)),
        buf + 24 + 8 + auth_size (cb_cred ?c) + 8 + auth_size (cb_verf ?c)) \<and>
    length s2 = pad (unat (oa_length (cb_verf ?c)))"
    by (rule put_auth_next) (use ok len assms(2) length_auth_wire [of "cb_cred ?c" s1] s1(2) in simp_all)
  then obtain s2 where s2: "put_auth ((?h @ auth_wire (cb_cred ?c) s1) @ drop (8 + auth_size (cb_cred ?c)) (drop 24 q))
        (buf + 24 + 8 + auth_size (cb_cred ?c)) (cb_verf ?c) =
      Some (((?h @ auth_wire (cb_cred ?c) s1) @ auth_wire (cb_verf ?c) s2) @
        drop (8 + auth_size (cb_verf ?c)) (drop (8 + auth_size (cb_cred ?c)) (drop 24 q)),
        buf + 24 + 8 + auth_size (cb_cred ?c) + 8 + auth_size (cb_verf ?c))"
    "length s2 = pad (unat (oa_length (cb_verf ?c)))" by blast
  have d: "drop (8 + auth_size (cb_verf ?c)) (drop (8 + auth_size (cb_cred ?c)) (drop 24 q)) = drop (call_size m) q"
    by (simp add: call_size_def add_ac)
  have "put_call m (p @ q) buf = Some (True, p @ call_wire m s1 s2 @ drop (call_size m) q)"
    unfolding head s1(1) bind.bind_lunit prod.case s2(1) d using ok by (simp add: call_wire_def)
  with s1(2) s2(2) show ?thesis by blast
qed

section \<open>Decoding\<close>

definition same_call :: "'r rpc_msg \<Rightarrow> 'r rpc_msg \<Rightarrow> bool" where
  "same_call m' m \<longleftrightarrow> rm_xid m' = rm_xid m \<and> rm_direction m' = rm_direction m \<and>
     cb_rpcvers (rm_call m') = cb_rpcvers (rm_call m) \<and> cb_prog (rm_call m') = cb_prog (rm_call m) \<and>
     cb_vers (rm_call m') = cb_vers (rm_call m) \<and> cb_proc (rm_call m') = cb_proc (rm_call m) \<and>
     same_auth (cb_cred (rm_call m')) (cb_cred (rm_call m)) \<and> same_auth (cb_verf (rm_call m')) (cb_verf (rm_call m))"

text \<open>A stream with base \<open>b\<close> at address \<open>buf\<close> of memory \<open>r\<close> with \<open>n\<close> bytes left.\<close>

definition at_pos :: "xdrmem \<Rightarrow> addr \<Rightarrow> ram \<Rightarrow> addr \<Rightarrow> nat \<Rightarrow> bool" where
  "at_pos x b r buf n \<longleftrightarrow> x_base x = b \<and> x_ram x = r \<and> x_private x = buf \<and> unat (x_handy x) = n"

lemma inline_at_pos:
  assumes "at_pos x b r buf n" "unat len \<le> n"
  obtains x' where "in_line xdrmem_buf len x = (Some buf, x')" "at_pos x' b r (buf + unat len) (n - unat len)"
proof -
  from inline_ok [of len x] assms obtain x' where "in_line xdrmem_buf len x = (Some (x_private x), x')"
    "x_private x' = x_private x + unat len" "unat (x_handy x') = unat (x_handy x) - unat len" "x_ram x' = x_ram x" "x_base x' = x_base x"
    by (auto simp: at_pos_def)
  with assms(1) show thesis by (intro that [of x']) (simp_all add: at_pos_def)
qed

lemma in_ram_at_pos: "at_pos x b r buf n \<Longrightarrow> in_ram xdrmem_buf x = r"
  by (simp add: at_pos_def xdrmem_buf_def)

text \<open>There is a block for authentication data: the one given, or a new one.\<close>

definition has_block :: "(nat \<Rightarrow> u8 list option) \<Rightarrow> u8 list option \<Rightarrow> bool" where
  "has_block alloc base \<longleftrightarrow> (\<forall>n \<le> 400. \<exists>b. sure_block alloc n base = Some b \<and> unat n \<le> length b)"

lemma has_block_None: "allocates alloc \<Longrightarrow> has_block alloc None"
  unfolding has_block_def by (metis sure_allocates order_refl)

lemma has_block_Some: "400 \<le> length b \<Longrightarrow> has_block alloc (Some b)"
  by (auto simp: has_block_def sure_block_def word_le_nat_alt)

lemma get_auth_body_data:
  assumes oa: "auth_ok oa" and a0: "has_block alloc (oa_base a0)" "oa_flavor a0 = oa_flavor oa" "oa_length a0 = oa_length oa"
    and x: "at_pos x b (p @ auth_data oa @ q) (length p) n" and n: "auth_size oa \<le> n"
  shows "\<exists>a1 x1. get_auth_body xdrmem_ops xdrmem_buf alloc a0 x = Some (True, a1, x1) \<and> same_auth a1 oa \<and>
    at_pos x1 b (p @ auth_data oa @ q) (length p + auth_size oa) (n - auth_size oa)"
proof (cases "oa_length oa = 0")
  case True
  then show ?thesis using x a0 by (simp add: get_auth_body_def same_auth_def auth_data_def auth_size_def pad_def)
next
  case False
  let ?n = "oa_length oa" and ?d = "auth_data oa"
  have d: "length ?d = unat ?n" by (rule length_auth_data [OF oa])
  obtain bl where bl: "sure_block alloc ?n (oa_base a0) = Some bl" "unat ?n \<le> length bl"
    using a0(1) oa by (auto simp: has_block_def auth_ok_def)
  let ?b = "?d @ drop (unat ?n) bl"
  obtain x1 where x1: "in_line xdrmem_buf (rndup ?n) x = (Some (length p), x1)"
    "at_pos x1 b (p @ ?d @ q) (length p + auth_size oa) (n - auth_size oa)"
    using inline_at_pos [OF x, of "rndup ?n"] n by (auto simp: auth_size_rndup [OF oa])
  have sg: "seg (length p) (unat ?n) (p @ ?d @ q) = ?d" using d by (simp add: seg_def)
  have "get_auth_body xdrmem_ops xdrmem_buf alloc a0 x = Some (True, a0\<lparr>oa_base := Some ?b\<rparr>, x1)"
    using False oa a0(2,3) bl x1 in_ram_at_pos [OF x1(2)] d
    by (simp add: get_auth_body_def auth_ok_def sg store_bytes_def not_less)
  moreover have "same_auth (a0\<lparr>oa_base := Some ?b\<rparr>) oa"
    using a0 d unfolding same_auth_def auth_data_def [of "a0\<lparr>oa_base := Some ?b\<rparr>"] by (simp add: block_def)
  ultimately show ?thesis using x1(2) by blast
qed

lemma get_verf_head_data:
  assumes "at_pos x b (p @ be32 f @ be32 k @ q) (length p) n" "8 \<le> n"
  shows "\<exists>x1. get_verf_head xdrmem_ops xdrmem_buf a0 x = Some (True, a0\<lparr>oa_flavor := f, oa_length := k\<rparr>, x1) \<and>
    at_pos x1 b (p @ be32 f @ be32 k @ q) (length p + 8) (n - 8)"
proof -
  obtain x1 where x1: "in_line xdrmem_buf 8 x = (Some (length p), x1)"
    "at_pos x1 b (p @ be32 f @ be32 k @ q) (length p + 8) (n - 8)"
    using inline_at_pos [OF assms(1), of 8] assms(2) by auto
  have "get_long (p @ be32 f @ be32 k @ q) (length p) = Some f" by (rule get_long_at [of _ p]) simp_all
  moreover have "get_long (p @ be32 f @ be32 k @ q) (length p + 4) = Some k"
    by (rule get_long_at [of _ "p @ be32 f"]) simp_all
  ultimately show ?thesis using x1 in_ram_at_pos [OF x1(2)] by (simp add: get_verf_head_def)
qed

lemma get_call_data:
  assumes m: "call_ok m" and m0: "has_block alloc (oa_base (cb_cred (rm_call m0)))" "has_block alloc (oa_base (cb_verf (rm_call m0)))"
    and s: "length s1 = pad (unat (oa_length (cb_cred (rm_call m))))" "length s2 = pad (unat (oa_length (cb_verf (rm_call m))))"
    and x: "at_pos x b (p @ call_wire m s1 s2 @ q) (length p + 32) (n - 32)" and n: "call_size m \<le> n"
  shows "\<exists>m' y. get_call xdrmem_ops xdrmem_buf alloc m0 x (length p) = Some (True, m', y) \<and> same_call m' m \<and>
    at_pos y b (p @ call_wire m s1 s2 @ q) (length p + call_size m) (n - call_size m)"
proof -
  let ?c = "rm_call m" and ?r = "p @ call_wire m s1 s2 @ q" and ?g = "\<lambda>k. get_long (p @ call_wire m s1 s2 @ q) (length p + k)"
  let ?f1 = "oa_flavor (cb_cred ?c)" and ?n1 = "oa_length (cb_cred ?c)" and ?f2 = "oa_flavor (cb_verf ?c)" and ?n2 = "oa_length (cb_verf ?c)"
  note ok = m [unfolded call_ok_def]
  note w = call_wire_def auth_wire_def
  let ?h = "p @ be32 (rm_xid m) @ be32 0 @ be32 2 @ be32 (cb_prog ?c) @ be32 (cb_vers ?c) @ be32 (cb_proc ?c)"
  have g0: "get_long ?r (length p) = Some (rm_xid m)" by (rule get_long_at [of _ p]) (simp_all add: w)
  have g1: "?g 4 = Some 0" by (rule get_long_at [of _ "p @ be32 (rm_xid m)"]) (simp_all add: w)
  have g2: "?g 8 = Some 2" by (rule get_long_at [of _ "p @ be32 (rm_xid m) @ be32 0"]) (simp_all add: w)
  have g3: "?g 12 = Some (cb_prog ?c)" by (rule get_long_at [of _ "p @ be32 (rm_xid m) @ be32 0 @ be32 2"]) (simp_all add: w)
  have g4: "?g 16 = Some (cb_vers ?c)"
    by (rule get_long_at [of _ "p @ be32 (rm_xid m) @ be32 0 @ be32 2 @ be32 (cb_prog ?c)"]) (simp_all add: w)
  have g5: "?g 20 = Some (cb_proc ?c)"
    by (rule get_long_at [of _ "p @ be32 (rm_xid m) @ be32 0 @ be32 2 @ be32 (cb_prog ?c) @ be32 (cb_vers ?c)"]) (simp_all add: w)
  have g6: "?g 24 = Some ?f1" by (rule get_long_at [of _ ?h]) (simp_all add: w)
  have g7: "?g 28 = Some ?n1" by (rule get_long_at [of _ "?h @ be32 ?f1"]) (simp_all add: w)
  have ns: "auth_size (cb_cred ?c) \<le> n - 32" "8 \<le> n - 32 - auth_size (cb_cred ?c)"
    "auth_size (cb_verf ?c) \<le> n - 32 - auth_size (cb_cred ?c) - 8" using n by (simp_all add: call_size_def)
  let ?p1 = "?h @ be32 ?f1 @ be32 ?n1"
  let ?cm = "(rm_call m0)\<lparr>cb_rpcvers := 2, cb_prog := cb_prog ?c, cb_vers := cb_vers ?c, cb_proc := cb_proc ?c\<rparr>"
  have r1: "?r = ?p1 @ auth_data (cb_cred ?c) @ s1 @ auth_wire (cb_verf ?c) s2 @ q" by (simp add: w)
  have "at_pos x b (?p1 @ auth_data (cb_cred ?c) @ s1 @ auth_wire (cb_verf ?c) s2 @ q) (length ?p1) (n - 32)"
    using x unfolding r1 by simp
  from get_auth_body_data [OF _ _ _ _ this, where alloc = alloc and ?a0.0 = "(cb_cred (rm_call m0))\<lparr>oa_flavor := ?f1, oa_length := ?n1\<rparr>"] ok m0(1)
  obtain a1 x1 where a1: "get_auth_body xdrmem_ops xdrmem_buf alloc ((cb_cred (rm_call m0))\<lparr>oa_flavor := ?f1, oa_length := ?n1\<rparr>) x =
      Some (True, a1, x1)" "same_auth a1 (cb_cred ?c)" "at_pos x1 b ?r (length ?p1 + auth_size (cb_cred ?c)) (n - 32 - auth_size (cb_cred ?c))"
    unfolding r1 [symmetric] using ns(1) by auto
  let ?p2 = "?p1 @ auth_data (cb_cred ?c) @ s1"
  have l2: "length ?p2 = length ?p1 + auth_size (cb_cred ?c)"
    using ok s(1) by (simp add: auth_size_def length_auth_data)
  have r2: "?r = ?p2 @ be32 ?f2 @ be32 ?n2 @ auth_data (cb_verf ?c) @ s2 @ q" by (simp add: w)
  have "at_pos x1 b (?p2 @ be32 ?f2 @ be32 ?n2 @ auth_data (cb_verf ?c) @ s2 @ q) (length ?p2) (n - 32 - auth_size (cb_cred ?c))"
    using a1(3) unfolding r2 [symmetric] l2 .
  from get_verf_head_data [OF this, of "cb_verf (rm_call m0)"]
  obtain x2 where x2: "get_verf_head xdrmem_ops xdrmem_buf (cb_verf (rm_call m0)) x1 =
      Some (True, (cb_verf (rm_call m0))\<lparr>oa_flavor := ?f2, oa_length := ?n2\<rparr>, x2)"
    "at_pos x2 b ?r (length ?p2 + 8) (n - 32 - auth_size (cb_cred ?c) - 8)"
    unfolding r2 [symmetric] using ns(2) by auto
  let ?p3 = "?p2 @ be32 ?f2 @ be32 ?n2"
  have r3: "?r = ?p3 @ auth_data (cb_verf ?c) @ s2 @ q" by (simp add: w)
  have "at_pos x2 b (?p3 @ auth_data (cb_verf ?c) @ s2 @ q) (length ?p3) (n - 32 - auth_size (cb_cred ?c) - 8)"
    using x2(2) unfolding r3 [symmetric] by (simp add: add_ac)
  from get_auth_body_data [OF _ _ _ _ this, where alloc = alloc and ?a0.0 = "(cb_verf (rm_call m0))\<lparr>oa_flavor := ?f2, oa_length := ?n2\<rparr>"] ok m0(2)
  obtain a2 x3 where a2: "get_auth_body xdrmem_ops xdrmem_buf alloc ((cb_verf (rm_call m0))\<lparr>oa_flavor := ?f2, oa_length := ?n2\<rparr>) x2 =
      Some (True, a2, x3)" "same_auth a2 (cb_verf ?c)"
    "at_pos x3 b ?r (length ?p3 + auth_size (cb_verf ?c)) (n - 32 - auth_size (cb_cred ?c) - 8 - auth_size (cb_verf ?c))"
    unfolding r3 [symmetric] using ns(3) by auto
  have "length ?p3 + auth_size (cb_verf ?c) = length p + call_size m" using l2 by (simp add: call_size_def)
  moreover have "n - 32 - auth_size (cb_cred ?c) - 8 - auth_size (cb_verf ?c) = n - call_size m" by (simp add: call_size_def)
  ultimately have x3: "at_pos x3 b ?r (length p + call_size m) (n - call_size m)" using a2(3) by (simp only:)
  have "get_call xdrmem_ops xdrmem_buf alloc m0 x (length p) =
      Some (True, m0\<lparr>rm_xid := rm_xid m, rm_direction := 0, rm_call := ?cm\<lparr>cb_cred := a1, cb_verf := a2\<rparr>\<rparr>, x3)"
    using g0 g1 g2 g3 g4 g5 g6 g7 a1(1) x2(1) a2(1) by (simp add: get_call_def in_ram_at_pos [OF x] Let_def)
  moreover have "same_call (m0\<lparr>rm_xid := rm_xid m, rm_direction := 0, rm_call := ?cm\<lparr>cb_cred := a1, cb_verf := a2\<rparr>\<rparr>) m"
    using ok a1(2) a2(2) by (simp add: same_call_def)
  ultimately show ?thesis using x3 by blast
qed

lemma callmsg_decode:
  assumes m: "call_ok m" and m0: "has_block alloc (oa_base (cb_cred (rm_call m0)))" "has_block alloc (oa_base (cb_verf (rm_call m0)))"
    and s: "length s1 = pad (unat (oa_length (cb_cred (rm_call m))))" "length s2 = pad (unat (oa_length (cb_verf (rm_call m))))"
    and x: "at_pos x b (p @ call_wire m s1 s2 @ q) (length p) n" and n: "call_size m \<le> n"
  shows "\<exists>m' y. xdr_callmsg xdrmem_ops xdrmem_buf alloc XDR_DECODE m0 x = Some (True, m', y) \<and> same_call m' m \<and>
    at_pos y b (p @ call_wire m s1 s2 @ q) (length p + call_size m) (n - call_size m)"
proof -
  have "unat (32 :: u32) \<le> n" using n by (simp add: call_size_def)
  from inline_at_pos [OF x this] obtain x1 where x1: "in_line xdrmem_buf 32 x = (Some (length p), x1)"
    "at_pos x1 b (p @ call_wire m s1 s2 @ q) (length p + 32) (n - 32)" by auto
  from get_call_data [OF m m0 s x1(2) n] obtain m' y where
    "get_call xdrmem_ops xdrmem_buf alloc m0 x1 (length p) = Some (True, m', y)" "same_call m' m"
    "at_pos y b (p @ call_wire m s1 s2 @ q) (length p + call_size m) (n - call_size m)" by blast
  then show ?thesis using x1(1) by (simp add: xdr_callmsg_def Let_def)
qed

section \<open>A call from the client to the server\<close>

text \<open>C33: a call that the client encodes into a memory stream with room for it is decoded by the server with the same
  transaction, program, version, procedure, credentials and verifier. It takes exactly the size of the header and the
  rounded authentication data.\<close>

theorem callmsg_transfer:
  assumes m: "call_ok m" and al: "allocates alloc"
    and m0: "oa_base (cb_cred (rm_call m0)) = None" "oa_base (cb_verf (rm_call m0)) = None"
    and room: "a + unat sz \<le> length ram" "call_size m \<le> unat sz"
  shows "\<exists>x m' y. xdr_callmsg xdrmem_ops xdrmem_buf alloc0 XDR_ENCODE m (xdrmem_create a sz ram) = Some (True, m, x) \<and>
    x_private x = a + call_size m \<and>
    xdr_callmsg xdrmem_ops xdrmem_buf alloc XDR_DECODE m0 (xdrmem_create a (of_nat (call_size m)) (x_ram x)) = Some (True, m', y) \<and>
    same_call m' m"
proof -
  let ?c = "rm_call m" and ?p = "take a ram" and ?q = "drop a ram"
  note ok = m [unfolded call_ok_def]
  have la: "length ?p = a" "call_size m \<le> length ?q" using room by simp_all
  have le: "auth_size (cb_cred ?c) \<le> 403" "auth_size (cb_verf ?c) \<le> 403" using ok auth_size_le by blast+
  then have cs: "call_size m \<le> 846" by (simp add: call_size_def)
  have len: "unat (8 * 4 + rndup (oa_length (cb_cred ?c)) + 2 * 4 + rndup (oa_length (cb_verf ?c))) = call_size m"
    using ok le by (simp add: unat_word_ariths auth_size_rndup call_size_def)
  have "at_pos (xdrmem_create a sz ram) a ram a (unat sz)" by (simp add: at_pos_def xdrmem_create_def)
  from inline_at_pos [OF this, of "8 * 4 + rndup (oa_length (cb_cred ?c)) + 2 * 4 + rndup (oa_length (cb_verf ?c))"] room(2)
  obtain x where x: "in_line xdrmem_buf (8 * 4 + rndup (oa_length (cb_cred ?c)) + 2 * 4 + rndup (oa_length (cb_verf ?c)))
      (xdrmem_create a sz ram) = (Some a, x)" "at_pos x a ram (a + call_size m) (unat sz - call_size m)"
    unfolding len by blast
  obtain s1 s2 where w: "put_call m ram a = Some (True, ?p @ call_wire m s1 s2 @ drop (call_size m) ?q)"
    "length s1 = pad (unat (oa_length (cb_cred ?c)))" "length s2 = pad (unat (oa_length (cb_verf ?c)))"
    using put_call_next [OF m la] by auto
  let ?r = "?p @ call_wire m s1 s2 @ drop (call_size m) ?q"
  let ?x = "x\<lparr>x_ram := ?r\<rparr>"
  have enc: "xdr_callmsg xdrmem_ops xdrmem_buf alloc0 XDR_ENCODE m (xdrmem_create a sz ram) = Some (True, m, ?x)"
    using x(1) w(1) in_ram_at_pos [OF x(2)] ok by (simp add: xdr_callmsg_def auth_ok_def Let_def not_less xdrmem_buf_def)
  have u: "unat (of_nat (call_size m) :: u32) = call_size m" using cs by (simp add: unat_of_nat)
  have "at_pos (xdrmem_create a (of_nat (call_size m)) ?r) a ?r (length ?p) (call_size m)"
    unfolding la(1) by (simp only: at_pos_def xdrmem_create_def xdrmem.simps u simp_thms)
  moreover have "has_block alloc (oa_base (cb_cred (rm_call m0)))" "has_block alloc (oa_base (cb_verf (rm_call m0)))"
    by (simp_all add: m0 has_block_None al)
  ultimately
  obtain m' y where dec: "xdr_callmsg xdrmem_ops xdrmem_buf alloc XDR_DECODE m0 (xdrmem_create a (of_nat (call_size m)) ?r) = Some (True, m', y)"
    and y: "same_call m' m" using callmsg_decode [OF m _ _ w(2,3) _ order_refl] by blast
  show ?thesis
    by (rule exI [of _ ?x], rule exI [of _ m'], rule exI [of _ y]) (use enc dec y x(2) in \<open>simp add: at_pos_def\<close>)
qed

theorem callmsg_transfer_witness:
  "\<exists>m m0 x m' y. rm_xid m = 7 \<and> cb_proc (rm_call m) = 3 \<and> rm_xid (m0 :: u32 rpc_msg) = 0 \<and>
    xdr_callmsg xdrmem_ops xdrmem_buf (\<lambda>n. None) XDR_ENCODE m (xdrmem_create 4 60 (replicate 64 9)) = Some (True, m :: u32 rpc_msg, x) \<and>
    xdr_callmsg xdrmem_ops xdrmem_buf (\<lambda>n. Some (replicate n 0)) XDR_DECODE m0 (xdrmem_create 4 44 (x_ram x)) = Some (True, m', y) \<and>
    rm_xid m' = 7 \<and> cb_proc (rm_call m') = 3"
proof -
  define v where "v = \<lparr>oa_flavor = 0, oa_base = None, oa_length = 0\<rparr>"
  define c where "c = \<lparr>cb_rpcvers = 2, cb_prog = 100000, cb_vers = 2, cb_proc = 3,
    cb_cred = \<lparr>oa_flavor = 1, oa_base = Some [1, 2, 3], oa_length = 3\<rparr>, cb_verf = v\<rparr>"
  define a where "a = \<lparr>ar_verf = v, ar_stat = 0, ar_low = 0, ar_high = 0, ar_where = 0 :: u32\<rparr>"
  define r where "r = \<lparr>rj_stat = 0, rj_low = 0, rj_high = 0, rj_why = 0\<rparr>"
  define m where "m = \<lparr>rm_xid = 7, rm_direction = 0, rm_call = c, rp_stat = 0, rp_acpt = a, rp_rjct = r\<rparr>"
  define m0 where "m0 = \<lparr>rm_xid = 0, rm_direction = 0, rm_call = c\<lparr>cb_proc := 0, cb_cred := v\<rparr>, rp_stat = 0, rp_acpt = a, rp_rjct = r\<rparr>"
  have ok: "call_ok m" "allocates (\<lambda>n. Some (replicate n 0))" "oa_base (cb_cred (rm_call m0)) = None" "oa_base (cb_verf (rm_call m0)) = None"
    by (simp_all add: m_def m0_def c_def v_def call_ok_def auth_ok_def block_def allocates_def)
  have sz: "call_size m = 44" by (simp add: m_def c_def v_def call_size_def auth_size_def pad_def)
  have v: "rm_xid m = 7" "cb_proc (rm_call m) = 3" "rm_xid m0 = 0" by (simp_all add: m_def m0_def c_def)
  show ?thesis
    by (rule exI [of _ m], rule exI [of _ m0], insert callmsg_transfer [OF ok, of 4 60 "replicate 64 9" "\<lambda>n. None"])
      (auto simp: same_call_def sz v)
qed

end
