(* ===== verification/Svc_Correct.thy ===== *)
theory Svc_Correct
  imports Svc Rpc_Call
begin

text \<open>
  What the server of theory \<open>Svc\<close> answers to a datagram. Filters are used here over one buffer: the view \<open>buf_view b e\<close>
  of memory streams with base \<open>b\<close> and end \<open>e\<close>, another interpretation of \<open>xdr_stream\<close>.
\<close>

section \<open>Streams over one buffer\<close>

definition same_buf :: "xdrmem \<Rightarrow> xdrmem \<Rightarrow> bool" where
  "same_buf x' x \<longleftrightarrow> x_base x' = x_base x \<and> x_private x' + unat (x_handy x') = x_private x + unat (x_handy x)"

lemma unat_minus: "n \<le> (h :: u32) \<Longrightarrow> unat (h - n) + unat n = unat h"
  by (simp add: unat_sub word_le_nat_alt)

lemma same_buf_ops:
  "x_putlong xdrmem_ops l x = Some (b, x') \<Longrightarrow> same_buf x' x"
  "x_putbytes xdrmem_ops bs len x = Some (b, x') \<Longrightarrow> same_buf x' x"
  "x_getlong xdrmem_ops x = Some (r, x') \<Longrightarrow> same_buf x' x"
  "x_getbytes xdrmem_ops len x = Some (b, w, x') \<Longrightarrow> same_buf x' x"
  using unat_minus [of 4 "x_handy x"] unat_minus [of len "x_handy x"]
  by (auto simp: xdrmem_ops_def xdrmem_putlong_def xdrmem_putbytes_def xdrmem_getlong_def xdrmem_getbytes_def same_buf_def
      Let_def not_less split: if_splits Option.bind_splits)

definition buf_view :: "addr \<Rightarrow> addr \<Rightarrow> xdrmem xview" where
  "buf_view b e = mem_view\<lparr>wok := \<lambda>x. mem_ok x \<and> x_base x = b \<and> x_private x + unat (x_handy x) = e,
     rok := \<lambda>x. mem_ok x \<and> x_base x = b \<and> x_private x + unat (x_handy x) = e\<rparr>"

lemma buf_view_simps:
  "wok (buf_view b e) x \<longleftrightarrow> wok mem_view x \<and> x_base x = b \<and> x_private x + unat (x_handy x) = e"
  "rok (buf_view b e) x \<longleftrightarrow> rok mem_view x \<and> x_base x = b \<and> x_private x + unat (x_handy x) = e"
  "fits (buf_view b e) = fits mem_view" "written (buf_view b e) = written mem_view" "ahead (buf_view b e) = ahead mem_view"
  by (simp_all add: buf_view_def mem_view_def)

interpretation buf: xdr_stream xdrmem_ops "buf_view b e" for b e
proof
  fix x :: xdrmem and w len :: u32 and bs :: "u8 list" and m n :: nat
  let ?V = "buf_view b e"
  note v = buf_view_simps
  show "wok ?V x \<Longrightarrow> fits ?V x n \<Longrightarrow> m \<le> n \<Longrightarrow> fits ?V x m" "wok ?V x \<Longrightarrow> fits ?V x 0"
    unfolding v using mem.fits_less mem.fits_0 by blast+
  show "wok ?V x \<Longrightarrow> fits ?V x 4 \<Longrightarrow> \<exists>x'. x_putlong xdrmem_ops w x = Some (True, x') \<and> wok ?V x' \<and>
      written ?V x' = written ?V x @ be32 w \<and> (\<forall>n. fits ?V x' n \<longleftrightarrow> fits ?V x (4 + n))"
    unfolding v using mem.putlong [of x w] same_buf_ops(1) [of w x] unfolding same_buf_def by metis
  show "wok ?V x \<Longrightarrow> \<not> fits ?V x 4 \<Longrightarrow> \<exists>x'. x_putlong xdrmem_ops w x = Some (False, x')"
    unfolding v using mem.putlong_full [of x w] by blast
  show "wok ?V x \<Longrightarrow> fits ?V x (unat len) \<Longrightarrow> unat len \<le> length bs \<Longrightarrow>
      \<exists>x'. x_putbytes xdrmem_ops bs len x = Some (True, x') \<and> wok ?V x' \<and>
        written ?V x' = written ?V x @ take (unat len) bs \<and> (\<forall>n. fits ?V x' n \<longleftrightarrow> fits ?V x (unat len + n))"
    unfolding v using mem.putbytes [of x len bs] same_buf_ops(2) [of bs len x] unfolding same_buf_def by metis
  show "wok ?V x \<Longrightarrow> \<not> fits ?V x (unat len) \<Longrightarrow> unat len \<le> length bs \<Longrightarrow> \<exists>x'. x_putbytes xdrmem_ops bs len x = Some (False, x')"
    unfolding v using mem.putbytes_full [of x len bs] by blast
  show "rok ?V x \<Longrightarrow> 4 \<le> length (ahead ?V x) \<Longrightarrow> \<exists>x'. x_getlong xdrmem_ops x = Some (Some (of_be32 (take 4 (ahead ?V x))), x') \<and>
      rok ?V x' \<and> ahead ?V x' = drop 4 (ahead ?V x)"
    unfolding v using mem.getlong [of x] same_buf_ops(3) [of x] unfolding same_buf_def by metis
  show "rok ?V x \<Longrightarrow> length (ahead ?V x) < 4 \<Longrightarrow> \<exists>x'. x_getlong xdrmem_ops x = Some (None, x')"
    unfolding v using mem.getlong_short [of x] by blast
  show "rok ?V x \<Longrightarrow> unat len \<le> length (ahead ?V x) \<Longrightarrow> \<exists>x'. x_getbytes xdrmem_ops len x = Some (True, take (unat len) (ahead ?V x), x') \<and>
      rok ?V x' \<and> ahead ?V x' = drop (unat len) (ahead ?V x)"
    unfolding v using mem.getbytes [of x len] same_buf_ops(4) [of len x] unfolding same_buf_def by metis
  show "rok ?V x \<Longrightarrow> length (ahead ?V x) < unat len \<Longrightarrow> \<exists>x' w. x_getbytes xdrmem_ops len x = Some (False, w, x') \<and> length w \<le> unat len"
    unfolding v using mem.getbytes_short [of x len] by blast
qed

text \<open>\<open>XDR_SETPOS (xdrs, 0)\<close> goes back to the base as long as the buffer ends below 2 GB.\<close>

lemma setpos_0:
  assumes "x_private x + unat (x_handy x) = e" "x_base x \<le> e" "e < 2147483648"
  shows "xdrmem_setpos 0 x = (True, x\<lparr>x_private := x_base x, x_handy := of_nat (e - x_base x)\<rparr>)"
proof -
  have b: "unat (of_nat (x_base x) :: u32) = x_base x" "unat (of_nat e :: u32) = e"
    using assms by (simp_all add: unat_of_nat)
  have l: "of_nat (x_private x) + x_handy x = (of_nat e :: u32)"
    unfolding assms(1) [symmetric] by simp
  have s: "sint (of_nat (x_base x) :: u32) = int (x_base x)" "sint (of_nat e :: u32) = int e"
    using sint_of_small [of "of_nat (x_base x)"] sint_of_small [of "of_nat e"] b assms(2,3) by simp_all
  have "(of_nat e :: u32) - of_nat (x_base x) = of_nat (e - x_base x)" using assms(2) by (simp add: of_nat_diff)
  then show ?thesis using l s b(1) assms(2) by (simp add: xdrmem_setpos_def Let_def)
qed

section \<open>A datagram transport\<close>

definition udp_end :: "'a svcudp \<Rightarrow> addr" where
  "udp_end x = x_base (su_xdrs x) + unat (su_iosz x)"

text \<open>Between two datagrams: the stream is over the transport's buffer.\<close>

definition udp_ok :: "'a svcudp \<Rightarrow> bool" where
  "udp_ok x \<longleftrightarrow> wok (buf_view (x_base (su_xdrs x)) (udp_end x)) (su_xdrs x) \<and> udp_end x < 2147483648"

lemma udp_rewind:
  assumes "udp_ok x"
  shows "\<exists>y. xdrmem_setpos 0 (su_xdrs x) = (True, y) \<and> at_pos y (x_base (su_xdrs x)) (x_ram (su_xdrs x)) (x_base (su_xdrs x)) (unat (su_iosz x)) \<and>
    wok (buf_view (x_base (su_xdrs x)) (udp_end x)) y"
proof -
  let ?s = "su_xdrs x"
  have e: "x_private ?s + unat (x_handy ?s) = udp_end x" "udp_end x < 2147483648" "x_base ?s \<le> udp_end x" "mem_ok ?s"
    using assms by (auto simp: udp_ok_def buf_view_simps udp_end_def)
  have u: "unat (of_nat (udp_end x - x_base ?s) :: u32) = unat (su_iosz x)" by (simp add: udp_end_def)
  show ?thesis using setpos_0 [OF e(1,3,2)] e(1,4) u
    by (auto simp: at_pos_def buf_view_simps mem_ok_def udp_end_def simp del: of_nat_unat)
qed

lemma get_set_xprt [simp]: "h < length (wd_xprts w) \<Longrightarrow> get_xprt (set_xprt h x w) h = Some x"
  by (simp add: get_xprt_def set_xprt_def)

lemma get_xprt_net [simp]: "get_xprt (w\<lparr>wd_net := n\<rparr>) h = get_xprt w h"
  by (simp add: get_xprt_def)

lemma set_set_xprt [simp]: "set_xprt h y (set_xprt h x w) = set_xprt h y w"
  by (simp add: set_xprt_def)

lemma get_xprt_length: "get_xprt w h = Some x \<Longrightarrow> h < length (wd_xprts w)"
  by (simp add: get_xprt_def split: if_splits)

text \<open>A call arrives.\<close>

definition call_data :: "('v, 'p) msg \<Rightarrow> u8 list \<Rightarrow> u8 list \<Rightarrow> bool" where
  "call_data m args d \<longleftrightarrow> call_ok m \<and> (\<exists>s1 s2. d = call_wire m s1 s2 @ args \<and>
     length s1 = pad (unat (oa_length (cb_cred (rm_call m)))) \<and> length s2 = pad (unat (oa_length (cb_verf (rm_call m)))))"

lemma length_call_wire:
  "call_ok m \<Longrightarrow> length s1 = pad (unat (oa_length (cb_cred (rm_call m)))) \<Longrightarrow>
    length s2 = pad (unat (oa_length (cb_verf (rm_call m)))) \<Longrightarrow> length (call_wire m s1 s2) = call_size m"
  by (simp add: call_wire_def call_ok_def length_auth_wire call_size_def)

lemma svcudp_recv_call:
  assumes w: "get_xprt w h = Some x" "udp_ok x"
    and r: "so_recvfrom K (xp_sock x) (unat (su_iosz x)) (wd_net w) = (Inr (d, from), n)" "length d \<le> unat (su_iosz x)"
    and d: "call_data m args d"
    and b: "has_block alloc (oa_base (cb_cred (rm_call m0)))" "has_block alloc (oa_base (cb_verf (rm_call m0)))"
  shows "\<exists>m' xd rest. svcudp_recv K alloc h m0 w = Some (True, m', set_xprt h (x\<lparr>xp_raddr := from, su_op := XDR_DECODE,
      su_xdrs := xd, su_xid := rm_xid m\<rparr>) (w\<lparr>wd_net := n\<rparr>)) \<and> same_call m' m \<and>
    rok (buf_view (x_base (su_xdrs x)) (udp_end x)) xd \<and> ahead (buf_view (x_base (su_xdrs x)) (udp_end x)) xd = args @ rest"
proof -
  let ?s = "su_xdrs x" and ?b = "x_base (su_xdrs x)"
  obtain s1 s2 where d': "call_ok m" "d = call_wire m s1 s2 @ args" "length s1 = pad (unat (oa_length (cb_cred (rm_call m))))"
    "length s2 = pad (unat (oa_length (cb_verf (rm_call m))))" using d by (auto simp: call_data_def)
  note lw = length_call_wire [OF d'(1,3,4)]
  have fit: "?b + unat (su_iosz x) \<le> length (x_ram ?s)" "?b + length d \<le> length (x_ram ?s)"
    using w(2) r(2) by (auto simp: udp_ok_def buf_view_simps mem_ok_def udp_end_def)
  let ?m = "patch ?b d (x_ram ?s)"
  let ?x = "x\<lparr>xp_raddr := from, su_xdrs := ?s\<lparr>x_ram := ?m\<rparr>\<rparr>"
  have lm: "length ?m = length (x_ram ?s)" using fit(2) by (rule length_patch)
  have "udp_ok ?x" using w(2) by (simp add: udp_ok_def buf_view_simps mem_ok_def udp_end_def lm)
  from udp_rewind [OF this] obtain y where y: "xdrmem_setpos 0 (?s\<lparr>x_ram := ?m\<rparr>) = (True, y)"
    "at_pos y ?b ?m ?b (unat (su_iosz x))" by auto
  let ?p = "take ?b (x_ram ?s)" and ?q = "args @ drop (?b + length d) (x_ram ?s)"
  have m: "?m = ?p @ call_wire m s1 s2 @ ?q" by (simp add: patch_def d'(2))
  have lp: "length ?p = ?b" using fit by simp
  have cs: "call_size m \<le> unat (su_iosz x)" "length d = call_size m + length args" using r(2) lw by (simp_all add: d'(2))
  have "at_pos y ?b (?p @ call_wire m s1 s2 @ ?q) (length ?p) (unat (su_iosz x))" using y(2) unfolding m lp .
  from callmsg_decode [OF d'(1) b d'(3,4) this cs(1)] obtain m' xd where
    xd: "xdr_callmsg xdrmem_ops xdrmem_buf alloc XDR_DECODE m0 y = Some (True, m', xd)" "same_call m' m"
    "at_pos xd ?b ?m (?b + call_size m) (unat (su_iosz x) - call_size m)" unfolding lp m [symmetric] by blast
  have "rm_xid m' = rm_xid m" using xd(2) by (simp add: same_call_def)
  moreover have "16 \<le> length d" using cs(2) by (simp add: call_size_def)
  ultimately have "svcudp_recv K alloc h m0 w = Some (True, m', set_xprt h (x\<lparr>xp_raddr := from, su_op := XDR_DECODE,
      su_xdrs := xd, su_xid := rm_xid m\<rparr>) (w\<lparr>wd_net := n\<rparr>))"
    using w(1) r fit(2) y(1) xd(1) by (subst svcudp_recv.simps) (simp add: Let_def not_less)
  moreover have "rok (buf_view ?b (udp_end x)) xd"
    using xd(3) cs(1) fit(1) lm by (auto simp: buf_view_simps at_pos_def mem_ok_def udp_end_def)
  moreover have "ahead (buf_view ?b (udp_end x)) xd = args @ take (unat (su_iosz x) - length d) (drop (?b + length d) (x_ram ?s))"
  proof -
    have "drop (?b + call_size m) ?m = ?q" unfolding m using lp lw by simp
    then have "ahead (buf_view ?b (udp_end x)) xd = take (unat (su_iosz x) - call_size m) ?q"
      using xd(3) by (simp add: buf_view_simps at_pos_def seg_def)
    also have "\<dots> = args @ take (unat (su_iosz x) - length d) (drop (?b + length d) (x_ram ?s))"
      using cs r(2) by simp
    finally show ?thesis .
  qed
  ultimately show ?thesis using xd(2) by blast
qed

text \<open>An accepted reply is sent.\<close>

definition answer_bytes :: "u32 \<Rightarrow> u32 \<Rightarrow> u32 \<Rightarrow> u32 \<Rightarrow> u8 list \<Rightarrow> u8 list" where
  "answer_bytes xid st low high rb = be32 xid @ be32 1 @ be32 0 @ be32 0 @ be32 0 @ be32 st @
     (if st = 0 then rb else if st = 2 then be32 low @ be32 high else [])"

lemma results_emits: "emits V (procs (rs_proc r)) (rs_where r) bs \<Longrightarrow> emits V (xdr_results procs) r bs"
  unfolding emits_def xdr_results_def by (fastforce split: if_splits)

lemma svcudp_reply_sends:
  assumes w: "get_xprt w h = Some x" "udp_ok x"
    and m: "rm_direction m = 1" "rp_stat m = 0" "oa_flavor (ar_verf (rp_acpt m)) = 0" "oa_length (ar_verf (rp_acpt m)) = 0"
    and rb: "ar_stat (rp_acpt m) = 0 \<Longrightarrow> emits (buf_view (x_base (su_xdrs x)) (udp_end x))
      (procs (rs_proc (ar_where (rp_acpt m)))) (rs_where (ar_where (rp_acpt m))) rb"
    and bs: "bs = answer_bytes (su_xid x) (ar_stat (rp_acpt m)) (ar_low (rp_acpt m)) (ar_high (rp_acpt m)) rb"
      "length bs \<le> unat (su_iosz x)"
    and n: "so_sendto K (xp_sock x) bs (xp_raddr x) (wd_net w) = (r, n)"
  shows "\<exists>xd. svcudp_reply K alloc procs h m w =
      Some (r = int (length bs), (set_xprt h (x\<lparr>su_op := XDR_ENCODE, su_xdrs := xd\<rparr>) w)\<lparr>wd_net := n\<rparr>)"
proof -
  let ?V = "buf_view (x_base (su_xdrs x)) (udp_end x)" and ?m = "m\<lparr>rm_xid := su_xid x\<rparr>"
  obtain y where y: "xdrmem_setpos 0 (su_xdrs x) = (True, y)" "wok ?V y"
    "at_pos y (x_base (su_xdrs x)) (x_ram (su_xdrs x)) (x_base (su_xdrs x)) (unat (su_iosz x))"
    using udp_rewind [OF w(2)] by blast
  have ok: "reply_ok ?m" using m by (simp add: reply_ok_def auth_ok_def)
  have "emits ?V (xdr_replymsg xdrmem_ops alloc (xdr_results procs)) ?m (reply_bytes ?m rb)"
    by (rule buf.reply_emits [OF ok]) (use rb in \<open>auto intro: results_emits\<close>)
  moreover have "reply_bytes ?m rb = bs"
    using m by (simp add: bs(1) reply_bytes_def acpt_bytes_def auth_bytes_def answer_bytes_def auth_data_def padded_def pad_def)
  moreover have "fits ?V y (length bs)" "written ?V y = []" using y(3) bs(2) by (simp_all add: buf_view_simps at_pos_def)
  ultimately obtain xd where xd: "xdr_replymsg xdrmem_ops alloc (xdr_results procs) XDR_ENCODE ?m y = Some (True, ?m, xd)"
    "wok ?V xd" "written ?V xd = bs" using emitsD [of ?V _ ?m bs y] y(2) by auto
  have b: "x_base xd \<le> x_private xd" "x_private xd \<le> length (x_ram xd)" "x_private xd < 2147483648"
    using xd(2) w(2) by (auto simp: buf_view_simps mem_ok_def udp_ok_def udp_end_def)
  have l: "length bs = x_private xd - x_base xd" using xd(3) b by (auto simp: buf_view_simps)
  have p: "xdrmem_getpos xd = of_nat (length bs)" unfolding l using b by (simp add: xdrmem_getpos_def of_nat_diff)
  have u: "unat (of_nat (length bs) :: u32) = length bs"
  proof -
    have "length bs < 4294967296" using l b by linarith
    then show ?thesis by (simp add: unat_of_nat)
  qed
  have "sint (of_nat (length bs) :: u32) = int (length bs)" 
    by (rule sint_of_small [of "of_nat (length bs)", unfolded u]) (use l b(3) in linarith)
  moreover have "seg (x_base xd) (length bs) (x_ram xd) = bs" using xd(3) by (simp add: buf_view_simps l)
  ultimately have "svcudp_reply K alloc procs h m w =
      Some (r = int (length bs), (set_xprt h (x\<lparr>su_op := XDR_ENCODE, su_xdrs := xd\<rparr>) w)\<lparr>wd_net := n\<rparr>)"
    using w(1) y(1) xd(1) p u b l n by (simp add: svcudp_reply_def Let_def set_xprt_def del: of_nat_diff)
  then show ?thesis by blast
qed

section \<open>What the server answers\<close>

definition versions :: "'d svc_callout list \<Rightarrow> u32 \<Rightarrow> u32 set" where
  "versions ss prog = sc_vers ` {s \<in> set ss. sc_prog s = prog}"

lemma svc_scan_found:
  "vers \<in> versions ss prog \<Longrightarrow> \<exists>d. svc_scan ss prog vers f lo hi = Inl d"
proof (induction ss arbitrary: f lo hi)
  case (Cons s ss)
  show ?case
  proof (cases "sc_prog s = prog \<and> sc_vers s = vers")
    case False
    then have "vers \<in> versions ss prog" using Cons.prems by (auto simp: versions_def)
    then show ?thesis using Cons.IH by simp
  qed simp
qed (simp add: versions_def)

lemma svc_scan_none:
  "vers \<notin> versions ss prog \<Longrightarrow> svc_scan ss prog vers f lo hi =
     Inr (f \<or> versions ss prog \<noteq> {}, Min (insert lo (versions ss prog)), Max (insert hi (versions ss prog)))"
proof (induction ss arbitrary: f lo hi)
  case (Cons s ss)
  show ?case
  proof (cases "sc_prog s = prog")
    case True
    have v: "versions (s # ss) prog = insert (sc_vers s) (versions ss prog)" using True by (auto simp: versions_def)
    have f: "finite (versions ss prog)" by (simp add: versions_def)
    have "Min (insert (if sc_vers s < lo then sc_vers s else lo) (versions ss prog)) = Min (insert lo (insert (sc_vers s) (versions ss prog)))"
      using f by (cases "versions ss prog = {}") (auto simp: min_def not_less)
    moreover have "Max (insert (if sc_vers s > hi then sc_vers s else hi) (versions ss prog)) = Max (insert hi (insert (sc_vers s) (versions ss prog)))"
      using f by (cases "versions ss prog = {}") (auto simp: max_def not_less)
    moreover have "sc_vers s \<noteq> vers" using Cons.prems v by auto
    ultimately show ?thesis using True Cons v by simp
  next
    case False
    then have "versions (s # ss) prog = versions ss prog" by (auto simp: versions_def)
    then show ?thesis using False Cons by simp
  qed
qed (simp add: versions_def)

lemma scan_bounds: "finite S \<Longrightarrow> S \<noteq> {} \<Longrightarrow> Min (insert (0 - 1) S) = Min (S :: u32 set) \<and> Max (insert 0 S) = Max S"
  by (simp add: min_absorb2 max_absorb2)

text \<open>A registered procedure that decodes the arguments, computes a result and encodes it.\<close>

definition served :: "('p \<Rightarrow> (xdrmem, 'v) xdrproc) \<Rightarrow> ('v, 'p, 'f, 'w) simple \<Rightarrow> xdrmem xview \<Rightarrow> ('p, 'f) proglst \<Rightarrow> u8 list \<Rightarrow> u8 list \<Rightarrow> bool" where
  "served procs M V pl args rb \<longleftrightarrow> (\<exists>a r. yields V (procs (p_inproc pl)) (sm_clean M) a args \<and>
     (\<forall>w. sm_run M (p_progname pl) a w = Some (r, w)) \<and> (r = sm_null M \<longrightarrow> p_outproc pl = sm_void M) \<and>
     emits V (procs (p_outproc pl)) r rb \<and> (\<forall>s. procs (p_inproc pl) XDR_FREE a s \<noteq> None))"

text \<open>What a call is answered: the status of the reply, the versions and the bytes of the results.\<close>

inductive answer for procs :: "'p \<Rightarrow> (xdrmem, 'v) xdrproc" and M :: "('v, 'p, 'f, 'w) simple" and V :: "xdrmem xview"
  and ss :: "'d svc_callout list" and pls :: "('p, 'f) proglst list" and c :: call_body and args :: "u8 list" where
  ping: "cb_vers c \<in> versions ss (cb_prog c) \<Longrightarrow> cb_proc c = 0 \<Longrightarrow> answer procs M V ss pls c args 0 lo hi []"
| result: "cb_vers c \<in> versions ss (cb_prog c) \<Longrightarrow> cb_proc c \<noteq> 0 \<Longrightarrow> find_proc pls (cb_prog c) (cb_proc c) = Some pl \<Longrightarrow>
    served procs M V pl args rb \<Longrightarrow> answer procs M V ss pls c args 0 lo hi rb"
| progvers: "cb_vers c \<notin> versions ss (cb_prog c) \<Longrightarrow> versions ss (cb_prog c) \<noteq> {} \<Longrightarrow> lo = Min (versions ss (cb_prog c)) \<Longrightarrow>
    hi = Max (versions ss (cb_prog c)) \<Longrightarrow> answer procs M V ss pls c args 2 lo hi rb"
| noprog: "versions ss (cb_prog c) = {} \<Longrightarrow> answer procs M V ss pls c args 1 lo hi rb"

inductive_cases answerE: "answer procs M V ss pls c args st lo hi rb"

lemma send_reply:
  assumes w: "get_xprt w h = Some x" "udp_ok x" "oa_flavor (ud_verf x) = 0" "oa_length (ud_verf x) = 0"
    and rb: "emits (buf_view (x_base (su_xdrs x)) (udp_end x)) (procs p) v rb"
    and bs: "bs = answer_bytes (su_xid x) 0 lo hi rb" "length bs \<le> unat (su_iosz x)"
    and n: "so_sendto K (xp_sock x) bs (xp_raddr x) (wd_net w) = (int (length bs), n)"
  shows "\<exists>xd. svc_sendreply (svcudp_op K alloc procs) rply h p v w =
      Some (True, (set_xprt h (x\<lparr>su_op := XDR_ENCODE, su_xdrs := xd\<rparr>) w)\<lparr>wd_net := n\<rparr>)"
proof -
  have v: "ud_verf (wd_xprts w ! h) = ud_verf x" using w(1) by (auto simp: get_xprt_def split: if_splits)
  let ?m = "rply\<lparr>rm_direction := REPLY, rp_stat := 0, rp_acpt := (rp_acpt rply)\<lparr>ar_verf := ud_verf x, ar_stat := 0,
        ar_where := \<lparr>rs_where = v, rs_proc = p\<rparr>\<rparr>\<rparr>"
  have "bs = answer_bytes (su_xid x) (ar_stat (rp_acpt ?m)) (ar_low (rp_acpt ?m)) (ar_high (rp_acpt ?m)) rb"
    by (simp add: bs(1) answer_bytes_def)
  from svcudp_reply_sends [OF w(1,2) _ _ _ _ _ this bs(2) n, of procs alloc]
  obtain xd where "svcudp_reply K alloc procs h ?m w =
      Some (True, (set_xprt h (x\<lparr>su_op := XDR_ENCODE, su_xdrs := xd\<rparr>) w)\<lparr>wd_net := n\<rparr>)" using w(3,4) rb by auto
  then show ?thesis by (intro exI [of _ xd]) (simp add: svc_sendreply_def svcudp_op_def v)
qed

text \<open>A reply without results.\<close>

lemma send_error:
  assumes w: "get_xprt w h = Some x" "udp_ok x" "oa_flavor (ud_verf x) = 0" "oa_length (ud_verf x) = 0"
    and bs: "bs = answer_bytes (su_xid x) st lo hi rb" "length bs \<le> unat (su_iosz x)"
    and n: "so_sendto K (xp_sock x) bs (xp_raddr x) (wd_net w) = (int (length bs), n)"
  shows "st = 1 \<Longrightarrow> \<exists>w'. svcerr_noprog (svcudp_op K alloc procs) rply h w = Some (True, w') \<and> wd_net w' = n"
    "st = 2 \<Longrightarrow> \<exists>w'. svcerr_progvers (svcudp_op K alloc procs) rply h lo hi w = Some (True, w') \<and> wd_net w' = n"
proof -
  have v: "ud_verf (wd_xprts w ! h) = ud_verf x" using w(1) by (auto simp: get_xprt_def split: if_splits)
  { assume st: "st = 1"
    let ?m = "rply\<lparr>rm_direction := REPLY, rp_stat := 0, rp_acpt := (rp_acpt rply)\<lparr>ar_verf := ud_verf x, ar_stat := 1\<rparr>\<rparr>"
    have "bs = answer_bytes (su_xid x) (ar_stat (rp_acpt ?m)) (ar_low (rp_acpt ?m)) (ar_high (rp_acpt ?m)) rb"
      by (simp add: bs(1) answer_bytes_def st)
    from svcudp_reply_sends [OF w(1,2) _ _ _ _ _ this bs(2) n, of procs alloc] w(3,4)
    show "\<exists>w'. svcerr_noprog (svcudp_op K alloc procs) rply h w = Some (True, w') \<and> wd_net w' = n"
      by (auto simp: svcerr_noprog_def svcudp_op_def v) }
  { assume st: "st = 2"
    let ?m = "rply\<lparr>rm_direction := REPLY, rp_stat := 0,
      rp_acpt := (rp_acpt rply)\<lparr>ar_verf := ud_verf x, ar_stat := 2, ar_low := lo, ar_high := hi\<rparr>\<rparr>"
    have "bs = answer_bytes (su_xid x) (ar_stat (rp_acpt ?m)) (ar_low (rp_acpt ?m)) (ar_high (rp_acpt ?m)) rb"
      by (simp add: bs(1) answer_bytes_def st)
    from svcudp_reply_sends [OF w(1,2) _ _ _ _ _ this bs(2) n, of procs alloc] w(3,4)
    show "\<exists>w'. svcerr_progvers (svcudp_op K alloc procs) rply h lo hi w = Some (True, w') \<and> wd_net w' = n"
      by (auto simp: svcerr_progvers_def svcudp_op_def v) }
qed

lemma universal_serves:
  assumes w: "get_xprt w h = Some x" "udp_ok x" "oa_flavor (ud_verf x) = 0" "oa_length (ud_verf x) = 0" "su_op x = XDR_DECODE"
    and V: "V = buf_view (x_base (su_xdrs x)) (udp_end x)" "ahead V (su_xdrs x) = args @ rest"
    and M: "procs (sm_void M) = xdr_void" "sm_proglst M w = pls"
    and c: "rq_proc r = 0 \<and> rb = [] \<or> rq_proc r \<noteq> 0 \<and> (\<exists>pl. find_proc pls (rq_prog r) (rq_proc r) = Some pl \<and> served procs M V pl args rb)"
    and bs: "bs = answer_bytes (su_xid x) 0 lo hi rb" "length bs \<le> unat (su_iosz x)"
    and n: "so_sendto K (xp_sock x) bs (xp_raddr x) (wd_net w) = (int (length bs), n)"
  shows "\<exists>w'. universal (svcudp_op K alloc procs) M rply r h w = Some (False, w') \<and> wd_net w' = n"
  using c
proof (elim disjE conjE exE)
  assume z: "rq_proc r = 0" "rb = []"
  have "emits (buf_view (x_base (su_xdrs x)) (udp_end x)) (procs (sm_void M)) (sm_null M) rb"
    by (simp add: M z(2) emits_def xdr_void_def buf.fits_0)
  from send_reply [where procs = procs and p = "sm_void M" and alloc = alloc and rply = rply, OF w(1-4) this bs n]
  obtain xd where "svc_sendreply (svcudp_op K alloc procs) rply h (sm_void M) (sm_null M) w =
      Some (True, (set_xprt h (x\<lparr>su_op := XDR_ENCODE, su_xdrs := xd\<rparr>) w)\<lparr>wd_net := n\<rparr>)" by blast
  with z(1) show ?thesis by (simp add: universal_def)
next
  fix pl assume z: "rq_proc r \<noteq> 0" "find_proc pls (rq_prog r) (rq_proc r) = Some pl" and s: "served procs M V pl args rb"
  obtain a v where a: "yields V (procs (p_inproc pl)) (sm_clean M) a args" "\<And>w. sm_run M (p_progname pl) a w = Some (v, w)"
    "v = sm_null M \<longrightarrow> p_outproc pl = sm_void M" "emits V (procs (p_outproc pl)) v rb" "\<And>s. procs (p_inproc pl) XDR_FREE a s \<noteq> None"
    using s unfolding served_def by blast
  have "rok V (su_xdrs x)" using w(2) by (simp add: udp_ok_def V(1) buf_view_simps)
  from yieldsD [OF a(1) this V(2)] obtain xd where xd: "procs (p_inproc pl) XDR_DECODE (sm_clean M) (su_xdrs x) = Some (True, a, xd)" "rok V xd"
    by blast
  let ?x = "x\<lparr>su_op := XDR_DECODE, su_xdrs := xd\<rparr>"
  let ?w = "set_xprt h ?x w"
  note h = get_xprt_length [OF w(1)]
  have ga: "xp_getargs (svcudp_op K alloc procs) h (p_inproc pl) (sm_clean M) w = Some (True, a, ?w)"
    using w(1,5) xd(1) by (simp add: svcudp_op_def svcudp_getargs_def svcudp_args_def)
  have b: "x_base xd = x_base (su_xdrs x)" using xd(2) by (simp add: V(1) buf_view_simps)
  have x: "get_xprt ?w h = Some ?x" "udp_ok ?x" "wd_net ?w = wd_net w"
    using h xd(2) w(2) b by (auto simp: udp_ok_def V(1) buf_view_simps udp_end_def set_xprt_def get_xprt_def)
  have "\<exists>xe. svc_sendreply (svcudp_op K alloc procs) rply h (p_outproc pl) v ?w =
      Some (True, (set_xprt h (?x\<lparr>su_op := XDR_ENCODE, su_xdrs := xe\<rparr>) ?w)\<lparr>wd_net := n\<rparr>)"
    by (rule send_reply [where rb = rb and bs = bs and lo = lo and hi = hi, OF x(1,2)])
      (use w(3,4) a(4) bs n x(3) b in \<open>simp_all add: V(1) udp_end_def\<close>)
  then obtain w2 where w2: "svc_sendreply (svcudp_op K alloc procs) rply h (p_outproc pl) v ?w = Some (True, w2)" "wd_net w2 = n"
    "h < length (wd_xprts w2)" using h by (auto simp: set_xprt_def)
  obtain ok f s where "procs (p_inproc pl) XDR_FREE a (su_xdrs (wd_xprts w2 ! h)) = Some (ok, f, s)" using a(5) by (metis option.exhaust prod_cases3)
  then have "\<exists>ok f w3. xp_freeargs (svcudp_op K alloc procs) h (p_inproc pl) a w2 = Some (ok, f, w3) \<and> wd_net w3 = n"
    using w2(2,3) by (simp add: svcudp_op_def svcudp_freeargs_def svcudp_args_def get_xprt_def set_xprt_def)
  then show ?thesis using z ga a(2,3) w2(1) M(2) by (auto simp: universal_def)
qed

lemma set_xprt_simps [simp]:
  "wd_net (set_xprt h x w) = wd_net w" "wd_head (set_xprt h x w) = wd_head w" "wd_proglst (set_xprt h x w) = wd_proglst w"
  "wd_xports (set_xprt h x w) = wd_xports w"
  by (simp_all add: set_xprt_def)

lemma authenticate_null:
  assumes "get_xprt w h = Some x" "rq_xprt r = h" "oa_flavor (cb_cred (rm_call m)) = 0"
  shows "authenticate (svcudp_op K alloc procs) r m w = Some (AUTH_OK, r\<lparr>rq_cred := cb_cred (rm_call m)\<rparr>,
    set_xprt h (x\<lparr>ud_verf := (ud_verf x)\<lparr>oa_flavor := 0, oa_length := 0\<rparr>\<rparr>) w)"
  using assms by (simp add: authenticate_def svcudp_op_def get_xprt_def set_xprt_def Let_def split: if_splits)

lemma xp_recv_svcudp: "xp_recv (svcudp_op K alloc procs) = svcudp_recv K alloc" "xp_stat (svcudp_op K alloc procs) = svcudp_stat"
  by (simp_all add: svcudp_op_def)

lemma simple_server_simps:
  "sv_ops (simple_server K alloc procs M rply) = svcudp_op K alloc procs" "sv_head (simple_server K alloc procs M rply) = wd_head"
  "sv_xports (simple_server K alloc procs M rply) = wd_xports" "sv_rply (simple_server K alloc procs M rply) = rply"
  "sv_dispatch (simple_server K alloc procs M rply) d r w = universal (svcudp_op K alloc procs) M rply r (rq_xprt r) w"
  by (simp_all add: simple_server_def)

text \<open>A transport that has received a call, whose arguments come next in its stream.\<close>

definition received :: "'a svcudp \<Rightarrow> ('v, 'p) msg \<Rightarrow> u8 list \<Rightarrow> 'a \<Rightarrow> 'a svcudp \<Rightarrow> bool" where
  "received x m args from y \<longleftrightarrow> udp_ok y \<and> x_base (su_xdrs y) = x_base (su_xdrs x) \<and> udp_end y = udp_end x \<and>
     (\<exists>rest. ahead (buf_view (x_base (su_xdrs x)) (udp_end x)) (su_xdrs y) = args @ rest) \<and> oa_flavor (ud_verf y) = 0 \<and>
     oa_length (ud_verf y) = 0 \<and> su_op y = XDR_DECODE \<and> su_xid y = rm_xid m \<and> xp_raddr y = from \<and> xp_sock y = xp_sock x \<and>
     su_iosz y = su_iosz x"

lemma svc_message_dispatches:
  fixes m :: "('v, 'p) msg" and procs :: "'p \<Rightarrow> (xdrmem, 'v) xdrproc"
  assumes w: "get_xprt w h = Some x" "udp_ok x"
    and r: "so_recvfrom K (xp_sock x) (unat (su_iosz x)) (wd_net w) = (Inr (d, from), n)" "length d \<le> unat (su_iosz x)"
    and d: "call_data m args d" "oa_flavor (cb_cred (rm_call m)) = 0"
    and b: "has_block alloc (oa_base (cb_cred (rm_call (fst l))))" "has_block alloc (oa_base (cb_verf (rm_call (fst l))))"
  shows "\<exists>q y l'. svc_message (simple_server K alloc procs M rply) h l w =
      (case svc_scan (wd_head w) (cb_prog (rm_call m)) (cb_vers (rm_call m)) False (0 - 1) 0 of
         Inl d \<Rightarrow> do { (exited, w) \<leftarrow> universal (svcudp_op K alloc procs) M rply q h (set_xprt h y (w\<lparr>wd_net := n\<rparr>)); Some (exited, l', w) }
       | Inr (prog_found, low, high) \<Rightarrow> do {
           (ok, w) \<leftarrow> (if prog_found then svcerr_progvers (svcudp_op K alloc procs) rply h low high (set_xprt h y (w\<lparr>wd_net := n\<rparr>))
             else svcerr_noprog (svcudp_op K alloc procs) rply h (set_xprt h y (w\<lparr>wd_net := n\<rparr>)));
           Some (False, l', w) }) \<and>
    rq_prog q = cb_prog (rm_call m) \<and> rq_proc q = cb_proc (rm_call m) \<and> received x m args from y"
proof -
  let ?X = "svcudp_op K alloc procs" and ?V = "buf_view (x_base (su_xdrs x)) (udp_end x)" and ?c = "rm_call m"
  obtain m' xd rest where rv: "svcudp_recv K alloc h (fst l) w = Some (True, m', set_xprt h (x\<lparr>xp_raddr := from, su_op := XDR_DECODE,
      su_xdrs := xd, su_xid := rm_xid m\<rparr>) (w\<lparr>wd_net := n\<rparr>))" "same_call m' m"
    "rok ?V xd" "ahead ?V xd = args @ rest"
    using svcudp_recv_call [OF w r d(1) b] by blast
  note h = get_xprt_length [OF w(1)]
  let ?x1 = "x\<lparr>xp_raddr := from, su_op := XDR_DECODE, su_xdrs := xd, su_xid := rm_xid m\<rparr>"
  let ?x = "?x1\<lparr>ud_verf := (ud_verf x)\<lparr>oa_flavor := 0, oa_length := 0\<rparr>\<rparr>"
  define r where "r = \<lparr>rq_prog = cb_prog ?c, rq_vers = cb_vers ?c, rq_proc = cb_proc ?c, rq_cred = cb_cred (rm_call m'),
      rq_clntcred = snd l, rq_xprt = h\<rparr>"
  have c: "cb_prog (rm_call m') = cb_prog ?c" "cb_vers (rm_call m') = cb_vers ?c" "cb_proc (rm_call m') = cb_proc ?c"
    "oa_flavor (cb_cred (rm_call m')) = 0" using rv(2) d(2) by (auto simp: same_call_def same_auth_def)
  have au: "authenticate ?X r m' (set_xprt h ?x1 (w\<lparr>wd_net := n\<rparr>)) = Some (AUTH_OK, r, set_xprt h ?x (w\<lparr>wd_net := n\<rparr>))"
    using authenticate_null [of "set_xprt h ?x1 (w\<lparr>wd_net := n\<rparr>)" h ?x1 r m' K alloc procs] h c by (simp add: r_def set_xprt_def get_xprt_def)
  have "\<lparr>rq_prog = cb_prog (rm_call m'), rq_vers = cb_vers (rm_call m'), rq_proc = cb_proc (rm_call m'),
    rq_cred = cb_cred (rm_call m'), rq_clntcred = snd l, rq_xprt = h\<rparr> = r" by (simp add: r_def c)
  moreover have q: "rq_clntcred r = snd l" "rq_xprt r = h" "rq_prog r = cb_prog ?c" "rq_vers r = cb_vers ?c" "rq_proc r = cb_proc ?c"
    by (simp_all add: r_def)
  ultimately have "svc_message (simple_server K alloc procs M rply) h l w =
      (case svc_scan (wd_head w) (cb_prog (rm_call m)) (cb_vers (rm_call m)) False (0 - 1) 0 of
         Inl d \<Rightarrow> do { (exited, w) \<leftarrow> universal ?X M rply r h (set_xprt h ?x (w\<lparr>wd_net := n\<rparr>)); Some (exited, (m', snd l), w) }
       | Inr (prog_found, low, high) \<Rightarrow> do {
           (ok, w) \<leftarrow> (if prog_found then svcerr_progvers ?X rply h low high (set_xprt h ?x (w\<lparr>wd_net := n\<rparr>))
             else svcerr_noprog ?X rply h (set_xprt h ?x (w\<lparr>wd_net := n\<rparr>)));
           Some (False, (m', snd l), w) })"
    using rv(1) au unfolding svc_message_def simple_server_simps
    by (simp add: Let_def simple_server_simps xp_recv_svcudp cong: sum.case_cong)
  moreover have "received x m args from ?x"
    using rv(3,4) w(2) by (auto simp: received_def udp_ok_def buf_view_simps udp_end_def)
  ultimately show ?thesis using q(3,5) by blast
qed

lemma svc_message_answers:
  fixes m :: "('v, 'p) msg" and procs :: "'p \<Rightarrow> (xdrmem, 'v) xdrproc"
  assumes w: "get_xprt w h = Some x" "udp_ok x"
    and r: "so_recvfrom K (xp_sock x) (unat (su_iosz x)) (wd_net w) = (Inr (d, from), n)" "length d \<le> unat (su_iosz x)"
    and d: "call_data m args d" "oa_flavor (cb_cred (rm_call m)) = 0"
    and b: "has_block alloc (oa_base (cb_cred (rm_call (fst l))))" "has_block alloc (oa_base (cb_verf (rm_call (fst l))))"
    and M: "procs (sm_void M) = xdr_void" "sm_proglst M = wd_proglst"
    and a: "answer procs M (buf_view (x_base (su_xdrs x)) (udp_end x)) (wd_head w) (wd_proglst w) (rm_call m) args st lo hi rb"
    and bs: "bs = answer_bytes (rm_xid m) st lo hi rb" "length bs \<le> unat (su_iosz x)"
    and n: "so_sendto K (xp_sock x) bs from n = (int (length bs), n')"
  shows "\<exists>l' w'. svc_message (simple_server K alloc procs M rply) h l w = Some (False, l', w') \<and> wd_net w' = n'"
proof -
  let ?X = "svcudp_op K alloc procs" and ?V = "buf_view (x_base (su_xdrs x)) (udp_end x)" and ?c = "rm_call m"
  obtain q y l' where msg: "svc_message (simple_server K alloc procs M rply) h l w =
      (case svc_scan (wd_head w) (cb_prog ?c) (cb_vers ?c) False (0 - 1) 0 of
         Inl d \<Rightarrow> do { (exited, w) \<leftarrow> universal ?X M rply q h (set_xprt h y (w\<lparr>wd_net := n\<rparr>)); Some (exited, l', w) }
       | Inr (prog_found, low, high) \<Rightarrow> do {
           (ok, w) \<leftarrow> (if prog_found then svcerr_progvers ?X rply h low high (set_xprt h y (w\<lparr>wd_net := n\<rparr>))
             else svcerr_noprog ?X rply h (set_xprt h y (w\<lparr>wd_net := n\<rparr>)));
           Some (False, l', w) })"
    and q: "rq_prog q = cb_prog ?c" "rq_proc q = cb_proc ?c" and y: "received x m args from y"
    using svc_message_dispatches [OF w r d b, of procs M rply] by blast
  let ?w = "set_xprt h y (w\<lparr>wd_net := n\<rparr>)"
  have x: "get_xprt ?w h = Some y" "udp_ok y" "oa_flavor (ud_verf y) = 0" "oa_length (ud_verf y) = 0"
    using get_xprt_length [OF w(1)] y by (auto simp: received_def)
  have V: "buf_view (x_base (su_xdrs y)) (udp_end y) = ?V" using y by (simp add: received_def)
  obtain rest where rest: "ahead ?V (su_xdrs y) = args @ rest" using y by (auto simp: received_def)
  have sz: "length bs \<le> unat (su_iosz y)" using bs(2) y by (simp add: received_def)
  have n2: "so_sendto K (xp_sock y) bs (xp_raddr y) (wd_net ?w) = (int (length bs), n')" using n y by (simp add: received_def)
  have bs': "bs = answer_bytes (su_xid y) st lo hi rb" using bs(1) y by (simp add: received_def)
  have run: "\<exists>w'. universal ?X M rply q h ?w = Some (False, w') \<and> wd_net w' = n'"
    if st: "st = 0" and c: "rq_proc q = 0 \<and> rb = [] \<or>
      rq_proc q \<noteq> 0 \<and> (\<exists>pl. find_proc (wd_proglst w) (rq_prog q) (rq_proc q) = Some pl \<and> served procs M ?V pl args rb)"
    by (rule universal_serves [where V = ?V and rb = rb and bs = bs and lo = lo and hi = hi, OF x _ _ _ _ _ c _ sz n2])
      (use V rest M bs' y st in \<open>simp_all add: received_def\<close>)
  show ?thesis using a
  proof (cases rule: answer.cases)
    case ping
    then obtain d where "svc_scan (wd_head w) (cb_prog ?c) (cb_vers ?c) False (0 - 1) 0 = Inl d" using svc_scan_found by blast
    then show ?thesis using msg run ping q by auto
  next
    case (result pl)
    then obtain d where "svc_scan (wd_head w) (cb_prog ?c) (cb_vers ?c) False (0 - 1) 0 = Inl d" using svc_scan_found by blast
    then show ?thesis using msg run result q by auto
  next
    case progvers
    have "svc_scan (wd_head w) (cb_prog ?c) (cb_vers ?c) False (0 - 1) 0 = Inr (True, lo, hi)"
      using svc_scan_none [OF progvers(2)] scan_bounds [of "versions (wd_head w) (cb_prog ?c)"] progvers by (simp add: versions_def)
    moreover obtain w' where "svcerr_progvers ?X rply h lo hi ?w = Some (True, w')" "wd_net w' = n'"
      using send_error(2) [where alloc = alloc and procs = procs and rply = rply, OF x bs' sz n2 progvers(1)] by blast
    ultimately show ?thesis using msg by simp
  next
    case noprog
    have "svc_scan (wd_head w) (cb_prog ?c) (cb_vers ?c) False (0 - 1) 0 = Inr (False, 0 - 1, 0)"
      using svc_scan_none [of "cb_vers ?c" "wd_head w" "cb_prog ?c"] noprog(2) by simp
    moreover obtain w' where "svcerr_noprog ?X rply h ?w = Some (True, w')" "wd_net w' = n'"
      using send_error(1) [where alloc = alloc and procs = procs and rply = rply, OF x bs' sz n2 noprog(1)] by blast
    ultimately show ?thesis using msg by simp
  qed
qed

section \<open>The services\<close>

definition svc_key :: "'d svc_callout \<Rightarrow> u32 \<times> u32" where
  "svc_key s = (sc_prog s, sc_vers s)"

lemma versions_key: "v \<in> versions ss p \<longleftrightarrow> (p, v) \<in> svc_key ` set ss"
  by (force simp: versions_def svc_key_def)

text \<open>A callout list has one entry for a version of a program.\<close>

definition callouts_ok :: "'d svc_callout list \<Rightarrow> bool" where
  "callouts_ok ss \<longleftrightarrow> distinct (map svc_key ss)"

lemma svc_find_loop_None: "(prog, vers) \<notin> svc_key ` set ss \<Longrightarrow> fst (svc_find_loop ss prog vers i p) = None"
  by (induction ss arbitrary: i p) (auto simp: svc_key_def)

lemma svc_find_loop_Some:
  "(prog, vers) \<notin> svc_key ` set as \<Longrightarrow> svc_key c = (prog, vers) \<Longrightarrow>
     svc_find_loop (as @ c # bs) prog vers i p = (Some (i + length as), if as = [] then p else Some (i + length as - 1))"
  by (induction as arbitrary: i p) (auto simp: svc_key_def)

lemma svc_find_cases:
  obtains q where "vers \<notin> versions ss prog" "svc_find ss prog vers = (None, q)"
  | as c bs where "ss = as @ c # bs" "svc_key c = (prog, vers)"
    "svc_find ss prog vers = (Some (length as), if as = [] then None else Some (length as - 1))"
proof (cases "vers \<in> versions ss prog")
  case False
  then show thesis using that(1) svc_find_loop_None [of prog vers ss 0 None]
    by (cases "svc_find ss prog vers") (auto simp: versions_key svc_find_def)
next
  case True
  then have "\<exists>s \<in> set ss. svc_key s = (prog, vers)" unfolding versions_key by force
  from split_list_first_prop [OF this] obtain as c bs where
    a: "ss = as @ c # bs" "svc_key c = (prog, vers)" "\<forall>s \<in> set as. svc_key s \<noteq> (prog, vers)" by blast
  then have "(prog, vers) \<notin> svc_key ` set as" by force
  from svc_find_loop_Some [OF this a(2), of bs 0 None] show thesis using that(2) [OF a(1,2)] by (simp add: svc_find_def a(1))
qed

lemma svc_register_ok:
  assumes "svc_register mem pmap port prog vers d protocol ss n = (True, ss', n')" "callouts_ok ss"
  shows "callouts_ok ss' \<and> (v \<in> versions ss' p \<longleftrightarrow> v \<in> versions ss p \<or> (p, v) = (prog, vers))"
proof (cases rule: svc_find_cases [of vers ss prog])
  case (1 q)
  then have "ss' = \<lparr>sc_prog = prog, sc_vers = vers, sc_dispatch = d\<rparr> # ss"
    using assms(1) by (auto simp: svc_register_def Let_def split: if_splits prod.splits)
  then show ?thesis using 1(1) assms(2) by (auto simp: callouts_ok_def versions_key svc_key_def)
next
  case (2 as c bs)
  then have "ss' = ss" using assms(1) by (auto simp: svc_register_def Let_def split: if_splits prod.splits)
  moreover have "vers \<in> versions ss prog" unfolding versions_key using 2(1,2) by force
  ultimately show ?thesis using assms(2) by auto
qed

lemma svc_unregister_ok:
  assumes "svc_unregister pmap prog vers ss n = (ss', n')" "callouts_ok ss"
  shows "callouts_ok ss' \<and> (v \<in> versions ss' p \<longleftrightarrow> v \<in> versions ss p \<and> (p, v) \<noteq> (prog, vers))"
proof (cases rule: svc_find_cases [of vers ss prog])
  case (1 q)
  then have "ss' = ss" using assms(1) by (simp add: svc_unregister_def)
  then show ?thesis using 1(1) assms(2) by auto
next
  case (2 as c bs)
  then have "ss' = as @ bs" using assms(1) by (auto simp: svc_unregister_def neq_Nil_conv)
  moreover have "distinct (map svc_key (as @ c # bs))" using assms(2) 2(1) by (simp add: callouts_ok_def)
  ultimately show ?thesis unfolding versions_key callouts_ok_def 2(1) using 2(2) by auto
qed

section \<open>A datagram for the server\<close>

lemma ffs_single: "k < 32 \<Longrightarrow> ffs (push_bit k 1) = Suc k"
proof -
  assume k: "k < 32"
  have b: "bit (push_bit k 1 :: u32) j \<longleftrightarrow> j = k" for j using k by (auto simp: bit_simps)
  then have "(push_bit k 1 :: u32) \<noteq> 0" by (metis bit_0_eq bot_apply bot_bool_def)
  from ffs_lowest [OF this] show ?thesis using b by auto
qed

lemma svc_words_zero: "setsize \<le> sock + 32 * j \<Longrightarrow> svc_words S setsize sock (replicate j 0) l w = Some (False, l, w)"
proof (induction j arbitrary: sock)
  case (Suc j)
  have "svc_bits S sock 0 l w = Some (False, l, w)" by (subst svc_bits.simps) simp
  then show ?case using Suc by simp
qed simp

lemma svc_getreq_single:
  assumes x: "sv_xports S w = Some xs" "k < length xs" "k < 32" "xs ! k = Some h"
    and d: "0 < dts" "dts \<le> 1024" and idle: "\<And>w. xp_stat (sv_ops S) h w = XPRT_IDLE"
    and msg: "svc_message S h ((fst l)\<lparr>rm_call := (rm_call (fst l))\<lparr>cb_cred := (cb_cred (rm_call (fst l)))\<lparr>oa_base := Some ca\<rparr>,
      cb_verf := (cb_verf (rm_call (fst l)))\<lparr>oa_base := Some va\<rparr>\<rparr>\<rparr>, snd l) w = Some (ex, l', w')"
  shows "svc_getreq S dts ca va l (push_bit k 1) w = Some (ex, w')"
proof -
  let ?m = "(fst l)\<lparr>rm_call := (rm_call (fst l))\<lparr>cb_cred := (cb_cred (rm_call (fst l)))\<lparr>oa_base := Some ca\<rparr>,
      cb_verf := (cb_verf (rm_call (fst l)))\<lparr>oa_base := Some va\<rparr>\<rparr>\<rparr>"
  have serve: "svc_serve S h (?m, snd l) w = Some (ex, l', w')" using idle msg by (subst svc_serve.simps) simp
  have z: "svc_bits S 0 0 l' w' = Some (False, l', w')" by (subst svc_bits.simps) simp
  have bits: "svc_bits S 0 (push_bit k 1) (?m, snd l) w = Some (ex, l', w')"
    using x serve z ffs_single [OF x(3)] by (subst svc_bits.simps) (simp add: Let_def)
  have r: "(replicate 32 0)[0 := push_bit k 1] = push_bit k 1 # replicate 31 (0 :: u32)" by (simp add: numeral_eq_Suc)
  have "svc_words S (nat dts) 32 (replicate 31 0) l' w' = Some (False, l', w')" by (rule svc_words_zero) (use d(2) in simp)
  then have "svc_words S (nat dts) 0 (push_bit k 1 # replicate 31 0) (?m, snd l) w = Some (ex, l', w')"
    using bits d(1) by (simp del: push_bit_of_1)
  then show ?thesis unfolding svc_getreq_def svc_getreqset_def r Let_def by simp
qed

lemma svc_getreq_answers:
  fixes m :: "('v, 'p) msg" and procs :: "'p \<Rightarrow> (xdrmem, 'v) xdrproc"
  assumes x: "wd_xports w = Some xs" "k < length xs" "k < 32" "xs ! k = Some h" "get_xprt w h = Some x" "udp_ok x"
    and dts: "0 < dts" "dts \<le> 1024" and areas: "400 \<le> length ca" "400 \<le> length va"
    and r: "so_recvfrom K (xp_sock x) (unat (su_iosz x)) (wd_net w) = (Inr (d, src), n)" "length d \<le> unat (su_iosz x)"
    and d: "call_data m args d" "oa_flavor (cb_cred (rm_call m)) = 0"
    and M: "procs (sm_void M) = xdr_void" "sm_proglst M = wd_proglst"
    and a: "answer procs M (buf_view (x_base (su_xdrs x)) (udp_end x)) (wd_head w) (wd_proglst w) (rm_call m) args st lo hi rb"
    and bs: "bs = answer_bytes (rm_xid m) st lo hi rb" "length bs \<le> unat (su_iosz x)"
    and n: "so_sendto K (xp_sock x) bs src n = (int (length bs), n')"
  shows "\<exists>w'. svc_getreq (simple_server K alloc procs M rply) dts ca va l (push_bit k 1) w = Some (False, w') \<and> wd_net w' = n'"
proof -
  let ?S = "simple_server K alloc procs M rply" and ?c = "rm_call (fst l)"
  let ?m = "(fst l)\<lparr>rm_call := ?c\<lparr>cb_cred := (cb_cred ?c)\<lparr>oa_base := Some ca\<rparr>, cb_verf := (cb_verf ?c)\<lparr>oa_base := Some va\<rparr>\<rparr>\<rparr>"
  have "has_block alloc (oa_base (cb_cred (rm_call (fst (?m, snd l)))))" "has_block alloc (oa_base (cb_verf (rm_call (fst (?m, snd l)))))"
    using areas by (simp_all add: has_block_Some)
  from svc_message_answers [OF x(5,6) r d this M a bs n, of rply] obtain l' w' where
    w': "svc_message ?S h (?m, snd l) w = Some (False, l', w')" "wd_net w' = n'" by blast
  have "svc_getreq ?S dts ca va l (push_bit k 1) w = Some (False, w')"
    by (rule svc_getreq_single [where xs = xs and h = h])
      (use x(1-4) dts w'(1) in \<open>simp_all add: simple_server_simps xp_recv_svcudp svcudp_stat_def\<close>)
  with w'(2) show ?thesis by blast
qed

end
