(* ===== verification/Svc_Props.thy ===== *)
theory Svc_Props
  imports Svc_Correct
begin

text \<open>Properties of the server of remote procedure calls.\<close>

text \<open>A server with one transport, at address 0, and one registered procedure, which adds one. Every datagram sent is
  appended to the network.\<close>

definition demo_null :: opaque_auth where
  "demo_null = \<lparr>oa_flavor = 0, oa_base = None, oa_length = 0\<rparr>"

definition demo_call :: "u32 \<Rightarrow> u32 \<Rightarrow> (u32, nat) msg" where
  "demo_call vers proc = \<lparr>rm_xid = 5, rm_direction = 0, rm_call = \<lparr>cb_rpcvers = 2, cb_prog = 100, cb_vers = vers, cb_proc = proc,
       cb_cred = demo_null, cb_verf = demo_null\<rparr>, rp_stat = 0,
     rp_acpt = \<lparr>ar_verf = demo_null, ar_stat = 0, ar_low = 0, ar_high = 0, ar_where = \<lparr>rs_where = 0, rs_proc = 0\<rparr>\<rparr>,
     rp_rjct = \<lparr>rj_stat = 0, rj_low = 0, rj_high = 0, rj_why = 0\<rparr>\<rparr>"

definition demo_sock :: "u8 list \<Rightarrow> (unit, u8 list list) sock_ops" where
  "demo_sock d = \<lparr>so_recvfrom = (\<lambda>s n net. (Inr (d, ()), net)), so_sendto = (\<lambda>s bs a net. (int (length bs), net @ [bs]))\<rparr>"

definition demo_procs :: "nat \<Rightarrow> (xdrmem, u32) xdrproc" where
  "demo_procs p = (if p = 0 then xdr_void else xdr_u_long xdrmem_ops)"

definition demo_xprt :: "unit svcudp" where
  "demo_xprt = \<lparr>xp_sock = 4, xp_raddr = (), ud_verf = demo_null, su_iosz = 64, su_xid = 0, su_op = XDR_DECODE,
     su_xdrs = xdrmem_create 0 64 (replicate 64 7)\<rparr>"

definition demo_world :: "'n \<Rightarrow> (unit, 'n, unit, nat, unit) world" where
  "demo_world n = \<lparr>wd_xprts = [demo_xprt], wd_net = n, wd_head = [\<lparr>sc_prog = 100, sc_vers = 1, sc_dispatch = ()\<rparr>],
     wd_xports = Some [Some 0], wd_proglst = [\<lparr>p_progname = (), p_prognum = 100, p_procnum = 3, p_inproc = 1, p_outproc = 1\<rparr>]\<rparr>"

definition demo_simple :: "(u32, nat, unit, (unit, 'n, unit, nat, unit) world) simple" where
  "demo_simple = \<lparr>sm_void = 0, sm_null = 0, sm_clean = 0, sm_proglst = wd_proglst, sm_run = (\<lambda>f v w. Some (v + 1, w))\<rparr>"

definition demo_area :: area where
  "demo_area = \<lparr>ar_time = 0, ar_machname = replicate 256 0, ar_uid = 0, ar_gid = 0, ar_len = 0, ar_gids = replicate 16 0\<rparr>"

abbreviation demo_data :: "u32 \<Rightarrow> u32 \<Rightarrow> u8 list" where
  "demo_data vers proc \<equiv> call_wire (demo_call vers proc) [] [] @ be32 41"

lemma demo_facts:
  "get_xprt (demo_world net) 0 = Some demo_xprt" "udp_ok demo_xprt" "call_data (demo_call vers proc) (be32 41) (demo_data vers proc)"
  "oa_flavor (cb_cred (rm_call (demo_call vers proc))) = 0" "length (demo_data vers proc) = 44"
  "demo_procs (sm_void demo_simple) = xdr_void" "sm_proglst demo_simple = wd_proglst"
proof -
  have ok: "call_ok (demo_call vers proc)" by (simp add: demo_call_def demo_null_def call_ok_def auth_ok_def)
  have n: "oa_length (cb_cred (rm_call (demo_call vers proc))) = 0" "oa_length (cb_verf (rm_call (demo_call vers proc))) = 0"
    by (simp_all add: demo_call_def demo_null_def)
  then show "call_data (demo_call vers proc) (be32 41) (demo_data vers proc)" using ok
    unfolding call_data_def by (intro conjI exI [of _ "[]"]) (simp_all add: pad_def)
  show "length (demo_data vers proc) = 44"
    using length_call_wire [OF ok, of "[]" "[]"] n by (simp add: pad_def call_size_def auth_size_def)
qed (simp_all add: demo_world_def get_xprt_def demo_xprt_def udp_ok_def udp_end_def buf_view_simps xdrmem_create_def mem_ok_def
    demo_call_def demo_null_def demo_procs_def demo_simple_def)

lemma demo_versions: "versions (wd_head (demo_world net)) 100 = {1}"
  by (auto simp: demo_world_def versions_def)

lemma demo_answer:
  "answer demo_procs demo_simple (buf_view b e) (wd_head (demo_world net)) (wd_proglst (demo_world net)) (rm_call (demo_call 1 3)) (be32 41)
     0 lo hi (be32 42)"
proof (rule answer.result)
  let ?pl = "\<lparr>p_progname = (), p_prognum = 100, p_procnum = 3, p_inproc = 1, p_outproc = 1\<rparr> :: (nat, unit) proglst"
  show "find_proc (wd_proglst (demo_world net)) (cb_prog (rm_call (demo_call 1 3))) (cb_proc (rm_call (demo_call 1 3))) = Some ?pl"
    by (simp add: demo_world_def demo_call_def)
  show "served demo_procs demo_simple (buf_view b e) ?pl (be32 41) (be32 42)"
    unfolding served_def
    by (rule exI [of _ 41], rule exI [of _ 42])
      (simp add: demo_procs_def demo_simple_def buf.emits_u_long buf.yields_u_long, auto simp: xdr_u_long_def)
qed (simp_all add: demo_call_def demo_versions)

text \<open>C37: the server answers a call that arrives as a datagram, with null credentials, in one datagram to the sender: the bytes
  of the results of a registered procedure, nothing for procedure 0, the lowest and the highest version of the program
  when it has not the one asked for, and that the program is unavailable when it has none.\<close>

theorem server_answers:
  fixes m :: "('v, 'p) msg" and procs :: "'p \<Rightarrow> (xdrmem, 'v) xdrproc"
  assumes x: "wd_xports w = Some xs" "k < length xs" "k < 32" "xs ! k = Some h" "get_xprt w h = Some x" "udp_ok x"
    and dts: "0 < dts" "dts \<le> 1024" and areas: "400 \<le> length ca" "400 \<le> length va"
    and r: "so_recvfrom K (xp_sock x) (unat (su_iosz x)) (wd_net w) = (Inr (d, from), n)" "length d \<le> unat (su_iosz x)"
    and d: "call_data m args d" "oa_flavor (cb_cred (rm_call m)) = 0"
    and M: "procs (sm_void M) = xdr_void" "sm_proglst M = wd_proglst"
    and a: "answer procs M (buf_view (x_base (su_xdrs x)) (udp_end x)) (wd_head w) (wd_proglst w) (rm_call m) args st lo hi rb"
    and bs: "bs = answer_bytes (rm_xid m) st lo hi rb" "length bs \<le> unat (su_iosz x)"
    and n: "so_sendto K (xp_sock x) bs from n = (int (length bs), n')"
  shows "\<exists>w'. svc_getreq (simple_server K alloc procs M rply) dts ca va l (push_bit k 1) w = Some (False, w') \<and> wd_net w' = n'"
  by (rule svc_getreq_answers) (fact assms)+

theorem server_answers_witness:
  "\<exists>w'. svc_getreq (simple_server (demo_sock (demo_data 1 3)) (\<lambda>n. None) demo_procs demo_simple (demo_call 0 0))
      20 (replicate 400 0) (replicate 400 0) (demo_call 0 0, demo_area) (push_bit 0 1) (demo_world []) = Some (False, w') \<and>
    wd_net w' = [answer_bytes 5 0 0 0 (be32 42)]"
proof -
  have x: "wd_xports (demo_world []) = Some [Some 0]" "so_recvfrom (demo_sock (demo_data 1 3)) (xp_sock demo_xprt) (unat (su_iosz demo_xprt))
      (wd_net (demo_world [])) = (Inr (demo_data 1 3, ()), [])" "unat (su_iosz demo_xprt) = 64" "rm_xid (demo_call 1 3) = 5"
    by (simp_all add: demo_world_def demo_sock_def demo_xprt_def demo_call_def)
  have n: "so_sendto (demo_sock (demo_data 1 3)) (xp_sock demo_xprt) bs () [] = (int (length bs), [bs])" for bs
    by (simp add: demo_sock_def)
  show ?thesis
    by (rule server_answers [OF x(1) _ _ _ demo_facts(1,2) _ _ _ _ x(2) _ demo_facts(3,4,6,7) demo_answer refl _ n, unfolded x(4)])
      (use demo_facts(5) [of 1 3] in \<open>simp_all add: x(3) answer_bytes_def\<close>)
qed

text \<open>C38: a call of a procedure that nobody registered, of a program that has a registered procedure, makes the server call
  \<open>exit\<close>: a client can stop it with one datagram.\<close>

theorem unknown_procedure_exits:
  fixes m :: "('v, 'p) msg" and procs :: "'p \<Rightarrow> (xdrmem, 'v) xdrproc"
  assumes x: "wd_xports w = Some xs" "k < length xs" "k < 32" "xs ! k = Some h" "get_xprt w h = Some x" "udp_ok x"
    and dts: "0 < dts" "dts \<le> 1024" and areas: "400 \<le> length ca" "400 \<le> length va"
    and r: "so_recvfrom K (xp_sock x) (unat (su_iosz x)) (wd_net w) = (Inr (d, from), n)" "length d \<le> unat (su_iosz x)"
    and d: "call_data m args d" "oa_flavor (cb_cred (rm_call m)) = 0"
    and M: "sm_proglst M = wd_proglst"
    and p: "cb_vers (rm_call m) \<in> versions (wd_head w) (cb_prog (rm_call m))" "cb_proc (rm_call m) \<noteq> 0"
      "find_proc (wd_proglst w) (cb_prog (rm_call m)) (cb_proc (rm_call m)) = None"
  shows "\<exists>w'. svc_getreq (simple_server K alloc procs M rply) dts ca va l (push_bit k 1) w = Some (True, w') \<and> wd_net w' = n"
proof -
  let ?S = "simple_server K alloc procs M rply" and ?c = "rm_call (fst l)" and ?p = "cb_prog (rm_call m)"
  let ?m = "(fst l)\<lparr>rm_call := ?c\<lparr>cb_cred := (cb_cred ?c)\<lparr>oa_base := Some ca\<rparr>, cb_verf := (cb_verf ?c)\<lparr>oa_base := Some va\<rparr>\<rparr>\<rparr>"
  have b: "has_block alloc (oa_base (cb_cred (rm_call (fst (?m, snd l)))))" "has_block alloc (oa_base (cb_verf (rm_call (fst (?m, snd l)))))"
    using areas by (simp_all add: has_block_Some)
  obtain dd where "svc_scan (wd_head w) ?p (cb_vers (rm_call m)) False (0 - 1) 0 = Inl dd" using svc_scan_found [OF p(1)] by blast
  then obtain q y l' where msg: "svc_message ?S h (?m, snd l) w =
      do { (exited, w) \<leftarrow> universal (svcudp_op K alloc procs) M rply q h (set_xprt h y (w\<lparr>wd_net := n\<rparr>)); Some (exited, l', w) }"
    and q: "rq_prog q = ?p" "rq_proc q = cb_proc (rm_call m)"
    using svc_message_dispatches [OF x(5,6) r d b, of procs M rply] by auto
  have w': "svc_message ?S h (?m, snd l) w = Some (True, l', set_xprt h y (w\<lparr>wd_net := n\<rparr>))"
    unfolding msg using p(2,3) M q by (simp add: universal_def)
  have "svc_getreq ?S dts ca va l (push_bit k 1) w = Some (True, set_xprt h y (w\<lparr>wd_net := n\<rparr>))"
    by (rule svc_getreq_single [where xs = xs and h = h])
      (use x(1-4) dts w' in \<open>simp_all add: simple_server_simps xp_recv_svcudp svcudp_stat_def\<close>)
  then show ?thesis by simp
qed

theorem unknown_procedure_exits_witness:
  "\<exists>w'. svc_getreq (simple_server (demo_sock (demo_data 1 9)) (\<lambda>n. None) demo_procs demo_simple (demo_call 0 0))
      20 (replicate 400 0) (replicate 400 0) (demo_call 0 0, demo_area) (push_bit 0 1) (demo_world []) = Some (True, w') \<and> wd_net w' = []"
proof -
  have x: "wd_xports (demo_world []) = Some [Some 0]" "so_recvfrom (demo_sock (demo_data 1 9)) (xp_sock demo_xprt) (unat (su_iosz demo_xprt))
      (wd_net (demo_world [])) = (Inr (demo_data 1 9, ()), [])" "unat (su_iosz demo_xprt) = 64"
    by (simp_all add: demo_world_def demo_sock_def demo_xprt_def)
  show ?thesis
    by (rule unknown_procedure_exits [OF x(1) _ _ _ demo_facts(1,2) _ _ _ _ x(2) _ demo_facts(3,4,7)])
      (use demo_facts(5) [of 1 9] in \<open>simp_all add: x(3) demo_call_def demo_versions\<close>, simp add: demo_world_def)
qed

end
