(* ===== verification/Clnt.thy ===== *)
theory Clnt
  imports Svc_Props
begin

text \<open>
  The datagram client of remote procedure calls (\<open>clnt_udp.c\<close>) with null authentication (\<open>auth_none.c\<close>). The kernel's
  sockets are parameters; the client block is one object in memory, which the stream of the output buffer carries.
\<close>

section \<open>Null authentication\<close>

definition null_auth :: opaque_auth where
  "null_auth = \<lparr>oa_flavor = 0, oa_base = None, oa_length = 0\<rparr>"

record authnone_private =
  marshalled_client :: "u8 list"
  an_mcnt :: u32

text \<open>The static \<open>authnone_private\<close>; \<open>mem\<close> says whether \<open>calloc\<close> succeeds. The result is whether there is a handle.\<close>

definition authnone_create :: "bool \<Rightarrow> authnone_private option \<Rightarrow> (bool \<times> authnone_private option) option" where
  "authnone_create mem ap =
     (if ap = None \<and> \<not> mem then Some (False, ap)
      else
        (let p = (case ap of None \<Rightarrow> \<lparr>marshalled_client = replicate 20 0, an_mcnt = 0\<rparr> | Some p \<Rightarrow> p) in
         if an_mcnt p = 0 then do {
           (ok1, a1, s) \<leftarrow> xdr_opaque_auth xdrmem_ops (\<lambda>n. None) XDR_ENCODE null_auth (xdrmem_create 0 20 (marshalled_client p));
           (ok2, a2, s) \<leftarrow> xdr_opaque_auth xdrmem_ops (\<lambda>n. None) XDR_ENCODE null_auth s;
           Some (True, Some \<lparr>marshalled_client = x_ram s, an_mcnt = xdrmem_getpos s\<rparr>) }
         else Some (True, Some p)))"

definition authnone_marshal :: "authnone_private option \<Rightarrow> xdrmem \<Rightarrow> (bool \<times> xdrmem) option" where
  "authnone_marshal ap xdrs =
     (case ap of None \<Rightarrow> Some (False, xdrs) | Some p \<Rightarrow> x_putbytes xdrmem_ops (marshalled_client p) (an_mcnt p) xdrs)"

definition authnone_validate :: "authnone_private option \<Rightarrow> opaque_auth \<Rightarrow> bool" where
  "authnone_validate ap verf = True"

definition authnone_refresh :: "authnone_private option \<Rightarrow> bool \<times> authnone_private option" where
  "authnone_refresh ap = (False, ap)"

text \<open>\<open>struct auth_ops\<close> over the handle's state \<open>'u\<close>.\<close>

record 'u auth_ops =
  ah_marshal :: "'u \<Rightarrow> xdrmem \<Rightarrow> (bool \<times> xdrmem) option"
  ah_validate :: "'u \<Rightarrow> opaque_auth \<Rightarrow> bool"
  ah_refresh :: "'u \<Rightarrow> bool \<times> 'u"

definition authnone_ops :: "authnone_private option auth_ops" where
  "authnone_ops = \<lparr>ah_marshal = authnone_marshal, ah_validate = authnone_validate, ah_refresh = authnone_refresh\<rparr>"

section \<open>The client\<close>

record timeval =
  tv_sec :: int
  tv_usec :: int

record 'a cu_data =
  cu_sock :: int
  cu_closeit :: bool
  cu_raddr :: 'a
  cu_wait :: timeval
  cu_total :: timeval
  cu_error :: rpc_err
  cu_outxdrs :: xdrmem
  cu_xdrpos :: u32
  cu_sendsz :: u32
  cu_outbuf :: addr
  cu_recvsz :: u32
  cu_inbuf :: addr

definition round4 :: "u32 \<Rightarrow> u32" where
  "round4 sz = ((sz + 3) div 4) * 4"

text \<open>\<open>clntudp_bufcreate\<close> once there is memory, a port and a socket: \<open>buf\<close> is the address of \<open>cu_inbuf\<close> in \<open>ram\<close>, \<open>xid\<close> is
  \<open>getpid () ^ now.tv_sec ^ now.tv_usec\<close>, \<open>msg\<close> the local that is not initialized and \<open>err\<close> what \<open>cu_error\<close> happens to be.\<close>

definition clntudp_bufcreate :: "ram \<Rightarrow> addr \<Rightarrow> 'a \<Rightarrow> int \<Rightarrow> bool \<Rightarrow> u32 \<Rightarrow> 'r rpc_msg \<Rightarrow> rpc_err \<Rightarrow> u32 \<Rightarrow> u32 \<Rightarrow> timeval \<Rightarrow> u32 \<Rightarrow> u32 \<Rightarrow>
    'a cu_data option option" where
  "clntudp_bufcreate ram buf raddr sock closeit xid msg err program version wait sendsz recvsz =
     (let sendsz = round4 sendsz; recvsz = round4 recvsz; outbuf = buf + unat recvsz;
          call_msg = msg\<lparr>rm_xid := xid, rm_direction := CALL, rm_call := (rm_call msg)\<lparr>cb_rpcvers := RPC_MSG_VERSION, cb_prog := program,
            cb_vers := version\<rparr>\<rparr> in do {
        (ok, call_msg, xdrs) \<leftarrow> xdr_callhdr xdrmem_ops XDR_ENCODE call_msg (xdrmem_create outbuf sendsz ram);
        Some (if \<not> ok then None
          else Some \<lparr>cu_sock = sock, cu_closeit = closeit, cu_raddr = raddr, cu_wait = wait, cu_total = \<lparr>tv_sec = -1, tv_usec = -1\<rparr>,
            cu_error = err, cu_outxdrs = xdrs, cu_xdrpos = xdrmem_getpos xdrs, cu_sendsz = sendsz, cu_outbuf = outbuf,
            cu_recvsz = recvsz, cu_inbuf = buf\<rparr>) })"

text \<open>The kernel: \<open>sendto\<close> with its result and \<open>errno\<close>, \<open>select\<close> on the socket and \<open>recvfrom\<close>.\<close>

datatype sel = Sel_timeout | Sel_intr | Sel_error u32 | Sel_ready
datatype rcv = Rcv_intr | Rcv_wouldblock | Rcv_error u32 | Rcv_data "u8 list"

record ('a, 'n) clnt_sock =
  cs_sendto :: "int \<Rightarrow> u8 list \<Rightarrow> 'a \<Rightarrow> 'n \<Rightarrow> (int \<times> u32) \<times> 'n"
  cs_select :: "int \<Rightarrow> timeval \<Rightarrow> 'n \<Rightarrow> sel \<times> 'n"
  cs_recvfrom :: "int \<Rightarrow> nat \<Rightarrow> 'n \<Rightarrow> rcv \<times> 'n"

function norm_usec :: "int \<Rightarrow> int \<Rightarrow> (int \<times> int) option" where
  "norm_usec sec usec =
     (if usec \<ge> 1000000 then do { sec \<leftarrow> i32 (sec + 1); norm_usec sec (usec - 1000000) } else Some (sec, usec))"
  by pat_completeness auto
termination by (relation "measure (\<lambda>(sec, usec). nat usec)") auto

definition add_wait :: "timeval \<Rightarrow> timeval \<Rightarrow> timeval option" where
  "add_wait t d = do {
     sec \<leftarrow> i32 (tv_sec t + tv_sec d);
     usec \<leftarrow> i32 (tv_usec t + tv_usec d);
     (sec, usec) \<leftarrow> norm_usec sec usec;
     Some \<lparr>tv_sec = sec, tv_usec = usec\<rparr> }"

definition tv_less :: "timeval \<Rightarrow> timeval \<Rightarrow> bool" where
  "tv_less a b \<longleftrightarrow> tv_sec a < tv_sec b \<or> tv_sec a = tv_sec b \<and> tv_usec a < tv_usec b"

partial_function (option) clnt_recvfrom :: "('a, 'n) clnt_sock \<Rightarrow> 'a cu_data \<Rightarrow> 'n \<Rightarrow> (rcv \<times> 'n) option" where
  "clnt_recvfrom K cu n =
     (case cs_recvfrom K (cu_sock cu) (unat (cu_recvsz cu)) n of
        (Rcv_intr, n) \<Rightarrow> clnt_recvfrom K cu n
      | (r, n) \<Rightarrow> Some (r, n))"

text \<open>How the loop for the reply ends: a reply of some length in the input buffer, the time to send again, or an error.\<close>

datatype waited = Reply nat | Again timeval | Failed u32 "u32 option"

definition set_ram :: "ram \<Rightarrow> 'a cu_data \<Rightarrow> 'a cu_data" where
  "set_ram m cu = cu\<lparr>cu_outxdrs := (cu_outxdrs cu)\<lparr>x_ram := m\<rparr>\<rparr>"

partial_function (option) clnt_wait :: "('a, 'n) clnt_sock \<Rightarrow> 'a cu_data \<Rightarrow> timeval \<Rightarrow> timeval \<Rightarrow> 'n \<Rightarrow> (waited \<times> 'a cu_data \<times> 'n) option" where
  "clnt_wait K cu time_waited timeout n =
     (case cs_select K (cu_sock cu) (cu_wait cu) n of
        (Sel_timeout, n) \<Rightarrow> do {
          t \<leftarrow> add_wait time_waited (cu_wait cu);
          Some (if tv_less t timeout then Again t else Failed 5 None, cu, n) }
      | (Sel_intr, n) \<Rightarrow> clnt_wait K cu time_waited timeout n
      | (Sel_error e, n) \<Rightarrow> Some (Failed 4 (Some e), cu, n)
      | (Sel_ready, n) \<Rightarrow> do {
          (r, n) \<leftarrow> clnt_recvfrom K cu n;
          case r of
            Rcv_data d \<Rightarrow>
              if length d \<le> unat (cu_recvsz cu) \<and> cu_inbuf cu + length d \<le> length (x_ram (cu_outxdrs cu)) then
                (let cu = set_ram (patch (cu_inbuf cu) d (x_ram (cu_outxdrs cu))) cu in
                 if length d < 4 then clnt_wait K cu time_waited timeout n
                 else do {
                   x \<leftarrow> load32 (x_ram (cu_outxdrs cu)) (cu_inbuf cu);
                   y \<leftarrow> load32 (x_ram (cu_outxdrs cu)) (cu_outbuf cu);
                   if x \<noteq> y then clnt_wait K cu time_waited timeout n
                   else Some (Reply (length d), cu, n) })
              else None
          | Rcv_error e \<Rightarrow> Some (Failed 4 (Some e), cu, n)
          | _ \<Rightarrow> clnt_wait K cu time_waited timeout n })"

definition clnt_error :: "u32 \<Rightarrow> u32 option \<Rightarrow> 'a cu_data \<Rightarrow> 'a cu_data" where
  "clnt_error st e cu = cu\<lparr>cu_error := (cu_error cu)\<lparr>re_status := st,
     re_ru := (case e of None \<Rightarrow> re_ru (cu_error cu) | Some en \<Rightarrow> (en, snd (re_ru (cu_error cu))))\<rparr>\<rparr>"

text \<open>\<open>send_again\<close>: the reply, or the error that \<open>cu_error\<close> has then.\<close>

partial_function (option) clnt_send :: "('a, 'n) clnt_sock \<Rightarrow> nat \<Rightarrow> 'a cu_data \<Rightarrow> timeval \<Rightarrow> timeval \<Rightarrow> 'n \<Rightarrow>
    ((nat \<times> timeval) option \<times> 'a cu_data \<times> 'n) option" where
  "clnt_send K outlen cu time_waited timeout n =
     (if cu_outbuf cu + outlen \<le> length (x_ram (cu_outxdrs cu)) then
        (let ((r, en), n) = cs_sendto K (cu_sock cu) (seg (cu_outbuf cu) outlen (x_ram (cu_outxdrs cu))) (cu_raddr cu) n in
         if r \<noteq> int outlen then Some (None, clnt_error 3 (Some en) cu, n)
         else if tv_sec timeout = 0 \<and> tv_usec timeout = 0 then Some (None, clnt_error 5 None cu, n)
         else do {
           (wt, cu, n) \<leftarrow> clnt_wait K cu time_waited timeout n;
           case wt of
             Again t \<Rightarrow> clnt_send K outlen cu t timeout n
           | Failed st e \<Rightarrow> Some (None, clnt_error st e cu, n)
           | Reply inlen \<Rightarrow> Some (Some (inlen, time_waited), cu, n) })
      else None)"

text \<open>The request: transaction, procedure, credentials and arguments behind the header.\<close>

definition clnt_marshal :: "'u auth_ops \<Rightarrow> ('p \<Rightarrow> (xdrmem, 'v) xdrproc) \<Rightarrow> u32 \<Rightarrow> 'p \<Rightarrow> 'v \<Rightarrow> 'a cu_data \<Rightarrow> 'u \<Rightarrow> (bool \<times> 'a cu_data) option" where
  "clnt_marshal A procs proc xargs argsp cu au = do {
     let cu = cu\<lparr>cu_outxdrs := snd (xdrmem_setpos (cu_xdrpos cu) (cu_outxdrs cu))\<rparr>;
     xid \<leftarrow> load32 (x_ram (cu_outxdrs cu)) (cu_outbuf cu);
     m \<leftarrow> store32 (x_ram (cu_outxdrs cu)) (cu_outbuf cu) (xid + 1);
     let cu = set_ram m cu;
     (ok, xdrs) \<leftarrow> x_putlong xdrmem_ops proc (cu_outxdrs cu);
     if \<not> ok then Some (False, cu\<lparr>cu_outxdrs := xdrs\<rparr>)
     else do {
       (ok, xdrs) \<leftarrow> ah_marshal A au xdrs;
       if \<not> ok then Some (False, cu\<lparr>cu_outxdrs := xdrs\<rparr>)
       else do { (ok, argsp, xdrs) \<leftarrow> procs xargs XDR_ENCODE argsp xdrs; Some (ok, cu\<lparr>cu_outxdrs := xdrs\<rparr>) } } }"

text \<open>The reply of \<open>inlen\<close> bytes: whether it calls for new credentials, the results and the message. \<open>msg\<close> is the local message.\<close>

definition clnt_decode :: "'u auth_ops \<Rightarrow> (nat \<Rightarrow> u8 list option) \<Rightarrow> ('p \<Rightarrow> (xdrmem, 'v) xdrproc) \<Rightarrow> 'p \<Rightarrow> ('v, 'p) msg \<Rightarrow> 'v \<Rightarrow> nat \<Rightarrow>
    'a cu_data \<Rightarrow> 'u \<Rightarrow> (bool \<times> 'v \<times> ('v, 'p) msg \<times> 'a cu_data) option" where
  "clnt_decode A alloc procs xresults msg res inlen cu au = do {
     let msg = msg\<lparr>rp_acpt := (rp_acpt msg)\<lparr>ar_verf := null_auth, ar_where := \<lparr>rs_where = res, rs_proc = xresults\<rparr>\<rparr>\<rparr>;
     (ok, msg, r) \<leftarrow> xdr_replymsg xdrmem_ops alloc (xdr_results procs) XDR_DECODE msg
       (xdrmem_create (cu_inbuf cu) (of_nat inlen) (x_ram (cu_outxdrs cu)));
     let res = rs_where (ar_where (rp_acpt msg));
     if \<not> ok then Some (False, res, msg, clnt_error 2 None cu)
     else do {
       let cu = cu\<lparr>cu_error := seterr_reply msg (cu_error cu)\<rparr>;
       if re_status (cu_error cu) = 0 then do {
         let verf = ar_verf (rp_acpt msg);
         let cu = (if ah_validate A au verf then cu else clnt_error 7 (Some 6) cu);
         (ok, verf, xdrs) \<leftarrow> (if oa_base verf \<noteq> None then xdr_opaque_auth xdrmem_ops alloc XDR_FREE verf (cu_outxdrs cu)
           else Some (True, verf, cu_outxdrs cu));
         Some (False, res, msg\<lparr>rp_acpt := (rp_acpt msg)\<lparr>ar_verf := verf\<rparr>\<rparr>, cu\<lparr>cu_outxdrs := xdrs\<rparr>) }
       else Some (True, res, msg, cu) } }"

text \<open>\<open>call_again\<close>: \<open>nrefreshes\<close> times the credentials may be refreshed.\<close>

fun clnt_call :: "('a, 'n) clnt_sock \<Rightarrow> 'u auth_ops \<Rightarrow> (nat \<Rightarrow> u8 list option) \<Rightarrow> ('p \<Rightarrow> (xdrmem, 'v) xdrproc) \<Rightarrow> u32 \<Rightarrow> 'p \<Rightarrow> 'v \<Rightarrow> 'p \<Rightarrow>
    timeval \<Rightarrow> nat \<Rightarrow> timeval \<Rightarrow> ('v, 'p) msg \<Rightarrow> 'v \<Rightarrow> 'a cu_data \<Rightarrow> 'u \<Rightarrow> 'n \<Rightarrow> (u32 \<times> 'v \<times> 'a cu_data \<times> 'u \<times> 'n) option" where
  "clnt_call K A alloc procs proc xargs argsp xresults timeout nrefreshes time_waited msg res cu au n = do {
     (ok, cu) \<leftarrow> clnt_marshal A procs proc xargs argsp cu au;
     if \<not> ok then Some (1, res, clnt_error 1 None cu, au, n)
     else do {
       (rp, cu, n) \<leftarrow> clnt_send K (unat (xdrmem_getpos (cu_outxdrs cu))) cu time_waited timeout n;
       case rp of
         None \<Rightarrow> Some (re_status (cu_error cu), res, cu, au, n)
       | Some (inlen, time_waited) \<Rightarrow> do {
           (refresh, res, msg, cu) \<leftarrow> clnt_decode A alloc procs xresults msg res inlen cu au;
           case nrefreshes of
             0 \<Rightarrow> Some (re_status (cu_error cu), res, cu, au, n)
           | Suc k \<Rightarrow>
               if refresh then
                 (let (again, au) = ah_refresh A au in
                  if again then clnt_call K A alloc procs proc xargs argsp xresults timeout k time_waited msg res cu au n
                  else Some (re_status (cu_error cu), res, cu, au, n))
               else Some (re_status (cu_error cu), res, cu, au, n) } } }"

definition clntudp_call :: "('a, 'n) clnt_sock \<Rightarrow> 'u auth_ops \<Rightarrow> (nat \<Rightarrow> u8 list option) \<Rightarrow> ('p \<Rightarrow> (xdrmem, 'v) xdrproc) \<Rightarrow> ('v, 'p) msg \<Rightarrow>
    u32 \<Rightarrow> 'p \<Rightarrow> 'v \<Rightarrow> 'p \<Rightarrow> 'v \<Rightarrow> timeval \<Rightarrow> 'a cu_data \<Rightarrow> 'u \<Rightarrow> 'n \<Rightarrow> (u32 \<times> 'v \<times> 'a cu_data \<times> 'u \<times> 'n) option" where
  "clntudp_call K A alloc procs msg proc xargs argsp xresults resultsp utimeout cu au n =
     (let timeout = (if tv_usec (cu_total cu) = -1 then utimeout else cu_total cu) in
      clnt_call K A alloc procs proc xargs argsp xresults timeout 2 \<lparr>tv_sec = 0, tv_usec = 0\<rparr> msg resultsp cu au n)"

definition clntudp_geterr :: "'a cu_data \<Rightarrow> rpc_err" where
  "clntudp_geterr cu = cu_error cu"

definition clntudp_freeres :: "('p \<Rightarrow> (xdrmem, 'v) xdrproc) \<Rightarrow> 'p \<Rightarrow> 'v \<Rightarrow> 'a cu_data \<Rightarrow> (bool \<times> 'v \<times> 'a cu_data) option" where
  "clntudp_freeres procs xdr_res res cu = do {
     (ok, v, xdrs) \<leftarrow> procs xdr_res XDR_FREE res (cu_outxdrs cu);
     Some (ok, v, cu\<lparr>cu_outxdrs := xdrs\<rparr>) }"

text \<open>\<open>clntudp_control\<close>: what \<open>info\<close> points to is a time or an address.\<close>

datatype 'a info = Time timeval | Addr 'a

definition info_time :: "'a info \<Rightarrow> timeval option" where
  "info_time info = (case info of Time t \<Rightarrow> Some t | Addr a \<Rightarrow> None)"

definition clntudp_control :: "'a cu_data \<Rightarrow> u32 \<Rightarrow> 'a info \<Rightarrow> (bool \<times> 'a cu_data \<times> 'a info) option" where
  "clntudp_control cu request info =
     (if request = 1 then do { t \<leftarrow> info_time info; Some (True, cu\<lparr>cu_total := t\<rparr>, info) }
      else if request = 2 then Some (True, cu, Time (cu_total cu))
      else if request = 4 then do { t \<leftarrow> info_time info; Some (True, cu\<lparr>cu_wait := t\<rparr>, info) }
      else if request = 5 then Some (True, cu, Time (cu_wait cu))
      else if request = 3 then Some (True, cu, Addr (cu_raddr cu))
      else Some (False, cu, info))"

end
