(* ===== verification/Clnt_Correct.thy ===== *)
theory Clnt_Correct
  imports Clnt
begin

text \<open>What the client of theory \<open>Clnt\<close> sends and what it makes of the answer.\<close>

section \<open>The output buffer\<close>

lemma setpos_to:
  assumes "x_private x + unat (x_handy x) = e" "x_base x + unat p \<le> e" "e < 2147483648"
  shows "xdrmem_setpos p x = (True, x\<lparr>x_private := x_base x + unat p, x_handy := of_nat (e - (x_base x + unat p))\<rparr>)"
proof -
  have w: "of_nat (x_base x) + p = (of_nat (x_base x + unat p) :: u32)" by simp
  have u: "unat (of_nat (x_base x + unat p) :: u32) = x_base x + unat p"
  proof -
    have "x_base x + unat p < 4294967296" using assms(2,3) by linarith
    then show ?thesis by (simp add: unat_of_nat del: of_nat_add)
  qed
  have ue: "unat (of_nat e :: u32) = e" using assms(3) by (simp add: unat_of_nat)
  have l: "of_nat (x_private x) + x_handy x = (of_nat e :: u32)" unfolding assms(1) [symmetric] by simp
  have s: "sint (of_nat (x_base x + unat p) :: u32) = int (x_base x + unat p)"
    by (rule sint_of_small [of "of_nat (x_base x + unat p)", unfolded u]) (use assms(2,3) in linarith)
  have se: "sint (of_nat e :: u32) = int e"
    by (rule sint_of_small [of "of_nat e", unfolded ue]) (rule assms(3))
  have d: "(of_nat e :: u32) - of_nat (x_base x + unat p) = of_nat (e - (x_base x + unat p))"
    using assms(2) by (simp only: of_nat_diff)
  have "\<not> int e < int (x_base x + unat p)" using assms(2) by (simp only: of_nat_less_iff not_less)
  then show ?thesis unfolding xdrmem_setpos_def Let_def w l s se u d by simp
qed

lemma be32_htonl: "be32 (htonl w) = rev (be32 w)"
  by (simp add: be32_def htonl_bytes)

lemma htonl_htonl: "htonl (htonl w) = w"
proof -
  have "be32 (htonl (htonl w)) = be32 w" by (simp add: be32_htonl)
  then have "of_be32 (be32 (htonl (htonl w))) = of_be32 (be32 w)" by simp
  then show ?thesis by (simp only: of_be32_be32)
qed

lemma load32_bytes: "m = p @ be32 w @ q \<Longrightarrow> length p = a \<Longrightarrow> load32 m a = Some (htonl w)"
proof -
  assume "m = p @ be32 w @ q" "length p = a"
  then have "get_long m a = Some w" by (rule get_long_at)
  then obtain l where "load32 m a = Some l" "htonl l = w" by (auto simp: get_long_def)
  then show ?thesis by (auto simp: htonl_htonl)
qed

lemma store32_bytes: "m = p @ be32 v @ q \<Longrightarrow> length p = a \<Longrightarrow> store32 m a w = Some (p @ be32 (htonl w) @ q)"
  using store32_be [of m a "htonl w"] by (auto simp: htonl_htonl patch_def)

text \<open>The transaction after \<open>xid\<close>: the number is counted up in the byte order of the machine.\<close>

definition next_xid :: "u32 \<Rightarrow> u32" where
  "next_xid xid = htonl (htonl xid + 1)"

text \<open>The client's block: the stream is over the output buffer, which starts with the header for a program and version and
  follows the input buffer.\<close>

definition cu_ok :: "u32 \<Rightarrow> u32 \<Rightarrow> u32 \<Rightarrow> 'a cu_data \<Rightarrow> bool" where
  "cu_ok xid prog vers cu \<longleftrightarrow> (let s = cu_outxdrs cu; e = cu_outbuf cu + unat (cu_sendsz cu) in
     wok (buf_view (cu_outbuf cu) e) s \<and> e < 2147483648 \<and> cu_xdrpos cu = 20 \<and> 20 \<le> unat (cu_sendsz cu) \<and>
     (\<exists>p q. x_ram s = p @ (be32 xid @ be32 0 @ be32 2 @ be32 prog @ be32 vers) @ q \<and> length p = cu_outbuf cu) \<and>
     cu_inbuf cu + unat (cu_recvsz cu) \<le> cu_outbuf cu)"

lemma null_bytes: "auth_bytes null_auth = be32 0 @ be32 0"
  by (simp add: auth_bytes_def null_auth_def auth_data_def block_def padded_def pad_def)

lemma authnone_created:
  "\<exists>p. authnone_create True None = Some (True, Some p) \<and> an_mcnt p = 16 \<and> take 16 (marshalled_client p) = be32 0 @ be32 0 @ be32 0 @ be32 0"
proof -
  let ?V = "buf_view 0 20" and ?s = "xdrmem_create 0 20 (replicate 20 0)"
  have w: "wok ?V ?s" by (simp add: buf_view_simps mem_ok_def xdrmem_create_def)
  have e: "emits ?V (xdr_opaque_auth xdrmem_ops (\<lambda>n. None)) null_auth (be32 0 @ be32 0)"
    using buf.auth_emits [of null_auth 0 20 "\<lambda>n. None"] unfolding null_bytes by (simp add: auth_ok_def null_auth_def)
  have f: "fits ?V ?s (length (be32 0 @ be32 0))" by (simp add: buf_view_simps xdrmem_create_def)
  from emitsD [OF e w f] obtain s1 where s1: "xdr_opaque_auth xdrmem_ops (\<lambda>n. None) XDR_ENCODE null_auth ?s = Some (True, null_auth, s1)"
    "wok ?V s1" "written ?V s1 = be32 0 @ be32 0" "\<And>n. fits ?V s1 n \<longleftrightarrow> fits ?V ?s (8 + n)"
    by (auto simp: buf_view_simps xdrmem_create_def)
  have "fits ?V s1 (length (be32 0 @ be32 0))" using s1(4) by (simp add: buf_view_simps xdrmem_create_def)
  from emitsD [OF e s1(2) this] obtain s2 where s2: "xdr_opaque_auth xdrmem_ops (\<lambda>n. None) XDR_ENCODE null_auth s1 = Some (True, null_auth, s2)"
    "wok ?V s2" "written ?V s2 = be32 0 @ be32 0 @ be32 0 @ be32 0" using s1(3) by auto
  have "length (written ?V s2) = 16" unfolding s2(3) by simp
  then have p: "x_private s2 = 16" "x_base s2 = 0" "x_private s2 + unat (x_handy s2) = 20" using s2(2) by (auto simp: buf_view_simps mem_ok_def)
  have t: "take 16 (x_ram s2) = be32 0 @ be32 0 @ be32 0 @ be32 0" using s2(3) p by (simp add: buf_view_simps seg_def)
  then show ?thesis using s1(1) s2(1) p t by (simp add: authnone_create_def xdrmem_getpos_def)
qed

section \<open>A call\<close>

lemma in_call_emits:
  "(\<And>c. put (get c) c = c) \<Longrightarrow> emits (buf_view b e) (in_call (on get put (xdr_u_long xdrmem_ops))) m (be32 (get (rm_call m)))"
  unfolding in_call_def
  by (rule buf.on_emits [where a = "rm_call m", OF buf.on_emits [where a = "get (rm_call m)", OF buf.emits_u_long]]) simp_all

lemma emits_callhdr:
  "emits (buf_view b e) (xdr_all
     [on rm_xid (\<lambda>x m. m\<lparr>rm_xid := x\<rparr>) (xdr_u_long xdrmem_ops),
      on rm_direction (\<lambda>x m. m\<lparr>rm_direction := x\<rparr>) (xdr_enum xdrmem_ops),
      in_call (on cb_rpcvers (\<lambda>x c. c\<lparr>cb_rpcvers := x\<rparr>) (xdr_u_long xdrmem_ops)),
      in_call (on cb_prog (\<lambda>x c. c\<lparr>cb_prog := x\<rparr>) (xdr_u_long xdrmem_ops)),
      in_call (on cb_vers (\<lambda>x c. c\<lparr>cb_vers := x\<rparr>) (xdr_u_long xdrmem_ops))]) m
     (be32 (rm_xid m) @ be32 (rm_direction m) @ be32 (cb_rpcvers (rm_call m)) @ be32 (cb_prog (rm_call m)) @ be32 (cb_vers (rm_call m)) @ [])"
  by (intro buf.all_emits_Cons buf.all_emits_Nil in_call_emits buf.on_emits [OF buf.emits_u_long] buf.on_emits [OF buf.emits_enum]) simp_all

lemma callhdr_encode:
  assumes "rm_direction m = 0" "cb_rpcvers (rm_call m) = 2" "wok (buf_view b e) x" "written (buf_view b e) x = []" "20 \<le> unat (x_handy x)"
  shows "\<exists>x'. xdr_callhdr xdrmem_ops XDR_ENCODE m x = Some (True, m, x') \<and> wok (buf_view b e) x' \<and>
    written (buf_view b e) x' = be32 (rm_xid m) @ be32 0 @ be32 2 @ be32 (cb_prog (rm_call m)) @ be32 (cb_vers (rm_call m))"
proof -
  have "(rm_call m)\<lparr>cb_rpcvers := 2\<rparr> = rm_call m" using assms(2) by (cases "rm_call m") simp
  then have m: "m\<lparr>rm_direction := 0, rm_call := (rm_call m)\<lparr>cb_rpcvers := 2\<rparr>\<rparr> = m" using assms(1) by (cases m) simp
  have f: "fits (buf_view b e) x (length (be32 (rm_xid m) @ be32 (rm_direction m) @ be32 (cb_rpcvers (rm_call m)) @
      be32 (cb_prog (rm_call m)) @ be32 (cb_vers (rm_call m)) @ []))" using assms(5) by (simp add: buf_view_simps)
  from emitsD [OF emits_callhdr assms(3) f] assms(1,2,4) show ?thesis
    unfolding xdr_callhdr_def Let_def m by (auto simp del: xdr_all.simps)
qed

lemma bufcreate_ok:
  assumes "buf + unat (round4 recvsz) + unat (round4 sendsz) \<le> length ram"
    and "buf + unat (round4 recvsz) + unat (round4 sendsz) < 2147483648" "20 \<le> unat (round4 sendsz)"
  shows "\<exists>cu. clntudp_bufcreate ram buf raddr sock closeit xid msg err program version wait sendsz recvsz = Some (Some cu) \<and>
    cu_ok xid program version cu \<and> cu_sock cu = sock \<and> cu_raddr cu = raddr \<and> tv_usec (cu_total cu) = -1 \<and>
    cu_sendsz cu = round4 sendsz \<and> cu_recvsz cu = round4 recvsz \<and> cu_wait cu = wait"
proof -
  let ?o = "buf + unat (round4 recvsz)" and ?s = "round4 sendsz"
  let ?e = "?o + unat ?s" and ?m = "msg\<lparr>rm_xid := xid, rm_direction := CALL, rm_call := (rm_call msg)\<lparr>cb_rpcvers := RPC_MSG_VERSION,
      cb_prog := program, cb_vers := version\<rparr>\<rparr>"
  let ?h = "be32 xid @ be32 0 @ be32 2 @ be32 program @ be32 version"
  let ?V = "buf_view ?o ?e" and ?x = "xdrmem_create ?o ?s ram"
  have w: "wok ?V ?x" using assms(1) by (simp add: buf_view_simps mem_ok_def xdrmem_create_def)
  have "written ?V ?x = []" "20 \<le> unat (x_handy ?x)" using assms(3) by (simp_all add: buf_view_simps xdrmem_create_def)
  with callhdr_encode [of ?m ?o ?e ?x] w obtain x where
    x: "xdr_callhdr xdrmem_ops XDR_ENCODE ?m ?x = Some (True, ?m, x)" "wok ?V x" "written ?V x = ?h" by auto
  have "length (written ?V x) = 20" unfolding x(3) by simp
  then have p: "x_private x = ?o + 20" "x_base x = ?o" using x(2) by (auto simp: buf_view_simps mem_ok_def)
  have pos: "xdrmem_getpos x = 20" using p by (simp add: xdrmem_getpos_def)
  have l: "?o + 20 \<le> length (x_ram x)" using x(2) p by (simp add: buf_view_simps mem_ok_def)
  have "x_ram x = take ?o (x_ram x) @ ?h @ drop (?o + 20) (x_ram x)"
  proof -
    have "take 20 (drop ?o (x_ram x)) = ?h" using x(3) p by (simp add: buf_view_simps seg_def)
    then show ?thesis using append_take_drop_id [of ?o "x_ram x"] append_take_drop_id [of 20 "drop ?o (x_ram x)"] by (simp add: add.commute)
  qed
  moreover have "length (take ?o (x_ram x)) = ?o" using l by simp
  ultimately have "\<exists>p q. x_ram x = p @ ?h @ q \<and> length p = ?o" by blast
  then show ?thesis using x(1,2) pos assms(2,3)
    by (simp add: clntudp_bufcreate_def Let_def cu_ok_def)
qed

text \<open>The datagram of a call, with null credentials.\<close>

definition call_bytes :: "u32 \<Rightarrow> u32 \<Rightarrow> u32 \<Rightarrow> u32 \<Rightarrow> u8 list \<Rightarrow> u8 list" where
  "call_bytes xid prog vers proc args = be32 xid @ be32 0 @ be32 2 @ be32 prog @ be32 vers @ be32 proc @
     be32 0 @ be32 0 @ be32 0 @ be32 0 @ args"

definition cu_end :: "'a cu_data \<Rightarrow> addr" where
  "cu_end cu = cu_outbuf cu + unat (cu_sendsz cu)"

definition null_client :: "authnone_private option \<Rightarrow> bool" where
  "null_client au \<longleftrightarrow> (\<exists>p. au = Some p \<and> an_mcnt p = 16 \<and> take 16 (marshalled_client p) = be32 0 @ be32 0 @ be32 0 @ be32 0)"

lemma clnt_marshal_sends:
  assumes cu: "cu_ok xid prog vers cu" and au: "null_client au"
    and args: "emits (buf_view (cu_outbuf cu) (cu_end cu)) (procs xargs) argsp args" "40 + length args \<le> unat (cu_sendsz cu)"
  shows "\<exists>x. clnt_marshal authnone_ops procs proc xargs argsp cu au = Some (True, cu\<lparr>cu_outxdrs := x\<rparr>) \<and>
    wok (buf_view (cu_outbuf cu) (cu_end cu)) x \<and>
    written (buf_view (cu_outbuf cu) (cu_end cu)) x = call_bytes (next_xid xid) prog vers proc args"
proof -
  let ?V = "buf_view (cu_outbuf cu) (cu_end cu)" and ?s = "cu_outxdrs cu" and ?h = "be32 0 @ be32 2 @ be32 prog @ be32 vers"
  obtain p q where pq: "x_ram ?s = p @ be32 xid @ ?h @ q" "length p = cu_outbuf cu" and w: "wok ?V ?s" and e: "cu_end cu < 2147483648"
    and pos: "cu_xdrpos cu = 20" "20 \<le> unat (cu_sendsz cu)" using cu by (auto simp: cu_ok_def Let_def cu_end_def)
  have b: "x_base ?s = cu_outbuf cu" "x_private ?s + unat (x_handy ?s) = cu_end cu" "mem_ok ?s" using w by (auto simp: buf_view_simps)
  define t where "t = ?s\<lparr>x_private := cu_outbuf cu + 20, x_handy := of_nat (cu_end cu - (cu_outbuf cu + 20))\<rparr>"
  have sp: "xdrmem_setpos (cu_xdrpos cu) ?s = (True, t)"
    using setpos_to [of ?s "cu_end cu" 20] b pos e by (simp add: t_def cu_end_def)
  have ld: "load32 (x_ram t) (cu_outbuf cu) = Some (htonl xid)"
    by (rule load32_bytes [of _ p _ "?h @ q"]) (use pq in \<open>simp_all add: t_def\<close>)
  let ?m = "p @ be32 (next_xid xid) @ ?h @ q"
  have st: "store32 (x_ram t) (cu_outbuf cu) (htonl xid + 1) = Some ?m"
    unfolding next_xid_def by (rule store32_bytes [of _ p xid]) (use pq in \<open>simp_all add: t_def\<close>)
  let ?t = "t\<lparr>x_ram := ?m\<rparr>"
  have l: "length ?m = length (x_ram ?s)" using pq by simp
  have uh: "unat (x_handy t) = cu_end cu - (cu_outbuf cu + 20)" using e by (simp add: t_def unat_of_nat)
  have wt: "wok ?V ?t" using b uh pos(2) l by (simp add: buf_view_simps t_def mem_ok_def cu_end_def)
  have wr: "written ?V ?t = be32 (next_xid xid) @ ?h" using pq b(1) by (simp add: buf_view_simps t_def seg_def)
  have f: "fits ?V ?t n \<longleftrightarrow> n + 20 \<le> unat (cu_sendsz cu)" for n using uh pos(2) by (auto simp: buf_view_simps cu_end_def t_def)
  obtain x1 where x1: "x_putlong xdrmem_ops proc ?t = Some (True, x1)" "wok ?V x1" "written ?V x1 = be32 (next_xid xid) @ ?h @ be32 proc"
    "\<And>n. fits ?V x1 n \<longleftrightarrow> fits ?V ?t (4 + n)"
    using buf.putlong [OF wt, of proc] f [of 4] args(2) wr by auto
  obtain z where z: "au = Some z" "an_mcnt z = 16" "take 16 (marshalled_client z) = be32 0 @ be32 0 @ be32 0 @ be32 0"
    using au by (auto simp: null_client_def)
  have "length (take 16 (marshalled_client z)) = 16" unfolding z(3) by simp
  then have lz: "unat (16 :: u32) \<le> length (marshalled_client z)" by simp
  obtain x2 where x2: "x_putbytes xdrmem_ops (marshalled_client z) 16 x1 = Some (True, x2)" "wok ?V x2"
    "written ?V x2 = be32 (next_xid xid) @ ?h @ be32 proc @ be32 0 @ be32 0 @ be32 0 @ be32 0"
    "\<And>n. fits ?V x2 n \<longleftrightarrow> fits ?V ?t (20 + n)"
    using buf.putbytes [OF x1(2) _ lz] x1(3,4) f [of 20] args(2) z(3) by auto
  have "fits ?V x2 (length args)" using x2(4) f args(2) by simp
  from emitsD [OF args(1) x2(2) this] obtain x3 where x3: "procs xargs XDR_ENCODE argsp x2 = Some (True, argsp, x3)" "wok ?V x3"
    "written ?V x3 = call_bytes (next_xid xid) prog vers proc args" using x2(3) by (auto simp: call_bytes_def)
  have "clnt_marshal authnone_ops procs proc xargs argsp cu au = Some (True, cu\<lparr>cu_outxdrs := x3\<rparr>)"
    using sp ld st x1(1) x2(1) x3(1) z(1,2)
    by (simp add: clnt_marshal_def Let_def set_ram_def authnone_ops_def authnone_marshal_def)
  then show ?thesis using x3(2,3) by blast
qed

lemma length_call_bytes [simp]: "length (call_bytes xid prog vers proc args) = 40 + length args"
  by (simp add: call_bytes_def)

lemma written_out:
  assumes "wok (buf_view b e) x" "e < 2147483648" "written (buf_view b e) x = d"
  shows "unat (xdrmem_getpos x) = length d" "seg b (length d) (x_ram x) = d" "b + length d \<le> length (x_ram x)"
proof -
  have b: "x_base x = b" "b \<le> x_private x" "x_private x \<le> length (x_ram x)" "x_private x \<le> e"
    using assms(1) by (auto simp: buf_view_simps mem_ok_def)
  have l: "length d = x_private x - b" using assms(3) b by (auto simp: buf_view_simps)
  show "unat (xdrmem_getpos x) = length d"
  proof -
    have "xdrmem_getpos x = of_nat (length d)" using b(1,2) by (simp add: xdrmem_getpos_def l of_nat_diff)
    moreover have "length d < 4294967296" using l b(4) assms(2) by linarith
    ultimately show ?thesis by (simp add: unat_of_nat)
  qed
  show "seg b (length d) (x_ram x) = d" using assms(3) b by (simp add: buf_view_simps l)
  show "b + length d \<le> length (x_ram x)" using l b by simp
qed

lemma clnt_send_gets:
  assumes w: "wok (buf_view (cu_outbuf cu) (cu_end cu)) (cu_outxdrs cu)" "cu_end cu < 2147483648"
    and wr: "written (buf_view (cu_outbuf cu) (cu_end cu)) (cu_outxdrs cu) = d" "d = be32 xid @ d'"
    and disj: "cu_inbuf cu + unat (cu_recvsz cu) \<le> cu_outbuf cu"
    and t: "\<not> (tv_sec timeout = 0 \<and> tv_usec timeout = 0)"
    and n: "cs_sendto K (cu_sock cu) d (cu_raddr cu) n = ((int (length d), en), n1)" "cs_select K (cu_sock cu) (cu_wait cu) n1 = (Sel_ready, n2)"
      "cs_recvfrom K (cu_sock cu) (unat (cu_recvsz cu)) n2 = (Rcv_data bs, n3)"
    and bs: "length bs \<le> unat (cu_recvsz cu)" "bs = be32 xid @ bs'"
  shows "clnt_send K (unat (xdrmem_getpos (cu_outxdrs cu))) cu wt timeout n =
    Some (Some (length bs, wt), set_ram (patch (cu_inbuf cu) bs (x_ram (cu_outxdrs cu))) cu, n3)"
proof -
  let ?s = "cu_outxdrs cu" and ?V = "buf_view (cu_outbuf cu) (cu_end cu)"
  note o = written_out [OF w wr(1)]
  note g = o(1) and sd = o(2) and fit = o(3)
  let ?m = "patch (cu_inbuf cu) bs (x_ram ?s)"
  have inb: "cu_inbuf cu + length bs \<le> cu_outbuf cu" using bs(1) disj by simp
  have fitb: "cu_inbuf cu + length bs \<le> length (x_ram ?s)" using inb fit by simp
  have lx: "load32 ?m (cu_inbuf cu) = Some (htonl xid)"
    by (rule load32_bytes [of _ "take (cu_inbuf cu) (x_ram ?s)" _ "bs' @ drop (cu_inbuf cu + length bs) (x_ram ?s)"])
      (use fitb in \<open>simp_all add: patch_def bs(2)\<close>)
  have ly: "load32 ?m (cu_outbuf cu) = Some (htonl xid)"
  proof (rule load32_bytes [of _ "take (cu_outbuf cu) ?m" _ "d' @ drop (cu_outbuf cu + length d) ?m"])
    have lm: "length ?m = length (x_ram ?s)" using fitb by (rule length_patch)
    have "seg (cu_outbuf cu) (length d) ?m = d"
    proof -
      have "drop (cu_outbuf cu) ?m = drop (cu_outbuf cu) (x_ram ?s)" using inb fitb by (simp add: patch_def)
      then show ?thesis using sd by (simp add: seg_def)
    qed
    then have "take (length d) (drop (cu_outbuf cu) ?m) = d" by (simp add: seg_def)
    then show "?m = take (cu_outbuf cu) ?m @ be32 xid @ d' @ drop (cu_outbuf cu + length d) ?m"
      using append_take_drop_id [of "cu_outbuf cu" ?m] append_take_drop_id [of "length d" "drop (cu_outbuf cu) ?m"] wr(2)
      by (simp add: add.commute)
    show "length (take (cu_outbuf cu) ?m) = cu_outbuf cu" using lm fit by simp
  qed
  have rf: "clnt_recvfrom K cu n2 = Some (Rcv_data bs, n3)" using n(3) by (subst clnt_recvfrom.simps) simp
  have "4 \<le> length bs" using bs(2) by simp
  then have "clnt_wait K cu wt timeout n1 = Some (Reply (length bs), set_ram ?m cu, n3)"
    using n(2) rf bs(1) fitb lx ly by (subst clnt_wait.simps) (simp add: Let_def set_ram_def not_less)
  then show ?thesis using fit sd n(1) t g by (subst clnt_send.simps) (auto simp: Let_def)
qed

section \<open>The answer\<close>

lemma results_yields:
  "yields V (procs (rs_proc r0)) (rs_where r0) v bs \<Longrightarrow> yields V (xdr_results procs) r0 (r0\<lparr>rs_where := v\<rparr>) bs"
  unfolding yields_def xdr_results_def by fastforce

lemma free_auth: "\<exists>v. xdr_opaque_auth xdrmem_ops alloc XDR_FREE a s = Some (True, v, s)"
  by (auto simp: xdr_opaque_auth_def on_def xdr_enum_def xdr_long_def xdr_bytes_def xdr_u_int_def xdr_u_long_def)

definition answer_status :: "u32 \<Rightarrow> u32" where
  "answer_status st = (if st = 0 then 0 else if st = 1 then 8 else 9)"

lemma answer_reply:
  assumes "answer procs M V ss pls c args st lo hi rb"
  shows "st = 0 \<or> st = 1 \<or> st = 2"
  using assms by (cases rule: answer.cases) auto

lemma clnt_decode_answer:
  fixes res :: 'v and procs :: "'p \<Rightarrow> (xdrmem, 'v) xdrproc"
  assumes bs: "bs = answer_bytes xid st lo hi rb" "length bs < 4294967296" and st: "st = 0 \<or> st = 1 \<or> st = 2"
    and m: "cu_inbuf cu + length bs \<le> length (x_ram (cu_outxdrs cu))" "seg (cu_inbuf cu) (length bs) (x_ram (cu_outxdrs cu)) = bs"
    and y: "st = 0 \<Longrightarrow> yields mem_view (procs xresults) res r rb" and al: "allocates alloc"
  shows "\<exists>f res' msg' cu'. clnt_decode authnone_ops alloc procs xresults msg res (length bs) cu au = Some (f, res', msg', cu') \<and>
    re_status (cu_error cu') = answer_status st \<and> (st = 0 \<longrightarrow> res' = r) \<and> (st = 2 \<longrightarrow> re_ru (cu_error cu') = (lo, hi)) \<and>
    cu' = cu\<lparr>cu_error := cu_error cu'\<rparr>"
proof -
  let ?w = "\<lparr>rs_where = res, rs_proc = xresults\<rparr>"
  let ?start = "msg\<lparr>rp_acpt := (rp_acpt msg)\<lparr>ar_verf := null_auth, ar_where := ?w\<rparr>\<rparr>"
  let ?m = "msg\<lparr>rm_xid := xid, rm_direction := 1, rp_stat := 0, rp_acpt := \<lparr>ar_verf = null_auth, ar_stat = st, ar_low = lo, ar_high = hi,
      ar_where = ?w\<lparr>rs_where := r\<rparr>\<rparr>\<rparr>"
  let ?x = "xdrmem_create (cu_inbuf cu) (of_nat (length bs)) (x_ram (cu_outxdrs cu))"
  have ok: "reply_ok ?m" by (simp add: reply_ok_def auth_ok_def null_auth_def)
  have b: "reply_bytes ?m rb = bs" by (simp add: bs(1) reply_bytes_def acpt_bytes_def null_bytes answer_bytes_def)
  have u: "unat (of_nat (length bs) :: u32) = length bs" using bs(2) by (simp add: unat_of_nat)
  have "yields mem_view (xdr_results procs) (ar_where (rp_acpt ?start)) (ar_where (rp_acpt ?m)) rb" if "st = 0"
    using results_yields [of mem_view procs ?w r rb] y [OF that] by simp
  then obtain m' where m': "yields mem_view (xdr_replymsg xdrmem_ops alloc (xdr_results procs)) ?start m' bs" "same_reply m' ?m"
    using mem.reply_yields [OF ok al, of ?start "xdr_results procs" rb] b by (auto simp: null_auth_def)
  have "mem_ok ?x" using m(1) u by (intro mem_ok_create) simp
  moreover have "ahead mem_view ?x = bs @ []" using m(2) u by (simp add: xdrmem_create_def)
  ultimately obtain x where x: "xdr_replymsg xdrmem_ops alloc (xdr_results procs) XDR_DECODE ?start ?x = Some (True, m', x)"
    using yieldsD [OF m'(1), of ?x "[]"] by auto
  have e: "re_status (seterr_reply m' e) = answer_status st" "st = 2 \<Longrightarrow> re_ru (seterr_reply m' e) = (lo, hi)" for e
    using seterr_same(1,2) [OF m'(2) ok, of e] st by (auto simp: reply_status_def answer_status_def)
  have r: "st = 0 \<Longrightarrow> rs_where (ar_where (rp_acpt m')) = r" using m'(2) by (simp add: same_reply_def same_acpt_def)
  show ?thesis
  proof (cases "st = 0")
    case True
    obtain v where "xdr_opaque_auth xdrmem_ops alloc XDR_FREE (ar_verf (rp_acpt m')) (cu_outxdrs cu) = Some (True, v, cu_outxdrs cu)"
      using free_auth by blast
    moreover have "cu\<lparr>cu_error := z, cu_outxdrs := cu_outxdrs cu\<rparr> = cu\<lparr>cu_error := z\<rparr>" for z by (cases cu) simp
    ultimately show ?thesis using x e r True
      by (auto simp: clnt_decode_def Let_def authnone_ops_def authnone_validate_def answer_status_def)
  next
    case False
    then show ?thesis using x e
      by (auto simp: clnt_decode_def Let_def answer_status_def)
  qed
qed

text \<open>After the answer the block is ready for the next call.\<close>

lemma cu_ok_answered:
  assumes "cu_ok xid prog vers cu" "wok (buf_view (cu_outbuf cu) (cu_end cu)) x" "length bs \<le> unat (cu_recvsz cu)"
    and d: "written (buf_view (cu_outbuf cu) (cu_end cu)) x = call_bytes xid' prog vers proc args"
  shows "cu_ok xid' prog vers ((set_ram (patch (cu_inbuf cu) bs (x_ram x)) (cu\<lparr>cu_outxdrs := x\<rparr>))\<lparr>cu_error := e\<rparr>)"
proof -
  let ?m = "patch (cu_inbuf cu) bs (x_ram x)" and ?h = "be32 xid' @ be32 0 @ be32 2 @ be32 prog @ be32 vers" and ?o = "cu_outbuf cu"
  have x: "x_base x = ?o" "?o \<le> x_private x" "x_private x \<le> length (x_ram x)" using assms(2) by (auto simp: buf_view_simps mem_ok_def)
  have i: "cu_inbuf cu + length bs \<le> ?o" using assms(1,3) by (simp add: cu_ok_def Let_def)
  have l: "cu_inbuf cu + length bs \<le> length (x_ram x)" using x i by simp
  have "drop ?o ?m = drop ?o (x_ram x)" using i l by (simp add: patch_def)
  moreover obtain t where "seg ?o (x_private x - ?o) (x_ram x) = ?h @ t" using d x(1) by (simp add: buf_view_simps call_bytes_def)
  then have "drop ?o (x_ram x) = ?h @ t @ drop (x_private x - ?o) (drop ?o (x_ram x))"
    using append_take_drop_id [of "x_private x - ?o" "drop ?o (x_ram x)"] by (simp add: seg_def)
  then obtain q where "drop ?o (x_ram x) = ?h @ q" by blast
  ultimately have "?m = take ?o ?m @ ?h @ q" using append_take_drop_id [of ?o ?m] by simp
  moreover have "length (take ?o ?m) = ?o" using x l by (simp add: length_patch)
  ultimately have "\<exists>p q. ?m = p @ ?h @ q \<and> length p = ?o" by blast
  then show ?thesis using assms(1,2) l
    by (simp add: cu_ok_def Let_def set_ram_def buf_view_simps mem_ok_def length_patch cu_end_def)
qed

lemma clntudp_call_answered:
  fixes res :: 'v and procs :: "'p \<Rightarrow> (xdrmem, 'v) xdrproc" and cu :: "'a cu_data"
  assumes cu: "cu_ok xid prog vers cu" "null_client au" "tv_usec (cu_total cu) = -1" and t: "\<not> (tv_sec timeout = 0 \<and> tv_usec timeout = 0)"
    and args: "emits (buf_view (cu_outbuf cu) (cu_end cu)) (procs xargs) argsp args" "40 + length args \<le> unat (cu_sendsz cu)"
    and d: "d = call_bytes (next_xid xid) prog vers proc args"
    and n: "cs_sendto K (cu_sock cu) d (cu_raddr cu) n = ((int (length d), en), n1)" "cs_select K (cu_sock cu) (cu_wait cu) n1 = (Sel_ready, n2)"
      "cs_recvfrom K (cu_sock cu) (unat (cu_recvsz cu)) n2 = (Rcv_data bs, n3)"
    and bs: "bs = answer_bytes (next_xid xid) st lo hi rb" "length bs \<le> unat (cu_recvsz cu)" and st: "st = 0 \<or> st = 1 \<or> st = 2"
    and y: "st = 0 \<Longrightarrow> yields mem_view (procs xresults) res r rb" and al: "allocates alloc"
  shows "\<exists>res' cu'. clntudp_call K authnone_ops alloc procs msg proc xargs argsp xresults res timeout cu au n =
      Some (answer_status st, res', cu', au, n3) \<and> re_status (cu_error cu') = answer_status st \<and>
    (st = 0 \<longrightarrow> res' = r) \<and> (st = 2 \<longrightarrow> re_ru (cu_error cu') = (lo, hi)) \<and> cu_ok (next_xid xid) prog vers cu'"
proof -
  let ?V = "buf_view (cu_outbuf cu) (cu_end cu)"
  obtain x where x: "clnt_marshal authnone_ops procs proc xargs argsp cu au = Some (True, cu\<lparr>cu_outxdrs := x\<rparr>)" "wok ?V x" "written ?V x = d"
    using clnt_marshal_sends [where procs = procs and xargs = xargs and proc = proc, OF cu(1,2) args] d by blast
  let ?c = "cu\<lparr>cu_outxdrs := x\<rparr>"
  let ?d = "set_ram (patch (cu_inbuf cu) bs (x_ram x)) ?c" and ?z = "\<lparr>tv_sec = 0, tv_usec = 0\<rparr>"
  have e: "cu_end ?c = cu_end cu" "cu_end cu < 2147483648" "cu_inbuf cu + unat (cu_recvsz cu) \<le> cu_outbuf cu"
    using cu(1) by (auto simp: cu_ok_def Let_def cu_end_def)
  have s: "clnt_send K (unat (xdrmem_getpos x)) ?c ?z timeout n = Some (Some (length bs, ?z), ?d, n3)"
    using clnt_send_gets [where cu = ?c and d = d and K = K and n = n and bs = bs and timeout = timeout] x(2,3) e t n bs d
    by (simp add: call_bytes_def answer_bytes_def)
  have l: "cu_inbuf cu + length bs \<le> length (x_ram x)" using x(2) e(3) bs(2) by (auto simp: buf_view_simps mem_ok_def)
  have b: "length bs < 4294967296" using bs(2) unat_u32 [of "cu_recvsz cu"] by linarith
  have m: "cu_inbuf ?d + length bs \<le> length (x_ram (cu_outxdrs ?d))" "seg (cu_inbuf ?d) (length bs) (x_ram (cu_outxdrs ?d)) = bs"
    using l by (simp_all add: set_ram_def seg_patch length_patch)
  obtain f res' msg' cu' where r: "clnt_decode authnone_ops alloc procs xresults msg res (length bs) ?d au = Some (f, res', msg', cu')"
    "re_status (cu_error cu') = answer_status st" "st = 0 \<longrightarrow> res' = r" "st = 2 \<longrightarrow> re_ru (cu_error cu') = (lo, hi)"
    "cu' = ?d\<lparr>cu_error := cu_error cu'\<rparr>"
    using clnt_decode_answer [where procs = procs and xresults = xresults and res = res and r = r and msg = msg and au = au,
      OF bs(1) b st m y al] by blast
  have "clntudp_call K authnone_ops alloc procs msg proc xargs argsp xresults res timeout cu au n = Some (answer_status st, res', cu', au, n3)"
    using x(1) s r(1,2) cu(3) by (simp add: clntudp_call_def eval_nat_numeral authnone_ops_def authnone_refresh_def)
  moreover have "cu_ok (next_xid xid) prog vers cu'"
    by (subst r(5)) (rule cu_ok_answered [OF cu(1) x(2) bs(2) x(3) [unfolded d]])
  ultimately show ?thesis using r(2-4) by blast
qed

section \<open>No answer\<close>

definition micros :: "timeval \<Rightarrow> int" where
  "micros t = tv_sec t * 1000000 + tv_usec t"

definition tv_ok :: "timeval \<Rightarrow> bool" where
  "tv_ok t \<longleftrightarrow> 0 \<le> tv_sec t \<and> 0 \<le> tv_usec t \<and> tv_usec t < 1000000"

lemma tv_less_micros: "tv_ok s \<Longrightarrow> tv_ok t \<Longrightarrow> tv_less s t \<longleftrightarrow> micros s < micros t"
  by (auto simp: tv_ok_def tv_less_def micros_def)

lemma norm_usec_once: "u < 2000000 \<Longrightarrow> -2147483648 \<le> s \<Longrightarrow> s < 2147483647 \<Longrightarrow>
    norm_usec s u = Some (if 1000000 \<le> u then (s + 1, u - 1000000) else (s, u))"
  by (simp add: i32_def)

lemma add_wait_micros:
  assumes "tv_ok s" "tv_ok d" "tv_sec s + tv_sec d < 2147483647"
  shows "\<exists>t. add_wait s d = Some t \<and> tv_ok t \<and> micros t = micros s + micros d"
proof -
  let ?s = "tv_sec s + tv_sec d" and ?u = "tv_usec s + tv_usec d"
  let ?t = "if 1000000 \<le> ?u then \<lparr>tv_sec = ?s + 1, tv_usec = ?u - 1000000\<rparr> else \<lparr>tv_sec = ?s, tv_usec = ?u\<rparr>"
  have b: "?u < 2000000" "0 \<le> ?u" "0 \<le> ?s" using assms by (simp_all add: tv_ok_def)
  have "norm_usec ?s ?u = Some (if 1000000 \<le> ?u then (?s + 1, ?u - 1000000) else (?s, ?u))"
    by (rule norm_usec_once) (use b assms(3) in linarith)+
  moreover have "i32 ?s = Some ?s" "i32 ?u = Some ?u" using b assms(3) by (simp_all add: i32_def)
  ultimately have "add_wait s d = Some ?t" by (simp add: add_wait_def del: norm_usec.simps)
  moreover have "tv_ok ?t" "micros ?t = micros s + micros d" using assms by (auto simp: tv_ok_def micros_def)
  ultimately show ?thesis by blast
qed

lemma clnt_send_unanswered:
  assumes K: "\<And>n. cs_sendto K (cu_sock cu) (seg (cu_outbuf cu) outlen (x_ram (cu_outxdrs cu))) (cu_raddr cu) n = ((int outlen, e n), f n)"
      "\<And>n. cs_select K (cu_sock cu) (cu_wait cu) n = (Sel_timeout, g n)"
    and fit: "cu_outbuf cu + outlen \<le> length (x_ram (cu_outxdrs cu))"
    and t: "tv_ok (cu_wait cu)" "tv_ok timeout" "\<not> (tv_sec timeout = 0 \<and> tv_usec timeout = 0)" "tv_sec timeout + tv_sec (cu_wait cu) < 2147483647"
    and j: "tv_ok tw" "micros tw < micros timeout" "micros timeout \<le> micros tw + int (Suc j) * micros (cu_wait cu)"
      "micros tw + int j * micros (cu_wait cu) < micros timeout"
  shows "clnt_send K outlen cu tw timeout n = Some (None, clnt_error 5 None cu, ((g \<circ> f) ^^ Suc j) n)"
  using j
proof (induction j arbitrary: tw n)
  case 0
  have "tv_sec tw \<le> tv_sec timeout" using 0(1,2) t(2) by (auto simp: tv_ok_def micros_def)
  with add_wait_micros [OF 0(1) t(1)] t(4) obtain u where u: "add_wait tw (cu_wait cu) = Some u" "tv_ok u" "micros u = micros tw + micros (cu_wait cu)"
    by auto
  have "\<not> tv_less u timeout" using tv_less_micros [OF u(2) t(2)] u(3) 0 by simp
  then have "clnt_wait K cu tw timeout n' = Some (Failed 5 None, cu, g n')" for n' using K(2) u(1) by (subst clnt_wait.simps) simp
  then show ?case using K(1) fit t(3) by (subst clnt_send.simps) auto
next
  case (Suc j)
  have "tv_sec tw \<le> tv_sec timeout" using Suc.prems(1,2) t(2) by (auto simp: tv_ok_def micros_def)
  with add_wait_micros [OF Suc.prems(1) t(1)] t(4) obtain u where u: "add_wait tw (cu_wait cu) = Some u" "tv_ok u" "micros u = micros tw + micros (cu_wait cu)"
    by auto
  have w: "0 \<le> micros (cu_wait cu)" using t(1) by (simp add: tv_ok_def micros_def)
  have m: "micros timeout \<le> micros u + int (Suc j) * micros (cu_wait cu)" "micros u + int j * micros (cu_wait cu) < micros timeout"
    using Suc.prems(3,4) u(3) by (simp_all add: algebra_simps)
  moreover have "micros u \<le> micros u + int j * micros (cu_wait cu)" using w by simp
  ultimately have l: "micros u < micros timeout" by linarith
  then have "tv_less u timeout" using tv_less_micros [OF u(2) t(2)] by simp
  then have "clnt_wait K cu tw timeout n' = Some (Again u, cu, g n')" for n' using K(2) u(1) by (subst clnt_wait.simps) simp
  then have "clnt_send K outlen cu tw timeout n = clnt_send K outlen cu u timeout (g (f n))"
    using K(1) fit t(3) by (subst clnt_send.simps) auto
  also have "\<dots> = Some (None, clnt_error 5 None cu, ((g \<circ> f) ^^ Suc j) (g (f n)))" using Suc.IH [OF u(2) l m] .
  also have "((g \<circ> f) ^^ Suc j) (g (f n)) = ((g \<circ> f) ^^ Suc (Suc j)) n" by (simp only: funpow_Suc_right comp_apply)
  finally show ?case .
qed

end
