(* ===== verification/Clnt_Props.thy ===== *)
theory Clnt_Props
  imports Clnt_Correct
begin

text \<open>A client and a server of remote procedure calls on a network that loses no datagram.\<close>

section \<open>Two hosts\<close>

text \<open>What is on its way to the server, with the sender, and to the client.\<close>

record 'a net =
  to_server :: "(u8 list \<times> 'a) list"
  to_client :: "u8 list list"

definition server_sock :: "'a \<Rightarrow> ('a, 'a net) sock_ops" where
  "server_sock me = \<lparr>so_recvfrom = (\<lambda>s n net. case to_server net of [] \<Rightarrow> (Inl False, net)
       | (d, from) # ds \<Rightarrow> (Inr (take n d, from), net\<lparr>to_server := ds\<rparr>)),
     so_sendto = (\<lambda>s bs a net. (int (length bs), if a = me then net\<lparr>to_client := to_client net @ [bs]\<rparr> else net))\<rparr>"

text \<open>The client's kernel: the state is the server's, which runs with the set \<open>rdfds\<close> of its sockets while the client waits.\<close>

definition client_sock :: "'a \<Rightarrow> (('a, 'a net, 'd, 'p, 'f) world \<Rightarrow> (bool \<times> ('a, 'a net, 'd, 'p, 'f) world) option) \<Rightarrow>
    ('a, ('a, 'a net, 'd, 'p, 'f) world) clnt_sock" where
  "client_sock me run = \<lparr>
     cs_sendto = (\<lambda>s bs a w. ((int (length bs), 0), w\<lparr>wd_net := (wd_net w)\<lparr>to_server := to_server (wd_net w) @ [(bs, me)]\<rparr>\<rparr>)),
     cs_select = (\<lambda>s t w. case run w of
         Some (False, w') \<Rightarrow> (if to_client (wd_net w') = [] then Sel_timeout else Sel_ready, w')
       | _ \<Rightarrow> (Sel_timeout, w)),
     cs_recvfrom = (\<lambda>s n w. case to_client (wd_net w) of [] \<Rightarrow> (Rcv_wouldblock, w)
       | d # ds \<Rightarrow> (Rcv_data (take n d), w\<lparr>wd_net := (wd_net w)\<lparr>to_client := ds\<rparr>\<rparr>))\<rparr>"

lemma client_sock_simps:
  "cs_sendto (client_sock me run) s bs a w =
     ((int (length bs), 0), w\<lparr>wd_net := (wd_net w)\<lparr>to_server := to_server (wd_net w) @ [(bs, me)]\<rparr>\<rparr>)"
  "run w = Some (False, w') \<Longrightarrow> to_client (wd_net w') = d # ds \<Longrightarrow> cs_select (client_sock me run) s t w = (Sel_ready, w')"
  "to_client (wd_net w) = [d] \<Longrightarrow> length d \<le> n \<Longrightarrow>
     cs_recvfrom (client_sock me run) s n w = (Rcv_data d, w\<lparr>wd_net := (wd_net w)\<lparr>to_client := []\<rparr>\<rparr>)"
  by (simp_all add: client_sock_def)

text \<open>The static part of a call with null credentials.\<close>

definition null_call :: "u32 \<Rightarrow> u32 \<Rightarrow> u32 \<Rightarrow> call_body" where
  "null_call prog vers proc = \<lparr>cb_rpcvers = 2, cb_prog = prog, cb_vers = vers, cb_proc = proc, cb_cred = null_auth, cb_verf = null_auth\<rparr>"

lemma call_data_null:
  fixes m :: "('v, 'p) msg"
  shows "call_data (m\<lparr>rm_xid := xid, rm_direction := 0, rm_call := null_call prog vers proc\<rparr>) args (call_bytes xid prog vers proc args)"
  unfolding call_data_def
  by (intro conjI exI [of _ "[]"])
    (simp_all add: call_ok_def call_wire_def auth_wire_def null_call_def null_auth_def call_bytes_def auth_ok_def auth_data_def pad_def block_def)

section \<open>A remote procedure call\<close>

text \<open>C39: a remote procedure call over a network that loses nothing returns, and returns what the server answers: \<open>RPC_SUCCESS\<close>
  with the result of a registered procedure, \<open>RPC_PROGVERSMISMATCH\<close> with the versions of the program that the server has, or
  \<open>RPC_PROGUNAVAIL\<close>. The client is then ready for the next call, with another transaction number.\<close>

theorem remote_call:
  fixes procs :: "'p \<Rightarrow> (xdrmem, 'v) xdrproc" and cprocs :: "'q \<Rightarrow> (xdrmem, 'u) xdrproc" and l :: "('v, 'p) msg \<times> area"
  assumes client: "cu_ok xid prog vers cu" "null_client au" "tv_usec (cu_total cu) = -1" "\<not> (tv_sec timeout = 0 \<and> tv_usec timeout = 0)"
    and server: "wd_xports w = Some xs" "k < length xs" "k < 32" "xs ! k = Some h" "get_xprt w h = Some x" "udp_ok x"
    and dts: "0 < dts" "dts \<le> 1024" and areas: "400 \<le> length ca" "400 \<le> length va"
    and M: "procs (sm_void M) = xdr_void" "sm_proglst M = wd_proglst"
    and net: "wd_net w = \<lparr>to_server = [], to_client = []\<rparr>"
    and args: "emits (buf_view (cu_outbuf cu) (cu_end cu)) (cprocs xargs) argsp args" "40 + length args \<le> unat (cu_sendsz cu)"
      "40 + length args \<le> unat (su_iosz x)"
    and a: "answer procs M (buf_view (x_base (su_xdrs x)) (udp_end x)) (wd_head w) (wd_proglst w) (null_call prog vers proc) args st lo hi rb"
    and size: "length (answer_bytes (next_xid xid) st lo hi rb) \<le> min (unat (su_iosz x)) (unat (cu_recvsz cu))"
    and y: "st = 0 \<Longrightarrow> yields mem_view (cprocs xresults) res r rb" and al: "allocates alloc"
  shows "\<exists>res' cu' w'. clntudp_call
      (client_sock me (svc_getreq (simple_server (server_sock me) salloc procs M rply) dts ca va l (push_bit k 1)))
      authnone_ops alloc cprocs msg proc xargs argsp xresults res timeout cu au w = Some (answer_status st, res', cu', au, w') \<and>
    re_status (cu_error cu') = answer_status st \<and> (st = 0 \<longrightarrow> res' = r) \<and> (st = 2 \<longrightarrow> re_ru (cu_error cu') = (lo, hi)) \<and>
    cu_ok (next_xid xid) prog vers cu'"
proof -
  let ?d = "call_bytes (next_xid xid) prog vers proc args" and ?bs = "answer_bytes (next_xid xid) st lo hi rb"
  let ?w = "w\<lparr>wd_net := \<lparr>to_server = [(?d, me)], to_client = []\<rparr>\<rparr>"
  let ?m = "(fst l)\<lparr>rm_xid := next_xid xid, rm_direction := 0, rm_call := null_call prog vers proc\<rparr>"
  let ?run = "svc_getreq (simple_server (server_sock me) salloc procs M rply) dts ca va l (push_bit k 1)"
  have d: "call_data ?m args ?d" by (rule call_data_null)
  have "\<exists>w'. ?run ?w = Some (False, w') \<and> wd_net w' = \<lparr>to_server = [], to_client = [?bs]\<rparr>"
    by (rule svc_getreq_answers [where w = ?w and m = ?m and d = ?d and bs = ?bs and x = x and h = h and xs = xs and src = me and
        n = "\<lparr>to_server = [], to_client = []\<rparr>" and st = st and lo = lo and hi = hi and rb = rb and args = args])
      (use server dts areas M args a size d in \<open>simp_all add: server_sock_def null_call_def null_auth_def\<close>)
  then obtain w' where w': "?run ?w = Some (False, w')" "wd_net w' = \<lparr>to_server = [], to_client = [?bs]\<rparr>" by blast
  have n: "cs_sendto (client_sock me ?run) (cu_sock cu) ?d (cu_raddr cu) w = ((int (length ?d), 0), ?w)"
    "cs_select (client_sock me ?run) (cu_sock cu) (cu_wait cu) ?w = (Sel_ready, w')"
    "cs_recvfrom (client_sock me ?run) (cu_sock cu) (unat (cu_recvsz cu)) w' = (Rcv_data ?bs, w'\<lparr>wd_net := (wd_net w')\<lparr>to_client := []\<rparr>\<rparr>)"
    using net w' size by (simp_all add: client_sock_simps)
  have sz: "length ?bs \<le> unat (cu_recvsz cu)" using size by simp
  show ?thesis
    using clntudp_call_answered [where procs = cprocs and xargs = xargs and xresults = xresults and res = res and r = r and msg = msg,
        OF client args(1,2) refl n refl sz answer_reply [OF a] y al] by blast
qed

text \<open>A client with buffers of 48 bytes that waits 5 seconds for an answer.\<close>

abbreviation (input) demo_create :: "unit cu_data option option" where
  "demo_create \<equiv> clntudp_bufcreate (replicate 96 0) 0 () 4 True 77 (demo_call 0 0) \<lparr>re_status = 0, re_ru = (0, 0)\<rparr> 100 1
      \<lparr>tv_sec = 5, tv_usec = 0\<rparr> 48 48"

lemma demo_client:
  obtains cu p where "demo_create = Some (Some cu)" "cu_ok 77 100 1 cu" "tv_usec (cu_total cu) = -1" "cu_sendsz cu = 48" "cu_recvsz cu = 48"
    "cu_wait cu = \<lparr>tv_sec = 5, tv_usec = 0\<rparr>" "authnone_create True None = Some (True, Some p)" "null_client (Some p)"
    "emits (buf_view (cu_outbuf cu) (cu_end cu)) (demo_procs 1) 41 (be32 41)"
proof -
  have sz: "round4 48 = 48" by (simp add: round4_def)
  obtain cu :: "unit cu_data" where cu: "demo_create = Some (Some cu)" "cu_ok 77 100 1 cu" "tv_usec (cu_total cu) = -1"
    "cu_sendsz cu = 48" "cu_recvsz cu = 48" "cu_wait cu = \<lparr>tv_sec = 5, tv_usec = 0\<rparr>"
    using bufcreate_ok [of 0 48 48 "replicate 96 0" "()" 4 True 77 "demo_call 0 0" "\<lparr>re_status = 0, re_ru = (0, 0)\<rparr>" 100 1
        "\<lparr>tv_sec = 5, tv_usec = 0\<rparr>"] sz by auto
  obtain p where "authnone_create True None = Some (True, Some p)" "null_client (Some p)"
    using authnone_created by (auto simp: null_client_def)
  moreover have "emits (buf_view (cu_outbuf cu) (cu_end cu)) (demo_procs 1) 41 (be32 41)"
    by (simp add: demo_procs_def buf.emits_u_long)
  ultimately show thesis using that cu by blast
qed

theorem remote_call_witness:
  "\<exists>cu au cu' w'. demo_create = Some (Some cu) \<and> authnone_create True None = Some (True, au) \<and>
    clntudp_call (client_sock () (svc_getreq (simple_server (server_sock ()) (\<lambda>n. None) demo_procs demo_simple (demo_call 0 0))
        20 (replicate 400 0) (replicate 400 0) (demo_call 0 0, demo_area) (push_bit 0 1)))
      authnone_ops (\<lambda>n. Some (replicate n 0)) demo_procs (demo_call 0 0) 3 1 41 1 0 \<lparr>tv_sec = 25, tv_usec = 0\<rparr> cu au
      (demo_world \<lparr>to_server = [], to_client = []\<rparr>) = Some (0, 42, cu', au, w')"
proof -
  let ?w = "demo_world \<lparr>to_server = [], to_client = []\<rparr>"
  obtain cu p where cu: "demo_create = Some (Some cu)" "cu_ok 77 100 1 cu" "tv_usec (cu_total cu) = -1" "cu_sendsz cu = 48" "cu_recvsz cu = 48"
    and p: "authnone_create True None = Some (True, Some p)" "null_client (Some p)"
    and e: "emits (buf_view (cu_outbuf cu) (cu_end cu)) (demo_procs 1) 41 (be32 41)" by (rule demo_client)
  have x: "wd_xports ?w = Some [Some 0]" "wd_net ?w = \<lparr>to_server = [], to_client = []\<rparr>" by (simp_all add: demo_world_def)
  have s: "unat (su_iosz demo_xprt) = 64" by (simp add: demo_xprt_def)
  have c: "rm_call (demo_call 1 3) = null_call 100 1 3" by (simp add: demo_call_def null_call_def demo_null_def null_auth_def)
  have y: "yields mem_view (demo_procs 1) 0 42 (be32 42)" by (simp add: demo_procs_def mem.yields_u_long)
  have al: "allocates (\<lambda>n. Some (replicate n 0))" by (simp add: allocates_def)
  obtain cu' w' where "clntudp_call (client_sock () (svc_getreq (simple_server (server_sock ()) (\<lambda>n. None) demo_procs demo_simple (demo_call 0 0))
        20 (replicate 400 0) (replicate 400 0) (demo_call 0 0, demo_area) (push_bit 0 1)))
      authnone_ops (\<lambda>n. Some (replicate n 0)) demo_procs (demo_call 0 0) 3 1 41 1 0 \<lparr>tv_sec = 25, tv_usec = 0\<rparr> cu (Some p) ?w =
        Some (0, 42, cu', Some p, w')"
    using remote_call [where cprocs = demo_procs and xargs = 1 and xresults = 1 and res = 0 and r = 42 and l = "(demo_call 0 0, demo_area)"
        and timeout = "\<lparr>tv_sec = 25, tv_usec = 0\<rparr>" and k = 0 and dts = 20 and ca = "replicate 400 0" and va = "replicate 400 0" and
        rply = "demo_call 0 0" and salloc = "\<lambda>n. None" and me = "()" and msg = "demo_call 0 0" and lo = 0 and hi = 0,
        OF cu(2) p(2) cu(3) _ x(1) _ _ _ demo_facts(1,2) _ _ _ _ demo_facts(6,7) x(2) e _ _ demo_answer [unfolded c] _ y al]
    by (auto simp: cu(4,5) s answer_bytes_def answer_status_def)
  then show ?thesis using cu(1) p(1) by blast
qed

text \<open>C40: when no answer comes, a remote procedure call returns with \<open>RPC_TIMEDOUT\<close>, after sending the request as often as the
  time between two requests goes into the timeout, rounded up; the client is then ready for the next call.\<close>

theorem call_times_out:
  fixes procs :: "'p \<Rightarrow> (xdrmem, 'v) xdrproc" and cu :: "'a cu_data"
  assumes cu: "cu_ok xid prog vers cu" "null_client au" "tv_usec (cu_total cu) = -1"
    and args: "emits (buf_view (cu_outbuf cu) (cu_end cu)) (procs xargs) argsp args" "40 + length args \<le> unat (cu_sendsz cu)"
    and K: "\<And>s d a n. cs_sendto K s d a n = ((int (length d), e n), f n)" "\<And>s t n. cs_select K s t n = (Sel_timeout, g n)"
    and t: "tv_ok (cu_wait cu)" "tv_ok timeout" "0 < micros (cu_wait cu)" "0 < micros timeout" "tv_sec timeout + tv_sec (cu_wait cu) < 2147483647"
  shows "\<exists>cu'. clntudp_call K authnone_ops alloc procs msg proc xargs argsp xresults res timeout cu au n =
      Some (5, res, cu', au, ((g \<circ> f) ^^ nat ((micros timeout + micros (cu_wait cu) - 1) div micros (cu_wait cu))) n) \<and>
    re_status (cu_error cu') = 5 \<and> cu_ok (next_xid xid) prog vers cu'"
proof -
  let ?V = "buf_view (cu_outbuf cu) (cu_end cu)" and ?z = "\<lparr>tv_sec = 0, tv_usec = 0\<rparr>"
  let ?W = "micros (cu_wait cu)" and ?T = "micros timeout"
  let ?d = "call_bytes (next_xid xid) prog vers proc args"
  obtain x where x: "clnt_marshal authnone_ops procs proc xargs argsp cu au = Some (True, cu\<lparr>cu_outxdrs := x\<rparr>)" "wok ?V x" "written ?V x = ?d"
    using clnt_marshal_sends [where procs = procs and xargs = xargs and proc = proc, OF cu(1,2) args] by blast
  let ?c = "cu\<lparr>cu_outxdrs := x\<rparr>"
  have e: "cu_end cu < 2147483648" using cu(1) by (auto simp: cu_ok_def Let_def cu_end_def)
  note o = written_out [OF x(2) e x(3)]
  define j where "j = nat ((?T - 1) div ?W)"
  have J: "int j = (?T - 1) div ?W" using t(3,4) by (simp add: j_def pos_imp_zdiv_nonneg_iff)
  have dm: "?T - 1 = ?W * ((?T - 1) div ?W) + (?T - 1) mod ?W" "0 \<le> (?T - 1) mod ?W" "(?T - 1) mod ?W < ?W" using t(3) by simp_all
  have j: "?T \<le> int (Suc j) * ?W" "int j * ?W < ?T" using dm unfolding J [symmetric] by (simp_all add: algebra_simps)
  have "(?T + ?W - 1) div ?W = int j + 1"
    using div_add_self2 [of ?W "?T - 1"] t(3) J by (simp add: algebra_simps)
  then have N: "nat ((?T + ?W - 1) div ?W) = Suc j" by simp
  have nz: "\<not> (tv_sec timeout = 0 \<and> tv_usec timeout = 0)" using t(4) by (auto simp: micros_def)
  have "clnt_send K (length ?d) ?c ?z timeout n = Some (None, clnt_error 5 None ?c, ((g \<circ> f) ^^ Suc j) n)"
    by (rule clnt_send_unanswered [where e = e])
      (use K o t nz j in \<open>simp_all add: tv_ok_def micros_def length_seg\<close>)
  then have "clntudp_call K authnone_ops alloc procs msg proc xargs argsp xresults res timeout cu au n =
      Some (5, res, clnt_error 5 None ?c, au, ((g \<circ> f) ^^ Suc j) n)"
    using x(1) o(1) cu(3) by (simp add: clntudp_call_def eval_nat_numeral clnt_error_def)
  moreover have "cu_ok (next_xid xid) prog vers (clnt_error 5 None ?c)"
    using cu_ok_answered [OF cu(1) x(2) _ x(3), of "[]"] by (simp add: patch_def set_ram_def clnt_error_def)
  ultimately show ?thesis unfolding N by (intro exI [of _ "clnt_error 5 None ?c"]) (simp add: clnt_error_def)
qed

definition dead_sock :: "(unit, nat) clnt_sock" where
  "dead_sock = \<lparr>cs_sendto = (\<lambda>s d a n. ((int (length d), 0), Suc n)), cs_select = (\<lambda>s t n. (Sel_timeout, n)),
     cs_recvfrom = (\<lambda>s k n. (Rcv_wouldblock, n))\<rparr>"

theorem call_times_out_witness:
  "\<exists>cu au cu'. demo_create = Some (Some cu) \<and> authnone_create True None = Some (True, au) \<and>
    clntudp_call dead_sock authnone_ops (\<lambda>n. None) demo_procs (demo_call 0 0) 3 1 41 1 0 \<lparr>tv_sec = 23, tv_usec = 0\<rparr> cu au 0 =
      Some (5, 0, cu', au, 5)"
proof -
  obtain cu p where cu: "demo_create = Some (Some cu)" "cu_ok 77 100 1 cu" "tv_usec (cu_total cu) = -1" "cu_sendsz cu = 48"
    "cu_wait cu = \<lparr>tv_sec = 5, tv_usec = 0\<rparr>"
    and p: "authnone_create True None = Some (True, Some p)" "null_client (Some p)"
    and e: "emits (buf_view (cu_outbuf cu) (cu_end cu)) (demo_procs 1) 41 (be32 41)" by (rule demo_client)
  have K: "cs_sendto dead_sock s d a n = ((int (length d), 0), Suc n)" "cs_select dead_sock s t n = (Sel_timeout, id n)" for s d a n t
    by (simp_all add: dead_sock_def)
  have n: "(((\<lambda>n. n) \<circ> Suc) ^^ 5) 0 = 5" by (simp add: numeral_eq_Suc)
  obtain cu' where "clntudp_call dead_sock authnone_ops (\<lambda>n. None) demo_procs (demo_call 0 0) 3 1 41 1 0 \<lparr>tv_sec = 23, tv_usec = 0\<rparr> cu (Some p) 0 =
      Some (5, 0, cu', Some p, 5)"
    using call_times_out [where procs = demo_procs and xargs = 1 and K = dead_sock and timeout = "\<lparr>tv_sec = 23, tv_usec = 0\<rparr>" and
        xresults = 1 and res = 0 and msg = "demo_call 0 0" and proc = 3 and n = 0 and alloc = "\<lambda>n. None", OF cu(2) p(2) cu(3) e _ K]
    by (auto simp: n cu(4,5) tv_ok_def micros_def simp del: funpow.simps)
  then show ?thesis using cu(1) p(1) by blast
qed

end
