(* ===== verification/Io.thy ===== *)
theory Io
  imports Cstring
begin

text \<open>
  The Python module \<open>io\<close> (\<open>src/hardware/iomodule.c\<close>): port input and output, and access to memory. The arguments
  of an operation are what \<open>PyArg_ParseTuple\<close> stores, or \<open>None\<close> when it fails and the operation returns NULL. The
  devices behind the ports are a parameter: \<open>read\<close> and \<open>write\<close> at a width on a device state. The instruction
  \<open>in\<close> sets only the low part of \<open>eax\<close>; the rest keeps the value \<open>eax\<close> had before.
\<close>

section \<open>Ports\<close>

datatype width = B | W | L

record 'd bus =
  bus_in :: "width \<Rightarrow> u16 \<Rightarrow> 'd \<Rightarrow> u32 \<times> 'd"
  bus_out :: "width \<Rightarrow> u16 \<Rightarrow> u32 \<Rightarrow> 'd \<Rightarrow> 'd"

definition part :: "width \<Rightarrow> u32" where
  "part w = (case w of B \<Rightarrow> 0xff | W \<Rightarrow> 0xffff | L \<Rightarrow> - 1)"

text \<open>The instructions; the port is \<open>dx\<close>, the low half of the argument.\<close>

definition asm_in :: "'d bus \<Rightarrow> width \<Rightarrow> u32 \<Rightarrow> u32 \<Rightarrow> 'd \<Rightarrow> u32 \<times> 'd" where
  "asm_in bus w edx eax d = (case bus_in bus w (ucast edx) d of (v, d) \<Rightarrow> ((eax AND NOT (part w)) OR (v AND part w), d))"

definition asm_out :: "'d bus \<Rightarrow> width \<Rightarrow> u32 \<Rightarrow> u32 \<Rightarrow> 'd \<Rightarrow> 'd" where
  "asm_out bus w edx eax d = bus_out bus w (ucast edx) (eax AND part w) d"

text \<open>The result is the Python integer, from the signed \<open>long\<close>, or \<open>None\<close> for NULL.\<close>

definition inb :: "'d bus \<Rightarrow> u32 option \<Rightarrow> u32 \<Rightarrow> 'd \<Rightarrow> int option \<times> 'd" where
  "inb bus args eax d =
     (case args of
        None \<Rightarrow> (None, d)
      | Some port \<Rightarrow> (case asm_in bus B port eax d of (v, d) \<Rightarrow> (Some (sint (v AND 0xff)), d)))"

definition inw :: "'d bus \<Rightarrow> u32 option \<Rightarrow> u32 \<Rightarrow> 'd \<Rightarrow> int option \<times> 'd" where
  "inw bus args eax d =
     (case args of
        None \<Rightarrow> (None, d)
      | Some port \<Rightarrow> (case asm_in bus W port eax d of (v, d) \<Rightarrow> (Some (sint (v AND 0xffff)), d)))"

definition inl :: "'d bus \<Rightarrow> u32 option \<Rightarrow> u32 \<Rightarrow> 'd \<Rightarrow> int option \<times> 'd" where
  "inl bus args eax d =
     (case args of
        None \<Rightarrow> (None, d)
      | Some port \<Rightarrow> (case asm_in bus L port eax d of (v, d) \<Rightarrow> (Some (sint v), d)))"

text \<open>The result says whether \<open>None\<close> is returned, or NULL.\<close>

definition outb :: "'d bus \<Rightarrow> (u32 \<times> u32) option \<Rightarrow> 'd \<Rightarrow> bool \<times> 'd" where
  "outb bus args d = (case args of None \<Rightarrow> (False, d) | Some (port, v) \<Rightarrow> (True, asm_out bus B port v d))"

definition outw :: "'d bus \<Rightarrow> (u32 \<times> u32) option \<Rightarrow> 'd \<Rightarrow> bool \<times> 'd" where
  "outw bus args d = (case args of None \<Rightarrow> (False, d) | Some (port, v) \<Rightarrow> (True, asm_out bus W port v d))"

definition outl :: "'d bus \<Rightarrow> (u32 \<times> u32) option \<Rightarrow> 'd \<Rightarrow> bool \<times> 'd" where
  "outl bus args d = (case args of None \<Rightarrow> (False, d) | Some (port, v) \<Rightarrow> (True, asm_out bus L port v d))"

section \<open>Memory\<close>

text \<open>\<open>None\<close> outside for a fault; inside for NULL. A negative length is not a length of a Python string.\<close>

definition mem_to_string :: "(u32 \<times> u32) option \<Rightarrow> ram \<Rightarrow> u8 list option option" where
  "mem_to_string args m =
     (case args of
        None \<Rightarrow> Some None
      | Some (buf, len) \<Rightarrow>
          if sint len \<ge> 0 \<and> unat buf + unat len \<le> length m then Some (Some (seg (unat buf) (unat len) m))
          else None)"

text \<open>\<open>memcpy\<close> from the bytes of a Python object.\<close>

fun copy_in :: "ram \<Rightarrow> addr \<Rightarrow> u8 list \<Rightarrow> ram option" where
  "copy_in m a [] = Some m"
| "copy_in m a (x # xs) = do { m \<leftarrow> store m a x; copy_in m (Suc a) xs }"

definition string_to_mem :: "(u32 \<times> u8 list) option \<Rightarrow> ram \<Rightarrow> (bool \<times> ram) option" where
  "string_to_mem args m =
     (case args of
        None \<Rightarrow> Some (False, m)
      | Some (dest, src) \<Rightarrow> do { m \<leftarrow> copy_in m (unat dest) src; Some (True, m) })"

definition mem_to_mem :: "(u32 \<times> u32 \<times> u32) option \<Rightarrow> ram \<Rightarrow> (bool \<times> ram) option" where
  "mem_to_mem args m =
     (case args of
        None \<Rightarrow> Some (False, m)
      | Some (dest, src, len) \<Rightarrow> do { m \<leftarrow> memmove m (unat dest) (unat src) (unat len); Some (True, m) })"

section \<open>Lemmas\<close>

lemma sint_of_length:
  assumes "n < 2 ^ 31"
  shows "unat (of_nat n :: u32) = n" "0 \<le> sint (of_nat n :: u32)"
proof -
  have n: "n < 4294967296" using assms by simp
  show u: "unat (of_nat n :: u32) = n" using n by (simp add: unat_of_nat)
  have "uint (of_nat n :: u32) = int n" using u by (metis uint_nat)
  then show "0 \<le> sint (of_nat n :: u32)" using assms by (simp add: sint_cases)
qed

lemma copy_in_result: "a + length xs \<le> length m \<Longrightarrow> copy_in m a xs = Some (patch a xs m)"
  by (induction xs arbitrary: m a) (auto simp: store_def patch_Cons)

text \<open>Masking removes what \<open>eax\<close> held before.\<close>

lemma asm_in_masked:
  "asm_in bus w port eax d = (v, d') \<Longrightarrow> v AND part w = fst (bus_in bus w (ucast port) d) AND part w"
  by (auto simp: asm_in_def word_ao_dist bit_simps intro!: bit_word_eqI split: prod.splits)

lemma asm_in_snd: "snd (asm_in bus w port eax d) = snd (bus_in bus w (ucast port) d)"
  by (simp add: asm_in_def split: prod.splits)

lemma sint_part: "w \<noteq> L \<Longrightarrow> sint (v AND part w) = uint (v AND part w)"
proof -
  assume "w \<noteq> L"
  then have "uint (part w) < 65536" by (cases w) (simp_all add: part_def)
  moreover have "uint (v AND part w) \<le> uint (part w)" using word_and_le1 [of v "part w"] by (simp add: word_le_def)
  ultimately show ?thesis by (simp add: sint_cases)
qed

text \<open>\<open>inb\<close> and \<open>inw\<close> return the unsigned value the device puts on the port, whatever \<open>eax\<close> held; \<open>inl\<close> returns it as a
  signed number. A value written reaches the device reduced to the width of the port.\<close>

lemma port_values:
  "inb bus (Some port) eax d =
     (Some (uint (fst (bus_in bus B (ucast port) d) AND part B)), snd (bus_in bus B (ucast port) d))"
  "inw bus (Some port) eax d =
     (Some (uint (fst (bus_in bus W (ucast port) d) AND part W)), snd (bus_in bus W (ucast port) d))"
  "inl bus (Some port) eax d = (Some (sint (fst (bus_in bus L (ucast port) d))), snd (bus_in bus L (ucast port) d))"
proof -
  have i: "inb bus (Some port) eax d = (case asm_in bus B port eax d of (v, d) \<Rightarrow> (Some (sint (v AND part B)), d))"
    "inw bus (Some port) eax d = (case asm_in bus W port eax d of (v, d) \<Rightarrow> (Some (sint (v AND part W)), d))"
    by (simp_all add: inb_def inw_def part_def)
  obtain v w where v: "asm_in bus B port eax d = (v, snd (bus_in bus B (ucast port) d))"
    and w: "asm_in bus W port eax d = (w, snd (bus_in bus W (ucast port) d))"
    using asm_in_snd by (metis prod.collapse)
  show "inb bus (Some port) eax d =
     (Some (uint (fst (bus_in bus B (ucast port) d) AND part B)), snd (bus_in bus B (ucast port) d))"
    using asm_in_masked [OF v] by (simp add: i(1) v sint_part)
  show "inw bus (Some port) eax d =
     (Some (uint (fst (bus_in bus W (ucast port) d) AND part W)), snd (bus_in bus W (ucast port) d))"
    using asm_in_masked [OF w] by (simp add: i(2) w sint_part)
  show "inl bus (Some port) eax d = (Some (sint (fst (bus_in bus L (ucast port) d))), snd (bus_in bus L (ucast port) d))"
    by (simp add: inl_def asm_in_def part_def split: prod.splits)
qed

section \<open>Properties\<close>

text \<open>C20: a string written to memory with \<open>string_to_mem\<close>, moved anywhere with \<open>mem_to_mem\<close>, even onto itself, and read with
  \<open>mem_to_string\<close> is the string, as long as both places lie in memory.\<close>
theorem io_string_roundtrip:
  assumes "unat dest + length s \<le> length m" "unat dest2 + length s \<le> length m" "length s < 2 ^ 31"
  shows "\<exists>m1 m2. string_to_mem (Some (dest, s)) m = Some (True, m1) \<and>
    mem_to_mem (Some (dest2, dest, of_nat (length s))) m1 = Some (True, m2) \<and>
    mem_to_string (Some (dest2, of_nat (length s))) m2 = Some (Some s)"
proof -
  have n: "unat (of_nat (length s) :: u32) = length s" "0 \<le> sint (of_nat (length s) :: u32)"
    using sint_of_length [OF assms(3)] by simp_all
  have "mem_to_mem (Some (dest2, dest, of_nat (length s))) (patch (unat dest) s m) =
      Some (True, patch (unat dest2) s (patch (unat dest) s m))"
    using assms(1,2) n by (simp add: mem_to_mem_def memmove_result length_patch seg_patch)
  then show ?thesis
    using assms(1,2) n
    by (simp add: string_to_mem_def copy_in_result mem_to_string_def length_patch seg_patch)
qed

lemma io_string_roundtrip_witness:
  "\<exists>m1 m2. string_to_mem (Some (3, [1, 2, 3, 4])) (replicate 20 0) = Some (True, m1) \<and>
    mem_to_mem (Some (5, 3, of_nat (length [1, 2, 3, 4 :: u8]))) m1 = Some (True, m2) \<and>
    mem_to_string (Some (5, of_nat (length [1, 2, 3, 4 :: u8]))) m2 = Some (Some [1, 2, 3, 4])"
  using io_string_roundtrip [of 3 "[1, 2, 3, 4]" "replicate 20 0" 5] by (simp del: of_nat_numeral)

end
