(* ===== verification/Boot.thy ===== *)
theory Boot
  imports Cstring "HOL-Library.Multiset"
begin

text \<open>
  The start of the system (\<open>src/sys/bimage/x86/c_stuff.c\<close>): the modules \<open>unununium_init\<close> loads, the console it
  connects to the C library, and the interpreter \<open>c_stuff\<close> runs. The Python interpreter is a parameter: a record of the
  functions of its C interface the file calls, over a state of the interpreter. The Python sources linked into the image
  are named by their symbols.
\<close>

section \<open>The Python interface\<close>

record ('s, 'o) python =
  py_init :: "string \<Rightarrow> 's \<Rightarrow> 's"
  py_setenv :: "string \<Rightarrow> string \<Rightarrow> 's \<Rightarrow> 's"
  py_compile :: "string \<Rightarrow> string \<Rightarrow> 's \<Rightarrow> 'o option \<times> 's"
  py_exec_module :: "string \<Rightarrow> 'o \<Rightarrow> 's \<Rightarrow> 'o option \<times> 's"
  py_module :: "string \<Rightarrow> 's \<Rightarrow> 'o option"
  py_call :: "'o \<Rightarrow> string \<Rightarrow> 'o list \<Rightarrow> 's \<Rightarrow> 'o option \<times> 's"
  py_main_dict_copy :: "'s \<Rightarrow> 'o option \<times> 's"
  py_run :: "string \<Rightarrow> 'o \<Rightarrow> 's \<Rightarrow> 'o option \<times> 's"
  py_err_print :: "'s \<Rightarrow> 's"
  py_decref :: "'o \<Rightarrow> 's \<Rightarrow> 's"
  py_interactive :: "'s \<Rightarrow> 's"

definition load_module :: "('s, 'o) python \<Rightarrow> string \<Rightarrow> string \<Rightarrow> string \<Rightarrow> 's \<Rightarrow> 's" where
  "load_module py name filename data s =
     (case py_compile py data filename s of
        (None, s) \<Rightarrow> py_err_print py s
      | (Some co, s) \<Rightarrow>
          (case py_exec_module py name co s of
             (None, s) \<Rightarrow> py_err_print py (py_decref py co s)
           | (Some module, s) \<Rightarrow> py_decref py module (py_decref py co s)))"

text \<open>\<open>hydro3d_run\<close> returns NULL in every case; the demo is a parameter.\<close>

definition hydro3d_run :: "bool \<Rightarrow> ('s \<Rightarrow> 's) \<Rightarrow> 's \<Rightarrow> 'o option \<times> 's" where
  "hydro3d_run parsed start_hydro3d s = (None, if parsed then start_hydro3d s else s)"

definition c_stuff :: "('s, 'o) python \<Rightarrow> 's \<Rightarrow> 's" where
  "c_stuff py s = (let
     s = py_setenv py ''PYTHONHOME'' ''/'' s;
     s = py_init py ''Py_Initialize'' s;
     s = py_init py ''initpm'' s;
     s = py_init py ''initga'' s;
     s = py_init py ''initgconsole'' s;
     s = py_init py ''initgatest'' s;
     s = load_module py ''shell'' ''/lib/python2.3/shell.py'' ''shell_py'' s;
     s = py_init py ''hydro3d'' s
   in py_interactive py
     (case py_main_dict_copy py s of
        (None, s) \<Rightarrow> py_err_print py s
      | (Some globals, s) \<Rightarrow>
          (case py_run py ''init_py'' globals s of
             (None, s) \<Rightarrow> py_decref py globals (py_err_print py s)
           | (Some runresult, s) \<Rightarrow> py_decref py globals (py_decref py runresult s))))"

section \<open>Initialization\<close>

definition store16 :: "ram \<Rightarrow> addr \<Rightarrow> u16 \<Rightarrow> ram option" where
  "store16 m a w = do { m \<leftarrow> store m a (ucast w); store m (Suc a) (ucast (drop_bit 8 w)) }"

text \<open>The memory when \<open>fatal_error\<close> has halted the processor.\<close>

primrec write_cells :: "u8 list \<Rightarrow> ram \<Rightarrow> addr \<Rightarrow> ram option" where
  "write_cells [] m vram = Some m"
| "write_cells (c # message) m vram = do {
     m \<leftarrow> store16 m vram (ucast (scast c + 0x4f00 :: u32));
     write_cells message m (vram + 2)
   }"

definition fatal_error :: "u8 list \<Rightarrow> ram \<Rightarrow> ram option" where
  "fatal_error message m = write_cells message m 0xb8000"

text \<open>The result of \<open>unununium_init\<close>, or the memory when the processor halts for ever.\<close>

datatype 's outcome = Returned int 's | Halted ram

definition fatal :: "string \<Rightarrow> ram \<Rightarrow> 's outcome option" where
  "fatal message m = map_option Halted (fatal_error (map of_char message) m)"

definition set_std :: "('s, 'o) python \<Rightarrow> 'o \<Rightarrow> 'o \<Rightarrow> string \<Rightarrow> string \<Rightarrow> ram \<Rightarrow> 's \<Rightarrow>
    ('s \<Rightarrow> 's outcome option) \<Rightarrow> 's outcome option" where
  "set_std py libc console name message m s go_on =
     (case py_call py libc name [console] s of
        (None, s) \<Rightarrow> fatal message m
      | (Some r, s) \<Rightarrow> go_on (py_decref py r s))"

definition init_rest :: "('s, 'o) python \<Rightarrow> 's \<Rightarrow> 's outcome option" where
  "init_rest py s = (let
     s = py_init py ''initmultiboot'' s;
     s = py_init py ''init_irqmodule'' s;
     s = py_init py ''init_uuutimemodule'' s;
     s = load_module py ''ramfs'' ''/lib/python2.3/ramfs.py'' ''ramfs_py'' s;
     s = load_module py ''uuu'' ''/lib/python2.3/uuu.py'' ''uuu_py'' s;
     s = load_module py ''block_device'' ''/lib/python2.3/block_device.py'' ''block_device_py'' s;
     s = load_module py ''ext2'' ''/lib/python2.3/ext2.py'' ''ext2_py'' s;
     s = load_module py ''disk_cache'' ''/lib/python2.3/disk_cache.py'' ''disk_cache_py'' s;
     s = load_module py ''floppy'' ''/lib/python2.3/floppy.py'' ''floppy_py'' s;
     s = load_module py ''ata'' ''/lib/python2.3/ata.py'' ''ata_py'' s
   in Some (Returned 1 s))"

definition unununium_init :: "('s, 'o) python \<Rightarrow> ram \<Rightarrow> 's \<Rightarrow> 's outcome option" where
  "unununium_init py m s = (let
     s = py_init py ''init_iomodule'' s;
     s = py_init py ''initkeyboard'' s;
     s = py_init py ''initlibc'' s;
     s = load_module py ''vfs'' ''/lib/python2.3/vfs.py'' ''vfs_py'' s;
     s = load_module py ''simpleconsole'' ''/lib/python2.3/simpleconsole.py'' ''simpleconsole_py'' s
   in case py_module py ''simpleconsole'' s of
        None \<Rightarrow> fatal ''could not get simpleconsole module'' m
      | Some simpleconsole \<Rightarrow>
     (case py_module py ''libc'' s of
        None \<Rightarrow> fatal ''could not get libc module'' m
      | Some libc \<Rightarrow>
     (case py_call py simpleconsole ''Console'' [] s of
        (None, s) \<Rightarrow> fatal ''could not create console'' m
      | (Some console, s) \<Rightarrow>
          set_std py libc console ''set_stdin'' ''could not set stdin'' m s (\<lambda>s.
          set_std py libc console ''set_stdout'' ''could not set stdout'' m s (\<lambda>s.
          set_std py libc console ''set_stderr'' ''could not set stderr'' m s (\<lambda>s.
          init_rest py (py_decref py console s)))))))"

text \<open>\<open>fstat64\<close> and \<open>stat64\<close>: the result and \<open>errno\<close>.\<close>

definition k_fstat64 :: "int \<times> errno_t" where
  "k_fstat64 = (- 1, ENOSYS)"

definition k_stat64 :: "int \<times> errno_t" where
  "k_stat64 = (- 1, ENOSYS)"

section \<open>References\<close>

text \<open>The contract of the interface for the references the file holds: the calls that return a new reference add it,
  \<open>Py_DECREF\<close> gives one back, and the other calls leave them alone.\<close>

definition new_ref :: "'o option \<Rightarrow> 'o multiset" where
  "new_ref r = (case r of None \<Rightarrow> {#} | Some x \<Rightarrow> {#x#})"

definition gives :: "('s \<Rightarrow> 'o multiset) \<Rightarrow> 's \<Rightarrow> 'o option \<times> 's \<Rightarrow> bool" where
  "gives live s r \<longleftrightarrow> live (snd r) = live s + new_ref (fst r)"

definition ref_contract :: "('s, 'o) python \<Rightarrow> ('s \<Rightarrow> 'o multiset) \<Rightarrow> bool" where
  "ref_contract py live \<longleftrightarrow>
     (\<forall>n s. live (py_init py n s) = live s) \<and> (\<forall>n v s. live (py_setenv py n v s) = live s) \<and>
     (\<forall>s. live (py_err_print py s) = live s) \<and> (\<forall>s. live (py_interactive py s) = live s) \<and>
     (\<forall>d f s. gives live s (py_compile py d f s)) \<and> (\<forall>n c s. gives live s (py_exec_module py n c s)) \<and>
     (\<forall>b n xs s. gives live s (py_call py b n xs s)) \<and> (\<forall>s. gives live s (py_main_dict_copy py s)) \<and>
     (\<forall>d g s. gives live s (py_run py d g s)) \<and>
     (\<forall>x s. x \<in># live s \<longrightarrow> live (py_decref py x s) = live s - {#x#})"

lemma contract_unfold:
  assumes "ref_contract py live"
  shows "live (py_init py n s) = live s" "live (py_setenv py n v s) = live s" "live (py_err_print py s) = live s"
    "live (py_interactive py s) = live s" "live s = add_mset x A \<Longrightarrow> live (py_decref py x s) = A"
    "py_compile py d f s = (r, s') \<Longrightarrow> live s' = live s + new_ref r"
    "py_exec_module py n c s = (r, s') \<Longrightarrow> live s' = live s + new_ref r"
    "py_call py b n xs s = (r, s') \<Longrightarrow> live s' = live s + new_ref r"
    "py_main_dict_copy py s = (r, s') \<Longrightarrow> live s' = live s + new_ref r"
    "py_run py d g s = (r, s') \<Longrightarrow> live s' = live s + new_ref r"
proof -
  note c = assms [unfolded ref_contract_def gives_def]
  show "live (py_init py n s) = live s" "live (py_setenv py n v s) = live s" "live (py_err_print py s) = live s"
    "live (py_interactive py s) = live s" using c by simp_all
  show "live (py_decref py x s) = A" if "live s = add_mset x A" using c that by simp
  show "live s' = live s + new_ref r" if "py_compile py d f s = (r, s')" using c that by (metis fst_conv snd_conv)
  show "live s' = live s + new_ref r" if "py_exec_module py n c s = (r, s')" using c that by (metis fst_conv snd_conv)
  show "live s' = live s + new_ref r" if "py_call py b n xs s = (r, s')" using c that by (metis fst_conv snd_conv)
  show "live s' = live s + new_ref r" if "py_main_dict_copy py s = (r, s')" using c that by (metis fst_conv snd_conv)
  show "live s' = live s + new_ref r" if "py_run py d g s = (r, s')" using c that by (metis fst_conv snd_conv)
qed

lemma new_ref_simps [simp]: "new_ref None = {#}" "new_ref (Some x) = {#x#}"
  by (simp_all add: new_ref_def)

lemma load_module_live:
  assumes "ref_contract py live"
  shows "live (load_module py name filename data s) = live s"
  by (auto simp: load_module_def contract_unfold [OF assms] split: prod.split option.split
    dest!: contract_unfold(6,7) [OF assms])

lemma c_stuff_live:
  assumes "ref_contract py live"
  shows "live (c_stuff py s) = live s"
proof -
  note c = contract_unfold [OF assms]
  show ?thesis
    by (auto simp: c_stuff_def Let_def c load_module_live [OF assms] split: prod.split option.split dest!: c(9,10))
qed

section \<open>Messages\<close>

abbreviation cell :: "u8 \<Rightarrow> u16" where
  "cell c \<equiv> ucast (scast c + 0x4f00 :: u32)"

definition cells :: "u8 list \<Rightarrow> u8 list" where
  "cells message = concat (map (\<lambda>c. [ucast (cell c), ucast (drop_bit 8 (cell c))]) message)"

definition on_screen :: "string \<Rightarrow> u8 list" where
  "on_screen message = concat (map (\<lambda>c. [of_char c, 0x4f]) message)"

definition messages :: "string list" where
  "messages = [''could not get simpleconsole module'', ''could not get libc module'', ''could not create console'',
     ''could not set stdin'', ''could not set stdout'', ''could not set stderr'']"

lemma write_cells_result:
  "vram + 2 * length message \<le> length m \<Longrightarrow> write_cells message m vram = Some (patch vram (cells message) m)"
proof (induction message arbitrary: m vram)
  case Nil
  then show ?case by (simp add: cells_def)
next
  case (Cons c message)
  let ?l = "ucast (cell c) :: u8" and ?h = "ucast (drop_bit 8 (cell c)) :: u8"
  let ?m = "m[vram := ?l, Suc vram := ?h]"
  have "store16 m vram (cell c) = Some ?m" using Cons.prems by (simp add: store16_def store_def)
  moreover have "write_cells message ?m (vram + 2) = Some (patch (vram + 2) (cells message) ?m)"
    using Cons.prems by (intro Cons.IH) simp
  moreover have "patch (vram + 2) (cells message) ?m = patch vram (cells (c # message)) m"
    using Cons.prems by (simp add: cells_def flip: patch_Cons)
  ultimately show ?case by simp
qed

lemma messages_on_screen: "x \<in> set messages \<Longrightarrow> cells (map of_char x) = on_screen x \<and> length x \<le> 40"
  by (auto simp: messages_def cells_def on_screen_def)

text \<open>\<open>unununium_init\<close> returns 1 with the references \<open>A\<close>, or halts with one of its messages on the screen.\<close>

definition starts :: "ram \<Rightarrow> ('s \<Rightarrow> 'o multiset) \<Rightarrow> 'o multiset \<Rightarrow> 's outcome option \<Rightarrow> bool" where
  "starts m live A r \<longleftrightarrow>
     (\<exists>s. r = Some (Returned 1 s) \<and> live s = A) \<or>
     (\<exists>x \<in> set messages. r = Some (Halted (patch 0xb8000 (on_screen x) m)))"

lemma starts_fatal:
  assumes "0xb8000 + 80 \<le> length m" "x \<in> set messages"
  shows "starts m live A (fatal x m)"
proof -
  have "fatal_error (map of_char x) m = Some (patch 0xb8000 (on_screen x) m)"
    using assms messages_on_screen [OF assms(2)] by (simp add: fatal_error_def write_cells_result)
  then show ?thesis using assms(2) by (auto simp: starts_def fatal_def)
qed

lemma starts_set_std:
  assumes "ref_contract py live" "0xb8000 + 80 \<le> length m" "x \<in> set messages" "live s = B"
    "\<And>s. live s = B \<Longrightarrow> starts m live A (go_on s)"
  shows "starts m live A (set_std py libc console name x m s go_on)"
  using assms(4,5) contract_unfold(5) [OF assms(1)]
  by (auto simp: set_std_def starts_fatal [OF assms(2,3)] split: prod.split option.split
    dest!: contract_unfold(8) [OF assms(1)])

lemma starts_rest:
  assumes "ref_contract py live"
  shows "starts m live (live s) (init_rest py s)"
  by (simp add: starts_def init_rest_def Let_def load_module_live [OF assms] contract_unfold [OF assms])

section \<open>Properties\<close>

text \<open>C21: whatever the Python interpreter answers, \<open>unununium_init\<close> either returns 1 or halts the processor with one
  of its six messages on the screen and the rest of the memory unchanged. When it returns, and in every run of
  \<open>load_module\<close> and \<open>c_stuff\<close>, each reference it was given has been given back exactly once.\<close>
theorem boot_returns_or_halts:
  assumes "ref_contract py live" "0xb8000 + 80 \<le> length m"
  shows "((\<exists>s'. unununium_init py m s = Some (Returned 1 s') \<and> live s' = live s) \<or>
      (\<exists>x \<in> set messages. unununium_init py m s = Some (Halted (patch 0xb8000 (on_screen x) m)))) \<and>
    live (load_module py name filename data s) = live s \<and> live (c_stuff py s) = live s"
proof -
  note c = contract_unfold [OF assms(1)] load_module_live [OF assms(1)]
  have std: "starts m live (live s) (set_std py libc console n x m t go_on)"
    if "x \<in> set messages" "live t = add_mset console (live s)"
      "\<And>t. live t = add_mset console (live s) \<Longrightarrow> starts m live (live s) (go_on t)" for libc console n x t go_on
    using starts_set_std [OF assms that(1,2)] that(3) by blast
  have rest: "starts m live (live s) (init_rest py (py_decref py console t))"
    if "live t = add_mset console (live s)" for console t
    using starts_rest [OF assms(1), of m "py_decref py console t"] c(5) [OF that] by simp
  have "starts m live (live s) (unununium_init py m s)"
    unfolding unununium_init_def Let_def
    by (auto simp: c starts_fatal [OF assms(2)] messages_def [THEN arg_cong, of set] split: prod.split option.split
      dest!: c(8) intro!: std rest)
  then show ?thesis
    unfolding starts_def by (simp add: c_stuff_live [OF assms(1)] load_module_live [OF assms(1)])
qed

text \<open>An interpreter in which every call succeeds, over the multiset of references held.\<close>

definition willing_python :: "(nat multiset, nat) python" where
  "willing_python = \<lparr>py_init = (\<lambda>n s. s), py_setenv = (\<lambda>n v s. s), py_compile = (\<lambda>d f s. (Some 1, add_mset 1 s)),
     py_exec_module = (\<lambda>n c s. (Some 2, add_mset 2 s)), py_module = (\<lambda>n s. Some 3),
     py_call = (\<lambda>b n xs s. (Some 4, add_mset 4 s)), py_main_dict_copy = (\<lambda>s. (Some 5, add_mset 5 s)),
     py_run = (\<lambda>d g s. (Some 6, add_mset 6 s)), py_err_print = (\<lambda>s. s), py_decref = (\<lambda>x s. s - {#x#}),
     py_interactive = (\<lambda>s. s)\<rparr>"

lemma boot_returns_or_halts_witness:
  "((\<exists>s'. unununium_init willing_python (replicate 753744 0) {#} = Some (Returned 1 s') \<and> s' = {#}) \<or>
      (\<exists>x \<in> set messages. unununium_init willing_python (replicate 753744 0) {#} =
        Some (Halted (patch 0xb8000 (on_screen x) (replicate 753744 0))))) \<and>
    c_stuff willing_python {#} = {#}"
proof -
  have "ref_contract willing_python (\<lambda>s. s)" by (simp add: ref_contract_def willing_python_def gives_def)
  then show ?thesis using boot_returns_or_halts [of willing_python "\<lambda>s. s" "replicate 753744 0" "{#}"] by simp
qed

end
