(* ===== verification/Spec2Isabelle.thy ===== *)
theory Spec2Isabelle
  imports Memfs_Correct Irq Numconv Sort Alloc Xdr_Rec_Props Rand Inet6 Timefmt Fnmatch Stdio_Kernel Dns Crypt Clnt_Props Io Boot
begin

text \<open>
  A verification library for the C code of the Unununium operating system.

  \<^bold>\<open>The system.\<close> Unununium is a single-address-space system for i386: an assembly core, a Python 2.3 interpreter
  linked into the image, and a C library (an in-tree dietlibc) below both. The interpreter runs in the kernel's flat
  memory without protection. Its C parts are: the start-up code \<open>src/sys/bimage/x86/c_stuff.c\<close>, which loads the
  built-in Python modules and connects the console to the C library; \<open>src/lib/c/i386/kludges.c\<close>, which implements the
  POSIX calls of the C library by calling methods of Python file objects; the Python modules
  \<open>src/hardware/irqmodule.c\<close> (interrupt counters, over the interrupt controller of
  \<open>src/sys/interrupts/x86/iridia.asm\<close>) and \<open>src/hardware/iomodule.c\<close> (ports and raw memory); and the C library under
  \<open>src/lib/c\<close>, on which the interpreter and these modules are built.

  \<^bold>\<open>Conventions (theory Prelude).\<close> Memory is the list of its bytes (\<open>ram\<close>), a pointer an index into it, and an access
  beyond it a fault. An operation that can fault, overflow a signed integer or index an array out of range returns an
  \<open>option\<close> whose \<open>None\<close> is this undefined behaviour. Integers are words of their C width, or \<open>int\<close> with explicit
  checks (\<open>i32\<close>) where signed overflow matters; plain \<open>char\<close> is signed. What lies outside the modelled C code is a
  parameter: Python file objects and the interpreter (records \<open>vfs\<close> and \<open>python\<close>), devices (\<open>bus\<close>), the memory manager, the
  transport below a record stream, comparison functions.

  \<^bold>\<open>Theories.\<close>
  \<^item> \<open>Memfs\<close>: kludges.c, the descriptor table \<open>memfs_fd\<close> (type \<open>kst\<close>) and every POSIX call on it. \<open>Ramfs\<close>: the file
    class of \<open>src/python_modules/ramfs.py\<close>, and the locale \<open>file_service\<close> with the contract of a seekable file that the
    class meets. \<open>Memfs_Correct\<close>: in every reachable state (\<open>kreach\<close>) the calls are defined exactly for the
    descriptors the code lets through and for the counters of \<open>time\<close> and \<open>getpid\<close> at their maximum, \<open>open\<close> takes the
    lowest free descriptor, \<open>close\<close> undoes it, pending exceptions are kept but for two cases of the seeks, and data written is
    read back through the whole stack.
  \<^item> \<open>Irq\<close>: irqmodule.c over the client rings of the controller (locale \<open>irq_controller\<close>, interpreted on the controller
    of iridia.asm); runs are an inductive step relation of calls, interrupts and the single accesses of the polling call to its
    counter, from the state after boot (the timer handler on line 0, the cascade on line 2). Every interrupt is accounted for, and lost
    exactly between the read and the write of the decrement; monitoring and hooking agree, and the undefined line numbers
    are exactly those the code does not check.
  \<^item> \<open>Cstring\<close>, \<open>Ctype\<close>, \<open>Numconv\<close>, \<open>Sort\<close>, \<open>Rand\<close>: \<open>src/lib/c/lib\<close>. Functional correctness of copying, searching,
    comparing and bounded copying on RAM; character classes against their ASCII ranges; the integer readers and writers
    and their round trip; \<open>qsort\<close> and \<open>bsearch\<close> for every comparison that is a total preorder (locale \<open>comparison\<close>,
    interpreted on strings); the random number generators against their recurrences.
  \<^item> \<open>Alloc\<close>: \<open>malloc\<close>, \<open>free\<close>, \<open>calloc\<close> and \<open>realloc\<close> of \<open>src/lib/c/lib/alloc.c\<close> over the memory manager: blocks stay apart, \<open>calloc\<close>
    refuses overflowing sizes, and what \<open>realloc\<close> does to the old block and without memory.
  \<^item> \<open>Inet\<close>: the address conversions of \<open>src/lib/c/libcruft\<close>. \<open>Inet6\<close>: what \<open>inet_ntop\<close> writes for an IPv6 address is
    read back by \<open>inet_pton\<close> unless zero words are scattered.
  \<^item> \<open>Time\<close>, \<open>Timefmt\<close>: \<open>src/lib/c/libugly\<close>, broken-down time and its formats. \<open>timegm\<close> inverts \<open>gmtime_r\<close> on all
    32-bit times; \<open>strftime\<close> stays within its buffer but for the NUL.
  \<^item> \<open>Fnmatch\<close>: \<open>src/lib/c/libshell/fnmatch.c\<close>, glob patterns: the strings accepted by the text of a sequence of pattern
    items (characters, stars, sets), what a negated set accepts, and that \<open>?\<close> is no wildcard.
  \<^item> \<open>Printf\<close>: \<open>src/lib/c/lib/__v_printf.c\<close> and the functions that store its output in memory. A \<open>%d\<close> field is the one of
    the C standard; \<open>vsnprintf\<close> stores one byte past its buffer; \<open>strtol\<close> reads back what \<open>%d\<close> printed.
  \<^item> \<open>Stdio\<close>: the streams of \<open>src/lib/c/libstdio\<close>, one function per file, over the system calls (record \<open>sys\<close>).
    \<open>Stdio_Correct\<close>: the locale \<open>seekable_fd\<close> of what a stream relies on, and in it that every operation refines an
    unbuffered file, a list of bytes with a position. \<open>Stdio_Kernel\<close>: the interpretation of the locale on the descriptor
    layer over the ramfs, and whole sessions from \<open>fopen\<close> to \<open>fclose\<close>.
  \<^item> \<open>Dns\<close>: names in DNS packets, \<open>dnscruft.c\<close>, \<open>dn_expand.c\<close> and \<open>res_mkquery.c\<close> of \<open>src/lib/c/libcruft\<close>: queries decode to
    their name, the packets that are decoded to an end, those that are decoded for ever and those that are read past, and the
    bytes stored whatever the result.
  \<^item> \<open>Md5\<close>, \<open>Md5crypt\<close>, \<open>Crypt\<close>: \<open>src/lib/c/libcrypt\<close>. The digest of any sequence of updates is the one of RFC 1321; DES
    encryption is undone by the round keys in the reverse order; a stored hash accepts its password.
  \<^item> \<open>Xdr\<close>: the filters of \<open>src/lib/c/librpc/xdr*.c\<close> over any stream operations (record \<open>xdr_ops\<close>). \<open>Xdr_Codec\<close>: the
    locale \<open>xdr_stream\<close>, the contract of a stream, and in it for each filter the bytes it appends, that decoding restores
    the object and that no input makes it undefined, the storage that the filter allocates included. \<open>Xdr_Mem\<close>: memory streams, an interpretation. \<open>Xdr_Rec\<close>: record
    streams, whose loops are partial functions because a transport may deliver no bytes for ever; \<open>Xdr_Rec_Correct\<close>:
    their framing on the wire, that they keep the contract over any reliable transport, and the one state in which writing breaks it; \<open>Xdr_Rec_Props\<close>: end-to-end properties over a
    pipe that cuts the bytes anywhere.
  \<^item> \<open>Rpc\<close>: the messages of remote procedure calls (\<open>rpc_prot.c\<close>, \<open>rpc_callmsg.c\<close>, \<open>authunix_prot.c\<close>, \<open>pmap_prot.c\<close> and
    \<open>svc_auth_unix.c\<close> of \<open>src/lib/c/librpc\<close>), filters composed of the filters of \<open>Xdr\<close>. \<open>Rpc_Correct\<close>: replies, and the
    status the client makes of them; \<open>Rpc_Call\<close>: calls through the buffer of a memory stream; \<open>Rpc_Auth\<close>: UNIX
    credentials from the client to the server, which sees every second group, and the credentials from the network that make the server undefined.
  \<^item> \<open>Svc\<close>: the server, \<open>svc.c\<close> with \<open>svc_auth.c\<close>, \<open>svc_simple.c\<close> and \<open>ffs.c\<close>, over any transport (record \<open>xp_ops\<close>), and the
    datagram transport \<open>svc_udp.c\<close> over sockets (record \<open>sock_ops\<close>). \<open>Svc_Correct\<close>: what a datagram makes the server send
    (relation \<open>answer\<close>), and that the list of services has one entry for a version of a program. \<open>Svc_Props\<close>: the answer
    to a datagram from the set of ready sockets on, and the calls that stop the server.
  \<^item> \<open>Clnt\<close>: the datagram client \<open>clnt_udp.c\<close> with \<open>auth_none.c\<close>, over sockets and \<open>select\<close> (record \<open>clnt_sock\<close>).
    \<open>Clnt_Correct\<close>: the request that is sent, what the client makes of an answer and when it gives up. \<open>Clnt_Props\<close>: a remote
    procedure call from client to server and back, and one that is not answered.
  \<^item> \<open>Io\<close>: iomodule.c. \<open>Boot\<close>: c_stuff.c; initialization returns or halts with its message on the screen, and the
    references the file is given are given back.

  \<^bold>\<open>Interaction.\<close> The locales are the interfaces: a client's lemmas are proved from the contract and hold for the
  provider by interpretation. Descriptor layer over file class, interrupt module over controller, XDR filters over memory
  and record streams, sorting over string comparison. The allocator of the XDR filters is any function that may fail.
  RPC messages use the contract of the XDR streams and its interpretation on memory; the server and the client use a second
  interpretation, on the streams over one buffer, and meet in \<open>Clnt_Props\<close>, where the sockets of both are one network. Streams
  rest on the descriptor layer through \<open>seekable_fd\<close>, \<open>fprintf\<close> on the formatted output and the streams, \<open>crypt\<close> on the
  digest. Addresses use the number readers and \<open>htonl\<close>, time formats the
  character classes and \<open>strncasecmp\<close>, \<open>Io\<close> uses \<open>memmove\<close>.

  \<^bold>\<open>Bounds and fuel.\<close> The recursion of \<open>Qsort\<close> is given the length of the array plus one as fuel, which its proof shows
  to be enough; part 2 of \<open>scan_ip6\<close> stores at least two of at most sixteen bytes in each turn, so nine turns suffice; the
  nested formats of \<open>strftime\<close> and \<open>strptime\<close> contain no nested format, so that a depth of one is enough. The loop of
  \<open>__dns_decodename\<close> is given fuel because it may go on for ever; \<open>decodename_termination\<close> says when some fuel is enough and
  when none is. All other loops are total functions with a measure, or the partial functions of \<open>Xdr_Rec\<close>, \<open>Stdio\<close>,
  \<open>Svc\<close> and \<open>Clnt\<close>, where a transport or a socket decides how long they go on; \<open>server_answers\<close>, \<open>remote_call\<close> and
  \<open>call_times_out\<close> say that they return.

  \<^bold>\<open>Not modelled.\<close> The assembly core (memory manager, scheduler, interrupt stubs other than the client rings), the
  Python programs other than the file class, and the floating-point functions are not C or not integer code.
  \<open>src/hardware/uuutimemodule.c\<close> only passes a number on to the assembly clock. \<open>src/hardware/gatest\<close> and \<open>src/snap\<close> are a third-party graphics
  driver kit. Of the C library, formatted input, threads, dynamic linking, regular
  expressions, the RPC transports over byte streams and the creation of RPC clients and servers, the parts of the name service that use sockets and the files that only wrap
  system calls are left out or rest on a kernel interface this system does not provide.
\<close>

end
